(* ===== verification/Prelude.thy ===== *)
theory Prelude
  imports Main "HOL-Library.Word"
begin

text \<open>
  What every component of the development shares.

  \<^item> \<open>failure\<close> and \<open>'a result\<close>: the ways the C++ code stops instead of returning. An
    \<open>assert\<close> that does not hold is \<open>AssertFailed\<close>, an \<open>llvm_unreachable\<close> is
    \<open>Unreachable\<close>, a \<open>report_fatal_error\<close> is \<open>FatalError\<close>. A function of the
    source that can stop in one of these ways returns \<open>Inl\<close> of the failure.
  \<^item> \<open>u32\<close>, \<open>u64\<close>, \<open>i32\<close>, \<open>i64\<close>: the conversions of C++ to its fixed-width integer
    types. A quantity that the code holds in such a type is an \<open>int\<close> of the model, and every
    operation whose result may leave the type's range is wrapped in the conversion.
  \<^item> small facts on lists and on those conversions that several component theories use.
\<close>

unbundle bit_operations_syntax

section \<open>Failures as values\<close>

datatype failure = AssertFailed | Unreachable | FatalError

type_synonym 'a result = "failure + 'a"

definition bind_result :: "'a result \<Rightarrow> ('a \<Rightarrow> 'b result) \<Rightarrow> 'b result" where
  "bind_result r f = (case r of Inl e \<Rightarrow> Inl e | Inr a \<Rightarrow> f a)"

lemma bind_result_cong [fundef_cong]:
  "r = r' \<Longrightarrow> (\<And>a. r' = Inr a \<Longrightarrow> f a = f' a) \<Longrightarrow> bind_result r f = bind_result r' f'"
  by (cases r') (simp_all add: bind_result_def)

definition assert_that :: "bool \<Rightarrow> unit result" where
  "assert_that b = (if b then Inr () else Inl AssertFailed)"

lemma bind_result_simps [simp]:
  "bind_result (Inl e) f = Inl e"
  "bind_result (Inr a) f = f a"
  by (simp_all add: bind_result_def)

lemma bind_result_Inr_iff:
  "bind_result r f = Inr b \<longleftrightarrow> (\<exists>a. r = Inr a \<and> f a = Inr b)"
  by (cases r) simp_all

lemma assert_that_simps [simp]:
  "assert_that True = Inr ()"
  "assert_that False = Inl AssertFailed"
  by (simp_all add: assert_that_def)

lemma assert_that_Inr_iff: "assert_that b = Inr u \<longleftrightarrow> b"
  by (simp add: assert_that_def)

lemma map_sum_Inr_iff: "map_sum id f r = Inr b \<longleftrightarrow> (\<exists>a. r = Inr a \<and> b = f a)"
  by (cases r) auto

lemmas result_iffs = bind_result_Inr_iff assert_that_Inr_iff

text \<open>Taking apart a sequence of steps that ends well.\<close>

lemma bind_resultE: "bind_result r f = Inr b \<Longrightarrow> (\<And>a. r = Inr a \<Longrightarrow> f a = Inr b \<Longrightarrow> P) \<Longrightarrow> P"
  by (auto simp: bind_result_Inr_iff)

lemma guard_InrE: "(if c then Inl e else r) = Inr b \<Longrightarrow> (\<not> c \<Longrightarrow> r = Inr b \<Longrightarrow> P) \<Longrightarrow> P"
  by (simp split: if_splits)

lemma case_prod_InrE: "(case p of (x, y) \<Rightarrow> f x y) = Inr b \<Longrightarrow> (\<And>x y. p = (x, y) \<Longrightarrow> f x y = Inr b \<Longrightarrow> P) \<Longrightarrow> P"
  by (cases p) simp

text \<open>A loop whose body may stop: the state is threaded through the elements, the first failure wins.\<close>

fun fold_result :: "('a \<Rightarrow> 's \<Rightarrow> 's result) \<Rightarrow> 'a list \<Rightarrow> 's \<Rightarrow> 's result" where
  "fold_result f [] s = Inr s"
| "fold_result f (x # xs) s = bind_result (f x s) (fold_result f xs)"

lemma fold_result_append:
  "fold_result f (xs @ ys) s = bind_result (fold_result f xs s) (fold_result f ys)"
proof (induction xs arbitrary: s)
  case (Cons x xs)
  then show ?case by (cases "f x s") simp_all
qed simp

lemma fold_result_invariant:
  assumes "fold_result f xs s = Inr s'" "I s"
    and "\<And>x s s'. x \<in> set xs \<Longrightarrow> I s \<Longrightarrow> f x s = Inr s' \<Longrightarrow> I s'"
  shows "I s'"
  using assms by (induction xs arbitrary: s) (auto simp: bind_result_Inr_iff)

section \<open>The fixed-width integer types of the code\<close>

definition u32 :: "int \<Rightarrow> int" where "u32 x = take_bit 32 x"
definition u64 :: "int \<Rightarrow> int" where "u64 x = take_bit 64 x"
definition i32 :: "int \<Rightarrow> int" where "i32 x = signed_take_bit 31 x"
definition i64 :: "int \<Rightarrow> int" where "i64 x = signed_take_bit 63 x"

lemma u64_mod: "u64 x = x mod 2 ^ 64"
  by (simp add: u64_def take_bit_eq_mod)

lemma u32_mod: "u32 x = x mod 2 ^ 32"
  by (simp add: u32_def take_bit_eq_mod)

lemma u32_id: "0 \<le> x \<Longrightarrow> x < 2 ^ 32 \<Longrightarrow> u32 x = x"
  by (simp add: u32_def take_bit_int_eq_self)

lemma u64_id: "0 \<le> x \<Longrightarrow> x < 2 ^ 64 \<Longrightarrow> u64 x = x"
  by (simp add: u64_def take_bit_int_eq_self)

lemma i32_id: "- (2 ^ 31) \<le> x \<Longrightarrow> x < 2 ^ 31 \<Longrightarrow> i32 x = x"
  by (simp add: i32_def signed_take_bit_int_eq_self)

lemma i64_id: "- (2 ^ 63) \<le> x \<Longrightarrow> x < 2 ^ 63 \<Longrightarrow> i64 x = x"
  by (simp add: i64_def signed_take_bit_int_eq_self)

lemmas int_width_ids = u32_id u64_id i32_id i64_id

end
