(* ===== verification/MachineIR.thy ===== *)
theory MachineIR
  imports Prelude
begin

text \<open>
  The machine-level representation of the 2003f backend: the registers and opcodes declared in
  \<open>lib/Target/F2003f/F2003fRegisterInfo.td\<close> and \<open>F2003fInstrInfo.td\<close>, the operands of
  \<open>include/llvm/CodeGen/MachineOperand.h\<close>, instructions, and the instruction descriptors
  (operand list and flags) that TableGen derives from the \<open>.td\<close> file.

  The numbering of opcodes and registers is generated at build time and is not part of the
  model: opcodes and registers are constructors.
\<close>

section \<open>Registers\<close>

text \<open>\<open>NoRegister\<close> is the register number 0; \<open>VReg\<close> is a virtual register.\<close>

datatype reg = NoRegister | F0 | F1 | F2 | F3 | F5 | XX | VReg nat

section \<open>Opcodes\<close>

text \<open>
  \<open>form\<close> is the suffix of a two-operand instruction (destination, source), \<open>hform\<close> that of a
  three-operand one. A \<open>multiclass\<close> of the \<open>.td\<close> file is a constructor over its \<open>defm\<close>s, so
  \<open>BinOp ATA Fri\<close> is the instruction \<open>ATAri\<close>.
\<close>

datatype form = Frr | Frm | Fri | Fmr | Fmm | Fmi

datatype hform = Hrrr | Hrrm | Hrri | Hrmr | Hrmm | Hrmi
  | Hmrr | Hmrm | Hmri | Hmmr | Hmmm | Hmmi

datatype binop = ATA | NTA | ADA | EKC | DAL | DTO | DRO | DTOSNA

datatype extop = KRZ8I | KRZ16I

datatype truncop = KRZ8C | KRZ16C

datatype mulop = LAT | LATSNA

text \<open>
  \<open>fiform\<close> is the suffix of \<open>FI\<close> (left-hand side, right-hand side), \<open>malkrzform\<close> that of the
  \<open>MALKRZ\<close> a pseudo instruction ends with. The instructions of these two families are declared one by
  one in the \<open>.td\<close> file; each of its names is an abbreviation below.
\<close>

datatype fiform = Orr | Orm | Ori | Omr | Omm | Omi | Oir | Oim | Oii

datatype malkrzform = Mrr | Mrm | Mri | Mx

datatype opcode =
    KRZrr | KRZrm | KRZri | KRZmr | KRZmm | KRZmi
  | MALKRZrr | MALKRZrm | MALKRZri | MALKRZmr | MALKRZmm | MALKRZmi
  | INJ hform | FEN
  | SextLoad extop form | TruncStore truncop form
  | NACr | NACm
  | BinOp binop form | MulLO mulop form | MulLoHi mulop hform
  | FI fiform | FI_MALKRZ fiform malkrzform
  | KRZx | KRZxr | KRZxm | KRZxi
  | MALKRZx | MALKRZxr | MALKRZxm | MALKRZxi
  | INJ_FENXEOi | INJ_FENXEOr | INJ_FENXEOm
  | KRZ_DOSNUD
  | ADJCALLSTACKDOWN | ADJCALLSTACKUP | ATAframe
  | DBG_VALUE | INLINEASM | STATEPOINT
  | CFI_INSTRUCTION | EH_LABEL | GC_LABEL | KILL | IMPLICIT_DEF | LOCAL_ESCAPE
  | INSTRUCTION_LIST_END

abbreviation ATAri :: opcode where "ATAri \<equiv> BinOp ATA Fri"
abbreviation NTAri :: opcode where "NTAri \<equiv> BinOp NTA Fri"

abbreviation FIrr :: opcode where "FIrr \<equiv> FI Orr"
abbreviation FIrm :: opcode where "FIrm \<equiv> FI Orm"
abbreviation FIri :: opcode where "FIri \<equiv> FI Ori"
abbreviation FImr :: opcode where "FImr \<equiv> FI Omr"
abbreviation FImm :: opcode where "FImm \<equiv> FI Omm"
abbreviation FImi :: opcode where "FImi \<equiv> FI Omi"
abbreviation FIir :: opcode where "FIir \<equiv> FI Oir"
abbreviation FIim :: opcode where "FIim \<equiv> FI Oim"
abbreviation FIii :: opcode where "FIii \<equiv> FI Oii"
abbreviation FIrr_MALKRZrr :: opcode where "FIrr_MALKRZrr \<equiv> FI_MALKRZ Orr Mrr"
abbreviation FIrm_MALKRZrr :: opcode where "FIrm_MALKRZrr \<equiv> FI_MALKRZ Orm Mrr"
abbreviation FIri_MALKRZrr :: opcode where "FIri_MALKRZrr \<equiv> FI_MALKRZ Ori Mrr"
abbreviation FImr_MALKRZrr :: opcode where "FImr_MALKRZrr \<equiv> FI_MALKRZ Omr Mrr"
abbreviation FImm_MALKRZrr :: opcode where "FImm_MALKRZrr \<equiv> FI_MALKRZ Omm Mrr"
abbreviation FImi_MALKRZrr :: opcode where "FImi_MALKRZrr \<equiv> FI_MALKRZ Omi Mrr"
abbreviation FIir_MALKRZrr :: opcode where "FIir_MALKRZrr \<equiv> FI_MALKRZ Oir Mrr"
abbreviation FIim_MALKRZrr :: opcode where "FIim_MALKRZrr \<equiv> FI_MALKRZ Oim Mrr"
abbreviation FIii_MALKRZrr :: opcode where "FIii_MALKRZrr \<equiv> FI_MALKRZ Oii Mrr"
abbreviation FIrr_MALKRZrm :: opcode where "FIrr_MALKRZrm \<equiv> FI_MALKRZ Orr Mrm"
abbreviation FIrm_MALKRZrm :: opcode where "FIrm_MALKRZrm \<equiv> FI_MALKRZ Orm Mrm"
abbreviation FIri_MALKRZrm :: opcode where "FIri_MALKRZrm \<equiv> FI_MALKRZ Ori Mrm"
abbreviation FImr_MALKRZrm :: opcode where "FImr_MALKRZrm \<equiv> FI_MALKRZ Omr Mrm"
abbreviation FImm_MALKRZrm :: opcode where "FImm_MALKRZrm \<equiv> FI_MALKRZ Omm Mrm"
abbreviation FImi_MALKRZrm :: opcode where "FImi_MALKRZrm \<equiv> FI_MALKRZ Omi Mrm"
abbreviation FIir_MALKRZrm :: opcode where "FIir_MALKRZrm \<equiv> FI_MALKRZ Oir Mrm"
abbreviation FIim_MALKRZrm :: opcode where "FIim_MALKRZrm \<equiv> FI_MALKRZ Oim Mrm"
abbreviation FIii_MALKRZrm :: opcode where "FIii_MALKRZrm \<equiv> FI_MALKRZ Oii Mrm"
abbreviation FIrr_MALKRZri :: opcode where "FIrr_MALKRZri \<equiv> FI_MALKRZ Orr Mri"
abbreviation FIrm_MALKRZri :: opcode where "FIrm_MALKRZri \<equiv> FI_MALKRZ Orm Mri"
abbreviation FIri_MALKRZri :: opcode where "FIri_MALKRZri \<equiv> FI_MALKRZ Ori Mri"
abbreviation FImr_MALKRZri :: opcode where "FImr_MALKRZri \<equiv> FI_MALKRZ Omr Mri"
abbreviation FImm_MALKRZri :: opcode where "FImm_MALKRZri \<equiv> FI_MALKRZ Omm Mri"
abbreviation FImi_MALKRZri :: opcode where "FImi_MALKRZri \<equiv> FI_MALKRZ Omi Mri"
abbreviation FIir_MALKRZri :: opcode where "FIir_MALKRZri \<equiv> FI_MALKRZ Oir Mri"
abbreviation FIim_MALKRZri :: opcode where "FIim_MALKRZri \<equiv> FI_MALKRZ Oim Mri"
abbreviation FIii_MALKRZri :: opcode where "FIii_MALKRZri \<equiv> FI_MALKRZ Oii Mri"
abbreviation FIrr_MALKRZx :: opcode where "FIrr_MALKRZx \<equiv> FI_MALKRZ Orr Mx"
abbreviation FIrm_MALKRZx :: opcode where "FIrm_MALKRZx \<equiv> FI_MALKRZ Orm Mx"
abbreviation FIri_MALKRZx :: opcode where "FIri_MALKRZx \<equiv> FI_MALKRZ Ori Mx"
abbreviation FImr_MALKRZx :: opcode where "FImr_MALKRZx \<equiv> FI_MALKRZ Omr Mx"
abbreviation FImm_MALKRZx :: opcode where "FImm_MALKRZx \<equiv> FI_MALKRZ Omm Mx"
abbreviation FImi_MALKRZx :: opcode where "FImi_MALKRZx \<equiv> FI_MALKRZ Omi Mx"
abbreviation FIir_MALKRZx :: opcode where "FIir_MALKRZx \<equiv> FI_MALKRZ Oir Mx"
abbreviation FIim_MALKRZx :: opcode where "FIim_MALKRZx \<equiv> FI_MALKRZ Oim Mx"
abbreviation FIii_MALKRZx :: opcode where "FIii_MALKRZx \<equiv> FI_MALKRZ Oii Mx"

section \<open>Operands and instructions\<close>

text \<open>
  One constructor per \<open>MachineOperandType\<close>. A register operand carries its \<open>isDef\<close>,
  \<open>isImplicit\<close> and \<open>isKill\<close> bits; a symbolic operand its offset and its target flags. The
  branch analysis stores an opcode number in an immediate operand: that operand is
  \<open>MO_OpcodeImm\<close>, since the numbering itself is generated.
\<close>

datatype machine_operand =
    MO_Register reg bool bool bool
  | MO_Immediate int
  | MO_OpcodeImm opcode
  | MO_CImmediate int
  | MO_FPImmediate
  | MO_MachineBasicBlock nat
  | MO_FrameIndex int
  | MO_ConstantPoolIndex nat int nat
  | MO_TargetIndex nat int
  | MO_JumpTableIndex nat nat
  | MO_ExternalSymbol string int nat
  | MO_GlobalAddress string int nat
  | MO_BlockAddress string int nat
  | MO_RegisterMask
  | MO_RegisterLiveOut
  | MO_Metadata
  | MO_MCSymbol string
  | MO_CFIIndex nat
  | MO_IntrinsicID nat
  | MO_Predicate nat

text \<open>\<open>BuildMI(..).addReg(r)\<close>, and a destination register of \<open>BuildMI\<close>.\<close>

abbreviation use_reg :: "reg \<Rightarrow> machine_operand" where
  "use_reg r \<equiv> MO_Register r False False False"

abbreviation def_reg :: "reg \<Rightarrow> machine_operand" where
  "def_reg r \<equiv> MO_Register r True False False"

record minstr =
  opc :: opcode
  operands :: "machine_operand list"
  inside_bundle :: bool

definition mk_instr :: "opcode \<Rightarrow> machine_operand list \<Rightarrow> minstr" where
  "mk_instr c ops = \<lparr>opc = c, operands = ops, inside_bundle = False\<rparr>"

lemma mk_instr_simps [simp]:
  "opc (mk_instr c ops) = c"
  "operands (mk_instr c ops) = ops"
  "inside_bundle (mk_instr c ops) = False"
  by (simp_all add: mk_instr_def)

fun operand_imm :: "machine_operand \<Rightarrow> int result" where
  "operand_imm (MO_Immediate i) = Inr i"
| "operand_imm _ = Inl AssertFailed"

fun operand_is_imm :: "machine_operand \<Rightarrow> bool" where
  "operand_is_imm (MO_Immediate i) = True"
| "operand_is_imm (MO_OpcodeImm c) = True"
| "operand_is_imm _ = False"

fun operand_is_FI :: "machine_operand \<Rightarrow> bool" where
  "operand_is_FI (MO_FrameIndex i) = True"
| "operand_is_FI _ = False"

fun operand_index :: "machine_operand \<Rightarrow> int result" where
  "operand_index (MO_FrameIndex i) = Inr i"
| "operand_index _ = Inl AssertFailed"

fun operand_reg :: "machine_operand \<Rightarrow> reg result" where
  "operand_reg (MO_Register r d i k) = Inr r"
| "operand_reg _ = Inl AssertFailed"

fun operand_MCSymbol :: "machine_operand \<Rightarrow> string result" where
  "operand_MCSymbol (MO_MCSymbol x) = Inr x"
| "operand_MCSymbol _ = Inl AssertFailed"

fun operand_MBB :: "machine_operand \<Rightarrow> nat result" where
  "operand_MBB (MO_MachineBasicBlock b) = Inr b"
| "operand_MBB _ = Inl AssertFailed"

text \<open>\<open>MI.getOperand(i)\<close> asserts that \<open>i\<close> is in range.\<close>

definition get_operand :: "minstr \<Rightarrow> nat \<Rightarrow> machine_operand result" where
  "get_operand mi i = (if i < length (operands mi) then Inr (operands mi ! i) else Inl AssertFailed)"

lemma get_operand_Inr [simp]: "i < length (operands mi) \<Longrightarrow> get_operand mi i = Inr (operands mi ! i)"
  by (simp add: get_operand_def)

section \<open>Instruction descriptors\<close>

text \<open>
  The declared operands of an instruction, in the order \<open>outs\<close> then \<open>ins\<close>. A \<open>mem\<close> operand is
  three machine operands (base, displacement register, displacement).
\<close>

datatype operand_kind = OReg | OMem | OImm | OCC | OTarget

fun kind_width :: "operand_kind \<Rightarrow> nat" where
  "kind_width OMem = 3"
| "kind_width _ = 1"

fun form_dst :: "form \<Rightarrow> operand_kind" where
  "form_dst Frr = OReg" | "form_dst Frm = OReg" | "form_dst Fri = OReg"
| "form_dst Fmr = OMem" | "form_dst Fmm = OMem" | "form_dst Fmi = OMem"

fun form_src :: "form \<Rightarrow> operand_kind" where
  "form_src Frr = OReg" | "form_src Frm = OMem" | "form_src Fri = OImm"
| "form_src Fmr = OReg" | "form_src Fmm = OMem" | "form_src Fmi = OImm"

text \<open>A register destination of a read-modify-write instruction is tied to a \<open>src1\<close> operand.\<close>

definition tied_form :: "form \<Rightarrow> operand_kind list" where
  "tied_form f = (if form_dst f = OReg then [OReg, OReg, form_src f] else [OMem, form_src f])"

definition plain_form :: "form \<Rightarrow> operand_kind list" where
  "plain_form f = [form_dst f, form_src f]"

fun inj_operands :: "hform \<Rightarrow> operand_kind list" where
  "inj_operands Hrrr = [OReg, OReg, OReg, OReg]"
| "inj_operands Hrrm = [OReg, OReg, OReg, OMem]"
| "inj_operands Hrri = [OReg, OReg, OReg, OImm]"
| "inj_operands Hmrr = [OReg, OMem, OReg, OReg]"
| "inj_operands Hmrm = [OReg, OMem, OReg, OMem]"
| "inj_operands Hmri = [OReg, OMem, OReg, OImm]"
| "inj_operands Hrmr = [OReg, OMem, OReg]"
| "inj_operands Hrmm = [OReg, OMem, OMem]"
| "inj_operands Hrmi = [OReg, OMem, OImm]"
| "inj_operands Hmmr = [OMem, OMem, OReg]"
| "inj_operands Hmmm = [OMem, OMem, OMem]"
| "inj_operands Hmmi = [OMem, OMem, OImm]"

fun mul_operands :: "hform \<Rightarrow> operand_kind list" where
  "mul_operands Hrrr = [OReg, OReg, OReg, OReg]"
| "mul_operands Hrrm = [OReg, OReg, OReg, OMem]"
| "mul_operands Hrri = [OReg, OReg, OReg, OImm]"
| "mul_operands Hrmr = [OReg, OReg, OMem, OReg]"
| "mul_operands Hrmm = [OReg, OReg, OMem, OMem]"
| "mul_operands Hrmi = [OReg, OReg, OMem, OImm]"
| "mul_operands Hmrr = [OReg, OMem, OReg]"
| "mul_operands Hmrm = [OReg, OMem, OMem]"
| "mul_operands Hmri = [OReg, OMem, OImm]"
| "mul_operands Hmmr = [OMem, OMem, OReg]"
| "mul_operands Hmmm = [OMem, OMem, OMem]"
| "mul_operands Hmmi = [OMem, OMem, OImm]"

fun mc_operands :: "opcode \<Rightarrow> operand_kind list" where
  "mc_operands KRZrr = [OReg, OReg]"
| "mc_operands KRZrm = [OReg, OMem]"
| "mc_operands KRZri = [OReg, OImm]"
| "mc_operands KRZmr = [OMem, OReg]"
| "mc_operands KRZmm = [OMem, OMem]"
| "mc_operands KRZmi = [OMem, OImm]"
| "mc_operands MALKRZrr = [OReg, OReg, OReg]"
| "mc_operands MALKRZrm = [OReg, OReg, OMem]"
| "mc_operands MALKRZri = [OReg, OReg, OImm]"
| "mc_operands MALKRZmr = [OMem, OReg]"
| "mc_operands MALKRZmm = [OMem, OMem]"
| "mc_operands MALKRZmi = [OMem, OImm]"
| "mc_operands (INJ h) = inj_operands h"
| "mc_operands FEN = []"
| "mc_operands (SextLoad e f) = plain_form f"
| "mc_operands (TruncStore t f) = tied_form f"
| "mc_operands NACr = [OReg, OReg]"
| "mc_operands NACm = [OMem]"
| "mc_operands (BinOp b f) = tied_form f"
| "mc_operands (MulLO m f) = tied_form f"
| "mc_operands (MulLoHi m h) = mul_operands h"
| "mc_operands FIrr = [OReg, OReg, OCC]"
| "mc_operands FIrm = [OReg, OMem, OCC]"
| "mc_operands FIri = [OReg, OImm, OCC]"
| "mc_operands FImr = [OMem, OReg, OCC]"
| "mc_operands FImm = [OMem, OMem, OCC]"
| "mc_operands FImi = [OMem, OImm, OCC]"
| "mc_operands FIir = [OImm, OReg, OCC]"
| "mc_operands FIim = [OImm, OMem, OCC]"
| "mc_operands FIii = [OImm, OImm, OCC]"
| "mc_operands FIrr_MALKRZrr = [OReg, OReg, OReg, OReg, OReg, OCC]"
| "mc_operands FIrm_MALKRZrr = [OReg, OReg, OReg, OReg, OMem, OCC]"
| "mc_operands FIri_MALKRZrr = [OReg, OReg, OReg, OReg, OImm, OCC]"
| "mc_operands FImr_MALKRZrr = [OReg, OReg, OReg, OMem, OReg, OCC]"
| "mc_operands FImm_MALKRZrr = [OReg, OReg, OReg, OMem, OMem, OCC]"
| "mc_operands FImi_MALKRZrr = [OReg, OReg, OReg, OMem, OImm, OCC]"
| "mc_operands FIir_MALKRZrr = [OReg, OReg, OReg, OImm, OReg, OCC]"
| "mc_operands FIim_MALKRZrr = [OReg, OReg, OReg, OImm, OMem, OCC]"
| "mc_operands FIii_MALKRZrr = [OReg, OReg, OReg, OImm, OImm, OCC]"
| "mc_operands FIrr_MALKRZrm = [OReg, OReg, OMem, OReg, OReg, OCC]"
| "mc_operands FIrm_MALKRZrm = [OReg, OReg, OMem, OReg, OMem, OCC]"
| "mc_operands FIri_MALKRZrm = [OReg, OReg, OMem, OReg, OImm, OCC]"
| "mc_operands FImr_MALKRZrm = [OReg, OReg, OMem, OMem, OReg, OCC]"
| "mc_operands FImm_MALKRZrm = [OReg, OReg, OMem, OMem, OMem, OCC]"
| "mc_operands FImi_MALKRZrm = [OReg, OReg, OMem, OMem, OImm, OCC]"
| "mc_operands FIir_MALKRZrm = [OReg, OReg, OMem, OImm, OReg, OCC]"
| "mc_operands FIim_MALKRZrm = [OReg, OReg, OMem, OImm, OMem, OCC]"
| "mc_operands FIii_MALKRZrm = [OReg, OReg, OMem, OImm, OImm, OCC]"
| "mc_operands FIrr_MALKRZri = [OReg, OReg, OImm, OReg, OReg, OCC]"
| "mc_operands FIrm_MALKRZri = [OReg, OReg, OImm, OReg, OMem, OCC]"
| "mc_operands FIri_MALKRZri = [OReg, OReg, OImm, OReg, OImm, OCC]"
| "mc_operands FImr_MALKRZri = [OReg, OReg, OImm, OMem, OReg, OCC]"
| "mc_operands FImm_MALKRZri = [OReg, OReg, OImm, OMem, OMem, OCC]"
| "mc_operands FImi_MALKRZri = [OReg, OReg, OImm, OMem, OImm, OCC]"
| "mc_operands FIir_MALKRZri = [OReg, OReg, OImm, OImm, OReg, OCC]"
| "mc_operands FIim_MALKRZri = [OReg, OReg, OImm, OImm, OMem, OCC]"
| "mc_operands FIii_MALKRZri = [OReg, OReg, OImm, OImm, OImm, OCC]"
| "mc_operands KRZx = [OTarget]"
| "mc_operands KRZxr = [OReg]"
| "mc_operands KRZxm = [OMem]"
| "mc_operands KRZxi = [OImm]"
| "mc_operands MALKRZx = [OTarget]"
| "mc_operands MALKRZxr = [OReg]"
| "mc_operands MALKRZxm = [OMem]"
| "mc_operands MALKRZxi = [OImm]"
| "mc_operands FIrr_MALKRZx = [OTarget, OReg, OReg, OCC]"
| "mc_operands FIrm_MALKRZx = [OTarget, OReg, OMem, OCC]"
| "mc_operands FIri_MALKRZx = [OTarget, OReg, OImm, OCC]"
| "mc_operands FImr_MALKRZx = [OTarget, OMem, OReg, OCC]"
| "mc_operands FImm_MALKRZx = [OTarget, OMem, OMem, OCC]"
| "mc_operands FImi_MALKRZx = [OTarget, OMem, OImm, OCC]"
| "mc_operands FIir_MALKRZx = [OTarget, OImm, OReg, OCC]"
| "mc_operands FIim_MALKRZx = [OTarget, OImm, OMem, OCC]"
| "mc_operands FIii_MALKRZx = [OTarget, OImm, OImm, OCC]"
| "mc_operands INJ_FENXEOi = [OImm]"
| "mc_operands INJ_FENXEOr = [OReg]"
| "mc_operands INJ_FENXEOm = [OMem]"
| "mc_operands KRZ_DOSNUD = []"
| "mc_operands ADJCALLSTACKDOWN = [OImm, OImm]"
| "mc_operands ADJCALLSTACKUP = [OImm, OImm]"
| "mc_operands ATAframe = [OReg, OImm, OImm]"
| "mc_operands DBG_VALUE = []"
| "mc_operands INLINEASM = []"
| "mc_operands STATEPOINT = []"
| "mc_operands CFI_INSTRUCTION = [OImm]"
| "mc_operands EH_LABEL = [OImm]"
| "mc_operands GC_LABEL = [OImm]"
| "mc_operands KILL = []"
| "mc_operands IMPLICIT_DEF = [OReg]"
| "mc_operands LOCAL_ESCAPE = [OReg, OImm]"
| "mc_operands INSTRUCTION_LIST_END = []"

text \<open>\<open>TII.get(Opc).getNumOperands()\<close>.\<close>

definition num_operands :: "opcode \<Rightarrow> nat" where
  "num_operands c = sum_list (map kind_width (mc_operands c))"

text \<open>The flags of the descriptors.\<close>

definition fi_malkrz_branches :: "opcode list" where
  "fi_malkrz_branches =
     [FIrr_MALKRZx, FIrm_MALKRZx, FIri_MALKRZx, FImr_MALKRZx, FImm_MALKRZx, FImi_MALKRZx,
      FIir_MALKRZx, FIim_MALKRZx, FIii_MALKRZx]"

definition isBarrier :: "opcode \<Rightarrow> bool" where
  "isBarrier c = (c \<in> {KRZx, KRZxr, KRZxm, KRZxi, KRZ_DOSNUD})"

definition isBranch :: "opcode \<Rightarrow> bool" where
  "isBranch c = (c \<in> {KRZx, KRZxr, KRZxm, KRZxi, MALKRZx, MALKRZxr, MALKRZxm, MALKRZxi}
                 \<or> c \<in> set fi_malkrz_branches)"

definition isIndirectBranch :: "opcode \<Rightarrow> bool" where
  "isIndirectBranch c = (c \<in> {KRZxr, KRZxm, KRZxi, MALKRZxr, MALKRZxm, MALKRZxi})"

definition isTerminator :: "opcode \<Rightarrow> bool" where
  "isTerminator c = (isBranch c \<or> c = KRZ_DOSNUD)"

definition isReturn :: "opcode \<Rightarrow> bool" where
  "isReturn c = (c = KRZ_DOSNUD)"

definition isPredicable :: "opcode \<Rightarrow> bool" where
  "isPredicable c = False"

lemmas desc_flags = isBarrier_def isBranch_def isIndirectBranch_def isTerminator_def isReturn_def
  isPredicable_def fi_malkrz_branches_def

end
