(* ===== verification/CondCode.thy ===== *)
theory CondCode
  imports Prelude
begin

text \<open>
  Condition codes: the enumeration \<open>F2003fCC::CondCode\<close> of
  \<open>lib/Target/F2003f/F2003f.h\<close> with its numbering, its printing and its negation
  (\<open>OppositeF2003fCC\<close>), and the translation \<open>getF2003fCC\<close> of the target-independent
  \<open>ISD::CondCode\<close> (\<open>F2003fISelLowering.cpp\<close>). The meaning of the codes is the one of the
  comments beside the enumerators, on 32-bit words.
\<close>

section \<open>The 2003f condition codes\<close>

datatype cond_code = LLONYS | XTLONYS | XOLONYS | XYLONYS | CLO | NIV | LLO | XTLO | XOLO | XYLO

fun cc_number :: "cond_code \<Rightarrow> int" where
  "cc_number LLONYS = 0"
| "cc_number XTLONYS = 1"
| "cc_number XOLONYS = 2"
| "cc_number XYLONYS = 3"
| "cc_number CLO = 6"
| "cc_number NIV = 7"
| "cc_number LLO = 8"
| "cc_number XTLO = 9"
| "cc_number XOLO = 10"
| "cc_number XYLO = 11"

text \<open>\<open>static_cast<F2003fCC::CondCode>(n)\<close>: the enumerator with that number, if there is one.\<close>

definition cc_of_number :: "int \<Rightarrow> cond_code option" where
  "cc_of_number n =
     (if n = 0 then Some LLONYS else if n = 1 then Some XTLONYS
      else if n = 2 then Some XOLONYS else if n = 3 then Some XYLONYS
      else if n = 6 then Some CLO else if n = 7 then Some NIV
      else if n = 8 then Some LLO else if n = 9 then Some XTLO
      else if n = 10 then Some XOLO else if n = 11 then Some XYLO else None)"

lemma cc_of_number_number [simp]: "cc_of_number (cc_number c) = Some c"
  by (cases c) (simp_all add: cc_of_number_def)

lemma cc_of_number_Some_iff: "cc_of_number n = Some c \<longleftrightarrow> n = cc_number c"
  by (cases c) (auto simp: cc_of_number_def)

fun F2003fCCToString :: "cond_code \<Rightarrow> string" where
  "F2003fCCToString LLONYS = ''llonys''"
| "F2003fCCToString XTLONYS = ''xtlonys''"
| "F2003fCCToString XOLONYS = ''xolonys''"
| "F2003fCCToString XYLONYS = ''xylonys''"
| "F2003fCCToString CLO = ''clo''"
| "F2003fCCToString NIV = ''niv''"
| "F2003fCCToString LLO = ''llo''"
| "F2003fCCToString XTLO = ''xtlo''"
| "F2003fCCToString XOLO = ''xolo''"
| "F2003fCCToString XYLO = ''xylo''"

lemma F2003fCCToString_inj: "F2003fCCToString a = F2003fCCToString b \<longleftrightarrow> a = b"
  by (cases a; cases b) simp_all

text \<open>\<open>OppositeF2003fCC\<close> works on the number: it flips bit 0.\<close>

definition OppositeF2003fCC :: "int \<Rightarrow> int" where
  "OppositeF2003fCC n = n XOR 1"

fun opposite :: "cond_code \<Rightarrow> cond_code" where
  "opposite LLONYS = XTLONYS" | "opposite XTLONYS = LLONYS"
| "opposite XOLONYS = XYLONYS" | "opposite XYLONYS = XOLONYS"
| "opposite CLO = NIV" | "opposite NIV = CLO"
| "opposite LLO = XTLO" | "opposite XTLO = LLO"
| "opposite XOLO = XYLO" | "opposite XYLO = XOLO"

lemma OppositeF2003fCC_number: "OppositeF2003fCC (cc_number c) = cc_number (opposite c)"
  by (cases c) (simp_all add: OppositeF2003fCC_def)

lemma opposite_opposite [simp]: "opposite (opposite c) = c"
  by (cases c) simp_all

text \<open>What a code tests, as the comments of the enumeration say.\<close>

fun eval_cc :: "cond_code \<Rightarrow> 32 word \<Rightarrow> 32 word \<Rightarrow> bool" where
  "eval_cc LLONYS a b = (a > b)"
| "eval_cc XTLONYS a b = (a \<le> b)"
| "eval_cc XOLONYS a b = (a \<ge> b)"
| "eval_cc XYLONYS a b = (a < b)"
| "eval_cc CLO a b = (a = b)"
| "eval_cc NIV a b = (a \<noteq> b)"
| "eval_cc LLO a b = (sint a > sint b)"
| "eval_cc XTLO a b = (sint a \<le> sint b)"
| "eval_cc XOLO a b = (sint a \<ge> sint b)"
| "eval_cc XYLO a b = (sint a < sint b)"

lemma eval_cc_opposite: "eval_cc (opposite c) a b \<longleftrightarrow> \<not> eval_cc c a b"
  by (cases c) (auto simp: not_le not_less)

section \<open>The target-independent codes\<close>

datatype isd_cond = SETFALSE | SETOEQ | SETOGT | SETOGE | SETOLT | SETOLE | SETONE | SETO
  | SETUO | SETUEQ | SETUGT | SETUGE | SETULT | SETULE | SETUNE | SETTRUE
  | SETFALSE2 | SETEQ | SETGT | SETGE | SETLT | SETLE | SETNE | SETTRUE2 | SETCC_INVALID

fun getF2003fCC :: "isd_cond \<Rightarrow> cond_code result" where
  "getF2003fCC SETUGT = Inr LLONYS"
| "getF2003fCC SETULE = Inr XTLONYS"
| "getF2003fCC SETUGE = Inr XOLONYS"
| "getF2003fCC SETULT = Inr XYLONYS"
| "getF2003fCC SETEQ = Inr CLO"
| "getF2003fCC SETNE = Inr NIV"
| "getF2003fCC SETGT = Inr LLO"
| "getF2003fCC SETLE = Inr XTLO"
| "getF2003fCC SETGE = Inr XOLO"
| "getF2003fCC SETLT = Inr XYLO"
| "getF2003fCC _ = Inl Unreachable"

text \<open>
  The integer comparisons of \<open>ISDOpcodes.h\<close>: on integers, \<open>SETGT\<close> and its kin are signed, the
  \<open>SETU..\<close> ones unsigned.
\<close>

fun eval_isd_cond :: "isd_cond \<Rightarrow> 32 word \<Rightarrow> 32 word \<Rightarrow> bool option" where
  "eval_isd_cond SETEQ a b = Some (a = b)"
| "eval_isd_cond SETNE a b = Some (a \<noteq> b)"
| "eval_isd_cond SETGT a b = Some (b <s a)"
| "eval_isd_cond SETGE a b = Some (b \<le>s a)"
| "eval_isd_cond SETLT a b = Some (a <s b)"
| "eval_isd_cond SETLE a b = Some (a \<le>s b)"
| "eval_isd_cond SETUGT a b = Some (a > b)"
| "eval_isd_cond SETUGE a b = Some (a \<ge> b)"
| "eval_isd_cond SETULT a b = Some (a < b)"
| "eval_isd_cond SETULE a b = Some (a \<le> b)"
| "eval_isd_cond _ a b = None"

lemma getF2003fCC_eval:
  "getF2003fCC c = Inr k \<Longrightarrow> eval_isd_cond c a b = Some (eval_cc k a b)"
  by (cases c) (auto simp: word_sle_eq word_sless_alt)

lemma getF2003fCC_total:
  "eval_isd_cond c a b \<noteq> None \<Longrightarrow> \<exists>k. getF2003fCC c = Inr k"
  by (cases c) auto

section \<open>The interface of a negatable condition\<close>

text \<open>
  What the branch rewriting relies on: negating a code negates its test. A client that inverts a
  branch uses only this law.
\<close>

locale negatable_condition =
  fixes neg :: "'c \<Rightarrow> 'c"
    and holds :: "'c \<Rightarrow> 'a \<Rightarrow> 'a \<Rightarrow> bool"
  assumes holds_neg: "holds (neg c) a b \<longleftrightarrow> \<not> holds c a b"
begin

lemma holds_neg_neg: "holds (neg (neg c)) a b \<longleftrightarrow> holds c a b"
  by (simp add: holds_neg)

lemma swap_arms: "(if holds (neg c) a b then y else x) = (if holds c a b then x else y)"
  by (simp add: holds_neg)

end

interpretation cc: negatable_condition opposite eval_cc
  by unfold_locales (rule eval_cc_opposite)

text \<open>
  The translation of the condition codes is exact: a target-independent code is translated
  precisely when it is an integer comparison, and then the 2003f code tests the same of any two words;
  flipping bit 0 of the number of a code (\<open>OppositeF2003fCC\<close>) gives the number of the code with the
  opposite test, and no two codes print alike.
\<close>

theorem condition_codes_correct:
  "(case getF2003fCC c of Inr k \<Rightarrow> eval_isd_cond c a b = Some (eval_cc k a b) | Inl e \<Rightarrow> eval_isd_cond c a b = None)
   \<and> (\<exists>k'. OppositeF2003fCC (cc_number k) = cc_number k' \<and> (eval_cc k' a b \<longleftrightarrow> \<not> eval_cc k a b))
   \<and> (F2003fCCToString k = F2003fCCToString k'' \<longleftrightarrow> k = k'')"
proof -
  have "case getF2003fCC c of Inr k \<Rightarrow> eval_isd_cond c a b = Some (eval_cc k a b) | Inl e \<Rightarrow> eval_isd_cond c a b = None"
    using getF2003fCC_eval [of c _ a b] getF2003fCC_total [of c a b]
    by (cases "getF2003fCC c"; cases "eval_isd_cond c a b") auto
  then show ?thesis using OppositeF2003fCC_number cc.holds_neg F2003fCCToString_inj by blast
qed

end
