(* ===== verification/ISA.thy ===== *)
theory ISA
  imports MachineIR CondCode
begin

text \<open>
  A semantics of the 2003f instructions, read off the selection patterns of
  \<open>lib/Target/F2003f/F2003fInstrInfo.td\<close>: an instruction computes what the DAG pattern attached
  to it computes. Memory is byte-addressed and big-endian (the data layout string of
  \<open>F2003fTargetMachine.cpp\<close> starts with \<open>E\<close>). \<open>FI\<close> and \<open>MALKRZ\<close> have no pattern of their own:
  the pattern of the pseudo instruction \<open>FI.._MALKRZ..\<close> they expand to is a select on a comparison,
  and they are read as its two halves, which communicate through one condition flag.

  The semantics is the specification the code-generation theories are checked against; it is not a
  model of C++ code.
\<close>

section \<open>Machine state and memory\<close>

record mstate =
  regs :: "reg \<Rightarrow> 32 word"
  mem :: "32 word \<Rightarrow> 8 word"
  cond_flag :: bool

definition load32 :: "(32 word \<Rightarrow> 8 word) \<Rightarrow> 32 word \<Rightarrow> 32 word" where
  "load32 m a = push_bit 24 (ucast (m a)) OR push_bit 16 (ucast (m (a + 1)))
     OR push_bit 8 (ucast (m (a + 2))) OR ucast (m (a + 3))"

definition store32 :: "(32 word \<Rightarrow> 8 word) \<Rightarrow> 32 word \<Rightarrow> 32 word \<Rightarrow> (32 word \<Rightarrow> 8 word)" where
  "store32 m a v = m(a := ucast (drop_bit 24 v), a + 1 := ucast (drop_bit 16 v),
     a + 2 := ucast (drop_bit 8 v), a + 3 := ucast v)"

lemma addr_distinct [simp]:
  "(a :: 32 word) + 1 \<noteq> a" "a + 2 \<noteq> a" "a + 3 \<noteq> a"
  "a + 2 \<noteq> a + 1" "a + 3 \<noteq> a + 1" "a + 3 \<noteq> a + 2"
  "a \<noteq> a + 1" "a \<noteq> a + 2" "a \<noteq> a + 3"
  "a + 1 \<noteq> a + 2" "a + 1 \<noteq> a + 3" "a + 2 \<noteq> a + 3"
  by simp_all

lemma store32_apply:
  "store32 m a v a = ucast (drop_bit 24 v)"
  "store32 m a v (a + 1) = ucast (drop_bit 16 v)"
  "store32 m a v (a + 2) = ucast (drop_bit 8 v)"
  "store32 m a v (a + 3) = ucast v"
  by (simp_all add: store32_def)

lemma bit_load32:
  "n < 32 \<Longrightarrow> bit (load32 m a) n =
     (if n < 8 then bit (m (a + 3)) n
      else if n < 16 then bit (m (a + 2)) (n - 8)
      else if n < 24 then bit (m (a + 1)) (n - 16)
      else bit (m a) (n - 24))"
  by (auto simp: load32_def bit_or_iff bit_push_bit_iff bit_ucast_iff not_less
      dest: bit_imp_le_length)

lemma load32_store32: "load32 (store32 m a v) a = v"
proof (rule bit_word_eqI)
  fix n assume "n < LENGTH(32)"
  then have n: "n < 32" by simp
  show "bit (load32 (store32 m a v) a) n = bit v n"
    using n by (auto simp: bit_load32 [OF n] store32_apply bit_ucast_iff bit_drop_bit_eq)
qed

text \<open>Two words that share no byte do not interfere.\<close>

lemma load32_other:
  assumes "\<And>j k. j < 4 \<Longrightarrow> k < 4 \<Longrightarrow> a + word_of_nat j \<noteq> b + word_of_nat k"
  shows "load32 (store32 m a v) b = load32 m b"
proof -
  have *: "store32 m a v (b + word_of_nat k) = m (b + word_of_nat k)" if "k < 4" for k
    using assms [of 0 k] assms [of 1 k] assms [of 2 k] assms [of 3 k] that by (auto simp: store32_def)
  then show ?thesis using * [of 0] * [of 1] * [of 2] * [of 3] by (simp add: load32_def)
qed

definition separated :: "32 word \<Rightarrow> 32 word \<Rightarrow> bool" where
  "separated a b = (\<forall>j \<in> {0 ..< 4 :: nat}. \<forall>k \<in> {0 ..< 4 :: nat}. a + word_of_nat j \<noteq> b + word_of_nat k)"

lemma load32_separated: "separated a b \<Longrightarrow> load32 (store32 m a v) b = load32 m b"
  by (rule load32_other) (simp add: separated_def)

lemma word_of_int_diff_bounded:
  assumes "word_of_int x = (word_of_int y :: 32 word)" "\<bar>x - y\<bar> < 2 ^ 32"
  shows "x = y"
proof -
  have "(x - y) mod 2 ^ 32 = 0"
    using assms(1) by (simp add: word_of_int_eq_iff take_bit_eq_mod mod_eq_dvd_iff)
  then obtain k where "x - y = 2 ^ 32 * k" by (auto simp: mod_eq_0_iff_dvd dvd_def)
  with assms(2) have "\<bar>k\<bar> < 1" by (simp add: abs_mult)
  with \<open>x - y = 2 ^ 32 * k\<close> show ?thesis by simp
qed

lemma separated_offsets:
  assumes "{x ..< x + 4} \<inter> {y ..< y + 4} = {}" "\<bar>x - y\<bar> < 2 ^ 32 - 4"
  shows "separated (A + word_of_int x) (A + word_of_int y)"
  unfolding separated_def
proof (intro ballI notI)
  fix j k :: nat
  assume j: "j \<in> {0 ..< 4}" and k: "k \<in> {0 ..< 4}"
    and eq: "A + word_of_int x + word_of_nat j = A + word_of_int y + word_of_nat k"
  have "word_of_int (x + int j) = (word_of_int (y + int k) :: 32 word)"
    using eq by (simp add: add.assoc)
  then have "x + int j = y + int k"
    by (rule word_of_int_diff_bounded) (use assms(2) j k in auto)
  moreover have "x + int j \<in> {x ..< x + 4}" "y + int k \<in> {y ..< y + 4}" using j k by auto
  ultimately show False using assms(1) by auto
qed

section \<open>The operations of the patterns\<close>

fun binop_sem :: "binop \<Rightarrow> 32 word \<Rightarrow> 32 word \<Rightarrow> 32 word" where
  "binop_sem ATA a b = a + b"
| "binop_sem NTA a b = a - b"
| "binop_sem ADA a b = a AND b"
| "binop_sem EKC a b = a OR b"
| "binop_sem DAL a b = NOT (a XOR b)"
| "binop_sem DTO a b = drop_bit (unat b) a"
| "binop_sem DRO a b = push_bit (unat b) a"
| "binop_sem DTOSNA a b = signed_drop_bit (unat b) a"

fun ext_sem :: "extop \<Rightarrow> 32 word \<Rightarrow> 32 word" where
  "ext_sem KRZ8I a = signed_drop_bit 24 a"
| "ext_sem KRZ16I a = signed_drop_bit 16 a"

fun trunc_sem :: "truncop \<Rightarrow> 32 word \<Rightarrow> 32 word \<Rightarrow> 32 word" where
  "trunc_sem KRZ8C a b = (a AND 0x00ffffff) OR push_bit 24 b"
| "trunc_sem KRZ16C a b = (a AND 0x0000ffff) OR push_bit 16 b"

section \<open>Operands\<close>

text \<open>\<open>env\<close> gives the value of a symbolic operand: a label, or a frame index before it is resolved.\<close>

type_synonym env = "machine_operand \<Rightarrow> 32 word"

fun op_val :: "env \<Rightarrow> mstate \<Rightarrow> machine_operand \<Rightarrow> 32 word" where
  "op_val e s (MO_Register r d i k) = regs s r"
| "op_val e s (MO_Immediate n) = word_of_int n"
| "op_val e s x = e x"

definition disp_val :: "mstate \<Rightarrow> machine_operand \<Rightarrow> 32 word" where
  "disp_val s x = (case x of MO_Register r d i k \<Rightarrow> if r = NoRegister then 0 else regs s r | _ \<Rightarrow> 0)"

fun addr_val :: "env \<Rightarrow> mstate \<Rightarrow> machine_operand list \<Rightarrow> 32 word" where
  "addr_val e s [b, d, i] = op_val e s b + disp_val s d + op_val e s i"
| "addr_val e s _ = 0"

fun rd :: "env \<Rightarrow> mstate \<Rightarrow> operand_kind \<Rightarrow> machine_operand list \<Rightarrow> 32 word" where
  "rd e s OMem g = load32 (mem s) (addr_val e s g)"
| "rd e s k g = (case g of x # _ \<Rightarrow> op_val e s x | [] \<Rightarrow> 0)"

fun wr :: "env \<Rightarrow> mstate \<Rightarrow> operand_kind \<Rightarrow> machine_operand list \<Rightarrow> 32 word \<Rightarrow> mstate" where
  "wr e s OMem g v = s\<lparr>mem := store32 (mem s) (addr_val e s g) v\<rparr>"
| "wr e s k g v = (case g of MO_Register r d i k # _ \<Rightarrow> s\<lparr>regs := (regs s)(r := v)\<rparr> | _ \<Rightarrow> s)"

fun group_ops :: "operand_kind list \<Rightarrow> machine_operand list \<Rightarrow> machine_operand list list option" where
  "group_ops [] ops = Some []"
| "group_ops (k # ks) ops =
     (if length ops < kind_width k then None
      else map_option (Cons (take (kind_width k) ops)) (group_ops ks (drop (kind_width k) ops)))"

definition group_cc :: "machine_operand list \<Rightarrow> cond_code option" where
  "group_cc g = (case g of [MO_Immediate n] \<Rightarrow> cc_of_number n | _ \<Rightarrow> None)"

section \<open>Instructions\<close>

fun fi_lhs :: "fiform \<Rightarrow> operand_kind" where
  "fi_lhs Orr = OReg" | "fi_lhs Orm = OReg" | "fi_lhs Ori = OReg"
| "fi_lhs Omr = OMem" | "fi_lhs Omm = OMem" | "fi_lhs Omi = OMem"
| "fi_lhs Oir = OImm" | "fi_lhs Oim = OImm" | "fi_lhs Oii = OImm"

fun fi_rhs :: "fiform \<Rightarrow> operand_kind" where
  "fi_rhs Orr = OReg" | "fi_rhs Orm = OMem" | "fi_rhs Ori = OImm"
| "fi_rhs Omr = OReg" | "fi_rhs Omm = OMem" | "fi_rhs Omi = OImm"
| "fi_rhs Oir = OReg" | "fi_rhs Oim = OMem" | "fi_rhs Oii = OImm"

fun malkrz_src :: "malkrzform \<Rightarrow> operand_kind" where
  "malkrz_src Mrr = OReg" | "malkrz_src Mrm = OMem" | "malkrz_src Mri = OImm" | "malkrz_src Mx = OTarget"

definition fi_test :: "env \<Rightarrow> mstate \<Rightarrow> fiform \<Rightarrow> machine_operand list list \<Rightarrow> bool option" where
  "fi_test e s f gs = (case gs of [l, r, c] \<Rightarrow>
      map_option (\<lambda>k. eval_cc k (rd e s (fi_lhs f) l) (rd e s (fi_rhs f) r)) (group_cc c)
    | _ \<Rightarrow> None)"

definition move :: "env \<Rightarrow> mstate \<Rightarrow> operand_kind \<Rightarrow> operand_kind \<Rightarrow> machine_operand list list
    \<Rightarrow> mstate option" where
  "move e s kd ks gs = (case gs of [d, x] \<Rightarrow> Some (wr e s kd d (rd e s ks x)) | _ \<Rightarrow> None)"

text \<open>\<open>modify\<close> is a read-modify-write instruction, with the register form's tied operand.\<close>

definition modify :: "(32 word \<Rightarrow> 32 word \<Rightarrow> 32 word) \<Rightarrow> env \<Rightarrow> mstate \<Rightarrow> form
    \<Rightarrow> machine_operand list list \<Rightarrow> mstate option" where
  "modify h e s f gs =
     (if form_dst f = OReg
      then (case gs of [d, x, y] \<Rightarrow>
              Some (wr e s OReg d (h (rd e s OReg x) (rd e s (form_src f) y))) | _ \<Rightarrow> None)
      else (case gs of [d, y] \<Rightarrow>
              Some (wr e s OMem d (h (rd e s OMem d) (rd e s (form_src f) y))) | _ \<Rightarrow> None))"

definition select_move :: "env \<Rightarrow> mstate \<Rightarrow> bool \<Rightarrow> operand_kind \<Rightarrow> machine_operand list list
    \<Rightarrow> mstate option" where
  "select_move e s b k gs = (case gs of [d, x, y] \<Rightarrow>
      Some (wr e s OReg d (if b then rd e s k y else rd e s OReg x)) | _ \<Rightarrow> None)"

text \<open>
  \<open>exec_groups\<close> executes a non-branch instruction on its grouped operands; \<open>None\<close> is an instruction
  with no pattern, or with operands of the wrong shape. Three pseudo instructions without a pattern get
  the meaning that their uses give them: the call frame pseudos move the stack pointer \<open>F5\<close>, and
  \<open>ATAframe\<close> computes the address of a stack object plus an offset. The instructions that only inform later passes or
  mark a place do nothing; \<open>IMPLICIT_DEF\<close>, whose result is undefined, has no meaning.
\<close>

definition exec_groups :: "env \<Rightarrow> opcode \<Rightarrow> machine_operand list list \<Rightarrow> mstate \<Rightarrow> mstate option" where
  "exec_groups e c gs s = (case c of
      KRZrr \<Rightarrow> move e s OReg OReg gs
    | KRZrm \<Rightarrow> move e s OReg OMem gs
    | KRZri \<Rightarrow> move e s OReg OImm gs
    | KRZmr \<Rightarrow> move e s OMem OReg gs
    | KRZmm \<Rightarrow> move e s OMem OMem gs
    | KRZmi \<Rightarrow> move e s OMem OImm gs
    | MALKRZrr \<Rightarrow> select_move e s (cond_flag s) OReg gs
    | MALKRZrm \<Rightarrow> select_move e s (cond_flag s) OMem gs
    | MALKRZri \<Rightarrow> select_move e s (cond_flag s) OImm gs
    | FEN \<Rightarrow> Some s
    | DBG_VALUE \<Rightarrow> Some s
    | CFI_INSTRUCTION \<Rightarrow> Some s
    | EH_LABEL \<Rightarrow> Some s
    | GC_LABEL \<Rightarrow> Some s
    | LOCAL_ESCAPE \<Rightarrow> Some s
    | KILL \<Rightarrow> Some s
    | SextLoad x f \<Rightarrow> (case gs of [d, y] \<Rightarrow>
        Some (wr e s (form_dst f) d (ext_sem x (rd e s (form_src f) y))) | _ \<Rightarrow> None)
    | TruncStore t f \<Rightarrow> modify (trunc_sem t) e s f gs
    | NACr \<Rightarrow> (case gs of [d, x] \<Rightarrow> Some (wr e s OReg d (NOT (rd e s OReg x))) | _ \<Rightarrow> None)
    | NACm \<Rightarrow> (case gs of [d] \<Rightarrow> Some (wr e s OMem d (NOT (rd e s OMem d))) | _ \<Rightarrow> None)
    | BinOp b f \<Rightarrow> modify (binop_sem b) e s f gs
    | MulLO m f \<Rightarrow> (case m of LAT \<Rightarrow> modify (*) e s f gs | LATSNA \<Rightarrow> None)
    | ADJCALLSTACKDOWN \<Rightarrow> (case gs of [n, _] \<Rightarrow>
        Some (s\<lparr>regs := (regs s)(F5 := regs s F5 - rd e s OImm n)\<rparr>) | _ \<Rightarrow> None)
    | ADJCALLSTACKUP \<Rightarrow> (case gs of [n, _] \<Rightarrow>
        Some (s\<lparr>regs := (regs s)(F5 := regs s F5 + rd e s OImm n)\<rparr>) | _ \<Rightarrow> None)
    | ATAframe \<Rightarrow> (case gs of [d, b, i] \<Rightarrow>
        Some (wr e s OReg d (rd e s OImm b + rd e s OImm i)) | _ \<Rightarrow> None)
    | FI f \<Rightarrow> map_option (\<lambda>b. s\<lparr>cond_flag := b\<rparr>) (fi_test e s f gs)
    | FI_MALKRZ f m \<Rightarrow>
        if m = Mx then None
        else Option.bind (fi_test e s f (drop 3 gs))
               (\<lambda>b. select_move e (s\<lparr>cond_flag := b\<rparr>) b (malkrz_src m) (take 3 gs))
    | _ \<Rightarrow> None)"

definition exec_instr :: "env \<Rightarrow> minstr \<Rightarrow> mstate \<Rightarrow> mstate option" where
  "exec_instr e mi s =
     Option.bind (group_ops (mc_operands (opc mi)) (operands mi)) (\<lambda>gs. exec_groups e (opc mi) gs s)"

lemma mc_operands_FI: "mc_operands (FI f) = [fi_lhs f, fi_rhs f, OCC]"
  by (cases f) simp_all

lemma mc_operands_FI_MALKRZ:
  "m \<noteq> Mx \<Longrightarrow> mc_operands (FI_MALKRZ f m) = [OReg, OReg, malkrz_src m, fi_lhs f, fi_rhs f, OCC]"
  "mc_operands (FI_MALKRZ f Mx) = [OTarget, fi_lhs f, fi_rhs f, OCC]"
  by (cases m; cases f; simp) (cases f; simp)

text \<open>What the stack-pointer arithmetic of the frame code computes.\<close>

lemma exec_ATAri:
  "exec_instr e (mk_instr ATAri [MO_Register d x y z, MO_Register r x' y' z', MO_Immediate n]) s
     = Some (s\<lparr>regs := (regs s)(d := regs s r + word_of_int n)\<rparr>)"
  by (simp add: exec_instr_def exec_groups_def modify_def tied_form_def)

lemma exec_NTAri:
  "exec_instr e (mk_instr NTAri [MO_Register d x y z, MO_Register r x' y' z', MO_Immediate n]) s
     = Some (s\<lparr>regs := (regs s)(d := regs s r - word_of_int n)\<rparr>)"
  by (simp add: exec_instr_def exec_groups_def modify_def tied_form_def)

section \<open>The patterns of one instruction agree\<close>

lemma bit_mask24: "bit (0x00ffffff :: 32 word) n \<longleftrightarrow> n < 24"
proof -
  have m: "(0x00ffffff :: 32 word) = mask 24" by (simp add: mask_eq_exp_minus_1)
  show ?thesis unfolding m by (auto simp: bit_mask_iff)
qed

lemma bit_mask16: "bit (0x0000ffff :: 32 word) n \<longleftrightarrow> n < 16"
proof -
  have m: "(0x0000ffff :: 32 word) = mask 16" by (simp add: mask_eq_exp_minus_1)
  show ?thesis unfolding m by (auto simp: bit_mask_iff)
qed

lemmas byte_bits = bit_signed_drop_bit_iff bit_signed_iff bit_or_iff bit_and_iff bit_push_bit_iff
  bit_drop_bit_eq bit_ucast_iff bit_load32

lemma bit_trunc_sem:
  "n < 32 \<Longrightarrow> bit (trunc_sem KRZ8C w v) n = (if n < 24 then bit w n else bit v (n - 24))"
  "n < 32 \<Longrightarrow> bit (trunc_sem KRZ16C w v) n = (if n < 16 then bit w n else bit v (n - 16))"
  by (auto simp: bit_or_iff bit_and_iff bit_push_bit_iff bit_mask24 bit_mask16
      simp del: bit_numeral_iff bit_numeral_word_iff)

lemma ext8_load32: "signed_drop_bit 24 (load32 m a) = scast (m a)"
proof (rule bit_word_eqI)
  fix n assume "n < LENGTH(32)"
  then consider "n < 7" | "n = 7" | "8 \<le> n" "n < 32" by fastforce
  then show "bit (signed_drop_bit 24 (load32 m a)) n = bit (scast (m a) :: 32 word) n"
    by cases (simp_all add: byte_bits min_def)
qed

lemma ext16_load32: "signed_drop_bit 16 (load32 m a)
      = scast (push_bit 8 (ucast (m a)) OR ucast (m (a + 1)) :: 16 word)"
proof (rule bit_word_eqI)
  fix n assume "n < LENGTH(32)"
  then consider "n < 8" | "8 \<le> n" "n < 15" | "n = 15" | "16 \<le> n" "n < 32" by fastforce
  then show "bit (signed_drop_bit 16 (load32 m a)) n
        = bit (scast (push_bit 8 (ucast (m a)) OR ucast (m (a + 1)) :: 16 word) :: 32 word) n"
    by cases (auto simp: byte_bits min_def dest: bit_imp_le_length)
qed

text \<open>
  An instruction of the \<open>SextLoad\<close> multiclass has two patterns: as a register operation it is an
  arithmetic right shift by 24 (\<open>KRZ8I\<close>) or 16 (\<open>KRZ16I\<close>), as a load it is the sign extension of the
  byte or the big-endian half word at the address. Both say the same of the memory form.
\<close>

theorem sext_load_patterns_agree:
  "ext_sem KRZ8I (load32 m a) = scast (m a)
   \<and> ext_sem KRZ16I (load32 m a) = scast (push_bit 8 (ucast (m a)) OR ucast (m (a + 1)) :: 16 word)"
  by (simp only: ext_sem.simps ext8_load32 ext16_load32)

lemma store32_trunc8: "store32 m a (trunc_sem KRZ8C (load32 m a) v) = m(a := ucast v)"
proof -
  have "ucast (drop_bit 24 (trunc_sem KRZ8C (load32 m a) v)) = (ucast v :: 8 word)"
    "ucast (drop_bit 16 (trunc_sem KRZ8C (load32 m a) v)) = m (a + 1)"
    "ucast (drop_bit 8 (trunc_sem KRZ8C (load32 m a) v)) = m (a + 2)"
    "ucast (trunc_sem KRZ8C (load32 m a) v) = m (a + 3)"
    by (rule bit_word_eqI; simp add: byte_bits bit_trunc_sem del: trunc_sem.simps)+
  then show ?thesis by (auto simp: store32_def simp del: trunc_sem.simps)
qed

lemma store32_trunc16: "store32 m a (trunc_sem KRZ16C (load32 m a) v)
      = m(a := ucast (drop_bit 8 v), a + 1 := ucast v)"
proof -
  have "ucast (drop_bit 24 (trunc_sem KRZ16C (load32 m a) v)) = (ucast (drop_bit 8 v) :: 8 word)"
    "ucast (drop_bit 16 (trunc_sem KRZ16C (load32 m a) v)) = (ucast v :: 8 word)"
    "ucast (drop_bit 8 (trunc_sem KRZ16C (load32 m a) v)) = m (a + 2)"
    "ucast (trunc_sem KRZ16C (load32 m a) v) = m (a + 3)"
    by (rule bit_word_eqI; simp add: byte_bits bit_trunc_sem del: trunc_sem.simps)+
  then show ?thesis by (auto simp: store32_def simp del: trunc_sem.simps)
qed
text \<open>
  An instruction of the \<open>TruncStore\<close> multiclass with a memory destination is both a
  read-modify-write of the 32-bit word at the address and a truncating store of the low byte or half
  word: in big-endian memory the two leave the same memory.
\<close>

theorem trunc_store_patterns_agree:
  "store32 m a (trunc_sem KRZ8C (load32 m a) v) = m(a := ucast v)
   \<and> store32 m a (trunc_sem KRZ16C (load32 m a) v) = m(a := ucast (drop_bit 8 v), a + 1 := ucast v)"
  by (simp only: store32_trunc8 store32_trunc16)

section \<open>Running a basic block\<close>

text \<open>
  \<open>run_block e nxt mis s\<close> executes the instructions of a basic block from the top and gives the final
  state with the way control leaves the block: to the block that a branch names, to \<open>nxt\<close>, the layout
  successor, when no branch is taken, or with the return instruction \<open>KRZ_DOSNUD\<close>. At a return the
  state is the one in which the return address is fetched from the top of the stack and control goes
  back to the caller. An instruction that has no meaning here gives \<open>None\<close>, and so does an indirect
  branch.
\<close>

datatype leaving = To "nat option" | Returns

definition branch_target :: "minstr \<Rightarrow> nat option" where
  "branch_target mi = (case operands mi of MO_MachineBasicBlock b # _ \<Rightarrow> Some b | _ \<Rightarrow> None)"

text \<open>The comparison of a \<open>FI..\<close> or of the \<open>FI\<close> half of a pseudo: its last three operand groups.\<close>

definition cond_branch_test :: "env \<Rightarrow> fiform \<Rightarrow> machine_operand list \<Rightarrow> mstate \<Rightarrow> bool option" where
  "cond_branch_test e f ops s =
     Option.bind (group_ops [fi_lhs f, fi_rhs f, OCC] ops) (fi_test e s f)"

fun run_block :: "env \<Rightarrow> nat option \<Rightarrow> minstr list \<Rightarrow> mstate \<Rightarrow> (mstate \<times> leaving) option" where
  "run_block e nxt [] s = Some (s, To nxt)"
| "run_block e nxt (mi # mis) s = (case opc mi of
      KRZx \<Rightarrow> map_option (\<lambda>b. (s, To (Some b))) (branch_target mi)
    | KRZ_DOSNUD \<Rightarrow> Some (s, Returns)
    | MALKRZx \<Rightarrow> Option.bind (branch_target mi)
        (\<lambda>b. if cond_flag s then Some (s, To (Some b)) else run_block e nxt mis s)
    | FI_MALKRZ f m \<Rightarrow>
        if m = Mx then Option.bind (branch_target mi) (\<lambda>b.
          Option.bind (cond_branch_test e f (drop 1 (operands mi)) s) (\<lambda>t.
            if t then Some (s\<lparr>cond_flag := t\<rparr>, To (Some b))
            else run_block e nxt mis (s\<lparr>cond_flag := t\<rparr>)))
        else Option.bind (exec_instr e mi s) (run_block e nxt mis)
    | _ \<Rightarrow> Option.bind (exec_instr e mi s) (run_block e nxt mis))"

text \<open>A block may be changed at its end by anything that runs the same.\<close>

lemma run_block_append_cong:
  assumes "\<And>s. run_block e nxt ys s = run_block e nxt ys' s"
  shows "run_block e nxt (xs @ ys) s = run_block e nxt (xs @ ys') s"
proof (induction xs arbitrary: s)
  case (Cons x xs)
  have eq: "run_block e nxt (xs @ ys) = run_block e nxt (xs @ ys')" using Cons.IH by blast
  show ?case unfolding append_Cons run_block.simps eq by (rule refl)
qed (simp add: assms)

lemma run_block_debug [simp]:
  "opc mi = DBG_VALUE \<Longrightarrow> run_block e nxt (mi # mis) s = run_block e nxt mis s"
  by (simp add: exec_instr_def exec_groups_def)

lemma run_block_debugs:
  "\<forall>x \<in> set ds. opc x = DBG_VALUE \<Longrightarrow> run_block e nxt (ds @ ys) s = run_block e nxt ys s"
  by (induction ds) (simp_all del: run_block.simps)

end
