(* ===== verification/BranchAnalysis.thy ===== *)
theory BranchAnalysis
  imports ISA
begin

text \<open>
  The target instruction hooks of \<open>lib/Target/F2003f/F2003fInstrInfo.cpp\<close>: register copies, spills and
  reloads, the tables that split a \<open>FI.._MALKRZ..\<close> pseudo instruction, and the analysis, insertion,
  removal and reversal of the branches that end a basic block.

  A basic block is the list of its instructions; a block of the function is named by a number, and
  \<open>nxt\<close> is the layout successor, so that \<open>MBB.isLayoutSuccessor(b)\<close> is \<open>nxt = Some b\<close>. The iterator
  \<open>I\<close> that walks a block from its end is a split of the list: the instructions above it, in reverse,
  and those from it to the end.

  \<open>analyzeBranch_sound\<close> states what an analysed block does in terms of the semantics of \<open>ISA\<close>;
  the theorems after it put analysis, removal, insertion and reversal together the way the
  block-placement passes of the code generator do.
\<close>

section \<open>Copies, spills and reloads\<close>

definition copyPhysReg :: "reg \<Rightarrow> reg \<Rightarrow> bool \<Rightarrow> minstr" where
  "copyPhysReg DestReg SrcReg KillSrc =
     mk_instr KRZrr [def_reg DestReg, MO_Register SrcReg False False KillSrc]"

definition storeRegToStackSlot :: "reg \<Rightarrow> bool \<Rightarrow> int \<Rightarrow> minstr" where
  "storeRegToStackSlot SrcReg isKill FrameIdx =
     mk_instr KRZmr [MO_FrameIndex FrameIdx, use_reg NoRegister, MO_Immediate 0,
       MO_Register SrcReg False False isKill]"

definition loadRegFromStackSlot :: "reg \<Rightarrow> int \<Rightarrow> minstr" where
  "loadRegFromStackSlot DestReg FrameIdx =
     mk_instr KRZrm [def_reg DestReg, MO_FrameIndex FrameIdx, use_reg NoRegister, MO_Immediate 0]"

definition getNoop :: minstr where
  "getNoop = mk_instr FEN []"

section \<open>The tables of the pseudo instructions\<close>

text \<open>\<open>INSTRUCTION_LIST_END\<close> is the answer for an opcode that is not such a pseudo.\<close>

fun getFiFromFiMalkrz :: "opcode \<Rightarrow> opcode" where
  "getFiFromFiMalkrz FIrr_MALKRZrr = FIrr"
| "getFiFromFiMalkrz FIrr_MALKRZrm = FIrr"
| "getFiFromFiMalkrz FIrr_MALKRZri = FIrr"
| "getFiFromFiMalkrz FIrr_MALKRZx = FIrr"
| "getFiFromFiMalkrz FIrm_MALKRZrr = FIrm"
| "getFiFromFiMalkrz FIrm_MALKRZrm = FIrm"
| "getFiFromFiMalkrz FIrm_MALKRZri = FIrm"
| "getFiFromFiMalkrz FIrm_MALKRZx = FIrm"
| "getFiFromFiMalkrz FIri_MALKRZrr = FIri"
| "getFiFromFiMalkrz FIri_MALKRZrm = FIri"
| "getFiFromFiMalkrz FIri_MALKRZri = FIri"
| "getFiFromFiMalkrz FIri_MALKRZx = FIri"
| "getFiFromFiMalkrz FImr_MALKRZrr = FImr"
| "getFiFromFiMalkrz FImr_MALKRZrm = FImr"
| "getFiFromFiMalkrz FImr_MALKRZri = FImr"
| "getFiFromFiMalkrz FImr_MALKRZx = FImr"
| "getFiFromFiMalkrz FImm_MALKRZrr = FImm"
| "getFiFromFiMalkrz FImm_MALKRZrm = FImm"
| "getFiFromFiMalkrz FImm_MALKRZri = FImm"
| "getFiFromFiMalkrz FImm_MALKRZx = FImm"
| "getFiFromFiMalkrz FImi_MALKRZrr = FImi"
| "getFiFromFiMalkrz FImi_MALKRZrm = FImi"
| "getFiFromFiMalkrz FImi_MALKRZri = FImi"
| "getFiFromFiMalkrz FImi_MALKRZx = FImi"
| "getFiFromFiMalkrz FIir_MALKRZrr = FIir"
| "getFiFromFiMalkrz FIir_MALKRZrm = FIir"
| "getFiFromFiMalkrz FIir_MALKRZri = FIir"
| "getFiFromFiMalkrz FIir_MALKRZx = FIir"
| "getFiFromFiMalkrz FIim_MALKRZrr = FIim"
| "getFiFromFiMalkrz FIim_MALKRZrm = FIim"
| "getFiFromFiMalkrz FIim_MALKRZri = FIim"
| "getFiFromFiMalkrz FIim_MALKRZx = FIim"
| "getFiFromFiMalkrz FIii_MALKRZrr = FIii"
| "getFiFromFiMalkrz FIii_MALKRZrm = FIii"
| "getFiFromFiMalkrz FIii_MALKRZri = FIii"
| "getFiFromFiMalkrz FIii_MALKRZx = FIii"
| "getFiFromFiMalkrz _ = INSTRUCTION_LIST_END"

fun getMalkrzFromFiMalkrz :: "opcode \<Rightarrow> opcode" where
  "getMalkrzFromFiMalkrz FIrr_MALKRZrr = MALKRZrr"
| "getMalkrzFromFiMalkrz FIrm_MALKRZrr = MALKRZrr"
| "getMalkrzFromFiMalkrz FIri_MALKRZrr = MALKRZrr"
| "getMalkrzFromFiMalkrz FImr_MALKRZrr = MALKRZrr"
| "getMalkrzFromFiMalkrz FImm_MALKRZrr = MALKRZrr"
| "getMalkrzFromFiMalkrz FImi_MALKRZrr = MALKRZrr"
| "getMalkrzFromFiMalkrz FIir_MALKRZrr = MALKRZrr"
| "getMalkrzFromFiMalkrz FIim_MALKRZrr = MALKRZrr"
| "getMalkrzFromFiMalkrz FIii_MALKRZrr = MALKRZrr"
| "getMalkrzFromFiMalkrz FIrr_MALKRZrm = MALKRZrm"
| "getMalkrzFromFiMalkrz FIrm_MALKRZrm = MALKRZrm"
| "getMalkrzFromFiMalkrz FIri_MALKRZrm = MALKRZrm"
| "getMalkrzFromFiMalkrz FImr_MALKRZrm = MALKRZrm"
| "getMalkrzFromFiMalkrz FImm_MALKRZrm = MALKRZrm"
| "getMalkrzFromFiMalkrz FImi_MALKRZrm = MALKRZrm"
| "getMalkrzFromFiMalkrz FIir_MALKRZrm = MALKRZrm"
| "getMalkrzFromFiMalkrz FIim_MALKRZrm = MALKRZrm"
| "getMalkrzFromFiMalkrz FIii_MALKRZrm = MALKRZrm"
| "getMalkrzFromFiMalkrz FIrr_MALKRZri = MALKRZri"
| "getMalkrzFromFiMalkrz FIrm_MALKRZri = MALKRZri"
| "getMalkrzFromFiMalkrz FIri_MALKRZri = MALKRZri"
| "getMalkrzFromFiMalkrz FImr_MALKRZri = MALKRZri"
| "getMalkrzFromFiMalkrz FImm_MALKRZri = MALKRZri"
| "getMalkrzFromFiMalkrz FImi_MALKRZri = MALKRZri"
| "getMalkrzFromFiMalkrz FIir_MALKRZri = MALKRZri"
| "getMalkrzFromFiMalkrz FIim_MALKRZri = MALKRZri"
| "getMalkrzFromFiMalkrz FIii_MALKRZri = MALKRZri"
| "getMalkrzFromFiMalkrz FIrr_MALKRZx = MALKRZx"
| "getMalkrzFromFiMalkrz FIrm_MALKRZx = MALKRZx"
| "getMalkrzFromFiMalkrz FIri_MALKRZx = MALKRZx"
| "getMalkrzFromFiMalkrz FImr_MALKRZx = MALKRZx"
| "getMalkrzFromFiMalkrz FImm_MALKRZx = MALKRZx"
| "getMalkrzFromFiMalkrz FImi_MALKRZx = MALKRZx"
| "getMalkrzFromFiMalkrz FIir_MALKRZx = MALKRZx"
| "getMalkrzFromFiMalkrz FIim_MALKRZx = MALKRZx"
| "getMalkrzFromFiMalkrz FIii_MALKRZx = MALKRZx"
| "getMalkrzFromFiMalkrz _ = INSTRUCTION_LIST_END"

fun malkrz_opcode :: "malkrzform \<Rightarrow> opcode" where
  "malkrz_opcode Mrr = MALKRZrr"
| "malkrz_opcode Mrm = MALKRZrm"
| "malkrz_opcode Mri = MALKRZri"
| "malkrz_opcode Mx = MALKRZx"

lemma getFiFromFiMalkrz_pseudo [simp]: "getFiFromFiMalkrz (FI_MALKRZ f m) = FI f"
  by (cases f; cases m) simp_all

lemma getMalkrzFromFiMalkrz_pseudo [simp]: "getMalkrzFromFiMalkrz (FI_MALKRZ f m) = malkrz_opcode m"
  by (cases f; cases m) simp_all

lemma getFiFromFiMalkrz_iff:
  "getFiFromFiMalkrz c \<noteq> INSTRUCTION_LIST_END \<longleftrightarrow> (\<exists>f m. c = FI_MALKRZ f m)"
  by (cases c) simp_all

lemma getMalkrzFromFiMalkrz_x_iff:
  "getMalkrzFromFiMalkrz c = MALKRZx \<longleftrightarrow> (\<exists>f. c = FI_MALKRZ f Mx)"
proof (cases c)
  case (FI_MALKRZ f m)
  then show ?thesis by (cases m) simp_all
qed simp_all

section \<open>Reversing a condition\<close>

text \<open>
  \<open>Cond\<close> is the pseudo's opcode followed by its operands after the target; the last of them is the
  condition code.
\<close>

definition reverseBranchCondition :: "machine_operand list \<Rightarrow> (bool \<times> machine_operand list) result" where
  "reverseBranchCondition Cond =
     (if Cond = [] then Inl AssertFailed
      else bind_result (operand_imm (last Cond)) (\<lambda>n.
        Inr (False, butlast Cond @ [MO_Immediate (OppositeF2003fCC n)])))"

section \<open>Analysing the branches of a block\<close>

text \<open>\<open>isPredicated\<close> is the default of \<open>TargetInstrInfo\<close>: no instruction is predicated.\<close>

definition isUnpredicatedTerminator :: "minstr \<Rightarrow> bool" where
  "isUnpredicatedTerminator mi =
     (if \<not> isTerminator (opc mi) then False
      else if isBranch (opc mi) \<and> \<not> isBarrier (opc mi) then True
      else if \<not> isPredicable (opc mi) then True
      else True)"

lemma isUnpredicatedTerminator_eq [simp]: "isUnpredicatedTerminator mi = isTerminator (opc mi)"
  by (simp add: isUnpredicatedTerminator_def)

record branch_info =
  TBB :: "nat option"
  FBB :: "nat option"
  Cond :: "machine_operand list"

definition no_branch_info :: branch_info where
  "no_branch_info = \<lparr>TBB = None, FBB = None, Cond = []\<rparr>"

text \<open>
  The loop of \<open>analyzeBranch\<close>. \<open>pre\<close> is what is above the iterator, nearest first; \<open>suf\<close> what is
  from the iterator to the end of the block. The result is the returned flag (\<open>True\<close>: the block could
  not be analysed), the out parameters, and the block, which the loop may have shortened.
\<close>

fun analyze_loop :: "bool \<Rightarrow> nat option \<Rightarrow> minstr list \<Rightarrow> minstr list \<Rightarrow> branch_info
    \<Rightarrow> (bool \<times> branch_info \<times> minstr list) result" where
  "analyze_loop AllowModify nxt [] suf info = Inr (False, info, suf)"
| "analyze_loop AllowModify nxt (I # pre) suf info =
     (if opc I = DBG_VALUE then analyze_loop AllowModify nxt pre (I # suf) info
      else if \<not> isUnpredicatedTerminator I then Inr (False, info, rev pre @ I # suf)
      else if \<not> isBranch (opc I) then Inr (True, info, rev pre @ I # suf)
      else if isIndirectBranch (opc I) then Inr (True, info, rev pre @ I # suf)
      else if opc I = KRZx then
        bind_result (bind_result (get_operand I 0) operand_MBB) (\<lambda>target.
          if \<not> AllowModify
          then analyze_loop AllowModify nxt pre (I # suf) (info\<lparr>TBB := Some target\<rparr>)
          else if nxt = Some target
          then analyze_loop AllowModify nxt pre [] (info\<lparr>Cond := [], FBB := None, TBB := None\<rparr>)
          else analyze_loop AllowModify nxt pre [I] (info\<lparr>Cond := [], FBB := None, TBB := Some target\<rparr>))
      else if getMalkrzFromFiMalkrz (opc I) \<noteq> MALKRZx then Inl AssertFailed
      else if Cond info = [] then
        bind_result (bind_result (get_operand I 0) operand_MBB) (\<lambda>target.
          analyze_loop AllowModify nxt pre (I # suf)
            (info\<lparr>FBB := TBB info, TBB := Some target,
                  Cond := MO_OpcodeImm (opc I) # drop 1 (operands I)\<rparr>))
      else Inr (True, info, rev pre @ I # suf))"

definition analyzeBranch :: "bool \<Rightarrow> nat option \<Rightarrow> minstr list
    \<Rightarrow> (bool \<times> branch_info \<times> minstr list) result" where
  "analyzeBranch AllowModify nxt MBB = analyze_loop AllowModify nxt (rev MBB) [] no_branch_info"

section \<open>Inserting and removing branches\<close>

fun operand_opcode :: "machine_operand \<Rightarrow> opcode result" where
  "operand_opcode (MO_OpcodeImm c) = Inr c"
| "operand_opcode _ = Inl AssertFailed"

definition insertBranch :: "minstr list \<Rightarrow> nat option \<Rightarrow> nat option \<Rightarrow> machine_operand list
    \<Rightarrow> (minstr list \<times> nat) result" where
  "insertBranch MBB tbb fbb cond = (case tbb of None \<Rightarrow> Inl AssertFailed | Some t \<Rightarrow>
     if cond = [] then
       (case fbb of
          None \<Rightarrow> Inr (MBB @ [mk_instr KRZx [MO_MachineBasicBlock t]], 1)
        | Some f \<Rightarrow> Inl AssertFailed)
     else bind_result (operand_opcode (hd cond)) (\<lambda>c.
       if \<not> (getMalkrzFromFiMalkrz c = MALKRZx \<and> num_operands c = length cond) then Inl AssertFailed
       else
         let Malkrz = mk_instr c (MO_MachineBasicBlock t # tl cond) in
         (case fbb of
            None \<Rightarrow> Inr (MBB @ [Malkrz], 1)
          | Some f \<Rightarrow> Inr (MBB @ [Malkrz, mk_instr KRZx [MO_MachineBasicBlock f]], 2))))"

text \<open>
  After it erases a branch, \<open>removeBranch\<close> starts again from the end of the block. The measure is the
  length of the block, then the distance of the iterator from its start.
\<close>

function remove_loop :: "minstr list \<Rightarrow> minstr list \<Rightarrow> nat \<Rightarrow> minstr list \<times> nat" where
  "remove_loop [] suf Count = (suf, Count)"
| "remove_loop (I # pre) suf Count =
     (if opc I = DBG_VALUE then remove_loop pre (I # suf) Count
      else if \<not> isBranch (opc I) then (rev pre @ I # suf, Count)
      else remove_loop (rev suf @ pre) [] (Count + 1))"
  by pat_completeness auto
termination
  by (relation "measures [\<lambda>(pre, suf, n). length pre + length suf, \<lambda>(pre, suf, n). length pre]") auto

definition removeBranch :: "minstr list \<Rightarrow> minstr list \<times> nat" where
  "removeBranch MBB = remove_loop (rev MBB) [] 0"

section \<open>What an analysis means\<close>

text \<open>
  \<open>describe\<close> is the control flow that a triple \<open>TBB\<close>, \<open>FBB\<close>, \<open>Cond\<close> stands for, as the comment of
  \<open>TargetInstrInfo::analyzeBranch\<close> lists it: no condition means a jump to \<open>TBB\<close>, or a fall-through
  when there is none; a condition means \<open>TBB\<close> when it holds, and otherwise \<open>FBB\<close> or a fall-through.
\<close>

definition or_else :: "nat option \<Rightarrow> nat option \<Rightarrow> nat option" where
  "or_else b nxt = (case b of None \<Rightarrow> nxt | Some x \<Rightarrow> Some x)"

lemma or_else_simps [simp]: "or_else None nxt = nxt" "or_else (Some x) nxt = Some x"
  by (simp_all add: or_else_def)

definition cond_test :: "env \<Rightarrow> machine_operand list \<Rightarrow> mstate \<Rightarrow> bool option" where
  "cond_test e cond s = (case cond of
     MO_OpcodeImm (FI_MALKRZ f m) # ops \<Rightarrow> cond_branch_test e f ops s | _ \<Rightarrow> None)"

definition describe :: "env \<Rightarrow> nat option \<Rightarrow> branch_info \<Rightarrow> mstate \<Rightarrow> (mstate \<times> leaving) option" where
  "describe e nxt info s =
     (if Cond info = [] then Some (s, To (or_else (TBB info) nxt))
      else map_option (\<lambda>t. (s\<lparr>cond_flag := t\<rparr>, To (if t then TBB info else or_else (FBB info) nxt)))
             (cond_test e (Cond info) s))"

fun is_pseudo_branch :: "machine_operand \<Rightarrow> bool" where
  "is_pseudo_branch (MO_OpcodeImm (FI_MALKRZ f Mx)) = True"
| "is_pseudo_branch _ = False"

definition wf_info :: "branch_info \<Rightarrow> bool" where
  "wf_info info = (if Cond info = [] then FBB info = None
                   else TBB info \<noteq> None \<and> is_pseudo_branch (hd (Cond info)))"

lemma is_pseudo_branch_iff: "is_pseudo_branch x \<longleftrightarrow> (\<exists>f. x = MO_OpcodeImm (FI_MALKRZ f Mx))"
  by (cases x rule: is_pseudo_branch.cases) simp_all

definition branch_or_debug :: "minstr \<Rightarrow> bool" where
  "branch_or_debug x = (isBranch (opc x) \<or> opc x = DBG_VALUE)"

text \<open>The part of a block above its branches ends with an instruction that is neither.\<close>

definition body_end :: "minstr list \<Rightarrow> bool" where
  "body_end b = (b = [] \<or> \<not> isTerminator (opc (last b)) \<and> opc (last b) \<noteq> DBG_VALUE)"

definition analysed :: "env \<Rightarrow> nat option \<Rightarrow> branch_info \<Rightarrow> minstr list \<Rightarrow> bool" where
  "analysed e nxt info MBB = (\<exists>body ends. MBB = body @ ends \<and> body_end body
     \<and> (\<forall>x \<in> set ends. branch_or_debug x) \<and> wf_info info
     \<and> (\<forall>s. run_block e nxt ends s = describe e nxt info s))"

fun no_dead_branch :: "minstr list \<Rightarrow> bool" where
  "no_dead_branch [] = True"
| "no_dead_branch (x # xs) =
     ((opc x = KRZx \<longrightarrow> (\<forall>y \<in> set xs. \<not> isBranch (opc y))) \<and> no_dead_branch xs)"

lemma no_dead_branch_append:
  "no_dead_branch (xs @ x # ys) \<Longrightarrow> opc x = KRZx \<Longrightarrow> \<forall>y \<in> set ys. \<not> isBranch (opc y)"
  by (induction xs) auto

lemma branch_target_iff:
  "branch_target mi = Some b \<longleftrightarrow> bind_result (get_operand mi 0) operand_MBB = Inr b"
proof (cases "operands mi")
  case (Cons x xs)
  then show ?thesis by (cases x) (simp_all add: branch_target_def get_operand_def)
qed (simp add: branch_target_def get_operand_def)

lemma run_block_KRZx:
  "opc mi = KRZx \<Longrightarrow> branch_target mi = Some b \<Longrightarrow> run_block e nxt (mi # mis) s = Some (s, To (Some b))"
  by simp

lemma run_block_pseudo:
  "opc mi = FI_MALKRZ f Mx \<Longrightarrow> branch_target mi = Some b \<Longrightarrow>
   run_block e nxt (mi # mis) s =
     Option.bind (cond_branch_test e f (drop 1 (operands mi)) s)
       (\<lambda>t. if t then Some (s\<lparr>cond_flag := t\<rparr>, To (Some b))
            else run_block e nxt mis (s\<lparr>cond_flag := t\<rparr>))"
  by simp

lemma describe_no_cond: "Cond info = [] \<Longrightarrow> describe e nxt info s = Some (s, To (or_else (TBB info) nxt))"
  by (simp add: describe_def)

lemma describe_pseudo:
  assumes "opc I = FI_MALKRZ f Mx"
  shows "describe e nxt (info\<lparr>FBB := fb, TBB := Some t, Cond := MO_OpcodeImm (opc I) # ops\<rparr>) s =
     Option.bind (cond_branch_test e f ops s)
       (\<lambda>b. Some (s\<lparr>cond_flag := b\<rparr>, To (if b then Some t else or_else fb nxt)))"
  using assms by (cases "cond_branch_test e f ops s") (simp_all add: describe_def cond_test_def)

text \<open>A pseudo branch, when no condition has been recorded yet, extends the description.\<close>

lemma run_block_describe_pseudo:
  assumes "opc I = FI_MALKRZ f Mx" "branch_target I = Some t" "Cond info = []"
    and "\<And>s. run_block e nxt suf s = describe e nxt info s"
  shows "run_block e nxt (I # suf) s =
     describe e nxt (info\<lparr>FBB := TBB info, TBB := Some t, Cond := MO_OpcodeImm (opc I) # drop 1 (operands I)\<rparr>) s"
  unfolding describe_pseudo [OF assms(1)] run_block_pseudo [OF assms(1,2)] assms(4)
    describe_no_cond [OF assms(3)]
  by (rule arg_cong [where f = "Option.bind _"]) (simp add: fun_eq_iff)

lemma conditional_branch_pseudo:
  "getMalkrzFromFiMalkrz (opc I) = MALKRZx \<Longrightarrow> \<exists>f. opc I = FI_MALKRZ f Mx"
  by (simp add: getMalkrzFromFiMalkrz_x_iff)

lemma analysedI:
  assumes "body_end body" "\<forall>x \<in> set ends. branch_or_debug x" "wf_info info"
    "\<And>s. run_block e nxt ends s = describe e nxt info s"
  shows "analysed e nxt info (body @ ends)"
  using assms by (auto simp: analysed_def)

lemma analyze_loop_sound:
  assumes "analyze_loop am nxt pre suf info = Inr (False, info', MBB')"
    and "\<And>s. run_block e nxt suf s = describe e nxt info s"
    and "wf_info info" and "\<forall>x \<in> set suf. branch_or_debug x"
    and "am \<or> no_dead_branch (rev pre @ suf)"
    and "am \<or> ((\<forall>x \<in> set suf. \<not> isBranch (opc x)) \<longrightarrow> Cond info = [])"
  shows "analysed e nxt info' MBB'
     \<and> (\<forall>s. run_block e nxt (rev pre @ suf) s = run_block e nxt MBB' s)
     \<and> (\<not> am \<longrightarrow> MBB' = rev pre @ suf)"
  using assms
proof (induction pre arbitrary: suf info)
  case Nil
  then show ?case using analysedI [of "[]" suf] by (auto simp: body_end_def)
next
  case (Cons I pre)
  note step = Cons.prems(1) and run = Cons.prems(2)
  have bind: "run_block e nxt (rev (I # pre) @ suf) s = run_block e nxt (rev pre @ ys) s"
    if "\<And>s. run_block e nxt (I # suf) s = run_block e nxt ys s" for ys s
    using run_block_append_cong [OF that, of "rev pre" s] by (simp del: run_block.simps)
  consider (debug) "opc I = DBG_VALUE" | (stop) "opc I \<noteq> DBG_VALUE" "\<not> isTerminator (opc I)"
    | (jump) "opc I = KRZx"
    | (cond) "opc I \<noteq> DBG_VALUE" "isTerminator (opc I)" "opc I \<noteq> KRZx" by blast
  then show ?case
  proof cases
    case debug
    then show ?thesis
      using Cons.IH [of "I # suf" info] Cons.prems
      by (auto simp: branch_or_debug_def desc_flags simp del: run_block.simps)
  next
    case stop
    then have "info' = info" "MBB' = (rev pre @ [I]) @ suf" using step by simp_all
    moreover have "body_end (rev pre @ [I])" using stop by (simp add: body_end_def)
    ultimately show ?thesis using analysedI [of "rev pre @ [I]" suf] Cons.prems(2-4) by auto
  next
    case jump
    then have flags: "opc I \<noteq> DBG_VALUE" "isTerminator (opc I)" "isBranch (opc I)"
      "\<not> isIndirectBranch (opc I)" by (simp_all add: desc_flags)
    obtain t where t: "bind_result (get_operand I 0) operand_MBB = Inr t"
      using step flags jump by (cases "bind_result (get_operand I 0) operand_MBB") auto
    then have tgt: "branch_target I = Some t" by (simp add: branch_target_iff)
    have here: "run_block e nxt (I # ys) s = Some (s, To (Some t))" for ys s
      by (rule run_block_KRZx [OF jump tgt])
    have I: "branch_or_debug I" by (simp add: branch_or_debug_def flags)
    consider "\<not> am" | "am" "nxt = Some t" | "am" "nxt \<noteq> Some t" by blast
    then show ?thesis
    proof cases
      case 1
      have "Cond info = []"
        using no_dead_branch_append [of "rev pre" I suf] Cons.prems(5,6) jump 1 by simp
      then have d: "run_block e nxt (I # suf) s = describe e nxt (info\<lparr>TBB := Some t\<rparr>) s"
        and w: "wf_info (info\<lparr>TBB := Some t\<rparr>)" for s
        using Cons.prems(3) by (simp_all add: here describe_def wf_info_def del: run_block.simps)
      have a: "analyze_loop am nxt pre (I # suf) (info\<lparr>TBB := Some t\<rparr>) = Inr (False, info', MBB')"
        using step flags jump t 1 by simp
      have b: "\<forall>x \<in> set (I # suf). branch_or_debug x" using Cons.prems(4) I by simp
      have l: "am \<or> no_dead_branch (rev pre @ I # suf)" using Cons.prems(5) by simp
      show ?thesis using Cons.IH [OF a d w b l] flags(3) by simp
    next
      case 2
      have "analyze_loop am nxt pre [] (info\<lparr>Cond := [], FBB := None, TBB := None\<rparr>)
          = Inr (False, info', MBB')" using step flags jump t 2 by simp
      from Cons.IH [OF this] bind [of "[]"] here 2 show ?thesis
        by (simp add: wf_info_def describe_def del: run_block.simps(2))
    next
      case 3
      have "analyze_loop am nxt pre [I] (info\<lparr>Cond := [], FBB := None, TBB := Some t\<rparr>)
          = Inr (False, info', MBB')" using step flags jump t 3 by simp
      from Cons.IH [OF this] bind [of "[I]"] here 3 I show ?thesis
        by (simp add: wf_info_def describe_def del: run_block.simps(2))
    qed
  next
    case cond
    have flags: "isBranch (opc I)" "\<not> isIndirectBranch (opc I)" "Cond info = []"
      and ps: "getMalkrzFromFiMalkrz (opc I) = MALKRZx"
      using step cond by (auto split: if_splits)
    obtain f where f: "opc I = FI_MALKRZ f Mx" using ps conditional_branch_pseudo by blast
    obtain t where t: "bind_result (get_operand I 0) operand_MBB = Inr t"
      using step flags cond ps by (cases "bind_result (get_operand I 0) operand_MBB") auto
    then have tgt: "branch_target I = Some t" by (simp add: branch_target_iff)
    let ?info = "info\<lparr>FBB := TBB info, TBB := Some t,
       Cond := MO_OpcodeImm (opc I) # drop 1 (operands I)\<rparr>"
    have "analyze_loop am nxt pre (I # suf) ?info = Inr (False, info', MBB')"
      using step flags cond ps t by simp
    moreover have "run_block e nxt (I # suf) s = describe e nxt ?info s" for s
      by (rule run_block_describe_pseudo [OF f tgt flags(3) run])
    moreover have "wf_info ?info" using f by (simp add: wf_info_def)
    moreover have "\<forall>x \<in> set (I # suf). branch_or_debug x"
      using Cons.prems(4) flags(1) by (simp add: branch_or_debug_def)
    moreover have "am \<or> no_dead_branch (rev pre @ I # suf)" using Cons.prems(5) by simp
    ultimately show ?thesis using Cons.IH [of "I # suf" ?info] flags(1) by auto
  qed
qed

lemma run_block_append:
  "run_block e nxt (xs @ ys) s = Option.bind (run_block e None xs s)
     (\<lambda>(s', t). if t = To None then run_block e nxt ys s' else Some (s', t))"
proof (induction xs arbitrary: s)
  case (Cons x xs)
  have eq: "run_block e nxt (xs @ ys) = (\<lambda>s. Option.bind (run_block e None xs s)
     (\<lambda>(s', t). if t = To None then run_block e nxt ys s' else Some (s', t)))"
    using Cons.IH by blast
  show ?case unfolding append_Cons run_block.simps eq
    by (auto split: opcode.splits option.splits bind_splits)
qed simp

text \<open>The removal of the branches that an analysis describes: what is left is the rest of the block.\<close>

lemma remove_loop_body:
  assumes "body_end body"
  shows "pre = rev ends @ rev body \<Longrightarrow> \<forall>x \<in> set ends. branch_or_debug x
    \<Longrightarrow> \<forall>x \<in> set suf. opc x = DBG_VALUE
    \<Longrightarrow> remove_loop pre suf n =
          (body @ filter (\<lambda>x. opc x = DBG_VALUE) ends @ suf,
           n + length (filter (\<lambda>x. isBranch (opc x)) ends))"
proof (induction pre suf n arbitrary: ends rule: remove_loop.induct)
  case (1 suf n)
  then show ?case by simp
next
  case (2 I pre suf n)
  show ?case
  proof (cases ends rule: rev_cases)
    case Nil
    then show ?thesis
      using 2 assms by (cases body rule: rev_cases) (auto simp: body_end_def isTerminator_def)
  next
    case (snoc es J)
    then have J: "J = I" "pre = rev es @ rev body" using "2.prems"(1) by simp_all
    show ?thesis
    proof (cases "opc I = DBG_VALUE")
      case True
      then have "\<not> isBranch (opc I)" by (simp add: desc_flags)
      then show ?thesis
        using True "2.IH"(1) [of es] "2.prems" snoc J by simp
    next
      case False
      then have b: "isBranch (opc I)" using "2.prems"(2) snoc J by (simp add: branch_or_debug_def)
      have d: "\<forall>x \<in> set suf. \<not> isBranch (opc x)" using "2.prems"(3) by (simp add: desc_flags)
      then have "filter (\<lambda>x. isBranch (opc x)) suf = []" "filter (\<lambda>x. opc x = DBG_VALUE) suf = suf"
        using "2.prems"(3) by (simp_all add: filter_empty_conv)
      then show ?thesis
        using False b "2.IH"(2) [of "es @ suf"] "2.prems" snoc J
        by (auto simp: branch_or_debug_def)
    qed
  qed
qed

lemma removeBranch_body:
  assumes "body_end body" "\<forall>x \<in> set ends. branch_or_debug x"
  shows "removeBranch (body @ ends) =
    (body @ filter (\<lambda>x. opc x = DBG_VALUE) ends, length (filter (\<lambda>x. isBranch (opc x)) ends))"
  using remove_loop_body [OF assms(1), of "rev (body @ ends)" ends "[]" 0] assms(2)
  by (simp add: removeBranch_def)

text \<open>An analysed block is its branch-free part followed by what the analysis describes.\<close>

lemma analysed_removeBranch:
  assumes "analysed e nxt info MBB"
    and "\<And>s. run_block e nxt new s = describe e nxt info s"
  shows "run_block e nxt (fst (removeBranch MBB) @ new) s = run_block e nxt MBB s"
proof -
  obtain body ends where MBB: "MBB = body @ ends" and "body_end body"
      and bd: "\<forall>x \<in> set ends. branch_or_debug x"
      and d: "\<And>s. run_block e nxt ends s = describe e nxt info s"
    using assms(1) unfolding analysed_def by blast
  then have "fst (removeBranch MBB) = body @ filter (\<lambda>x. opc x = DBG_VALUE) ends"
    by (simp add: removeBranch_body)
  moreover have "run_block e nxt (filter (\<lambda>x. opc x = DBG_VALUE) ends @ new) s
      = run_block e nxt ends s" for s
    by (simp add: run_block_debugs assms(2) d)
  ultimately show ?thesis
    unfolding MBB by (simp only: append_assoc) (rule run_block_append_cong)
qed

lemma analysed_wf_info: "analysed e nxt info MBB \<Longrightarrow> wf_info info"
  by (auto simp: analysed_def)

lemma analyzeBranch_analysed:
  assumes "analyzeBranch am nxt MBB = Inr (False, info, MBB')" "am \<or> no_dead_branch MBB"
  shows "analysed e nxt info MBB'" "run_block e nxt MBB s = run_block e nxt MBB' s"
    "\<not> am \<Longrightarrow> MBB' = MBB"
proof -
  have "analysed e nxt info MBB' \<and> (\<forall>s. run_block e nxt (rev (rev MBB) @ []) s = run_block e nxt MBB' s)
     \<and> (\<not> am \<longrightarrow> MBB' = rev (rev MBB) @ [])"
    using assms unfolding analyzeBranch_def
    by (intro analyze_loop_sound [where info = no_branch_info])
      (simp_all add: no_branch_info_def wf_info_def describe_def)
  then show "analysed e nxt info MBB'" "run_block e nxt MBB s = run_block e nxt MBB' s"
    "\<not> am \<Longrightarrow> MBB' = MBB" by simp_all
qed

text \<open>The condition recorded is the opcode and the remaining operands of one of the branches.\<close>

lemma analyze_loop_cond:
  assumes "analyze_loop am nxt pre suf info = Inr (b, info', MBB')"
  shows "Cond info' = [] \<or> Cond info' = Cond info
     \<or> (\<exists>I \<in> set pre. isBranch (opc I) \<and> 0 < length (operands I)
          \<and> Cond info' = MO_OpcodeImm (opc I) # drop 1 (operands I))"
  using assms
proof (induction pre arbitrary: am nxt suf info)
  case (Cons I pre)
  show ?case
    using Cons.prems
    by (auto simp: bind_result_Inr_iff get_operand_def split: if_splits dest!: Cons.IH)
qed simp

definition operand_counts_ok :: "minstr list \<Rightarrow> bool" where
  "operand_counts_ok MBB = (\<forall>x \<in> set MBB. isBranch (opc x) \<longrightarrow> length (operands x) = num_operands (opc x))"

lemma analyzeBranch_cond_length:
  assumes "analyzeBranch am nxt MBB = Inr (b, info, MBB')" "operand_counts_ok MBB"
    "hd (Cond info) = MO_OpcodeImm c" "Cond info \<noteq> []"
  shows "length (Cond info) = num_operands c"
  using analyze_loop_cond [OF assms(1) [unfolded analyzeBranch_def]] assms(2-4)
  by (auto simp: no_branch_info_def operand_counts_ok_def) (metis Suc_pred length_greater_0_conv)

section \<open>Properties of the branch hooks\<close>

text \<open>
  C5. A block that \<open>analyzeBranch\<close> can analyse runs as the analysis says: its branch-free part first,
  then the jump or the two-way choice that \<open>TBB\<close>, \<open>FBB\<close> and \<open>Cond\<close> describe. With \<open>AllowModify\<close> the
  block may be shortened, but it still runs the same; without it the block is unchanged, and the answer
  is right when no branch stands after an unconditional jump.
\<close>

theorem analyzeBranch_sound:
  assumes "analyzeBranch AllowModify nxt MBB = Inr (False, info, MBB')"
    and "AllowModify \<or> no_dead_branch MBB"
  shows "run_block e nxt MBB' s = run_block e nxt MBB s
    \<and> (\<not> AllowModify \<longrightarrow> MBB' = MBB)
    \<and> run_block e nxt MBB s =
        Option.bind (run_block e None (fst (removeBranch MBB')) s)
          (\<lambda>(s', t). if t = To None then describe e nxt info s' else Some (s', t))"
proof -
  note an = analyzeBranch_analysed [OF assms]
  obtain body ends where MBB: "MBB' = body @ ends" and "body_end body"
      and bd: "\<forall>x \<in> set ends. branch_or_debug x"
      and d: "\<And>s. run_block e nxt ends s = describe e nxt info s"
    using an(1) unfolding analysed_def by blast
  let ?dbg = "filter (\<lambda>x. opc x = DBG_VALUE) ends"
  have rm: "fst (removeBranch MBB') = body @ ?dbg"
    using MBB \<open>body_end body\<close> bd by (simp add: removeBranch_body)
  have "run_block e nxt MBB s = run_block e nxt (body @ ?dbg @ ends) s"
    unfolding an(2) MBB
    by (rule run_block_append_cong [symmetric]) (simp add: run_block_debugs)
  moreover have "run_block e nxt (body @ ?dbg @ ends) s = Option.bind (run_block e None (body @ ?dbg) s)
      (\<lambda>(s', t). if t = To None then describe e nxt info s' else Some (s', t))"
    using run_block_append [of e nxt "body @ ?dbg" ends s] unfolding append_assoc d .
  ultimately show ?thesis using an(2,3) rm by metis
qed

text \<open>What an inserted branch does.\<close>

lemma describe_eta:
  "describe e nxt \<lparr>TBB = TBB info, FBB = FBB info, Cond = Cond info\<rparr> s = describe e nxt info s"
  by (cases info) simp

lemma insertBranch_run:
  assumes "insertBranch MBB tbb fbb cond = Inr (MBB', n)"
    and "cond = [] \<or> is_pseudo_branch (hd cond)"
  shows "\<exists>new. MBB' = MBB @ new \<and> length new = n
    \<and> (\<forall>s. run_block e nxt new s = describe e nxt \<lparr>TBB = tbb, FBB = fbb, Cond = cond\<rparr> s)"
proof -
  obtain t where t: "tbb = Some t" using assms(1) by (cases tbb) (simp_all add: insertBranch_def)
  show ?thesis
  proof (cases "cond = []")
    case True
    then show ?thesis
      using assms(1) t by (cases fbb) (auto simp: insertBranch_def describe_def branch_target_def)
  next
    case False
    then obtain f ops where c: "cond = MO_OpcodeImm (FI_MALKRZ f Mx) # ops"
      using assms(2) by (cases cond) (auto simp: is_pseudo_branch_iff)
    let ?M = "mk_instr (FI_MALKRZ f Mx) (MO_MachineBasicBlock t # ops)"
    have M: "run_block e nxt (?M # mis) s = Option.bind (cond_branch_test e f ops s)
       (\<lambda>b. if b then Some (s\<lparr>cond_flag := b\<rparr>, To (Some t))
            else run_block e nxt mis (s\<lparr>cond_flag := b\<rparr>))" for mis s
      by (subst run_block_pseudo [where f = f and b = t]) (simp_all add: branch_target_def)
    have d: "describe e nxt \<lparr>TBB = tbb, FBB = fbb, Cond = cond\<rparr> s = Option.bind (cond_branch_test e f ops s)
       (\<lambda>b. Some (s\<lparr>cond_flag := b\<rparr>, To (if b then Some t else or_else fbb nxt)))" for s
      by (cases "cond_branch_test e f ops s") (simp_all add: describe_def cond_test_def c t)
    show ?thesis
    proof (cases fbb)
      case None
      then have "MBB' = MBB @ [?M]" "n = 1"
        using assms(1) c t by (auto simp: insertBranch_def split: if_splits)
      moreover have "run_block e nxt [?M] s = describe e nxt \<lparr>TBB = tbb, FBB = fbb, Cond = cond\<rparr> s" for s
        unfolding d M by (rule bind_option_cong) (simp_all add: None)
      ultimately show ?thesis by (simp del: run_block.simps)
    next
      case (Some f')
      then have "MBB' = MBB @ [?M, mk_instr KRZx [MO_MachineBasicBlock f']]" "n = 2"
        using assms(1) c t by (auto simp: insertBranch_def split: if_splits)
      moreover have "run_block e nxt [?M, mk_instr KRZx [MO_MachineBasicBlock f']] s
          = describe e nxt \<lparr>TBB = tbb, FBB = fbb, Cond = cond\<rparr> s" for s
        unfolding d M by (rule bind_option_cong) (simp_all add: Some branch_target_def)
      ultimately show ?thesis by (simp del: run_block.simps)
    qed
  qed
qed

lemma insertBranch_total:
  assumes "tbb \<noteq> None" "cond = [] \<Longrightarrow> fbb = None"
    "cond \<noteq> [] \<Longrightarrow> hd cond = MO_OpcodeImm (FI_MALKRZ f Mx) \<and> num_operands (FI_MALKRZ f Mx) = length cond"
  shows "\<exists>MBB' n. insertBranch MBB tbb fbb cond = Inr (MBB', n)"
  using assms by (cases fbb) (auto simp: insertBranch_def)

text \<open>
  C13. Rewriting a block from its own analysis changes nothing: remove the branches, insert again the
  ones the analysis reports, and the insertion succeeds and the block runs as before. This is how the
  code generator updates the terminators of a block that it moves.
\<close>

theorem branch_round_trip:
  assumes "analyzeBranch True nxt MBB = Inr (False, info, MBB')"
    and "TBB info \<noteq> None" and "operand_counts_ok MBB"
  shows "\<exists>MBB2 n. insertBranch (fst (removeBranch MBB')) (TBB info) (FBB info) (Cond info) = Inr (MBB2, n)
    \<and> (\<forall>e s. run_block e nxt MBB2 s = run_block e nxt MBB s)"
proof -
  have an: "analysed e nxt info MBB'" "run_block e nxt MBB s = run_block e nxt MBB' s" for e s
    using analyzeBranch_analysed [OF assms(1)] by simp_all
  have wf: "wf_info info" by (rule analysed_wf_info [OF an(1)])
  obtain f where f: "Cond info \<noteq> [] \<Longrightarrow> hd (Cond info) = MO_OpcodeImm (FI_MALKRZ f Mx)"
    using wf by (auto simp: wf_info_def is_pseudo_branch_iff split: if_splits)
  obtain MBB2 n where ins:
      "insertBranch (fst (removeBranch MBB')) (TBB info) (FBB info) (Cond info) = Inr (MBB2, n)"
    using insertBranch_total [of "TBB info" "Cond info" "FBB info" f "fst (removeBranch MBB')"] wf f
      analyzeBranch_cond_length [OF assms(1,3)] assms(2)
    by (auto simp: wf_info_def split: if_splits)
  moreover have "run_block e nxt MBB2 s = run_block e nxt MBB s" for e s
  proof -
    have "Cond info = [] \<or> is_pseudo_branch (hd (Cond info))"
      using wf by (auto simp: wf_info_def split: if_splits)
    from insertBranch_run [OF ins this, of e nxt] obtain new where
      "MBB2 = fst (removeBranch MBB') @ new" "\<And>s. run_block e nxt new s = describe e nxt info s"
      by (auto simp: describe_eta)
    then show ?thesis using analysed_removeBranch [OF an(1)] an(2) by simp
  qed
  ultimately show ?thesis by blast
qed

text \<open>The last operand of a condition is the code, and reversing it negates the test.\<close>

lemma num_operands_pseudo_branch:
  "num_operands (FI_MALKRZ f Mx) = kind_width (fi_lhs f) + kind_width (fi_rhs f) + 2"
  by (cases f) (simp_all add: num_operands_def)

lemma cond_branch_test_split:
  assumes "length A = kind_width (fi_lhs f)" "length B = kind_width (fi_rhs f)"
  shows "cond_branch_test e f (A @ B @ [x]) s =
    map_option (\<lambda>k. eval_cc k (rd e s (fi_lhs f) A) (rd e s (fi_rhs f) B)) (group_cc [x])"
  using assms by (simp add: cond_branch_test_def fi_test_def)

lemma cc_of_number_opposite:
  "cc_of_number (OppositeF2003fCC n) = map_option opposite (cc_of_number n)"
proof (cases "cc_of_number n")
  case (Some c)
  then show ?thesis by (simp add: cc_of_number_Some_iff OppositeF2003fCC_number)
next
  case None
  have "cc_of_number (OppositeF2003fCC n) = Some c \<Longrightarrow> cc_of_number n = Some (opposite c)" for c
  proof -
    assume "cc_of_number (OppositeF2003fCC n) = Some c"
    then have "OppositeF2003fCC (OppositeF2003fCC n) = cc_number (opposite c)"
      by (simp add: cc_of_number_Some_iff OppositeF2003fCC_number)
    then show ?thesis
      by (simp add: OppositeF2003fCC_def xor.assoc cc_of_number_Some_iff)
  qed
  then show ?thesis using None by (cases "cc_of_number (OppositeF2003fCC n)") auto
qed

lemma reverse_cond_test:
  assumes "reverseBranchCondition (MO_OpcodeImm (FI_MALKRZ f Mx) # ops) = Inr (b, cond')"
    and "length ops = kind_width (fi_lhs f) + kind_width (fi_rhs f) + 1"
  shows "\<exists>ops'. cond' = MO_OpcodeImm (FI_MALKRZ f Mx) # ops' \<and> length ops' = length ops
    \<and> (\<forall>e s. cond_branch_test e f ops' s = map_option Not (cond_branch_test e f ops s))"
proof -
  obtain ops1 x where ops1: "ops = ops1 @ [x]" using assms(2) by (cases ops rule: rev_cases) auto
  define A B where "A = take (kind_width (fi_lhs f)) ops1" and "B = drop (kind_width (fi_lhs f)) ops1"
  have AB: "ops = A @ B @ [x]" "length A = kind_width (fi_lhs f)" "length B = kind_width (fi_rhs f)"
    using ops1 assms(2) by (simp_all add: A_def B_def)
  obtain n where n: "x = MO_Immediate n" and
      c': "cond' = MO_OpcodeImm (FI_MALKRZ f Mx) # A @ B @ [MO_Immediate (OppositeF2003fCC n)]"
    using assms(1) AB(1)
    by (cases x) (auto simp: reverseBranchCondition_def butlast_append)
  have "cond_branch_test e f (A @ B @ [MO_Immediate (OppositeF2003fCC n)]) s
      = map_option Not (cond_branch_test e f ops s)" for e s
    unfolding AB(1) n cond_branch_test_split [OF AB(2,3)]
    by (simp add: group_cc_def cc_of_number_opposite option.map_comp comp_def cc.holds_neg)
  then show ?thesis using c' AB(1) n by (intro exI [of _ "A @ B @ [MO_Immediate (OppositeF2003fCC n)]"]) simp
qed

lemma run_block_append_map:
  assumes "\<And>s. map_option g (run_block e nxt ys s) = map_option g (run_block e nxt ys' s)"
  shows "map_option g (run_block e nxt (xs @ ys) s) = map_option g (run_block e nxt (xs @ ys') s)"
  unfolding run_block_append [of e nxt xs]
  by (cases "run_block e None xs s") (auto simp: assms)

definition forget_flag :: "mstate \<times> leaving \<Rightarrow> mstate \<times> leaving" where
  "forget_flag r = ((fst r)\<lparr>cond_flag := False\<rparr>, snd r)"

text \<open>
  Inverting a two-way branch: with the branches removed, inserting the reversed condition with
  the two destinations exchanged gives a block that reaches the same successor, in the same state but
  for the condition flag. The fall-through destination is the layout successor.
\<close>

theorem branch_inversion:
  assumes "analyzeBranch True nxt MBB = Inr (False, info, MBB')"
    and "Cond info \<noteq> []" and "or_else (FBB info) nxt = Some other"
    and "reverseBranchCondition (Cond info) = Inr (b, cond')"
    and "insertBranch (fst (removeBranch MBB')) (Some other) (TBB info) cond' = Inr (MBB2, n)"
  shows "map_option forget_flag (run_block e nxt MBB2 s) = map_option forget_flag (run_block e nxt MBB s)"
proof -
  have an: "analysed e nxt info MBB'" "run_block e nxt MBB s = run_block e nxt MBB' s" for s
    using analyzeBranch_analysed [OF assms(1)] by simp_all
  obtain f ops where c: "Cond info = MO_OpcodeImm (FI_MALKRZ f Mx) # ops"
    using analysed_wf_info [OF an(1)] assms(2)
    by (cases "Cond info") (auto simp: wf_info_def is_pseudo_branch_iff)
  obtain t where t: "TBB info = Some t"
    using analysed_wf_info [OF an(1)] assms(2) by (auto simp: wf_info_def)
  have "hd cond' = MO_OpcodeImm (FI_MALKRZ f Mx)" "length cond' = length (Cond info)" "cond' \<noteq> []"
    using assms(4) c by (auto simp: reverseBranchCondition_def bind_result_Inr_iff split: if_splits)
  then have len: "length ops = kind_width (fi_lhs f) + kind_width (fi_rhs f) + 1"
    using assms(5) c by (auto simp: insertBranch_def num_operands_pseudo_branch split: if_splits)
  obtain ops' where ops': "cond' = MO_OpcodeImm (FI_MALKRZ f Mx) # ops'"
      and test: "\<And>e s. cond_branch_test e f ops' s = map_option Not (cond_branch_test e f ops s)"
    using reverse_cond_test [OF _ len] assms(4) c by metis
  obtain new where new: "MBB2 = fst (removeBranch MBB') @ new"
      "\<And>s. run_block e nxt new s = describe e nxt \<lparr>TBB = Some other, FBB = TBB info, Cond = cond'\<rparr> s"
    using insertBranch_run [OF assms(5), of e nxt] ops' by auto
  have same: "map_option forget_flag (run_block e nxt new s) = map_option forget_flag (describe e nxt info s)" for s
    unfolding new(2)
    using assms(3) t
    by (cases "cond_branch_test e f ops s")
      (simp_all add: describe_def c ops' cond_test_def test forget_flag_def)
  obtain ends where "\<And>s. run_block e nxt ends s = describe e nxt info s"
    using an(1) by (auto simp: analysed_def)
  then show ?thesis
    unfolding an(2) new(1) analysed_removeBranch [OF an(1), symmetric]
    using analysed_removeBranch [OF an(1), of ends] same
    by (metis run_block_append_map)
qed

text \<open>
  A spill followed by a reload of the same slot gives the reloaded register the spilled value, and
  a copy gives the destination the value of the source.
\<close>

theorem spill_reload:
  "Option.bind (exec_instr e (storeRegToStackSlot r k i) s) (exec_instr e (loadRegFromStackSlot r' i))
     = Some (s\<lparr>regs := (regs s)(r' := regs s r),
               mem := store32 (mem s) (e (MO_FrameIndex i)) (regs s r)\<rparr>)
   \<and> exec_instr e (copyPhysReg d r k) s = Some (s\<lparr>regs := (regs s)(d := regs s r)\<rparr>)"
  by (simp add: storeRegToStackSlot_def loadRegFromStackSlot_def copyPhysReg_def exec_instr_def
      exec_groups_def move_def disp_val_def load32_store32)

text \<open>A concrete block: a comparison that branches to block 7, then a jump to block 4.\<close>

definition sample_block :: "minstr list" where
  "sample_block =
     [mk_instr KRZri [def_reg F0, MO_Immediate 5],
      mk_instr FIri_MALKRZx [MO_MachineBasicBlock 7, use_reg F0, MO_Immediate 3, MO_Immediate 8],
      mk_instr KRZx [MO_MachineBasicBlock 4]]"

definition sample_info :: branch_info where
  "sample_info = \<lparr>TBB = Some 7, FBB = Some 4,
     Cond = [MO_OpcodeImm FIri_MALKRZx, use_reg F0, MO_Immediate 3, MO_Immediate 8]\<rparr>"

lemmas branch_eval = sample_block_def sample_info_def analyzeBranch_def no_branch_info_def desc_flags
  get_operand_def

lemma analyze_sample: "analyzeBranch True (Some 5) sample_block = Inr (False, sample_info, sample_block)"
  by (simp add: branch_eval)

theorem analyzeBranch_sound_witness:
  "\<forall>e s. run_block e (Some 5) sample_block s =
     Option.bind (run_block e None (fst (removeBranch sample_block)) s)
       (\<lambda>(s', t). if t = To None then describe e (Some 5) sample_info s' else Some (s', t))"
  using analyzeBranch_sound [OF analyze_sample] by simp

theorem branch_round_trip_witness:
  "\<exists>MBB2 n. insertBranch (fst (removeBranch sample_block)) (Some 7) (Some 4) (Cond sample_info)
      = Inr (MBB2, n)
    \<and> (\<forall>e s. run_block e (Some 5) MBB2 s = run_block e (Some 5) sample_block s)"
proof -
  have "operand_counts_ok sample_block"
    by (simp add: operand_counts_ok_def sample_block_def desc_flags num_operands_def)
  from branch_round_trip [OF analyze_sample _ this] show ?thesis
    by (simp add: sample_info_def)
qed

theorem branch_inversion_witness:
  "\<exists>MBB2. insertBranch (fst (removeBranch sample_block)) (Some 4) (Some 7)
       [MO_OpcodeImm FIri_MALKRZx, use_reg F0, MO_Immediate 3, MO_Immediate 9] = Inr (MBB2, 2)
    \<and> (\<forall>e s. map_option forget_flag (run_block e (Some 5) MBB2 s)
      = map_option forget_flag (run_block e (Some 5) sample_block s))"
proof -
  let ?c = "[MO_OpcodeImm FIri_MALKRZx, use_reg F0, MO_Immediate 3, MO_Immediate 9]"
  have r: "reverseBranchCondition (Cond sample_info) = Inr (False, ?c)"
    by (simp add: reverseBranchCondition_def sample_info_def OppositeF2003fCC_def)
  obtain MBB2 where i: "insertBranch (fst (removeBranch sample_block)) (Some 4) (TBB sample_info) ?c
      = Inr (MBB2, 2)"
    by (simp add: insertBranch_def sample_info_def num_operands_def)
  have "or_else (FBB sample_info) (Some 5) = Some 4" "Cond sample_info \<noteq> []"
    by (simp_all add: sample_info_def)
  from branch_inversion [OF analyze_sample this(2,1) r i] i show ?thesis
    by (auto simp: sample_info_def)
qed

text \<open>
  Without \<open>AllowModify\<close> the proviso on dead branches is needed: here the conditional branch after the
  jump is dead, the block always goes to block 1, and the analysis reports a branch to block 1 that is
  taken only on the dead branch's condition.
\<close>

lemma analyzeBranch_dead_branch:
  "analyzeBranch False nxt
      [mk_instr KRZx [MO_MachineBasicBlock 1],
       mk_instr FIri_MALKRZx [MO_MachineBasicBlock 2, use_reg F0, MO_Immediate 3, MO_Immediate 8]]
   = Inr (False,
       \<lparr>TBB = Some 1, FBB = None,
        Cond = [MO_OpcodeImm FIri_MALKRZx, use_reg F0, MO_Immediate 3, MO_Immediate 8]\<rparr>,
      [mk_instr KRZx [MO_MachineBasicBlock 1],
       mk_instr FIri_MALKRZx [MO_MachineBasicBlock 2, use_reg F0, MO_Immediate 3, MO_Immediate 8]])"
  by (simp add: branch_eval)

end
