(* ===== verification/FiMalkrzPass.thy ===== *)
theory FiMalkrzPass
  imports BranchAnalysis
begin

text \<open>
  The pass of \<open>lib/Target/F2003f/F2003fFiMalkrz.cpp\<close>, which runs after register allocation: every
  \<open>FI.._MALKRZ..\<close> pseudo instruction becomes a bundle of a \<open>FI\<close> and a \<open>MALKRZ\<close>. The pseudo's first
  operands go to the \<open>MALKRZ\<close>, the rest to the \<open>FI\<close>, and the \<open>FI\<close> comes first.

  The lemmas show that no operand is lost, that no pseudo is left, that the expanded block has the same
  meaning as the original, and that a second run changes nothing.
\<close>

section \<open>The pass\<close>

text \<open>
  \<open>copy_operands mi from n\<close> is the loop that adds \<open>MI.getOperand(from)\<close>, ..,
  \<open>MI.getOperand(from + n - 1)\<close>; an index out of range is an assertion failure.
\<close>

fun copy_operands :: "minstr \<Rightarrow> nat \<Rightarrow> nat \<Rightarrow> machine_operand list result" where
  "copy_operands mi from 0 = Inr []"
| "copy_operands mi from (Suc n) =
     bind_result (get_operand mi from) (\<lambda>x.
       bind_result (copy_operands mi (Suc from) n) (\<lambda>xs. Inr (x # xs)))"

text \<open>
  \<open>MIBundleBuilder\<close> inserts before the pseudo; \<open>prepend\<close> puts an instruction in front of what the
  bundle holds, so the \<open>FI\<close>, prepended last, is its first instruction and the \<open>MALKRZ\<close> is inside
  the bundle.
\<close>

definition bundle_prepend :: "minstr \<Rightarrow> minstr list \<Rightarrow> minstr list" where
  "bundle_prepend mi bundle = (case bundle of [] \<Rightarrow> [mi]
     | b # bs \<Rightarrow> mi # b\<lparr>inside_bundle := True\<rparr> # bs)"

definition expand_instr :: "minstr \<Rightarrow> minstr list result" where
  "expand_instr MI =
     (let Opc = opc MI; FiOpc = getFiFromFiMalkrz Opc in
      if FiOpc \<noteq> INSTRUCTION_LIST_END then
        let MalkrzOpc = getMalkrzFromFiMalkrz Opc;
            MalkrzNumOperands = num_operands MalkrzOpc in
        bind_result (copy_operands MI 0 MalkrzNumOperands) (\<lambda>malkrz_ops.
          let Bundle = bundle_prepend (mk_instr MalkrzOpc malkrz_ops) [];
              FiNumOperands = num_operands FiOpc in
          bind_result (copy_operands MI MalkrzNumOperands FiNumOperands) (\<lambda>fi_ops.
            Inr (bundle_prepend (mk_instr FiOpc fi_ops) Bundle)))
      else Inr [MI])"

fun expand_block :: "minstr list \<Rightarrow> minstr list result" where
  "expand_block [] = Inr []"
| "expand_block (MI # rest) =
     bind_result (expand_instr MI) (\<lambda>xs. bind_result (expand_block rest) (\<lambda>ys. Inr (xs @ ys)))"

fun runOnMachineFunction :: "minstr list list \<Rightarrow> minstr list list result" where
  "runOnMachineFunction [] = Inr []"
| "runOnMachineFunction (BB # F) =
     bind_result (expand_block BB) (\<lambda>b. bind_result (runOnMachineFunction F) (\<lambda>bs. Inr (b # bs)))"

section \<open>What one expansion is\<close>

text \<open>A pseudo is well formed when it has the operands its descriptor declares, and maybe more.\<close>

definition pseudo_ok :: "minstr \<Rightarrow> bool" where
  "pseudo_ok mi = (getFiFromFiMalkrz (opc mi) \<noteq> INSTRUCTION_LIST_END
     \<longrightarrow> num_operands (opc mi) \<le> length (operands mi))"

lemma copy_operands_eq:
  "from + n \<le> length (operands mi) \<Longrightarrow> copy_operands mi from n = Inr (take n (drop from (operands mi)))"
proof (induction n arbitrary: "from")
  case (Suc n)
  then show ?case by (simp add: Cons_nth_drop_Suc [symmetric])
qed simp

lemma copy_operands_short:
  "length (operands mi) < from + n \<Longrightarrow> 0 < n \<Longrightarrow> copy_operands mi from n = Inl AssertFailed"
proof (induction n arbitrary: "from")
  case (Suc n)
  then show ?case by (cases "from < length (operands mi)"; cases n) (auto simp: get_operand_def)
qed simp

lemma malkrz_operands:
  "m \<noteq> Mx \<Longrightarrow> mc_operands (malkrz_opcode m) = [OReg, OReg, malkrz_src m]"
  "mc_operands (malkrz_opcode Mx) = [OTarget]"
  by (cases m) simp_all

lemma mc_operands_pseudo_split:
  "mc_operands (FI_MALKRZ f m) = mc_operands (malkrz_opcode m) @ mc_operands (FI f)"
  by (cases "m = Mx") (simp_all add: malkrz_operands mc_operands_FI mc_operands_FI_MALKRZ)

lemma num_operands_split:
  "num_operands (FI_MALKRZ f m) = num_operands (malkrz_opcode m) + num_operands (FI f)"
  by (simp add: num_operands_def mc_operands_pseudo_split del: mc_operands.simps)

definition fi_half :: "minstr \<Rightarrow> fiform \<Rightarrow> malkrzform \<Rightarrow> minstr" where
  "fi_half mi f m = mk_instr (FI f)
     (take (num_operands (FI f)) (drop (num_operands (malkrz_opcode m)) (operands mi)))"

definition malkrz_half :: "minstr \<Rightarrow> malkrzform \<Rightarrow> minstr" where
  "malkrz_half mi m =
     (mk_instr (malkrz_opcode m) (take (num_operands (malkrz_opcode m)) (operands mi)))\<lparr>inside_bundle := True\<rparr>"

lemma expand_instr_pseudo:
  assumes "opc mi = FI_MALKRZ f m" "pseudo_ok mi"
  shows "expand_instr mi = Inr [fi_half mi f m, malkrz_half mi m]"
  using assms num_operands_split [of f m]
  by (simp add: expand_instr_def Let_def pseudo_ok_def copy_operands_eq bundle_prepend_def
      fi_half_def malkrz_half_def)

lemma expand_instr_other:
  "getFiFromFiMalkrz (opc mi) = INSTRUCTION_LIST_END \<Longrightarrow> expand_instr mi = Inr [mi]"
  by (simp add: expand_instr_def)

section \<open>The expansion preserves the meaning of a block\<close>

abbreviation widths :: "operand_kind list \<Rightarrow> nat" where
  "widths ks \<equiv> sum_list (map kind_width ks)"

lemma group_ops_append:
  "group_ops (ks @ ks') ops = Option.bind (group_ops ks ops)
     (\<lambda>g. map_option (\<lambda>g'. g @ g') (group_ops ks' (drop (widths ks) ops)))"
proof (induction ks arbitrary: ops)
  case Nil
  then show ?case by (cases "group_ops ks' ops") simp_all
next
  case (Cons k ks)
  then show ?case
    by (cases "group_ops ks (drop (kind_width k) ops)";
        cases "group_ops ks' (drop (widths ks + kind_width k) ops)") (simp_all add: ac_simps)
qed

lemma group_ops_take: "widths ks \<le> n \<Longrightarrow> group_ops ks (take n ops) = group_ops ks ops"
proof (induction ks arbitrary: n ops)
  case (Cons k ks)
  then show ?case using Cons.IH [of "n - kind_width k" "drop (kind_width k) ops"]
    by (auto simp: drop_take min_def)
qed simp

lemma group_ops_total: "widths ks \<le> length ops \<Longrightarrow> \<exists>gs. group_ops ks ops = Some gs \<and> length gs = length ks"
proof (induction ks arbitrary: ops)
  case (Cons k ks)
  then show ?case using Cons.IH [of "drop (kind_width k) ops"] by fastforce
qed simp

lemma exec_fi_half:
  assumes "opc mi = FI_MALKRZ f m"
  shows "exec_instr e (fi_half mi f m) s = map_option (\<lambda>b. s\<lparr>cond_flag := b\<rparr>)
     (Option.bind (group_ops [fi_lhs f, fi_rhs f, OCC] (drop (num_operands (malkrz_opcode m)) (operands mi)))
        (fi_test e s f))"
proof -
  have "widths [fi_lhs f, fi_rhs f, OCC] \<le> num_operands (FI f)"
    by (simp add: num_operands_def mc_operands_FI del: mc_operands.simps)
  from group_ops_take [OF this] show ?thesis
    by (simp add: exec_instr_def fi_half_def mc_operands_FI exec_groups_def map_option_bind comp_def
        del: group_ops.simps mc_operands.simps)
qed

lemma exec_malkrz_half:
  assumes "m \<noteq> Mx"
  shows "exec_instr e (malkrz_half mi m) s =
    Option.bind (group_ops [OReg, OReg, malkrz_src m] (operands mi))
      (select_move e s (cond_flag s) (malkrz_src m))"
proof -
  have "widths [OReg, OReg, malkrz_src m] \<le> num_operands (malkrz_opcode m)"
    using assms by (simp add: num_operands_def malkrz_operands del: mc_operands.simps)
  from group_ops_take [OF this, of "operands mi"] show ?thesis
    using assms by (cases m) (simp_all add: exec_instr_def malkrz_half_def exec_groups_def
        malkrz_operands del: group_ops.simps)
qed

lemma opc_malkrz_half: "opc (malkrz_half mi m) = malkrz_opcode m"
  by (simp add: malkrz_half_def)

lemma opc_fi_half: "opc (fi_half mi f m) = FI f"
  by (simp add: fi_half_def)

text \<open>A conditional move: the two halves do what the pseudo does, condition flag included.\<close>

lemma halves_select:
  assumes "opc mi = FI_MALKRZ f m" "m \<noteq> Mx" "pseudo_ok mi"
  shows "Option.bind (exec_instr e (fi_half mi f m) s) (exec_instr e (malkrz_half mi m)) = exec_instr e mi s"
proof -
  let ?w = "num_operands (malkrz_opcode m)"
  have w: "widths [OReg, OReg, malkrz_src m] = ?w"
    using assms(2) by (simp add: num_operands_def malkrz_operands del: mc_operands.simps)
  have len: "widths ([OReg, OReg, malkrz_src m] @ [fi_lhs f, fi_rhs f, OCC]) \<le> length (operands mi)"
    using assms by (simp add: pseudo_ok_def num_operands_def mc_operands_FI_MALKRZ(1) [OF assms(2)])
  have len2: "widths [fi_lhs f, fi_rhs f, OCC] \<le> length (drop ?w (operands mi))"
    using len w by simp
  obtain g1 where g1: "group_ops [OReg, OReg, malkrz_src m] (operands mi) = Some g1" "length g1 = 3"
    using group_ops_total [of "[OReg, OReg, malkrz_src m]" "operands mi"] len
    by (auto simp del: group_ops.simps)
  obtain g2 where g2: "group_ops [fi_lhs f, fi_rhs f, OCC] (drop ?w (operands mi)) = Some g2"
    using group_ops_total [of "[fi_lhs f, fi_rhs f, OCC]" "drop ?w (operands mi)"] len2 by blast
  have "exec_instr e mi s = exec_groups e (FI_MALKRZ f m) (g1 @ g2) s"
    using group_ops_append [of "[OReg, OReg, malkrz_src m]" "[fi_lhs f, fi_rhs f, OCC]" "operands mi"]
      g1 g2 w assms(1)
    by (simp add: exec_instr_def mc_operands_FI_MALKRZ(1) [OF assms(2)] del: group_ops.simps)
  also have "\<dots> = Option.bind (fi_test e s f g2)
      (\<lambda>b. select_move e (s\<lparr>cond_flag := b\<rparr>) b (malkrz_src m) g1)"
    using assms(2) g1(2) by (simp add: exec_groups_def)
  finally show ?thesis
    unfolding exec_fi_half [OF assms(1)] exec_malkrz_half [OF assms(2)] g1 g2
    by (cases "fi_test e s f g2") simp_all
qed

lemma run_halves_select:
  assumes "opc mi = FI_MALKRZ f m" "m \<noteq> Mx" "pseudo_ok mi"
  shows "run_block e nxt (fi_half mi f m # malkrz_half mi m # rest) s = run_block e nxt (mi # rest) s"
proof -
  have "run_block e nxt (malkrz_half mi m # rest) =
      (\<lambda>s. Option.bind (exec_instr e (malkrz_half mi m) s) (run_block e nxt rest))"
    using assms(2) by (cases m) (simp_all add: opc_malkrz_half fun_eq_iff)
  then have "run_block e nxt (fi_half mi f m # malkrz_half mi m # rest) s =
      Option.bind (Option.bind (exec_instr e (fi_half mi f m) s) (exec_instr e (malkrz_half mi m)))
        (run_block e nxt rest)"
    by (simp add: opc_fi_half)
  then show ?thesis unfolding halves_select [OF assms] using assms(1,2) by simp
qed

text \<open>A conditional branch: the \<open>FI\<close> sets the flag, the \<open>MALKRZ\<close> branches on it.\<close>

lemma run_halves_branch:
  assumes "opc mi = FI_MALKRZ f Mx" "pseudo_ok mi"
  shows "run_block e nxt (fi_half mi f Mx # malkrz_half mi Mx # rest) s = run_block e nxt (mi # rest) s"
proof -
  have "operands mi \<noteq> []"
    using assms num_operands_pseudo_branch [of f] by (auto simp: pseudo_ok_def)
  then have tgt: "branch_target (malkrz_half mi Mx) = branch_target mi"
    by (cases "operands mi") (simp_all add: branch_target_def malkrz_half_def num_operands_def)
  have n: "num_operands (malkrz_opcode Mx) = 1" by (simp add: num_operands_def)
  have "exec_instr e (fi_half mi f Mx) s =
      map_option (\<lambda>b. s\<lparr>cond_flag := b\<rparr>) (cond_branch_test e f (drop 1 (operands mi)) s)"
    unfolding exec_fi_half [OF assms(1)] n cond_branch_test_def ..
  then show ?thesis
    by (cases "branch_target mi"; cases "cond_branch_test e f (drop 1 (operands mi)) s")
      (auto simp: opc_fi_half opc_malkrz_half tgt assms(1))
qed

lemma run_expand_instr:
  assumes "pseudo_ok mi" "expand_instr mi = Inr xs"
  shows "run_block e nxt (xs @ rest) s = run_block e nxt (mi # rest) s"
proof (cases "getFiFromFiMalkrz (opc mi) = INSTRUCTION_LIST_END")
  case True
  then have "xs = [mi]" using assms(2) by (simp add: expand_instr_other)
  then show ?thesis by (simp del: run_block.simps)
next
  case False
  then obtain f m where fm: "opc mi = FI_MALKRZ f m" using getFiFromFiMalkrz_iff by blast
  then have "xs = [fi_half mi f m, malkrz_half mi m]" using assms expand_instr_pseudo by simp
  then show ?thesis
    using run_halves_select [OF fm _ assms(1)] run_halves_branch assms(1) fm
    by (cases "m = Mx") (simp_all del: run_block.simps)
qed

lemma run_expand_block:
  assumes "\<forall>x \<in> set MBB. pseudo_ok x" "expand_block MBB = Inr MBB'"
  shows "run_block e nxt MBB' s = run_block e nxt MBB s"
  using assms
proof (induction MBB arbitrary: MBB' s)
  case (Cons mi rest)
  obtain xs ys where xs: "expand_instr mi = Inr xs" and ys: "expand_block rest = Inr ys"
    and MBB': "MBB' = xs @ ys"
    using Cons.prems(2) by (auto simp: bind_result_Inr_iff)
  have "run_block e nxt (xs @ ys) s = run_block e nxt (mi # ys) s"
    using run_expand_instr [OF _ xs] Cons.prems(1) by simp
  also have "\<dots> = run_block e nxt (mi # rest) s"
    using run_block_append_cong [of e nxt ys rest "[mi]"] Cons.IH [OF _ ys] Cons.prems(1)
    by (simp del: run_block.simps)
  finally show ?case using MBB' by simp
qed simp

lemma expand_block_total:
  "\<forall>x \<in> set MBB. pseudo_ok x \<Longrightarrow> \<exists>MBB'. expand_block MBB = Inr MBB'"
proof (induction MBB)
  case (Cons mi rest)
  have "\<exists>xs. expand_instr mi = Inr xs"
    using Cons.prems expand_instr_other expand_instr_pseudo getFiFromFiMalkrz_iff [of "opc mi"]
    by (cases "getFiFromFiMalkrz (opc mi) = INSTRUCTION_LIST_END") auto
  then show ?case using Cons by (auto simp: bind_result_Inr_iff)
qed simp

section \<open>Properties of the pass\<close>

text \<open>No pseudo is left, and the operands of the pseudos are exactly those of their halves.\<close>

definition is_pseudo :: "minstr \<Rightarrow> bool" where
  "is_pseudo mi = (getFiFromFiMalkrz (opc mi) \<noteq> INSTRUCTION_LIST_END)"

lemma expand_instr_no_pseudo:
  assumes "expand_instr mi = Inr xs" "pseudo_ok mi"
  shows "\<forall>x \<in> set xs. \<not> is_pseudo x"
proof (cases "getFiFromFiMalkrz (opc mi) = INSTRUCTION_LIST_END")
  case False
  then obtain f m where fm: "opc mi = FI_MALKRZ f m" using getFiFromFiMalkrz_iff by blast
  then have "xs = [fi_half mi f m, malkrz_half mi m]" using assms expand_instr_pseudo by simp
  then show ?thesis by (cases m) (simp_all add: is_pseudo_def opc_fi_half opc_malkrz_half)
next
  case True
  then have "xs = [mi]" using assms(1) by (simp add: expand_instr_other)
  then show ?thesis using True by (simp add: is_pseudo_def)
qed

lemma expand_block_no_pseudo:
  "expand_block MBB = Inr MBB' \<Longrightarrow> \<forall>x \<in> set MBB. pseudo_ok x \<Longrightarrow> \<forall>x \<in> set MBB'. \<not> is_pseudo x"
proof (induction MBB arbitrary: MBB')
  case (Cons mi rest)
  obtain xs ys where xs: "expand_instr mi = Inr xs" and "expand_block rest = Inr ys" "MBB' = xs @ ys"
    using Cons.prems(1) by (auto simp: bind_result_Inr_iff)
  then show ?case using Cons.IH Cons.prems(2) expand_instr_no_pseudo [OF xs] by auto
qed simp

lemma expand_block_id: "\<forall>x \<in> set MBB. \<not> is_pseudo x \<Longrightarrow> expand_block MBB = Inr MBB"
  by (induction MBB) (simp_all add: is_pseudo_def expand_instr_other)

lemma expand_function_blocks:
  assumes "\<forall>BB \<in> set F. \<forall>x \<in> set BB. pseudo_ok x"
  shows "\<exists>F'. runOnMachineFunction F = Inr F' \<and> list_all2 (\<lambda>BB BB'. expand_block BB = Inr BB') F F'"
  using assms
proof (induction F)
  case (Cons BB F)
  then show ?case using expand_block_total [of BB] by (auto simp: bind_result_Inr_iff)
qed simp

lemma expand_function_no_pseudo:
  "runOnMachineFunction F = Inr F' \<Longrightarrow> \<forall>BB \<in> set F. \<forall>x \<in> set BB. pseudo_ok x
   \<Longrightarrow> \<forall>BB \<in> set F'. \<forall>x \<in> set BB. \<not> is_pseudo x"
proof (induction F arbitrary: F')
  case (Cons BB F)
  obtain b bs where b: "expand_block BB = Inr b" and "runOnMachineFunction F = Inr bs" "F' = b # bs"
    using Cons.prems(1) by (auto simp: bind_result_Inr_iff)
  then show ?case using Cons.IH Cons.prems(2) expand_block_no_pseudo [OF b] by simp
qed simp

lemma expand_function_id:
  "\<forall>BB \<in> set F. \<forall>x \<in> set BB. \<not> is_pseudo x \<Longrightarrow> runOnMachineFunction F = Inr F"
  by (induction F) (simp_all add: expand_block_id)

text \<open>
  C4. On a function whose pseudos have the operands their descriptors declare, the pass returns: it
  does not run out of operands, it leaves no pseudo instruction, each block runs as before (the
  condition flag included), and running the pass again changes nothing.
\<close>

theorem fi_malkrz_pass_correct:
  assumes "\<forall>BB \<in> set F. \<forall>x \<in> set BB. pseudo_ok x"
  shows "\<exists>F'. runOnMachineFunction F = Inr F' \<and> length F' = length F
    \<and> (\<forall>i < length F. \<forall>e nxt s. run_block e nxt (F' ! i) s = run_block e nxt (F ! i) s)
    \<and> (\<forall>BB \<in> set F'. \<forall>x \<in> set BB. \<not> is_pseudo x)
    \<and> runOnMachineFunction F' = Inr F'"
proof -
  obtain F' where F': "runOnMachineFunction F = Inr F'"
      and all: "list_all2 (\<lambda>BB BB'. expand_block BB = Inr BB') F F'"
    using expand_function_blocks [OF assms] by blast
  have no: "\<forall>BB \<in> set F'. \<forall>x \<in> set BB. \<not> is_pseudo x"
    by (rule expand_function_no_pseudo [OF F' assms])
  moreover have "runOnMachineFunction F' = Inr F'" using no by (rule expand_function_id)
  moreover have "run_block e nxt (F' ! i) s = run_block e nxt (F ! i) s" if "i < length F" for i e nxt s
  proof (rule run_expand_block)
    show "\<forall>x \<in> set (F ! i). pseudo_ok x" using assms that nth_mem by blast
    show "expand_block (F ! i) = Inr (F' ! i)" using all that by (simp add: list_all2_conv_all_nth)
  qed
  ultimately show ?thesis using F' list_all2_lengthD [OF all] by metis
qed

text \<open>
  The pass splits the operand list of a pseudo without loss or overlap: the \<open>MALKRZ\<close> half takes the
  first operands, the \<open>FI\<close> half the rest, both have exactly the number of operands that their own
  descriptors declare, and the \<open>MALKRZ\<close> half is the one inside the bundle.
\<close>

theorem expand_instr_operands:
  assumes "is_pseudo mi" and "length (operands mi) = num_operands (opc mi)"
  shows "\<exists>fi malkrz. expand_instr mi = Inr [fi, malkrz]
    \<and> opc fi = getFiFromFiMalkrz (opc mi) \<and> opc malkrz = getMalkrzFromFiMalkrz (opc mi)
    \<and> operands malkrz @ operands fi = operands mi
    \<and> length (operands fi) = num_operands (opc fi)
    \<and> length (operands malkrz) = num_operands (opc malkrz)
    \<and> \<not> inside_bundle fi \<and> inside_bundle malkrz"
proof -
  obtain f m where fm: "opc mi = FI_MALKRZ f m"
    using assms(1) getFiFromFiMalkrz_iff by (auto simp: is_pseudo_def)
  have "pseudo_ok mi" using assms(2) by (simp add: pseudo_ok_def)
  then have "expand_instr mi = Inr [fi_half mi f m, malkrz_half mi m]"
    by (rule expand_instr_pseudo [OF fm])
  then show ?thesis
    using fm assms(2) num_operands_split [of f m] by (simp add: fi_half_def malkrz_half_def)
qed

definition sample_pseudo :: minstr where
  "sample_pseudo = mk_instr FIrm_MALKRZri
     [def_reg F0, use_reg F0, MO_Immediate 1, use_reg F1, use_reg F5, use_reg NoRegister,
      MO_Immediate 8, MO_Immediate 6]"

theorem fi_malkrz_pass_correct_witness:
  "\<exists>F'. runOnMachineFunction [sample_block, [sample_pseudo]] = Inr F' \<and> length F' = 2
    \<and> runOnMachineFunction F' = Inr F'"
proof -
  have "\<forall>BB \<in> set [sample_block, [sample_pseudo]]. \<forall>x \<in> set BB. pseudo_ok x"
    by (simp add: sample_block_def sample_pseudo_def pseudo_ok_def num_operands_def)
  from fi_malkrz_pass_correct [OF this] show ?thesis by auto
qed

theorem expand_instr_operands_witness:
  "\<exists>fi malkrz. expand_instr sample_pseudo = Inr [fi, malkrz] \<and> opc fi = FIrm \<and> opc malkrz = MALKRZri"
  using expand_instr_operands [of sample_pseudo]
  by (auto simp: is_pseudo_def sample_pseudo_def num_operands_def)

end
