(* ===== verification/MathExtras.thy ===== *)
theory MathExtras
  imports Prelude
begin

text \<open>
  The alignment arithmetic of \<open>include/llvm/Support/MathExtras.h\<close>. The functions work on \<open>uint64_t\<close>:
  a value is an \<open>int\<close> of the range from \<open>0\<close> to \<open>2 ^ 64 - 1\<close>, and every sum or difference that can
  leave it is reduced by \<open>u64\<close>. \<open>alignTo\<close> and \<open>alignDown\<close> assert that the alignment is not zero.
\<close>

section \<open>The functions\<close>

definition MinAlign :: "int \<Rightarrow> int \<Rightarrow> int" where
  "MinAlign A B = u64 ((A OR B) AND u64 (1 + NOT (A OR B)))"

definition alignTo :: "int \<Rightarrow> int \<Rightarrow> int \<Rightarrow> int result" where
  "alignTo Value Align Skew =
     (if Align = 0 then Inl AssertFailed
      else let Skew = Skew mod Align in
        Inr (u64 (u64 (Value + Align - 1 - Skew) div Align * Align + Skew)))"

definition alignDown :: "int \<Rightarrow> int \<Rightarrow> int \<Rightarrow> int result" where
  "alignDown Value Align Skew =
     (if Align = 0 then Inl AssertFailed
      else let Skew = Skew mod Align in
        Inr (u64 (u64 (Value - Skew) div Align * Align + Skew)))"

definition OffsetToAlignment :: "int \<Rightarrow> int \<Rightarrow> int result" where
  "OffsetToAlignment Value Align =
     bind_result (alignTo Value Align 0) (\<lambda>a. Inr (u64 (a - Value)))"

section \<open>Rounding up and down\<close>

text \<open>The next value at or above \<open>v\<close> that is \<open>s\<close> modulo \<open>a\<close>, without bounds.\<close>

definition ceil_to :: "int \<Rightarrow> int \<Rightarrow> int \<Rightarrow> int" where
  "ceil_to a s v = (v + a - 1 - s) div a * a + s"

lemma ceil_to_bounds: "0 < a \<Longrightarrow> v \<le> ceil_to a s v" "0 < a \<Longrightarrow> ceil_to a s v < v + a"
proof -
  assume a: "0 < a"
  have "(v + a - 1 - s) div a * a = (v + a - 1 - s) - (v + a - 1 - s) mod a"
    by (simp add: minus_mod_eq_div_mult)
  moreover have "0 \<le> (v + a - 1 - s) mod a" "(v + a - 1 - s) mod a < a" using a by simp_all
  ultimately show "v \<le> ceil_to a s v" "ceil_to a s v < v + a" by (simp_all add: ceil_to_def)
qed

lemma ceil_to_mod: "ceil_to a s v mod a = s mod a"
  by (simp add: ceil_to_def)

lemma ceil_to_least:
  assumes "0 < a" "v \<le> w" "w mod a = s mod a"
  shows "ceil_to a s v \<le> w"
proof -
  have "(w - ceil_to a s v) mod a = 0"
    using assms(3) ceil_to_mod [of a s v] by (metis mod_eq_dvd_iff mod_0_imp_dvd dvd_imp_mod_0)
  then obtain k where k: "w - ceil_to a s v = a * k" by (auto simp: mod_eq_0_iff_dvd dvd_def)
  have "- a < a * k" using k ceil_to_bounds(2) [OF assms(1), where s = s and v = v] assms(2) by linarith
  then have "- 1 < k" using assms(1) by (metis mult.commute mult_less_cancel_left_pos mult_minus1_right)
  then have "0 \<le> a * k" using assms(1) by simp
  then show ?thesis using k by simp
qed

lemma alignTo_ceil_to:
  assumes "0 \<le> v" "0 < a" "v + a \<le> 2 ^ 64"
  shows "alignTo v a s = Inr (ceil_to a (s mod a) v)"
proof -
  have s: "0 \<le> s mod a" "s mod a < a" using assms by simp_all
  have "u64 (v + a - 1 - s mod a) = v + a - 1 - s mod a"
    by (rule u64_id; use s assms in linarith)
  moreover have "u64 (ceil_to a (s mod a) v) = ceil_to a (s mod a) v"
    by (rule u64_id; use ceil_to_bounds [OF assms(2), where s = "s mod a" and v = v] assms in linarith)
  ultimately show ?thesis using assms(2) by (simp add: alignTo_def ceil_to_def Let_def)
qed

text \<open>
  As long as \<open>Value + Align\<close> stays within 64 bits, \<open>alignTo\<close> returns the least value at or above
  \<open>Value\<close> that is \<open>Skew\<close> modulo \<open>Align\<close>; \<open>OffsetToAlignment\<close> is the distance to it, less than \<open>Align\<close>.
\<close>

theorem alignTo_spec:
  assumes "0 \<le> Value" "0 < Align" "Value + Align \<le> 2 ^ 64"
  shows "\<exists>r. alignTo Value Align Skew = Inr r \<and> Value \<le> r \<and> r < Value + Align
      \<and> r mod Align = Skew mod Align
      \<and> (\<forall>w. Value \<le> w \<and> w mod Align = Skew mod Align \<longrightarrow> r \<le> w)
      \<and> (Skew = 0 \<longrightarrow> OffsetToAlignment Value Align = Inr (r - Value))"
proof -
  let ?r = "ceil_to Align (Skew mod Align) Value"
  have r: "alignTo Value Align Skew = Inr ?r" by (rule alignTo_ceil_to [OF assms])
  have b: "Value \<le> ?r" "?r < Value + Align" using ceil_to_bounds [OF assms(2)] by auto
  have "OffsetToAlignment Value Align = Inr (?r - Value)" if "Skew = 0"
  proof -
    have "u64 (?r - Value) = ?r - Value" by (rule u64_id; use b assms in linarith)
    then show ?thesis using r that by (simp add: OffsetToAlignment_def)
  qed
  then show ?thesis
    using r b ceil_to_least [OF assms(2), of Value _ "Skew mod Align"]
    by (auto simp: ceil_to_mod)
qed

theorem alignTo_spec_witness:
  "\<exists>r. alignTo 321 255 42 = Inr r \<and> 321 \<le> r \<and> r < 576 \<and> r mod 255 = 42"
proof -
  have "(0 :: int) \<le> 321" "(0 :: int) < 255" "(321 :: int) + 255 \<le> 2 ^ 64" by simp_all
  from alignTo_spec [OF this, of 42] show ?thesis by auto
qed

text \<open>
  The documentation comment of \<open>alignTo\<close> promises the next multiple modulo \<open>2 ^ 64\<close> for every
  non-zero alignment. That holds, wrap-around included, for an alignment that divides \<open>2 ^ 64\<close>; it
  fails near the top of the range for others: the largest \<open>uint64_t\<close> is a multiple of 3, and rounding
  it up to a multiple of 3 gives 0.
\<close>

theorem alignTo_wrap:
  "(\<forall>k \<le> 63. \<forall>v. 0 \<le> v \<and> v < 2 ^ 64 \<longrightarrow> alignTo v (2 ^ k) 0 = Inr (u64 (ceil_to (2 ^ k) 0 v)))
   \<and> (2 ^ 64 - 1) mod 3 = (0 :: int) \<and> alignTo (2 ^ 64 - 1) 3 0 = Inr 0"
proof (intro conjI allI impI)
  fix k :: nat and v :: int assume k: "k \<le> 63" and "0 \<le> v \<and> v < 2 ^ 64"
  have "u64 x div 2 ^ k * 2 ^ k = u64 (x div 2 ^ k * 2 ^ k)" for x :: int
  proof -
    have "push_bit k (drop_bit k (take_bit 64 x)) = take_bit 64 (push_bit k (drop_bit k x))"
      using k by (auto simp: bit_eq_iff bit_push_bit_iff bit_drop_bit_eq bit_take_bit_iff)
    then show ?thesis by (simp add: u64_def push_bit_eq_mult drop_bit_eq_div)
  qed
  then show "alignTo v (2 ^ k) 0 = Inr (u64 (ceil_to (2 ^ k) 0 v))"
    by (simp add: alignTo_def ceil_to_def Let_def u64_mod)
next
  show "(2 ^ 64 - 1) mod 3 = (0 :: int)" by simp
  show "alignTo (2 ^ 64 - 1) 3 0 = Inr 0" by (simp add: alignTo_def u64_mod)
qed

theorem alignTo_wrap_witness: "alignTo (2 ^ 64 - 1) (2 ^ 3) 0 = Inr (u64 (ceil_to (2 ^ 3) 0 (2 ^ 64 - 1)))"
proof -
  have "(3 :: nat) \<le> 63" "(0 :: int) \<le> 2 ^ 64 - 1 \<and> (2 ^ 64 - 1 :: int) < 2 ^ 64" by simp_all
  with alignTo_wrap show ?thesis by blast
qed

section \<open>The largest common power of two\<close>

lemma and_minus_odd: "odd y \<Longrightarrow> y AND - y = (1 :: int)"
proof -
  assume "odd y"
  then obtain m where y: "y = 2 * m + 1" by (rule oddE)
  have "y AND - y = of_bool (odd y \<and> odd (- y)) + 2 * ((y div 2) AND ((- y) div 2))"
    by (rule and_rec)
  moreover have "(- y) div 2 = NOT m" "y div 2 = m" by (simp_all add: y not_int_def)
  ultimately show ?thesis using \<open>odd y\<close> by simp
qed

lemma odd_part: "x \<noteq> (0 :: int) \<Longrightarrow> \<exists>(k :: nat) y. x = 2 ^ k * y \<and> odd y"
proof (induction "nat \<bar>x\<bar>" arbitrary: x rule: less_induct)
  case less
  show ?case
  proof (cases "odd x")
    case True
    then show ?thesis by (intro exI [of _ 0] exI [of _ x]) simp
  next
    case False
    then obtain z where z: "x = 2 * z" by blast
    then have "nat \<bar>z\<bar> < nat \<bar>x\<bar>" "z \<noteq> 0" using less.prems by simp_all
    then obtain k :: nat and y where "z = 2 ^ k * y" "odd y" using less.hyps by blast
    then show ?thesis using z by (intro exI [of _ "Suc k"] exI [of _ y]) simp
  qed
qed

lemma lowest_bit:
  assumes "x \<noteq> (0 :: int)"
  shows "\<exists>k :: nat. x AND - x = 2 ^ k \<and> 2 ^ k dvd x \<and> \<not> 2 ^ Suc k dvd x"
proof -
  obtain k :: nat and y where y: "x = 2 ^ k * y" "odd y" using odd_part [OF assms] by blast
  have "push_bit k y AND push_bit k (- y) = push_bit k (y AND - y)" by (simp only: push_bit_and)
  then have "x AND - x = 2 ^ k"
    using and_minus_odd [OF y(2)] by (simp add: push_bit_eq_mult y(1) mult.commute)
  moreover have "\<not> 2 ^ Suc k dvd x" using y by auto
  ultimately show ?thesis using y(1) by (intro exI [of _ k]) simp
qed

lemma pow2_dvd_or: "2 ^ j dvd (A OR B) \<longleftrightarrow> 2 ^ j dvd A \<and> 2 ^ j dvd (B :: int)"
proof -
  have "take_bit j (A OR B) = 0 \<longleftrightarrow> take_bit j A = 0 \<and> take_bit j B = 0"
    by (auto simp: bit_eq_iff bit_take_bit_iff bit_or_iff)
  then show ?thesis by (metis take_bit_eq_0_iff)
qed

lemma MinAlign_lowest:
  assumes "0 \<le> A" "A < 2 ^ 64" "0 \<le> B" "B < 2 ^ 64"
  shows "MinAlign A B = (A OR B) AND - (A OR B)"
proof -
  have x: "take_bit 64 (A OR B) = A OR B" using assms by (simp add: take_bit_int_eq_self)
  have "1 + NOT (A OR B) = - (A OR B)" by (simp add: not_int_def)
  moreover have "u64 ((A OR B) AND u64 (- (A OR B))) = take_bit 64 (A OR B) AND - (A OR B)"
    unfolding u64_def by (rule bit_eqI) (auto simp only: bit_take_bit_iff bit_and_iff)
  ultimately show ?thesis unfolding MinAlign_def x by (simp only:)
qed

text \<open>
  \<open>MinAlign\<close> of two \<open>uint64_t\<close> values, not both zero, is the largest power of two that divides both
  of them: the alignment that is left of an address when an offset is added to it.
\<close>

theorem MinAlign_spec:
  assumes "0 \<le> A" "A < 2 ^ 64" "0 \<le> B" "B < 2 ^ 64" "A \<noteq> 0 \<or> B \<noteq> 0"
  shows "\<exists>k :: nat. MinAlign A B = 2 ^ k \<and> 2 ^ k dvd A \<and> 2 ^ k dvd B
    \<and> (\<forall>j. 2 ^ j dvd A \<and> 2 ^ j dvd B \<longrightarrow> j \<le> k)"
proof -
  have nz: "A OR B \<noteq> 0" using assms(5) by (auto simp: or_eq_0_iff)
  obtain k :: nat where k: "(A OR B) AND - (A OR B) = 2 ^ k"
      "2 ^ k dvd (A OR B)" "\<not> 2 ^ Suc k dvd (A OR B)"
    using lowest_bit [OF nz] by blast
  have "j \<le> k" if "2 ^ j dvd A \<and> 2 ^ j dvd B" for j
  proof (rule ccontr)
    assume "\<not> j \<le> k"
    then have "(2 :: int) ^ Suc k dvd 2 ^ j" by (intro le_imp_power_dvd) simp
    then show False using that k(3) pow2_dvd_or dvd_trans by metis
  qed
  then show ?thesis using k MinAlign_lowest [OF assms(1-4)] pow2_dvd_or by auto
qed

theorem MinAlign_spec_witness: "\<exists>k :: nat. MinAlign 24 4 = 2 ^ k \<and> 2 ^ k dvd (24 :: int)"
proof -
  have "(0 :: int) \<le> 24" "(24 :: int) < 2 ^ 64" "(0 :: int) \<le> 4" "(4 :: int) < 2 ^ 64"
    "(24 :: int) \<noteq> 0 \<or> (4 :: int) \<noteq> 0" by simp_all
  from MinAlign_spec [OF this] show ?thesis by auto
qed

lemma MinAlign_pos:
  assumes "0 \<le> A" "A < 2 ^ 64" "0 < B" "B < 2 ^ 64"
  shows "0 < MinAlign A B" "MinAlign A B dvd A" "MinAlign A B \<le> B"
proof -
  have nz: "A OR B \<noteq> 0" using assms(3) by (auto simp: or_eq_0_iff)
  obtain k :: nat where k: "(A OR B) AND - (A OR B) = 2 ^ k" "2 ^ k dvd (A OR B)"
    using lowest_bit [OF nz] by blast
  then have "MinAlign A B = 2 ^ k" "2 ^ k dvd A" "2 ^ k dvd B"
    using MinAlign_lowest [of A B] assms pow2_dvd_or by auto
  then show "0 < MinAlign A B" "MinAlign A B dvd A" "MinAlign A B \<le> B"
    using assms(3) zdvd_imp_le by auto
qed

end
