(* ===== verification/FrameInfo.thy ===== *)
theory FrameInfo
  imports MathExtras MachineIR
begin

text \<open>
  The abstract stack frame of a machine function: \<open>MachineFrameInfo\<close> of
  \<open>include/llvm/CodeGen/MachineFrameInfo.h\<close> and \<open>lib/CodeGen/MachineFrameInfo.cpp\<close>.

  Stack objects are named by frame indices. The fixed objects, at known offsets from the incoming stack
  pointer, have negative indices; new ones are inserted at the front of the vector, so index \<open>i\<close> is
  the element \<open>i + NumFixedObjects\<close>. An access out of range and an access to the offset of a dead
  object are assertion failures. The callee-saved registers are pairs of a register and its frame
  index, the save and restore points are block numbers.

  The lemmas show that a frame index keeps naming the same object whatever is created after it, and
  that every operation keeps \<open>frame_ok\<close>.
\<close>

section \<open>State\<close>

record stack_object =
  SPOffset :: int
  Size :: int
  Alignment :: int
  isImmutable :: bool
  isSpillSlot :: bool
  isStatepointSpillSlot :: bool
  Alloca :: "nat option"
  PreAllocated :: bool
  isAliased :: bool
  isZExt :: bool
  isSExt :: bool

definition StackObject :: "int \<Rightarrow> int \<Rightarrow> int \<Rightarrow> bool \<Rightarrow> bool \<Rightarrow> nat option \<Rightarrow> bool \<Rightarrow> stack_object" where
  "StackObject Sz Al SP IM isSS Val A =
     \<lparr>SPOffset = SP, Size = Sz, Alignment = Al, isImmutable = IM, isSpillSlot = isSS,
      isStatepointSpillSlot = False, Alloca = Val, PreAllocated = False, isAliased = A,
      isZExt = False, isSExt = False\<rparr>"

record frame_info =
  StackAlignment :: int
  StackRealignable :: bool
  ForcedRealign :: bool
  Objects :: "stack_object list"
  NumFixedObjects :: nat
  HasVarSizedObjects :: bool
  FrameAddressTaken :: bool
  ReturnAddressTaken :: bool
  HasStackMap :: bool
  HasPatchPoint :: bool
  StackSize :: int
  OffsetAdjustment :: int
  MaxAlignment :: int
  AdjustsStack :: bool
  HasCalls :: bool
  StackProtectorIdx :: int
  FunctionContextIdx :: int
  MaxCallFrameSize :: int
  CSInfo :: "(reg \<times> int) list"
  CSIValid :: bool
  LocalFrameObjects :: "(int \<times> int) list"
  LocalFrameSize :: int
  LocalFrameMaxAlign :: int
  UseLocalStackAllocationBlock :: bool
  HasOpaqueSPAdjustment :: bool
  HasCopyImplyingStackAdjustment :: bool
  HasVAStart :: bool
  HasMustTailInVarArgFunc :: bool
  HasTailCall :: bool
  SavePoint :: "nat option"
  RestorePoint :: "nat option"

definition new_frame_info :: "int \<Rightarrow> bool \<Rightarrow> bool \<Rightarrow> frame_info" where
  "new_frame_info sa realignable forced =
     \<lparr>StackAlignment = sa, StackRealignable = realignable, ForcedRealign = forced, Objects = [],
      NumFixedObjects = 0, HasVarSizedObjects = False, FrameAddressTaken = False,
      ReturnAddressTaken = False, HasStackMap = False, HasPatchPoint = False, StackSize = 0,
      OffsetAdjustment = 0, MaxAlignment = 0, AdjustsStack = False, HasCalls = False,
      StackProtectorIdx = -1, FunctionContextIdx = -1, MaxCallFrameSize = 2 ^ 32 - 1, CSInfo = [],
      CSIValid = False, LocalFrameObjects = [], LocalFrameSize = 0, LocalFrameMaxAlign = 0,
      UseLocalStackAllocationBlock = False, HasOpaqueSPAdjustment = False,
      HasCopyImplyingStackAdjustment = False, HasVAStart = False, HasMustTailInVarArgFunc = False,
      HasTailCall = False, SavePoint = None, RestorePoint = None\<rparr>"

section \<open>Access by frame index\<close>

definition getObjectIndexBegin :: "frame_info \<Rightarrow> int" where
  "getObjectIndexBegin fi = - int (NumFixedObjects fi)"

definition getObjectIndexEnd :: "frame_info \<Rightarrow> int" where
  "getObjectIndexEnd fi = int (length (Objects fi)) - int (NumFixedObjects fi)"

text \<open>\<open>unsigned(ObjectIdx + NumFixedObjects) < Objects.size()\<close>: a negative sum wraps to a large one.\<close>

definition valid_index :: "frame_info \<Rightarrow> int \<Rightarrow> bool" where
  "valid_index fi i = (0 \<le> i + int (NumFixedObjects fi)
     \<and> i + int (NumFixedObjects fi) < int (length (Objects fi)))"

definition slot_of :: "frame_info \<Rightarrow> int \<Rightarrow> nat" where
  "slot_of fi i = nat (i + int (NumFixedObjects fi))"

definition object_at :: "frame_info \<Rightarrow> int \<Rightarrow> stack_object" where
  "object_at fi i = Objects fi ! slot_of fi i"

definition get_object :: "frame_info \<Rightarrow> int \<Rightarrow> stack_object result" where
  "get_object fi i = (if valid_index fi i then Inr (object_at fi i) else Inl AssertFailed)"

definition set_object :: "frame_info \<Rightarrow> int \<Rightarrow> (stack_object \<Rightarrow> stack_object) \<Rightarrow> frame_info result" where
  "set_object fi i f = (if valid_index fi i
     then Inr (fi\<lparr>Objects := (Objects fi)[slot_of fi i := f (object_at fi i)]\<rparr>)
     else Inl AssertFailed)"

definition dead_size :: int where
  "dead_size = 2 ^ 64 - 1"

definition isDeadObjectIndex :: "frame_info \<Rightarrow> int \<Rightarrow> bool result" where
  "isDeadObjectIndex fi i = bind_result (get_object fi i) (\<lambda>ob. Inr (Size ob = dead_size))"

definition isVariableSizedObjectIndex :: "frame_info \<Rightarrow> int \<Rightarrow> bool result" where
  "isVariableSizedObjectIndex fi i = bind_result (get_object fi i) (\<lambda>ob. Inr (Size ob = 0))"

text \<open>\<open>getObjectSize\<close> returns the \<open>uint64_t\<close> field as an \<open>int64_t\<close>.\<close>

definition getObjectSize :: "frame_info \<Rightarrow> int \<Rightarrow> int result" where
  "getObjectSize fi i = bind_result (get_object fi i) (\<lambda>ob. Inr (i64 (Size ob)))"

definition setObjectSize :: "frame_info \<Rightarrow> int \<Rightarrow> int \<Rightarrow> frame_info result" where
  "setObjectSize fi i sz = set_object fi i (\<lambda>ob. ob\<lparr>Size := u64 sz\<rparr>)"

definition getObjectAlignment :: "frame_info \<Rightarrow> int \<Rightarrow> int result" where
  "getObjectAlignment fi i = bind_result (get_object fi i) (\<lambda>ob. Inr (Alignment ob))"

definition getObjectAllocation :: "frame_info \<Rightarrow> int \<Rightarrow> nat option result" where
  "getObjectAllocation fi i = bind_result (get_object fi i) (\<lambda>ob. Inr (Alloca ob))"

definition isObjectPreAllocated :: "frame_info \<Rightarrow> int \<Rightarrow> bool result" where
  "isObjectPreAllocated fi i = bind_result (get_object fi i) (\<lambda>ob. Inr (PreAllocated ob))"

definition isAliasedObjectIndex :: "frame_info \<Rightarrow> int \<Rightarrow> bool result" where
  "isAliasedObjectIndex fi i = bind_result (get_object fi i) (\<lambda>ob. Inr (isAliased ob))"

definition isSpillSlotObjectIndex :: "frame_info \<Rightarrow> int \<Rightarrow> bool result" where
  "isSpillSlotObjectIndex fi i = bind_result (get_object fi i) (\<lambda>ob. Inr (isSpillSlot ob))"

definition isImmutableObjectIndex :: "frame_info \<Rightarrow> int \<Rightarrow> bool result" where
  "isImmutableObjectIndex fi i = (if HasTailCall fi then Inr False
     else bind_result (get_object fi i) (\<lambda>ob. Inr (isImmutable ob)))"

definition isFixedObjectIndex :: "frame_info \<Rightarrow> int \<Rightarrow> bool" where
  "isFixedObjectIndex fi i = (i < 0 \<and> - int (NumFixedObjects fi) \<le> i)"

definition getObjectOffset :: "frame_info \<Rightarrow> int \<Rightarrow> int result" where
  "getObjectOffset fi i = bind_result (get_object fi i) (\<lambda>ob.
     if Size ob = dead_size then Inl AssertFailed else Inr (SPOffset ob))"

definition setObjectOffset :: "frame_info \<Rightarrow> int \<Rightarrow> int \<Rightarrow> frame_info result" where
  "setObjectOffset fi i off = bind_result (get_object fi i) (\<lambda>ob.
     if Size ob = dead_size then Inl AssertFailed else set_object fi i (\<lambda>ob. ob\<lparr>SPOffset := off\<rparr>))"

definition isMaxCallFrameSizeComputed :: "frame_info \<Rightarrow> bool" where
  "isMaxCallFrameSizeComputed fi = (MaxCallFrameSize fi \<noteq> 2 ^ 32 - 1)"

definition getMaxCallFrameSize :: "frame_info \<Rightarrow> int" where
  "getMaxCallFrameSize fi = (if \<not> isMaxCallFrameSizeComputed fi then 0 else MaxCallFrameSize fi)"

section \<open>Creating and removing objects\<close>

definition ensureMaxAlignment :: "frame_info \<Rightarrow> int \<Rightarrow> frame_info result" where
  "ensureMaxAlignment fi Align =
     (if \<not> StackRealignable fi \<and> \<not> Align \<le> StackAlignment fi then Inl AssertFailed
      else Inr (if MaxAlignment fi < Align then fi\<lparr>MaxAlignment := Align\<rparr> else fi))"

definition setObjectAlignment :: "frame_info \<Rightarrow> int \<Rightarrow> int \<Rightarrow> frame_info result" where
  "setObjectAlignment fi i Align =
     bind_result (set_object fi i (\<lambda>ob. ob\<lparr>Alignment := Align\<rparr>)) (\<lambda>fi. ensureMaxAlignment fi Align)"

definition clampStackAlignment :: "bool \<Rightarrow> int \<Rightarrow> int \<Rightarrow> int" where
  "clampStackAlignment ShouldClamp Align StackAlign =
     (if \<not> ShouldClamp \<or> Align \<le> StackAlign then Align else StackAlign)"

definition CreateStackObject :: "frame_info \<Rightarrow> int \<Rightarrow> int \<Rightarrow> bool \<Rightarrow> nat option \<Rightarrow> (int \<times> frame_info) result" where
  "CreateStackObject fi Sz Al isSS alloca =
     (if Sz = 0 then Inl AssertFailed
      else
        let Al = clampStackAlignment (\<not> StackRealignable fi) Al (StackAlignment fi);
            fi = fi\<lparr>Objects := Objects fi @ [StackObject Sz Al 0 False isSS alloca (\<not> isSS)]\<rparr>;
            Index = int (length (Objects fi)) - int (NumFixedObjects fi) - 1
        in if Index < 0 then Inl AssertFailed
           else bind_result (ensureMaxAlignment fi Al) (\<lambda>fi. Inr (Index, fi)))"

definition CreateSpillStackObject :: "frame_info \<Rightarrow> int \<Rightarrow> int \<Rightarrow> (int \<times> frame_info) result" where
  "CreateSpillStackObject fi Sz Al =
     (let Al = clampStackAlignment (\<not> StackRealignable fi) Al (StackAlignment fi) in
      bind_result (CreateStackObject fi Sz Al True None) (\<lambda>(_, fi).
        let Index = int (length (Objects fi)) - int (NumFixedObjects fi) - 1 in
        bind_result (ensureMaxAlignment fi Al) (\<lambda>fi. Inr (Index, fi))))"

definition CreateVariableSizedObject :: "frame_info \<Rightarrow> int \<Rightarrow> nat option \<Rightarrow> (int \<times> frame_info) result" where
  "CreateVariableSizedObject fi Al alloca =
     (let fi = fi\<lparr>HasVarSizedObjects := True\<rparr>;
          Al = clampStackAlignment (\<not> StackRealignable fi) Al (StackAlignment fi);
          fi = fi\<lparr>Objects := Objects fi @ [StackObject 0 Al 0 False False alloca True]\<rparr>
      in bind_result (ensureMaxAlignment fi Al) (\<lambda>fi.
           Inr (int (length (Objects fi)) - int (NumFixedObjects fi) - 1, fi)))"

definition fixed_alignment :: "frame_info \<Rightarrow> int \<Rightarrow> int" where
  "fixed_alignment fi off =
     clampStackAlignment (\<not> StackRealignable fi)
       (u32 (MinAlign (u64 off) (if ForcedRealign fi then 1 else StackAlignment fi))) (StackAlignment fi)"

definition CreateFixedObject :: "frame_info \<Rightarrow> int \<Rightarrow> int \<Rightarrow> bool \<Rightarrow> bool \<Rightarrow> (int \<times> frame_info) result" where
  "CreateFixedObject fi Sz off Immutable aliased =
     (if Sz = 0 then Inl AssertFailed
      else
        let Align = fixed_alignment fi off;
            n = NumFixedObjects fi + 1
        in Inr (- int n,
                fi\<lparr>Objects := StackObject Sz Align off Immutable False None aliased # Objects fi,
                   NumFixedObjects := n\<rparr>))"

definition CreateFixedSpillStackObject :: "frame_info \<Rightarrow> int \<Rightarrow> int \<Rightarrow> bool \<Rightarrow> (int \<times> frame_info) result" where
  "CreateFixedSpillStackObject fi Sz off Immutable =
     (let Align = fixed_alignment fi off;
          n = NumFixedObjects fi + 1
      in Inr (- int n,
              fi\<lparr>Objects := StackObject Sz Align off Immutable True None False # Objects fi,
                 NumFixedObjects := n\<rparr>))"

text \<open>\<open>RemoveStackObject\<close> has no assertion: out of range it would write outside the vector.\<close>

definition RemoveStackObject :: "frame_info \<Rightarrow> int \<Rightarrow> frame_info result" where
  "RemoveStackObject fi i = set_object fi i (\<lambda>ob. ob\<lparr>Size := dead_size\<rparr>)"

definition mapLocalFrameObject :: "frame_info \<Rightarrow> int \<Rightarrow> int \<Rightarrow> frame_info result" where
  "mapLocalFrameObject fi i off =
     set_object (fi\<lparr>LocalFrameObjects := LocalFrameObjects fi @ [(i, off)]\<rparr>) i
       (\<lambda>ob. ob\<lparr>PreAllocated := True\<rparr>)"

section \<open>Frame indices are stable\<close>

lemma valid_index_slot: "valid_index fi i \<Longrightarrow> slot_of fi i < length (Objects fi)"
  by (auto simp: valid_index_def slot_of_def)

lemma slot_of_inj: "valid_index fi i \<Longrightarrow> valid_index fi j \<Longrightarrow> slot_of fi i = slot_of fi j \<Longrightarrow> i = j"
  by (auto simp: valid_index_def slot_of_def)

lemma append_index:
  assumes "Objects fi' = Objects fi @ [ob]" "NumFixedObjects fi' = NumFixedObjects fi"
  shows "valid_index fi' i \<longleftrightarrow> valid_index fi i \<or> i = getObjectIndexEnd fi"
    and "valid_index fi i \<Longrightarrow> object_at fi' i = object_at fi i"
    and "object_at fi' (getObjectIndexEnd fi) = ob"
    and "\<not> valid_index fi (getObjectIndexEnd fi)"
  using assms
  by (auto simp: valid_index_def object_at_def slot_of_def getObjectIndexEnd_def nth_append)

lemma front_index:
  assumes "Objects fi' = ob # Objects fi" "NumFixedObjects fi' = Suc (NumFixedObjects fi)"
  shows "valid_index fi' i \<longleftrightarrow> valid_index fi i \<or> i = getObjectIndexBegin fi - 1"
    and "valid_index fi i \<Longrightarrow> object_at fi' i = object_at fi i"
    and "object_at fi' (getObjectIndexBegin fi - 1) = ob"
    and "\<not> valid_index fi (getObjectIndexBegin fi - 1)"
  using assms
  by (auto simp: valid_index_def object_at_def slot_of_def getObjectIndexBegin_def nth_Cons'
      intro!: arg_cong [where f = "\<lambda>n. Objects fi ! n"])

lemma set_object_Inr:
  assumes "set_object fi i f = Inr fi'"
  shows "valid_index fi i" "valid_index fi' j \<longleftrightarrow> valid_index fi j"
    "valid_index fi j \<Longrightarrow> object_at fi' j = (if j = i then f (object_at fi i) else object_at fi j)"
    "NumFixedObjects fi' = NumFixedObjects fi" "MaxAlignment fi' = MaxAlignment fi"
    "StackAlignment fi' = StackAlignment fi" "StackRealignable fi' = StackRealignable fi"
    "length (Objects fi') = length (Objects fi)"
    "fi' = fi\<lparr>Objects := (Objects fi)[slot_of fi i := f (object_at fi i)]\<rparr>"
  using assms valid_index_slot [of fi i] slot_of_inj [of fi i j]
  by (auto simp: set_object_def valid_index_def object_at_def slot_of_def nth_list_update
      split: if_splits)

section \<open>Sequences of operations\<close>

text \<open>The operations that change the list of objects, as commands.\<close>

datatype frame_op =
    OpStack int int bool "nat option"
  | OpSpill int int
  | OpVar int "nat option"
  | OpFixed int int bool bool
  | OpFixedSpill int int bool
  | OpRemove int
  | OpSetSize int int
  | OpSetAlignment int int
  | OpSetOffset int int
  | OpMapLocal int int

fun apply_op :: "frame_op \<Rightarrow> frame_info \<Rightarrow> frame_info result" where
  "apply_op (OpStack sz al ss a) fi = map_sum id snd (CreateStackObject fi sz al ss a)"
| "apply_op (OpSpill sz al) fi = map_sum id snd (CreateSpillStackObject fi sz al)"
| "apply_op (OpVar al a) fi = map_sum id snd (CreateVariableSizedObject fi al a)"
| "apply_op (OpFixed sz off im ali) fi = map_sum id snd (CreateFixedObject fi sz off im ali)"
| "apply_op (OpFixedSpill sz off im) fi = map_sum id snd (CreateFixedSpillStackObject fi sz off im)"
| "apply_op (OpRemove i) fi = RemoveStackObject fi i"
| "apply_op (OpSetSize i sz) fi = setObjectSize fi i sz"
| "apply_op (OpSetAlignment i al) fi = setObjectAlignment fi i al"
| "apply_op (OpSetOffset i off) fi = setObjectOffset fi i off"
| "apply_op (OpMapLocal i off) fi = mapLocalFrameObject fi i off"

text \<open>The index that an operation changes in place, if it does not create an object.\<close>

fun touched :: "frame_op \<Rightarrow> int option" where
  "touched (OpRemove i) = Some i"
| "touched (OpSetSize i _) = Some i"
| "touched (OpSetAlignment i _) = Some i"
| "touched (OpSetOffset i _) = Some i"
| "touched (OpMapLocal i _) = Some i"
| "touched _ = None"

inductive frame_run :: "frame_info \<Rightarrow> frame_op list \<Rightarrow> frame_info \<Rightarrow> bool" where
  frame_run_Nil: "frame_run fi [] fi"
| frame_run_Cons: "apply_op op fi = Inr fi' \<Longrightarrow> frame_run fi' ops fi'' \<Longrightarrow> frame_run fi (op # ops) fi''"

inductive_cases frame_run_ConsE: "frame_run fi (op # ops) fi''"
inductive_cases frame_run_NilE: "frame_run fi [] fi''"

fun run_ops :: "frame_op list \<Rightarrow> frame_info \<Rightarrow> frame_info result" where
  "run_ops [] fi = Inr fi"
| "run_ops (op # ops) fi = bind_result (apply_op op fi) (run_ops ops)"

lemma frame_run_iff: "frame_run fi ops fi' \<longleftrightarrow> run_ops ops fi = Inr fi'"
proof (induction ops arbitrary: fi)
  case Nil
  then show ?case by (auto intro: frame_run_Nil elim: frame_run_NilE)
next
  case (Cons op ops)
  then show ?case by (auto simp: bind_result_Inr_iff intro: frame_run_Cons elim!: frame_run_ConsE)
qed

definition frame_ok :: "frame_info \<Rightarrow> bool" where
  "frame_ok fi = (NumFixedObjects fi \<le> length (Objects fi)
     \<and> (\<forall>i. valid_index fi i \<and> 0 \<le> i \<longrightarrow> Alignment (object_at fi i) \<le> MaxAlignment fi)
     \<and> (StackRealignable fi \<or> MaxAlignment fi \<le> StackAlignment fi))"

lemma ensureMaxAlignment_Inr:
  assumes "ensureMaxAlignment fi al = Inr fi'"
  shows "Objects fi' = Objects fi" "NumFixedObjects fi' = NumFixedObjects fi"
    "MaxAlignment fi' = max (MaxAlignment fi) al" "StackAlignment fi' = StackAlignment fi"
    "StackRealignable fi' = StackRealignable fi"
    "StackRealignable fi \<or> al \<le> StackAlignment fi"
  using assms by (auto simp: ensureMaxAlignment_def split: if_splits)

text \<open>What a creation at the end of the vector and one at its front do.\<close>

definition appended :: "frame_info \<Rightarrow> stack_object \<Rightarrow> frame_info \<Rightarrow> bool" where
  "appended fi ob fi' = (Objects fi' = Objects fi @ [ob] \<and> NumFixedObjects fi' = NumFixedObjects fi
     \<and> StackAlignment fi' = StackAlignment fi \<and> StackRealignable fi' = StackRealignable fi
     \<and> MaxAlignment fi' = max (MaxAlignment fi) (Alignment ob)
     \<and> (StackRealignable fi \<or> Alignment ob \<le> StackAlignment fi))"

definition prepended :: "frame_info \<Rightarrow> stack_object \<Rightarrow> frame_info \<Rightarrow> bool" where
  "prepended fi ob fi' = (Objects fi' = ob # Objects fi
     \<and> NumFixedObjects fi' = Suc (NumFixedObjects fi)
     \<and> StackAlignment fi' = StackAlignment fi \<and> StackRealignable fi' = StackRealignable fi
     \<and> MaxAlignment fi' = MaxAlignment fi)"

lemma StackObject_Alignment [simp]: "Alignment (StackObject sz al sp im ss v a) = al"
  by (simp add: StackObject_def)

lemma CreateStackObject_Inr:
  assumes "CreateStackObject fi sz al ss a = Inr (i, fi')"
  shows "i = getObjectIndexEnd fi \<and> 0 \<le> i \<and> appended fi
    (StackObject sz (clampStackAlignment (\<not> StackRealignable fi) al (StackAlignment fi)) 0 False ss a (\<not> ss)) fi'"
  using assms
  by (auto simp: CreateStackObject_def Let_def bind_result_Inr_iff appended_def getObjectIndexEnd_def
      dest: ensureMaxAlignment_Inr split: if_splits)

lemma clamp_clamp [simp]: "clampStackAlignment b (clampStackAlignment b al sa) sa = clampStackAlignment b al sa"
  by (simp add: clampStackAlignment_def)

lemma CreateSpillStackObject_Inr:
  assumes "CreateSpillStackObject fi sz al = Inr (i, fi')"
  shows "i = getObjectIndexEnd fi \<and> appended fi
    (StackObject sz (clampStackAlignment (\<not> StackRealignable fi) al (StackAlignment fi)) 0 False True None False) fi'"
proof -
  obtain j fi1 where c: "CreateStackObject fi sz
        (clampStackAlignment (\<not> StackRealignable fi) al (StackAlignment fi)) True None = Inr (j, fi1)"
      and i: "i = int (length (Objects fi1)) - int (NumFixedObjects fi1) - 1"
      and e: "ensureMaxAlignment fi1
        (clampStackAlignment (\<not> StackRealignable fi) al (StackAlignment fi)) = Inr fi'"
    using assms by (auto simp: CreateSpillStackObject_def Let_def bind_result_Inr_iff)
  show ?thesis
    using CreateStackObject_Inr [OF c] ensureMaxAlignment_Inr [OF e] i
    by (simp add: appended_def getObjectIndexEnd_def)
qed

lemma CreateVariableSizedObject_Inr:
  assumes "CreateVariableSizedObject fi al a = Inr (i, fi')"
  shows "i = getObjectIndexEnd fi \<and> appended fi
    (StackObject 0 (clampStackAlignment (\<not> StackRealignable fi) al (StackAlignment fi)) 0 False False a True) fi'"
proof -
  let ?al = "clampStackAlignment (\<not> StackRealignable fi) al (StackAlignment fi)"
  have e: "ensureMaxAlignment (fi\<lparr>HasVarSizedObjects := True,
        Objects := Objects fi @ [StackObject 0 ?al 0 False False a True]\<rparr>) ?al = Inr fi'"
      and "i = int (length (Objects fi')) - int (NumFixedObjects fi') - 1"
    using assms by (auto simp: CreateVariableSizedObject_def Let_def bind_result_Inr_iff)
  then show ?thesis
    using ensureMaxAlignment_Inr [OF e] by (simp add: appended_def getObjectIndexEnd_def)
qed

lemma CreateFixedObject_Inr:
  assumes "CreateFixedObject fi sz off im ali = Inr (i, fi')"
  shows "i = getObjectIndexBegin fi - 1
    \<and> prepended fi (StackObject sz (fixed_alignment fi off) off im False None ali) fi'"
  using assms by (auto simp: CreateFixedObject_def Let_def prepended_def getObjectIndexBegin_def split: if_splits)

lemma CreateFixedSpillStackObject_Inr:
  assumes "CreateFixedSpillStackObject fi sz off im = Inr (i, fi')"
  shows "i = getObjectIndexBegin fi - 1
    \<and> prepended fi (StackObject sz (fixed_alignment fi off) off im True None False) fi'"
  using assms by (auto simp: CreateFixedSpillStackObject_def Let_def prepended_def getObjectIndexBegin_def)

lemmas create_Inr = CreateStackObject_Inr CreateSpillStackObject_Inr CreateVariableSizedObject_Inr
  CreateFixedObject_Inr CreateFixedSpillStackObject_Inr

text \<open>Every operation appends, prepends or changes one object in place.\<close>

lemma setObjectAlignment_Inr:
  assumes "setObjectAlignment fi i al = Inr fi'"
  shows "\<exists>fi1. set_object fi i (\<lambda>ob. ob\<lparr>Alignment := al\<rparr>) = Inr fi1 \<and> ensureMaxAlignment fi1 al = Inr fi'"
  using assms by (simp add: setObjectAlignment_def bind_result_Inr_iff)

lemma setObjectOffset_Inr:
  assumes "setObjectOffset fi i off = Inr fi'"
  shows "set_object fi i (\<lambda>ob. ob\<lparr>SPOffset := off\<rparr>) = Inr fi'" "valid_index fi i"
    "Size (object_at fi i) \<noteq> dead_size"
  using assms
  by (auto simp: setObjectOffset_def bind_result_Inr_iff get_object_def split: if_splits)

lemma set_object_ok:
  assumes "set_object fi i f = Inr fi'" "frame_ok fi" "\<And>ob. Alignment (f ob) = Alignment ob"
  shows "frame_ok fi'"
proof -
  note so = set_object_Inr [OF assms(1)]
  have "Alignment (object_at fi' j) \<le> MaxAlignment fi'" if "valid_index fi' j" "0 \<le> j" for j
    using that so(2,3,5) assms(2,3) by (auto simp: frame_ok_def)
  then show ?thesis using so assms(2) by (auto simp: frame_ok_def)
qed

lemma appended_ok:
  assumes "appended fi ob fi'" "frame_ok fi"
  shows "frame_ok fi'"
proof -
  have ap: "Objects fi' = Objects fi @ [ob]" "NumFixedObjects fi' = NumFixedObjects fi"
    using assms(1) by (simp_all add: appended_def)
  have "Alignment (object_at fi' j) \<le> MaxAlignment fi'" if "valid_index fi' j" "0 \<le> j" for j
    using that append_index [OF ap] assms by (auto simp: frame_ok_def appended_def le_max_iff_disj)
  then show ?thesis using assms by (auto simp: frame_ok_def appended_def)
qed

lemma prepended_ok:
  assumes "prepended fi ob fi'" "frame_ok fi"
  shows "frame_ok fi'"
proof -
  have ap: "Objects fi' = ob # Objects fi" "NumFixedObjects fi' = Suc (NumFixedObjects fi)"
    using assms(1) by (simp_all add: prepended_def)
  have "Alignment (object_at fi' j) \<le> MaxAlignment fi'" if "valid_index fi' j" "0 \<le> j" for j
    using that front_index [OF ap] assms
    by (auto simp: frame_ok_def prepended_def getObjectIndexBegin_def)
  then show ?thesis using assms by (auto simp: frame_ok_def prepended_def)
qed

lemma setObjectAlignment_ok:
  assumes "setObjectAlignment fi i al = Inr fi'" "frame_ok fi"
  shows "frame_ok fi'"
proof -
  obtain fi1 where s: "set_object fi i (\<lambda>ob. ob\<lparr>Alignment := al\<rparr>) = Inr fi1"
      and e: "ensureMaxAlignment fi1 al = Inr fi'"
    using setObjectAlignment_Inr [OF assms(1)] by blast
  note so = set_object_Inr [OF s] and em = ensureMaxAlignment_Inr [OF e]
  have same: "valid_index fi' j = valid_index fi1 j" "object_at fi' j = object_at fi1 j" for j
    using em by (simp_all add: valid_index_def object_at_def slot_of_def)
  have "Alignment (object_at fi' j) \<le> MaxAlignment fi'" if "valid_index fi' j" "0 \<le> j" for j
    using that so(2,3,5) em(3) assms(2) by (auto simp: frame_ok_def same le_max_iff_disj)
  then show ?thesis using so em assms(2) by (auto simp: frame_ok_def)
qed

lemma apply_op_ok:
  assumes "apply_op op fi = Inr fi'" "frame_ok fi"
  shows "frame_ok fi'"
proof (cases op)
  case (OpMapLocal i off)
  have "frame_ok (fi\<lparr>LocalFrameObjects := xs\<rparr>)" for xs
    using assms(2) by (auto simp: frame_ok_def valid_index_def object_at_def slot_of_def)
  then show ?thesis
    using assms(1) OpMapLocal by (auto simp: mapLocalFrameObject_def elim!: set_object_ok)
qed (use assms in \<open>auto simp: map_sum_Inr_iff RemoveStackObject_def setObjectSize_def
      dest!: create_Inr setObjectOffset_Inr(1)
      intro: appended_ok prepended_ok set_object_ok setObjectAlignment_ok\<close>)

lemma apply_op_stable:
  assumes "apply_op op fi = Inr fi'" "valid_index fi i" "touched op \<noteq> Some i"
  shows "valid_index fi' i \<and> object_at fi' i = object_at fi i"
proof -
  have ap: "valid_index fi' i \<and> object_at fi' i = object_at fi i" if "appended fi ob fi'" for ob
    using append_index(1,2) [where fi = fi and fi' = fi' and ob = ob and i = i] that assms(2) by (simp add: appended_def)
  have pr: "valid_index fi' i \<and> object_at fi' i = object_at fi i" if "prepended fi ob fi'" for ob
    using front_index(1,2) [where fi = fi and fi' = fi' and ob = ob and i = i] that assms(2) by (simp add: prepended_def)
  have so: "valid_index fi' i \<and> object_at fi' i = object_at fi i"
    if "set_object fi j f = Inr fi'" "j \<noteq> i" for j f
    using set_object_Inr(2,3) [OF that(1)] that(2) assms(2) by simp
  show ?thesis
  proof (cases op)
    case (OpSetAlignment j al)
    then obtain fi1 where s: "set_object fi j (\<lambda>ob. ob\<lparr>Alignment := al\<rparr>) = Inr fi1"
        and e: "ensureMaxAlignment fi1 al = Inr fi'"
      using setObjectAlignment_Inr assms(1) by fastforce
    then show ?thesis
      using set_object_Inr(2,3) [OF s] ensureMaxAlignment_Inr [OF e] OpSetAlignment assms(2,3)
      by (simp add: valid_index_def object_at_def slot_of_def)
  next
    case (OpMapLocal j off)
    then show ?thesis
      using assms set_object_Inr(2,3)
        [where fi = "fi\<lparr>LocalFrameObjects := LocalFrameObjects fi @ [(j, off)]\<rparr>" and i = j
          and fi' = fi' and j = i]
      by (simp add: mapLocalFrameObject_def valid_index_def object_at_def slot_of_def)
  qed (use assms so in \<open>auto simp: map_sum_Inr_iff RemoveStackObject_def setObjectSize_def
      dest!: create_Inr setObjectOffset_Inr(1) dest: ap pr\<close>)
qed

section \<open>Properties\<close>

text \<open>
  A frame index is stable: through any sequence of operations, the index of an object that none of
  them changes in place still names that object, although fixed objects are inserted at the front of
  the vector.
\<close>

theorem frame_index_stable:
  assumes "frame_run fi ops fi'" "valid_index fi i" "\<forall>op \<in> set ops. touched op \<noteq> Some i"
  shows "valid_index fi' i \<and> object_at fi' i = object_at fi i"
  using assms
proof (induction rule: frame_run.induct)
  case (frame_run_Cons op fi fi' ops fi'')
  then show ?case using apply_op_stable [OF frame_run_Cons.hyps(1)] by simp
qed simp

text \<open>
  Every operation keeps the frame well formed: there are no more fixed objects than objects, the
  maximum alignment bounds the alignment of every object that is not fixed, and without stack
  realignment it never exceeds the alignment of the stack.
\<close>

theorem frame_ok_run:
  assumes "frame_run fi ops fi'" "frame_ok fi"
  shows "frame_ok fi'"
  using assms by (induction rule: frame_run.induct) (auto dest: apply_op_ok)

text \<open>
  The creating operations return fresh indices: not valid before, valid after, naming the object
  created; indices of fixed objects are negative and those of the others are not.
\<close>

theorem create_fresh_index:
  "(\<forall>i fi'. CreateStackObject fi sz al ss a = Inr (i, fi') \<longrightarrow>
      \<not> valid_index fi i \<and> valid_index fi' i \<and> 0 \<le> i \<and> Size (object_at fi' i) = sz)
   \<and> (\<forall>i fi'. CreateFixedObject fi sz off im ali = Inr (i, fi') \<longrightarrow>
      \<not> valid_index fi i \<and> valid_index fi' i \<and> i < 0 \<and> isFixedObjectIndex fi' i
      \<and> Size (object_at fi' i) = sz \<and> SPOffset (object_at fi' i) = off)"
proof (intro conjI allI impI)
  fix i fi' assume c: "CreateStackObject fi sz al ss a = Inr (i, fi')"
  note cs = CreateStackObject_Inr [OF c]
  have ap: "Objects fi' = Objects fi @ [StackObject sz
      (clampStackAlignment (\<not> StackRealignable fi) al (StackAlignment fi)) 0 False ss a (\<not> ss)]"
    "NumFixedObjects fi' = NumFixedObjects fi"
    using cs by (simp_all add: appended_def)
  show "\<not> valid_index fi i" "valid_index fi' i" "0 \<le> i" "Size (object_at fi' i) = sz"
    using append_index [OF ap] cs by (simp_all add: StackObject_def)
next
  fix i fi' assume c: "CreateFixedObject fi sz off im ali = Inr (i, fi')"
  note cf = CreateFixedObject_Inr [OF c]
  have pr: "Objects fi' = StackObject sz (fixed_alignment fi off) off im False None ali # Objects fi"
    "NumFixedObjects fi' = Suc (NumFixedObjects fi)"
    using cf by (simp_all add: prepended_def)
  show "\<not> valid_index fi i" "valid_index fi' i" "i < 0" "isFixedObjectIndex fi' i"
    "Size (object_at fi' i) = sz" "SPOffset (object_at fi' i) = off"
    using front_index [OF pr] cf pr
    by (simp_all add: StackObject_def getObjectIndexBegin_def isFixedObjectIndex_def)
qed

text \<open>The frame of a 2003f function before any object is created: stack alignment 4; the target
  leaves the stack realignable, the default.\<close>

definition empty_2003f_frame :: frame_info where
  "empty_2003f_frame = new_frame_info 4 True False"

definition sample_frame :: frame_info where
  "sample_frame = (case CreateStackObject empty_2003f_frame 8 4 False None of
     Inr (i, fi) \<Rightarrow> fi | Inl e \<Rightarrow> empty_2003f_frame)"

lemmas frame_eval = empty_2003f_frame_def new_frame_info_def sample_frame_def CreateStackObject_def
  CreateFixedObject_def fixed_alignment_def clampStackAlignment_def ensureMaxAlignment_def Let_def
  RemoveStackObject_def set_object_def valid_index_def slot_of_def object_at_def StackObject_def

lemma sample_run:
  "\<exists>fi'. frame_run sample_frame [OpStack 4 4 True None, OpFixed 4 12 True False, OpRemove 1] fi'"
  unfolding frame_run_iff by (simp add: frame_eval)

theorem frame_index_stable_witness:
  "\<exists>fi'. frame_run sample_frame [OpStack 4 4 True None, OpFixed 4 12 True False, OpRemove 1] fi'
    \<and> valid_index fi' 0 \<and> object_at fi' 0 = object_at sample_frame 0"
proof -
  obtain fi' where r: "frame_run sample_frame
      [OpStack 4 4 True None, OpFixed 4 12 True False, OpRemove 1] fi'"
    using sample_run by blast
  have "valid_index sample_frame 0" by (simp add: frame_eval)
  from frame_index_stable [OF r this] r show ?thesis by auto
qed

theorem frame_ok_run_witness:
  "\<exists>fi'. frame_run sample_frame [OpStack 4 4 True None, OpFixed 4 12 True False, OpRemove 1] fi'
    \<and> frame_ok fi'"
proof -
  have "frame_ok sample_frame" by (simp add: frame_eval frame_ok_def)
  with sample_run frame_ok_run show ?thesis by blast
qed

theorem create_fresh_index_witness:
  "\<exists>i fi'. CreateStackObject sample_frame 8 4 False None = Inr (i, fi') \<and> valid_index fi' i
     \<and> \<not> valid_index sample_frame i"
proof -
  obtain i fi' where "CreateStackObject sample_frame 8 4 False None = Inr (i, fi')"
    by (simp add: frame_eval)
  with create_fresh_index [of sample_frame 8 4 False None] show ?thesis by blast
qed

end
