(* ===== verification/FrameLayout.thy ===== *)
theory FrameLayout
  imports FrameInfo
begin

text \<open>
  The layout of the stack frame: \<open>PEI::calculateFrameObjectOffsets\<close> of
  \<open>lib/CodeGen/PrologEpilogInserter.cpp\<close> with its helpers. It assigns an offset from the incoming stack
  pointer to every stack object and sets the size of the stack.

  \<open>frame_target\<close> holds what the function asks the target, the options and the other analyses. Those
  answers are constants of one run of the pass. \<open>layout\<close> is the state that the phases thread: the frame
  information, \<open>Offset\<close> (the distance from the incoming stack pointer in the direction of growth, an
  \<open>int64_t\<close>) and \<open>MaxAlign\<close>. Each phase of the function is a definition.

  The main result is \<open>frame_layout_sound\<close>: no two objects share a byte, each is aligned, and all of
  them lie in the area that the prologue allocates.
\<close>

section \<open>State and parameters\<close>

datatype ssp_layout = SSPLK_None | SSPLK_LargeArray | SSPLK_SmallArray | SSPLK_AddrOf

record frame_target =
  StackGrowsDown :: bool
  OffsetOfLocalArea :: int
  StackAlignmentSkew :: int
  TargetStackAlignment :: int
  TransientStackAlignment :: int
  hasFP :: bool
  hasReservedCallFrame :: bool
  isFPCloseToIncomingSP :: bool
  useFPForScavengingIndex :: bool
  needsStackRealignment :: bool
  targetHandlesStackFrameRounding :: bool
  enableStackSlotScavenging :: bool
  OptLevelNone :: bool
  StackSymbolOrdering :: bool
  orderFrameObjects :: "int list \<Rightarrow> int list"
  ScavengingFrameIndices :: "int list option"
  getSSPLayout :: "nat option \<Rightarrow> ssp_layout"
  EHRegNodeFrameIndex :: int
  MinCSFrameIndex :: int
  MaxCSFrameIndex :: int

definition INT_MAX :: int where "INT_MAX = 2 ^ 31 - 1"

record layout =
  MFI :: frame_info
  Offset :: int
  MaxAlign :: int

section \<open>Placing one object\<close>

definition AdjustStackOffset :: "frame_target \<Rightarrow> int \<Rightarrow> layout \<Rightarrow> layout result" where
  "AdjustStackOffset tgt FrameIdx st =
     bind_result
       (if StackGrowsDown tgt
        then bind_result (getObjectSize (MFI st) FrameIdx) (\<lambda>sz. Inr (i64 (Offset st + sz)))
        else Inr (Offset st)) (\<lambda>off.
     bind_result (getObjectAlignment (MFI st) FrameIdx) (\<lambda>Align.
     bind_result (alignTo (u64 off) Align (StackAlignmentSkew tgt)) (\<lambda>a.
       let off = i64 a; ma = max (MaxAlign st) Align in
       if StackGrowsDown tgt
       then bind_result (setObjectOffset (MFI st) FrameIdx (i64 (- off))) (\<lambda>fi.
              Inr \<lparr>MFI = fi, Offset = off, MaxAlign = ma\<rparr>)
       else bind_result (setObjectOffset (MFI st) FrameIdx off) (\<lambda>fi.
              bind_result (getObjectSize fi FrameIdx) (\<lambda>sz.
                Inr \<lparr>MFI = fi, Offset = i64 (off + sz), MaxAlign = ma\<rparr>)))))"

section \<open>Holes in the fixed and callee-save area\<close>

text \<open>
  \<open>StackBytesFree\<close> is the bit vector of the bytes, counted from the stack top, that no object uses.
  \<open>reset_bits\<close> is \<open>BitVector::reset(I, E)\<close>; its arguments are \<open>unsigned\<close>, so a negative bound
  becomes a large one and fails its assertions.
\<close>

definition reset_bits :: "bool list \<Rightarrow> int \<Rightarrow> int \<Rightarrow> bool list result" where
  "reset_bits bv s e =
     (let I = u32 s; E = u32 e in
      if \<not> I \<le> E \<or> \<not> E \<le> int (length bv) then Inl AssertFailed
      else Inr (map (\<lambda>(k, b). b \<and> \<not> (I \<le> int k \<and> int k < E)) (enumerate 0 bv)))"

definition mark_allocated :: "frame_target \<Rightarrow> frame_info \<Rightarrow> int \<Rightarrow> bool list \<Rightarrow> bool list result" where
  "mark_allocated tgt fi i bv =
     bind_result (getObjectOffset fi i) (\<lambda>off.
     bind_result (getObjectSize fi i) (\<lambda>sz.
       let ObjOffset = i32 off; ObjSize = i32 sz;
           ObjStart = (if StackGrowsDown tgt then i32 (- ObjOffset - ObjSize) else ObjOffset);
           ObjEnd = (if StackGrowsDown tgt then i32 (- ObjOffset) else i32 (ObjOffset + ObjSize))
       in if 0 < ObjEnd then reset_bits bv ObjStart ObjEnd else Inr bv))"

text \<open>The loop over the callee-save objects counts with \<open>int\<close>s, whatever the \<open>unsigned\<close> bounds are.\<close>

definition computeFreeStackSlots :: "frame_target \<Rightarrow> frame_info \<Rightarrow> int \<Rightarrow> bool list result" where
  "computeFreeStackSlots tgt fi FixedCSEnd =
     (if FixedCSEnd > INT_MAX then Inr []
      else fold_result (mark_allocated tgt fi)
        ([getObjectIndexBegin fi .. -1] @ [i32 (MinCSFrameIndex tgt) .. i32 (MaxCSFrameIndex tgt)])
        (replicate (nat (u32 FixedCSEnd)) True))"

text \<open>
  The search for a free slot: \<open>find_slot bv start\<close> is the loop from the first set bit at or after
  \<open>start\<close>. \<open>Inr (Some p)\<close> is a slot found, \<open>Inr None\<close> a return of \<open>false\<close>.
\<close>

definition all_free :: "bool list \<Rightarrow> nat \<Rightarrow> nat \<Rightarrow> bool" where
  "all_free bv s n = (\<forall>k < n. bv ! (s + k))"

definition slot_aligned :: "frame_target \<Rightarrow> int \<Rightarrow> int \<Rightarrow> nat \<Rightarrow> bool result" where
  "slot_aligned tgt ObjSize ObjAlign FreeStart =
     (let ObjStart = u32 (if StackGrowsDown tgt then int FreeStart + ObjSize else int FreeStart) in
      bind_result (alignTo ObjStart ObjAlign 0) (\<lambda>a. Inr (a = ObjStart)))"

function find_slot :: "frame_target \<Rightarrow> int \<Rightarrow> int \<Rightarrow> bool list \<Rightarrow> nat \<Rightarrow> nat option result" where
  "find_slot tgt ObjSize ObjAlign bv k =
     (if length bv \<le> k then Inr None
      else if \<not> bv ! k then find_slot tgt ObjSize ObjAlign bv (Suc k)
      else bind_result (slot_aligned tgt ObjSize ObjAlign k) (\<lambda>ok.
        if \<not> ok then find_slot tgt ObjSize ObjAlign bv (Suc k)
        else if int k + ObjSize > int (length bv) then Inr None
        else if all_free bv k (nat ObjSize) then Inr (Some k)
        else find_slot tgt ObjSize ObjAlign bv (Suc k)))"
  by pat_completeness auto
termination
  by (relation "measure (\<lambda>(t, sz, al, bv, k). length bv - k)") auto

definition scavengeStackSlot :: "frame_target \<Rightarrow> int \<Rightarrow> layout \<Rightarrow> bool list
    \<Rightarrow> (bool \<times> layout \<times> bool list) result" where
  "scavengeStackSlot tgt FrameIdx st bv =
     bind_result (isVariableSizedObjectIndex (MFI st) FrameIdx) (\<lambda>var.
     if var then Inr (False, st, bv)
     else if \<not> (\<exists>b \<in> set bv. b) then Inr (False, st, [])
     else bind_result (getObjectAlignment (MFI st) FrameIdx) (\<lambda>ObjAlign.
       if ObjAlign > MaxAlign st then Inr (False, st, bv)
       else bind_result (getObjectSize (MFI st) FrameIdx) (\<lambda>ObjSize.
         bind_result (find_slot tgt ObjSize ObjAlign bv 0) (\<lambda>slot. case slot of
             None \<Rightarrow> Inr (False, st, bv)
           | Some FreeStart \<Rightarrow>
               let off = (if StackGrowsDown tgt then i32 (- (int FreeStart + ObjSize)) else int FreeStart) in
               bind_result (setObjectOffset (MFI st) FrameIdx off) (\<lambda>fi.
               bind_result (reset_bits bv (int FreeStart) (int FreeStart + ObjSize)) (\<lambda>bv.
                 Inr (True, st\<lparr>MFI := fi\<rparr>, bv)))))))"

section \<open>The phases of \<open>calculateFrameObjectOffsets\<close>\<close>

definition local_area_offset :: "frame_target \<Rightarrow> int" where
  "local_area_offset tgt =
     (if StackGrowsDown tgt then - OffsetOfLocalArea tgt else OffsetOfLocalArea tgt)"

definition skip_fixed :: "frame_target \<Rightarrow> int \<Rightarrow> layout \<Rightarrow> layout result" where
  "skip_fixed tgt i st =
     bind_result (getObjectOffset (MFI st) i) (\<lambda>o1.
     bind_result (if StackGrowsDown tgt then Inr (i64 (- o1))
                  else bind_result (getObjectSize (MFI st) i) (\<lambda>sz. Inr (i64 (o1 + sz)))) (\<lambda>FixedOff.
       Inr (if FixedOff > Offset st then st\<lparr>Offset := FixedOff\<rparr> else st)))"

definition place_CS_down :: "frame_target \<Rightarrow> int \<Rightarrow> layout \<Rightarrow> layout result" where
  "place_CS_down tgt i st =
     bind_result (getObjectSize (MFI st) i) (\<lambda>sz.
     bind_result (getObjectAlignment (MFI st) i) (\<lambda>Align.
     bind_result (alignTo (u64 (i64 (Offset st + sz))) Align (StackAlignmentSkew tgt)) (\<lambda>a.
       let off = i64 a in
       bind_result (setObjectOffset (MFI st) i (i64 (- off))) (\<lambda>fi.
         Inr (st\<lparr>MFI := fi, Offset := off\<rparr>)))))"

definition place_CS_up :: "frame_target \<Rightarrow> int \<Rightarrow> layout \<Rightarrow> layout result" where
  "place_CS_up tgt i st =
     bind_result (isDeadObjectIndex (MFI st) i) (\<lambda>dead.
     if dead then Inr st
     else bind_result (getObjectAlignment (MFI st) i) (\<lambda>Align.
       bind_result (alignTo (u64 (Offset st)) Align (StackAlignmentSkew tgt)) (\<lambda>a.
         let off = i64 a in
         bind_result (setObjectOffset (MFI st) i off) (\<lambda>fi.
         bind_result (getObjectSize fi i) (\<lambda>sz.
           Inr (st\<lparr>MFI := fi, Offset := i64 (off + sz)\<rparr>))))))"

definition place_CS :: "frame_target \<Rightarrow> layout \<Rightarrow> layout result" where
  "place_CS tgt st =
     (if StackGrowsDown tgt
      then fold_result (place_CS_down tgt) [MinCSFrameIndex tgt .. MaxCSFrameIndex tgt] st
      else if MinCSFrameIndex tgt \<le> MaxCSFrameIndex tgt
      then fold_result (place_CS_up tgt) (rev [MinCSFrameIndex tgt .. MaxCSFrameIndex tgt]) st
      else Inr st)"

definition EarlyScavengingSlots :: "frame_target \<Rightarrow> bool" where
  "EarlyScavengingSlots tgt = (hasFP tgt \<and> isFPCloseToIncomingSP tgt
     \<and> useFPForScavengingIndex tgt \<and> \<not> needsStackRealignment tgt)"

definition scavenging_indices :: "frame_target \<Rightarrow> int list" where
  "scavenging_indices tgt = (case ScavengingFrameIndices tgt of None \<Rightarrow> [] | Some sfis \<Rightarrow> sfis)"

definition place_scavenging :: "frame_target \<Rightarrow> bool \<Rightarrow> layout \<Rightarrow> layout result" where
  "place_scavenging tgt early st =
     (if ScavengingFrameIndices tgt \<noteq> None \<and> EarlyScavengingSlots tgt = early
      then fold_result (AdjustStackOffset tgt) (scavenging_indices tgt) st
      else Inr st)"

definition place_local_entry :: "frame_target \<Rightarrow> int \<times> int \<Rightarrow> layout \<Rightarrow> layout result" where
  "place_local_entry tgt entry st =
     (let FIOffset = i64 ((if StackGrowsDown tgt then - Offset st else Offset st) + snd entry) in
      bind_result (setObjectOffset (MFI st) (fst entry) FIOffset) (\<lambda>fi. Inr (st\<lparr>MFI := fi\<rparr>)))"

definition place_local_block :: "frame_target \<Rightarrow> layout \<Rightarrow> layout result" where
  "place_local_block tgt st =
     (if UseLocalStackAllocationBlock (MFI st)
      then let Align = LocalFrameMaxAlign (MFI st) in
        bind_result (alignTo (u64 (Offset st)) Align (StackAlignmentSkew tgt)) (\<lambda>a.
        bind_result (fold_result (place_local_entry tgt) (LocalFrameObjects (MFI st))
            (st\<lparr>Offset := i64 a\<rparr>)) (\<lambda>st.
          Inr (st\<lparr>Offset := i64 (Offset st + LocalFrameSize (MFI st)),
                  MaxAlign := max Align (MaxAlign st)\<rparr>)))
      else Inr st)"

text \<open>The objects that neither the protector nor the main allocation handles.\<close>

definition skip_object :: "frame_target \<Rightarrow> frame_info \<Rightarrow> int \<Rightarrow> bool result" where
  "skip_object tgt fi i =
     bind_result (isObjectPreAllocated fi i) (\<lambda>pre.
     if pre \<and> UseLocalStackAllocationBlock fi then Inr True
     else if MinCSFrameIndex tgt \<le> i \<and> i \<le> MaxCSFrameIndex tgt then Inr True
     else if i \<in> set (scavenging_indices tgt) then Inr True
     else bind_result (isDeadObjectIndex fi i) (\<lambda>dead.
       Inr (dead \<or> StackProtectorIdx fi = i \<or> EHRegNodeFrameIndex tgt = i)))"

fun objects_where :: "(int \<Rightarrow> bool result) \<Rightarrow> int list \<Rightarrow> int list result" where
  "objects_where P [] = Inr []"
| "objects_where P (i # is) = bind_result (P i) (\<lambda>b.
     bind_result (objects_where P is) (\<lambda>js. Inr (if b then i # js else js)))"

definition protected_kind :: "frame_target \<Rightarrow> frame_info \<Rightarrow> ssp_layout \<Rightarrow> int \<Rightarrow> bool result" where
  "protected_kind tgt fi kind i =
     bind_result (skip_object tgt fi i) (\<lambda>skip.
     if skip then Inr False
     else bind_result (getObjectAllocation fi i) (\<lambda>a. Inr (getSSPLayout tgt a = kind)))"

definition AssignProtectedObjSet :: "frame_target \<Rightarrow> int list \<Rightarrow> int list \<times> layout \<Rightarrow> (int list \<times> layout) result" where
  "AssignProtectedObjSet tgt UnassignedObjs st =
     bind_result (fold_result (AdjustStackOffset tgt) UnassignedObjs (snd st)) (\<lambda>l.
       Inr (fst st @ UnassignedObjs, l))"

definition place_protected :: "frame_target \<Rightarrow> layout \<Rightarrow> (int list \<times> layout) result" where
  "place_protected tgt st =
     (if 0 \<le> StackProtectorIdx (MFI st)
      then bind_result (AdjustStackOffset tgt (StackProtectorIdx (MFI st)) st) (\<lambda>st.
        let candidates = [0 .. getObjectIndexEnd (MFI st) - 1];
            objs = (\<lambda>kind. objects_where (protected_kind tgt (MFI st) kind) candidates) in
        bind_result (objs SSPLK_LargeArray) (\<lambda>LargeArrayObjs.
        bind_result (objs SSPLK_SmallArray) (\<lambda>SmallArrayObjs.
        bind_result (objs SSPLK_AddrOf) (\<lambda>AddrOfObjs.
        bind_result (AssignProtectedObjSet tgt LargeArrayObjs ([], st)) (\<lambda>st.
        bind_result (AssignProtectedObjSet tgt SmallArrayObjs st) (\<lambda>st.
          AssignProtectedObjSet tgt AddrOfObjs st))))))
      else Inr ([], st))"

definition ObjectsToAllocate :: "frame_target \<Rightarrow> int list \<Rightarrow> frame_info \<Rightarrow> int list result" where
  "ObjectsToAllocate tgt ProtectedObjs fi =
     objects_where (\<lambda>i. bind_result (skip_object tgt fi i) (\<lambda>skip. Inr (\<not> skip \<and> i \<notin> set ProtectedObjs)))
       [0 .. getObjectIndexEnd fi - 1]"

definition place_EHRegNode :: "frame_target \<Rightarrow> layout \<Rightarrow> layout result" where
  "place_EHRegNode tgt st =
     (if EHRegNodeFrameIndex tgt \<noteq> INT_MAX
      then AdjustStackOffset tgt (EHRegNodeFrameIndex tgt) st else Inr st)"

definition place_object :: "frame_target \<Rightarrow> int \<Rightarrow> layout \<times> bool list \<Rightarrow> (layout \<times> bool list) result" where
  "place_object tgt i st =
     bind_result (scavengeStackSlot tgt i (fst st) (snd st)) (\<lambda>(done, l, bv).
       if done then Inr (l, bv)
       else bind_result (AdjustStackOffset tgt i l) (\<lambda>l. Inr (l, bv)))"

definition place_objects :: "frame_target \<Rightarrow> int \<Rightarrow> int list \<Rightarrow> layout \<Rightarrow> layout result" where
  "place_objects tgt FixedCSEnd objs st =
     (let objs = (if \<not> OptLevelNone tgt \<and> StackSymbolOrdering tgt then orderFrameObjects tgt objs else objs) in
      bind_result
        (if objs \<noteq> [] \<and> \<not> OptLevelNone tgt \<and> StackProtectorIdx (MFI st) < 0 \<and> enableStackSlotScavenging tgt
         then computeFreeStackSlots tgt (MFI st) FixedCSEnd else Inr []) (\<lambda>StackBytesFree.
      bind_result (fold_result (place_object tgt) objs (st, StackBytesFree)) (\<lambda>(st, _). Inr st)))"

definition round_stack :: "frame_target \<Rightarrow> layout \<Rightarrow> layout result" where
  "round_stack tgt st =
     (if targetHandlesStackFrameRounding tgt then Inr st
      else
        let off = (if AdjustsStack (MFI st) \<and> hasReservedCallFrame tgt
                   then i64 (Offset st + getMaxCallFrameSize (MFI st)) else Offset st);
            sa = (if AdjustsStack (MFI st) \<or> HasVarSizedObjects (MFI st)
                     \<or> (needsStackRealignment tgt \<and> getObjectIndexEnd (MFI st) \<noteq> 0)
                  then TargetStackAlignment tgt else TransientStackAlignment tgt)
        in bind_result (alignTo (u64 off) (max sa (MaxAlign st)) (StackAlignmentSkew tgt)) (\<lambda>a.
             Inr (st\<lparr>Offset := i64 a\<rparr>)))"

definition calculateFrameObjectOffsets :: "frame_target \<Rightarrow> frame_info \<Rightarrow> frame_info result" where
  "calculateFrameObjectOffsets tgt fi =
     bind_result (assert_that (0 \<le> local_area_offset tgt)) (\<lambda>_.
     bind_result (fold_result (skip_fixed tgt) [getObjectIndexBegin fi .. -1]
        \<lparr>MFI = fi, Offset = local_area_offset tgt, MaxAlign = MaxAlignment fi\<rparr>) (\<lambda>st.
     bind_result (place_CS tgt st) (\<lambda>st.
     let FixedCSEnd = Offset st in
     bind_result (place_scavenging tgt True st) (\<lambda>st.
     bind_result (place_local_block tgt st) (\<lambda>st.
     bind_result (place_protected tgt st) (\<lambda>(ProtectedObjs, st).
     bind_result (ObjectsToAllocate tgt ProtectedObjs (MFI st)) (\<lambda>objs.
     bind_result (place_EHRegNode tgt st) (\<lambda>st.
     bind_result (place_objects tgt FixedCSEnd objs st) (\<lambda>st.
     bind_result (place_scavenging tgt False st) (\<lambda>st.
     bind_result (round_stack tgt st) (\<lambda>st.
       Inr ((MFI st)\<lparr>StackSize := u64 (i64 (Offset st - local_area_offset tgt))\<rparr>))))))))))))"

section \<open>The invariant of the layout\<close>

text \<open>The frame with the offsets forgotten: no phase changes anything else of it.\<close>

definition erase_offsets :: "frame_info \<Rightarrow> frame_info" where
  "erase_offsets fi = fi\<lparr>Objects := map (\<lambda>ob. ob\<lparr>SPOffset := 0\<rparr>) (Objects fi)\<rparr>"

lemma erase_offsets_eqD:
  assumes "erase_offsets fi = erase_offsets fi0"
  shows "valid_index fi i \<longleftrightarrow> valid_index fi0 i"
    and "valid_index fi0 i \<Longrightarrow> Size (object_at fi i) = Size (object_at fi0 i)"
    and "valid_index fi0 i \<Longrightarrow> Alignment (object_at fi i) = Alignment (object_at fi0 i)"
    and "valid_index fi0 i \<Longrightarrow> PreAllocated (object_at fi i) = PreAllocated (object_at fi0 i)"
    and "valid_index fi0 i \<Longrightarrow> Alloca (object_at fi i) = Alloca (object_at fi0 i)"
    and "NumFixedObjects fi = NumFixedObjects fi0" "length (Objects fi) = length (Objects fi0)"
    and "UseLocalStackAllocationBlock fi = UseLocalStackAllocationBlock fi0"
    and "StackProtectorIdx fi = StackProtectorIdx fi0" "AdjustsStack fi = AdjustsStack fi0"
    and "HasVarSizedObjects fi = HasVarSizedObjects fi0" "MaxCallFrameSize fi = MaxCallFrameSize fi0"
    and "MaxAlignment fi = MaxAlignment fi0" "StackAlignment fi = StackAlignment fi0"
proof -
  have m: "map (\<lambda>ob. ob\<lparr>SPOffset := 0\<rparr>) (Objects fi) = map (\<lambda>ob. ob\<lparr>SPOffset := 0\<rparr>) (Objects fi0)"
    using arg_cong [OF assms, of Objects] by (simp add: erase_offsets_def)
  show len: "length (Objects fi) = length (Objects fi0)" using map_eq_imp_length_eq [OF m] .
  show nf: "NumFixedObjects fi = NumFixedObjects fi0"
    using arg_cong [OF assms, of NumFixedObjects] by (simp add: erase_offsets_def)
  show "UseLocalStackAllocationBlock fi = UseLocalStackAllocationBlock fi0"
    using arg_cong [OF assms, of UseLocalStackAllocationBlock] by (simp add: erase_offsets_def)
  show "StackProtectorIdx fi = StackProtectorIdx fi0"
    using arg_cong [OF assms, of StackProtectorIdx] by (simp add: erase_offsets_def)
  show "AdjustsStack fi = AdjustsStack fi0"
    using arg_cong [OF assms, of AdjustsStack] by (simp add: erase_offsets_def)
  show "HasVarSizedObjects fi = HasVarSizedObjects fi0"
    using arg_cong [OF assms, of HasVarSizedObjects] by (simp add: erase_offsets_def)
  show "MaxCallFrameSize fi = MaxCallFrameSize fi0"
    using arg_cong [OF assms, of MaxCallFrameSize] by (simp add: erase_offsets_def)
  show "MaxAlignment fi = MaxAlignment fi0"
    using arg_cong [OF assms, of MaxAlignment] by (simp add: erase_offsets_def)
  show "StackAlignment fi = StackAlignment fi0"
    using arg_cong [OF assms, of StackAlignment] by (simp add: erase_offsets_def)
  show v: "valid_index fi i \<longleftrightarrow> valid_index fi0 i" using len nf by (simp add: valid_index_def)
  have e: "(object_at fi i)\<lparr>SPOffset := 0\<rparr> = (object_at fi0 i)\<lparr>SPOffset := 0\<rparr>" if "valid_index fi0 i"
    using valid_index_slot [OF that] nf len arg_cong [OF m, of "\<lambda>xs. xs ! slot_of fi0 i"]
    by (simp add: object_at_def slot_of_def)
  show "Size (object_at fi i) = Size (object_at fi0 i)" if "valid_index fi0 i"
    using arg_cong [OF e [OF that], of Size] by simp
  show "Alignment (object_at fi i) = Alignment (object_at fi0 i)" if "valid_index fi0 i"
    using arg_cong [OF e [OF that], of Alignment] by simp
  show "PreAllocated (object_at fi i) = PreAllocated (object_at fi0 i)" if "valid_index fi0 i"
    using arg_cong [OF e [OF that], of PreAllocated] by simp
  show "Alloca (object_at fi i) = Alloca (object_at fi0 i)" if "valid_index fi0 i"
    using arg_cong [OF e [OF that], of Alloca] by simp
qed

lemma setObjectOffset_erase:
  assumes "setObjectOffset fi i off = Inr fi'"
  shows "erase_offsets fi' = erase_offsets fi"
proof -
  note so = setObjectOffset_Inr(1,2) [OF assms]
  have "Objects fi' = (Objects fi)[slot_of fi i := (object_at fi i)\<lparr>SPOffset := off\<rparr>]"
    "fi' = fi\<lparr>Objects := (Objects fi)[slot_of fi i := (object_at fi i)\<lparr>SPOffset := off\<rparr>]\<rparr>"
    using set_object_Inr(9) [OF so(1)] by simp_all
  moreover have "map (\<lambda>ob. ob\<lparr>SPOffset := 0\<rparr>) ((Objects fi)[slot_of fi i := (object_at fi i)\<lparr>SPOffset := off\<rparr>])
      = map (\<lambda>ob. ob\<lparr>SPOffset := 0\<rparr>) (Objects fi)"
    using valid_index_slot [OF so(2)]
    by (simp add: map_update object_at_def list_update_same_conv)
  ultimately show ?thesis by (simp add: erase_offsets_def)
qed

definition bytes_of :: "stack_object \<Rightarrow> int set" where
  "bytes_of ob = {SPOffset ob ..< SPOffset ob + Size ob}"

definition live :: "frame_info \<Rightarrow> int \<Rightarrow> bool" where
  "live fi i = (valid_index fi i \<and> Size (object_at fi i) \<noteq> dead_size)"

text \<open>
  Bounds under which the 64-bit arithmetic does not wrap: at most \<open>2 ^ 20\<close> objects, each smaller than
  \<open>2 ^ 31\<close> bytes, fixed offsets of less than \<open>2 ^ 31\<close> in size.
\<close>

definition small_frame :: "frame_info \<Rightarrow> bool" where
  "small_frame fi = (length (Objects fi) \<le> 2 ^ 20
     \<and> (\<forall>i. live fi i \<longrightarrow> 0 \<le> Size (object_at fi i) \<and> Size (object_at fi i) < 2 ^ 31
          \<and> 0 < Alignment (object_at fi i) \<and> Alignment (object_at fi i) < 2 ^ 32
          \<and> (i < 0 \<longrightarrow> \<bar>SPOffset (object_at fi i)\<bar> < 2 ^ 31)))"

text \<open>
  \<open>placed fi0 P st\<close>: the objects of \<open>P\<close> have their offsets. They lie within \<open>Offset\<close> of the stack top,
  those that are not fixed are aligned and below the stack top, and two of them share a byte only when
  both are fixed.
\<close>

definition placed :: "frame_info \<Rightarrow> int set \<Rightarrow> layout \<Rightarrow> bool" where
  "placed fi0 P st = (erase_offsets (MFI st) = erase_offsets fi0
     \<and> (\<forall>i. valid_index fi0 i \<and> i < 0 \<longrightarrow> SPOffset (object_at (MFI st) i) = SPOffset (object_at fi0 i))
     \<and> MaxAlign st < 2 ^ 32 \<and> 0 \<le> Offset st \<and> Offset st \<le> 2 ^ 32 + 2 ^ 34 * int (card {i \<in> P. 0 \<le> i})
     \<and> (\<forall>i \<in> P. live fi0 i \<and> - Offset st \<le> SPOffset (object_at (MFI st) i))
     \<and> (\<forall>i \<in> P. 0 \<le> i \<longrightarrow>
          SPOffset (object_at (MFI st) i) mod Alignment (object_at fi0 i) = 0
          \<and> SPOffset (object_at (MFI st) i) + Size (object_at fi0 i) \<le> 0)
     \<and> (\<forall>i \<in> P. \<forall>j \<in> P. i \<noteq> j \<and> (0 \<le> i \<or> 0 \<le> j) \<longrightarrow>
          bytes_of (object_at (MFI st) i) \<inter> bytes_of (object_at (MFI st) j) = {}))"

lemma finite_valid: "finite {i. valid_index fi i}"
  by (rule finite_subset [of _ "{- int (NumFixedObjects fi) .. int (length (Objects fi))}"])
    (auto simp: valid_index_def)

lemma card_nonneg_valid:
  assumes "\<And>i. i \<in> P \<Longrightarrow> valid_index fi i"
  shows "card {i \<in> P. 0 \<le> i} \<le> length (Objects fi)"
proof -
  have "{i \<in> P. 0 \<le> i} \<subseteq> {0 ..< int (length (Objects fi))}"
    using assms by (fastforce simp: valid_index_def)
  from card_mono [OF _ this] show ?thesis by simp
qed

lemma placed_offset_bound:
  assumes "placed fi0 P st" "small_frame fi0"
  shows "Offset st \<le> 2 ^ 32 + 2 ^ 54"
proof -
  have "card {i \<in> P. 0 \<le> i} \<le> 2 ^ 20"
    using card_nonneg_valid [of P fi0] assms by (auto simp: placed_def small_frame_def live_def)
  then have "2 ^ 34 * int (card {i \<in> P. 0 \<le> i}) \<le> 2 ^ 34 * 2 ^ 20" by simp
  then show ?thesis using assms(1) by (simp add: placed_def)
qed

text \<open>The step that all phases share: object \<open>i\<close> gets offset \<open>off\<close> where no placed object has a byte.\<close>

lemma placed_insert:
  assumes p: "placed fi0 P st" and i: "live fi0 i" "0 \<le> i" "i \<notin> P"
    and set: "setObjectOffset (MFI st) i off = Inr fi'"
    and new: "- Offset st' \<le> off" "off mod Alignment (object_at fi0 i) = 0"
      "off + Size (object_at fi0 i) \<le> 0"
      "\<And>j. j \<in> P \<Longrightarrow> {off ..< off + Size (object_at fi0 i)} \<inter> bytes_of (object_at (MFI st) j) = {}"
    and st': "MFI st' = fi'" "Offset st \<le> Offset st'" "Offset st' \<le> Offset st + 2 ^ 34"
      "MaxAlign st' < 2 ^ 32"
  shows "placed fi0 (insert i P) st'"
    and "\<And>j. j \<noteq> i \<Longrightarrow> valid_index fi0 j \<Longrightarrow> object_at fi' j = object_at (MFI st) j"
    and "bytes_of (object_at fi' i) = {off ..< off + Size (object_at fi0 i)}"
    and "SPOffset (object_at fi' i) = off"
proof -
  have er: "erase_offsets (MFI st) = erase_offsets fi0" using p by (simp add: placed_def)
  note er' = erase_offsets_eqD [OF er]
  have vi: "valid_index fi0 i" using i by (simp add: live_def)
  note so = set_object_Inr [OF setObjectOffset_Inr(1) [OF set]]
  have obj: "object_at fi' j = (if j = i then (object_at (MFI st) i)\<lparr>SPOffset := off\<rparr>
      else object_at (MFI st) j)" if "valid_index fi0 j" for j
    using so(3) [of j] er'(1) [of j] that by simp
  show other: "\<And>j. j \<noteq> i \<Longrightarrow> valid_index fi0 j \<Longrightarrow> object_at fi' j = object_at (MFI st) j"
    using obj by simp
  show bi: "bytes_of (object_at fi' i) = {off ..< off + Size (object_at fi0 i)}"
    and sp: "SPOffset (object_at fi' i) = off"
    using obj [OF vi] er'(2) [OF vi] by (simp_all add: bytes_of_def)
  have Pv: "\<And>j. j \<in> P \<Longrightarrow> valid_index fi0 j" using p by (auto simp: placed_def live_def)
  have Pobj: "\<And>j. j \<in> P \<Longrightarrow> object_at fi' j = object_at (MFI st) j"
    using other Pv i(3) by metis
  have fin: "finite {j \<in> P. 0 \<le> j}"
    by (rule finite_subset [OF _ finite_valid [of fi0]]) (use Pv in auto)
  have "{j \<in> insert i P. 0 \<le> j} = insert i {j \<in> P. 0 \<le> j}" using i(2) by auto
  then have card: "card {j \<in> insert i P. 0 \<le> j} = Suc (card {j \<in> P. 0 \<le> j})"
    using fin i(3) by simp
  have neg: "\<forall>j. valid_index fi0 j \<and> j < 0 \<longrightarrow>
      SPOffset (object_at fi' j) = SPOffset (object_at fi0 j)"
    using other i(2) p by (auto simp: placed_def)
  have b: "0 \<le> Offset st'" "Offset st' \<le> 2 ^ 32 + 2 ^ 34 * int (card {j \<in> insert i P. 0 \<le> j})"
    using p st'(2,3) card by (auto simp: placed_def)
  have low: "\<forall>j \<in> insert i P. live fi0 j \<and> - Offset st' \<le> SPOffset (object_at fi' j)"
    using p Pobj sp new(1) i(1) st'(2) by (fastforce simp: placed_def)
  have al: "\<forall>j \<in> insert i P. 0 \<le> j \<longrightarrow>
      SPOffset (object_at fi' j) mod Alignment (object_at fi0 j) = 0
      \<and> SPOffset (object_at fi' j) + Size (object_at fi0 j) \<le> 0"
    using p Pobj sp new(2,3) by (auto simp: placed_def)
  have dis: "bytes_of (object_at fi' j) \<inter> bytes_of (object_at fi' k) = {}"
    if jk: "j \<in> insert i P" "k \<in> insert i P" "j \<noteq> k" "0 \<le> j \<or> 0 \<le> k" for j k
  proof -
    consider "j = i" "k \<in> P" | "k = i" "j \<in> P" | "j \<in> P" "k \<in> P" using jk by blast
    then show ?thesis
    proof cases
      case 1 then show ?thesis using bi Pobj new(4) by simp
    next
      case 2 then show ?thesis using bi Pobj new(4) by (metis Int_commute)
    next
      case 3 then show ?thesis using p Pobj jk(3,4) by (simp add: placed_def)
    qed
  qed
  show "placed fi0 (insert i P) st'"
    unfolding placed_def st'(1)
    using setObjectOffset_erase [OF set] er neg b low al dis st'(4) by auto
qed

text \<open>Bounds and parameters of the theorems: a stack that grows down, with no skew.\<close>

definition grows_down :: "frame_target \<Rightarrow> bool" where
  "grows_down tgt = (StackGrowsDown tgt \<and> StackAlignmentSkew tgt = 0)"

text \<open>The arithmetic of \<open>AdjustStackOffset\<close> and of the callee-save loop, without wrap-around.\<close>

lemma bump_arith:
  assumes "0 \<le> off" "off \<le> 2 ^ 32 + 2 ^ 54" "0 \<le> sz" "sz < 2 ^ 31" "0 < al" "al < 2 ^ 32"
  shows "alignTo (u64 (i64 (off + sz))) al 0 = Inr (ceil_to al 0 (off + sz))"
    and "i64 (ceil_to al 0 (off + sz)) = ceil_to al 0 (off + sz)"
    and "i64 (- ceil_to al 0 (off + sz)) = - ceil_to al 0 (off + sz)"
    and "off + sz \<le> ceil_to al 0 (off + sz)" "ceil_to al 0 (off + sz) \<le> off + 2 ^ 34"
    and "ceil_to al 0 (off + sz) mod al = 0"
proof -
  have b: "off + sz \<le> ceil_to al 0 (off + sz)" "ceil_to al 0 (off + sz) < off + sz + al"
    using ceil_to_bounds [OF assms(5), where s = 0 and v = "off + sz"] by auto
  then show "off + sz \<le> ceil_to al 0 (off + sz)" "ceil_to al 0 (off + sz) \<le> off + 2 ^ 34"
    using assms by simp_all
  have "i64 (off + sz) = off + sz" "u64 (off + sz) = off + sz"
    using assms by (simp_all add: i64_id u64_id)
  then show "alignTo (u64 (i64 (off + sz))) al 0 = Inr (ceil_to al 0 (off + sz))"
    using alignTo_ceil_to [of "off + sz" al 0] assms by simp
  show "i64 (ceil_to al 0 (off + sz)) = ceil_to al 0 (off + sz)"
    "i64 (- ceil_to al 0 (off + sz)) = - ceil_to al 0 (off + sz)"
    using b assms by (simp_all add: i64_id)
  show "ceil_to al 0 (off + sz) mod al = 0" by (simp add: ceil_to_mod)
qed

text \<open>What a step that places object \<open>i\<close> beyond the current offset gives.\<close>

definition bumped :: "frame_info \<Rightarrow> int set \<Rightarrow> int \<Rightarrow> layout \<Rightarrow> layout \<Rightarrow> bool" where
  "bumped fi0 P i st st' = (placed fi0 (insert i P) st' \<and> Offset st \<le> Offset st'
     \<and> MaxAlign st \<le> MaxAlign st'
     \<and> SPOffset (object_at (MFI st') i) + Size (object_at fi0 i) \<le> - Offset st
     \<and> (\<forall>j. j \<noteq> i \<and> valid_index fi0 j \<longrightarrow> object_at (MFI st') j = object_at (MFI st) j))"

lemma live_sizes:
  assumes "placed fi0 P st" "small_frame fi0" "valid_index (MFI st) i" "Size (object_at (MFI st) i) \<noteq> dead_size"
  shows "live fi0 i" "getObjectSize (MFI st) i = Inr (Size (object_at fi0 i))"
    "getObjectAlignment (MFI st) i = Inr (Alignment (object_at fi0 i))"
    "0 \<le> Size (object_at fi0 i)" "Size (object_at fi0 i) < 2 ^ 31"
    "0 < Alignment (object_at fi0 i)" "Alignment (object_at fi0 i) < 2 ^ 32"
proof -
  have er: "erase_offsets (MFI st) = erase_offsets fi0" using assms(1) by (simp add: placed_def)
  note er' = erase_offsets_eqD [OF er]
  have v: "valid_index fi0 i" using assms(3) er'(1) by simp
  show l: "live fi0 i" using v assms(4) er'(2) [OF v] by (simp add: live_def)
  then have b: "0 \<le> Size (object_at fi0 i)" "Size (object_at fi0 i) < 2 ^ 31"
    "0 < Alignment (object_at fi0 i)" "Alignment (object_at fi0 i) < 2 ^ 32"
    using assms(2) by (simp_all add: small_frame_def)
  then show "0 \<le> Size (object_at fi0 i)" "Size (object_at fi0 i) < 2 ^ 31"
    "0 < Alignment (object_at fi0 i)" "Alignment (object_at fi0 i) < 2 ^ 32" by simp_all
  show "getObjectSize (MFI st) i = Inr (Size (object_at fi0 i))"
    using assms(3) er'(2) [OF v] b by (simp add: getObjectSize_def get_object_def i64_id)
  show "getObjectAlignment (MFI st) i = Inr (Alignment (object_at fi0 i))"
    using assms(3) er'(3) [OF v] by (simp add: getObjectAlignment_def get_object_def)
qed

lemma bump_placed:
  assumes p: "placed fi0 P st" and s: "small_frame fi0" and i: "0 \<le> i" "i \<notin> P"
    and set: "setObjectOffset (MFI st) i (- off') = Inr fi'"
    and off': "off' = ceil_to (Alignment (object_at fi0 i)) 0 (Offset st + Size (object_at fi0 i))"
    and st': "MFI st' = fi'" "Offset st' = off'" "MaxAlign st \<le> MaxAlign st'" "MaxAlign st' < 2 ^ 32"
  shows "bumped fi0 P i st st'"
proof -
  note v = setObjectOffset_Inr(2,3) [OF set]
  note ls = live_sizes [OF p s v]
  note ar = bump_arith [OF _ placed_offset_bound [OF p s] ls(4-7)]
  have o: "0 \<le> Offset st" using p by (simp add: placed_def)
  note ar = ar [OF o]
  have low: "- off' + Size (object_at fi0 i) \<le> - Offset st" using ar(4) off' by simp
  have dis: "{- off' ..< - off' + Size (object_at fi0 i)} \<inter> bytes_of (object_at (MFI st) j) = {}"
    if "j \<in> P" for j
    using p that low by (force simp: placed_def bytes_of_def)
  have al: "(- off') mod Alignment (object_at fi0 i) = 0"
    using ar(6) off' by (simp add: mod_minus_eq [symmetric] flip: mod_0_imp_dvd) (metis dvd_eq_mod_eq_0 dvd_minus_iff)
  have "placed fi0 (insert i P) st'"
    and "\<And>j. j \<noteq> i \<Longrightarrow> valid_index fi0 j \<Longrightarrow> object_at fi' j = object_at (MFI st) j"
    and "SPOffset (object_at fi' i) = - off'"
    using placed_insert [OF p ls(1) i set _ al _ dis, of st'] low o ar(4,5) ls(4) off' st' by auto
  then show ?thesis using st' low ar(4) ls(4) off' by (simp add: bumped_def)
qed

lemma AdjustStackOffset_bumped:
  assumes "grows_down tgt" "small_frame fi0" "placed fi0 P st" "0 \<le> i" "i \<notin> P"
    and "AdjustStackOffset tgt i st = Inr st'"
  shows "bumped fi0 P i st st'"
proof -
  obtain sz al a fi' where sz: "getObjectSize (MFI st) i = Inr sz" and al: "getObjectAlignment (MFI st) i = Inr al"
    and a: "alignTo (u64 (i64 (Offset st + sz))) al 0 = Inr a"
    and set: "setObjectOffset (MFI st) i (i64 (- i64 a)) = Inr fi'"
    and st': "st' = \<lparr>MFI = fi', Offset = i64 a, MaxAlign = max (MaxAlign st) al\<rparr>"
    using assms(1,6) by (auto simp: AdjustStackOffset_def grows_down_def bind_result_Inr_iff Let_def)
  note v = setObjectOffset_Inr(2,3) [OF set]
  note ls = live_sizes [OF assms(3,2) v]
  have o: "0 \<le> Offset st" using assms(3) by (simp add: placed_def)
  note ar = bump_arith [OF o placed_offset_bound [OF assms(3,2)] ls(4-7)]
  have a': "a = ceil_to (Alignment (object_at fi0 i)) 0 (Offset st + Size (object_at fi0 i))"
    using a ar(1) sz al ls(2,3) by simp
  have "i64 (- i64 a) = - a" "i64 a = a" using a' ar(2,3) by simp_all
  then show ?thesis
    using bump_placed [OF assms(3,2,4,5) _ a', of fi' st'] set st' al ls(3,7) assms(3)
    by (simp add: placed_def)
qed

lemma place_CS_down_bumped:
  assumes "grows_down tgt" "small_frame fi0" "placed fi0 P st" "0 \<le> i" "i \<notin> P"
    and "place_CS_down tgt i st = Inr st'"
  shows "bumped fi0 P i st st'"
proof -
  obtain sz al a fi' where sz: "getObjectSize (MFI st) i = Inr sz" and al: "getObjectAlignment (MFI st) i = Inr al"
    and a: "alignTo (u64 (i64 (Offset st + sz))) al 0 = Inr a"
    and set: "setObjectOffset (MFI st) i (i64 (- i64 a)) = Inr fi'"
    and st': "st' = st\<lparr>MFI := fi', Offset := i64 a\<rparr>"
    using assms(1,6) by (auto simp: place_CS_down_def grows_down_def bind_result_Inr_iff Let_def)
  note v = setObjectOffset_Inr(2,3) [OF set]
  note ls = live_sizes [OF assms(3,2) v]
  have o: "0 \<le> Offset st" using assms(3) by (simp add: placed_def)
  note ar = bump_arith [OF o placed_offset_bound [OF assms(3,2)] ls(4-7)]
  have a': "a = ceil_to (Alignment (object_at fi0 i)) 0 (Offset st + Size (object_at fi0 i))"
    using a ar(1) sz al ls(2,3) by simp
  have "i64 (- i64 a) = - a" "i64 a = a" using a' ar(2,3) by simp_all
  then show ?thesis
    using bump_placed [OF assms(3,2,4,5) _ a', of fi' st'] set st' al ls(3,7) assms(3)
    by (simp add: placed_def)
qed

text \<open>A loop of such steps over distinct objects that are not placed yet.\<close>

definition grown :: "frame_info \<Rightarrow> int set \<Rightarrow> int set \<Rightarrow> layout \<Rightarrow> layout \<Rightarrow> bool" where
  "grown fi0 P Q st st' = (placed fi0 (P \<union> Q) st' \<and> Offset st \<le> Offset st' \<and> MaxAlign st \<le> MaxAlign st'
     \<and> (\<forall>i \<in> Q. SPOffset (object_at (MFI st') i) + Size (object_at fi0 i) \<le> - Offset st)
     \<and> (\<forall>j. j \<notin> Q \<and> valid_index fi0 j \<longrightarrow> object_at (MFI st') j = object_at (MFI st) j))"

lemma grown_empty: "placed fi0 P st \<Longrightarrow> grown fi0 P {} st st"
  by (simp add: grown_def)

lemma bumped_grown: "bumped fi0 P i st st' \<Longrightarrow> grown fi0 P {i} st st'"
  by (auto simp: bumped_def grown_def)

lemma grown_trans:
  assumes "grown fi0 P Q st st'" "grown fi0 (P \<union> Q) R st' st''" "R \<inter> Q = {}"
  shows "grown fi0 P (Q \<union> R) st st''"
proof -
  have q: "object_at (MFI st'') i = object_at (MFI st') i" if "i \<in> Q" for i
    using assms that by (auto simp: grown_def placed_def live_def)
  show ?thesis
    using assms q unfolding grown_def by (auto simp: Un_assoc)
qed

lemma fold_grown:
  assumes step: "\<And>i st st' P. placed fi0 P st \<Longrightarrow> 0 \<le> i \<Longrightarrow> i \<notin> P \<Longrightarrow> f i st = Inr st'
      \<Longrightarrow> bumped fi0 P i st st'"
    and "fold_result f is st = Inr st'" "placed fi0 P st" "distinct is"
    and "\<forall>i \<in> set is. 0 \<le> i \<and> i \<notin> P"
  shows "grown fi0 P (set is) st st'"
  using assms(2-5)
proof (induction "is" arbitrary: P st)
  case Nil
  then show ?case by (simp add: grown_empty)
next
  case (Cons i "is")
  obtain st1 where f: "f i st = Inr st1" and r: "fold_result f is st1 = Inr st'"
    using Cons.prems(1) by (auto simp: bind_result_Inr_iff)
  have b: "bumped fi0 P i st st1" using step [OF Cons.prems(2) _ _ f] Cons.prems(4) by simp
  then have "placed fi0 (insert i P) st1" by (simp add: bumped_def)
  from Cons.IH [OF r this] have "grown fi0 (insert i P) (set is) st1 st'" using Cons.prems(3,4) by auto
  from grown_trans [OF bumped_grown [OF b], of "set is" st'] this show ?case
    using Cons.prems(3) by simp
qed

lemma fold_AdjustStackOffset_grown:
  assumes "grows_down tgt" "small_frame fi0"
    and "fold_result (AdjustStackOffset tgt) is st = Inr st'" "placed fi0 P st" "distinct is"
    and "\<forall>i \<in> set is. 0 \<le> i \<and> i \<notin> P"
  shows "grown fi0 P (set is) st st'"
  by (rule fold_grown [OF AdjustStackOffset_bumped [OF assms(1,2)] assms(3-6)])

lemma fold_place_CS_grown:
  assumes "grows_down tgt" "small_frame fi0"
    and "fold_result (place_CS_down tgt) is st = Inr st'" "placed fi0 P st" "distinct is"
    and "\<forall>i \<in> set is. 0 \<le> i \<and> i \<notin> P"
  shows "grown fi0 P (set is) st st'"
  by (rule fold_grown [OF place_CS_down_bumped [OF assms(1,2)] assms(3-6)])


section \<open>Scavenging holes is sound\<close>

declare find_slot.simps [simp del]

text \<open>A byte that is still marked free is not a byte of any placed object.\<close>

definition free_ok :: "int set \<Rightarrow> layout \<Rightarrow> bool list \<Rightarrow> bool" where
  "free_ok P st bv = (int (length bv) \<le> Offset st \<and> int (length bv) \<le> INT_MAX
     \<and> (\<forall>k < length bv. bv ! k \<longrightarrow> (\<forall>i \<in> P. - 1 - int k \<notin> bytes_of (object_at (MFI st) i))))"

lemma free_ok_empty: "0 \<le> Offset st \<Longrightarrow> free_ok P st []"
  by (simp add: free_ok_def INT_MAX_def)

lemma free_ok_bumped:
  assumes "free_ok P st bv" "bumped fi0 P i st st'" "placed fi0 P st" "0 \<le> i" "i \<notin> P"
  shows "free_ok (insert i P) st' bv"
proof -
  have v: "valid_index fi0 j" if "j \<in> insert i P" for j
    using assms(2) that by (auto simp: bumped_def placed_def live_def)
  have er: "erase_offsets (MFI st') = erase_offsets fi0"
    using assms(2) by (simp add: bumped_def placed_def)
  have sz: "Size (object_at (MFI st') i) = Size (object_at fi0 i)"
    using erase_offsets_eqD(2) [OF er] v by simp
  have same: "object_at (MFI st') j = object_at (MFI st) j" if "j \<in> P" for j
    using assms(2,5) that v unfolding bumped_def by (metis insertI2)
  have "- 1 - int k \<notin> bytes_of (object_at (MFI st') i)" if "k < length bv" for k
    using that assms(1,2) sz by (auto simp: bumped_def free_ok_def bytes_of_def)
  then show ?thesis
    using assms(1,2) same by (auto simp: free_ok_def bumped_def)
qed

lemma reset_bits_Inr:
  assumes "reset_bits bv s e = Inr bv'" "0 \<le> s" "s < 2 ^ 32" "0 \<le> e" "e < 2 ^ 32"
  shows "s \<le> e" "e \<le> int (length bv)" "length bv' = length bv"
    "\<And>k. k < length bv \<Longrightarrow> bv' ! k \<longleftrightarrow> bv ! k \<and> \<not> (s \<le> int k \<and> int k < e)"
  using assms
  by (auto simp: reset_bits_def Let_def u32_id nth_enumerate_eq split: if_splits)

lemma find_slot_Some:
  assumes "find_slot tgt sz al bv k = Inr (Some p)"
  shows "p < length bv \<and> int p + sz \<le> int (length bv) \<and> all_free bv p (nat sz)
    \<and> slot_aligned tgt sz al p = Inr True"
  using assms
proof (induction tgt sz al bv k rule: find_slot.induct)
  case (1 tgt sz al bv k)
  show ?case
  proof (cases "length bv \<le> k \<or> \<not> bv ! k")
    case True
    then show ?thesis using "1.IH"(1) "1.prems"
      by (cases "length bv \<le> k") (simp_all add: find_slot.simps [of tgt sz al bv k])
  next
    case False
    then obtain ok where ok: "slot_aligned tgt sz al k = Inr ok"
      using "1.prems" by (auto simp: find_slot.simps [of tgt sz al bv k] bind_result_Inr_iff)
    then show ?thesis
      using "1.prems" False "1.IH"(2,3)
      by (auto simp: find_slot.simps [of tgt sz al bv k] split: if_splits)
  qed
qed

lemma scavenge_true:
  assumes "scavengeStackSlot tgt i st bv = Inr (True, st', bv')" "StackGrowsDown tgt"
  shows "\<exists>sz al p fi'. Size (object_at (MFI st) i) \<noteq> 0 \<and> getObjectSize (MFI st) i = Inr sz
    \<and> getObjectAlignment (MFI st) i = Inr al
    \<and> find_slot tgt sz al bv 0 = Inr (Some p)
    \<and> setObjectOffset (MFI st) i (i32 (- (int p + sz))) = Inr fi'
    \<and> reset_bits bv (int p) (int p + sz) = Inr bv' \<and> st' = st\<lparr>MFI := fi'\<rparr>"
proof -
  obtain al sz slot where "Size (object_at (MFI st) i) \<noteq> 0" "getObjectSize (MFI st) i = Inr sz"
      "getObjectAlignment (MFI st) i = Inr al" and fs: "find_slot tgt sz al bv 0 = Inr slot"
      and r: "(case slot of None \<Rightarrow> Inr (False, st, bv)
           | Some FreeStart \<Rightarrow>
               bind_result (setObjectOffset (MFI st) i (i32 (- int FreeStart - sz))) (\<lambda>fi.
               bind_result (reset_bits bv (int FreeStart) (int FreeStart + sz)) (\<lambda>bv.
                 Inr (True, st\<lparr>MFI := fi\<rparr>, bv)))) = (Inr (True, st', bv') :: (bool \<times> layout \<times> bool list) result)"
    using assms
    by (auto simp: scavengeStackSlot_def bind_result_Inr_iff isVariableSizedObjectIndex_def get_object_def
        Let_def split: if_splits)
  then show ?thesis by (cases slot) (auto simp: Let_def bind_result_Inr_iff)
qed

lemma scavenge_false:
  assumes "scavengeStackSlot tgt i st bv = Inr (False, st', bv')"
  shows "st' = st \<and> (bv' = bv \<or> bv' = [])"
  using assms
  by (auto simp: scavengeStackSlot_def bind_result_Inr_iff Let_def split: if_splits option.splits)

definition scavenged :: "frame_info \<Rightarrow> int set \<Rightarrow> int \<Rightarrow> layout \<Rightarrow> layout \<Rightarrow> bool" where
  "scavenged fi0 P i st st' = (placed fi0 (insert i P) st' \<and> Offset st' = Offset st \<and> MaxAlign st' = MaxAlign st
     \<and> (\<forall>j. j \<noteq> i \<and> valid_index fi0 j \<longrightarrow> object_at (MFI st') j = object_at (MFI st) j))"

lemma scavenge_placed:
  assumes "grows_down tgt" "small_frame fi0" and p: "placed fi0 P st" and i: "0 \<le> i" "i \<notin> P"
    and "free_ok P st bv" "scavengeStackSlot tgt i st bv = Inr (True, st', bv')"
  shows "scavenged fi0 P i st st' \<and> free_ok (insert i P) st' bv'"
proof -
  obtain sz al p fi' where nz: "Size (object_at (MFI st) i) \<noteq> 0"
    and sz: "getObjectSize (MFI st) i = Inr sz" and al: "getObjectAlignment (MFI st) i = Inr al"
    and fs: "find_slot tgt sz al bv 0 = Inr (Some p)"
    and set: "setObjectOffset (MFI st) i (i32 (- (int p + sz))) = Inr fi'"
    and rb: "reset_bits bv (int p) (int p + sz) = Inr bv'" and st': "st' = st\<lparr>MFI := fi'\<rparr>"
    using scavenge_true [OF assms(7)] assms(1) unfolding grows_down_def by metis
  note v = setObjectOffset_Inr(2,3) [OF set]
  note ls = live_sizes [OF p assms(2) v]
  have sz': "sz = Size (object_at fi0 i)" "al = Alignment (object_at fi0 i)" using sz al ls(2,3) by simp_all
  note fs' = find_slot_Some [OF fs]
  have len: "int (length bv) \<le> Offset st" "int (length bv) < 2 ^ 31"
    using assms(6) by (simp_all add: free_ok_def INT_MAX_def)
  have rng: "0 \<le> sz" "int p + sz < 2 ^ 31" "int p + sz \<le> Offset st" using ls(4) sz' fs' len by simp_all
  have off: "i32 (- (int p + sz)) = - (int p + sz)" using rng by (intro i32_id) simp_all
  have "u32 (int p + sz) = int p + sz" using rng by (intro u32_id) simp_all
  then have "alignTo (int p + sz) al 0 = Inr (int p + sz)"
    using fs' assms(1) by (auto simp: slot_aligned_def grows_down_def Let_def bind_result_Inr_iff)
  then have "(int p + sz) mod al = 0"
    using alignTo_ceil_to [of "int p + sz" al 0] ceil_to_mod [of al 0 "int p + sz"] rng ls(6,7) sz'(2)
    by auto
  then have amod: "(- (int p + sz)) mod Alignment (object_at fi0 i) = 0"
    using sz'(2) by (metis dvd_eq_mod_eq_0 dvd_minus_iff)
  have free: "- 1 - int k \<notin> bytes_of (object_at (MFI st) j)"
    if "p \<le> k" "int k < int p + sz" "j \<in> P" for k j
  proof -
    have "nat sz > k - p" using that(1,2) by linarith
    then have "bv ! (p + (k - p))" using fs' by (auto simp: all_free_def)
    moreover have "k < length bv" using that fs' by linarith
    ultimately show ?thesis using assms(6) that by (auto simp: free_ok_def)
  qed
  have dis: "{- (int p + sz) ..< - (int p + sz) + Size (object_at fi0 i)}
      \<inter> bytes_of (object_at (MFI st) j) = {}" if "j \<in> P" for j
  proof (rule ccontr)
    assume "\<not> ?thesis"
    then obtain x where x: "- (int p + sz) \<le> x" "x < - int p" "x \<in> bytes_of (object_at (MFI st) j)"
      using sz' by auto
    then have n: "p \<le> nat (- 1 - x)" "int (nat (- 1 - x)) < int p + sz" "- 1 - int (nat (- 1 - x)) = x"
      by linarith+
    show False using free [OF n(1,2) that] x(3) n(3) by simp
  qed
  have ma: "MaxAlign st < 2 ^ 32" using p by (simp add: placed_def)
  note pi = placed_insert [OF p ls(1) i set [unfolded off] _ amod _ dis, of st']
  have pl: "placed fi0 (insert i P) st'"
    and other: "\<And>j. j \<noteq> i \<Longrightarrow> valid_index fi0 j \<Longrightarrow> object_at fi' j = object_at (MFI st) j"
    and bi: "bytes_of (object_at fi' i) = {- (int p + sz) ..< - (int p + sz) + Size (object_at fi0 i)}"
    using pi st' rng sz' ma by auto
  note rb' = reset_bits_Inr [OF rb]
  have Pv: "valid_index fi0 j" if "j \<in> P" for j using p that by (auto simp: placed_def live_def)
  have same: "object_at fi' j = object_at (MFI st) j" if "j \<in> P" for j
    using other Pv that i(2) by metis
  have ps: "0 \<le> int p" "int p < 2 ^ 32" "0 \<le> int p + sz" "int p + sz < 2 ^ 32" using rng by simp_all
  have "- 1 - int k \<notin> bytes_of (object_at fi' j)" if k: "k < length bv" "bv' ! k" and j: "j \<in> insert i P" for k j
  proof (cases "j = i")
    case True
    have "\<not> (int p \<le> int k \<and> int k < int p + sz)" using rb'(4) [OF ps k(1)] k(2) by simp
    then show ?thesis using True bi sz' by auto
  next
    case False
    have "bv ! k" using rb'(4) [OF ps k(1)] k(2) by simp
    then show ?thesis using assms(6) k(1) j False same by (simp add: free_ok_def)
  qed
  then have "free_ok (insert i P) st' bv'"
    using assms(6) rb'(3) [OF ps] st' unfolding free_ok_def by simp
  then show ?thesis using pl other st' by (simp add: scavenged_def)
qed

text \<open>The bytes of the fixed and callee-save objects are marked.\<close>

lemma reset_bits_mono:
  assumes "reset_bits bv s e = Inr bv'"
  shows "length bv' = length bv" "k < length bv \<Longrightarrow> bv' ! k \<Longrightarrow> bv ! k"
  using assms by (auto simp: reset_bits_def Let_def nth_enumerate_eq split: if_splits)

lemma mark_allocated_mono:
  assumes "mark_allocated tgt fi i bv = Inr bv'"
  shows "length bv' = length bv" "k < length bv \<Longrightarrow> bv' ! k \<Longrightarrow> bv ! k"
  using assms reset_bits_mono
  by (auto simp: mark_allocated_def bind_result_Inr_iff Let_def split: if_splits)

lemma mark_allocated_excludes:
  assumes "mark_allocated tgt fi i bv = Inr bv'" "StackGrowsDown tgt" "int (length bv) \<le> INT_MAX"
    and off: "\<bar>SPOffset (object_at fi i)\<bar> < 2 ^ 31"
    and sz: "0 \<le> Size (object_at fi i)" "Size (object_at fi i) < 2 ^ 31"
    and k: "k < length bv" "bv' ! k"
  shows "- 1 - int k \<notin> bytes_of (object_at fi i)"
proof (cases "SPOffset (object_at fi i) < 0")
  case False
  then show ?thesis by (auto simp: bytes_of_def)
next
  case True
  let ?o = "SPOffset (object_at fi i)" and ?s = "Size (object_at fi i)"
  have v: "valid_index fi i" using assms(1)
    by (auto simp: mark_allocated_def bind_result_Inr_iff getObjectOffset_def get_object_def split: if_splits)
  have w: "i32 ?o = ?o" "i32 ?s = ?s" "i32 (- ?o) = - ?o" "i64 ?s = ?s" "i32 (- ?o - ?s) = - ?o - ?s"
    using off sz True by (simp_all add: i32_id i64_id)
  have r: "reset_bits bv (- ?o - ?s) (- ?o) = Inr bv'"
    using assms(1,2) v w True
    by (auto simp: mark_allocated_def bind_result_Inr_iff getObjectOffset_def getObjectSize_def
        get_object_def Let_def split: if_splits)
  have "0 \<le> - ?o - ?s"
  proof (rule ccontr)
    assume "\<not> 0 \<le> - ?o - ?s"
    moreover have "- ?o - ?s > - (2 ^ 31)" using True sz off by simp
    moreover have "(- ?o - ?s) mod 2 ^ 32 = (- ?o - ?s + 2 ^ 32) mod 2 ^ 32" by simp
    ultimately have "u32 (- ?o - ?s) = - ?o - ?s + 2 ^ 32"
      by (simp only: u32_mod) (subst mod_pos_pos_trivial; simp)
    moreover have "u32 (- ?o) = - ?o" using off True by (intro u32_id) simp_all
    ultimately show False using r off sz True by (auto simp: reset_bits_def Let_def split: if_splits)
  qed
  moreover have "0 \<le> - ?o" "- ?o < 2 ^ 32" using True off by simp_all
  ultimately have "\<not> (- ?o - ?s \<le> int k \<and> int k < - ?o)"
    using reset_bits_Inr(4) [OF r _ _ _ _ k(1)] k(2) sz by simp
  then show ?thesis by (auto simp: bytes_of_def)
qed

lemma fold_mark_mono:
  "fold_result (mark_allocated tgt fi) is bv = Inr bv' \<Longrightarrow> length bv' = length bv"
  "fold_result (mark_allocated tgt fi) is bv = Inr bv' \<Longrightarrow> k < length bv \<Longrightarrow> bv' ! k \<Longrightarrow> bv ! k"
proof (induction "is" arbitrary: bv)
  case (Cons i "is")
  { case 1 then show ?case using Cons.IH(1) mark_allocated_mono(1) by (fastforce simp: bind_result_Inr_iff)
  next
    case 2 then show ?case using Cons.IH(2) mark_allocated_mono by (fastforce simp: bind_result_Inr_iff) }
qed simp_all

lemma fold_mark_excludes:
  assumes "fold_result (mark_allocated tgt fi) is bv = Inr bv'" "StackGrowsDown tgt"
    "int (length bv) \<le> INT_MAX" "i \<in> set is"
    and "\<bar>SPOffset (object_at fi i)\<bar> < 2 ^ 31" "0 \<le> Size (object_at fi i)" "Size (object_at fi i) < 2 ^ 31"
    and "k < length bv" "bv' ! k"
  shows "- 1 - int k \<notin> bytes_of (object_at fi i)"
  using assms
proof (induction "is" arbitrary: bv)
  case (Cons j "is")
  obtain bv1 where m: "mark_allocated tgt fi j bv = Inr bv1"
      and r: "fold_result (mark_allocated tgt fi) is bv1 = Inr bv'"
    using Cons.prems(1) by (auto simp: bind_result_Inr_iff)
  have len: "length bv1 = length bv" using mark_allocated_mono(1) [OF m] .
  show ?case
  proof (cases "i \<in> set is")
    case True
    then show ?thesis using Cons.IH [OF r] Cons.prems len by simp
  next
    case False
    then have "j = i" using Cons.prems(4) by simp
    moreover have "bv1 ! k" using fold_mark_mono(2) [OF r] Cons.prems(8,9) len by simp
    ultimately show ?thesis
      using mark_allocated_excludes [OF _ Cons.prems(2,3)] m Cons.prems(5-8) by blast
  qed
qed simp

definition fixed_indices :: "frame_info \<Rightarrow> int set" where
  "fixed_indices fi = {getObjectIndexBegin fi .. -1}"

definition CS_indices :: "frame_target \<Rightarrow> int set" where
  "CS_indices tgt = {MinCSFrameIndex tgt .. MaxCSFrameIndex tgt}"

lemma computeFreeStackSlots_free_ok:
  assumes g: "grows_down tgt" and s: "small_frame fi0" and p: "placed fi0 P st"
    and c: "computeFreeStackSlots tgt (MFI st) E = Inr bv" and E: "0 \<le> E" "E \<le> Offset st"
    and CS: "\<forall>i \<in> CS_indices tgt. 0 \<le> i \<and> valid_index fi0 i" "0 \<le> MinCSFrameIndex tgt"
    and near: "\<forall>i \<in> P \<inter> (fixed_indices fi0 \<union> CS_indices tgt). - E \<le> SPOffset (object_at (MFI st) i)"
    and far: "\<forall>i \<in> P - (fixed_indices fi0 \<union> CS_indices tgt).
      SPOffset (object_at (MFI st) i) + Size (object_at fi0 i) \<le> - E"
  shows "free_ok P st bv"
proof (cases "E > INT_MAX")
  case True
  then show ?thesis using c E by (simp add: computeFreeStackSlots_def free_ok_empty)
next
  case False
  have er: "erase_offsets (MFI st) = erase_offsets fi0" using p by (simp add: placed_def)
  note er' = erase_offsets_eqD [OF er]
  let ?is = "[getObjectIndexBegin (MFI st) .. -1] @ [i32 (MinCSFrameIndex tgt) .. i32 (MaxCSFrameIndex tgt)]"
  have u: "u32 E = E" using False E by (intro u32_id) (simp_all add: INT_MAX_def)
  then have f: "fold_result (mark_allocated tgt (MFI st)) ?is (replicate (nat E) True) = Inr bv"
    using c False by (simp add: computeFreeStackSlots_def)
  have len: "length bv = nat E" using fold_mark_mono(1) [OF f] by simp
  have "- 1 - int k \<notin> bytes_of (object_at (MFI st) i)" if k: "k < length bv" "bv ! k" and i: "i \<in> P" for k i
  proof (cases "i \<in> fixed_indices fi0 \<union> CS_indices tgt")
    case False
    have "Size (object_at (MFI st) i) = Size (object_at fi0 i)"
      using p i er'(2) by (auto simp: placed_def live_def)
    then show ?thesis using far i False k len E by (force simp: bytes_of_def)
  next
    case True
    have l: "live fi0 i" using p i by (simp add: placed_def)
    then have v: "valid_index fi0 i" and sz: "0 \<le> Size (object_at fi0 i)" "Size (object_at fi0 i) < 2 ^ 31"
      using s by (auto simp: live_def small_frame_def)
    have sz': "Size (object_at (MFI st) i) = Size (object_at fi0 i)" using er'(2) [OF v] .
    have in_list: "i \<in> set ?is"
    proof (cases "i \<in> fixed_indices fi0")
      case True
      then show ?thesis using er'(6) by (simp add: fixed_indices_def getObjectIndexBegin_def)
    next
      case False
      then have iCS: "i \<in> CS_indices tgt" using True by simp
      then have "MaxCSFrameIndex tgt \<in> CS_indices tgt" by (simp add: CS_indices_def)
      then have "MaxCSFrameIndex tgt < 2 ^ 20"
        using CS(1) s by (force simp: valid_index_def small_frame_def)
      then have "i32 (MinCSFrameIndex tgt) = MinCSFrameIndex tgt" "i32 (MaxCSFrameIndex tgt) = MaxCSFrameIndex tgt"
        using iCS CS(2) by (simp_all add: CS_indices_def i32_id)
      then show ?thesis using iCS by (simp add: CS_indices_def)
    qed
    have "\<bar>SPOffset (object_at (MFI st) i)\<bar> < 2 ^ 31"
    proof (cases "0 \<le> i")
      case True
      then have "SPOffset (object_at (MFI st) i) \<le> 0" using p i sz by (force simp: placed_def)
      moreover have "- E \<le> SPOffset (object_at (MFI st) i)" using near i \<open>i \<in> fixed_indices fi0 \<union> CS_indices tgt\<close> by blast
      ultimately show ?thesis using \<open>\<not> E > INT_MAX\<close> by (simp add: INT_MAX_def)
    next
      case False
      then show ?thesis using p v l s by (auto simp: placed_def small_frame_def)
    qed
    from fold_mark_excludes [OF f _ _ in_list this] show ?thesis
      using g sz sz' k len False E by (simp add: grows_down_def)
  qed
  then show ?thesis using len False E by (simp add: free_ok_def)
qed

lemma fold_place_object:
  assumes g: "grows_down tgt" and s: "small_frame fi0"
    and "fold_result (place_object tgt) is (st, bv) = Inr (st', bv')"
    and "placed fi0 P st" "free_ok P st bv" "distinct is" "\<forall>i \<in> set is. 0 \<le> i \<and> i \<notin> P"
  shows "placed fi0 (P \<union> set is) st' \<and> Offset st \<le> Offset st'"
  using assms(3-7)
proof (induction "is" arbitrary: P st bv)
  case Nil
  then show ?case by simp
next
  case (Cons i "is")
  have i: "0 \<le> i" "i \<notin> P" using Cons.prems(5) by simp_all
  obtain st1 bv1 where step: "place_object tgt i (st, bv) = Inr (st1, bv1)"
      and r: "fold_result (place_object tgt) is (st1, bv1) = Inr (st', bv')"
    using Cons.prems(1) by (auto simp: bind_result_Inr_iff)
  obtain ok l bv2 where sc: "scavengeStackSlot tgt i st bv = Inr (ok, l, bv2)"
      and fin: "if ok then (st1, bv1) = (l, bv2)
                else AdjustStackOffset tgt i l = Inr st1 \<and> bv1 = bv2"
    using step by (auto simp: place_object_def bind_result_Inr_iff split: if_splits)
  have new: "placed fi0 (insert i P) st1 \<and> free_ok (insert i P) st1 bv1 \<and> Offset st \<le> Offset st1"
  proof (cases ok)
    case True
    then show ?thesis
      using scavenge_placed [OF g s Cons.prems(2) i Cons.prems(3)] sc fin by (auto simp: scavenged_def)
  next
    case False
    have "scavengeStackSlot tgt i st bv = Inr (False, l, bv2)" using sc False by simp
    from scavenge_false [OF this] have l: "l = st" "bv2 = bv \<or> bv2 = []" by simp_all
    have "0 \<le> Offset st" using Cons.prems(2) by (simp add: placed_def)
    then have "free_ok P st bv2" using l(2) Cons.prems(3) free_ok_empty by blast
    moreover have "bumped fi0 P i st st1"
      using AdjustStackOffset_bumped [OF g s Cons.prems(2) i] fin False l by simp
    ultimately show ?thesis
      using free_ok_bumped [OF _ _ Cons.prems(2) i] fin False by (auto simp: bumped_def)
  qed
  moreover have "\<forall>j \<in> set is. 0 \<le> j \<and> j \<notin> insert i P" "distinct is" using Cons.prems(4,5) by auto
  ultimately have "placed fi0 (insert i P \<union> set is) st' \<and> Offset st1 \<le> Offset st'"
    using Cons.IH [OF r, of "insert i P"] by blast
  then show ?case using new by simp
qed

section \<open>The phases together\<close>

text \<open>
  What the theorem asks of the frame and of the answers of the target: the callee-save range, the
  scavenging slots, the protector and the EH node are different valid objects that are not fixed, the
  target's ordering is a permutation, and no block of locals was laid out before.
\<close>

definition layout_hyps :: "frame_target \<Rightarrow> frame_info \<Rightarrow> bool" where
  "layout_hyps tgt fi = (grows_down tgt \<and> small_frame fi \<and> NumFixedObjects fi \<le> length (Objects fi)
     \<and> \<not> UseLocalStackAllocationBlock fi
     \<and> local_area_offset tgt < 2 ^ 31 \<and> MaxAlignment fi < 2 ^ 32
     \<and> 0 \<le> TargetStackAlignment tgt \<and> TargetStackAlignment tgt < 2 ^ 32
     \<and> 0 \<le> TransientStackAlignment tgt \<and> TransientStackAlignment tgt < 2 ^ 32
     \<and> 0 \<le> MaxCallFrameSize fi \<and> MaxCallFrameSize fi < 2 ^ 32
     \<and> 0 \<le> MinCSFrameIndex tgt \<and> (\<forall>i \<in> CS_indices tgt. live fi i)
     \<and> distinct (scavenging_indices tgt)
     \<and> (\<forall>i \<in> set (scavenging_indices tgt). 0 \<le> i \<and> i \<notin> CS_indices tgt)
     \<and> (0 \<le> StackProtectorIdx fi \<longrightarrow> StackProtectorIdx fi \<notin> CS_indices tgt
          \<and> StackProtectorIdx fi \<notin> set (scavenging_indices tgt))
     \<and> (EHRegNodeFrameIndex tgt \<noteq> INT_MAX \<longrightarrow> 0 \<le> EHRegNodeFrameIndex tgt
          \<and> EHRegNodeFrameIndex tgt \<notin> CS_indices tgt
          \<and> EHRegNodeFrameIndex tgt \<notin> set (scavenging_indices tgt)
          \<and> EHRegNodeFrameIndex tgt \<noteq> StackProtectorIdx fi)
     \<and> (\<forall>xs. distinct xs \<longrightarrow> set (orderFrameObjects tgt xs) = set xs \<and> distinct (orderFrameObjects tgt xs)))"

lemma objects_where_filter:
  "objects_where P xs = Inr ys \<Longrightarrow> ys = filter (\<lambda>i. P i = Inr True) xs"
  by (induction xs arbitrary: ys) (auto simp: bind_result_Inr_iff)

definition skipped :: "frame_target \<Rightarrow> frame_info \<Rightarrow> int \<Rightarrow> bool" where
  "skipped tgt fi i = (i \<in> CS_indices tgt \<or> i \<in> set (scavenging_indices tgt)
     \<or> Size (object_at fi i) = dead_size \<or> StackProtectorIdx fi = i \<or> EHRegNodeFrameIndex tgt = i)"

lemma skip_object_eq:
  assumes "erase_offsets fi = erase_offsets fi0" "\<not> UseLocalStackAllocationBlock fi0" "valid_index fi0 i"
  shows "skip_object tgt fi i = Inr (skipped tgt fi0 i)"
proof -
  note er = erase_offsets_eqD [OF assms(1)]
  show ?thesis
    using assms(2,3) er(1) [of i] er(2) [OF assms(3)] er(8,9)
    by (auto simp: skip_object_def isObjectPreAllocated_def isDeadObjectIndex_def get_object_def
        skipped_def CS_indices_def)
qed

lemma skip_fixed_Inr:
  assumes "skip_fixed tgt i st = Inr st'" "grows_down tgt" "0 \<le> Offset st"
    "live (MFI st) i \<Longrightarrow> \<bar>SPOffset (object_at (MFI st) i)\<bar> < 2 ^ 31"
  shows "live (MFI st) i" "st' = st\<lparr>Offset := max (Offset st) (- SPOffset (object_at (MFI st) i))\<rparr>"
proof -
  obtain o1 where o1: "getObjectOffset (MFI st) i = Inr o1"
      and st': "st' = (if i64 (- o1) > Offset st then st\<lparr>Offset := i64 (- o1)\<rparr> else st)"
    using assms(1,2) by (auto simp: skip_fixed_def grows_down_def bind_result_Inr_iff)
  have l: "live (MFI st) i" "o1 = SPOffset (object_at (MFI st) i)"
    using o1 by (auto simp: getObjectOffset_def get_object_def bind_result_Inr_iff live_def split: if_splits)
  then show "live (MFI st) i" by simp
  have "i64 (- o1) = - o1" using assms(4) l by (intro i64_id) simp_all
  then show "st' = st\<lparr>Offset := max (Offset st) (- SPOffset (object_at (MFI st) i))\<rparr>"
    using st' l by (auto simp: max_def)
qed

lemma fold_skip_fixed:
  assumes "fold_result (skip_fixed tgt) is st = Inr st'" "grows_down tgt" "small_frame (MFI st)"
    and "0 \<le> Offset st" "Offset st \<le> 2 ^ 31" "\<forall>i \<in> set is. i < 0"
  shows "\<exists>off. st' = st\<lparr>Offset := off\<rparr> \<and> Offset st \<le> off \<and> off \<le> 2 ^ 31
    \<and> (\<forall>i \<in> set is. live (MFI st) i \<and> - off \<le> SPOffset (object_at (MFI st) i))"
  using assms
proof (induction "is" arbitrary: st)
  case Nil
  then show ?case by (intro exI [of _ "Offset st"]) simp
next
  case (Cons i "is")
  obtain st1 where f: "skip_fixed tgt i st = Inr st1" and r: "fold_result (skip_fixed tgt) is st1 = Inr st'"
    using Cons.prems(1) by (auto simp: bind_result_Inr_iff)
  have sm: "live (MFI st) i \<Longrightarrow> \<bar>SPOffset (object_at (MFI st) i)\<bar> < 2 ^ 31"
    using Cons.prems(3,6) by (simp add: small_frame_def)
  note sf = skip_fixed_Inr [OF f Cons.prems(2,4) sm]
  have o1: "MFI st1 = MFI st" "Offset st1 = max (Offset st) (- SPOffset (object_at (MFI st) i))"
    using sf(2) by simp_all
  have "Offset st1 \<le> 2 ^ 31" using o1 Cons.prems(5) sm [OF sf(1)] by simp
  moreover have "0 \<le> Offset st1" using o1 Cons.prems(4) by simp
  ultimately obtain off where off: "st' = st1\<lparr>Offset := off\<rparr>" "Offset st1 \<le> off" "off \<le> 2 ^ 31"
      "\<forall>i \<in> set is. live (MFI st1) i \<and> - off \<le> SPOffset (object_at (MFI st1) i)"
    using Cons.IH [OF r] Cons.prems o1 by auto
  then show ?case using sf o1 by (intro exI [of _ off]) auto
qed

lemma fixed_placed:
  assumes h: "layout_hyps tgt fi" and l: "0 \<le> local_area_offset tgt"
    and f: "fold_result (skip_fixed tgt) [getObjectIndexBegin fi .. -1]
        \<lparr>MFI = fi, Offset = local_area_offset tgt, MaxAlign = MaxAlignment fi\<rparr> = Inr st"
  shows "placed fi (fixed_indices fi) st" "MFI st = fi" "local_area_offset tgt \<le> Offset st"
    "MaxAlign st = MaxAlignment fi"
proof -
  have hy: "grows_down tgt" "small_frame fi" "local_area_offset tgt < 2 ^ 31" "MaxAlignment fi < 2 ^ 32"
    using h by (simp_all add: layout_hyps_def)
  have "\<exists>off. st = \<lparr>MFI = fi, Offset = off, MaxAlign = MaxAlignment fi\<rparr> \<and> local_area_offset tgt \<le> off
     \<and> off \<le> 2 ^ 31 \<and> (\<forall>i \<in> set [getObjectIndexBegin fi .. -1]. live fi i \<and> - off \<le> SPOffset (object_at fi i))"
    using fold_skip_fixed [OF f] hy l by simp
  then obtain off where off: "st = \<lparr>MFI = fi, Offset = off, MaxAlign = MaxAlignment fi\<rparr>"
      "local_area_offset tgt \<le> off" "off \<le> 2 ^ 31"
      "\<forall>i \<in> fixed_indices fi. live fi i \<and> - off \<le> SPOffset (object_at fi i)"
    by (auto simp: fixed_indices_def)
  have neg: "\<not> 0 \<le> i" if "i \<in> fixed_indices fi" for i using that by (simp add: fixed_indices_def)
  show "placed fi (fixed_indices fi) st"
    unfolding placed_def off(1) using off neg hy l by auto
  show "MFI st = fi" "local_area_offset tgt \<le> Offset st" "MaxAlign st = MaxAlignment fi"
    using off by simp_all
qed

lemma grown_valid: "grown fi0 P Q st st' \<Longrightarrow> placed fi0 (P \<union> Q) st'"
  by (simp add: grown_def)

lemma place_scavenging_grown:
  assumes h: "layout_hyps tgt fi" and p: "placed fi P st" and ps: "place_scavenging tgt early st = Inr st'"
    and P: "EarlyScavengingSlots tgt = early \<Longrightarrow> set (scavenging_indices tgt) \<inter> P = {}"
  shows "grown fi P (if EarlyScavengingSlots tgt = early then set (scavenging_indices tgt) else {}) st st'"
proof (cases "ScavengingFrameIndices tgt \<noteq> None \<and> EarlyScavengingSlots tgt = early")
  case True
  have "grown fi P (set (scavenging_indices tgt)) st st'"
    by (rule fold_AdjustStackOffset_grown)
      (use h p ps True P in \<open>auto simp: layout_hyps_def place_scavenging_def\<close>)
  then show ?thesis using True by simp
next
  case False
  then have "st' = st" using ps by (auto simp: place_scavenging_def)
  moreover have "scavenging_indices tgt = []" if "EarlyScavengingSlots tgt = early"
    using False that by (simp add: scavenging_indices_def)
  ultimately show ?thesis using grown_empty [OF p] by simp
qed

lemma place_CS_grown:
  assumes h: "layout_hyps tgt fi" and p: "placed fi (fixed_indices fi) st" and c: "place_CS tgt st = Inr st'"
  shows "grown fi (fixed_indices fi) (CS_indices tgt) st st'"
proof -
  have f: "fold_result (place_CS_down tgt) [MinCSFrameIndex tgt .. MaxCSFrameIndex tgt] st = Inr st'"
    using c h by (simp add: place_CS_def layout_hyps_def grows_down_def)
  have "grown fi (fixed_indices fi) (set [MinCSFrameIndex tgt .. MaxCSFrameIndex tgt]) st st'"
    by (rule fold_place_CS_grown)
      (use f h p in \<open>auto simp: layout_hyps_def fixed_indices_def CS_indices_def\<close>)
  then show ?thesis by (simp add: CS_indices_def)
qed

text \<open>The candidates of the protector and of the main allocation.\<close>

lemma candidates_valid:
  assumes "NumFixedObjects fi \<le> length (Objects fi)" "i \<in> set [0 .. getObjectIndexEnd fi - 1]"
  shows "valid_index fi i" "0 \<le> i"
  using assms by (auto simp: getObjectIndexEnd_def valid_index_def)

lemma protected_kind_filter:
  assumes h: "layout_hyps tgt fi" and er: "erase_offsets (MFI st) = erase_offsets fi"
    and o: "objects_where (protected_kind tgt (MFI st) kind) [0 .. getObjectIndexEnd (MFI st) - 1] = Inr xs"
  shows "distinct xs" "set xs \<subseteq> {i. 0 \<le> i \<and> valid_index fi i \<and> \<not> skipped tgt fi i
     \<and> getSSPLayout tgt (Alloca (object_at fi i)) = kind}"
proof -
  note xs = objects_where_filter [OF o]
  show "distinct xs" unfolding xs by simp
  note er' = erase_offsets_eqD [OF er]
  have e: "getObjectIndexEnd (MFI st) = getObjectIndexEnd fi"
    using er'(6,7) by (simp add: getObjectIndexEnd_def)
  have hy: "NumFixedObjects fi \<le> length (Objects fi)" "\<not> UseLocalStackAllocationBlock fi"
    using h by (simp_all add: layout_hyps_def)
  show "set xs \<subseteq> {i. 0 \<le> i \<and> valid_index fi i \<and> \<not> skipped tgt fi i
     \<and> getSSPLayout tgt (Alloca (object_at fi i)) = kind}"
  proof
    fix i assume "i \<in> set xs"
    then have i: "i \<in> set [0 .. getObjectIndexEnd fi - 1]"
        and k: "protected_kind tgt (MFI st) kind i = Inr True"
      using xs e by auto
    note v = candidates_valid [OF hy(1) i]
    show "i \<in> {i. 0 \<le> i \<and> valid_index fi i \<and> \<not> skipped tgt fi i
     \<and> getSSPLayout tgt (Alloca (object_at fi i)) = kind}"
      using k v skip_object_eq [OF er hy(2) v(1)] er'(1) [of i] er'(5) [OF v(1)]
      by (auto simp: protected_kind_def getObjectAllocation_def get_object_def split: if_splits)
  qed
qed

definition protector_set :: "frame_info \<Rightarrow> int set" where
  "protector_set fi = (if 0 \<le> StackProtectorIdx fi then {StackProtectorIdx fi} else {})"

lemma place_protected_grown:
  assumes h: "layout_hyps tgt fi" and p: "placed fi P st" and pp: "place_protected tgt st = Inr (Prot, st')"
    and P: "P \<subseteq> fixed_indices fi \<union> CS_indices tgt \<union> set (scavenging_indices tgt)"
  shows "grown fi P (protector_set fi \<union> set Prot) st st' \<and> set Prot \<subseteq> {i. 0 \<le> i \<and> \<not> skipped tgt fi i}"
proof (cases "0 \<le> StackProtectorIdx fi")
  case False
  have er: "erase_offsets (MFI st) = erase_offsets fi" using p by (simp add: placed_def)
  have "Prot = []" "st' = st" using pp False erase_offsets_eqD(9) [OF er] by (simp_all add: place_protected_def)
  then show ?thesis using False grown_empty [OF p] by (simp add: protector_set_def)
next
  case True
  have er: "erase_offsets (MFI st) = erase_offsets fi" using p by (simp add: placed_def)
  have pi: "StackProtectorIdx (MFI st) = StackProtectorIdx fi" using erase_offsets_eqD(9) [OF er] .
  obtain st1 LA SA AO st2 st3 where
      a: "AdjustStackOffset tgt (StackProtectorIdx fi) st = Inr st1"
      and LA: "objects_where (protected_kind tgt (MFI st1) SSPLK_LargeArray)
          [0 .. getObjectIndexEnd (MFI st1) - 1] = Inr LA"
      and SA: "objects_where (protected_kind tgt (MFI st1) SSPLK_SmallArray)
          [0 .. getObjectIndexEnd (MFI st1) - 1] = Inr SA"
      and AO: "objects_where (protected_kind tgt (MFI st1) SSPLK_AddrOf)
          [0 .. getObjectIndexEnd (MFI st1) - 1] = Inr AO"
      and f: "fold_result (AdjustStackOffset tgt) LA st1 = Inr st2"
        "fold_result (AdjustStackOffset tgt) SA st2 = Inr st3"
        "fold_result (AdjustStackOffset tgt) AO st3 = Inr st'" "Prot = LA @ SA @ AO"
    using pp True pi
    by (auto simp: place_protected_def bind_result_Inr_iff AssignProtectedObjSet_def Let_def)
  have hy: "grows_down tgt" "small_frame fi" using h by (simp_all add: layout_hyps_def)
  have pnot: "StackProtectorIdx fi \<notin> P"
    using P h True by (auto simp: layout_hyps_def fixed_indices_def)
  have g1: "grown fi P {StackProtectorIdx fi} st st1"
    using bumped_grown [OF AdjustStackOffset_bumped [OF hy p True pnot a]] .
  then have p1: "placed fi (P \<union> {StackProtectorIdx fi}) st1" by (rule grown_valid)
  then have er1: "erase_offsets (MFI st1) = erase_offsets fi" by (simp add: placed_def)
  note LA' = protected_kind_filter [OF h er1 LA] and SA' = protected_kind_filter [OF h er1 SA]
    and AO' = protected_kind_filter [OF h er1 AO]
  have sk: "i \<notin> P \<union> {StackProtectorIdx fi}" if "0 \<le> i" "\<not> skipped tgt fi i" for i
    using that P by (auto simp: skipped_def fixed_indices_def)
  have "distinct (LA @ SA @ AO)" using LA' SA' AO' by force
  moreover have "\<forall>i \<in> set (LA @ SA @ AO). 0 \<le> i \<and> i \<notin> P \<union> {StackProtectorIdx fi}"
    using LA'(2) SA'(2) AO'(2) sk by auto
  moreover have "fold_result (AdjustStackOffset tgt) (LA @ SA @ AO) st1 = Inr st'"
    using f by (simp add: fold_result_append)
  ultimately have "grown fi (P \<union> {StackProtectorIdx fi}) (set (LA @ SA @ AO)) st1 st'"
    using fold_AdjustStackOffset_grown [OF hy] p1 by blast
  then have "grown fi P ({StackProtectorIdx fi} \<union> set Prot) st st'"
    using grown_trans [OF g1] sk LA'(2) SA'(2) AO'(2) f(4) by fastforce
  then show ?thesis using True LA'(2) SA'(2) AO'(2) f(4) by (auto simp: protector_set_def)
qed

definition EH_set :: "frame_target \<Rightarrow> int set" where
  "EH_set tgt = (if EHRegNodeFrameIndex tgt \<noteq> INT_MAX then {EHRegNodeFrameIndex tgt} else {})"

lemma place_EHRegNode_grown:
  assumes h: "layout_hyps tgt fi" and p: "placed fi P st" and e: "place_EHRegNode tgt st = Inr st'"
    and P: "EH_set tgt \<inter> P = {}"
  shows "grown fi P (EH_set tgt) st st'"
proof (cases "EHRegNodeFrameIndex tgt = INT_MAX")
  case True
  then show ?thesis using e grown_empty [OF p] by (simp add: place_EHRegNode_def EH_set_def)
next
  case False
  have hy: "grows_down tgt" "small_frame fi" "0 \<le> EHRegNodeFrameIndex tgt"
    using h False by (simp_all add: layout_hyps_def)
  have "AdjustStackOffset tgt (EHRegNodeFrameIndex tgt) st = Inr st'"
    using e False by (simp add: place_EHRegNode_def)
  from bumped_grown [OF AdjustStackOffset_bumped [OF hy(1,2) p hy(3) _ this]] show ?thesis
    using P False by (simp add: EH_set_def)
qed

lemma ObjectsToAllocate_set:
  assumes h: "layout_hyps tgt fi" and er: "erase_offsets fi' = erase_offsets fi"
    and o: "ObjectsToAllocate tgt Prot fi' = Inr objs"
  shows "distinct objs"
    "set objs = {i. 0 \<le> i \<and> valid_index fi i \<and> \<not> skipped tgt fi i \<and> i \<notin> set Prot}"
proof -
  note xs = objects_where_filter [OF o [unfolded ObjectsToAllocate_def]]
  show "distinct objs" unfolding xs by simp
  note er' = erase_offsets_eqD [OF er]
  have e: "getObjectIndexEnd fi' = getObjectIndexEnd fi" using er'(6,7) by (simp add: getObjectIndexEnd_def)
  have hy: "NumFixedObjects fi \<le> length (Objects fi)" "\<not> UseLocalStackAllocationBlock fi"
    using h by (simp_all add: layout_hyps_def)
  have sk: "skip_object tgt fi' i = Inr (skipped tgt fi i)" if "valid_index fi i" for i
    using skip_object_eq [OF er hy(2) that] .
  have r: "i \<in> set [0 .. getObjectIndexEnd fi - 1] \<longleftrightarrow> 0 \<le> i \<and> valid_index fi i" for i
    using hy(1) by (auto simp: getObjectIndexEnd_def valid_index_def)
  show "set objs = {i. 0 \<le> i \<and> valid_index fi i \<and> \<not> skipped tgt fi i \<and> i \<notin> set Prot}"
  proof (rule set_eqI)
    fix i
    have "i \<in> set objs \<longleftrightarrow> 0 \<le> i \<and> valid_index fi i
        \<and> bind_result (skip_object tgt fi' i) (\<lambda>skip. Inr (\<not> skip \<and> i \<notin> set Prot)) = Inr True"
      unfolding xs e using r [of i] by auto
    then show "i \<in> set objs \<longleftrightarrow> i \<in> {i. 0 \<le> i \<and> valid_index fi i \<and> \<not> skipped tgt fi i \<and> i \<notin> set Prot}"
      using sk [of i] by auto
  qed
qed

lemma round_stack_up:
  assumes h: "layout_hyps tgt fi" and p: "placed fi P st" and r: "round_stack tgt st = Inr st'"
  shows "MFI st' = MFI st \<and> Offset st \<le> Offset st' \<and> Offset st' < 2 ^ 62
    \<and> (\<not> targetHandlesStackFrameRounding tgt \<longrightarrow> (\<exists>sa. Offset st' mod max sa (MaxAlign st) = 0
         \<and> (sa = TargetStackAlignment tgt \<or> sa = TransientStackAlignment tgt)))"
proof (cases "targetHandlesStackFrameRounding tgt")
  case True
  have "Offset st \<le> 2 ^ 32 + 2 ^ 54" using placed_offset_bound [OF p] h by (simp add: layout_hyps_def)
  then show ?thesis using r True by (simp add: round_stack_def)
next
  case False
  let ?off = "if AdjustsStack (MFI st) \<and> hasReservedCallFrame tgt
     then i64 (Offset st + getMaxCallFrameSize (MFI st)) else Offset st"
  let ?sa = "if AdjustsStack (MFI st) \<or> HasVarSizedObjects (MFI st)
       \<or> (needsStackRealignment tgt \<and> getObjectIndexEnd (MFI st) \<noteq> 0)
     then TargetStackAlignment tgt else TransientStackAlignment tgt"
  have er: "erase_offsets (MFI st) = erase_offsets fi" using p by (simp add: placed_def)
  have b: "0 \<le> Offset st" "Offset st \<le> 2 ^ 32 + 2 ^ 54" "MaxAlign st < 2 ^ 32"
    using p placed_offset_bound [OF p] h by (simp_all add: placed_def layout_hyps_def)
  have cf: "0 \<le> getMaxCallFrameSize (MFI st)" "getMaxCallFrameSize (MFI st) < 2 ^ 32"
    using h erase_offsets_eqD(12) [OF er] by (simp_all add: getMaxCallFrameSize_def layout_hyps_def)
  have "i64 (Offset st + getMaxCallFrameSize (MFI st)) = Offset st + getMaxCallFrameSize (MFI st)"
    using b cf by (intro i64_id) simp_all
  then have o: "Offset st \<le> ?off" "?off \<le> Offset st + 2 ^ 32" using cf by auto
  have sa: "0 \<le> ?sa" "?sa < 2 ^ 32" using h by (simp_all add: layout_hyps_def)
  obtain a where a: "alignTo (u64 ?off) (max ?sa (MaxAlign st)) 0 = Inr a" and st': "st' = st\<lparr>Offset := i64 a\<rparr>"
    using r False h by (auto simp: round_stack_def Let_def bind_result_Inr_iff layout_hyps_def grows_down_def)
  have A: "0 < max ?sa (MaxAlign st)" "max ?sa (MaxAlign st) < 2 ^ 32"
    using a sa b by (auto simp: alignTo_def max_def split: if_splits)
  have "u64 ?off = ?off" using o b by (intro u64_id) simp_all
  then have a': "a = ceil_to (max ?sa (MaxAlign st)) 0 ?off"
    using a alignTo_ceil_to [of ?off "max ?sa (MaxAlign st)" 0] o b A by simp
  have c: "?off \<le> a" "a < ?off + max ?sa (MaxAlign st)"
    unfolding a' using ceil_to_bounds [OF A(1), where s = 0 and v = ?off] by auto
  have "i64 a = a" using c o b A by (intro i64_id) simp_all
  moreover have "a mod max ?sa (MaxAlign st) = 0" unfolding a' by (simp add: ceil_to_mod)
  moreover have "a < 2 ^ 62" using c(2) o(2) b A(2) by simp
  ultimately show ?thesis using st' c o(1) by (auto intro!: exI [of _ ?sa])
qed

text \<open>All the phases up to the rounding.\<close>

lemma all_placed:
  assumes h: "layout_hyps tgt fi"
    and c: "calculateFrameObjectOffsets tgt fi = Inr fi'"
  shows "\<exists>st st'. placed fi {i. live fi i} st \<and> round_stack tgt st = Inr st'
    \<and> 0 \<le> local_area_offset tgt \<and> local_area_offset tgt \<le> Offset st
    \<and> fi' = (MFI st')\<lparr>StackSize := u64 (i64 (Offset st' - local_area_offset tgt))\<rparr>"
proof -
  have hy: "grows_down tgt" "small_frame fi" "NumFixedObjects fi \<le> length (Objects fi)"
    "0 \<le> MinCSFrameIndex tgt" "\<forall>i \<in> CS_indices tgt. live fi i"
    using h by (simp_all add: layout_hyps_def)
  obtain st1 st2 st3 st4 Prot st5 objs st6 st7 st8 st9 where
    l: "0 \<le> local_area_offset tgt"
    and s1: "fold_result (skip_fixed tgt) [getObjectIndexBegin fi .. -1]
        \<lparr>MFI = fi, Offset = local_area_offset tgt, MaxAlign = MaxAlignment fi\<rparr> = Inr st1"
    and s2: "place_CS tgt st1 = Inr st2"
    and s3: "place_scavenging tgt True st2 = Inr st3"
    and s4: "place_local_block tgt st3 = Inr st4"
    and s5: "place_protected tgt st4 = Inr (Prot, st5)"
    and so: "ObjectsToAllocate tgt Prot (MFI st5) = Inr objs"
    and s6: "place_EHRegNode tgt st5 = Inr st6"
    and s7: "place_objects tgt (Offset st2) objs st6 = Inr st7"
    and s8: "place_scavenging tgt False st7 = Inr st8"
    and s9: "round_stack tgt st8 = Inr st9"
    and fi': "fi' = (MFI st9)\<lparr>StackSize := u64 (i64 (Offset st9 - local_area_offset tgt))\<rparr>"
    using c by (auto simp: calculateFrameObjectOffsets_def bind_result_Inr_iff assert_that_Inr_iff Let_def)
  let ?F = "fixed_indices fi" and ?C = "CS_indices tgt" and ?S = "set (scavenging_indices tgt)"
    and ?early = "EarlyScavengingSlots tgt"
  let ?S1 = "if ?early then ?S else {}" and ?S2 = "if ?early then {} else ?S"
  have p1: "placed fi ?F st1" "local_area_offset tgt \<le> Offset st1"
    using fixed_placed [OF h l s1] by simp_all
  have g2: "grown fi ?F ?C st1 st2" by (rule place_CS_grown [OF h p1(1) s2])
  then have p2: "placed fi (?F \<union> ?C) st2" by (rule grown_valid)
  have sdis: "?S \<inter> (?F \<union> ?C) = {}" using h by (auto simp: layout_hyps_def fixed_indices_def)
  have g3: "grown fi (?F \<union> ?C) ?S1 st2 st3"
    using place_scavenging_grown [OF h p2 s3] sdis by (simp split: if_splits)
  then have p3: "placed fi (?F \<union> ?C \<union> ?S1) st3" by (rule grown_valid)
  have er3: "erase_offsets (MFI st3) = erase_offsets fi" using p3 by (simp add: placed_def)
  have "\<not> UseLocalStackAllocationBlock (MFI st3)"
    using erase_offsets_eqD(8) [OF er3] h by (simp add: layout_hyps_def)
  then have st4: "st4 = st3" using s4 by (simp add: place_local_block_def)
  have g5: "grown fi (?F \<union> ?C \<union> ?S1) (protector_set fi \<union> set Prot) st3 st5"
    and prot: "set Prot \<subseteq> {i. 0 \<le> i \<and> \<not> skipped tgt fi i}"
    using place_protected_grown [OF h p3, of Prot st5] s5 st4 by (auto split: if_splits)
  let ?P5 = "?F \<union> ?C \<union> ?S1 \<union> (protector_set fi \<union> set Prot)"
  have p5: "placed fi ?P5 st5" by (rule grown_valid [OF g5])
  then have er5: "erase_offsets (MFI st5) = erase_offsets fi" by (simp add: placed_def)
  note objs = ObjectsToAllocate_set [OF h er5 so]
  have ehdis: "EH_set tgt \<inter> ?P5 = {}"
    using h prot by (auto simp: EH_set_def layout_hyps_def fixed_indices_def protector_set_def skipped_def)
  have g6: "grown fi ?P5 (EH_set tgt) st5 st6" by (rule place_EHRegNode_grown [OF h p5 s6 ehdis])
  let ?P6 = "?P5 \<union> EH_set tgt"
  have p6: "placed fi ?P6 st6" by (rule grown_valid [OF g6])
  have mono: "Offset st1 \<le> Offset st2" "Offset st2 \<le> Offset st3" "Offset st3 \<le> Offset st5" "Offset st5 \<le> Offset st6"
    using g2 g3 g5 g6 by (simp_all add: grown_def)
  obtain os bv bv' where os: "set os = set objs" "distinct os"
      and bv: "bv = [] \<or> computeFreeStackSlots tgt (MFI st6) (Offset st2) = Inr bv"
      and f7: "fold_result (place_object tgt) os (st6, bv) = Inr (st7, bv')"
  proof -
    let ?os = "if \<not> OptLevelNone tgt \<and> StackSymbolOrdering tgt then orderFrameObjects tgt objs else objs"
    have o: "set ?os = set objs" "distinct ?os" using h objs(1) by (auto simp: layout_hyps_def)
    show thesis
      using s7 that [OF o] by (auto simp: place_objects_def Let_def bind_result_Inr_iff split: if_splits)
  qed
  have free: "free_ok ?P6 st6 bv"
  proof (cases "bv = []")
    case True
    then show ?thesis using p6 by (simp add: free_ok_empty placed_def)
  next
    case False
    then have cf: "computeFreeStackSlots tgt (MFI st6) (Offset st2) = Inr bv" using bv by blast
    have valid: "valid_index fi i" if "i \<in> ?P6" for i using p6 that by (auto simp: placed_def live_def)
    have same: "object_at (MFI st6) i = object_at (MFI st2) i" if i: "i \<in> ?F \<union> ?C" for i
    proof -
      have n: "i \<notin> ?S1" "i \<notin> protector_set fi \<union> set Prot" "i \<notin> EH_set tgt"
        using i sdis prot h ehdis
        by (auto simp: layout_hyps_def fixed_indices_def protector_set_def skipped_def split: if_splits)
      then show ?thesis using g3 g5 g6 valid [of i] i unfolding grown_def by auto
    qed
    show ?thesis
    proof (rule computeFreeStackSlots_free_ok [OF hy(1,2) p6 cf])
      show "0 \<le> Offset st2" using p2 by (simp add: placed_def)
      show "Offset st2 \<le> Offset st6" using mono by simp
      show "\<forall>i \<in> ?C. 0 \<le> i \<and> valid_index fi i" using hy(4,5) by (auto simp: CS_indices_def live_def)
      show "0 \<le> MinCSFrameIndex tgt" by (rule hy(4))
      show "\<forall>i \<in> ?P6 \<inter> (?F \<union> ?C). - Offset st2 \<le> SPOffset (object_at (MFI st6) i)"
        using same p2 by (simp add: placed_def)
      show "\<forall>i \<in> ?P6 - (?F \<union> ?C). SPOffset (object_at (MFI st6) i) + Size (object_at fi i) \<le> - Offset st2"
      proof
        fix i assume i: "i \<in> ?P6 - (?F \<union> ?C)"
        have v: "valid_index fi i" using valid i by blast
        consider "i \<in> EH_set tgt" | "i \<notin> EH_set tgt" "i \<in> protector_set fi \<union> set Prot"
          | "i \<notin> EH_set tgt" "i \<notin> protector_set fi \<union> set Prot" "i \<in> ?S1" using i by blast
        then show "SPOffset (object_at (MFI st6) i) + Size (object_at fi i) \<le> - Offset st2"
        proof cases
          case 1 then show ?thesis using g6 mono unfolding grown_def by force
        next
          case 2
          then have "object_at (MFI st6) i = object_at (MFI st5) i" using g6 v unfolding grown_def by blast
          moreover have "SPOffset (object_at (MFI st5) i) + Size (object_at fi i) \<le> - Offset st3"
            using g5 2 unfolding grown_def by blast
          ultimately show ?thesis using mono by simp
        next
          case 3
          then have "object_at (MFI st6) i = object_at (MFI st3) i"
            using g5 g6 v unfolding grown_def by metis
          moreover have "SPOffset (object_at (MFI st3) i) + Size (object_at fi i) \<le> - Offset st2"
            using g3 3 unfolding grown_def by blast
          ultimately show ?thesis using mono by simp
        qed
      qed
    qed
  qed
  have odis: "\<forall>i \<in> set os. 0 \<le> i \<and> i \<notin> ?P6"
    using os(1) objs(2)
    by (auto simp: fixed_indices_def protector_set_def EH_set_def skipped_def split: if_splits)
  have p7: "placed fi (?P6 \<union> set os) st7" "Offset st6 \<le> Offset st7"
    using fold_place_object [OF hy(1,2) f7 p6 free os(2) odis] by simp_all
  have s2dis: "?S2 \<inter> (?P6 \<union> set os) = {}"
    using sdis prot h os(1) objs(2)
    by (auto simp: layout_hyps_def protector_set_def EH_set_def skipped_def split: if_splits)
  have g8: "grown fi (?P6 \<union> set os) ?S2 st7 st8"
    using place_scavenging_grown [OF h p7(1) s8] s2dis by (auto split: if_splits)
  have p8: "placed fi (?P6 \<union> set os \<union> ?S2) st8" by (rule grown_valid [OF g8])
  have "?P6 \<union> set os \<union> ?S2 = {i. live fi i}"
  proof
    show "?P6 \<union> set os \<union> ?S2 \<subseteq> {i. live fi i}" using p8 by (auto simp: placed_def)
    show "{i. live fi i} \<subseteq> ?P6 \<union> set os \<union> ?S2"
    proof
      fix i assume "i \<in> {i. live fi i}"
      then have i: "live fi i" "valid_index fi i" by (simp_all add: live_def)
      show "i \<in> ?P6 \<union> set os \<union> ?S2"
      proof (cases "i < 0")
        case True
        then show ?thesis using i(2) by (auto simp: fixed_indices_def valid_index_def getObjectIndexBegin_def)
      next
        case False
        show ?thesis
        proof (cases "skipped tgt fi i")
          case True
          then consider "i \<in> ?C" | "i \<in> ?S" | "StackProtectorIdx fi = i" | "EHRegNodeFrameIndex tgt = i"
            using i(1) by (auto simp: skipped_def live_def)
          then show ?thesis
          proof cases
            case 4
            have "i < 2 ^ 20" using i(2) hy(2,3) by (auto simp: valid_index_def small_frame_def)
            then show ?thesis using 4 by (simp add: EH_set_def INT_MAX_def)
          qed (use False in \<open>auto simp: protector_set_def\<close>)
        next
          case nsk: False
          then show ?thesis using \<open>\<not> i < 0\<close> i(2) os(1) objs(2) by auto
        qed
      qed
    qed
  qed
  then have "placed fi {i. live fi i} st8" using p8 by simp
  moreover have "local_area_offset tgt \<le> Offset st8"
    using p1(2) mono p7(2) g8 by (simp add: grown_def)
  ultimately show ?thesis using s9 l fi' by blast
qed

section \<open>Properties\<close>

lemma layout_sound:
  assumes "layout_hyps tgt fi" and "calculateFrameObjectOffsets tgt fi = Inr fi'"
  shows "(\<forall>i j. live fi i \<and> live fi j \<and> i \<noteq> j \<and> (0 \<le> i \<or> 0 \<le> j) \<longrightarrow>
        bytes_of (object_at fi' i) \<inter> bytes_of (object_at fi' j) = {})
    \<and> (\<forall>i. live fi i \<and> 0 \<le> i \<longrightarrow>
        SPOffset (object_at fi' i) mod Alignment (object_at fi i) = 0
        \<and> - (StackSize fi' + local_area_offset tgt) \<le> SPOffset (object_at fi' i)
        \<and> SPOffset (object_at fi' i) + Size (object_at fi i) \<le> 0)
    \<and> (\<forall>i. live fi i \<and> i < 0 \<longrightarrow> SPOffset (object_at fi' i) = SPOffset (object_at fi i))
    \<and> erase_offsets fi' = (erase_offsets fi)\<lparr>StackSize := StackSize fi'\<rparr>"
proof -
  obtain st st' where p: "placed fi {i. live fi i} st" and r: "round_stack tgt st = Inr st'"
    and l: "0 \<le> local_area_offset tgt" "local_area_offset tgt \<le> Offset st"
    and fi': "fi' = (MFI st')\<lparr>StackSize := u64 (i64 (Offset st' - local_area_offset tgt))\<rparr>"
    using all_placed [OF assms] by blast
  note rs = round_stack_up [OF assms(1) p r]
  have d: "0 \<le> Offset st' - local_area_offset tgt" "Offset st' - local_area_offset tgt < 2 ^ 62"
    using rs l by auto
  then have "i64 (Offset st' - local_area_offset tgt) = Offset st' - local_area_offset tgt"
    "u64 (Offset st' - local_area_offset tgt) = Offset st' - local_area_offset tgt"
    by (simp_all add: i64_id u64_id)
  then have ss: "StackSize fi' + local_area_offset tgt = Offset st'" unfolding fi' by simp
  have ob: "object_at fi' i = object_at (MFI st) i" for i
    unfolding fi' using rs by (simp add: object_at_def slot_of_def)
  have "erase_offsets fi' = (erase_offsets (MFI st))\<lparr>StackSize := StackSize fi'\<rparr>"
    unfolding fi' using rs by (simp add: erase_offsets_def)
  then have er: "erase_offsets fi' = (erase_offsets fi)\<lparr>StackSize := StackSize fi'\<rparr>"
    using p by (simp add: placed_def)
  show ?thesis
  proof (intro conjI allI impI)
    fix i j assume "live fi i \<and> live fi j \<and> i \<noteq> j \<and> (0 \<le> i \<or> 0 \<le> j)"
    then show "bytes_of (object_at fi' i) \<inter> bytes_of (object_at fi' j) = {}"
      using p unfolding ob placed_def by blast
  next
    fix i assume i: "live fi i \<and> 0 \<le> i"
    show "SPOffset (object_at fi' i) mod Alignment (object_at fi i) = 0"
      "SPOffset (object_at fi' i) + Size (object_at fi i) \<le> 0"
      using p i unfolding ob placed_def by auto
    have "- Offset st \<le> SPOffset (object_at (MFI st) i)" using p i unfolding placed_def by blast
    then show "- (StackSize fi' + local_area_offset tgt) \<le> SPOffset (object_at fi' i)"
      using rs unfolding ss ob by simp
  next
    fix i assume "live fi i \<and> i < 0"
    then show "SPOffset (object_at fi' i) = SPOffset (object_at fi i)"
      using p unfolding ob placed_def live_def by blast
  next
    show "erase_offsets fi' = (erase_offsets fi)\<lparr>StackSize := StackSize fi'\<rparr>" by (rule er)
  qed
qed

text \<open>
  C2. Frame layout. When \<open>calculateFrameObjectOffsets\<close> returns, for a stack that grows down and any
  answers of the target that satisfy \<open>layout_hyps\<close>: two live objects, not both fixed, share no byte,
  whether they were placed in turn or put into a hole; every object that is not fixed is aligned and
  lies between the incoming stack pointer and the end of the area the prologue allocates; the fixed
  objects keep their offsets; and nothing but the offsets and the stack size changes.
\<close>

theorem frame_layout_sound:
  assumes "layout_hyps tgt fi" and "calculateFrameObjectOffsets tgt fi = Inr fi'"
  shows "(\<forall>i j. live fi i \<and> live fi j \<and> i \<noteq> j \<and> (0 \<le> i \<or> 0 \<le> j) \<longrightarrow>
        bytes_of (object_at fi' i) \<inter> bytes_of (object_at fi' j) = {})
    \<and> (\<forall>i. live fi i \<and> 0 \<le> i \<longrightarrow>
        SPOffset (object_at fi' i) mod Alignment (object_at fi i) = 0
        \<and> - (StackSize fi' + local_area_offset tgt) \<le> SPOffset (object_at fi' i)
        \<and> SPOffset (object_at fi' i) + Size (object_at fi i) \<le> 0)
    \<and> (\<forall>i. live fi i \<and> i < 0 \<longrightarrow> SPOffset (object_at fi' i) = SPOffset (object_at fi i))
    \<and> erase_offsets fi' = (erase_offsets fi)\<lparr>StackSize := StackSize fi'\<rparr>"
  by (rule layout_sound [OF assms])

text \<open>
  A function that saves no callee-saved register and has no fixed object cannot have its holes
  computed: the bounds of the callee-save range are then \<open>UINT_MAX\<close> and \<open>0\<close>, the loop over that range
  counts with \<open>int\<close>s from \<open>-1\<close>, and index \<open>-1\<close> fails the assertion of the frame information. The pass
  reaches this call for such a function as soon as the target enables stack slot scavenging.
\<close>

theorem computeFreeStackSlots_no_callee_saves:
  assumes "MinCSFrameIndex tgt = 2 ^ 32 - 1" "MaxCSFrameIndex tgt = 0"
    and "NumFixedObjects fi = 0" "FixedCSEnd \<le> INT_MAX"
  shows "computeFreeStackSlots tgt fi FixedCSEnd = Inl AssertFailed"
proof -
  have "i32 (2 ^ 32 - 1) = -1" by (simp add: i32_def signed_take_bit_eq_take_bit_minus)
  moreover have "i32 0 = 0" by (simp add: i32_id)
  ultimately show ?thesis
    using assms
    by (simp add: computeFreeStackSlots_def getObjectIndexBegin_def upto.simps [of "-1" 0]
        mark_allocated_def getObjectOffset_def get_object_def valid_index_def)
qed

theorem computeFreeStackSlots_no_callee_saves_witness:
  "computeFreeStackSlots
     \<lparr>StackGrowsDown = True, OffsetOfLocalArea = 0, StackAlignmentSkew = 0,
      TargetStackAlignment = 4, TransientStackAlignment = 1, hasFP = False,
      hasReservedCallFrame = False, isFPCloseToIncomingSP = True, useFPForScavengingIndex = True,
      needsStackRealignment = False, targetHandlesStackFrameRounding = False,
      enableStackSlotScavenging = True, OptLevelNone = False, StackSymbolOrdering = True,
      orderFrameObjects = (\<lambda>xs. xs), ScavengingFrameIndices = None,
      getSSPLayout = (\<lambda>_. SSPLK_None), EHRegNodeFrameIndex = INT_MAX,
      MinCSFrameIndex = 2 ^ 32 - 1, MaxCSFrameIndex = 0\<rparr> sample_frame 0 = Inl AssertFailed"
  by (rule computeFreeStackSlots_no_callee_saves) (simp_all add: frame_eval INT_MAX_def)

end
