(* ===== verification/FrameEstimate.thy ===== *)
theory FrameEstimate
  imports FrameLayout
begin

text \<open>
  The frame layout on the 2003f target, and the estimate of the stack size that
  \<open>MachineFrameInfo::estimateStackSize\<close> (\<open>lib/CodeGen/MachineFrameInfo.cpp\<close>) computes before the
  layout is known.

  \<open>f2003f_target\<close> holds the answers of \<open>F2003fFrameLowering\<close> and \<open>F2003fRegisterInfo\<close>, which override
  \<open>hasFP\<close> and \<open>hasReservedCallFrame\<close> and leave the other hooks at their defaults: a stack that
  grows down, aligned to 4 bytes, no callee-saved registers, no scavenger. Any target that answers like
  that is \<open>plain_target\<close>; on it the layout always succeeds, and the estimate is exact.
\<close>

section \<open>The target\<close>

definition f2003f_target :: frame_target where
  "f2003f_target =
     \<lparr>StackGrowsDown = True, OffsetOfLocalArea = 0, StackAlignmentSkew = 0,
      TargetStackAlignment = 4, TransientStackAlignment = 1, hasFP = False,
      hasReservedCallFrame = False, isFPCloseToIncomingSP = True, useFPForScavengingIndex = True,
      needsStackRealignment = False, targetHandlesStackFrameRounding = False,
      enableStackSlotScavenging = False, OptLevelNone = False, StackSymbolOrdering = True,
      orderFrameObjects = (\<lambda>xs. xs), ScavengingFrameIndices = None,
      getSSPLayout = (\<lambda>_. SSPLK_None), EHRegNodeFrameIndex = INT_MAX,
      MinCSFrameIndex = 2 ^ 32 - 1, MaxCSFrameIndex = 0\<rparr>"

definition plain_target :: "frame_target \<Rightarrow> bool" where
  "plain_target tgt = (grows_down tgt \<and> OffsetOfLocalArea tgt = 0
     \<and> \<not> enableStackSlotScavenging tgt \<and> \<not> targetHandlesStackFrameRounding tgt
     \<and> (\<forall>xs. orderFrameObjects tgt xs = xs) \<and> ScavengingFrameIndices tgt = None
     \<and> EHRegNodeFrameIndex tgt = INT_MAX \<and> MaxCSFrameIndex tgt < MinCSFrameIndex tgt
     \<and> 0 \<le> MinCSFrameIndex tgt
     \<and> 0 < TargetStackAlignment tgt \<and> TargetStackAlignment tgt < 2 ^ 32
     \<and> 0 < TransientStackAlignment tgt \<and> TransientStackAlignment tgt < 2 ^ 32)"

lemma f2003f_plain: "plain_target f2003f_target"
  by (simp add: plain_target_def f2003f_target_def grows_down_def INT_MAX_def)

definition plain_frame :: "frame_info \<Rightarrow> bool" where
  "plain_frame fi = (small_frame fi \<and> NumFixedObjects fi \<le> length (Objects fi)
     \<and> \<not> UseLocalStackAllocationBlock fi \<and> StackProtectorIdx fi < 0
     \<and> MaxAlignment fi < 2 ^ 32 \<and> 0 \<le> MaxCallFrameSize fi \<and> MaxCallFrameSize fi < 2 ^ 32
     \<and> (\<forall>i. valid_index fi i \<and> i < 0 \<longrightarrow> live fi i))"

lemma plain_layout_hyps:
  assumes "plain_target tgt" "plain_frame fi"
  shows "layout_hyps tgt fi"
  using assms
  by (auto simp: layout_hyps_def plain_target_def plain_frame_def CS_indices_def local_area_offset_def
      scavenging_indices_def grows_down_def)

section \<open>The layout of a plain frame\<close>

text \<open>On a plain target the layout is one pass over the live objects, in the order of their indices.\<close>

definition live_objects :: "frame_info \<Rightarrow> int list" where
  "live_objects fi = filter (\<lambda>i. Size (object_at fi i) \<noteq> dead_size) [0 .. getObjectIndexEnd fi - 1]"

definition plain_start :: "frame_info \<Rightarrow> layout" where
  "plain_start fi = \<lparr>MFI = fi,
     Offset = foldl (\<lambda>o1 i. max o1 (- SPOffset (object_at fi i))) 0 [getObjectIndexBegin fi .. -1],
     MaxAlign = MaxAlignment fi\<rparr>"

lemma skip_fixed_live:
  assumes "grows_down tgt" "small_frame (MFI st)" "live (MFI st) i" "i < 0"
  shows "skip_fixed tgt i st = Inr (st\<lparr>Offset := max (Offset st) (- SPOffset (object_at (MFI st) i))\<rparr>)"
proof -
  have "\<bar>SPOffset (object_at (MFI st) i)\<bar> < 2 ^ 31" using assms by (simp add: small_frame_def)
  then have "i64 (- SPOffset (object_at (MFI st) i)) = - SPOffset (object_at (MFI st) i)"
    by (intro i64_id) simp_all
  then show ?thesis
    using assms(1,3)
    by (auto simp: skip_fixed_def grows_down_def getObjectOffset_def get_object_def live_def max_def)
qed

lemma fold_skip_fixed_live:
  assumes "grows_down tgt" "small_frame (MFI st)" "\<forall>i \<in> set is. live (MFI st) i \<and> i < 0"
  shows "fold_result (skip_fixed tgt) is st = Inr (st\<lparr>Offset :=
     foldl (\<lambda>o1 i. max o1 (- SPOffset (object_at (MFI st) i))) (Offset st) is\<rparr>)"
  using assms
proof (induction "is" arbitrary: st)
  case (Cons i "is")
  then show ?case using skip_fixed_live [of tgt st i] by simp
qed simp

lemma fixed_live:
  assumes "plain_frame fi"
  shows "\<forall>i \<in> set [getObjectIndexBegin fi .. -1]. live fi i \<and> i < 0"
  using assms by (auto simp: plain_frame_def getObjectIndexBegin_def valid_index_def)

lemma objects_where_eq:
  "(\<And>i. i \<in> set xs \<Longrightarrow> P i = Inr (Q i)) \<Longrightarrow> objects_where P xs = Inr (filter Q xs)"
  by (induction xs) auto

lemma plain_ObjectsToAllocate:
  assumes "plain_target tgt" "plain_frame fi"
  shows "ObjectsToAllocate tgt [] fi = Inr (live_objects fi)"
proof -
  have c: "valid_index fi i" "0 \<le> i" if "i \<in> set [0 .. getObjectIndexEnd fi - 1]" for i
    using candidates_valid [OF _ that] assms(2) by (simp_all add: plain_frame_def)
  have "bind_result (skip_object tgt fi i) (\<lambda>skip. Inr (\<not> skip \<and> i \<notin> set []))
      = Inr (Size (object_at fi i) \<noteq> dead_size)" if i: "i \<in> set [0 .. getObjectIndexEnd fi - 1]" for i
  proof -
    have "i < 2 ^ 20" using i assms(2) c [OF i] by (auto simp: plain_frame_def small_frame_def valid_index_def)
    then have "skipped tgt fi i \<longleftrightarrow> Size (object_at fi i) = dead_size"
      using assms c [OF i]
      by (auto simp: skipped_def plain_target_def plain_frame_def CS_indices_def scavenging_indices_def INT_MAX_def)
    then show ?thesis
      using skip_object_eq [where fi = fi and fi0 = fi and tgt = tgt and i = i] assms(2) c [OF i] by (simp add: plain_frame_def)
  qed
  then show ?thesis unfolding ObjectsToAllocate_def live_objects_def by (rule objects_where_eq)
qed

lemma place_object_no_holes:
  assumes "valid_index (MFI st) i"
  shows "place_object tgt i (st, []) = bind_result (AdjustStackOffset tgt i st) (\<lambda>l. Inr (l, []))"
  using assms
  by (auto simp: place_object_def scavengeStackSlot_def isVariableSizedObjectIndex_def get_object_def)

lemma AdjustStackOffset_erase:
  "AdjustStackOffset tgt i st = Inr st' \<Longrightarrow> erase_offsets (MFI st') = erase_offsets (MFI st)"
  by (auto simp: AdjustStackOffset_def bind_result_Inr_iff Let_def dest: setObjectOffset_erase split: if_splits)

lemma AdjustStackOffset_valid:
  assumes "AdjustStackOffset tgt i st = Inr st'"
  shows "valid_index (MFI st') j \<longleftrightarrow> valid_index (MFI st) j"
  using erase_offsets_eqD(1) [OF AdjustStackOffset_erase [OF assms]] .

lemma fold_place_object_no_holes:
  assumes "\<forall>i \<in> set is. valid_index (MFI st) i"
  shows "fold_result (place_object tgt) is (st, []) =
    bind_result (fold_result (AdjustStackOffset tgt) is st) (\<lambda>l. Inr (l, []))"
  using assms
proof (induction "is" arbitrary: st)
  case (Cons i "is")
  show ?case
  proof (cases "AdjustStackOffset tgt i st")
    case (Inl e)
    then show ?thesis using Cons.prems place_object_no_holes [of st i tgt] by simp
  next
    case (Inr st1)
    then show ?thesis
      using Cons.IH [of st1] Cons.prems place_object_no_holes [of st i tgt] AdjustStackOffset_valid [OF Inr]
      by simp
  qed
qed simp

lemma fold_AdjustStackOffset_erase:
  "fold_result (AdjustStackOffset tgt) is st = Inr st' \<Longrightarrow> erase_offsets (MFI st') = erase_offsets (MFI st)"
  by (induction "is" arbitrary: st) (auto simp: bind_result_Inr_iff dest: AdjustStackOffset_erase)

lemma plain_layout:
  assumes "plain_target tgt" "plain_frame fi"
  shows "calculateFrameObjectOffsets tgt fi =
     bind_result (fold_result (AdjustStackOffset tgt) (live_objects fi) (plain_start fi)) (\<lambda>st.
     bind_result (round_stack tgt st) (\<lambda>st. Inr ((MFI st)\<lparr>StackSize := u64 (i64 (Offset st))\<rparr>)))"
proof -
  have t: "StackGrowsDown tgt" "local_area_offset tgt = 0" "scavenging_indices tgt = []"
      "ScavengingFrameIndices tgt = None" "MaxCSFrameIndex tgt < MinCSFrameIndex tgt"
    and g: "grows_down tgt"
    using assms(1) by (auto simp: plain_target_def grows_down_def local_area_offset_def scavenging_indices_def)
  have f: "\<not> UseLocalStackAllocationBlock fi" "StackProtectorIdx fi < 0"
    using assms(2) by (simp_all add: plain_frame_def)
  have s: "fold_result (skip_fixed tgt) [getObjectIndexBegin fi .. -1]
      \<lparr>MFI = fi, Offset = 0, MaxAlign = MaxAlignment fi\<rparr> = Inr (plain_start fi)"
    using fold_skip_fixed_live [OF g, of "\<lparr>MFI = fi, Offset = 0, MaxAlign = MaxAlignment fi\<rparr>"]
      fixed_live [OF assms(2)] assms(2)
    by (simp add: plain_frame_def plain_start_def)
  have m: "MFI (plain_start fi) = fi" by (simp add: plain_start_def)
  have ps: "place_scavenging tgt b st = Inr st" for b st using t by (simp add: place_scavenging_def)
  have p1: "place_CS tgt (plain_start fi) = Inr (plain_start fi)" using t by (simp add: place_CS_def)
  have p2: "place_local_block tgt (plain_start fi) = Inr (plain_start fi)"
    using f m by (simp add: place_local_block_def)
  have p3: "place_protected tgt (plain_start fi) = Inr ([], plain_start fi)"
    using f m by (simp add: place_protected_def)
  have p4: "place_EHRegNode tgt (plain_start fi) = Inr (plain_start fi)"
    using assms(1) by (simp add: place_EHRegNode_def plain_target_def)
  have v: "\<forall>i \<in> set (live_objects fi). valid_index (MFI (plain_start fi)) i"
    using candidates_valid assms(2) m by (auto simp: live_objects_def plain_frame_def)
  have p5: "place_objects tgt E (live_objects fi) (plain_start fi) =
      fold_result (AdjustStackOffset tgt) (live_objects fi) (plain_start fi)" for E
  proof -
    have "place_objects tgt E (live_objects fi) (plain_start fi) =
        bind_result (fold_result (place_object tgt) (live_objects fi) (plain_start fi, [])) (\<lambda>(st, _). Inr st)"
      using assms(1) by (simp add: place_objects_def plain_target_def)
    also have "\<dots> = fold_result (AdjustStackOffset tgt) (live_objects fi) (plain_start fi)"
      unfolding fold_place_object_no_holes [OF v]
      by (cases "fold_result (AdjustStackOffset tgt) (live_objects fi) (plain_start fi)") simp_all
    finally show ?thesis .
  qed
  have p6: "ObjectsToAllocate tgt [] (MFI (plain_start fi)) = Inr (live_objects fi)"
    unfolding m by (rule plain_ObjectsToAllocate [OF assms])
  show ?thesis
    unfolding calculateFrameObjectOffsets_def t(2)
    by (simp add: s p1 ps p2 p3 p4 p5 p6 Let_def)
qed

section \<open>The layout always succeeds\<close>

lemma AdjustStackOffset_total:
  assumes "erase_offsets (MFI st) = erase_offsets fi" "live fi i" "0 < Alignment (object_at fi i)"
  shows "\<exists>st'. AdjustStackOffset tgt i st = Inr st'"
proof -
  note er = erase_offsets_eqD [OF assms(1)]
  have v: "valid_index fi i" "valid_index (MFI st) i" using assms(2) er(1) by (simp_all add: live_def)
  have set: "\<exists>fi'. setObjectOffset (MFI st) i off = Inr fi'" for off
    using v er(2) [OF v(1)] assms(2)
    by (simp add: setObjectOffset_def get_object_def set_object_def live_def)
  have sz: "\<exists>sz. getObjectSize fi' i = Inr sz" if "setObjectOffset (MFI st) i off = Inr fi'" for off fi'
    using v erase_offsets_eqD(1) [OF setObjectOffset_erase [OF that]]
    by (simp add: getObjectSize_def get_object_def)
  show ?thesis
  proof (cases "StackGrowsDown tgt")
    case True
    then show ?thesis
      using v er(3) [OF v(1)] assms(3) set
      by (fastforce simp: AdjustStackOffset_def getObjectSize_def getObjectAlignment_def get_object_def
          alignTo_def Let_def bind_result_Inr_iff)
  next
    case False
    let ?off = "i64 (u64 (u64 (u64 (Offset st) + Alignment (object_at fi i) - 1
        - StackAlignmentSkew tgt mod Alignment (object_at fi i)) div Alignment (object_at fi i)
        * Alignment (object_at fi i) + StackAlignmentSkew tgt mod Alignment (object_at fi i)))"
    obtain fi' sz where "setObjectOffset (MFI st) i ?off = Inr fi'" "getObjectSize fi' i = Inr sz"
      using set sz by blast
    then show ?thesis
      using v er(3) [OF v(1)] assms(3) False
      by (simp add: AdjustStackOffset_def getObjectAlignment_def get_object_def alignTo_def Let_def)
  qed
qed

lemma fold_AdjustStackOffset_total:
  assumes "erase_offsets (MFI st) = erase_offsets fi"
    "\<forall>i \<in> set is. live fi i \<and> 0 < Alignment (object_at fi i)"
  shows "\<exists>st'. fold_result (AdjustStackOffset tgt) is st = Inr st'"
  using assms
proof (induction "is" arbitrary: st)
  case (Cons i "is")
  obtain st1 where s: "AdjustStackOffset tgt i st = Inr st1"
    using AdjustStackOffset_total [OF Cons.prems(1)] Cons.prems(2) by (metis list.set_intros(1))
  then show ?case using Cons.IH [of st1] AdjustStackOffset_erase [OF s] Cons.prems by simp
qed simp

lemma live_objects_live:
  assumes "plain_frame fi" "i \<in> set (live_objects fi)"
  shows "live fi i" "0 < Alignment (object_at fi i)" "0 \<le> i"
proof -
  show "live fi i" "0 \<le> i"
    using assms candidates_valid by (auto simp: live_objects_def live_def plain_frame_def)
  then show "0 < Alignment (object_at fi i)" using assms(1) by (simp add: plain_frame_def small_frame_def)
qed

text \<open>
  C25. On a target that answers like 2003f, the layout of a plain frame returns: no assertion of the
  pass or of the frame information can fail.
\<close>

theorem plain_layout_total:
  assumes "plain_target tgt" "plain_frame fi"
  shows "\<exists>fi'. calculateFrameObjectOffsets tgt fi = Inr fi'"
proof -
  have "erase_offsets (MFI (plain_start fi)) = erase_offsets fi" by (simp add: plain_start_def)
  from fold_AdjustStackOffset_total [OF this] obtain st where
      st: "fold_result (AdjustStackOffset tgt) (live_objects fi) (plain_start fi) = Inr st"
    using live_objects_live [OF assms(2)] by blast
  have "\<exists>st'. round_stack tgt st = Inr st'"
    using assms(1) by (auto simp: round_stack_def plain_target_def alignTo_def Let_def max_def)
  then show ?thesis using plain_layout [OF assms] st by auto
qed

section \<open>The estimate of the stack size\<close>

text \<open>
  \<open>estimateStackSize\<close> computes with \<open>int\<close>s: the object sizes, the offsets and the alignments are cut to
  32 bits, and the sums with the \<open>unsigned\<close> alignment are \<open>unsigned\<close>.
\<close>

definition est_fixed :: "frame_info \<Rightarrow> int \<Rightarrow> int \<Rightarrow> int result" where
  "est_fixed fi i off = bind_result (getObjectOffset fi i) (\<lambda>o1.
     let FixedOff = i32 (- o1) in Inr (if FixedOff > off then FixedOff else off))"

definition est_object :: "frame_info \<Rightarrow> int \<Rightarrow> int \<times> int \<Rightarrow> (int \<times> int) result" where
  "est_object fi i st =
     bind_result (isDeadObjectIndex fi i) (\<lambda>dead.
     if dead then Inr st
     else bind_result (getObjectSize fi i) (\<lambda>sz.
       let off = i32 (fst st + sz) in
       bind_result (getObjectAlignment fi i) (\<lambda>Align.
         if Align = 0 then Inl Unreachable
         else Inr (i32 (u32 (u32 (u32 off + Align - 1) div Align * Align)), max Align (snd st)))))"

definition estimateStackSize :: "frame_target \<Rightarrow> frame_info \<Rightarrow> int result" where
  "estimateStackSize tgt fi =
     bind_result (fold_result (est_fixed fi) [getObjectIndexBegin fi .. -1] 0) (\<lambda>off.
     bind_result (fold_result (est_object fi) [0 .. getObjectIndexEnd fi - 1] (off, MaxAlignment fi)) (\<lambda>st.
       let off = (if AdjustsStack fi \<and> hasReservedCallFrame tgt
                  then i32 (u32 (fst st + getMaxCallFrameSize fi)) else fst st);
           sa = (if AdjustsStack fi \<or> HasVarSizedObjects fi
                     \<or> (needsStackRealignment tgt \<and> getObjectIndexEnd fi \<noteq> 0)
                 then TargetStackAlignment tgt else TransientStackAlignment tgt);
           AlignMask = u32 (max sa (snd st) - 1)
       in Inr (u32 (i32 (u32 (off + AlignMask) AND u64 (NOT AlignMask))))))"

lemma est_fixed_fold:
  assumes "small_frame fi" "\<forall>i \<in> set is. live fi i \<and> i < 0"
  shows "fold_result (est_fixed fi) is off =
    Inr (foldl (\<lambda>o1 i. max o1 (- SPOffset (object_at fi i))) off is)"
  using assms
proof (induction "is" arbitrary: off)
  case (Cons i "is")
  have "\<bar>SPOffset (object_at fi i)\<bar> < 2 ^ 31" using Cons.prems by (simp add: small_frame_def)
  then have "i32 (- SPOffset (object_at fi i)) = - SPOffset (object_at fi i)" by (intro i32_id) simp_all
  then have "est_fixed fi i off = Inr (max off (- SPOffset (object_at fi i)))"
    using Cons.prems by (auto simp: est_fixed_def getObjectOffset_def get_object_def live_def max_def Let_def)
  then show ?case using Cons.IH Cons.prems by simp
qed simp

text \<open>As long as the rounded offset stays below \<open>2 ^ 31\<close>, the 32-bit step is the exact one.\<close>

lemma est_step:
  assumes "0 \<le> off" "0 \<le> sz" "sz < 2 ^ 31" "0 < al" "al < 2 ^ 32" "ceil_to al 0 (off + sz) < 2 ^ 31"
  shows "i32 (off + sz) = off + sz"
    and "i32 (u32 (u32 (u32 (off + sz) + al - 1) div al * al)) = ceil_to al 0 (off + sz)"
proof -
  have b: "off + sz \<le> ceil_to al 0 (off + sz)" "0 \<le> ceil_to al 0 (off + sz)"
    using ceil_to_bounds(1) [OF assms(4), where s = 0 and v = "off + sz"] assms(1,2) by auto
  then show "i32 (off + sz) = off + sz" using assms by (intro i32_id) simp_all
  have u: "u32 (off + sz) = off + sz" using b assms by (intro u32_id) simp_all
  have "off + sz + al - 1 < 2 ^ 32"
  proof (cases "off + sz = 0")
    case True
    then show ?thesis using assms(5) by simp
  next
    case False
    then have "0 < ceil_to al 0 (off + sz)" using b assms(1,2) by simp
    moreover have "al dvd ceil_to al 0 (off + sz)" using ceil_to_mod [of al 0 "off + sz"] by auto
    ultimately have "al \<le> ceil_to al 0 (off + sz)" by (rule zdvd_imp_le [rotated])
    then show ?thesis using b assms by simp
  qed
  then have "u32 (off + sz + al - 1) = off + sz + al - 1" using assms by (intro u32_id) simp_all
  then have "u32 (u32 (u32 (off + sz) + al - 1) div al * al) = u32 (ceil_to al 0 (off + sz))"
    using u by (simp add: ceil_to_def)
  also have "\<dots> = ceil_to al 0 (off + sz)" using b assms by (intro u32_id) simp_all
  finally show "i32 (u32 (u32 (u32 (off + sz) + al - 1) div al * al)) = ceil_to al 0 (off + sz)"
    using b assms by (simp add: i32_id)
qed

lemma AdjustStackOffset_exact:
  assumes g: "grows_down tgt" and s: "small_frame fi" and p: "placed fi P st" and l: "live fi i"
    and a: "AdjustStackOffset tgt i st = Inr st'"
  shows "Offset st' = ceil_to (Alignment (object_at fi i)) 0 (Offset st + Size (object_at fi i))"
    "MaxAlign st' = max (MaxAlign st) (Alignment (object_at fi i))"
proof -
  have er: "erase_offsets (MFI st) = erase_offsets fi" using p by (simp add: placed_def)
  have v: "valid_index (MFI st) i" "Size (object_at (MFI st) i) \<noteq> dead_size"
    using l erase_offsets_eqD(1,2) [OF er] by (simp_all add: live_def)
  note ls = live_sizes [OF p s v]
  have o: "0 \<le> Offset st" using p by (simp add: placed_def)
  note ar = bump_arith [OF o placed_offset_bound [OF p s] ls(4-7)]
  show "Offset st' = ceil_to (Alignment (object_at fi i)) 0 (Offset st + Size (object_at fi i))"
    "MaxAlign st' = max (MaxAlign st) (Alignment (object_at fi i))"
    using a g ls(2,3) ar(1,2)
    by (auto simp: AdjustStackOffset_def grows_down_def bind_result_Inr_iff Let_def)
qed

lemma est_objects_fold:
  assumes g: "grows_down tgt" and s: "small_frame fi"
    and "fold_result (AdjustStackOffset tgt) (filter (\<lambda>i. Size (object_at fi i) \<noteq> dead_size) is) st = Inr st'"
    and "placed fi P st" "Offset st' < 2 ^ 31" "distinct is"
    and "\<forall>i \<in> set is. valid_index fi i \<and> 0 \<le> i \<and> i \<notin> P"
  shows "fold_result (est_object fi) is (Offset st, MaxAlign st) = Inr (Offset st', MaxAlign st')"
  using assms(3-7)
proof (induction "is" arbitrary: st P)
  case (Cons i "is")
  show ?case
  proof (cases "Size (object_at fi i) = dead_size")
    case True
    then have "est_object fi i (Offset st, MaxAlign st) = Inr (Offset st, MaxAlign st)"
      using Cons.prems(5) by (simp add: est_object_def isDeadObjectIndex_def get_object_def)
    then show ?thesis using Cons True by simp
  next
    case False
    then have l: "live fi i" using Cons.prems(5) by (simp add: live_def)
    obtain st1 where a: "AdjustStackOffset tgt i st = Inr st1"
        and r: "fold_result (AdjustStackOffset tgt) (filter (\<lambda>i. Size (object_at fi i) \<noteq> dead_size) is) st1 = Inr st'"
      using Cons.prems(1) False by (auto simp: bind_result_Inr_iff)
    have b: "bumped fi P i st st1"
      using AdjustStackOffset_bumped [OF g s Cons.prems(2) _ _ a] Cons.prems(5) by simp
    then have p1: "placed fi (insert i P) st1" by (simp add: bumped_def)
    note ex = AdjustStackOffset_exact [OF g s Cons.prems(2) l a]
    have "distinct (filter (\<lambda>i. Size (object_at fi i) \<noteq> dead_size) is)"
      "\<forall>j \<in> set (filter (\<lambda>i. Size (object_at fi i) \<noteq> dead_size) is). 0 \<le> j \<and> j \<notin> insert i P"
      using Cons.prems(4,5) by auto
    then have "Offset st1 \<le> Offset st'"
      using fold_AdjustStackOffset_grown [OF g s r p1] by (simp add: grown_def)
    then have "ceil_to (Alignment (object_at fi i)) 0 (Offset st + Size (object_at fi i)) < 2 ^ 31"
      using ex(1) Cons.prems(3) by simp
    moreover have "0 \<le> Offset st" using Cons.prems(2) by (simp add: placed_def)
    moreover have sm: "0 \<le> Size (object_at fi i)" "Size (object_at fi i) < 2 ^ 31"
        "0 < Alignment (object_at fi i)" "Alignment (object_at fi i) < 2 ^ 32"
      using s l by (simp_all add: small_frame_def)
    ultimately have "est_object fi i (Offset st, MaxAlign st) = Inr (Offset st1, MaxAlign st1)"
      using est_step [of "Offset st" "Size (object_at fi i)" "Alignment (object_at fi i)"] ex l False
      by (simp add: est_object_def isDeadObjectIndex_def getObjectSize_def getObjectAlignment_def
          get_object_def live_def i64_id max.commute)
    then show ?thesis using Cons.IH [OF r p1 Cons.prems(3)] Cons.prems(4,5) by auto
  qed
qed simp

definition pow2_align :: "int \<Rightarrow> bool" where
  "pow2_align a = (\<exists>k \<le> 31. a = 2 ^ k)"

lemma fold_MaxAlign_pow2:
  assumes g: "grows_down tgt" and s: "small_frame fi"
    and "fold_result (AdjustStackOffset tgt) is st = Inr st'" "placed fi P st" "distinct is"
    and "\<forall>i \<in> set is. live fi i \<and> 0 \<le> i \<and> i \<notin> P \<and> pow2_align (Alignment (object_at fi i))"
    and "MaxAlign st = 0 \<or> pow2_align (MaxAlign st)"
  shows "MaxAlign st' = 0 \<or> pow2_align (MaxAlign st')"
  using assms(3-7)
proof (induction "is" arbitrary: st P)
  case (Cons i "is")
  obtain st1 where a: "AdjustStackOffset tgt i st = Inr st1"
      and r: "fold_result (AdjustStackOffset tgt) is st1 = Inr st'"
    using Cons.prems(1) by (auto simp: bind_result_Inr_iff)
  have "bumped fi P i st st1"
    using AdjustStackOffset_bumped [OF g s Cons.prems(2) _ _ a] Cons.prems(4) by simp
  then have p1: "placed fi (insert i P) st1" by (simp add: bumped_def)
  have l: "live fi i" using Cons.prems(4) by simp
  have "MaxAlign st1 = 0 \<or> pow2_align (MaxAlign st1)"
    using AdjustStackOffset_exact(2) [OF g s Cons.prems(2) l a] Cons.prems(4,5) by (auto simp: max_def)
  then show ?case using Cons.IH [OF r p1] Cons.prems(3,4) by auto
qed simp

lemma mask_round:
  assumes "0 \<le> y" "y < 2 ^ 32"
  shows "y AND u64 (NOT (2 ^ k - 1)) = y div 2 ^ k * 2 ^ k"
proof -
  have "y AND take_bit 64 (NOT (mask k)) = push_bit k (drop_bit k y)"
  proof (rule bit_eqI)
    fix n
    have "bit y n \<Longrightarrow> n < 64"
    proof -
      have "y = take_bit 64 y" using assms by (simp add: take_bit_int_eq_self)
      then show "bit y n \<Longrightarrow> n < 64" by (metis bit_take_bit_iff)
    qed
    then show "bit (y AND take_bit 64 (NOT (mask k))) n = bit (push_bit k (drop_bit k y)) n"
      by (auto simp: bit_and_iff bit_take_bit_iff bit_not_iff bit_mask_iff bit_push_bit_iff bit_drop_bit_eq)
  qed
  then show ?thesis
    by (simp add: u64_def mask_eq_exp_minus_1 push_bit_eq_mult drop_bit_eq_div)
qed

lemma est_round:
  assumes "0 \<le> off" "off < 2 ^ 31" "k \<le> 31" "ceil_to (2 ^ k) 0 off < 2 ^ 31"
  shows "u32 (i32 (u32 (off + u32 (2 ^ k - 1)) AND u64 (NOT (u32 (2 ^ k - 1))))) = ceil_to (2 ^ k) 0 off"
proof -
  have "(2 :: int) ^ k \<le> 2 ^ 31" using assms(3) by (intro power_increasing) simp_all
  then have m: "u32 (2 ^ k - 1) = 2 ^ k - 1" by (intro u32_id) simp_all
  have le: "off + (2 ^ k - 1) < 2 ^ 32" using \<open>2 ^ k \<le> 2 ^ 31\<close> assms(2) by simp
  then have s: "u32 (off + (2 ^ k - 1)) = off + (2 ^ k - 1)" using assms(1) by (intro u32_id) simp_all
  have "0 \<le> off + (2 ^ k - 1)" using assms(1) by simp
  from mask_round [OF this le, of k]
  have "u32 (off + (2 ^ k - 1)) AND u64 (NOT (2 ^ k - 1)) = ceil_to (2 ^ k) 0 off"
    unfolding s by (simp add: ceil_to_def algebra_simps)
  moreover have "0 \<le> ceil_to (2 ^ k) 0 off"
    using ceil_to_bounds(1) [of "2 ^ k" off 0] assms(1) by simp
  ultimately show ?thesis using m assms(4) by (simp add: i32_id u32_id)
qed

text \<open>
  C24. The estimate is exact. The comment in \<open>estimateStackSize\<close> warns that it duplicates the layout
  code; on a target that answers like 2003f, for a frame whose alignments are powers of two and whose
  stack size stays below \<open>2 ^ 31\<close>, the estimate equals the stack size that the layout computes
  (provided the space for outgoing calls is not part of the frame).
\<close>

theorem estimateStackSize_exact:
  assumes "plain_target tgt" "plain_frame fi" "\<not> hasReservedCallFrame tgt"
    and "pow2_align (TargetStackAlignment tgt)" "pow2_align (TransientStackAlignment tgt)"
    and "MaxAlignment fi = 0 \<or> pow2_align (MaxAlignment fi)"
    and "\<forall>i. live fi i \<longrightarrow> pow2_align (Alignment (object_at fi i))"
    and "calculateFrameObjectOffsets tgt fi = Inr fi'" "StackSize fi' < 2 ^ 31"
  shows "estimateStackSize tgt fi = Inr (StackSize fi')"
proof -
  have h: "layout_hyps tgt fi" by (rule plain_layout_hyps [OF assms(1,2)])
  have g: "grows_down tgt" "small_frame fi" "NumFixedObjects fi \<le> length (Objects fi)"
    using assms(1,2) by (simp_all add: plain_target_def plain_frame_def)
  have lz: "local_area_offset tgt = 0"
    using assms(1) by (simp add: plain_target_def local_area_offset_def)
  have p0: "placed fi (fixed_indices fi) (plain_start fi)"
    using fixed_placed(1) [OF h, of "plain_start fi"]
      fold_skip_fixed_live [OF g(1), of "\<lparr>MFI = fi, Offset = 0, MaxAlign = MaxAlignment fi\<rparr>"]
      fixed_live [OF assms(2)] g(2) lz
    by (simp add: plain_start_def)
  obtain st st' where f: "fold_result (AdjustStackOffset tgt) (live_objects fi) (plain_start fi) = Inr st"
      and r: "round_stack tgt st = Inr st'" and fi': "fi' = (MFI st')\<lparr>StackSize := u64 (i64 (Offset st'))\<rparr>"
    using assms(8) unfolding plain_layout [OF assms(1,2)] by (auto simp: bind_result_Inr_iff)
  have lo: "\<forall>i \<in> set (live_objects fi). 0 \<le> i \<and> i \<notin> fixed_indices fi"
    by (auto simp: live_objects_def fixed_indices_def)
  have d: "distinct (live_objects fi)" by (simp add: live_objects_def)
  have p: "placed fi (fixed_indices fi \<union> set (live_objects fi)) st"
    using fold_AdjustStackOffset_grown [OF g(1,2) f p0 d lo] by (simp add: grown_def)
  note rs = round_stack_up [OF h p r]
  have o: "0 \<le> Offset st" using p by (simp add: placed_def)
  have "i64 (Offset st') = Offset st'" "u64 (Offset st') = Offset st'"
    using rs o by (simp_all add: i64_id u64_id)
  then have ss: "StackSize fi' = Offset st'" using fi' by simp
  have lt: "Offset st < 2 ^ 31" using rs ss assms(9) by simp
  have e1: "fold_result (est_fixed fi) [getObjectIndexBegin fi .. -1] 0 = Inr (Offset (plain_start fi))"
    using est_fixed_fold [OF g(2) fixed_live [OF assms(2)]] by (simp add: plain_start_def)
  have e2: "fold_result (est_object fi) [0 .. getObjectIndexEnd fi - 1]
      (Offset (plain_start fi), MaxAlign (plain_start fi)) = Inr (Offset st, MaxAlign st)"
    using est_objects_fold [OF g(1,2) f [unfolded live_objects_def] p0 lt] candidates_valid [OF g(3)]
    by (auto simp: fixed_indices_def)
  have er: "erase_offsets (MFI st) = erase_offsets fi" using p by (simp add: placed_def)
  note er' = erase_offsets_eqD [OF er]
  have e: "getObjectIndexEnd (MFI st) = getObjectIndexEnd fi" using er'(6,7) by (simp add: getObjectIndexEnd_def)
  define sa where "sa = (if AdjustsStack fi \<or> HasVarSizedObjects fi
       \<or> (needsStackRealignment tgt \<and> getObjectIndexEnd fi \<noteq> 0)
     then TargetStackAlignment tgt else TransientStackAlignment tgt)"
  have sa: "pow2_align sa" using assms(4,5) by (simp add: sa_def)
  have "\<forall>i \<in> set (live_objects fi). live fi i \<and> 0 \<le> i \<and> i \<notin> fixed_indices fi
      \<and> pow2_align (Alignment (object_at fi i))"
    using lo live_objects_live(1) [OF assms(2)] assms(7) by blast
  from fold_MaxAlign_pow2 [OF g(1,2) f p0 d this] have "MaxAlign st = 0 \<or> pow2_align (MaxAlign st)"
    using assms(6) by (simp add: plain_start_def)
  then have "pow2_align (max sa (MaxAlign st))" using sa by (auto simp: max_def pow2_align_def)
  then obtain k where k: "k \<le> 31" "max sa (MaxAlign st) = 2 ^ k" by (auto simp: pow2_align_def)
  have "alignTo (u64 (Offset st)) (2 ^ k) 0 = Inr (ceil_to (2 ^ k) 0 (Offset st))"
  proof -
    have "u64 (Offset st) = Offset st" using o lt by (intro u64_id) simp_all
    moreover have "(2 :: int) ^ k \<le> 2 ^ 31" using k(1) by (intro power_increasing) simp_all
    ultimately show ?thesis using alignTo_ceil_to [of "Offset st" "2 ^ k" 0] o lt by simp
  qed
  then have o': "Offset st' = i64 (ceil_to (2 ^ k) 0 (Offset st))"
    using r assms(1,3) k(2) er' e
    by (auto simp: round_stack_def plain_target_def grows_down_def Let_def sa_def)
  have cb: "Offset st \<le> ceil_to (2 ^ k) 0 (Offset st)" "ceil_to (2 ^ k) 0 (Offset st) < Offset st + 2 ^ k"
    by (simp_all add: ceil_to_bounds)
  have "(2 :: int) ^ k \<le> 2 ^ 31" using k(1) by (intro power_increasing) simp_all
  then have "Offset st' = ceil_to (2 ^ k) 0 (Offset st)" unfolding o' using cb o lt by (intro i64_id) simp_all
  moreover from this have "ceil_to (2 ^ k) 0 (Offset st) < 2 ^ 31" using ss assms(9) by simp
  ultimately show ?thesis
    using est_round [OF o lt k(1)] e1 e2 assms(3) k(2) ss
    by (simp add: estimateStackSize_def Let_def sa_def plain_start_def)
qed

section \<open>A concrete 2003f frame\<close>

text \<open>An incoming argument at offset 4, an 8-byte local, a dead object and a 4-byte spill slot.\<close>

definition demo_frame :: frame_info where
  "demo_frame = empty_2003f_frame\<lparr>
     Objects := [StackObject 4 4 4 True False None False, StackObject 8 8 0 False False None True,
       StackObject dead_size 4 0 False True None False, StackObject 4 4 0 False True None False],
     NumFixedObjects := 1, MaxAlignment := 8, AdjustsStack := True\<rparr>"

lemma demo_index: "valid_index demo_frame i \<longleftrightarrow> i \<in> {-1, 0, 1, 2}"
  by (auto simp: valid_index_def demo_frame_def)

lemma demo_objects:
  "object_at demo_frame (-1) = StackObject 4 4 4 True False None False"
  "object_at demo_frame 0 = StackObject 8 8 0 False False None True"
  "object_at demo_frame 1 = StackObject dead_size 4 0 False True None False"
  "object_at demo_frame 2 = StackObject 4 4 0 False True None False"
  by (simp_all add: object_at_def slot_of_def demo_frame_def)

lemma demo_live: "live demo_frame i \<longleftrightarrow> i \<in> {-1, 0, 2}"
  by (auto simp: live_def demo_index demo_objects StackObject_def dead_size_def)

lemma demo_small: "small_frame demo_frame"
  by (auto simp: small_frame_def demo_live demo_objects StackObject_def) (simp add: demo_frame_def)

lemma demo_plain: "plain_frame demo_frame"
  using demo_small
  by (auto simp: plain_frame_def demo_live demo_index)
    (simp_all add: demo_frame_def empty_2003f_frame_def new_frame_info_def)

theorem plain_layout_total_witness: "\<exists>fi'. calculateFrameObjectOffsets f2003f_target demo_frame = Inr fi'"
  by (rule plain_layout_total [OF f2003f_plain demo_plain])

definition demo_laid_out :: frame_info where
  "demo_laid_out = demo_frame\<lparr>
     Objects := [StackObject 4 4 4 True False None False, StackObject 8 8 (-8) False False None True,
       StackObject dead_size 4 0 False True None False, StackObject 4 4 (-12) False True None False],
     StackSize := 16\<rparr>"

lemma demo_layout: "calculateFrameObjectOffsets f2003f_target demo_frame = Inr demo_laid_out"
proof -
  have l: "live_objects demo_frame = [0, 2]"
    by (simp add: live_objects_def getObjectIndexEnd_def demo_frame_def object_at_def slot_of_def
        StackObject_def dead_size_def upto.simps)
  have s: "plain_start demo_frame = \<lparr>MFI = demo_frame, Offset = 0, MaxAlign = 8\<rparr>"
    by (simp add: plain_start_def getObjectIndexBegin_def demo_frame_def object_at_def slot_of_def
        StackObject_def upto.simps)
  show ?thesis
    unfolding plain_layout [OF f2003f_plain demo_plain] l s
    by (simp add: AdjustStackOffset_def f2003f_target_def demo_frame_def empty_2003f_frame_def
        new_frame_info_def getObjectSize_def getObjectAlignment_def get_object_def valid_index_def
        object_at_def slot_of_def StackObject_def setObjectOffset_def set_object_def dead_size_def
        alignTo_def Let_def i64_id u64_id round_stack_def demo_laid_out_def getObjectIndexEnd_def)
qed

theorem frame_layout_sound_witness:
  "bytes_of (object_at demo_laid_out 0) \<inter> bytes_of (object_at demo_laid_out 2) = {}
   \<and> SPOffset (object_at demo_laid_out 0) mod 8 = 0
   \<and> SPOffset (object_at demo_laid_out (-1)) = SPOffset (object_at demo_frame (-1))"
proof -
  note sound = frame_layout_sound [OF plain_layout_hyps [OF f2003f_plain demo_plain] demo_layout]
  have "live demo_frame 0" "live demo_frame 2" "live demo_frame (-1)" by (simp_all add: demo_live)
  moreover have "Alignment (object_at demo_frame 0) = 8" by (simp add: demo_objects)
  ultimately show ?thesis using sound by (metis order_refl zero_neq_numeral neg_less_0_iff_less zero_less_one)
qed

theorem estimateStackSize_exact_witness: "estimateStackSize f2003f_target demo_frame = Inr 16"
proof -
  have p: "pow2_align 1" "pow2_align 4" "pow2_align 8"
    unfolding pow2_align_def by (rule exI [of _ 0], simp, rule exI [of _ 2], simp, rule exI [of _ 3], simp)
  have "\<forall>i. live demo_frame i \<longrightarrow> pow2_align (Alignment (object_at demo_frame i))"
    using p by (auto simp: demo_live demo_objects)
  moreover have "MaxAlignment demo_frame = 0 \<or> pow2_align (MaxAlignment demo_frame)"
    using p by (simp add: demo_frame_def)
  moreover have "\<not> hasReservedCallFrame f2003f_target" "pow2_align (TargetStackAlignment f2003f_target)"
    "pow2_align (TransientStackAlignment f2003f_target)"
    using p by (simp_all add: f2003f_target_def)
  moreover have "StackSize demo_laid_out = 16" by (simp add: demo_laid_out_def)
  ultimately show ?thesis
    using estimateStackSize_exact [OF f2003f_plain demo_plain _ _ _ _ _ demo_layout] by simp
qed

end
