(* ===== verification/PrologEpilog.thy ===== *)
theory PrologEpilog
  imports FrameEstimate BranchAnalysis
begin

text \<open>
  The code that the prologue and epilogue insertion adds to a function, and the resolution of frame
  indices: \<open>lib/CodeGen/PrologEpilogInserter.cpp\<close> around the layout of \<open>FrameLayout\<close>, with the hooks of
  \<open>lib/Target/F2003f/F2003fFrameLowering.cpp\<close> and \<open>F2003fRegisterInfo.cpp\<close>, and the parts of
  \<open>TargetInstrInfo\<close> and \<open>TargetFrameLowering\<close> they use.

  A machine function is the list of its blocks, a block is the list of its instructions. This theory holds
  the steps on one block; \<open>ReplaceIndices\<close> visits the blocks of a function, \<open>CalleeSaves\<close> has the rest of the
  callee-saved registers and \<open>PEIPass\<close> the pass that runs the steps. The register scavenger is not modelled.

  The meaning of a frame index in a block before the resolution is an address: the incoming stack
  pointer plus the offset of the object. The theorems say that the resolved block computes those
  addresses from \<open>F5\<close>, inside call sequences too, and that prologue and epilogue cancel.
\<close>

section \<open>Call frame pseudo instructions\<close>

definition isFrameInstr :: "minstr \<Rightarrow> bool" where
  "isFrameInstr mi = (opc mi = ADJCALLSTACKDOWN \<or> opc mi = ADJCALLSTACKUP)"

definition isFrameSetup :: "minstr \<Rightarrow> bool" where
  "isFrameSetup mi = (opc mi = ADJCALLSTACKDOWN)"

definition getFrameSize :: "minstr \<Rightarrow> int result" where
  "getFrameSize mi =
     (if \<not> isFrameInstr mi then Inl AssertFailed
      else bind_result (bind_result (get_operand mi 0) operand_imm) (\<lambda>n.
        if n < 0 then Inl AssertFailed else Inr n))"

definition alignSPAdjust :: "frame_target \<Rightarrow> int \<Rightarrow> int result" where
  "alignSPAdjust tgt SPAdj =
     (if SPAdj < 0
      then bind_result (alignTo (u64 (i32 (- SPAdj))) (TargetStackAlignment tgt) 0) (\<lambda>a. Inr (i32 (- a)))
      else bind_result (alignTo SPAdj (TargetStackAlignment tgt) 0) (\<lambda>a. Inr (i32 a)))"

definition getSPAdjust :: "frame_target \<Rightarrow> minstr \<Rightarrow> int result" where
  "getSPAdjust tgt mi =
     (if \<not> isFrameInstr mi then Inr 0
      else bind_result (getFrameSize mi) (\<lambda>n. bind_result (alignSPAdjust tgt (i32 n)) (\<lambda>SPAdj.
        if (\<not> StackGrowsDown tgt \<and> opc mi = ADJCALLSTACKDOWN)
           \<or> (StackGrowsDown tgt \<and> opc mi = ADJCALLSTACKUP)
        then Inr (i32 (- SPAdj)) else Inr SPAdj)))"

text \<open>\<open>eliminateCallFramePseudoInstr\<close>: the instructions that replace the pseudo.\<close>

definition eliminateCallFramePseudoInstr :: "minstr \<Rightarrow> minstr list result" where
  "eliminateCallFramePseudoInstr Old =
     bind_result (getFrameSize Old) (\<lambda>n.
       let Amount = u32 n in
       if Amount \<noteq> 0 then
         if opc Old = ADJCALLSTACKDOWN then
           Inr [mk_instr NTAri [def_reg F5, use_reg F5, MO_Immediate Amount]]
         else if opc Old = ADJCALLSTACKUP then
           Inr [mk_instr ATAri [def_reg F5, use_reg F5, MO_Immediate Amount]]
         else Inl AssertFailed
       else Inr [])"

section \<open>Call frame information\<close>

definition asm_align_stack :: "minstr \<Rightarrow> bool result" where
  "asm_align_stack mi =
     bind_result (bind_result (get_operand mi 1) operand_imm) (\<lambda>ExtraInfo. Inr (u32 ExtraInfo AND 2 \<noteq> 0))"

definition scan_call_frame :: "minstr \<Rightarrow> int \<times> bool \<Rightarrow> (int \<times> bool) result" where
  "scan_call_frame mi st =
     (if isFrameInstr mi
      then bind_result (getFrameSize mi) (\<lambda>n.
        let Size = u32 n in Inr (if Size > fst st then Size else fst st, True))
      else if opc mi = INLINEASM
      then bind_result (asm_align_stack mi) (\<lambda>a. Inr (fst st, snd st \<or> a))
      else Inr st)"

fun eliminate_in_block :: "minstr list \<Rightarrow> minstr list result" where
  "eliminate_in_block [] = Inr []"
| "eliminate_in_block (mi # mis) =
     (if isFrameInstr mi
      then bind_result (eliminateCallFramePseudoInstr mi) (\<lambda>xs.
        bind_result (eliminate_in_block mis) (\<lambda>ys. Inr (xs @ ys)))
      else bind_result (eliminate_in_block mis) (\<lambda>ys. Inr (mi # ys)))"

fun map_blocks :: "(minstr list \<Rightarrow> minstr list result) \<Rightarrow> minstr list list \<Rightarrow> minstr list list result" where
  "map_blocks f [] = Inr []"
| "map_blocks f (b # bs) = bind_result (f b) (\<lambda>b. bind_result (map_blocks f bs) (\<lambda>bs. Inr (b # bs)))"

definition canSimplifyCallFramePseudos :: "frame_target \<Rightarrow> bool" where
  "canSimplifyCallFramePseudos tgt = (hasReservedCallFrame tgt \<or> hasFP tgt)"

definition calculateCallFrameInfo :: "frame_target \<Rightarrow> frame_info \<Rightarrow> minstr list list
    \<Rightarrow> (frame_info \<times> minstr list list) result" where
  "calculateCallFrameInfo tgt fi Fn =
     bind_result (fold_result scan_call_frame (concat Fn) (0, AdjustsStack fi)) (\<lambda>st.
       if \<not> (\<not> isMaxCallFrameSizeComputed fi
              \<or> (getMaxCallFrameSize fi = fst st \<and> AdjustsStack fi = snd st))
       then Inl AssertFailed
       else
         let fi = fi\<lparr>AdjustsStack := snd st, MaxCallFrameSize := fst st\<rparr> in
         if canSimplifyCallFramePseudos tgt
         then bind_result (map_blocks eliminate_in_block Fn) (\<lambda>Fn. Inr (fi, Fn))
         else Inr (fi, Fn))"

text \<open>\<open>MachineFrameInfo::computeMaxCallFrameSize\<close> computes the two fields ahead of the pass.\<close>

definition computeMaxCallFrameSize :: "frame_info \<Rightarrow> minstr list list \<Rightarrow> frame_info result" where
  "computeMaxCallFrameSize fi Fn =
     bind_result (fold_result scan_call_frame (concat Fn) (0, AdjustsStack fi)) (\<lambda>st.
       Inr (fi\<lparr>MaxCallFrameSize := fst st, AdjustsStack := snd st\<rparr>))"

section \<open>Save and restore blocks\<close>

definition isReturnBlock :: "minstr list \<Rightarrow> bool" where
  "isReturnBlock MBB = (MBB \<noteq> [] \<and> isReturn (opc (last MBB)))"

text \<open>
  \<open>Save\<close> and \<open>Restore\<close> are the blocks that shrink-wrapping found, \<open>succ_empty\<close> and \<open>EHFuncletEntry\<close>
  properties of the control flow graph; a block is its position in the function.
\<close>

definition calculateSaveRestoreBlocks :: "minstr list list \<Rightarrow> (nat \<Rightarrow> bool) \<Rightarrow> (nat \<Rightarrow> bool)
    \<Rightarrow> nat option \<Rightarrow> nat option \<Rightarrow> (nat list \<times> nat list) result" where
  "calculateSaveRestoreBlocks Fn succ_empty EHFuncletEntry Save Restore =
     (case Save of
        Some s \<Rightarrow> (case Restore of
            None \<Rightarrow> Inl AssertFailed
          | Some r \<Rightarrow> Inr ([s], if \<not> succ_empty r \<or> isReturnBlock (Fn ! r) then [r] else []))
      | None \<Rightarrow> Inr (0 # filter EHFuncletEntry [0 ..< length Fn],
                     filter (\<lambda>b. isReturnBlock (Fn ! b)) [0 ..< length Fn]))"

section \<open>Saving and restoring registers\<close>

text \<open>A callee-saved register with its frame index. The hooks of the target decline, the default.\<close>

definition spill_code :: "(reg \<times> int) list \<Rightarrow> minstr list" where
  "spill_code CSI = map (\<lambda>(r, i). storeRegToStackSlot r True i) CSI"

definition insert_spills :: "(reg \<times> int) list \<Rightarrow> minstr list \<Rightarrow> minstr list" where
  "insert_spills CSI MBB = spill_code CSI @ MBB"

text \<open>The iterator that skips the terminators: what is before it, nearest first, and what follows.\<close>

fun skip_terminators :: "minstr list \<Rightarrow> minstr list \<Rightarrow> minstr list \<times> minstr list" where
  "skip_terminators [] suf = ([], suf)"
| "skip_terminators (I2 # pre) suf =
     (if isTerminator (opc I2) then skip_terminators pre (I2 # suf) else (I2 # pre, suf))"

text \<open>Each reload is inserted in front of the one inserted before it.\<close>

definition insert_restores :: "(reg \<times> int) list \<Rightarrow> minstr list \<Rightarrow> minstr list" where
  "insert_restores CSI MBB =
     (case skip_terminators (rev MBB) [] of (pre, suf) \<Rightarrow>
        rev pre @ foldl (\<lambda>code (r, i). loadRegFromStackSlot r i # code) [] CSI @ suf)"

section \<open>Prologue and epilogue\<close>

definition emitPrologue :: "frame_info \<Rightarrow> nat \<Rightarrow> minstr list \<Rightarrow> minstr list result" where
  "emitPrologue fi block MBB =
     (if block \<noteq> 0 then Inl AssertFailed
      else Inr (if StackSize fi \<noteq> 0
        then mk_instr NTAri [def_reg F5, use_reg F5, MO_Immediate (i64 (StackSize fi))] # MBB
        else MBB))"

text \<open>\<open>getLastNonDebugInstr\<close>: what is before it, nearest first, and what it starts.\<close>

fun last_non_debug :: "minstr list \<Rightarrow> minstr list \<Rightarrow> (minstr list \<times> minstr list) option" where
  "last_non_debug [] suf = None"
| "last_non_debug (I # pre) suf =
     (if opc I = DBG_VALUE \<or> inside_bundle I then last_non_debug pre (I # suf) else Some (pre, I # suf))"

text \<open>The debug location is read from the iterator: there is none in a block of debug values only.\<close>

definition emitEpilogue :: "frame_info \<Rightarrow> minstr list \<Rightarrow> minstr list result" where
  "emitEpilogue fi MBB =
     (case last_non_debug (rev MBB) [] of
        None \<Rightarrow> Inl Unreachable
      | Some (pre, suf) \<Rightarrow> Inr (if StackSize fi \<noteq> 0
          then rev pre @ mk_instr ATAri [def_reg F5, use_reg F5, MO_Immediate (i64 (StackSize fi))] # suf
          else MBB))"

definition update_block :: "(nat \<Rightarrow> minstr list \<Rightarrow> minstr list result) \<Rightarrow> nat \<Rightarrow> minstr list list
    \<Rightarrow> minstr list list result" where
  "update_block f b Fn =
     (if b < length Fn then bind_result (f b (Fn ! b)) (\<lambda>MBB. Inr (Fn[b := MBB])) else Inl Unreachable)"

text \<open>The hooks for stack probes, segmented stacks and HiPE do nothing on this target.\<close>

definition insertPrologEpilogCode :: "frame_info \<Rightarrow> nat list \<Rightarrow> nat list \<Rightarrow> minstr list list
    \<Rightarrow> minstr list list result" where
  "insertPrologEpilogCode fi SaveBlocks RestoreBlocks Fn =
     bind_result (fold_result (update_block (emitPrologue fi)) SaveBlocks Fn) (\<lambda>Fn.
       fold_result (update_block (\<lambda>_. emitEpilogue fi)) RestoreBlocks Fn)"

section \<open>Frame indices\<close>

definition getFrameIndexReference :: "frame_target \<Rightarrow> frame_info \<Rightarrow> int \<Rightarrow> int result" where
  "getFrameIndexReference tgt fi idx =
     bind_result (getObjectOffset fi idx) (\<lambda>o1. 
       Inr (i32 (o1 + StackSize fi - OffsetOfLocalArea tgt + OffsetAdjustment fi)))"

definition needsFrameIndexResolution :: "frame_target \<Rightarrow> frame_info \<Rightarrow> bool" where
  "needsFrameIndexResolution tgt fi = (Objects fi \<noteq> [] \<or> \<not> canSimplifyCallFramePseudos tgt)"

definition remove_nth :: "nat \<Rightarrow> 'a list \<Rightarrow> 'a list" where
  "remove_nth k xs = take k xs @ drop (Suc k) xs"

text \<open>The instructions that take the place of \<open>MI\<close>.\<close>

definition eliminateFrameIndex :: "frame_info \<Rightarrow> minstr \<Rightarrow> int \<Rightarrow> nat \<Rightarrow> minstr list result" where
  "eliminateFrameIndex fi MI SPAdj k =
     bind_result (bind_result (get_operand MI k) operand_index) (\<lambda>FrameIndex.
     bind_result (getObjectOffset fi FrameIndex) (\<lambda>o1.
       let Offset = i32 (i32 (i32 o1 + StackSize fi) + SPAdj) in
       if opc MI = ATAframe then
         bind_result (bind_result (get_operand MI (k + 1)) operand_imm) (\<lambda>n.
           let Offset = i32 (Offset + n);
               MI' = MI\<lparr>opc := KRZrr, operands := remove_nth (k + 1) ((operands MI)[k := use_reg F5])\<rparr> in
           if Offset = 0 then Inr [MI']
           else bind_result (bind_result (get_operand MI' 0) operand_reg) (\<lambda>DstReg.
             Inr [MI', mk_instr ATAri [def_reg DstReg, use_reg DstReg, MO_Immediate Offset]]))
       else
         bind_result (get_operand MI (k + 2)) (\<lambda>x.
         bind_result (if operand_is_imm x
                      then bind_result (operand_imm x) (\<lambda>n. Inr (i32 (Offset + i32 n)))
                      else Inr Offset) (\<lambda>Offset.
           Inr [MI\<lparr>operands := (operands MI)[k := use_reg F5, k + 2 := MO_Immediate Offset]\<rparr>]))))"

fun first_FI :: "machine_operand list \<Rightarrow> nat option" where
  "first_FI [] = None"
| "first_FI (x # xs) = (if operand_is_FI x then Some 0 else map_option Suc (first_FI xs))"

definition count_FI :: "minstr \<Rightarrow> nat" where
  "count_FI mi = length (filter operand_is_FI (operands mi))"

text \<open>Debug values and statepoints keep the index and the offset in two consecutive operands.\<close>

definition resolve_reference :: "frame_target \<Rightarrow> frame_info \<Rightarrow> nat \<Rightarrow> minstr \<Rightarrow> minstr result" where
  "resolve_reference tgt fi k mi =
     bind_result (bind_result (get_operand mi (k + 1)) operand_imm) (\<lambda>n.
     bind_result (bind_result (get_operand mi k) operand_index) (\<lambda>idx.
     bind_result (getFrameIndexReference tgt fi idx) (\<lambda>off.
       Inr (mi\<lparr>operands := (operands mi)[k + 1 := MO_Immediate (i64 (n + off)), k := use_reg F5]\<rparr>))))"

definition resolve_debug :: "frame_target \<Rightarrow> frame_info \<Rightarrow> minstr \<Rightarrow> minstr result" where
  "resolve_debug tgt fi mi =
     fold_result (\<lambda>k mi. if k < length (operands mi) \<and> operand_is_FI (operands mi ! k)
         then if k \<noteq> 0 then Inl AssertFailed else resolve_reference tgt fi k mi
         else Inr mi) [0 ..< length (operands mi)] mi"

definition resolve_statepoint :: "frame_target \<Rightarrow> frame_info \<Rightarrow> minstr \<Rightarrow> minstr result" where
  "resolve_statepoint tgt fi mi =
     fold_result (\<lambda>k mi. if k < length (operands mi) \<and> operand_is_FI (operands mi ! k)
         then resolve_reference tgt fi k mi else Inr mi) [0 ..< length (operands mi)] mi"

text \<open>
  The loop over a block. After \<open>eliminateFrameIndex\<close> the iterator is set back, so that the instruction
  is looked at again, with what was inserted after it; an instruction whose frame indices are gone is
  left behind. Each elimination removes one frame index at least.
\<close>

definition total_FI :: "minstr list \<Rightarrow> nat" where
  "total_FI mis = sum_list (map count_FI mis)"

lemma total_FI_simps [simp]:
  "total_FI [] = 0" "total_FI (mi # mis) = count_FI mi + total_FI mis"
  "total_FI (xs @ ys) = total_FI xs + total_FI ys"
  by (simp_all add: total_FI_def)

lemma count_FI_update:
  assumes "k < length ops" "operand_is_FI (ops ! k)" "\<not> operand_is_FI x"
  shows "length (filter operand_is_FI (ops[k := x])) < length (filter operand_is_FI ops)"
proof -
  have "ops = take k ops @ ops ! k # drop (Suc k) ops" using assms(1) by (rule id_take_nth_drop)
  then have "length (filter operand_is_FI ops) =
      length (filter operand_is_FI (take k ops)) + Suc (length (filter operand_is_FI (drop (Suc k) ops)))"
    using assms(2) by (metis filter.simps(2) filter_append length_Cons length_append)
  then show ?thesis using assms(1,3) by (simp add: upd_conv_take_nth_drop)
qed

lemma count_FI_update_le:
  assumes "\<not> operand_is_FI x"
  shows "length (filter operand_is_FI (ops[k := x])) \<le> length (filter operand_is_FI ops)"
proof (cases "k < length ops \<and> operand_is_FI (ops ! k)")
  case True
  then show ?thesis using count_FI_update [of k ops x] assms by simp
next
  case False
  then show ?thesis
  proof (cases "k < length ops")
    case True
    then have "ops = take k ops @ ops ! k # drop (Suc k) ops" by (rule id_take_nth_drop)
    then have "length (filter operand_is_FI ops) =
        length (filter operand_is_FI (take k ops)) + length (filter operand_is_FI (drop (Suc k) ops))"
      using False True by (metis filter.simps(2) filter_append length_append)
    then show ?thesis using True assms by (simp add: upd_conv_take_nth_drop)
  next
    case False
    then show ?thesis by (simp add: list_update_beyond)
  qed
qed

lemma count_FI_remove_nth: "length (filter operand_is_FI (remove_nth k ops)) \<le> length (filter operand_is_FI ops)"
proof -
  have "length (filter operand_is_FI ops) =
      length (filter operand_is_FI (take k ops)) + length (filter operand_is_FI (drop k ops))"
    by (metis append_take_drop_id filter_append length_append)
  moreover have "length (filter operand_is_FI (drop (Suc k) ops)) \<le> length (filter operand_is_FI (drop k ops))"
    by (cases "drop k ops") (auto simp: drop_Suc tl_drop [symmetric])
  ultimately show ?thesis by (simp add: remove_nth_def)
qed

lemma operand_index_FI: "operand_index x = Inr i \<Longrightarrow> operand_is_FI x"
  by (cases x) simp_all

lemma get_operand_Inr_iff: "get_operand mi k = Inr x \<longleftrightarrow> k < length (operands mi) \<and> x = operands mi ! k"
  by (auto simp: get_operand_def)

lemma eliminateFrameIndex_total_FI:
  assumes "eliminateFrameIndex fi mi SPAdj k = Inr xs"
  shows "total_FI xs < count_FI mi"
proof -
  have k: "k < length (operands mi)" "operand_is_FI (operands mi ! k)"
    using assms by (auto simp: eliminateFrameIndex_def bind_result_Inr_iff get_operand_Inr_iff dest: operand_index_FI)
  have lt: "length (filter operand_is_FI ((operands mi)[k := use_reg F5])) < count_FI mi"
    using count_FI_update [OF k] by (simp add: count_FI_def)
  then have "length (filter operand_is_FI ((operands mi)[k := use_reg F5, j := MO_Immediate n])) < count_FI mi" for j n
    using count_FI_update_le le_less_trans by (metis operand_is_FI.simps(3))
  moreover have "length (filter operand_is_FI (remove_nth j ((operands mi)[k := use_reg F5]))) < count_FI mi" for j
    using count_FI_remove_nth lt le_less_trans by metis
  ultimately show ?thesis
    using assms
    by (auto simp: eliminateFrameIndex_def bind_result_Inr_iff Let_def count_FI_def split: if_splits)
qed

lemma first_FI_Some: "first_FI ops = Some k \<Longrightarrow> k < length ops \<and> operand_is_FI (ops ! k)"
  by (induction ops arbitrary: k) (auto split: if_splits)

lemma first_FI_None: "first_FI ops = None \<longleftrightarrow> (\<forall>x \<in> set ops. \<not> operand_is_FI x)"
  by (induction ops) auto

function replace_loop :: "frame_target \<Rightarrow> frame_info \<Rightarrow> bool \<Rightarrow> int \<Rightarrow> minstr list
    \<Rightarrow> (minstr list \<times> int) result" where
  "replace_loop tgt fi InsideCallSequence SPAdj [] = Inr ([], SPAdj)"
| "replace_loop tgt fi InsideCallSequence SPAdj (I # rest) =
     (if isFrameInstr I then
        bind_result (getSPAdjust tgt I) (\<lambda>adj.
        bind_result (eliminateCallFramePseudoInstr I) (\<lambda>xs.
        bind_result (replace_loop tgt fi (isFrameSetup I) (i32 (SPAdj + adj)) rest) (\<lambda>(ys, sp).
          Inr (xs @ ys, sp))))
      else if first_FI (operands I) \<noteq> None \<and> opc I \<noteq> DBG_VALUE \<and> opc I \<noteq> STATEPOINT then
        bind_result (eliminateFrameIndex fi I SPAdj (the (first_FI (operands I)))) (\<lambda>xs.
          replace_loop tgt fi InsideCallSequence SPAdj (xs @ rest))
      else
        bind_result (if opc I = DBG_VALUE then resolve_debug tgt fi I
                     else if opc I = STATEPOINT then resolve_statepoint tgt fi I else Inr I) (\<lambda>I'.
        bind_result (if InsideCallSequence then getSPAdjust tgt I' else Inr 0) (\<lambda>adj.
        bind_result (replace_loop tgt fi InsideCallSequence (i32 (SPAdj + adj)) rest) (\<lambda>(ys, sp).
          Inr (I' # ys, sp)))))"
  by pat_completeness auto
termination
  by (relation "measures [\<lambda>(tgt, fi, b, sp, mis). total_FI mis, \<lambda>(tgt, fi, b, sp, mis). length mis]")
    (auto dest: eliminateFrameIndex_total_FI)

definition replaceFrameIndices :: "frame_target \<Rightarrow> frame_info \<Rightarrow> int \<Rightarrow> minstr list
    \<Rightarrow> (minstr list \<times> int) result" where
  "replaceFrameIndices tgt fi SPAdj BB = replace_loop tgt fi False SPAdj BB"

section \<open>Resolved operands denote the same addresses\<close>

text \<open>
  The shape of an instruction before the resolution: a frame index is the base of a memory operand
  whose displacement is an immediate.
\<close>

fun fi_shape :: "operand_kind list \<Rightarrow> machine_operand list \<Rightarrow> bool" where
  "fi_shape [] ops = (\<forall>x \<in> set ops. \<not> operand_is_FI x)"
| "fi_shape (k # ks) ops =
     (if k = OMem
      then (case ops of b # d # i # ops' \<Rightarrow> \<not> operand_is_FI d \<and> \<not> operand_is_FI i
              \<and> (operand_is_FI b \<longrightarrow> operand_imm i \<noteq> Inl AssertFailed) \<and> fi_shape ks ops'
            | _ \<Rightarrow> False)
      else (case ops of x # ops' \<Rightarrow> \<not> operand_is_FI x \<and> fi_shape ks ops' | [] \<Rightarrow> False))"

lemma fi_shape_Mem:
  "fi_shape (OMem # ks) ops \<longleftrightarrow> (\<exists>b d i ops'. ops = b # d # i # ops' \<and> \<not> operand_is_FI d
     \<and> \<not> operand_is_FI i \<and> (operand_is_FI b \<longrightarrow> (\<exists>n. i = MO_Immediate n)) \<and> fi_shape ks ops')"
proof -
  have "operand_imm i \<noteq> Inl AssertFailed \<longleftrightarrow> (\<exists>n. i = MO_Immediate n)" for i by (cases i) simp_all
  then show ?thesis by (auto split: list.splits)
qed

lemma fi_shape_other:
  "k \<noteq> OMem \<Longrightarrow> fi_shape (k # ks) ops \<longleftrightarrow>
     (\<exists>x ops'. ops = x # ops' \<and> \<not> operand_is_FI x \<and> fi_shape ks ops')"
  by (cases ops) auto

declare fi_shape.simps(2) [simp del]

lemma kind_width_other: "k \<noteq> OMem \<Longrightarrow> kind_width k = 1"
  by (cases k) simp_all

definition group_eq :: "env \<Rightarrow> mstate \<Rightarrow> operand_kind \<Rightarrow> machine_operand list \<Rightarrow> machine_operand list \<Rightarrow> bool" where
  "group_eq e s k g g' = (if k = OMem then addr_val e s g = addr_val e s g' else g = g')"

fun groups_eq :: "env \<Rightarrow> mstate \<Rightarrow> operand_kind list \<Rightarrow> machine_operand list list
    \<Rightarrow> machine_operand list list \<Rightarrow> bool" where
  "groups_eq e s [] [] [] = True"
| "groups_eq e s (k # ks) (g # gs) (g' # gs') = (group_eq e s k g g' \<and> groups_eq e s ks gs gs')"
| "groups_eq e s _ _ _ = False"

lemma groups_eq_refl: "length gs = length ks \<Longrightarrow> groups_eq e s ks gs gs"
  by (induction ks arbitrary: gs) (auto simp: length_Suc_conv group_eq_def)

lemma group_ops_length: "group_ops ks ops = Some gs \<Longrightarrow> length gs = length ks"
  by (induction ks arbitrary: ops gs) (auto split: if_splits)

text \<open>One elimination, at the first frame index.\<close>

definition resolved_at :: "machine_operand list \<Rightarrow> nat \<Rightarrow> int \<Rightarrow> machine_operand list" where
  "resolved_at ops k off = ops[k := use_reg F5, k + 2 := MO_Immediate off]"

definition same_value :: "env \<Rightarrow> mstate \<Rightarrow> operand_kind list \<Rightarrow> machine_operand list \<Rightarrow> machine_operand list \<Rightarrow> bool" where
  "same_value e s ks ops ops' = (\<exists>gs gs'. group_ops ks ops = Some gs \<and> group_ops ks ops' = Some gs'
     \<and> groups_eq e s ks gs gs')"

lemma same_value_cons:
  assumes "same_value e s ks (drop (kind_width k) ops) (drop (kind_width k) ops')"
    and "kind_width k \<le> length ops" "kind_width k \<le> length ops'"
    and "group_eq e s k (take (kind_width k) ops) (take (kind_width k) ops')"
  shows "same_value e s (k # ks) ops ops'"
  using assms unfolding same_value_def by (auto simp: not_less)

lemma fi_shape_same: "fi_shape ks ops \<Longrightarrow> same_value e s ks ops ops"
proof (induction ks arbitrary: ops)
  case (Cons k ks)
  show ?case
  proof (cases "k = OMem")
    case True
    then obtain b d i ops' where "ops = b # d # i # ops'" "fi_shape ks ops'"
      using Cons.prems by (auto simp: fi_shape_Mem)
    then show ?thesis
      using Cons.IH [of ops'] True by (intro same_value_cons) (simp_all add: group_eq_def numeral_3_eq_3)
  next
    case False
    then obtain x ops' where "ops = x # ops'" "fi_shape ks ops'"
      using Cons.prems by (auto simp: fi_shape_other)
    then show ?thesis
      using Cons.IH [of ops'] kind_width_other [OF False]
      by (intro same_value_cons) (simp_all add: group_eq_def)
  qed
qed (simp add: same_value_def)

lemma resolved_at_Cons: "resolved_at (x # ops) (Suc k) off = x # resolved_at ops k off"
  by (simp add: resolved_at_def)

lemma fi_shape_step:
  assumes "fi_shape ks ops" "first_FI ops = Some k"
  shows "\<exists>i n. k + 2 < length ops \<and> ops ! k = MO_FrameIndex i \<and> ops ! (k + 2) = MO_Immediate n
    \<and> (\<forall>off. fi_shape ks (resolved_at ops k off)
        \<and> (\<forall>e s. e (MO_FrameIndex i) + word_of_int n = regs s F5 + word_of_int off
             \<longrightarrow> same_value e s ks ops (resolved_at ops k off)))"
  using assms
proof (induction ks arbitrary: ops k)
  case Nil
  then show ?case using first_FI_None [of ops] by simp
next
  case (Cons kd ks)
  show ?case
  proof (cases "kd = OMem")
    case True
    then obtain b d i rest where ops: "ops = b # d # i # rest" and sh: "fi_shape ks rest"
        and nf: "\<not> operand_is_FI d" "\<not> operand_is_FI i" and bi: "operand_is_FI b \<longrightarrow> (\<exists>n. i = MO_Immediate n)"
      using Cons.prems(1) by (auto simp: fi_shape_Mem)
    show ?thesis
    proof (cases "operand_is_FI b")
      case fb: True
      then obtain x n where b: "b = MO_FrameIndex x" and i: "i = MO_Immediate n"
        using bi by (cases b) auto
      have k: "k = 0" using Cons.prems(2) ops fb by simp
      have r: "resolved_at ops k off = use_reg F5 # d # MO_Immediate off # rest" for off
        unfolding k ops by (simp add: resolved_at_def numeral_2_eq_2)
      have "same_value e s (kd # ks) ops (resolved_at ops k off)"
        if "e (MO_FrameIndex x) + word_of_int n = regs s F5 + word_of_int off" for e s off
        unfolding r unfolding ops using that b i True fi_shape_same [OF sh, of e s]
        by (intro same_value_cons) (simp_all add: group_eq_def numeral_3_eq_3 algebra_simps)
      then show ?thesis
        using ops b i k True sh nf unfolding r by (simp add: fi_shape_Mem numeral_2_eq_2)
    next
      case fb: False
      then obtain k' where k': "first_FI rest = Some k'" "k = Suc (Suc (Suc k'))"
        using Cons.prems(2) ops nf by auto
      have r: "resolved_at ops k off = b # d # i # resolved_at rest k' off" for off
        unfolding k'(2) ops by (simp add: resolved_at_Cons)
      obtain x n where IH: "k' + 2 < length rest" "rest ! k' = MO_FrameIndex x" "rest ! (k' + 2) = MO_Immediate n"
          "\<And>off. fi_shape ks (resolved_at rest k' off)"
          "\<And>off e s. e (MO_FrameIndex x) + word_of_int n = regs s F5 + word_of_int off
               \<Longrightarrow> same_value e s ks rest (resolved_at rest k' off)"
        using Cons.IH [OF sh k'(1)] by blast
      have "same_value e s (kd # ks) ops (resolved_at ops k off)"
        if "e (MO_FrameIndex x) + word_of_int n = regs s F5 + word_of_int off" for e s off
        unfolding r unfolding ops using IH(5) [where e = e and s = s and off = off, OF that] True
        by (intro same_value_cons) (simp_all add: group_eq_def numeral_3_eq_3)
      moreover have "fi_shape (kd # ks) (resolved_at ops k off)" for off
        unfolding r using True IH(4) nf fb by (simp add: fi_shape_Mem)
      moreover have "k + 2 < length ops" "ops ! k = MO_FrameIndex x" "ops ! (k + 2) = MO_Immediate n"
        using IH(1-3) ops k'(2) by simp_all
      ultimately show ?thesis by blast
    qed
  next
    case False
    then obtain y rest where ops: "ops = y # rest" and sh: "fi_shape ks rest" and nf: "\<not> operand_is_FI y"
      using Cons.prems(1) by (auto simp: fi_shape_other)
    then obtain k' where k': "first_FI rest = Some k'" "k = Suc k'"
      using Cons.prems(2) by auto
    have r: "resolved_at ops k off = y # resolved_at rest k' off" for off
      unfolding k'(2) ops by (simp add: resolved_at_Cons)
    obtain x n where IH: "k' + 2 < length rest" "rest ! k' = MO_FrameIndex x" "rest ! (k' + 2) = MO_Immediate n"
        "\<And>off. fi_shape ks (resolved_at rest k' off)"
        "\<And>off e s. e (MO_FrameIndex x) + word_of_int n = regs s F5 + word_of_int off
             \<Longrightarrow> same_value e s ks rest (resolved_at rest k' off)"
      using Cons.IH [OF sh k'(1)] by blast
    have "same_value e s (kd # ks) ops (resolved_at ops k off)"
      if "e (MO_FrameIndex x) + word_of_int n = regs s F5 + word_of_int off" for e s off
      unfolding r unfolding ops using IH(5) [where e = e and s = s and off = off, OF that] kind_width_other [OF False]
      by (intro same_value_cons) (simp_all add: group_eq_def)
    moreover have "fi_shape (kd # ks) (resolved_at ops k off)" for off
      unfolding r using False IH(4) nf by (simp add: fi_shape_other)
    moreover have "k + 2 < length ops" "ops ! k = MO_FrameIndex x" "ops ! (k + 2) = MO_Immediate n"
      using IH(1-3) ops k'(2) by simp_all
    ultimately show ?thesis by blast
  qed
qed

text \<open>Operands with the same values execute the same.\<close>

lemma rd_cong: "group_eq e s k g g' \<Longrightarrow> rd e s k g = rd e s k g'"
  by (cases k) (simp_all add: group_eq_def)

lemma wr_cong: "group_eq e s k g g' \<Longrightarrow> wr e s k g v = wr e s k g' v"
  by (cases k) (simp_all add: group_eq_def)

lemma addr_val_flag [simp]: "addr_val e (s\<lparr>cond_flag := b\<rparr>) g = addr_val e s g"
proof (cases "(e, s, g)" rule: addr_val.cases)
  case (1 e' s' x d i)
  have "op_val e (s\<lparr>cond_flag := b\<rparr>) y = op_val e s y" for y by (cases y) simp_all
  moreover have "disp_val (s\<lparr>cond_flag := b\<rparr>) y = disp_val s y" for y
    by (simp add: disp_val_def split: machine_operand.split)
  ultimately show ?thesis using 1 by simp
qed simp_all

lemma group_eq_flag: "group_eq e (s\<lparr>cond_flag := b\<rparr>) k g g' = group_eq e s k g g'"
  by (simp add: group_eq_def)

lemma groups_eq_Cons:
  "groups_eq e s (k # ks) gs gs' \<longleftrightarrow>
     (\<exists>g hs g' hs'. gs = g # hs \<and> gs' = g' # hs' \<and> group_eq e s k g g' \<and> groups_eq e s ks hs hs')"
  by (cases gs; cases gs') simp_all

lemma groups_eq_Nil: "groups_eq e s [] gs gs' \<longleftrightarrow> gs = [] \<and> gs' = []"
  by (cases gs; cases gs') simp_all

lemma group_eq_plain [simp]:
  "group_eq e s OReg g g' \<longleftrightarrow> g' = g" "group_eq e s OImm g g' \<longleftrightarrow> g' = g"
  "group_eq e s OCC g g' \<longleftrightarrow> g' = g" "group_eq e s OTarget g g' \<longleftrightarrow> g' = g"
  by (auto simp: group_eq_def)

lemma groups_eq_length: "groups_eq e s ks gs gs' \<Longrightarrow> length gs = length ks \<and> length gs' = length ks"
  by (induction ks arbitrary: gs gs') (auto simp: groups_eq_Cons groups_eq_Nil)

lemma move_cong: "groups_eq e s [kd, ks] gs gs' \<Longrightarrow> move e s kd ks gs = move e s kd ks gs'"
  by (auto simp: groups_eq_Cons groups_eq_Nil move_def rd_cong wr_cong cong: rd_cong wr_cong)
    (metis rd_cong wr_cong)

lemma modify_cong:
  "groups_eq e s (tied_form f) gs gs' \<Longrightarrow> modify h e s f gs = modify h e s f gs'"
proof (cases "form_dst f = OReg")
  case True
  assume g: "groups_eq e s (tied_form f) gs gs'"
  then obtain d x y y' where "gs = [d, x, y]" "gs' = [d, x, y']" "group_eq e s (form_src f) y y'"
    using True by (auto simp: tied_form_def groups_eq_Cons groups_eq_Nil)
  then show ?thesis using True rd_cong [of e s "form_src f" y y'] by (simp add: modify_def del: rd.simps wr.simps)
next
  case False
  assume g: "groups_eq e s (tied_form f) gs gs'"
  then obtain d y d' y' where "gs = [d, y]" "gs' = [d', y']" "group_eq e s OMem d d'"
      "group_eq e s (form_src f) y y'"
    using False by (auto simp: tied_form_def groups_eq_Cons groups_eq_Nil)
  then show ?thesis
    using False rd_cong [of e s "form_src f" y y'] rd_cong [of e s OMem d d'] wr_cong [of e s OMem d d']
    by (simp add: modify_def)
qed

lemma select_move_cong:
  assumes "groups_eq e s [OReg, OReg, k] gs gs'"
  shows "select_move e s b k gs = select_move e s b k gs'"
proof -
  obtain d x y y' where "gs = [d, x, y]" "gs' = [d, x, y']" "group_eq e s k y y'"
    using assms by (auto simp: groups_eq_Cons groups_eq_Nil)
  then show ?thesis using rd_cong [of e s k y y'] by (simp add: select_move_def del: rd.simps wr.simps)
qed

lemma groups_eq_flag: "groups_eq e (s\<lparr>cond_flag := b\<rparr>) ks gs gs' = groups_eq e s ks gs gs'"
  by (induction ks arbitrary: gs gs') (auto simp: groups_eq_Cons groups_eq_Nil group_eq_flag)

lemma fi_test_cong:
  assumes "groups_eq e s [fi_lhs f, fi_rhs f, OCC] gs gs'"
  shows "fi_test e s f gs = fi_test e s f gs'"
proof -
  obtain l r c l' r' where "gs = [l, r, c]" "gs' = [l', r', c]" "group_eq e s (fi_lhs f) l l'"
      "group_eq e s (fi_rhs f) r r'"
    using assms by (auto simp: groups_eq_Cons groups_eq_Nil)
  then show ?thesis
    using rd_cong [of e s "fi_lhs f" l l'] rd_cong [of e s "fi_rhs f" r r'] by (simp add: fi_test_def)
qed

lemma exec_groups_cong:
  assumes "groups_eq e s (mc_operands c) gs gs'"
  shows "exec_groups e c gs s = exec_groups e c gs' s"
proof (cases c)
  case (SextLoad x f)
  then obtain d y d' y' where "gs = [d, y]" "gs' = [d', y']" "group_eq e s (form_dst f) d d'"
      "group_eq e s (form_src f) y y'"
    using assms by (auto simp: plain_form_def groups_eq_Cons groups_eq_Nil)
  then show ?thesis
    using SextLoad rd_cong [of e s "form_src f" y y'] wr_cong [of e s "form_dst f" d d']
    by (simp add: exec_groups_def)
next
  case NACm
  then obtain d d' where "gs = [d]" "gs' = [d']" "group_eq e s OMem d d'"
    using assms by (auto simp: groups_eq_Cons groups_eq_Nil)
  then show ?thesis
    using NACm rd_cong [of e s OMem d d'] wr_cong [of e s OMem d d'] by (simp add: exec_groups_def)
next
  case (FI f)
  then show ?thesis
    using assms fi_test_cong [of e s f gs gs'] by (simp add: exec_groups_def mc_operands_FI del: mc_operands.simps)
next
  case (FI_MALKRZ f m)
  show ?thesis
  proof (cases "m = Mx")
    case True
    then show ?thesis using FI_MALKRZ by (simp add: exec_groups_def)
  next
    case False
    then obtain d x y l r c d' x' y' l' r' c' where g: "gs = [d, x, y, l, r, c]" "gs' = [d', x', y', l', r', c']"
        and s: "groups_eq e s [OReg, OReg, malkrz_src m] [d, x, y] [d', x', y']"
        and t: "groups_eq e s [fi_lhs f, fi_rhs f, OCC] [l, r, c] [l', r', c']"
      using assms FI_MALKRZ
      by (auto simp: mc_operands_FI_MALKRZ(1) [OF False] groups_eq_Cons groups_eq_Nil simp del: mc_operands.simps)
    have "select_move e (s\<lparr>cond_flag := b\<rparr>) b (malkrz_src m) [d, x, y]
        = select_move e (s\<lparr>cond_flag := b\<rparr>) b (malkrz_src m) [d', x', y']" for b
      by (rule select_move_cong) (use s groups_eq_flag in blast)
    then show ?thesis
      using FI_MALKRZ g fi_test_cong [OF t] False by (simp add: exec_groups_def)
  qed
next
  case (MulLO m f)
  then show ?thesis using assms modify_cong [of e s f gs gs'] by (simp add: exec_groups_def split: mulop.split)
qed (use assms in \<open>auto simp: exec_groups_def groups_eq_Cons groups_eq_Nil group_eq_def
      intro!: move_cong modify_cong select_move_cong\<close>)

lemma exec_instr_cong:
  assumes "same_value e s (mc_operands (opc mi)) (operands mi) ops'"
  shows "exec_instr e (mi\<lparr>operands := ops'\<rparr>) s = exec_instr e mi s"
  using assms exec_groups_cong unfolding same_value_def exec_instr_def by fastforce

section \<open>A resolved block runs as the block it came from\<close>

lemma same_value_Cons:
  "same_value e s (k # ks) ops ops' \<longleftrightarrow>
     kind_width k \<le> length ops \<and> kind_width k \<le> length ops'
     \<and> group_eq e s k (take (kind_width k) ops) (take (kind_width k) ops')
     \<and> same_value e s ks (drop (kind_width k) ops) (drop (kind_width k) ops')"
  by (auto simp: same_value_def groups_eq_Cons split: if_splits)

lemma cond_branch_test_cong:
  assumes "same_value e s [fi_lhs f, fi_rhs f, OCC] ops ops'"
  shows "cond_branch_test e f ops s = cond_branch_test e f ops' s"
  using assms fi_test_cong unfolding same_value_def cond_branch_test_def by fastforce

lemma run_block_head_cong:
  assumes "same_value e s (mc_operands (opc mi)) (operands mi) ops'"
  shows "run_block e nxt (mi\<lparr>operands := ops'\<rparr> # mis) s = run_block e nxt (mi # mis) s"
proof -
  have ex: "exec_instr e (mi\<lparr>operands := ops'\<rparr>) s = exec_instr e mi s"
    using assms by (rule exec_instr_cong)
  have tgt: "branch_target (mi\<lparr>operands := ops'\<rparr>) = branch_target mi"
    if k: "mc_operands (opc mi) = OTarget # ks" for ks
  proof -
    have "take 1 (operands mi) = take 1 ops'" "1 \<le> length (operands mi)" "1 \<le> length ops'"
      using assms k by (simp_all add: same_value_Cons group_eq_def)
    then show ?thesis by (cases "operands mi"; cases ops') (simp_all add: branch_target_def)
  qed
  show ?thesis
  proof (cases "opc mi")
    case KRZx
    then show ?thesis using tgt by simp
  next
    case MALKRZx
    then show ?thesis using tgt by simp
  next
    case (FI_MALKRZ f m)
    show ?thesis
    proof (cases "m = Mx")
      case True
      then have k: "mc_operands (opc mi) = OTarget # [fi_lhs f, fi_rhs f, OCC]"
        using FI_MALKRZ by (simp add: mc_operands_FI_MALKRZ(2) del: mc_operands.simps)
      have "cond_branch_test e f (drop 1 (operands mi)) s = cond_branch_test e f (drop 1 ops') s"
        using assms unfolding k by (intro cond_branch_test_cong) (simp add: same_value_Cons)
      then show ?thesis using FI_MALKRZ True tgt [OF k] by simp
    next
      case False
      then show ?thesis using FI_MALKRZ ex by simp
    qed
  qed (simp_all add: ex)
qed

text \<open>The stack pointer is written by the call frame pseudos only.\<close>

definition keeps_F5 :: "minstr \<Rightarrow> bool" where
  "keeps_F5 mi = (case mc_operands (opc mi) of
      OReg # _ \<Rightarrow> (case opc mi of FI f \<Rightarrow> True
        | _ \<Rightarrow> (case operands mi of MO_Register r d i k # _ \<Rightarrow> r \<noteq> F5 | _ \<Rightarrow> True))
    | _ \<Rightarrow> True)"

lemma wr_keeps_F5:
  "(case g of MO_Register r d i k # _ \<Rightarrow> r \<noteq> F5 | _ \<Rightarrow> True) \<or> kd = OMem
     \<Longrightarrow> regs (wr e s kd g v) F5 = regs s F5"
  by (cases kd) (auto split: list.splits machine_operand.splits)

definition head_ok :: "machine_operand list \<Rightarrow> bool" where
  "head_ok g = (case g of MO_Register r d i k # _ \<Rightarrow> r \<noteq> F5 | _ \<Rightarrow> True)"

lemma head_ok_take [simp]: "head_ok (take (Suc n) g) = head_ok g" "head_ok (take 1 g) = head_ok g"
  by (cases g; simp add: head_ok_def)+

lemma wr_keeps: "head_ok g \<or> kd = OMem \<Longrightarrow> regs (wr e s kd g v) F5 = regs s F5"
  using wr_keeps_F5 unfolding head_ok_def by blast

lemma group_ops_Cons_Some:
  "group_ops (k # ks) ops = Some gs \<longleftrightarrow> kind_width k \<le> length ops
     \<and> (\<exists>hs. group_ops ks (drop (kind_width k) ops) = Some hs \<and> gs = take (kind_width k) ops # hs)"
  by (auto simp: not_less)

lemma modify_keeps:
  assumes "modify h e s f gs = Some s'" "group_ops (tied_form f) ops = Some gs"
    "form_dst f = OReg \<Longrightarrow> head_ok ops"
  shows "regs s' F5 = regs s F5"
proof (cases "form_dst f = OReg")
  case True
  then show ?thesis
    using assms by (auto simp: modify_def tied_form_def group_ops_Cons_Some wr_keeps
        simp del: wr.simps rd.simps group_ops.simps split: list.splits)
next
  case False
  then show ?thesis
    using assms by (auto simp: modify_def tied_form_def group_ops_Cons_Some split: list.splits)
qed

lemma head_ok_take_pos: "head_ok (take (kind_width k) g) = head_ok g"
  by (cases k; cases g) (simp_all add: head_ok_def numeral_3_eq_3)

lemma exec_keeps_F5:
  assumes "exec_instr e mi s = Some s'" "keeps_F5 mi" "\<not> isFrameInstr mi"
  shows "regs s' F5 = regs s F5"
proof -
  obtain gs where gs: "group_ops (mc_operands (opc mi)) (operands mi) = Some gs"
      and ex: "exec_groups e (opc mi) gs s = Some s'"
    using assms(1) by (auto simp: exec_instr_def bind_eq_Some_conv)
  have hd: "head_ok (operands mi)" if "mc_operands (opc mi) = OReg # ks" "\<forall>f. opc mi \<noteq> FI f" for ks
    using assms(2) that by (auto simp: keeps_F5_def head_ok_def split: opcode.splits)
  show ?thesis
  proof (cases "opc mi")
    case (SextLoad x f)
    have "head_ok (operands mi) \<or> form_dst f = OMem"
      using hd SextLoad by (cases f) (simp_all add: plain_form_def)
    then have "head_ok (take (kind_width (form_dst f)) (operands mi)) \<or> form_dst f = OMem"
      by (simp add: head_ok_take_pos)
    moreover have "s' = wr e s (form_dst f) (take (kind_width (form_dst f)) (operands mi))
        (ext_sem x (rd e s (form_src f) (take (kind_width (form_src f)) (drop (kind_width (form_dst f)) (operands mi)))))"
      using gs ex SextLoad
      by (simp add: exec_groups_def plain_form_def split: if_splits list.splits del: wr.simps rd.simps ext_sem.simps)
    ultimately show ?thesis using wr_keeps by metis
  next
    case (TruncStore t f)
    show ?thesis
      by (rule modify_keeps [of "trunc_sem t" e s f gs s' "operands mi"])
        (use TruncStore gs ex hd in \<open>simp_all add: exec_groups_def tied_form_def\<close>)
  next
    case (BinOp b f)
    show ?thesis
      by (rule modify_keeps [of "binop_sem b" e s f gs s' "operands mi"])
        (use BinOp gs ex hd in \<open>simp_all add: exec_groups_def tied_form_def\<close>)
  next
    case (MulLO m f)
    show ?thesis
      by (rule modify_keeps [of "(*)" e s f gs s' "operands mi"])
        (use MulLO gs ex hd in \<open>simp_all add: exec_groups_def tied_form_def split: mulop.splits\<close>)
  next
    case (FI_MALKRZ f m)
    then have m: "m \<noteq> Mx" using ex by (auto simp: exec_groups_def)
    have "head_ok (operands mi)"
      using hd FI_MALKRZ mc_operands_FI_MALKRZ(1) [OF m] by simp
    then show ?thesis
      using gs ex FI_MALKRZ m
      by (auto simp: mc_operands_FI_MALKRZ(1) [OF m] exec_groups_def group_ops_Cons_Some select_move_def wr_keeps
          bind_eq_Some_conv simp del: mc_operands.simps wr.simps rd.simps group_ops.simps)
  qed (use gs ex hd assms(3) in \<open>auto simp: isFrameInstr_def exec_groups_def move_def select_move_def
        group_ops_Cons_Some wr_keeps fi_test_def simp del: wr.simps rd.simps group_ops.simps split: list.splits\<close>)
qed

text \<open>
  The instructions that may appear in a block before the resolution: call frame pseudos with an
  amount that is a multiple of the stack alignment, \<open>ATAframe\<close> with an address and an offset, and
  instructions whose frame indices are the bases of memory operands. None but the pseudos writes \<open>F5\<close>.
\<close>

fun amount_operands :: "machine_operand list \<Rightarrow> bool" where
  "amount_operands [MO_Immediate a, MO_Immediate b] = (0 \<le> a \<and> a < 2 ^ 31 \<and> a mod 4 = 0)"
| "amount_operands _ = False"

fun address_operands :: "machine_operand list \<Rightarrow> bool" where
  "address_operands [MO_Register d x y z, MO_FrameIndex i, MO_Immediate n] = (d \<noteq> F5)"
| "address_operands _ = False"

definition resolvable :: "minstr \<Rightarrow> bool" where
  "resolvable mi =
     (if isFrameInstr mi then amount_operands (operands mi)
      else if opc mi = ATAframe then address_operands (operands mi)
      else opc mi = DBG_VALUE \<or> opc mi = STATEPOINT
           \<or> (fi_shape (mc_operands (opc mi)) (operands mi) \<and> keeps_F5 mi))"

text \<open>\<open>A\<close> is the stack pointer at the entry of the function, the address of the frame's end.\<close>

definition sp_at :: "frame_info \<Rightarrow> 32 word \<Rightarrow> int \<Rightarrow> mstate \<Rightarrow> bool" where
  "sp_at fi A SPAdj s = (regs s F5 = A - word_of_int (StackSize fi + SPAdj))"

definition frame_env :: "frame_info \<Rightarrow> 32 word \<Rightarrow> env \<Rightarrow> bool" where
  "frame_env fi A e = (\<forall>i off. getObjectOffset fi i = Inr off \<longrightarrow> e (MO_FrameIndex i) = A + word_of_int off)"

lemma word_of_int_i32 [simp]: "word_of_int (i32 x) = (word_of_int x :: 32 word)"
proof (rule bit_word_eqI)
  fix n assume "n < LENGTH(32)"
  then consider "n < 31" | "n = 31" by fastforce
  then show "bit (word_of_int (i32 x) :: 32 word) n = bit (word_of_int x :: 32 word) n"
    by cases (simp_all add: i32_def bit_signed_take_bit_iff bit_word_of_int_iff min_def)
qed

lemma word_of_int_u32 [simp]: "word_of_int (u32 x) = (word_of_int x :: 32 word)"
  by (rule bit_word_eqI) (simp add: u32_def bit_take_bit_iff bit_word_of_int_iff)

lemma word_of_int_i64 [simp]: "word_of_int (i64 x) = (word_of_int x :: 32 word)"
  by (rule bit_word_eqI) (simp add: i64_def bit_signed_take_bit_iff bit_word_of_int_iff min_def)

lemma sp_at_i32 [simp]: "sp_at fi A (i32 n) s = sp_at fi A n s"
  by (simp add: sp_at_def)

lemma first_FI_None_shape: "first_FI (operands mi) = None \<Longrightarrow> \<forall>x \<in> set (operands mi). \<not> operand_is_FI x"
  by (simp add: first_FI_None)

lemma frame_pseudo_size:
  assumes "isFrameInstr mi" "amount_operands (operands mi)"
  obtains a b where "operands mi = [MO_Immediate a, MO_Immediate b]" "0 \<le> a" "a < 2 ^ 31" "a mod 4 = 0"
    "getFrameSize mi = Inr a" "u32 a = a" "i32 a = a"
proof -
  obtain a b where a: "operands mi = [MO_Immediate a, MO_Immediate b]" "0 \<le> a" "a < 2 ^ 31" "a mod 4 = 0"
    using assms(2) by (auto elim!: amount_operands.elims)
  then have "getFrameSize mi = Inr a" using assms(1) by (simp add: getFrameSize_def)
  moreover have "u32 a = a" "i32 a = a" using a by (simp_all add: u32_id i32_id)
  ultimately show ?thesis by (rule that [OF a])
qed

lemma frame_pseudo_adjust:
  assumes "isFrameInstr mi" "amount_operands (operands mi)" "getSPAdjust f2003f_target mi = Inr adj"
    and "sp_at fi A n s"
  shows "\<exists>s'. (\<forall>e. exec_instr e mi s = Some s') \<and> sp_at fi A (n + adj) s'"
    and "\<And>xs nxt ys. eliminateCallFramePseudoInstr mi = Inr xs
      \<Longrightarrow> run_block e nxt (xs @ ys) s = run_block e nxt (mi # ys) s"
proof -
  obtain a b where a: "operands mi = [MO_Immediate a, MO_Immediate b]" "0 \<le> a" "a < 2 ^ 31" "a mod 4 = 0"
      "getFrameSize mi = Inr a" "u32 a = a" "i32 a = a"
    using frame_pseudo_size [OF assms(1,2)] .
  have al: "alignTo a 4 0 = Inr a"
    using a ceil_to_least [of 4 a a 0] ceil_to_bounds(1) [of 4 a 0] by (simp add: alignTo_ceil_to)
  have ni: "i32 (i32 (- a)) = i32 (- a)" by (simp add: i32_def)
  consider (d) "opc mi = ADJCALLSTACKDOWN" | (u) "opc mi = ADJCALLSTACKUP"
    using assms(1) by (auto simp: isFrameInstr_def)
  then have *: "(\<exists>s'. (\<forall>e. exec_instr e mi s = Some s') \<and> sp_at fi A (n + adj) s')
      \<and> (\<forall>xs nxt ys. eliminateCallFramePseudoInstr mi = Inr xs
      \<longrightarrow> run_block e nxt (xs @ ys) s = run_block e nxt (mi # ys) s)"
  proof cases
    case d
    then have "adj = a"
      using assms(1,3) a al by (simp add: getSPAdjust_def alignSPAdjust_def f2003f_target_def)
    then show ?thesis
      using d a assms(4)
      by (auto simp: exec_instr_def exec_groups_def sp_at_def eliminateCallFramePseudoInstr_def
          modify_def tied_form_def algebra_simps)
  next
    case u
    then have "adj = i32 (- a)"
      using assms(1,3) a al by (simp add: getSPAdjust_def alignSPAdjust_def f2003f_target_def)
    then show ?thesis
      using u a assms(4)
      by (auto simp: exec_instr_def exec_groups_def sp_at_def eliminateCallFramePseudoInstr_def
          modify_def tied_form_def algebra_simps)
  qed
  then show "\<exists>s'. (\<forall>e. exec_instr e mi s = Some s') \<and> sp_at fi A (n + adj) s'" by blast
  show "run_block e nxt (xs @ ys) s = run_block e nxt (mi # ys) s"
    if "eliminateCallFramePseudoInstr mi = Inr xs" for xs nxt ys using * that by blast
qed

lemma eliminate_ATAframe:
  assumes env: "frame_env fi A e" and sp: "sp_at fi A SPAdj s"
    and mi: "opc mi = ATAframe" "address_operands (operands mi)" "first_FI (operands mi) = Some k"
    and el: "eliminateFrameIndex fi mi SPAdj k = Inr xs"
  shows "(\<forall>x \<in> set xs. resolvable x) \<and> run_block e nxt (xs @ ys) s = run_block e nxt (mi # ys) s"
proof -
  obtain d x y z i n where ops: "operands mi = [MO_Register d x y z, MO_FrameIndex i, MO_Immediate n]"
      and d: "d \<noteq> F5"
    using mi(2) by (auto elim!: address_operands.elims)
  then have k: "k = 1" using mi(3) by simp
  obtain off where off: "getObjectOffset fi i = Inr off"
    using el ops k by (auto simp: eliminateFrameIndex_def bind_result_Inr_iff)
  then have e: "e (MO_FrameIndex i) = A + word_of_int off" using env by (simp add: frame_env_def)
  define t where "t = i32 (i32 (i32 (i32 off + StackSize fi) + SPAdj) + n)"
  have t: "word_of_int t = (word_of_int (off + StackSize fi + SPAdj + n) :: 32 word)"
    by (simp add: t_def)
  define m1 where "m1 = mi\<lparr>opc := KRZrr, operands := [MO_Register d x y z, use_reg F5]\<rparr>"
  have xs: "xs = (if t = 0 then [m1] else [m1, mk_instr ATAri [def_reg d, use_reg d, MO_Immediate t]])"
    using el ops k off mi(1) by (simp add: eliminateFrameIndex_def t_def m1_def remove_nth_def Let_def split: if_splits)
  have m1: "exec_instr e m1 s = Some (s\<lparr>regs := (regs s)(d := regs s F5)\<rparr>)"
    by (simp add: m1_def exec_instr_def exec_groups_def move_def)
  have F5: "regs s F5 + word_of_int t = e (MO_FrameIndex i) + word_of_int n"
    using sp unfolding t e by (simp add: sp_at_def)
  have "resolvable x" if "x \<in> set xs" for x
    using that d unfolding xs
    by (auto simp: m1_def resolvable_def isFrameInstr_def keeps_F5_def fi_shape_other tied_form_def split: if_splits)
  moreover have "exec_instr e mi s = Some (s\<lparr>regs := (regs s)(d := regs s F5 + word_of_int t)\<rparr>)"
    unfolding F5 using ops mi(1) by (simp add: exec_instr_def exec_groups_def)
  then have "run_block e nxt (xs @ ys) s = run_block e nxt (mi # ys) s"
    using m1 mi(1) unfolding xs
    by (auto simp: m1_def exec_ATAri)
  ultimately show ?thesis by blast
qed

lemma keeps_F5_iff:
  "mc_operands (opc mi) = OReg # ks \<Longrightarrow> keeps_F5 mi \<longleftrightarrow> (\<exists>f. opc mi = FI f) \<or> head_ok (operands mi)"
  by (auto simp: keeps_F5_def head_ok_def split: opcode.split)

lemma keeps_F5_resolved:
  assumes "keeps_F5 mi" "fi_shape (mc_operands (opc mi)) (operands mi)" "first_FI (operands mi) = Some k"
  shows "keeps_F5 (mi\<lparr>operands := resolved_at (operands mi) k off\<rparr>)"
proof (cases "mc_operands (opc mi)")
  case (Cons kd ks)
  show ?thesis
  proof (cases "kd = OReg")
    case True
    then obtain x rest where ops: "operands mi = x # rest" "\<not> operand_is_FI x"
      using assms(2) Cons by (auto simp: fi_shape_other)
    then obtain k' where "k = Suc k'" using assms(3) by auto
    then show ?thesis
      using assms(1) ops Cons True by (auto simp: keeps_F5_iff [of _ ks] resolved_at_Cons head_ok_def)
  next
    case False
    then show ?thesis using Cons by (simp add: keeps_F5_def split: operand_kind.split)
  qed
qed (simp add: keeps_F5_def)

lemma eliminate_step:
  assumes env: "frame_env fi A e" and sp: "sp_at fi A SPAdj s"
    and mi: "\<not> isFrameInstr mi" "resolvable mi" "first_FI (operands mi) = Some k"
      "opc mi \<noteq> DBG_VALUE" "opc mi \<noteq> STATEPOINT"
    and el: "eliminateFrameIndex fi mi SPAdj k = Inr xs"
  shows "(\<forall>x \<in> set xs. resolvable x) \<and> run_block e nxt (xs @ ys) s = run_block e nxt (mi # ys) s"
proof (cases "opc mi = ATAframe")
  case True
  then show ?thesis
    using eliminate_ATAframe [OF env sp True _ mi(3) el] mi(1,2) by (simp add: resolvable_def)
next
  case False
  then have sh: "fi_shape (mc_operands (opc mi)) (operands mi)" "keeps_F5 mi"
    using mi by (simp_all add: resolvable_def)
  obtain i n where fs: "k + 2 < length (operands mi)" "operands mi ! k = MO_FrameIndex i"
      "operands mi ! (k + 2) = MO_Immediate n"
      "\<And>off. fi_shape (mc_operands (opc mi)) (resolved_at (operands mi) k off)"
      "\<And>off e s. e (MO_FrameIndex i) + word_of_int n = regs s F5 + word_of_int off
         \<Longrightarrow> same_value e s (mc_operands (opc mi)) (operands mi) (resolved_at (operands mi) k off)"
    using fi_shape_step [OF sh(1) mi(3)] by blast
  obtain off where off: "getObjectOffset fi i = Inr off"
    using el fs by (auto simp: eliminateFrameIndex_def bind_result_Inr_iff)
  then have e: "e (MO_FrameIndex i) = A + word_of_int off" using env by (simp add: frame_env_def)
  define t where "t = i32 (i32 (i32 (i32 off + StackSize fi) + SPAdj) + i32 n)"
  have t: "word_of_int t = (word_of_int (off + StackSize fi + SPAdj + n) :: 32 word)"
    by (simp add: t_def)
  have xs: "xs = [mi\<lparr>operands := resolved_at (operands mi) k t\<rparr>]"
    using el fs(1-3) off False
    by (simp add: eliminateFrameIndex_def t_def resolved_at_def Let_def)
  have "e (MO_FrameIndex i) + word_of_int n = regs s F5 + word_of_int t"
    using sp unfolding t e by (simp add: sp_at_def)
  then have "same_value e s (mc_operands (opc mi)) (operands mi) (resolved_at (operands mi) k t)"
    by (rule fs(5))
  then have "run_block e nxt (xs @ ys) s = run_block e nxt (mi # ys) s"
    unfolding xs using run_block_head_cong by simp
  moreover have "\<forall>x \<in> set xs. resolvable x"
    unfolding xs using mi False fs(4) keeps_F5_resolved [OF sh(2,1) mi(3)]
    by (simp add: resolvable_def isFrameInstr_def)
  ultimately show ?thesis by blast
qed

text \<open>An instruction that keeps the stack pointer leaves the rest of the block where it was.\<close>

lemma run_block_tail_cong:
  assumes "\<And>s'. sp_at fi A n s' \<Longrightarrow> run_block e nxt ys s' = run_block e nxt ys' s'"
    and "sp_at fi A n s" "\<not> isFrameInstr mi" "keeps_F5 mi \<or> (\<forall>s. exec_instr e mi s = None)"
  shows "run_block e nxt (mi # ys) s = run_block e nxt (mi # ys') s"
proof -
  have sp: "sp_at fi A n s'" if "exec_instr e mi s = Some s'" for s'
    using exec_keeps_F5 [OF that] assms(2-4) that by (auto simp: sp_at_def)
  have fl: "sp_at fi A n (s\<lparr>cond_flag := b\<rparr>)" for b using assms(2) by (simp add: sp_at_def)
  have ex: "Option.bind (exec_instr e mi s) (run_block e nxt ys) = Option.bind (exec_instr e mi s) (run_block e nxt ys')"
    using sp assms(1) by (cases "exec_instr e mi s") simp_all
  show ?thesis
    using assms(1) [OF assms(2)] assms(1) [OF fl] ex
    by (auto split: opcode.split intro!: Option.bind_cong)
qed

lemma resolve_reference_opc: "resolve_reference tgt fi k mi = Inr mi' \<Longrightarrow> opc mi' = opc mi"
  by (auto simp: resolve_reference_def bind_result_Inr_iff)

lemma resolve_debug_opc: "resolve_debug tgt fi mi = Inr mi' \<Longrightarrow> opc mi' = opc mi"
  unfolding resolve_debug_def
  by (rule fold_result_invariant [where I = "\<lambda>m. opc m = opc mi"])
    (auto dest!: resolve_reference_opc split: if_splits)

lemma resolve_statepoint_opc: "resolve_statepoint tgt fi mi = Inr mi' \<Longrightarrow> opc mi' = opc mi"
  unfolding resolve_statepoint_def
  by (rule fold_result_invariant [where I = "\<lambda>m. opc m = opc mi"])
    (auto dest!: resolve_reference_opc split: if_splits)

lemma exec_STATEPOINT: "opc mi = STATEPOINT \<Longrightarrow> exec_instr e mi s = None"
  by (simp add: exec_instr_def exec_groups_def)

lemma getSPAdjust_other: "\<not> isFrameInstr mi \<Longrightarrow> getSPAdjust tgt mi = Inr 0"
  by (simp add: getSPAdjust_def)

lemma replace_loop_runs:
  assumes "frame_env fi A e" "sp_at fi A SPAdj s" "\<forall>mi \<in> set mis. resolvable mi"
    and "replace_loop f2003f_target fi b SPAdj mis = Inr (mis', SPAdj')"
  shows "run_block e nxt mis' s = run_block e nxt mis s"
  using assms
proof (induction f2003f_target fi b SPAdj mis arbitrary: mis' SPAdj' s rule: replace_loop.induct)
  case (1 fi b SPAdj)
  then show ?case by simp
next
  case (2 fi b SPAdj I rest)
  show ?case
  proof (cases "isFrameInstr I")
    case True
    then obtain adj xs ys where r: "getSPAdjust f2003f_target I = Inr adj" "eliminateCallFramePseudoInstr I = Inr xs"
        "replace_loop f2003f_target fi (isFrameSetup I) (i32 (SPAdj + adj)) rest = Inr (ys, SPAdj')" "mis' = xs @ ys"
      using "2.prems"(4) by (auto simp: bind_result_Inr_iff)
    have ok: "amount_operands (operands I)" using "2.prems"(3) True by (simp add: resolvable_def)
    note fp = frame_pseudo_adjust [OF True ok r(1) "2.prems"(2)]
    obtain s' where s': "\<forall>e. exec_instr e I s = Some s'" "sp_at fi A (SPAdj + adj) s'"
      using fp(1) by blast
    have "run_block e nxt ys s' = run_block e nxt rest s'"
      using "2.hyps"(1) [OF True r(1,2) "2.prems"(1) _ _ r(3), of s'] s'(2) "2.prems"(3) by simp
    moreover have "run_block e nxt (I # zs) s = run_block e nxt zs s'" for zs
      using True s'(1) by (auto simp: isFrameInstr_def)
    ultimately show ?thesis
      using fp(2) [OF r(2), where e = e and nxt = nxt and ys = ys] r(4) by simp
  next
    case nf: False
    show ?thesis
    proof (cases "first_FI (operands I) \<noteq> None \<and> opc I \<noteq> DBG_VALUE \<and> opc I \<noteq> STATEPOINT")
      case True
      then obtain k where k: "first_FI (operands I) = Some k" by blast
      obtain xs where xs: "eliminateFrameIndex fi I SPAdj k = Inr xs"
          "replace_loop f2003f_target fi b SPAdj (xs @ rest) = Inr (mis', SPAdj')"
        using "2.prems"(4) nf True k by (auto simp: bind_result_Inr_iff)
      have st: "(\<forall>x \<in> set xs. resolvable x)
          \<and> run_block e nxt (xs @ rest) s = run_block e nxt (I # rest) s"
        using eliminate_step [OF "2.prems"(1,2) nf _ k _ _ xs(1)] "2.prems"(3) True by simp
      then show ?thesis
        using "2.hyps"(2) [OF nf True _ "2.prems"(1,2) _ xs(2)] xs(1) k "2.prems"(3) by auto
    next
      case False
      obtain I' adj ys where r:
          "(if opc I = DBG_VALUE then resolve_debug f2003f_target fi I
            else if opc I = STATEPOINT then resolve_statepoint f2003f_target fi I else Inr I) = Inr I'"
          "(if b then getSPAdjust f2003f_target I' else Inr 0) = Inr adj"
          "replace_loop f2003f_target fi b (i32 (SPAdj + adj)) rest = Inr (ys, SPAdj')" "mis' = I' # ys"
        using "2.prems"(4) nf False by (auto simp: bind_result_Inr_iff simp del: not_None_eq)
      have opc: "opc I' = opc I"
        using r(1) resolve_debug_opc resolve_statepoint_opc by (auto split: if_splits)
      have adj: "adj = 0"
        using r(2) getSPAdjust_other [of I'] nf opc by (auto simp: isFrameInstr_def split: if_splits)
      have IH: "run_block e nxt ys s' = run_block e nxt rest s'" if "sp_at fi A SPAdj s'" for s'
        using "2.hyps"(3) [OF nf False r(1,2) "2.prems"(1) _ _ r(3), of s'] that "2.prems"(3) adj by simp
      show ?thesis
      proof (cases "opc I = DBG_VALUE")
        case True
        then show ?thesis using opc r(4) IH [OF "2.prems"(2)] by (simp del: run_block.simps)
      next
        case nd: False
        show ?thesis
        proof (cases "opc I = STATEPOINT")
          case True
          then show ?thesis using opc r(4) by (simp add: exec_STATEPOINT)
        next
          case ns: False
          have "keeps_F5 I \<or> (\<forall>s. exec_instr e I s = None)"
          proof (cases "opc I = ATAframe")
            case True
            then have "first_FI (operands I) \<noteq> None"
              using "2.prems"(3) nf by (auto simp: resolvable_def elim!: address_operands.elims)
            then show ?thesis using False nd ns by blast
          next
            case False
            then show ?thesis using "2.prems"(3) nf nd ns by (simp add: resolvable_def)
          qed
          then show ?thesis
            using run_block_tail_cong [OF IH "2.prems"(2) nf] r(1,4) nd ns by (simp del: run_block.simps)
        qed
      qed
    qed
  qed
qed

text \<open>
  The resolution of the frame indices of a block keeps what it computes. Before it, a frame index
  stands for the address of its object, the stack pointer at the entry of the function plus the
  offset that the layout gave; after it, the block addresses the objects from the current stack
  pointer, which the call frame pseudos of the block move, and computes the same.
\<close>

theorem replaceFrameIndices_runs:
  assumes "frame_env fi A e" "sp_at fi A SPAdj s" "\<forall>mi \<in> set mis. resolvable mi"
    and "replaceFrameIndices f2003f_target fi SPAdj mis = Inr (mis', SPAdj')"
  shows "run_block e nxt mis' s = run_block e nxt mis s"
  by (rule replace_loop_runs [OF assms(1-3) assms(4) [unfolded replaceFrameIndices_def]])

section \<open>Prologue and epilogue cancel\<close>

lemma skip_terminators_split:
  assumes "skip_terminators pre suf = (pre', suf')"
  shows "rev pre' @ suf' = rev pre @ suf \<and> (\<exists>ts. suf' = ts @ suf \<and> (\<forall>x \<in> set ts. isTerminator (opc x)))
     \<and> (pre' = [] \<or> \<not> isTerminator (opc (hd pre')))"
  using assms
proof (induction pre arbitrary: suf)
  case (Cons x xs)
  show ?case
  proof (cases "isTerminator (opc x)")
    case True
    from Cons.IH [of "x # suf"] Cons.prems True show ?thesis by (auto 0 4 intro: exI [where x = "_ @ [x]"])
  next
    case False
    then show ?thesis using Cons.prems by auto
  qed
qed auto

lemma last_non_debug_split:
  assumes "last_non_debug pre suf = Some (pre', suf')"
  shows "rev pre' @ suf' = rev pre @ suf \<and> (\<exists>I ds. suf' = I # ds @ suf \<and> opc I \<noteq> DBG_VALUE \<and> \<not> inside_bundle I
     \<and> (\<forall>x \<in> set ds. opc x = DBG_VALUE \<or> inside_bundle x))"
  using assms
proof (induction pre arbitrary: suf)
  case (Cons x xs)
  show ?case
  proof (cases "opc x = DBG_VALUE \<or> inside_bundle x")
    case True
    have "last_non_debug xs (x # suf) = Some (pre', suf')" using Cons.prems True by simp
    from Cons.IH [OF this] obtain I ds where
        "rev pre' @ suf' = rev xs @ x # suf" "suf' = I # ds @ x # suf" "opc I \<noteq> DBG_VALUE" "\<not> inside_bundle I"
        "\<forall>y \<in> set ds. opc y = DBG_VALUE \<or> inside_bundle y" by blast
    then show ?thesis using True
      by (intro conjI exI [where x = I] exI [where x = "ds @ [x]"]) auto
  next
    case False
    then show ?thesis using Cons.prems by (auto intro: exI [where x = "[]"])
  qed
qed simp

lemma emitPrologue_0: "emitPrologue fi 0 MBB =
    Inr ((if StackSize fi \<noteq> 0 then [mk_instr NTAri [def_reg F5, use_reg F5, MO_Immediate (i64 (StackSize fi))]] else []) @ MBB)"
  by (simp add: emitPrologue_def)

lemma emitEpilogue_return:
  assumes "opc ret = KRZ_DOSNUD" "\<not> inside_bundle ret"
  shows "emitEpilogue fi (xs @ [ret]) =
    Inr (xs @ (if StackSize fi \<noteq> 0 then [mk_instr ATAri [def_reg F5, use_reg F5, MO_Immediate (i64 (StackSize fi))]] else []) @ [ret])"
  using assms by (simp add: emitEpilogue_def)

text \<open>
  The prologue opens the frame and the epilogue in front of the return closes it: the body runs
  with the stack pointer lowered by the frame size, where the resolved frame indices expect it, and when
  the body falls through to the return with the stack pointer where it found it, the return sees the
  stack pointer of the entry.
\<close>

theorem prologue_epilogue_cancel:
  assumes "opc ret = KRZ_DOSNUD" "\<not> inside_bundle ret"
  shows "\<exists>p q. emitPrologue fi 0 MBB = Inr (p @ MBB) \<and> emitEpilogue fi (xs @ [ret]) = Inr (xs @ q @ [ret])
    \<and> (\<forall>e nxt s. run_block e nxt (p @ MBB) s = run_block e nxt MBB
          (s\<lparr>regs := (regs s)(F5 := regs s F5 - word_of_int (StackSize fi))\<rparr>))
    \<and> (\<forall>s. sp_at fi (regs s F5) 0 (s\<lparr>regs := (regs s)(F5 := regs s F5 - word_of_int (StackSize fi))\<rparr>))
    \<and> (\<forall>e A nxt s s'. run_block e None xs s = Some (s', To None) \<and> sp_at fi A 0 s'
          \<longrightarrow> run_block e nxt (xs @ q @ [ret]) s = Some (s'\<lparr>regs := (regs s')(F5 := A)\<rparr>, Returns))"
proof -
  define p where "p = (if StackSize fi \<noteq> 0 then [mk_instr NTAri [def_reg F5, use_reg F5, MO_Immediate (i64 (StackSize fi))]] else [])"
  define q where "q = (if StackSize fi \<noteq> 0 then [mk_instr ATAri [def_reg F5, use_reg F5, MO_Immediate (i64 (StackSize fi))]] else [])"
  have "emitPrologue fi 0 MBB = Inr (p @ MBB)" by (simp add: emitPrologue_0 p_def)
  moreover have "emitEpilogue fi (xs @ [ret]) = Inr (xs @ q @ [ret])"
    using assms by (simp add: emitEpilogue_return q_def)
  moreover have "run_block e nxt (p @ MBB) s = run_block e nxt MBB
      (s\<lparr>regs := (regs s)(F5 := regs s F5 - word_of_int (StackSize fi))\<rparr>)" for e nxt s
    by (simp add: p_def exec_NTAri)
  moreover have "sp_at fi (regs s F5) 0 (s\<lparr>regs := (regs s)(F5 := regs s F5 - word_of_int (StackSize fi))\<rparr>)" for s :: mstate
    by (simp add: sp_at_def)
  moreover have "run_block e nxt (xs @ q @ [ret]) s = Some (s'\<lparr>regs := (regs s')(F5 := A)\<rparr>, Returns)"
    if "run_block e None xs s = Some (s', To None)" "sp_at fi A 0 s'" for e A nxt s s'
  proof -
    have "(regs s')(F5 := regs s' F5) = regs s'" by simp
    moreover have "A = regs s' F5 + word_of_int (StackSize fi)" using that(2) by (simp add: sp_at_def)
    ultimately show ?thesis
      unfolding run_block_append [of e nxt xs] that(1) by (auto simp: q_def exec_ATAri assms(1))
  qed
  ultimately show ?thesis by blast
qed

section \<open>Callee-saved registers survive\<close>

lemma spill_code_Cons: "spill_code ((r, i) # CSI) = storeRegToStackSlot r True i # spill_code CSI"
  by (simp add: spill_code_def)

lemma run_store_slot:
  "run_block e nxt (storeRegToStackSlot r k i # ys) s
     = run_block e nxt ys (s\<lparr>mem := store32 (mem s) (e (MO_FrameIndex i)) (regs s r)\<rparr>)"
  by (simp add: storeRegToStackSlot_def exec_instr_def exec_groups_def move_def disp_val_def)

lemma run_load_slot:
  "run_block e nxt (loadRegFromStackSlot r i # ys) s
     = run_block e nxt ys (s\<lparr>regs := (regs s)(r := load32 (mem s) (e (MO_FrameIndex i)))\<rparr>)"
  by (simp add: loadRegFromStackSlot_def exec_instr_def exec_groups_def move_def disp_val_def)

definition slot_addr :: "env \<Rightarrow> reg \<times> int \<Rightarrow> 32 word" where
  "slot_addr e c = e (MO_FrameIndex (snd c))"

lemma run_spills:
  assumes "\<forall>c \<in> set CSI. \<forall>c' \<in> set CSI. c \<noteq> c' \<longrightarrow> separated (slot_addr e c) (slot_addr e c')" "distinct CSI"
  shows "\<exists>m. run_block e nxt (spill_code CSI @ ys) s = run_block e nxt ys (s\<lparr>mem := m\<rparr>)
    \<and> (\<forall>c \<in> set CSI. load32 m (slot_addr e c) = regs s (fst c))
    \<and> (\<forall>b. (\<forall>c \<in> set CSI. separated (slot_addr e c) b) \<longrightarrow> load32 m b = load32 (mem s) b)"
  using assms
proof (induction CSI arbitrary: s)
  case Nil
  show ?case by (rule exI [where x = "mem s"]) (simp add: spill_code_def)
next
  case (Cons c CSI)
  obtain r i where c: "c = (r, i)" by (cases c)
  define s1 where "s1 = s\<lparr>mem := store32 (mem s) (slot_addr e c) (regs s r)\<rparr>"
  obtain m where m: "run_block e nxt (spill_code CSI @ ys) s1 = run_block e nxt ys (s1\<lparr>mem := m\<rparr>)"
      "\<forall>c \<in> set CSI. load32 m (slot_addr e c) = regs s1 (fst c)"
      "\<forall>b. (\<forall>c \<in> set CSI. separated (slot_addr e c) b) \<longrightarrow> load32 m b = load32 (mem s1) b"
    using Cons.IH [of s1] Cons.prems by auto
  have sep: "\<forall>c' \<in> set CSI. separated (slot_addr e c') (slot_addr e c)" using Cons.prems by auto
  have "run_block e nxt (spill_code (c # CSI) @ ys) s = run_block e nxt ys (s\<lparr>mem := m\<rparr>)"
    using m(1) by (simp add: c spill_code_Cons run_store_slot s1_def slot_addr_def del: run_block.simps)
  moreover have "load32 m (slot_addr e c) = regs s (fst c)"
    using m(3) sep by (simp add: s1_def load32_store32 c)
  moreover have "\<forall>c \<in> set CSI. load32 m (slot_addr e c) = regs s (fst c)" using m(2) by (simp add: s1_def)
  moreover have "load32 m b = load32 (mem s) b" if "\<forall>c' \<in> set (c # CSI). separated (slot_addr e c') b" for b
    using m(3) that by (simp add: s1_def load32_separated)
  ultimately show ?case by (intro exI [where x = m]) auto
qed

lemma foldl_restores:
  "foldl (\<lambda>code (r, i). loadRegFromStackSlot r i # code) acc CSI
     = map (\<lambda>(r, i). loadRegFromStackSlot r i) (rev CSI) @ acc"
  by (induction CSI arbitrary: acc) auto

lemma run_restores:
  assumes "distinct (map fst CSI)"
  shows "run_block e nxt (map (\<lambda>(r, i). loadRegFromStackSlot r i) CSI @ ys) s
    = run_block e nxt ys (s\<lparr>regs := (\<lambda>r. case map_of CSI r of Some i \<Rightarrow> load32 (mem s) (e (MO_FrameIndex i)) | None \<Rightarrow> regs s r)\<rparr>)"
  using assms
proof (induction CSI arbitrary: s)
  case (Cons c CSI)
  obtain r i where c: "c = (r, i)" by (cases c)
  have n: "map_of CSI r = None" using Cons.prems c by (simp add: map_of_eq_None_iff)
  have "(\<lambda>x. case map_of CSI x of Some i \<Rightarrow> load32 (mem s) (e (MO_FrameIndex i))
           | None \<Rightarrow> ((regs s)(r := load32 (mem s) (e (MO_FrameIndex i)))) x)
      = (\<lambda>x. case map_of ((r, i) # CSI) x of Some i \<Rightarrow> load32 (mem s) (e (MO_FrameIndex i)) | None \<Rightarrow> regs s x)"
    by (rule ext) (simp add: n split: option.split)
  then show ?case using Cons by (simp add: c run_load_slot del: run_block.simps cong: option.case_cong)
qed simp

lemma skip_terminators_append:
  assumes "\<forall>x \<in> set ts. isTerminator (opc x)" "xs = [] \<or> \<not> isTerminator (opc (last xs))"
  shows "skip_terminators (rev (xs @ ts)) suf = (rev xs, ts @ suf)"
  using assms
proof (induction ts arbitrary: suf rule: rev_induct)
  case Nil
  then show ?case by (cases xs rule: rev_cases) auto
qed simp

text \<open>The state \<open>s'\<close> with the saved registers as they were in \<open>s\<close>.\<close>

definition restored :: "(reg \<times> int) list \<Rightarrow> mstate \<Rightarrow> mstate \<Rightarrow> mstate" where
  "restored CSI s s' = s'\<lparr>regs := (\<lambda>r. if r \<in> fst ` set CSI then regs s r else regs s' r)\<rparr>"

text \<open>
  C23. The spills at the entry and the reloads in front of the terminators preserve the callee-saved
  registers. The spills store each of them in its slot and change no other word of memory. The reloads, from a
  state in which the slots hold what the spills stored, fall through to the terminators with each saved register at
  its value at the entry and everything else as it was; so when the body of a block leaves the slots alone, its
  terminators, a return among them, run in that state. The slots must not overlap.
\<close>

theorem callee_saves_restored:
  assumes "distinct (map fst CSI)"
    and "\<forall>c \<in> set CSI. \<forall>c' \<in> set CSI. c \<noteq> c' \<longrightarrow> separated (slot_addr e c) (slot_addr e c')"
    and "\<forall>x \<in> set ts. isTerminator (opc x)" "xs = [] \<or> \<not> isTerminator (opc (last xs))"
  shows "\<exists>code m. insert_restores CSI (xs @ ts) = xs @ code @ ts
    \<and> run_block e nxt (insert_spills CSI MBB) s = run_block e nxt MBB (s\<lparr>mem := m\<rparr>)
    \<and> (\<forall>b. (\<forall>c \<in> set CSI. separated (slot_addr e c) b) \<longrightarrow> load32 m b = load32 (mem s) b)
    \<and> (\<forall>s'. (\<forall>c \<in> set CSI. load32 (mem s') (slot_addr e c) = load32 m (slot_addr e c)) \<longrightarrow>
         run_block e None code s' = Some (restored CSI s s', To None)
         \<and> (\<forall>s0. run_block e None xs s0 = Some (s', To None) \<longrightarrow>
              run_block e nxt (insert_restores CSI (xs @ ts)) s0 = run_block e nxt ts (restored CSI s s')))"
proof -
  have d: "distinct CSI" using assms(1) by (simp add: distinct_map)
  obtain m where m: "run_block e nxt (spill_code CSI @ MBB) s = run_block e nxt MBB (s\<lparr>mem := m\<rparr>)"
      "\<forall>c \<in> set CSI. load32 m (slot_addr e c) = regs s (fst c)"
      "\<forall>b. (\<forall>c \<in> set CSI. separated (slot_addr e c) b) \<longrightarrow> load32 m b = load32 (mem s) b"
    using run_spills [OF assms(2) d, of nxt MBB s] by blast
  define code where "code = map (\<lambda>(r, i). loadRegFromStackSlot r i) (rev CSI)"
  have dr: "distinct (map fst (rev CSI))" using assms(1) by (simp add: rev_map [symmetric])
  have ins: "insert_restores CSI (xs @ ts) = xs @ code @ ts"
    using skip_terminators_append [OF assms(3,4), of "[]"]
    by (simp add: insert_restores_def foldl_restores code_def)
  have reload: "run_block e nxt (code @ ys) s' = run_block e nxt ys (restored CSI s s')"
    if s': "\<forall>c \<in> set CSI. load32 (mem s') (slot_addr e c) = load32 m (slot_addr e c)" for s' nxt ys
  proof -
    have "(case map_of (rev CSI) r of Some i \<Rightarrow> load32 (mem s') (e (MO_FrameIndex i)) | None \<Rightarrow> regs s' r)
        = (if r \<in> fst ` set CSI then regs s r else regs s' r)" for r
    proof (cases "map_of (rev CSI) r")
      case None
      then have "r \<notin> fst ` set CSI" by (simp add: map_of_eq_None_iff)
      then show ?thesis using None by simp
    next
      case (Some i)
      then have "(r, i) \<in> set CSI" by (auto dest: map_of_SomeD)
      then show ?thesis using Some s' m(2) by (force simp: slot_addr_def)
    qed
    then show ?thesis unfolding code_def run_restores [OF dr] by (simp add: restored_def)
  qed
  have "run_block e nxt (insert_restores CSI (xs @ ts)) s0 = run_block e nxt ts (restored CSI s s')"
    if "\<forall>c \<in> set CSI. load32 (mem s') (slot_addr e c) = load32 m (slot_addr e c)"
      "run_block e None xs s0 = Some (s', To None)" for s' s0
    unfolding ins run_block_append [of e nxt xs] that(2) by (simp add: reload [OF that(1)])
  moreover have "run_block e None code s' = Some (restored CSI s s', To None)"
    if "\<forall>c \<in> set CSI. load32 (mem s') (slot_addr e c) = load32 m (slot_addr e c)" for s'
    using reload [OF that, of None "[]"] by simp
  moreover have "run_block e nxt (insert_spills CSI MBB) s = run_block e nxt MBB (s\<lparr>mem := m\<rparr>)"
    using m(1) by (simp add: insert_spills_def)
  ultimately show ?thesis using m(3) ins by (intro exI [of _ code] exI [of _ m]) blast
qed

section \<open>Call frame information\<close>

lemma scan_call_frames:
  assumes "fold_result scan_call_frame mis st = Inr st'"
  shows "fst st \<le> fst st' \<and> (snd st \<longrightarrow> snd st') \<and> (\<forall>mi \<in> set mis. isFrameInstr mi \<longrightarrow> snd st'
     \<and> (\<exists>n. getFrameSize mi = Inr n \<and> u32 n \<le> fst st'))
     \<and> (fst st' = fst st \<or> (\<exists>mi \<in> set mis. \<exists>n. getFrameSize mi = Inr n \<and> fst st' = u32 n))"
  using assms
proof (induction mis arbitrary: st)
  case (Cons mi mis)
  obtain st1 where st1: "scan_call_frame mi st = Inr st1" "fold_result scan_call_frame mis st1 = Inr st'"
    using Cons.prems by (auto simp: bind_result_Inr_iff)
  have "fst st \<le> fst st1 \<and> (snd st \<longrightarrow> snd st1) \<and> (isFrameInstr mi \<longrightarrow> snd st1
      \<and> (\<exists>n. getFrameSize mi = Inr n \<and> u32 n \<le> fst st1))
      \<and> (fst st1 = fst st \<or> (\<exists>n. getFrameSize mi = Inr n \<and> fst st1 = u32 n))"
    using st1(1) by (auto simp: scan_call_frame_def bind_result_Inr_iff Let_def split: if_splits)
  then show ?case using Cons.IH [OF st1(2)] by (auto intro: order_trans)
qed simp

lemma eliminate_in_block_none: "eliminate_in_block mis = Inr mis' \<Longrightarrow> \<forall>x \<in> set mis'. \<not> isFrameInstr x"
  by (induction mis arbitrary: mis')
    (auto simp: bind_result_Inr_iff eliminateCallFramePseudoInstr_def isFrameInstr_def Let_def split: if_splits)

lemma map_blocks_eliminated:
  "map_blocks eliminate_in_block Fn = Inr Fn' \<Longrightarrow> \<forall>b \<in> set Fn'. \<forall>x \<in> set b. \<not> isFrameInstr x"
  by (induction Fn arbitrary: Fn') (auto simp: bind_result_Inr_iff dest!: eliminate_in_block_none)

text \<open>
  After \<open>calculateCallFrameInfo\<close> the recorded maximum is the size of the largest call frame of the
  function, zero when there is none, the stack counts as adjusted when there is a call frame,
  \<open>computeMaxCallFrameSize\<close> would have recorded the same (so the assertion of the pass holds after it), and a
  target with a reserved call frame or a frame pointer has lost the pseudo instructions while any other
  keeps them for the resolution of the frame indices.
\<close>

theorem calculateCallFrameInfo_spec:
  assumes "calculateCallFrameInfo tgt fi Fn = Inr (fi', Fn')"
  shows "(\<forall>mi \<in> set (concat Fn). isFrameInstr mi \<longrightarrow> AdjustsStack fi'
        \<and> (\<exists>n. getFrameSize mi = Inr n \<and> u32 n \<le> MaxCallFrameSize fi'))
    \<and> (MaxCallFrameSize fi' = 0
        \<or> (\<exists>mi \<in> set (concat Fn). \<exists>n. getFrameSize mi = Inr n \<and> MaxCallFrameSize fi' = u32 n))
    \<and> (if canSimplifyCallFramePseudos tgt then \<forall>mi \<in> set (concat Fn'). \<not> isFrameInstr mi else Fn' = Fn)
    \<and> computeMaxCallFrameSize fi Fn = Inr fi' \<and> Objects fi' = Objects fi"
proof -
  obtain st where st: "fold_result scan_call_frame (concat Fn) (0, AdjustsStack fi) = Inr st"
      "fi' = fi\<lparr>AdjustsStack := snd st, MaxCallFrameSize := fst st\<rparr>"
      "if canSimplifyCallFramePseudos tgt then map_blocks eliminate_in_block Fn = Inr Fn' else Fn' = Fn"
    using assms by (auto simp: calculateCallFrameInfo_def bind_result_Inr_iff Let_def split: if_splits)
  show ?thesis
    using scan_call_frames [OF st(1)] st by (auto simp: computeMaxCallFrameSize_def dest: map_blocks_eliminated split: if_splits)
qed

section \<open>A concrete function\<close>

text \<open>A frame with one word, and a block that writes it, also from inside a call sequence.\<close>

definition word_frame :: frame_info where
  "word_frame = empty_2003f_frame\<lparr>
     Objects := [StackObject 4 4 (-4) False True None False], StackSize := 8, MaxAlignment := 4\<rparr>"

definition word_block :: "minstr list" where
  "word_block =
     [mk_instr ADJCALLSTACKDOWN [MO_Immediate 4, MO_Immediate 0],
      mk_instr KRZmi [MO_FrameIndex 0, use_reg NoRegister, MO_Immediate 0, MO_Immediate 7],
      mk_instr ADJCALLSTACKUP [MO_Immediate 4, MO_Immediate 0],
      mk_instr ATAframe [def_reg F1, MO_FrameIndex 0, MO_Immediate 0]]"

definition word_env :: env where
  "word_env x = (if x = MO_FrameIndex 0 then 96 else 0)"

definition word_state :: mstate where
  "word_state = \<lparr>regs = (\<lambda>r. if r = F5 then 92 else 0), mem = (\<lambda>_. 0), cond_flag = False\<rparr>"

lemmas block_eval = replaceFrameIndices_def isFrameInstr_def getSPAdjust_def getFrameSize_def get_operand_def
  alignSPAdjust_def f2003f_target_def alignTo_def u64_id i32_id u32_id i64_id eliminateCallFramePseudoInstr_def
  eliminateFrameIndex_def getObjectOffset_def get_object_def valid_index_def object_at_def slot_of_def
  StackObject_def dead_size_def Let_def remove_nth_def

theorem replaceFrameIndices_runs_witness:
  "\<exists>mis' sp. replaceFrameIndices f2003f_target word_frame 0 word_block = Inr (mis', sp)
     \<and> run_block word_env None mis' word_state = run_block word_env None word_block word_state"
proof -
  have "frame_env word_frame 100 word_env"
    by (auto simp: frame_env_def word_env_def word_frame_def getObjectOffset_def get_object_def
        valid_index_def object_at_def slot_of_def StackObject_def empty_2003f_frame_def new_frame_info_def
        bind_result_Inr_iff split: if_splits)
  moreover have "sp_at word_frame 100 0 word_state"
    by (simp add: sp_at_def word_state_def word_frame_def)
  moreover have "\<forall>mi \<in> set word_block. resolvable mi"
    by (simp add: word_block_def resolvable_def isFrameInstr_def keeps_F5_def fi_shape_Mem fi_shape_other)
  moreover obtain mis' sp where "replaceFrameIndices f2003f_target word_frame 0 word_block = Inr (mis', sp)"
    by (simp add: word_block_def word_frame_def empty_2003f_frame_def new_frame_info_def block_eval)
  ultimately show ?thesis using replaceFrameIndices_runs by blast
qed

theorem prologue_epilogue_cancel_witness:
  "\<exists>p q. emitPrologue word_frame 0 word_block = Inr (p @ word_block)
     \<and> emitEpilogue word_frame (word_block @ [mk_instr KRZ_DOSNUD []])
         = Inr (word_block @ q @ [mk_instr KRZ_DOSNUD []])"
proof -
  have "opc (mk_instr KRZ_DOSNUD []) = KRZ_DOSNUD" "\<not> inside_bundle (mk_instr KRZ_DOSNUD [])" by simp_all
  from prologue_epilogue_cancel [OF this, of word_frame word_block word_block] show ?thesis by blast
qed

text \<open>A function that overwrites \<open>F2\<close> between the spill and the reload, and returns with its old value.\<close>

definition clobber :: minstr where
  "clobber = mk_instr KRZri [def_reg F2, MO_Immediate 7]"

definition clobber_state :: mstate where
  "clobber_state = word_state\<lparr>regs := (regs word_state)(F2 := 5)\<rparr>"

lemma run_clobber: "run_block word_env None [clobber] s = Some (s\<lparr>regs := (regs s)(F2 := 7)\<rparr>, To None)"
  by (simp add: clobber_def exec_instr_def exec_groups_def move_def)

theorem callee_saves_restored_witness:
  "\<exists>s'. run_block word_env None (insert_restores [(F2, 0)] (insert_spills [(F2, 0)] [clobber] @ [mk_instr KRZ_DOSNUD []]))
      clobber_state = Some (s', Returns) \<and> regs s' F2 = 5"
proof -
  let ?xs = "insert_spills [(F2, 0)] [clobber]"
  have "distinct (map fst [(F2, 0 :: int)])" by simp
  moreover have "\<forall>c \<in> set [(F2, 0)]. \<forall>c' \<in> set [(F2, 0)]. c \<noteq> c'
      \<longrightarrow> separated (slot_addr word_env c) (slot_addr word_env c')" by simp
  moreover have "\<forall>x \<in> set [mk_instr KRZ_DOSNUD []]. isTerminator (opc x)" by (simp add: desc_flags)
  moreover have "?xs = [] \<or> \<not> isTerminator (opc (last ?xs))"
    by (simp add: insert_spills_def clobber_def desc_flags)
  ultimately obtain m where m: "run_block word_env None ?xs clobber_state =
        run_block word_env None [clobber] (clobber_state\<lparr>mem := m\<rparr>)"
      "\<And>s' s0. \<forall>c \<in> set [(F2, 0)]. load32 (mem s') (slot_addr word_env c) = load32 m (slot_addr word_env c) \<Longrightarrow>
        run_block word_env None ?xs s0 = Some (s', To None) \<Longrightarrow>
        run_block word_env None (insert_restores [(F2, 0)] (?xs @ [mk_instr KRZ_DOSNUD []])) s0 =
          run_block word_env None [mk_instr KRZ_DOSNUD []] (restored [(F2, 0)] clobber_state s')"
    using callee_saves_restored [where CSI = "[(F2, 0)]" and ts = "[mk_instr KRZ_DOSNUD []]" and xs = ?xs
        and e = word_env and nxt = None and MBB = "[clobber]" and s = clobber_state] by blast
  define s' where "s' = clobber_state\<lparr>mem := m, regs := (regs clobber_state)(F2 := 7)\<rparr>"
  have "run_block word_env None ?xs clobber_state = Some (s', To None)"
    unfolding m(1) run_clobber by (simp add: s'_def)
  then have "run_block word_env None (insert_restores [(F2, 0)] (?xs @ [mk_instr KRZ_DOSNUD []])) clobber_state =
      run_block word_env None [mk_instr KRZ_DOSNUD []] (restored [(F2, 0)] clobber_state s')"
    by (intro m(2)) (simp_all add: s'_def)
  then show ?thesis by (simp add: restored_def clobber_state_def)
qed

theorem calculateCallFrameInfo_spec_witness:
  "\<exists>fi'. calculateCallFrameInfo f2003f_target empty_2003f_frame [word_block] = Inr (fi', [word_block])
     \<and> 4 \<le> MaxCallFrameSize fi'"
proof -
  have c: "\<exists>fi'. calculateCallFrameInfo f2003f_target empty_2003f_frame [word_block] = Inr (fi', [word_block])"
    by (simp add: calculateCallFrameInfo_def word_block_def scan_call_frame_def isMaxCallFrameSizeComputed_def
        empty_2003f_frame_def new_frame_info_def canSimplifyCallFramePseudos_def block_eval)
  then obtain fi' where fi': "calculateCallFrameInfo f2003f_target empty_2003f_frame [word_block] = Inr (fi', [word_block])"
    by blast
  have "hd word_block \<in> set (concat [word_block])" "isFrameInstr (hd word_block)" "getFrameSize (hd word_block) = Inr 4"
    by (simp_all add: word_block_def block_eval)
  with calculateCallFrameInfo_spec [OF fi'] fi' show ?thesis by (force simp: u32_id)
qed

end
