(* ===== verification/ReplaceIndices.thy ===== *)
theory ReplaceIndices
  imports PrologEpilog
begin

text \<open>
  The traversal of \<open>PEI::replaceFrameIndices\<close> over a whole function (\<open>lib/CodeGen/PrologEpilogInserter.cpp\<close>):
  the reachable blocks in depth-first order, each entered with the stack adjustment its predecessor on
  the path left (\<open>SPState\<close>), then the unreachable blocks with none. The iterator is that of
  \<open>include/llvm/ADT/DepthFirstIterator.h\<close>: a stack of blocks with the successors still to look at, and the set
  of the blocks visited.

  A block is its position in the function, which is also its number; \<open>succs\<close> is the list of successors of
  each block. A control flow graph with an edge to a block that is not there has no C++ counterpart; the model
  stops with \<open>Unreachable\<close>.
\<close>

section \<open>The depth-first iterator\<close>

text \<open>\<open>toNext\<close>: pop the blocks without a successor left to visit, push the first one found.\<close>

function toNext :: "(nat \<Rightarrow> nat list) \<Rightarrow> (nat \<times> nat list) list \<Rightarrow> nat set \<Rightarrow> (nat \<times> nat list) list \<times> nat set" where
  "toNext succs [] Visited = ([], Visited)"
| "toNext succs ((Node, []) # st) Visited = toNext succs st Visited"
| "toNext succs ((Node, Next # cs) # st) Visited =
     (if Next \<in> Visited then toNext succs ((Node, cs) # st) Visited
      else ((Next, succs Next) # (Node, cs) # st, insert Next Visited))"
  by pat_completeness auto

termination toNext
  by (relation "measure (\<lambda>(_, st, _). sum_list (map (\<lambda>(_, cs). Suc (length cs)) st))") auto

text \<open>What \<open>toNext\<close> guarantees: a new block is pushed on a suffix of the stack, whose successors left out
  have all been visited.\<close>

lemma toNext_cases:
  assumes "toNext succs st V = (st', V')"
  shows "(st' = [] \<and> V' = V \<and> (\<forall>(n, cs) \<in> set st. set cs \<subseteq> V)) \<or>
    (\<exists>m n cs pre cs0 rest. st' = (m, succs m) # (n, cs) # rest \<and> m \<notin> V \<and> V' = insert m V \<and>
       st = pre @ (n, cs0) # rest \<and> m \<in> set cs0 \<and> set cs \<subseteq> set cs0 \<and> set cs0 \<subseteq> insert m V \<union> set cs \<and>
       (\<forall>(n, cs) \<in> set pre. set cs \<subseteq> V))"
  using assms
proof (induction succs st V arbitrary: st' V' rule: toNext.induct)
  case (2 succs Node st Visited)
  have "toNext succs st Visited = (st', V')" using "2.prems" by simp
  from "2.IH" [OF this] show ?case
  proof (elim disjE exE conjE)
    fix m n cs pre cs0 rest
    assume a: "st' = (m, succs m) # (n, cs) # rest" "m \<notin> Visited" "V' = insert m Visited"
      "st = pre @ (n, cs0) # rest" "m \<in> set cs0" "set cs \<subseteq> set cs0" "set cs0 \<subseteq> insert m Visited \<union> set cs"
      "\<forall>(n, cs) \<in> set pre. set cs \<subseteq> Visited"
    show ?thesis
      by (intro disjI2 exI [of _ m] exI [of _ n] exI [of _ cs] exI [of _ "(Node, []) # pre"] exI [of _ cs0] exI [of _ rest])
        (use a in simp)
  qed simp
next
  case (3 succs Node Next cs st Visited)
  show ?case
  proof (cases "Next \<in> Visited")
    case True
    then have "toNext succs ((Node, cs) # st) Visited = (st', V')" using "3.prems" by simp
    from "3.IH" [OF True this] show ?thesis
    proof (elim disjE exE conjE)
      fix m n cs' pre cs0 rest
      assume a: "st' = (m, succs m) # (n, cs') # rest" "m \<notin> Visited" "V' = insert m Visited"
        "(Node, cs) # st = pre @ (n, cs0) # rest" "m \<in> set cs0" "set cs' \<subseteq> set cs0" "set cs0 \<subseteq> insert m Visited \<union> set cs'"
        "\<forall>(n, cs) \<in> set pre. set cs \<subseteq> Visited"
      show ?thesis
      proof (cases pre)
        case Nil
        show ?thesis
          by (intro disjI2 exI [of _ m] exI [of _ n] exI [of _ cs'] exI [of _ "[]"] exI [of _ "Next # cs0"] exI [of _ rest])
            (use a Nil True in auto)
      next
        case (Cons x pre')
        show ?thesis
          by (intro disjI2 exI [of _ m] exI [of _ n] exI [of _ cs'] exI [of _ "(Node, Next # cs) # pre'"] exI [of _ cs0] exI [of _ rest])
            (use a Cons True in auto)
      qed
    qed (use True in auto)
  next
    case False
    then have "st' = (Next, succs Next) # (Node, cs) # st" "V' = insert Next Visited" using "3.prems" by auto
    then show ?thesis
      by (intro disjI2 exI [of _ Next] exI [of _ Node] exI [of _ cs] exI [of _ "[]"] exI [of _ "Next # cs"] exI [of _ st])
        (use False in auto)
  qed
qed simp

section \<open>The traversal\<close>

text \<open>The stack is that of the iterator, its top is the block \<open>*DFI\<close> to be processed.\<close>

function replace_dfs :: "frame_target \<Rightarrow> frame_info \<Rightarrow> (nat \<Rightarrow> nat list) \<Rightarrow> (nat \<times> nat list) list \<Rightarrow> nat set
    \<Rightarrow> int list \<Rightarrow> minstr list list \<Rightarrow> (nat set \<times> minstr list list) result" where
  "replace_dfs tgt fi succs [] Reachable SPState Fn = Inr (Reachable, Fn)"
| "replace_dfs tgt fi succs ((BB, cs) # path) Reachable SPState Fn =
     (if \<not> BB < length Fn then Inl Unreachable
      else bind_result
        (case path of
           [] \<Rightarrow> Inr 0
         | (StackPred, _) # _ \<Rightarrow> if StackPred \<in> Reachable then Inr (SPState ! StackPred) else Inl AssertFailed) (\<lambda>SPAdj.
        bind_result (replaceFrameIndices tgt fi SPAdj (Fn ! BB)) (\<lambda>(MBB, SPAdj).
        case toNext succs ((BB, cs) # path) Reachable of (st, Reachable) \<Rightarrow>
          replace_dfs tgt fi succs st Reachable (SPState[BB := SPAdj]) (Fn[BB := MBB]))))"
  by pat_completeness auto

definition top_rank :: "(nat \<times> nat list) list \<Rightarrow> nat \<Rightarrow> nat" where
  "top_rank st N = (case st of [] \<Rightarrow> 0 | (b, _) # _ \<Rightarrow> if b < N then 2 else 1)"

lemma toNext_rank:
  assumes "toNext succs ((b, cs) # path) V = (st', V')" "b < N"
  shows "card ({..<N} - V') < card ({..<N} - V) \<or> card ({..<N} - V') = card ({..<N} - V) \<and> top_rank st' N < top_rank ((b, cs) # path) N"
proof (cases "st' = []")
  case True
  then show ?thesis using toNext_cases [OF assms(1)] assms(2) by (auto simp: top_rank_def)
next
  case False
  then obtain m rest where m: "st' = (m, succs m) # rest" "m \<notin> V" "V' = insert m V" using toNext_cases [OF assms(1)] by auto
  show ?thesis
  proof (cases "m < N")
    case True
    then have "{..<N} - V' \<subset> {..<N} - V" using m by auto
    then show ?thesis by (simp add: psubset_card_mono)
  next
    case False
    then have "{..<N} - V' = {..<N} - V" using m by auto
    then show ?thesis using False m assms(2) by (simp add: top_rank_def)
  qed
qed

termination replace_dfs
  by (relation "measures [\<lambda>(_, _, _, st, V, _, Fn). card ({..<length Fn} - V), \<lambda>(_, _, _, st, _, _, Fn). top_rank st (length Fn)]")
    (auto dest!: toNext_rank [OF sym])

declare replace_dfs.simps(2) [simp del]

text \<open>The blocks the traversal did not reach.\<close>

definition replace_rest :: "frame_target \<Rightarrow> frame_info \<Rightarrow> nat set \<Rightarrow> minstr list list \<Rightarrow> minstr list list result" where
  "replace_rest tgt fi Reachable Fn =
     fold_result (\<lambda>BB Fn. if BB \<in> Reachable then Inr Fn
        else bind_result (replaceFrameIndices tgt fi 0 (Fn ! BB)) (\<lambda>(MBB, _). Inr (Fn[BB := MBB]))) [0 ..< length Fn] Fn"

definition replaceFrameIndices_function :: "frame_target \<Rightarrow> frame_info \<Rightarrow> (nat \<Rightarrow> nat list) \<Rightarrow> minstr list list
    \<Rightarrow> minstr list list result" where
  "replaceFrameIndices_function tgt fi succs Fn =
     (if \<not> needsFrameIndexResolution tgt fi then Inr Fn
      else bind_result (replace_dfs tgt fi succs [(0, succs 0)] {0} (replicate (length Fn) 0) Fn) (\<lambda>(Reachable, Fn).
        replace_rest tgt fi Reachable Fn))"

section \<open>Every block is resolved once\<close>

text \<open>The adjustments with which a block may be entered: none at the entry, elsewhere what a predecessor entered
  in this way leaves.\<close>

inductive entered :: "frame_target \<Rightarrow> frame_info \<Rightarrow> (nat \<Rightarrow> nat list) \<Rightarrow> minstr list list \<Rightarrow> nat \<Rightarrow> int \<Rightarrow> bool"
  for tgt fi succs Fn where
  entry: "entered tgt fi succs Fn 0 0"
| edge: "entered tgt fi succs Fn p n \<Longrightarrow> p < length Fn \<Longrightarrow> replaceFrameIndices tgt fi n (Fn ! p) = Inr (mis, n')
    \<Longrightarrow> q \<in> set (succs p) \<Longrightarrow> entered tgt fi succs Fn q n'"

definition resolved_block :: "frame_target \<Rightarrow> frame_info \<Rightarrow> (nat \<Rightarrow> nat list) \<Rightarrow> minstr list list \<Rightarrow> int list
    \<Rightarrow> minstr list list \<Rightarrow> nat \<Rightarrow> bool" where
  "resolved_block tgt fi succs Fn0 SPState Fn b =
     (\<exists>n. entered tgt fi succs Fn0 b n \<and> replaceFrameIndices tgt fi n (Fn0 ! b) = Inr (Fn ! b, SPState ! b))"

text \<open>All blocks but the top of the stack that are visited are resolved, the others are as they were; the
  successors of a visited block are visited or waiting on the stack.\<close>

definition dfs_inv :: "frame_target \<Rightarrow> frame_info \<Rightarrow> (nat \<Rightarrow> nat list) \<Rightarrow> minstr list list \<Rightarrow> nat option
    \<Rightarrow> (nat \<times> nat list) list \<Rightarrow> nat set \<Rightarrow> int list \<Rightarrow> minstr list list \<Rightarrow> bool" where
  "dfs_inv tgt fi succs Fn0 pending st V SPState Fn =
     (length Fn = length Fn0 \<and> length SPState = length Fn0 \<and> 0 \<in> V \<and>
      (\<forall>b \<in> V. Some b \<noteq> pending \<longrightarrow> b < length Fn0 \<and> resolved_block tgt fi succs Fn0 SPState Fn b) \<and>
      (\<forall>b < length Fn0. b \<notin> V \<or> Some b = pending \<longrightarrow> Fn ! b = Fn0 ! b) \<and>
      fst ` set st \<subseteq> V \<and>
      (\<forall>b \<in> V - fst ` set st. set (succs b) \<subseteq> V) \<and>
      (\<forall>(b, cs) \<in> set st. set cs \<subseteq> set (succs b) \<and> set (succs b) \<subseteq> V \<union> set cs) \<and>
      (case pending of None \<Rightarrow> True
       | Some b \<Rightarrow> (\<exists>cs path. st = (b, cs) # path \<and> b \<notin> fst ` set path \<and>
           (case path of [] \<Rightarrow> b = 0 | (p, _) # _ \<Rightarrow> b \<in> set (succs p)))))"

lemma dfs_invD:
  assumes "dfs_inv tgt fi succs Fn0 pending st V SPState Fn"
  shows "length Fn = length Fn0" "length SPState = length Fn0" "0 \<in> V"
    "b \<in> V \<Longrightarrow> Some b \<noteq> pending \<Longrightarrow> b < length Fn0 \<and> resolved_block tgt fi succs Fn0 SPState Fn b"
    "b < length Fn0 \<Longrightarrow> b \<notin> V \<or> Some b = pending \<Longrightarrow> Fn ! b = Fn0 ! b"
    "fst ` set st \<subseteq> V" "b \<in> V \<Longrightarrow> b \<notin> fst ` set st \<Longrightarrow> set (succs b) \<subseteq> V"
    "(b, cs) \<in> set st \<Longrightarrow> set cs \<subseteq> set (succs b) \<and> set (succs b) \<subseteq> V \<union> set cs"
    "pending = Some b \<Longrightarrow> \<exists>cs path. st = (b, cs) # path \<and> b \<notin> fst ` set path \<and>
       (case path of [] \<Rightarrow> b = 0 | (p, _) # _ \<Rightarrow> b \<in> set (succs p))"
proof -
  note I = assms [unfolded dfs_inv_def]
  show "length Fn = length Fn0" "length SPState = length Fn0" "0 \<in> V" "fst ` set st \<subseteq> V" using I by simp_all
  show "b \<in> V \<Longrightarrow> Some b \<noteq> pending \<Longrightarrow> b < length Fn0 \<and> resolved_block tgt fi succs Fn0 SPState Fn b"
    "b < length Fn0 \<Longrightarrow> b \<notin> V \<or> Some b = pending \<Longrightarrow> Fn ! b = Fn0 ! b"
    "b \<in> V \<Longrightarrow> b \<notin> fst ` set st \<Longrightarrow> set (succs b) \<subseteq> V" using I by blast+
  have "\<forall>(b, cs) \<in> set st. set cs \<subseteq> set (succs b) \<and> set (succs b) \<subseteq> V \<union> set cs" using I by blast
  then show "(b, cs) \<in> set st \<Longrightarrow> set cs \<subseteq> set (succs b) \<and> set (succs b) \<subseteq> V \<union> set cs" by fast
  show "pending = Some b \<Longrightarrow> \<exists>cs path. st = (b, cs) # path \<and> b \<notin> fst ` set path \<and>
       (case path of [] \<Rightarrow> b = 0 | (p, _) # _ \<Rightarrow> b \<in> set (succs p))" using I by simp
qed

lemma dfs_invI:
  assumes "length Fn = length Fn0" "length SPState = length Fn0" "0 \<in> V"
    "\<And>b. b \<in> V \<Longrightarrow> Some b \<noteq> pending \<Longrightarrow> b < length Fn0 \<and> resolved_block tgt fi succs Fn0 SPState Fn b"
    "\<And>b. b < length Fn0 \<Longrightarrow> b \<notin> V \<or> Some b = pending \<Longrightarrow> Fn ! b = Fn0 ! b"
    "fst ` set st \<subseteq> V" "\<And>b. b \<in> V \<Longrightarrow> b \<notin> fst ` set st \<Longrightarrow> set (succs b) \<subseteq> V"
    "\<And>b cs. (b, cs) \<in> set st \<Longrightarrow> set cs \<subseteq> set (succs b) \<and> set (succs b) \<subseteq> V \<union> set cs"
    "\<And>b. pending = Some b \<Longrightarrow> \<exists>cs path. st = (b, cs) # path \<and> b \<notin> fst ` set path \<and>
       (case path of [] \<Rightarrow> b = 0 | (p, _) # _ \<Rightarrow> b \<in> set (succs p))"
  shows "dfs_inv tgt fi succs Fn0 pending st V SPState Fn"
  unfolding dfs_inv_def
proof (intro conjI)
  show "case pending of None \<Rightarrow> True
       | Some b \<Rightarrow> (\<exists>cs path. st = (b, cs) # path \<and> b \<notin> fst ` set path \<and>
           (case path of [] \<Rightarrow> b = 0 | (p, _) # _ \<Rightarrow> b \<in> set (succs p)))"
    using assms(9) by (cases pending) simp_all
  show "\<forall>(b, cs) \<in> set st. set cs \<subseteq> set (succs b) \<and> set (succs b) \<subseteq> V \<union> set cs" using assms(8) by fast
qed (use assms(1-7) in blast)+

lemma dfs_inv_next:
  assumes "dfs_inv tgt fi succs Fn0 None st V SPState Fn" "toNext succs st V = (st', V')"
  shows "dfs_inv tgt fi succs Fn0 (if st' = [] then None else Some (fst (hd st'))) st' V' SPState Fn"
  using toNext_cases [OF assms(2)]
proof (elim disjE exE conjE)
  note D = dfs_invD [OF assms(1)]
  assume e: "st' = []" "V' = V" and cs: "\<forall>(n, cs) \<in> set st. set cs \<subseteq> V"
  have "set (succs b) \<subseteq> V" if "b \<in> V" for b
  proof (cases "b \<in> fst ` set st")
    case True
    then obtain cs' where "(b, cs') \<in> set st" by auto
    then show ?thesis using D(8) cs by fast
  qed (use D(7) that in blast)
  then show ?thesis unfolding e by (intro dfs_invI) (use D in \<open>auto simp del: not_None_eq\<close>)
next
  fix m n cs pre cs0 rest
  assume a: "st' = (m, succs m) # (n, cs) # rest" "m \<notin> V" "V' = insert m V" "st = pre @ (n, cs0) # rest"
    "m \<in> set cs0" "set cs \<subseteq> set cs0" "set cs0 \<subseteq> insert m V \<union> set cs" and pre: "\<forall>(n, cs) \<in> set pre. set cs \<subseteq> V"
  note D = dfs_invD [OF assms(1)]
  have n: "set cs0 \<subseteq> set (succs n) \<and> set (succs n) \<subseteq> V \<union> set cs0" by (rule D(8)) (simp add: a(4))
  have fst_st: "fst ` set st \<subseteq> V" by (rule D(6))
  have "dfs_inv tgt fi succs Fn0 (Some m) st' V' SPState Fn"
  proof (rule dfs_invI)
    show "length Fn = length Fn0" "length SPState = length Fn0" using D(1,2) .
    show "0 \<in> V'" using D(3) a(3) by simp
    show "b < length Fn0 \<and> resolved_block tgt fi succs Fn0 SPState Fn b" if "b \<in> V'" "Some b \<noteq> Some m" for b
      using D(4) [of b] that a(3) by auto
    show "Fn ! b = Fn0 ! b" if "b < length Fn0" "b \<notin> V' \<or> Some b = Some m" for b
      using D(5) [OF that(1)] that(2) a(2,3) by auto
    show "fst ` set st' \<subseteq> V'" using fst_st a(1,3,4) by auto
    show "set (succs b) \<subseteq> V'" if "b \<in> V'" "b \<notin> fst ` set st'" for b
    proof (cases "b \<in> fst ` set pre")
      case True
      then obtain cs' where c: "(b, cs') \<in> set pre" by auto
      then have "set (succs b) \<subseteq> V \<union> set cs'" using D(8) a(4) by simp
      then show ?thesis using pre c a(3) by blast
    next
      case False
      then have "b \<in> V" "b \<notin> fst ` set st" using that a(1,3,4) by auto
      then show ?thesis using D(7) a(3) by blast
    qed
    show "set cs' \<subseteq> set (succs b) \<and> set (succs b) \<subseteq> V' \<union> set cs'" if bc: "(b, cs') \<in> set st'" for b cs'
    proof -
      consider "b = m" "cs' = succs m" | "b = n" "cs' = cs" | "(b, cs') \<in> set rest" using bc a(1) by auto
      then show ?thesis
      proof cases
        case 3
        then show ?thesis using D(8) [of b cs'] a(3,4) by auto
      qed (use n a(3,6,7) in auto)
    qed
    show "\<exists>cs path. st' = (b, cs) # path \<and> b \<notin> fst ` set path \<and>
       (case path of [] \<Rightarrow> b = 0 | (p, _) # _ \<Rightarrow> b \<in> set (succs p))" if "Some m = Some b" for b
      using that fst_st a(1,2,4,5) n by (intro exI [of _ "succs m"] exI [of _ "(n, cs) # rest"]) auto
  qed
  then show ?thesis using a(1) by simp
qed

lemma dfs_inv_visit:
  assumes inv: "dfs_inv tgt fi succs Fn0 (Some BB) ((BB, cs) # path) V SPState Fn" and "BB < length Fn"
    and adj: "(case path of [] \<Rightarrow> Inr 0 | (p, _) # _ \<Rightarrow> if p \<in> V then Inr (SPState ! p) else Inl AssertFailed) = Inr n"
    and run: "replaceFrameIndices tgt fi n (Fn ! BB) = Inr (MBB, n')"
  shows "dfs_inv tgt fi succs Fn0 None ((BB, cs) # path) V (SPState[BB := n']) (Fn[BB := MBB])"
proof -
  note D = dfs_invD [OF inv]
  have old: "Fn ! BB = Fn0 ! BB" using D(5) [of BB] D(1) assms(2) by simp
  have top: "BB \<notin> fst ` set path" "case path of [] \<Rightarrow> BB = 0 | (p, _) # _ \<Rightarrow> BB \<in> set (succs p)"
    using D(9) [of BB] by auto
  have "entered tgt fi succs Fn0 BB n"
  proof (cases path)
    case Nil
    then have "BB = 0" "n = 0" using top adj by auto
    then show ?thesis by (simp add: entered.entry)
  next
    case (Cons x xs)
    obtain p cs' where x: "x = (p, cs')" by (cases x)
    have p: "p \<in> V" "p \<noteq> BB" "BB \<in> set (succs p)" "n = SPState ! p"
      using top adj Cons x by (auto split: if_splits)
    have "p < length Fn0" "resolved_block tgt fi succs Fn0 SPState Fn p" using D(4) [of p] p by auto
    then show ?thesis using p(3,4) entered.edge unfolding resolved_block_def by metis
  qed
  then have BB: "resolved_block tgt fi succs Fn0 (SPState[BB := n']) (Fn[BB := MBB]) BB"
    using run old assms(2) D(1,2) by (auto simp: resolved_block_def)
  show ?thesis
  proof (rule dfs_invI)
    show "b < length Fn0 \<and> resolved_block tgt fi succs Fn0 (SPState[BB := n']) (Fn[BB := MBB]) b" if "b \<in> V" for b
    proof (cases "b = BB")
      case False
      then have "b < length Fn0 \<and> resolved_block tgt fi succs Fn0 SPState Fn b" using D(4) [of b] that by simp
      then show ?thesis using False by (simp add: resolved_block_def)
    qed (use BB D(1) assms(2) in simp)
    show "Fn[BB := MBB] ! b = Fn0 ! b" if "b < length Fn0" "b \<notin> V \<or> Some b = None" for b
      using D(5) [of b] D(6) that by (cases "b = BB") auto
  qed (use D in auto)
qed

lemma replace_dfs_resolves:
  assumes "dfs_inv tgt fi succs Fn0 (if st = [] then None else Some (fst (hd st))) st V SPState Fn"
    and "replace_dfs tgt fi succs st V SPState Fn = Inr (V', Fn')"
  shows "\<exists>SPState'. dfs_inv tgt fi succs Fn0 None [] V' SPState' Fn'"
  using assms
proof (induction tgt fi succs st V SPState Fn rule: replace_dfs.induct)
  case (1 tgt fi succs Reachable SPState Fn)
  then show ?case by auto
next
  case (2 tgt fi succs BB cs path V SPState Fn)
  obtain n MBB n' st' V1 where r: "BB < length Fn"
      "(case path of [] \<Rightarrow> Inr 0 | (p, _) # _ \<Rightarrow> if p \<in> V then Inr (SPState ! p) else Inl AssertFailed) = Inr n"
      "replaceFrameIndices tgt fi n (Fn ! BB) = Inr (MBB, n')" "toNext succs ((BB, cs) # path) V = (st', V1)"
      "replace_dfs tgt fi succs st' V1 (SPState[BB := n']) (Fn[BB := MBB]) = Inr (V', Fn')"
    using "2.prems"(2) by (cases "toNext succs ((BB, cs) # path) V")
      (auto simp: replace_dfs.simps(2) bind_result_Inr_iff simp del: toNext.simps split: if_splits)
  have "dfs_inv tgt fi succs Fn0 None ((BB, cs) # path) V (SPState[BB := n']) (Fn[BB := MBB])"
    using dfs_inv_visit [OF _ r(1-3)] "2.prems"(1) by simp
  from dfs_inv_next [OF this r(4)] show ?case
    using "2.IH" [OF _ r(2,3) refl _ _ r(5)] r(1,4) by auto
qed

lemma entered_reachable: "entered tgt fi succs Fn b n \<Longrightarrow> (0, b) \<in> {(p, q). q \<in> set (succs p)}\<^sup>*"
  by (induction rule: entered.induct) (auto intro: rtrancl_into_rtrancl)

lemma fold_blocks:
  assumes "fold_result (\<lambda>BB Fn. if BB \<in> V then Inr Fn
      else bind_result (f (Fn ! BB)) (\<lambda>(MBB, _). Inr (Fn[BB := MBB]))) bs Fn = Inr Fn'"
    and "distinct bs" "\<forall>b \<in> set bs. b < length Fn"
  shows "length Fn' = length Fn \<and> (\<forall>b. b \<in> V \<or> b \<notin> set bs \<longrightarrow> Fn' ! b = Fn ! b)
    \<and> (\<forall>b \<in> set bs. b \<notin> V \<longrightarrow> (\<exists>k. f (Fn ! b) = Inr (Fn' ! b, k)))"
  using assms
proof (induction bs arbitrary: Fn)
  case (Cons b bs)
  obtain Fn1 where F1: "(if b \<in> V then Inr Fn else bind_result (f (Fn ! b)) (\<lambda>(MBB, _). Inr (Fn[b := MBB]))) = Inr Fn1"
      "fold_result (\<lambda>BB Fn. if BB \<in> V then Inr Fn
        else bind_result (f (Fn ! BB)) (\<lambda>(MBB, _). Inr (Fn[BB := MBB]))) bs Fn1 = Inr Fn'"
    using Cons.prems(1) by (auto simp: bind_result_Inr_iff simp del: split_paired_Ex)
  have len: "length Fn1 = length Fn" using F1(1) by (auto simp: bind_result_Inr_iff split: if_splits)
  have IH: "length Fn' = length Fn1 \<and> (\<forall>b. b \<in> V \<or> b \<notin> set bs \<longrightarrow> Fn' ! b = Fn1 ! b)
    \<and> (\<forall>b \<in> set bs. b \<notin> V \<longrightarrow> (\<exists>k. f (Fn1 ! b) = Inr (Fn' ! b, k)))"
    using Cons.IH [OF F1(2)] Cons.prems(2,3) len by simp
  have other: "Fn1 ! c = Fn ! c" if "c \<noteq> b \<or> b \<in> V" for c
    using F1(1) that by (auto simp: bind_result_Inr_iff split: if_splits)
  have here: "\<exists>k. f (Fn ! b) = Inr (Fn1 ! b, k)" if "b \<notin> V"
    using F1(1) that Cons.prems(3) by (auto simp: bind_result_Inr_iff)
  have "b \<notin> set bs" using Cons.prems(2) by simp
  then show ?case using IH other here len by (auto simp del: split_paired_Ex) metis+
qed simp

lemma replaceFrameIndices_blocks:
  assumes "replaceFrameIndices_function tgt fi succs Fn = Inr Fn'" "needsFrameIndexResolution tgt fi"
  shows "length Fn' = length Fn \<and> (\<forall>b < length Fn. \<exists>n k. replaceFrameIndices tgt fi n (Fn ! b) = Inr (Fn' ! b, k) \<and>
    (if (0, b) \<in> {(p, q). q \<in> set (succs p)}\<^sup>* then entered tgt fi succs Fn b n else n = 0))"
proof -
  obtain V Fn1 where r: "replace_dfs tgt fi succs [(0, succs 0)] {0} (replicate (length Fn) 0) Fn = Inr (V, Fn1)"
      "replace_rest tgt fi V Fn1 = Inr Fn'"
    using assms by (auto simp: replaceFrameIndices_function_def bind_result_Inr_iff)
  have "dfs_inv tgt fi succs Fn (Some 0) [(0, succs 0)] {0} (replicate (length Fn) 0) Fn"
    by (rule dfs_invI) auto
  then obtain SPState where "dfs_inv tgt fi succs Fn None [] V SPState Fn1"
    using replace_dfs_resolves [OF _ r(1)] by auto
  note D = dfs_invD [OF this]
  have V: "b \<in> V \<longleftrightarrow> (0, b) \<in> {(p, q). q \<in> set (succs p)}\<^sup>*" for b
  proof
    assume "b \<in> V"
    then have "resolved_block tgt fi succs Fn SPState Fn1 b" using D(4) by simp
    then show "(0, b) \<in> {(p, q). q \<in> set (succs p)}\<^sup>*" unfolding resolved_block_def using entered_reachable by blast
  next
    assume "(0, b) \<in> {(p, q). q \<in> set (succs p)}\<^sup>*"
    then show "b \<in> V" by induction (use D(3,7) in auto)
  qed
  have rest: "length Fn' = length Fn1 \<and> (\<forall>b. b \<in> V \<or> b \<notin> set [0 ..< length Fn1] \<longrightarrow> Fn' ! b = Fn1 ! b)
    \<and> (\<forall>b \<in> set [0 ..< length Fn1]. b \<notin> V \<longrightarrow> (\<exists>k. replaceFrameIndices tgt fi 0 (Fn1 ! b) = Inr (Fn' ! b, k)))"
    by (rule fold_blocks [OF r(2) [unfolded replace_rest_def]]) simp_all
  have "\<exists>n k. replaceFrameIndices tgt fi n (Fn ! b) = Inr (Fn' ! b, k) \<and> (if b \<in> V then entered tgt fi succs Fn b n else n = 0)"
    if "b < length Fn" for b
  proof (cases "b \<in> V")
    case True
    then have "resolved_block tgt fi succs Fn SPState Fn1 b" "Fn' ! b = Fn1 ! b" using D(4) rest by auto
    then show ?thesis using True unfolding resolved_block_def by auto
  next
    case False
    then have "Fn1 ! b = Fn ! b" using D(5) that by simp
    then show ?thesis using False rest that D(1) by auto
  qed
  then show ?thesis using rest D(1) unfolding V by simp
qed

section \<open>The whole function runs as before\<close>

text \<open>
  A function is run block by block: a block is left by a branch, by falling into the next one or by a return. The
  fuel bounds the number of blocks that are run; when it is used up, the result is the block reached.
\<close>

fun run_function :: "env \<Rightarrow> minstr list list \<Rightarrow> nat \<Rightarrow> nat \<Rightarrow> mstate \<Rightarrow> (mstate \<times> leaving) option" where
  "run_function e Fn 0 b s = Some (s, To (Some b))"
| "run_function e Fn (Suc fuel) b s =
     (if b < length Fn then
        (case run_block e (Some (Suc b)) (Fn ! b) s of
           Some (s', To (Some t)) \<Rightarrow> run_function e Fn fuel t s'
         | x \<Rightarrow> x)
      else None)"

text \<open>The stack adjustment through a block, and where control can leave it with which adjustment.\<close>

definition frame_amount :: "minstr \<Rightarrow> int" where
  "frame_amount mi = (case getSPAdjust f2003f_target mi of Inr a \<Rightarrow> a | Inl _ \<Rightarrow> 0)"

definition block_adjust :: "int \<Rightarrow> minstr list \<Rightarrow> int" where
  "block_adjust n mis = n + sum_list (map frame_amount mis)"

fun sp_exits :: "nat \<Rightarrow> int \<Rightarrow> minstr list \<Rightarrow> (leaving \<times> int) list" where
  "sp_exits nxt n [] = [(To (Some nxt), n)]"
| "sp_exits nxt n (mi # mis) = (case opc mi of
      KRZx \<Rightarrow> (case branch_target mi of Some t \<Rightarrow> [(To (Some t), n)] | None \<Rightarrow> [])
    | KRZ_DOSNUD \<Rightarrow> [(Returns, n)]
    | MALKRZx \<Rightarrow> (case branch_target mi of Some t \<Rightarrow> (To (Some t), n) # sp_exits nxt n mis | None \<Rightarrow> [])
    | FI_MALKRZ f m \<Rightarrow>
        if m = Mx then (case branch_target mi of Some t \<Rightarrow> (To (Some t), n) # sp_exits nxt n mis | None \<Rightarrow> [])
        else sp_exits nxt n mis
    | _ \<Rightarrow> sp_exits nxt (n + frame_amount mi) mis)"

text \<open>The adjustments at the entries of the blocks agree along every edge, control leaves a block only with
  the adjustment of its end, along one of its edges, and a return has none.\<close>

definition sp_consistent :: "(nat \<Rightarrow> nat list) \<Rightarrow> minstr list list \<Rightarrow> (nat \<Rightarrow> int) \<Rightarrow> bool" where
  "sp_consistent succs Fn adj =
     (adj 0 = 0 \<and> (\<forall>p < length Fn. (\<forall>q \<in> set (succs p). adj q = block_adjust (adj p) (Fn ! p)) \<and>
        (\<forall>(t, k) \<in> set (sp_exits (Suc p) (adj p) (Fn ! p)).
           case t of Returns \<Rightarrow> k = 0 | To q \<Rightarrow> \<exists>r \<in> set (succs p). q = Some r \<and> k = adj r)))"

lemma sp_at_cong: "(word_of_int n :: 32 word) = word_of_int m \<Longrightarrow> sp_at fi A n s = sp_at fi A m s"
  by (simp add: sp_at_def)

lemma frame_amount_other: "\<not> isFrameInstr mi \<Longrightarrow> frame_amount mi = 0"
  by (simp add: frame_amount_def getSPAdjust_other)

lemma resolvable_keeps:
  assumes "resolvable mi" "\<not> isFrameInstr mi" "opc mi \<noteq> STATEPOINT"
  shows "keeps_F5 mi"
proof -
  consider "opc mi = ATAframe" "address_operands (operands mi)" | "opc mi = DBG_VALUE" | "keeps_F5 mi"
    using assms by (auto simp: resolvable_def split: if_splits)
  then show ?thesis by cases (auto simp: keeps_F5_def elim!: address_operands.elims)
qed

lemma frame_pseudo_SPAdjust:
  assumes "isFrameInstr mi" "resolvable mi"
  obtains a where "getSPAdjust f2003f_target mi = Inr a"
proof -
  have "amount_operands (operands mi)" using assms by (simp add: resolvable_def)
  then obtain a b where a: "getFrameSize mi = Inr a" "0 \<le> a" "i32 a = a" "a mod 4 = 0" "a < 2 ^ 31"
    using frame_pseudo_size [OF assms(1)] by metis
  have "alignTo a 4 0 = Inr a"
    using a ceil_to_least [of 4 a a 0] ceil_to_bounds(1) [of 4 a 0] by (simp add: alignTo_ceil_to)
  then show thesis
    using assms(1) a by (intro that [of "if opc mi = ADJCALLSTACKUP then i32 (- a) else a"])
      (simp add: getSPAdjust_def alignSPAdjust_def f2003f_target_def)
qed

lemma run_block_sp:
  assumes "run_block e (Some nxt) mis s = Some (s', t)" "\<forall>mi \<in> set mis. resolvable mi" "sp_at fi A n s"
  shows "\<exists>k. (t, k) \<in> set (sp_exits nxt n mis) \<and> sp_at fi A k s'"
  using assms
proof (induction mis arbitrary: n s)
  case (Cons mi mis)
  have flag: "sp_at fi A n (s\<lparr>cond_flag := b\<rparr>)" for b using Cons.prems(3) by (simp add: sp_at_def)
  let ?run = "run_block e (Some nxt) mis"
  consider (ret) "isReturn (opc mi)" | (frame) "isFrameInstr mi" "\<not> isReturn (opc mi)"
    | (other) "\<not> isFrameInstr mi" "\<not> isReturn (opc mi)" by blast
  then show ?case
  proof cases
    case ret
    then show ?thesis using Cons.prems by (auto simp: isReturn_def)
  next
    case frame
    then have "amount_operands (operands mi)" using Cons.prems(2) by (simp add: resolvable_def)
    obtain a where a: "getSPAdjust f2003f_target mi = Inr a"
      using frame_pseudo_SPAdjust [OF frame(1)] Cons.prems(2) by (metis list.set_intros(1))
    from frame_pseudo_adjust(1) [OF frame(1) \<open>amount_operands _\<close> a Cons.prems(3)]
    obtain s1 where s1: "exec_instr e mi s = Some s1" "sp_at fi A (n + a) s1" by blast
    then have "?run s1 = Some (s', t)" using Cons.prems(1) frame by (auto simp: isFrameInstr_def)
    from Cons.IH [OF this _ s1(2)] Cons.prems(2) frame a show ?thesis by (auto simp: frame_amount_def isFrameInstr_def)
  next
    case other
    have plain: ?thesis
      if rb: "Option.bind (exec_instr e mi s) ?run = Some (s', t)"
        and ex: "sp_exits nxt n (mi # mis) = sp_exits nxt (n + frame_amount mi) mis"
    proof -
      obtain s1 where s1: "exec_instr e mi s = Some s1" "?run s1 = Some (s', t)"
        using rb by (auto simp: bind_eq_Some_conv)
      then have "opc mi \<noteq> STATEPOINT" using exec_STATEPOINT [of mi e s] by auto
      then have "keeps_F5 mi" using resolvable_keeps other(1) Cons.prems(2) by simp
      then have "regs s1 F5 = regs s F5" using exec_keeps_F5 [OF s1(1) _ other(1)] by simp
      then have "sp_at fi A n s1" using Cons.prems(3) by (simp add: sp_at_def)
      from Cons.IH [OF s1(2) _ this] Cons.prems(2) show ?thesis unfolding ex using frame_amount_other [OF other(1)] by simp
    qed
    have cont: "\<exists>k. (t, k) \<in> set (sp_exits nxt n mis) \<and> sp_at fi A k s'"
      if "?run s1 = Some (s', t)" "sp_at fi A n s1" for s1
      using Cons.IH [OF that(1) _ that(2)] Cons.prems(2) by simp
    note cont1 = cont [OF _ Cons.prems(3)] and cont2 = cont [OF _ flag]
    show ?thesis
      using Cons.prems(1,3) plain flag cont1 cont2 other(2)
      by (auto simp: isReturn_def bind_eq_Some_conv frame_amount_other [OF other(1)]
          split: opcode.splits if_splits option.splits)
  qed
qed simp

lemma eliminateFrameIndex_no_frame:
  assumes "eliminateFrameIndex fi mi n k = Inr xs" "\<not> isFrameInstr mi"
  shows "\<forall>x \<in> set xs. \<not> isFrameInstr x"
  using assms by (auto simp: eliminateFrameIndex_def bind_result_Inr_iff Let_def isFrameInstr_def split: if_splits)

lemma replace_loop_adjust:
  assumes "replace_loop f2003f_target fi b n mis = Inr (mis', n')"
  shows "(word_of_int n' :: 32 word) = word_of_int (block_adjust n mis)"
  using assms
proof (induction f2003f_target fi b n mis arbitrary: mis' n' rule: replace_loop.induct)
  case (2 fi b n I rest)
  show ?case
  proof (cases "isFrameInstr I")
    case True
    then obtain a xs ys where r: "getSPAdjust f2003f_target I = Inr a" "eliminateCallFramePseudoInstr I = Inr xs"
        "replace_loop f2003f_target fi (isFrameSetup I) (i32 (n + a)) rest = Inr (ys, n')"
      using "2.prems" by (auto simp: bind_result_Inr_iff)
    have "(word_of_int n' :: 32 word) = word_of_int (block_adjust (i32 (n + a)) rest)" by (rule "2.hyps"(1) [OF True r])
    then show ?thesis using r(1) by (simp add: block_adjust_def frame_amount_def)
  next
    case nf: False
    show ?thesis
    proof (cases "first_FI (operands I) \<noteq> None \<and> opc I \<noteq> DBG_VALUE \<and> opc I \<noteq> STATEPOINT")
      case True
      then obtain k where k: "first_FI (operands I) = Some k" by blast
      obtain xs where xs: "eliminateFrameIndex fi I n k = Inr xs"
          "replace_loop f2003f_target fi b n (xs @ rest) = Inr (mis', n')"
        using "2.prems" nf True k by (auto simp: bind_result_Inr_iff)
      have "(word_of_int n' :: 32 word) = word_of_int (block_adjust n (xs @ rest))"
        using "2.hyps"(2) [OF nf True _ xs(2)] xs(1) k by simp
      moreover have "sum_list (map frame_amount xs) = 0"
        using eliminateFrameIndex_no_frame [OF xs(1) nf] frame_amount_other by (induction xs) auto
      ultimately show ?thesis using frame_amount_other [OF nf] by (simp add: block_adjust_def)
    next
      case False
      obtain I' a ys where r:
          "(if opc I = DBG_VALUE then resolve_debug f2003f_target fi I
            else if opc I = STATEPOINT then resolve_statepoint f2003f_target fi I else Inr I) = Inr I'"
          "(if b then getSPAdjust f2003f_target I' else Inr 0) = Inr a"
          "replace_loop f2003f_target fi b (i32 (n + a)) rest = Inr (ys, n')"
        using "2.prems" nf False by (auto simp: bind_result_Inr_iff simp del: not_None_eq)
      have "opc I' = opc I" using r(1) resolve_debug_opc resolve_statepoint_opc by (auto split: if_splits)
      then have "a = 0" using r(2) getSPAdjust_other [of I'] nf by (auto simp: isFrameInstr_def split: if_splits)
      moreover have "(word_of_int n' :: 32 word) = word_of_int (block_adjust (i32 (n + a)) rest)"
        by (rule "2.hyps"(3) [OF nf False r])
      ultimately show ?thesis using frame_amount_other [OF nf] by (simp add: block_adjust_def)
    qed
  qed
qed (simp add: block_adjust_def)

lemma block_adjust_cong:
  "(word_of_int n :: 32 word) = word_of_int m \<Longrightarrow> (word_of_int (block_adjust n mis) :: 32 word) = word_of_int (block_adjust m mis)"
  by (simp add: block_adjust_def)

lemma sp_consistentD:
  assumes "sp_consistent succs Fn adj"
  shows "adj 0 = 0"
    and "p < length Fn \<Longrightarrow> q \<in> set (succs p) \<Longrightarrow> adj q = block_adjust (adj p) (Fn ! p)"
    and "p < length Fn \<Longrightarrow> (To (Some t), k) \<in> set (sp_exits (Suc p) (adj p) (Fn ! p)) \<Longrightarrow> t \<in> set (succs p) \<and> k = adj t"
    and "p < length Fn \<Longrightarrow> (Returns, k) \<in> set (sp_exits (Suc p) (adj p) (Fn ! p)) \<Longrightarrow> k = 0"
  using assms unfolding sp_consistent_def by fastforce+

lemma entered_adjust:
  assumes "entered f2003f_target fi succs Fn b n"
    and "adj 0 = 0" "\<And>p q. p < length Fn \<Longrightarrow> q \<in> set (succs p) \<Longrightarrow> adj q = block_adjust (adj p) (Fn ! p)"
  shows "(word_of_int n :: 32 word) = word_of_int (adj b)"
  using assms(1)
proof induction
  case entry
  then show ?case using assms(2) by simp
next
  case (edge p n mis n' q)
  have "(word_of_int n' :: 32 word) = word_of_int (block_adjust n (Fn ! p))"
    using replace_loop_adjust edge.hyps(3) by (simp add: replaceFrameIndices_def)
  also have "\<dots> = word_of_int (block_adjust (adj p) (Fn ! p))" using edge.IH by (rule block_adjust_cong)
  also have "\<dots> = word_of_int (adj q)" using assms(3) [OF edge.hyps(2,4)] by simp
  finally show ?case .
qed

lemma resolved_blocks_run:
  assumes "frame_env fi A e" "\<forall>mis \<in> set Fn. \<forall>mi \<in> set mis. resolvable mi" "sp_consistent succs Fn adj"
    and "length Fn' = length Fn"
    and res: "\<And>b. b < length Fn \<Longrightarrow> (0, b) \<in> {(p, q). q \<in> set (succs p)}\<^sup>* \<Longrightarrow>
      \<exists>n k. replaceFrameIndices f2003f_target fi n (Fn ! b) = Inr (Fn' ! b, k) \<and> entered f2003f_target fi succs Fn b n"
    and "(0, b) \<in> {(p, q). q \<in> set (succs p)}\<^sup>*" "sp_at fi A (adj b) s"
  shows "run_function e Fn' fuel b s = run_function e Fn fuel b s"
  using assms(6,7)
proof (induction fuel arbitrary: b s)
  case (Suc fuel)
  show ?case
  proof (cases "b < length Fn")
    case True
    obtain n k where n: "replaceFrameIndices f2003f_target fi n (Fn ! b) = Inr (Fn' ! b, k)"
        "entered f2003f_target fi succs Fn b n"
      using res [OF True Suc.prems(1)] by blast
    have r: "\<forall>mi \<in> set (Fn ! b). resolvable mi" using assms(2) True nth_mem by blast
    have "sp_at fi A n s" using Suc.prems(2) sp_at_cong [OF entered_adjust [OF n(2) sp_consistentD(1,2) [OF assms(3)]]] by simp
    then have same: "run_block e nxt (Fn' ! b) s = run_block e nxt (Fn ! b) s" for nxt
      using replace_loop_runs [OF assms(1) _ r] n(1) unfolding replaceFrameIndices_def by blast
    have "run_function e Fn' fuel t s' = run_function e Fn fuel t s'"
      if go: "run_block e (Some (Suc b)) (Fn ! b) s = Some (s', To (Some t))" for s' t
    proof -
      obtain k where k: "(To (Some t), k) \<in> set (sp_exits (Suc b) (adj b) (Fn ! b))" "sp_at fi A k s'"
        using run_block_sp [OF go r Suc.prems(2)] by blast
      have "t \<in> set (succs b)" "k = adj t" using sp_consistentD(3) [OF assms(3) True k(1)] by simp_all
      moreover have "(0, t) \<in> {(p, q). q \<in> set (succs p)}\<^sup>*"
        using rtrancl_into_rtrancl [OF Suc.prems(1)] \<open>t \<in> set (succs b)\<close> by simp
      ultimately show ?thesis using Suc.IH k(2) by simp
    qed
    then show ?thesis using True assms(4) by (simp add: same split: option.split leaving.split)
  qed (simp add: assms(4))
qed simp

text \<open>
  C9. \<open>replaceFrameIndices\<close> resolves every block of the function exactly once. A block that can be reached
  from the entry is resolved with a stack adjustment with which a path from the entry enters it: none
  at the entry block, and elsewhere what one of its predecessors left when it was resolved itself; a
  block that cannot be reached is resolved without adjustment.
\<close>

theorem replaceFrameIndices_visits_once:
  assumes "replaceFrameIndices_function tgt fi succs Fn = Inr Fn'" "needsFrameIndexResolution tgt fi"
  shows "length Fn' = length Fn \<and> (\<forall>b < length Fn. \<exists>n k. replaceFrameIndices tgt fi n (Fn ! b) = Inr (Fn' ! b, k) \<and>
    (if (0, b) \<in> {(p, q). q \<in> set (succs p)}\<^sup>* then entered tgt fi succs Fn b n else n = 0))"
  by (rule replaceFrameIndices_blocks [OF assms])

text \<open>
  C10. A function runs the same after its frame indices are resolved: from any state at the entry, after any
  number of blocks, the registers, the memory and the block reached are those of the function before. This
  holds where the stack adjustments agree along the edges of the control flow graph and a block is left only
  along one of its edges.
\<close>

theorem replaceFrameIndices_function_runs:
  assumes "replaceFrameIndices_function f2003f_target fi succs Fn = Inr Fn'"
    and "frame_env fi A e" "sp_at fi A 0 s" "\<forall>mis \<in> set Fn. \<forall>mi \<in> set mis. resolvable mi"
    and "sp_consistent succs Fn adj"
  shows "run_function e Fn' fuel 0 s = run_function e Fn fuel 0 s"
proof (cases "needsFrameIndexResolution f2003f_target fi")
  case True
  note B = replaceFrameIndices_blocks [OF assms(1) True]
  show ?thesis
  proof (rule resolved_blocks_run [OF assms(2,4,5)])
    show "length Fn' = length Fn" using B by simp
    show "\<exists>n k. replaceFrameIndices f2003f_target fi n (Fn ! b) = Inr (Fn' ! b, k) \<and> entered f2003f_target fi succs Fn b n"
      if len: "b < length Fn" and path: "(0, b) \<in> {(p, q). q \<in> set (succs p)}\<^sup>*" for b
      using conjunct2 [OF B, rule_format, OF len] unfolding if_P [OF path] .
    show "sp_at fi A (adj 0) s" using assms(3) sp_consistentD(1) [OF assms(5)] by simp
  qed simp
qed (use assms(1) in \<open>simp add: replaceFrameIndices_function_def\<close>)

text \<open>A loop around a block that calls: block 1 is reached from itself with the adjustment of its end.\<close>

definition loop_succs :: "nat \<Rightarrow> nat list" where
  "loop_succs b = (if b = 0 then [1] else if b = 1 then [1, 2] else [])"

definition loop_blocks :: "minstr list list" where
  "loop_blocks =
     [[mk_instr KRZmi [MO_FrameIndex 0, use_reg NoRegister, MO_Immediate 0, MO_Immediate 3]],
      word_block @ [mk_instr MALKRZx [MO_MachineBasicBlock 1]],
      [mk_instr ATAframe [def_reg F2, MO_FrameIndex 0, MO_Immediate 0], mk_instr KRZ_DOSNUD []]]"

theorem replaceFrameIndices_visits_once_witness:
  "\<exists>Fn'. replaceFrameIndices_function f2003f_target word_frame loop_succs loop_blocks = Inr Fn' \<and> length Fn' = 3"
proof -
  obtain Fn' where r: "replaceFrameIndices_function f2003f_target word_frame loop_succs loop_blocks = Inr Fn'"
    by (simp add: loop_blocks_def word_block_def word_frame_def empty_2003f_frame_def new_frame_info_def block_eval
      replaceFrameIndices_function_def needsFrameIndexResolution_def replace_dfs.simps(2) replace_rest_def
      loop_succs_def numeral_2_eq_2 numeral_3_eq_3)
  have "needsFrameIndexResolution f2003f_target word_frame"
    by (simp add: needsFrameIndexResolution_def word_frame_def)
  from replaceFrameIndices_visits_once [OF r this] r show ?thesis by (auto simp: loop_blocks_def)
qed

theorem replaceFrameIndices_function_runs_witness:
  "\<exists>Fn'. replaceFrameIndices_function f2003f_target word_frame loop_succs loop_blocks = Inr Fn' \<and>
     run_function word_env Fn' 2 0 word_state = run_function word_env loop_blocks 2 0 word_state"
proof -
  obtain Fn' where r: "replaceFrameIndices_function f2003f_target word_frame loop_succs loop_blocks = Inr Fn'"
    by (simp add: loop_blocks_def word_block_def word_frame_def empty_2003f_frame_def new_frame_info_def block_eval
      replaceFrameIndices_function_def needsFrameIndexResolution_def replace_dfs.simps(2) replace_rest_def
      loop_succs_def numeral_2_eq_2 numeral_3_eq_3)
  have "frame_env word_frame 100 word_env"
    by (auto simp: frame_env_def word_env_def word_frame_def getObjectOffset_def get_object_def
        valid_index_def object_at_def slot_of_def StackObject_def empty_2003f_frame_def new_frame_info_def
        bind_result_Inr_iff split: if_splits)
  moreover have "sp_at word_frame 100 0 word_state"
    by (simp add: sp_at_def word_state_def word_frame_def)
  moreover have "\<forall>mis \<in> set loop_blocks. \<forall>mi \<in> set mis. resolvable mi"
    by (simp add: loop_blocks_def word_block_def resolvable_def isFrameInstr_def keeps_F5_def fi_shape_Mem fi_shape_other)
  moreover have "sp_consistent loop_succs loop_blocks (\<lambda>_. 0)"
    by (auto simp: sp_consistent_def loop_blocks_def loop_succs_def word_block_def block_adjust_def frame_amount_def
        block_eval branch_target_def less_Suc_eq numeral_2_eq_2 numeral_3_eq_3)
  ultimately show ?thesis using replaceFrameIndices_function_runs [OF r] r by blast
qed

end
