(* ===== verification/CalleeSaves.thy ===== *)
theory CalleeSaves
  imports PrologEpilog
begin

text \<open>
  Callee-saved registers: which ones a function has to save, the stack slots they are saved in, the code
  that saves and restores them, and the live-in lists of the blocks they are live through.
  \<open>lib/CodeGen/PrologEpilogInserter.cpp\<close> from \<open>assignCalleeSavedSpillSlots\<close> to \<open>doSpillCalleeSavedRegs\<close>, and
  \<open>TargetFrameLowering::determineCalleeSaves\<close>.

  The target answers through \<open>cs_target\<close>; the hooks that save and restore by target code decline, which is
  their default. The 2003f itself has no callee-saved registers. A block is its position in the function.
\<close>

section \<open>State and parameters\<close>

text \<open>\<open>CSRegs\<close> is the null-terminated array without its end, empty for a null pointer as well.\<close>

record cs_target =
  NumRegs :: nat
  CSRegs :: "reg list"
  EnableIPRA :: bool
  Naked :: bool
  callsUnwindInit :: bool
  isPhysRegModified :: "reg \<Rightarrow> bool"
  assignSlots_hook :: "frame_info \<Rightarrow> (reg \<times> int) list \<Rightarrow> ((reg \<times> int) list \<times> frame_info) option"
  CalleeSavedSpillSlots :: "(reg \<times> int) list"
  hasReservedSpillSlot :: "reg \<Rightarrow> int option"
  getSpillSize :: "reg \<Rightarrow> int"
  getSpillAlignment :: "reg \<Rightarrow> int"
  isReserved :: "reg \<Rightarrow> bool"

text \<open>The function as the pass sees it. A live-in is a register with the mask of its lanes.\<close>

record machine_function =
  Frame :: frame_info
  Blocks :: "minstr list list"
  LiveIns :: "nat \<Rightarrow> (reg \<times> 32 word) list"
  successors :: "nat \<Rightarrow> nat list"
  isEHFuncletEntry :: "nat \<Rightarrow> bool"

section \<open>The registers to save and their slots\<close>

text \<open>The bit vector of the saved registers: its size, and the registers whose bit is set.\<close>

definition determineCalleeSaves :: "cs_target \<Rightarrow> nat \<times> reg list" where
  "determineCalleeSaves c = (NumRegs c,
     if EnableIPRA c then []
     else if CSRegs c = [] then []
     else if Naked c then []
     else filter (\<lambda>Reg. callsUnwindInit c \<or> isPhysRegModified c Reg) (CSRegs c))"

definition fixed_slot :: "cs_target \<Rightarrow> reg \<Rightarrow> int option" where
  "fixed_slot c Reg = map_option snd (find (\<lambda>slot. fst slot = Reg) (CalleeSavedSpillSlots c))"

text \<open>One register, with the frame and the range of the indices given so far.\<close>

definition assign_slot :: "cs_target \<Rightarrow> frame_target \<Rightarrow> reg \<Rightarrow> frame_info \<times> int \<times> int
    \<Rightarrow> (int \<times> frame_info \<times> int \<times> int) result" where
  "assign_slot c tgt Reg st = (case st of (fi, MinCS, MaxCS) \<Rightarrow>
     case hasReservedSpillSlot c Reg of
       Some FrameIdx \<Rightarrow> Inr (FrameIdx, fi, MinCS, MaxCS)
     | None \<Rightarrow>
         (case fixed_slot c Reg of
            None \<Rightarrow>
              bind_result (CreateStackObject fi (getSpillSize c Reg)
                  (min (getSpillAlignment c Reg) (TargetStackAlignment tgt)) True None) (\<lambda>(FrameIdx, fi).
                let MinCS = (if u32 FrameIdx < MinCS then u32 FrameIdx else MinCS);
                    MaxCS = (if u32 FrameIdx > MaxCS then u32 FrameIdx else MaxCS)
                in Inr (FrameIdx, fi, MinCS, MaxCS))
          | Some off \<Rightarrow>
              bind_result (CreateFixedSpillStackObject fi (getSpillSize c Reg) off False) (\<lambda>(FrameIdx, fi).
                Inr (FrameIdx, fi, MinCS, MaxCS))))"

fun assign_slots :: "cs_target \<Rightarrow> frame_target \<Rightarrow> reg list \<Rightarrow> frame_info \<times> int \<times> int
    \<Rightarrow> ((reg \<times> int) list \<times> frame_info \<times> int \<times> int) result" where
  "assign_slots c tgt [] st = Inr ([], st)"
| "assign_slots c tgt (Reg # CSI) st =
     bind_result (assign_slot c tgt Reg st) (\<lambda>(FrameIdx, st).
       bind_result (assign_slots c tgt CSI st) (\<lambda>(CSI, st). Inr ((Reg, FrameIdx) # CSI, st)))"

definition assignCalleeSavedSpillSlots :: "cs_target \<Rightarrow> frame_target \<Rightarrow> nat \<times> reg list
    \<Rightarrow> frame_info \<times> int \<times> int \<Rightarrow> (frame_info \<times> int \<times> int) result" where
  "assignCalleeSavedSpillSlots c tgt SavedRegs st = (case st of (fi, MinCS, MaxCS) \<Rightarrow>
     if fst SavedRegs = 0 then Inr st
     else
       let CSI = filter (\<lambda>Reg. Reg \<in> set (snd SavedRegs)) (CSRegs c) in
       case assignSlots_hook c fi (map (\<lambda>Reg. (Reg, 0)) CSI) of
         Some (CSI, fi) \<Rightarrow> Inr (fi\<lparr>CSInfo := CSI\<rparr>, MinCS, MaxCS)
       | None \<Rightarrow>
           if CSI = [] then Inr st
           else bind_result (assign_slots c tgt CSI st) (\<lambda>(CSI, fi, MinCS, MaxCS).
             Inr (fi\<lparr>CSInfo := CSI\<rparr>, MinCS, MaxCS)))"

section \<open>Liveness\<close>

text \<open>\<open>WorkList\<close> is a stack, its back first.\<close>

definition push_new :: "nat \<Rightarrow> nat set \<times> nat list \<Rightarrow> nat set \<times> nat list" where
  "push_new SuccBB st = (case st of (Visited, WorkList) \<Rightarrow>
     if SuccBB \<in> Visited then (Visited, WorkList) else (insert SuccBB Visited, SuccBB # WorkList))"

lemma push_new_measure:
  assumes "\<forall>q \<in> set qs. q < N" "fold push_new qs (V, W) = (V', W')"
  shows "card ({..<N} - V') + length W' = card ({..<N} - V) + length W"
  using assms
proof (induction qs arbitrary: V W)
  case (Cons q qs)
  show ?case
  proof (cases "q \<in> V")
    case False
    have "{..<N} - V = insert q ({..<N} - insert q V)" using False Cons.prems(1) by auto
    then have "card ({..<N} - V) = Suc (card ({..<N} - insert q V))"
      by (metis DiffD2 card_insert_disjoint finite_Diff finite_lessThan insertI1)
    then show ?thesis using Cons False by (simp add: push_new_def)
  qed (use Cons in \<open>simp add: push_new_def\<close>)
qed simp

text \<open>A successor that is not a block of the function has no C++ counterpart.\<close>

function live_region :: "(nat \<Rightarrow> nat list) \<Rightarrow> nat \<Rightarrow> nat \<Rightarrow> nat option \<Rightarrow> nat list \<Rightarrow> nat set \<Rightarrow> nat set result" where
  "live_region succs N Save Restore [] Visited = Inr Visited"
| "live_region succs N Save Restore (CurBB # WorkList) Visited =
     (if CurBB = Save \<and> Restore \<noteq> Some Save then live_region succs N Save Restore WorkList Visited
      else if \<exists>q \<in> set (succs CurBB). \<not> q < N then Inl Unreachable
      else case fold push_new (succs CurBB) (Visited, WorkList) of (Visited, WorkList) \<Rightarrow>
        live_region succs N Save Restore WorkList Visited)"
  by pat_completeness auto

termination live_region
  by (relation "measure (\<lambda>(_, N, _, _, W, V). card ({..<N} - V) + length W)")
    (auto dest!: push_new_measure [rotated, OF sym])

definition isLiveIn :: "(reg \<times> 32 word) list \<Rightarrow> reg \<Rightarrow> bool" where
  "isLiveIn ls PhysReg =
     (case find (\<lambda>l. fst l = PhysReg) ls of None \<Rightarrow> False | Some (_, LaneMask) \<Rightarrow> LaneMask \<noteq> 0)"

definition addLiveIn :: "(reg \<times> 32 word) list \<Rightarrow> reg \<Rightarrow> (reg \<times> 32 word) list" where
  "addLiveIn ls PhysReg = ls @ [(PhysReg, - 1)]"

definition add_saved :: "cs_target \<Rightarrow> reg \<Rightarrow> (reg \<times> 32 word) list \<Rightarrow> (reg \<times> 32 word) list" where
  "add_saved c Reg ls = (if \<not> isReserved c Reg \<and> \<not> isLiveIn ls Reg then addLiveIn ls Reg else ls)"

text \<open>The loop over the registers is the outer one in the source; the lists of different blocks do not
  interact.\<close>

definition updateLiveness :: "cs_target \<Rightarrow> machine_function \<Rightarrow> machine_function result" where
  "updateLiveness c MF =
     (let Entry = 0;
          Save = (case SavePoint (Frame MF) of None \<Rightarrow> Entry | Some b \<Rightarrow> b);
          Restore = RestorePoint (Frame MF);
          WorkList = (if Entry \<noteq> Save then [Entry] else []);
          Visited = insert Save (set WorkList);
          WorkList = (case Restore of None \<Rightarrow> WorkList | Some b \<Rightarrow> b # WorkList)
      in bind_result (live_region (successors MF) (length (Blocks MF)) Save Restore WorkList Visited) (\<lambda>Visited.
        Inr (MF\<lparr>LiveIns := (\<lambda>MBB.
          if MBB \<in> Visited then fold (add_saved c) (map fst (CSInfo (Frame MF))) (LiveIns MF MBB)
          else LiveIns MF MBB)\<rparr>)))"

section \<open>The code that saves and restores\<close>

definition spill_at :: "cs_target \<Rightarrow> nat \<Rightarrow> machine_function \<Rightarrow> machine_function result" where
  "spill_at c SaveBlock MF =
     bind_result (update_block (\<lambda>_ MBB. Inr (insert_spills (CSInfo (Frame MF)) MBB)) SaveBlock (Blocks MF)) (\<lambda>Fn.
       updateLiveness c (MF\<lparr>Blocks := Fn\<rparr>))"

definition restore_at :: "nat \<Rightarrow> machine_function \<Rightarrow> machine_function result" where
  "restore_at MBB MF =
     bind_result (update_block (\<lambda>_ MBB. Inr (insert_restores (CSInfo (Frame MF)) MBB)) MBB (Blocks MF)) (\<lambda>Fn.
       Inr (MF\<lparr>Blocks := Fn\<rparr>))"

definition insertCSRSpillsAndRestores :: "cs_target \<Rightarrow> nat list \<Rightarrow> nat list \<Rightarrow> machine_function
    \<Rightarrow> machine_function result" where
  "insertCSRSpillsAndRestores c SaveBlocks RestoreBlocks MF =
     (let MF = MF\<lparr>Frame := (Frame MF)\<lparr>CSIValid := True\<rparr>\<rparr> in
      if CSInfo (Frame MF) = [] then Inr MF
      else bind_result (fold_result (spill_at c) SaveBlocks MF) (fold_result restore_at RestoreBlocks))"

definition doSpillCalleeSavedRegs :: "cs_target \<Rightarrow> frame_target \<Rightarrow> nat list \<Rightarrow> nat list \<Rightarrow> machine_function
    \<Rightarrow> (machine_function \<times> int \<times> int) result" where
  "doSpillCalleeSavedRegs c tgt SaveBlocks RestoreBlocks MF =
     bind_result (assignCalleeSavedSpillSlots c tgt (determineCalleeSaves c) (Frame MF, 2 ^ 32 - 1, 0)) (\<lambda>(fi, MinCS, MaxCS).
       bind_result
         (if \<not> Naked c then insertCSRSpillsAndRestores c SaveBlocks RestoreBlocks (MF\<lparr>Frame := fi\<rparr>)
          else Inr (MF\<lparr>Frame := fi\<rparr>)) (\<lambda>MF. Inr (MF, MinCS, MaxCS)))"

section \<open>Every saved register has its slot\<close>

lemma assign_slot_cases:
  assumes "assign_slot c tgt r (fi, lo, hi) = Inr (i, fi', lo', hi')"
  obtains (reserved) "hasReservedSpillSlot c r = Some i" "fi' = fi" "lo' = lo" "hi' = hi"
    | (fixed) off where "hasReservedSpillSlot c r = None" "fixed_slot c r = Some off" "i = getObjectIndexBegin fi - 1"
        "prepended fi (StackObject (getSpillSize c r) (fixed_alignment fi off) off False True None False) fi'"
        "lo' = lo" "hi' = hi"
    | (free) "hasReservedSpillSlot c r = None" "fixed_slot c r = None" "i = getObjectIndexEnd fi" "0 \<le> i"
        "appended fi (StackObject (getSpillSize c r) (clampStackAlignment (\<not> StackRealignable fi)
            (min (getSpillAlignment c r) (TargetStackAlignment tgt)) (StackAlignment fi)) 0 False True None False) fi'"
        "lo' = min lo (u32 i)" "hi' = max hi (u32 i)"
proof (cases "hasReservedSpillSlot c r")
  case None
  show ?thesis
  proof (cases "fixed_slot c r")
    case nofix: None
    have *: "CreateStackObject fi (getSpillSize c r)
        (min (getSpillAlignment c r) (TargetStackAlignment tgt)) True None = Inr (i, fi')"
        "lo' = min lo (u32 i)" "hi' = max hi (u32 i)"
      using assms None nofix by (auto simp: assign_slot_def bind_result_Inr_iff Let_def)
    from CreateStackObject_Inr [OF *(1)] show ?thesis by (intro free [OF None nofix]) (use *(2,3) in auto)
  next
    case (Some off)
    then show ?thesis using assms None fixed CreateFixedSpillStackObject_Inr
      by (auto simp: assign_slot_def bind_result_Inr_iff)
  qed
qed (use assms reserved in \<open>simp add: assign_slot_def\<close>)

text \<open>The frame only grows: its objects keep their indices and their fields, and it stays well formed.\<close>

definition grown_frame :: "frame_info \<Rightarrow> frame_info \<Rightarrow> bool" where
  "grown_frame fi fi' =
     ((\<forall>i. valid_index fi i \<longrightarrow> valid_index fi' i \<and> object_at fi' i = object_at fi i) \<and>
      StackAlignment fi' = StackAlignment fi \<and> StackRealignable fi' = StackRealignable fi \<and>
      (frame_ok fi \<longrightarrow> frame_ok fi'))"

lemma grown_frame_trans: "grown_frame fi fi1 \<Longrightarrow> grown_frame fi1 fi' \<Longrightarrow> grown_frame fi fi'"
  by (simp add: grown_frame_def)

lemma appended_grown:
  assumes "appended fi ob fi'"
  shows "grown_frame fi fi'" "valid_index fi' (getObjectIndexEnd fi)" "object_at fi' (getObjectIndexEnd fi) = ob"
    "\<not> valid_index fi (getObjectIndexEnd fi)" "getObjectIndexEnd fi' = getObjectIndexEnd fi + 1"
proof -
  have ap: "Objects fi' = Objects fi @ [ob]" "NumFixedObjects fi' = NumFixedObjects fi"
    using assms by (simp_all add: appended_def)
  show "grown_frame fi fi'" using append_index [OF ap] assms appended_ok [OF assms] by (simp add: grown_frame_def appended_def)
  show "valid_index fi' (getObjectIndexEnd fi)" "object_at fi' (getObjectIndexEnd fi) = ob"
    "\<not> valid_index fi (getObjectIndexEnd fi)" using append_index [OF ap] by simp_all
  show "getObjectIndexEnd fi' = getObjectIndexEnd fi + 1" using ap by (simp add: getObjectIndexEnd_def)
qed

lemma prepended_grown:
  assumes "prepended fi ob fi'"
  shows "grown_frame fi fi'" "valid_index fi' (getObjectIndexBegin fi - 1)" "object_at fi' (getObjectIndexBegin fi - 1) = ob"
    "\<not> valid_index fi (getObjectIndexBegin fi - 1)" "getObjectIndexEnd fi' = getObjectIndexEnd fi"
    "getObjectIndexBegin fi - 1 < 0"
proof -
  have ap: "Objects fi' = ob # Objects fi" "NumFixedObjects fi' = Suc (NumFixedObjects fi)"
    using assms by (simp_all add: prepended_def)
  show "grown_frame fi fi'" using front_index [OF ap] assms prepended_ok [OF assms] by (simp add: grown_frame_def prepended_def)
  show "valid_index fi' (getObjectIndexBegin fi - 1)" "object_at fi' (getObjectIndexBegin fi - 1) = ob"
    "\<not> valid_index fi (getObjectIndexBegin fi - 1)" using front_index [OF ap] by simp_all
  show "getObjectIndexEnd fi' = getObjectIndexEnd fi" using ap by (simp add: getObjectIndexEnd_def)
  show "getObjectIndexBegin fi - 1 < 0" by (simp add: getObjectIndexBegin_def)
qed

text \<open>Where a register is saved: the slot reserved for it, or a spill slot of its size, fixed at the offset the
  target asks for or aligned as the register class asks and the stack allows.\<close>

definition saved_in :: "cs_target \<Rightarrow> frame_target \<Rightarrow> frame_info \<Rightarrow> reg \<Rightarrow> int \<Rightarrow> bool" where
  "saved_in c tgt fi r i =
     (case hasReservedSpillSlot c r of
        Some j \<Rightarrow> i = j
      | None \<Rightarrow> valid_index fi i \<and> Size (object_at fi i) = getSpillSize c r \<and> isSpillSlot (object_at fi i) \<and>
          (case fixed_slot c r of
             Some off \<Rightarrow> i < 0 \<and> SPOffset (object_at fi i) = off
           | None \<Rightarrow> 0 \<le> i \<and> Alignment (object_at fi i) = clampStackAlignment (\<not> StackRealignable fi)
               (min (getSpillAlignment c r) (TargetStackAlignment tgt)) (StackAlignment fi)))"

lemma saved_in_grown: "saved_in c tgt fi r i \<Longrightarrow> grown_frame fi fi' \<Longrightarrow> saved_in c tgt fi' r i"
  by (auto simp: saved_in_def grown_frame_def split: option.splits)

text \<open>The registers whose slot is created, and those that are spilled anywhere.\<close>

definition created :: "cs_target \<Rightarrow> (reg \<times> int) list \<Rightarrow> int list" where
  "created c CSI = map snd (filter (\<lambda>s. hasReservedSpillSlot c (fst s) = None) CSI)"

definition anywhere :: "cs_target \<Rightarrow> (reg \<times> int) list \<Rightarrow> int list" where
  "anywhere c CSI = map snd (filter (\<lambda>s. hasReservedSpillSlot c (fst s) = None \<and> fixed_slot c (fst s) = None) CSI)"

lemma assign_slot_facts:
  assumes "assign_slot c tgt r (fi, lo, hi) = Inr (i, fi', lo', hi')"
  shows "grown_frame fi fi'" "saved_in c tgt fi' r i"
    "hasReservedSpillSlot c r = None \<Longrightarrow> \<not> valid_index fi i"
    "if hasReservedSpillSlot c r = None \<and> fixed_slot c r = None
     then i = getObjectIndexEnd fi \<and> getObjectIndexEnd fi' = getObjectIndexEnd fi + 1 \<and> lo' = min lo (u32 i) \<and> hi' = max hi (u32 i)
     else getObjectIndexEnd fi' = getObjectIndexEnd fi \<and> lo' = lo \<and> hi' = hi"
proof -
  have "grown_frame fi fi' \<and> saved_in c tgt fi' r i \<and> (hasReservedSpillSlot c r = None \<longrightarrow> \<not> valid_index fi i) \<and>
    (if hasReservedSpillSlot c r = None \<and> fixed_slot c r = None
     then i = getObjectIndexEnd fi \<and> getObjectIndexEnd fi' = getObjectIndexEnd fi + 1 \<and> lo' = min lo (u32 i) \<and> hi' = max hi (u32 i)
     else getObjectIndexEnd fi' = getObjectIndexEnd fi \<and> lo' = lo \<and> hi' = hi)"
    using assms
  proof (cases rule: assign_slot_cases)
    case reserved
    then show ?thesis by (simp add: saved_in_def grown_frame_def)
  next
    case (fixed off)
    note P = prepended_grown [OF fixed(4), folded fixed(3)]
    show ?thesis using P fixed(1,2,5,6) by (simp add: saved_in_def StackObject_def)
  next
    case free
    note P = appended_grown [OF free(5), folded free(3)]
    show ?thesis using P free(1-4,6,7) by (simp add: saved_in_def StackObject_def grown_frame_def)
  qed
  then show "grown_frame fi fi'" "saved_in c tgt fi' r i" "hasReservedSpillSlot c r = None \<Longrightarrow> \<not> valid_index fi i"
    "if hasReservedSpillSlot c r = None \<and> fixed_slot c r = None
     then i = getObjectIndexEnd fi \<and> getObjectIndexEnd fi' = getObjectIndexEnd fi + 1 \<and> lo' = min lo (u32 i) \<and> hi' = max hi (u32 i)
     else getObjectIndexEnd fi' = getObjectIndexEnd fi \<and> lo' = lo \<and> hi' = hi" by blast+
qed

lemma assign_slots_facts:
  assumes "assign_slots c tgt rs (fi, lo, hi) = Inr (CSI, fi', lo', hi')"
    and "0 \<le> getObjectIndexEnd fi" "getObjectIndexEnd fi' \<le> 2 ^ 32"
  shows "map fst CSI = rs \<and> grown_frame fi fi' \<and> (\<forall>(r, i) \<in> set CSI. saved_in c tgt fi' r i) \<and>
    distinct (created c CSI) \<and> (\<forall>i \<in> set (created c CSI). \<not> valid_index fi i \<and> valid_index fi' i) \<and>
    anywhere c CSI = [getObjectIndexEnd fi .. getObjectIndexEnd fi' - 1] \<and> getObjectIndexEnd fi \<le> getObjectIndexEnd fi' \<and>
    (if getObjectIndexEnd fi' = getObjectIndexEnd fi then lo' = lo \<and> hi' = hi
     else lo' = min lo (getObjectIndexEnd fi) \<and> hi' = max hi (getObjectIndexEnd fi' - 1))"
  using assms
proof (induction rs arbitrary: fi lo hi CSI)
  case Nil
  then show ?case by (auto simp: grown_frame_def created_def anywhere_def)
next
  case (Cons r rs)
  obtain i fi1 lo1 hi1 CSI1 where s: "assign_slot c tgt r (fi, lo, hi) = Inr (i, fi1, lo1, hi1)"
      "assign_slots c tgt rs (fi1, lo1, hi1) = Inr (CSI1, fi', lo', hi')" "CSI = (r, i) # CSI1"
    using Cons.prems(1) by (auto simp: bind_result_Inr_iff)
  note F = assign_slot_facts [OF s(1)]
  have "0 \<le> getObjectIndexEnd fi1" using F(4) Cons.prems(2) by (auto split: if_splits)
  note IH = Cons.IH [OF s(2) this Cons.prems(3)]
  have grown: "grown_frame fi fi'" using grown_frame_trans [OF F(1)] IH by blast
  have here: "saved_in c tgt fi' r i" using saved_in_grown [OF F(2)] IH by blast
  have fresh: "\<not> valid_index fi i \<and> valid_index fi1 i \<and> valid_index fi' i" if "hasReservedSpillSlot c r = None"
    using F(2,3) that here by (simp add: saved_in_def)
  have old: "valid_index fi j \<Longrightarrow> valid_index fi1 j" for j using F(1) by (simp add: grown_frame_def)
  have "created c CSI = (if hasReservedSpillSlot c r = None then [i] else []) @ created c CSI1"
      "anywhere c CSI = (if hasReservedSpillSlot c r = None \<and> fixed_slot c r = None then [i] else []) @ anywhere c CSI1"
    by (auto simp: s(3) created_def anywhere_def)
  moreover have "distinct (created c CSI)" "\<forall>i \<in> set (created c CSI). \<not> valid_index fi i \<and> valid_index fi' i"
    using IH fresh old calculation(1) by auto
  ultimately show ?case
    using IH F(4) grown here s(3) Cons.prems(2,3)
    by (auto simp: upto_rec1 [of "getObjectIndexEnd fi"] u32_id split: if_splits)
qed

text \<open>
  C11. The generic assignment of spill slots gives every callee-saved register that has to be saved exactly
  one slot, in the order of the target's list: the slot the target reserves, or a new one of the size of the
  register, at the target's fixed offset or anywhere with the alignment of the class. New slots are
  different from each other and from every object of the frame, which stay as they are. The range of
  indices kept for the layout is exactly the slots that can be placed anywhere: the layout that places this
  range first places all of them and nothing else.
\<close>

theorem callee_saved_slots:
  assumes "assignCalleeSavedSpillSlots c tgt SavedRegs (fi, 2 ^ 32 - 1, 0) = Inr (fi', MinCS, MaxCS)"
    and "fst SavedRegs \<noteq> 0" "\<forall>xs. assignSlots_hook c fi xs = None"
    and "filter (\<lambda>r. r \<in> set (snd SavedRegs)) (CSRegs c) \<noteq> []"
    and "frame_ok fi" "getObjectIndexEnd fi' < 2 ^ 31"
  shows "map fst (CSInfo fi') = filter (\<lambda>r. r \<in> set (snd SavedRegs)) (CSRegs c) \<and>
    (\<forall>(r, i) \<in> set (CSInfo fi'). saved_in c tgt fi' r i) \<and> distinct (created c (CSInfo fi')) \<and>
    (\<forall>i \<in> set (created c (CSInfo fi')). \<not> valid_index fi i \<and> valid_index fi' i) \<and>
    grown_frame fi fi' \<and> frame_ok fi' \<and>
    CS_indices (tgt\<lparr>MinCSFrameIndex := MinCS, MaxCSFrameIndex := MaxCS\<rparr>) = set (anywhere c (CSInfo fi'))"
proof -
  let ?saved = "filter (\<lambda>r. r \<in> set (snd SavedRegs)) (CSRegs c)"
  obtain CSI fi1 where a: "assign_slots c tgt ?saved (fi, 2 ^ 32 - 1, 0) = Inr (CSI, fi1, MinCS, MaxCS)"
      and fi': "fi' = fi1\<lparr>CSInfo := CSI\<rparr>"
    using assms(1-4) by (auto simp: assignCalleeSavedSpillSlots_def Let_def bind_result_Inr_iff)
  have lower: "0 \<le> getObjectIndexEnd fi" using assms(5) by (simp add: frame_ok_def getObjectIndexEnd_def)
  have same: "getObjectIndexEnd fi1 = getObjectIndexEnd fi'" "valid_index fi1 = valid_index fi'"
      "object_at fi1 = object_at fi'" "StackAlignment fi1 = StackAlignment fi'"
      "StackRealignable fi1 = StackRealignable fi'" "frame_ok fi1 = frame_ok fi'"
    by (simp_all add: fi' getObjectIndexEnd_def fun_eq_iff valid_index_def object_at_def slot_of_def frame_ok_def)
  have "saved_in c tgt fi1 = saved_in c tgt fi'" "grown_frame fi fi1 = grown_frame fi fi'"
    by (simp_all only: fun_eq_iff saved_in_def grown_frame_def same simp_thms)
  note same = same(1,2) this
  note F = assign_slots_facts [OF a lower, unfolded same]
  have "{MinCS .. MaxCS} = {getObjectIndexEnd fi .. getObjectIndexEnd fi' - 1}"
    using F assms(6) lower by (auto split: if_splits)
  moreover have "CSInfo fi' = CSI" by (simp add: fi')
  ultimately show ?thesis using F assms(5,6) by (simp add: CS_indices_def grown_frame_def)
qed

section \<open>Where the saved registers are live\<close>

text \<open>
  The blocks that the worklist visits: along the edges of the control flow graph, not past the save point
  unless it is the restore point as well.
\<close>

definition live_edges :: "(nat \<Rightarrow> nat list) \<Rightarrow> nat \<Rightarrow> nat option \<Rightarrow> (nat \<times> nat) set" where
  "live_edges succs Save Restore = {(p, q). q \<in> set (succs p) \<and> \<not> (p = Save \<and> Restore \<noteq> Some Save)}"

lemma push_new_fold:
  assumes "fold push_new qs (V, W) = (V', W')"
  shows "V' = V \<union> set qs \<and> set W \<subseteq> set W' \<and> set W' \<subseteq> set W \<union> set qs \<and> set qs - V \<subseteq> set W'"
  using assms
proof (induction qs arbitrary: V W)
  case (Cons q qs)
  obtain V1 W1 where p: "push_new q (V, W) = (V1, W1)" by force
  then have "V1 = insert q V \<and> set W \<subseteq> set W1 \<and> set W1 \<subseteq> insert q (set W) \<and> (q \<notin> V \<longrightarrow> q \<in> set W1)"
    by (auto simp: push_new_def split: if_splits)
  moreover have "fold push_new qs (V1, W1) = (V', W')" using Cons.prems p by simp
  ultimately show ?case using Cons.IH [of V1 W1] by auto
qed simp

lemma live_region_reaches:
  assumes "live_region succs N Save Restore W V = Inr R"
    and "\<forall>p \<in> (V \<union> W0) - set W. live_edges succs Save Restore `` {p} \<subseteq> V"
    and "V \<subseteq> V0 \<union> (live_edges succs Save Restore)\<^sup>+ `` W0" "set W \<subseteq> W0 \<union> (live_edges succs Save Restore)\<^sup>+ `` W0"
    and "V0 \<subseteq> V"
  shows "R = V0 \<union> (live_edges succs Save Restore)\<^sup>+ `` W0"
  using assms
proof (induction succs N Save Restore W V rule: live_region.induct)
  case (1 succs N Save Restore V)
  have "q \<in> V" if "(p, q) \<in> (live_edges succs Save Restore)\<^sup>+" "p \<in> W0" for p q
    using that by (induction rule: trancl.induct) (use 1(2) in auto)
  then show ?case using 1 by auto
next
  case (2 succs N Save Restore b W V)
  let ?E = "live_edges succs Save Restore"
  show ?case
  proof (cases "b = Save \<and> Restore \<noteq> Some Save")
    case True
    then have "?E `` {b} = {}" by (auto simp: live_edges_def)
    then show ?thesis using "2.IH"(1) [OF True] "2.prems" True by auto
  next
    case False
    then have E: "?E `` {b} = set (succs b)" by (auto simp: live_edges_def)
    obtain V1 W1 where f: "fold push_new (succs b) (V, W) = (V1, W1)" by force
    note P = push_new_fold [OF f]
    have fin: "\<not> (\<exists>q \<in> set (succs b). \<not> q < N)" using "2.prems"(1) False by (auto split: if_splits)
    have run: "live_region succs N Save Restore W1 V1 = Inr R" using "2.prems"(1) False fin f by simp
    have new: "set (succs b) \<subseteq> ?E\<^sup>+ `` W0"
    proof
      fix q assume "q \<in> set (succs b)"
      then have "(b, q) \<in> ?E" using E by auto
      moreover have "b \<in> W0 \<or> b \<in> ?E\<^sup>+ `` W0" using "2.prems"(4) by auto
      ultimately show "q \<in> ?E\<^sup>+ `` W0" by (auto intro: trancl_into_trancl)
    qed
    show ?thesis
    proof (rule "2.IH"(2) [OF False fin f [symmetric] run])
      show "\<forall>p \<in> (V1 \<union> W0) - set W1. ?E `` {p} \<subseteq> V1"
        using "2.prems"(2) P E by (auto 5 2)
      show "V1 \<subseteq> V0 \<union> ?E\<^sup>+ `` W0" using "2.prems"(3) P new by auto
      show "set W1 \<subseteq> W0 \<union> ?E\<^sup>+ `` W0" using "2.prems"(4) P new by auto
      show "V0 \<subseteq> V1" using "2.prems"(5) P by auto
    qed
  qed
qed

lemma isLiveIn_append: "isLiveIn (ls @ [(r, m)]) q \<longleftrightarrow> isLiveIn ls q \<or> (q = r \<and> find (\<lambda>l. fst l = q) ls = None \<and> m \<noteq> 0)"
  by (induction ls) (auto simp: isLiveIn_def)

definition masks_ok :: "(reg \<times> 32 word) list \<Rightarrow> bool" where
  "masks_ok ls = (\<forall>l \<in> set ls. snd l \<noteq> 0)"

lemma isLiveIn_iff: "masks_ok ls \<Longrightarrow> isLiveIn ls q \<longleftrightarrow> q \<in> fst ` set ls"
  by (induction ls) (auto simp: isLiveIn_def masks_ok_def)

lemma add_saved_live:
  assumes "masks_ok ls"
  shows "masks_ok (fold (add_saved c) rs ls) \<and>
    fst ` set (fold (add_saved c) rs ls) = fst ` set ls \<union> {r \<in> set rs. \<not> isReserved c r} \<and>
    (distinct (map fst ls) \<longrightarrow> distinct (map fst (fold (add_saved c) rs ls)))"
  using assms
proof (induction rs arbitrary: ls)
  case (Cons r rs)
  let ?ls = "add_saved c r ls"
  have "masks_ok ?ls" using Cons.prems by (auto simp: add_saved_def addLiveIn_def masks_ok_def)
  moreover have "fst ` set ?ls = fst ` set ls \<union> (if isReserved c r then {} else {r})"
    using isLiveIn_iff [OF Cons.prems] by (auto simp: add_saved_def addLiveIn_def)
  moreover have "distinct (map fst ls) \<longrightarrow> distinct (map fst ?ls)"
    using isLiveIn_iff [OF Cons.prems] by (auto simp: add_saved_def addLiveIn_def)
  ultimately show ?case using Cons.IH [of ?ls] by auto
qed simp

definition save_block :: "machine_function \<Rightarrow> nat" where
  "save_block MF = (case SavePoint (Frame MF) of None \<Rightarrow> 0 | Some b \<Rightarrow> b)"

definition live_blocks :: "machine_function \<Rightarrow> nat set" where
  "live_blocks MF =
     (let E = live_edges (successors MF) (save_block MF) (RestorePoint (Frame MF)) in
      insert (save_block MF)
        ((if save_block MF \<noteq> 0 then E\<^sup>* `` {0} else {}) \<union> E\<^sup>+ `` set_option (RestorePoint (Frame MF))))"

lemma updateLiveness_blocks:
  assumes "updateLiveness c MF = Inr MF'"
  shows "MF' = MF\<lparr>LiveIns := (\<lambda>b. if b \<in> live_blocks MF
    then fold (add_saved c) (map fst (CSInfo (Frame MF))) (LiveIns MF b) else LiveIns MF b)\<rparr>"
proof -
  let ?S = "save_block MF"
  let ?R = "RestorePoint (Frame MF)"
  let ?E = "live_edges (successors MF) ?S ?R"
  let ?W = "if 0 \<noteq> ?S then [0] else []"
  let ?W' = "case ?R of None \<Rightarrow> ?W | Some b \<Rightarrow> b # ?W"
  obtain V where v: "live_region (successors MF) (length (Blocks MF)) ?S ?R ?W' (insert ?S (set ?W)) = Inr V"
      and MF': "MF' = MF\<lparr>LiveIns := (\<lambda>b. if b \<in> V
        then fold (add_saved c) (map fst (CSInfo (Frame MF))) (LiveIns MF b) else LiveIns MF b)\<rparr>"
    using assms unfolding updateLiveness_def Let_def save_block_def [symmetric]
    by (auto simp: bind_result_Inr_iff)
  have "V = insert ?S (set ?W) \<union> ?E\<^sup>+ `` set ?W'"
    by (rule live_region_reaches [OF v]) (auto simp: live_edges_def split: option.splits)
  then have "V = live_blocks MF"
    by (auto simp: live_blocks_def Let_def rtrancl_eq_or_trancl split: option.splits if_splits)
  then show ?thesis using MF' by simp
qed

text \<open>
  C12. After \<open>updateLiveness\<close> the callee-saved registers that are not reserved are live into exactly these
  blocks, beside what was live before: the save point (the entry when there is none), the blocks in front
  of it, that is those the entry reaches without passing it, and the blocks that the restore point
  reaches. No register is entered twice.
\<close>

theorem updateLiveness_live_region:
  assumes "updateLiveness c MF = Inr MF'" "masks_ok (LiveIns MF b)"
  shows "(isLiveIn (LiveIns MF' b) r \<longleftrightarrow> isLiveIn (LiveIns MF b) r \<or>
      (b \<in> live_blocks MF \<and> r \<in> fst ` set (CSInfo (Frame MF)) \<and> \<not> isReserved c r)) \<and>
    (distinct (map fst (LiveIns MF b)) \<longrightarrow> distinct (map fst (LiveIns MF' b)))"
proof -
  note A = add_saved_live [OF assms(2), of c "map fst (CSInfo (Frame MF))"]
  note L = updateLiveness_blocks [OF assms(1)]
  have "masks_ok (LiveIns MF' b)" using A assms(2) by (simp add: L)
  then show ?thesis using A assms(2) by (auto simp: isLiveIn_iff L)
qed

section \<open>Saving and restoring in every block\<close>

lemma update_block_Inr_iff:
  "update_block f b Fn = Inr Fn' \<longleftrightarrow> b < length Fn \<and> (\<exists>MBB. f b (Fn ! b) = Inr MBB \<and> Fn' = Fn[b := MBB])"
  by (auto simp: update_block_def bind_result_Inr_iff)

lemma spill_blocks:
  assumes "fold_result (spill_at c) bs MF = Inr MF'" "distinct bs"
  shows "length (Blocks MF') = length (Blocks MF) \<and> Frame MF' = Frame MF \<and> successors MF' = successors MF \<and>
    isEHFuncletEntry MF' = isEHFuncletEntry MF \<and> set bs \<subseteq> {..<length (Blocks MF)} \<and>
    (\<forall>b < length (Blocks MF). Blocks MF' ! b =
       (if b \<in> set bs then insert_spills (CSInfo (Frame MF)) (Blocks MF ! b) else Blocks MF ! b))"
  using assms
proof (induction bs arbitrary: MF)
  case (Cons b bs)
  obtain MF1 where m: "spill_at c b MF = Inr MF1" "fold_result (spill_at c) bs MF1 = Inr MF'"
    using Cons.prems(1) by (auto simp: bind_result_Inr_iff)
  then have "b < length (Blocks MF)" "Blocks MF1 = (Blocks MF)[b := insert_spills (CSInfo (Frame MF)) (Blocks MF ! b)]"
    "Frame MF1 = Frame MF" "successors MF1 = successors MF" "isEHFuncletEntry MF1 = isEHFuncletEntry MF"
    by (auto simp: spill_at_def bind_result_Inr_iff update_block_Inr_iff dest!: updateLiveness_blocks)
  then show ?case using Cons.IH [OF m(2)] Cons.prems(2) by (auto simp: nth_list_update)
qed simp

lemma restore_blocks:
  assumes "fold_result restore_at bs MF = Inr MF'" "distinct bs"
  shows "length (Blocks MF') = length (Blocks MF) \<and> Frame MF' = Frame MF \<and> successors MF' = successors MF \<and>
    isEHFuncletEntry MF' = isEHFuncletEntry MF \<and> LiveIns MF' = LiveIns MF \<and> set bs \<subseteq> {..<length (Blocks MF)} \<and>
    (\<forall>b < length (Blocks MF). Blocks MF' ! b =
       (if b \<in> set bs then insert_restores (CSInfo (Frame MF)) (Blocks MF ! b) else Blocks MF ! b))"
  using assms
proof (induction bs arbitrary: MF)
  case (Cons b bs)
  obtain MF1 where m: "restore_at b MF = Inr MF1" "fold_result restore_at bs MF1 = Inr MF'"
    using Cons.prems(1) by (auto simp: bind_result_Inr_iff)
  then have "b < length (Blocks MF)" "MF1 = MF\<lparr>Blocks := (Blocks MF)[b := insert_restores (CSInfo (Frame MF)) (Blocks MF ! b)]\<rparr>"
    by (auto simp: restore_at_def bind_result_Inr_iff update_block_Inr_iff)
  then show ?case using Cons.IH [OF m(2)] Cons.prems(2) by (auto simp: nth_list_update)
qed simp

text \<open>
  The saves go to the front of every save block, the reloads in front of the terminators of every
  restore block, and no other block changes; a block that is both gets both. The list of the saved
  registers is marked valid, also when it is empty and no code is inserted.
\<close>

theorem insertCSRSpillsAndRestores_blocks:
  assumes "insertCSRSpillsAndRestores c SaveBlocks RestoreBlocks MF = Inr MF'"
    and "distinct SaveBlocks" "distinct RestoreBlocks"
  shows "length (Blocks MF') = length (Blocks MF) \<and> Frame MF' = (Frame MF)\<lparr>CSIValid := True\<rparr> \<and>
    (\<forall>b < length (Blocks MF). Blocks MF' ! b =
      (let CSI = CSInfo (Frame MF);
           MBB = (if b \<in> set SaveBlocks \<and> CSI \<noteq> [] then insert_spills CSI (Blocks MF ! b) else Blocks MF ! b)
       in if b \<in> set RestoreBlocks \<and> CSI \<noteq> [] then insert_restores CSI MBB else MBB))"
proof -
  let ?MF = "MF\<lparr>Frame := (Frame MF)\<lparr>CSIValid := True\<rparr>\<rparr>"
  show ?thesis
  proof (cases "CSInfo (Frame MF) = []")
    case False
    then obtain MF1 where m: "fold_result (spill_at c) SaveBlocks ?MF = Inr MF1"
        "fold_result restore_at RestoreBlocks MF1 = Inr MF'"
      using assms(1) by (auto simp: insertCSRSpillsAndRestores_def Let_def bind_result_Inr_iff)
    show ?thesis using spill_blocks [OF m(1) assms(2)] restore_blocks [OF m(2) assms(3)] False by (simp add: Let_def)
  qed (use assms(1) in \<open>auto simp: insertCSRSpillsAndRestores_def Let_def\<close>)
qed

section \<open>A concrete target\<close>

text \<open>Four callee-saved registers: \<open>F1\<close> is not modified, \<open>F3\<close> has a fixed slot, the others go anywhere.\<close>

definition sample_cs :: cs_target where
  "sample_cs = \<lparr>NumRegs = 7, CSRegs = [F1, F2, F3, F0], EnableIPRA = False, Naked = False, callsUnwindInit = False,
     isPhysRegModified = (\<lambda>r. r \<noteq> F1), assignSlots_hook = (\<lambda>_ _. None), CalleeSavedSpillSlots = [(F3, -8)],
     hasReservedSpillSlot = (\<lambda>_. None), getSpillSize = (\<lambda>_. 4), getSpillAlignment = (\<lambda>_. 8), isReserved = (\<lambda>r. r = F0)\<rparr>"

lemma sample_slots:
  obtains fi' where "assignCalleeSavedSpillSlots sample_cs f2003f_target (determineCalleeSaves sample_cs)
    (empty_2003f_frame, 2 ^ 32 - 1, 0) = Inr (fi', 0, 1)" "CSInfo fi' = [(F2, 0), (F3, -1), (F0, 1)]"
    "getObjectIndexEnd fi' = 2"
  by (simp add: sample_cs_def determineCalleeSaves_def assignCalleeSavedSpillSlots_def assign_slot_def fixed_slot_def
      CreateStackObject_def CreateFixedSpillStackObject_def ensureMaxAlignment_def clampStackAlignment_def Let_def
      empty_2003f_frame_def new_frame_info_def f2003f_target_def u32_id getObjectIndexEnd_def)

theorem callee_saved_slots_witness:
  "\<exists>fi'. assignCalleeSavedSpillSlots sample_cs f2003f_target (determineCalleeSaves sample_cs)
      (empty_2003f_frame, 2 ^ 32 - 1, 0) = Inr (fi', 0, 1) \<and>
    map fst (CSInfo fi') = [F2, F3, F0] \<and> saved_in sample_cs f2003f_target fi' F3 (-1)"
proof -
  obtain fi' where a: "assignCalleeSavedSpillSlots sample_cs f2003f_target (determineCalleeSaves sample_cs)
      (empty_2003f_frame, 2 ^ 32 - 1, 0) = Inr (fi', 0, 1)" "CSInfo fi' = [(F2, 0), (F3, -1), (F0, 1)]"
      "getObjectIndexEnd fi' = 2"
    by (rule sample_slots)
  have "fst (determineCalleeSaves sample_cs) \<noteq> 0" "\<forall>xs. assignSlots_hook sample_cs empty_2003f_frame xs = None"
    "filter (\<lambda>r. r \<in> set (snd (determineCalleeSaves sample_cs))) (CSRegs sample_cs) \<noteq> []"
    by (simp_all add: sample_cs_def determineCalleeSaves_def)
  moreover have "frame_ok empty_2003f_frame"
    by (simp add: frame_ok_def empty_2003f_frame_def new_frame_info_def valid_index_def getObjectIndexBegin_def getObjectIndexEnd_def)
  moreover have "getObjectIndexEnd fi' < 2 ^ 31" using a(3) by simp
  ultimately show ?thesis using callee_saved_slots [OF a(1)] a by auto
qed

text \<open>A loop in block 1 around the saves of block 2; block 3 restores.\<close>

definition sample_MF :: machine_function where
  "sample_MF = \<lparr>Frame = empty_2003f_frame\<lparr>CSInfo := [(F2, 0), (F0, 1)], SavePoint := Some 2, RestorePoint := Some 3\<rparr>,
     Blocks = [[], word_block, [], [], []], LiveIns = (\<lambda>_. [(F3, 1)]),
     successors = (\<lambda>b. if b = 0 then [1] else if b = 1 then [1, 2] else if b < 4 then [Suc b] else []),
     isEHFuncletEntry = (\<lambda>_. False)\<rparr>"

theorem updateLiveness_live_region_witness:
  "\<exists>MF'. updateLiveness sample_cs sample_MF = Inr MF' \<and> isLiveIn (LiveIns MF' 1) F2 \<and> \<not> isLiveIn (LiveIns MF' 3) F2"
proof -
  obtain MF' where u: "updateLiveness sample_cs sample_MF = Inr MF'"
      "isLiveIn (LiveIns MF' 1) F2" "\<not> isLiveIn (LiveIns MF' 3) F2"
    by (simp add: sample_MF_def updateLiveness_def Let_def push_new_def add_saved_def addLiveIn_def isLiveIn_def sample_cs_def)
  have "masks_ok (LiveIns sample_MF b)" for b by (simp add: masks_ok_def sample_MF_def)
  with updateLiveness_live_region [OF u(1), of 1] u show ?thesis by blast
qed

theorem insertCSRSpillsAndRestores_blocks_witness:
  "\<exists>MF'. insertCSRSpillsAndRestores sample_cs [2] [3] sample_MF = Inr MF' \<and>
     Blocks MF' ! 2 = insert_spills [(F2, 0), (F0, 1)] []"
proof -
  obtain MF' where u: "insertCSRSpillsAndRestores sample_cs [2] [3] sample_MF = Inr MF'"
    by (simp add: insertCSRSpillsAndRestores_def spill_at_def restore_at_def update_block_def
        sample_MF_def updateLiveness_def Let_def push_new_def add_saved_def addLiveIn_def isLiveIn_def sample_cs_def)
  have "distinct [2 :: nat]" "distinct [3 :: nat]" by simp_all
  from insertCSRSpillsAndRestores_blocks [OF u this] u show ?thesis by (auto simp: sample_MF_def Let_def)
qed

end
