(* ===== verification/PEIPass.thy ===== *)
theory PEIPass
  imports ReplaceIndices CalleeSaves
begin

text \<open>
  The pass as a whole: \<open>PEI::runOnMachineFunction\<close> of \<open>lib/CodeGen/PrologEpilogInserter.cpp\<close>, which runs the
  steps of \<open>PrologEpilog\<close>, \<open>CalleeSaves\<close>, \<open>FrameLayout\<close> and \<open>ReplaceIndices\<close> in their order, and what it does to
  a function of the 2003f.

  The two hooks that may run code of the target between the steps, and the scavenging of the virtual
  registers that frame index elimination left, are arguments; the 2003f has none of them.
\<close>

section \<open>The pass\<close>

text \<open>\<open>scavengeFrameVirtualRegs\<close> is there when the target requires scavenging and does it afterwards;
  \<open>WarnStackSize\<close> when the option was given.\<close>

record pei_target =
  frame_hooks :: frame_target
  cs_hooks :: cs_target
  usesPhysRegsForPEI :: bool
  processFunctionBeforeFrameFinalized :: "machine_function \<Rightarrow> machine_function result"
  scavengeFrameVirtualRegs :: "(machine_function \<Rightarrow> machine_function result) option"
  WarnStackSize :: "int option"

text \<open>The result says whether the size of the stack was diagnosed.\<close>

definition runOnMachineFunction :: "pei_target \<Rightarrow> machine_function \<Rightarrow> (machine_function \<times> bool) result" where
  "runOnMachineFunction pt MF =
     bind_result (calculateCallFrameInfo (frame_hooks pt) (Frame MF) (Blocks MF)) (\<lambda>(fi, Fn).
     bind_result (calculateSaveRestoreBlocks Fn (\<lambda>b. successors MF b = []) (isEHFuncletEntry MF)
         (SavePoint fi) (RestorePoint fi)) (\<lambda>(SaveBlocks, RestoreBlocks).
     bind_result (if usesPhysRegsForPEI pt
         then doSpillCalleeSavedRegs (cs_hooks pt) (frame_hooks pt) SaveBlocks RestoreBlocks (MF\<lparr>Frame := fi, Blocks := Fn\<rparr>)
         else Inr (MF\<lparr>Frame := fi, Blocks := Fn\<rparr>, 2 ^ 32 - 1, 0)) (\<lambda>(MF, MinCS, MaxCS).
     bind_result (processFunctionBeforeFrameFinalized pt MF) (\<lambda>MF.
     let tgt = (frame_hooks pt)\<lparr>MinCSFrameIndex := MinCS, MaxCSFrameIndex := MaxCS\<rparr> in
     bind_result (calculateFrameObjectOffsets tgt (Frame MF)) (\<lambda>fi.
     bind_result (if \<not> Naked (cs_hooks pt) then insertPrologEpilogCode fi SaveBlocks RestoreBlocks (Blocks MF)
         else Inr (Blocks MF)) (\<lambda>Fn.
     bind_result (replaceFrameIndices_function tgt fi (successors MF) Fn) (\<lambda>Fn.
     bind_result (case scavengeFrameVirtualRegs pt of None \<Rightarrow> Inr (MF\<lparr>Frame := fi, Blocks := Fn\<rparr>)
         | Some scavenge \<Rightarrow> scavenge (MF\<lparr>Frame := fi, Blocks := Fn\<rparr>)) (\<lambda>MF.
     Inr (MF\<lparr>Frame := (Frame MF)\<lparr>SavePoint := None, RestorePoint := None\<rparr>\<rparr>,
          case WarnStackSize pt of None \<Rightarrow> False | Some n \<Rightarrow> n < StackSize (Frame MF))))))))))"

section \<open>On the 2003f\<close>

text \<open>What the 2003f answers: no callee-saved registers, no hooks, no scavenging.\<close>

definition on_2003f :: "pei_target \<Rightarrow> bool" where
  "on_2003f pt = (frame_hooks pt = f2003f_target \<and> CSRegs (cs_hooks pt) = [] \<and>
     (\<forall>fi xs. assignSlots_hook (cs_hooks pt) fi xs = None) \<and> \<not> Naked (cs_hooks pt) \<and>
     (\<forall>MF. processFunctionBeforeFrameFinalized pt MF = Inr MF) \<and> scavengeFrameVirtualRegs pt = None)"

lemma assignCalleeSavedSpillSlots_2003f:
  assumes "on_2003f pt"
  shows "assignCalleeSavedSpillSlots (cs_hooks pt) tgt SavedRegs st = Inr st"
  using assms by (cases st) (simp add: assignCalleeSavedSpillSlots_def on_2003f_def)

lemma calculateCallFrameInfo_2003f:
  assumes "calculateCallFrameInfo f2003f_target fi Fn = Inr (fi', Fn')"
  shows "Fn' = Fn" "CSInfo fi' = CSInfo fi" "SavePoint fi' = SavePoint fi"
  using assms by (auto simp: calculateCallFrameInfo_def bind_result_Inr_iff Let_def canSimplifyCallFramePseudos_def f2003f_target_def
    split: if_splits)

lemma update_blocks_each:
  assumes "fold_result (update_block f) bs Fn = Inr Fn'" "distinct bs"
  shows "length Fn' = length Fn \<and> (\<forall>b < length Fn. if b \<in> set bs then f b (Fn ! b) = Inr (Fn' ! b) else Fn' ! b = Fn ! b) \<and>
    set bs \<subseteq> {..<length Fn}"
  using assms
proof (induction bs arbitrary: Fn)
  case (Cons b bs)
  obtain Fn1 where m: "update_block f b Fn = Inr Fn1" "fold_result (update_block f) bs Fn1 = Inr Fn'"
    using Cons.prems(1) by (auto simp: bind_result_Inr_iff)
  then have "b < length Fn" "\<exists>MBB. f b (Fn ! b) = Inr MBB \<and> Fn1 = Fn[b := MBB]" by (simp_all add: update_block_Inr_iff)
  then obtain MBB where b: "b < length Fn" "f b (Fn ! b) = Inr MBB" "Fn1 = Fn[b := MBB]" by blast
  note IH = Cons.IH [OF m(2)]
  have "if k \<in> set (b # bs) then f k (Fn ! k) = Inr (Fn' ! k) else Fn' ! k = Fn ! k" if "k < length Fn" for k
    using IH Cons.prems(2) b that by (cases "k = b") (auto dest!: spec [of _ k])
  then show ?case using IH b Cons.prems(2) by simp
qed simp

text \<open>The code for the stack pointer: at the entry, and in front of a return.\<close>

definition open_frame :: "frame_info \<Rightarrow> nat \<Rightarrow> minstr list" where
  "open_frame fi b = (if b = 0 \<and> StackSize fi \<noteq> 0
     then [mk_instr NTAri [def_reg F5, use_reg F5, MO_Immediate (i64 (StackSize fi))]] else [])"

definition close_frame :: "frame_info \<Rightarrow> minstr list \<Rightarrow> minstr list" where
  "close_frame fi MBB = (if isReturnBlock MBB \<and> StackSize fi \<noteq> 0
     then [mk_instr ATAri [def_reg F5, use_reg F5, MO_Immediate (i64 (StackSize fi))]] else [])"

text \<open>A return ends its block.\<close>

definition returns_last :: "minstr list \<Rightarrow> bool" where
  "returns_last MBB = ((\<forall>mi \<in> set (butlast MBB). \<not> isReturn (opc mi)) \<and> (MBB \<noteq> [] \<longrightarrow> \<not> inside_bundle (last MBB)))"

text \<open>The part of a block in front of its first return, and where control goes at the end of that part.\<close>

definition body_of :: "minstr list \<Rightarrow> minstr list" where
  "body_of mis = takeWhile (\<lambda>mi. \<not> isReturn (opc mi)) mis"

definition exit_of :: "nat \<Rightarrow> minstr list \<Rightarrow> nat option" where
  "exit_of nxt mis = (if \<exists>mi \<in> set mis. isReturn (opc mi) then None else Some nxt)"

lemma body_of_Cons:
  "body_of (mi # mis) = (if isReturn (opc mi) then [] else mi # body_of mis)"
  "exit_of nxt (mi # mis) = (if isReturn (opc mi) then None else exit_of nxt mis)"
  by (simp_all add: body_of_def exit_of_def)

lemma replace_loop_body:
  assumes "replace_loop tgt fi b n mis = Inr (mis', n')"
  shows "(\<exists>n''. replace_loop tgt fi b n (body_of mis) = Inr (body_of mis', n'')) \<and> exit_of nxt mis' = exit_of nxt mis"
  using assms
proof (induction tgt fi b n mis arbitrary: mis' n' rule: replace_loop.induct)
  case (2 tgt fi b n I rest)
  show ?case
  proof (cases "isFrameInstr I")
    case True
    then obtain a xs ys where r: "getSPAdjust tgt I = Inr a" "eliminateCallFramePseudoInstr I = Inr xs"
        "replace_loop tgt fi (isFrameSetup I) (i32 (n + a)) rest = Inr (ys, n')" "mis' = xs @ ys"
      using "2.prems" by (auto simp: bind_result_Inr_iff)
    have xs: "\<forall>x \<in> set xs. \<not> isReturn (opc x)"
      using r(2) by (auto simp: eliminateCallFramePseudoInstr_def bind_result_Inr_iff Let_def isReturn_def split: if_splits)
    moreover have "\<not> isReturn (opc I)" using True by (auto simp: isFrameInstr_def isReturn_def)
    moreover have "body_of (xs @ ys) = xs @ body_of ys" "exit_of nxt (xs @ ys) = exit_of nxt ys"
      using xs by (auto simp: body_of_def exit_of_def)
    ultimately show ?thesis using "2.IH"(1) [OF True r(1-3)] r True
      by (auto simp: body_of_Cons)
  next
    case nf: False
    show ?thesis
    proof (cases "first_FI (operands I) \<noteq> None \<and> opc I \<noteq> DBG_VALUE \<and> opc I \<noteq> STATEPOINT")
      case True
      then obtain k where k: "first_FI (operands I) = Some k" by blast
      obtain xs where xs: "eliminateFrameIndex fi I n k = Inr xs"
          "replace_loop tgt fi b n (xs @ rest) = Inr (mis', n')"
        using "2.prems" nf True k by (auto simp: bind_result_Inr_iff)
      have ret: "if isReturn (opc I) then \<exists>I'. xs = [I'] \<and> isReturn (opc I') else \<forall>x \<in> set xs. \<not> isReturn (opc x)"
        using xs(1) by (auto simp: eliminateFrameIndex_def bind_result_Inr_iff Let_def isReturn_def split: if_splits)
      then have "body_of (xs @ rest) = (if isReturn (opc I) then [] else xs @ body_of rest)"
          "exit_of nxt (xs @ rest) = exit_of nxt (I # rest)"
        by (auto simp: body_of_def exit_of_def split: if_splits)
      then show ?thesis using "2.IH"(2) [OF nf True _ xs(2)] xs(1) k nf True
        by (auto simp: body_of_Cons split: if_splits)
    next
      case False
      obtain I' a ys where r:
          "(if opc I = DBG_VALUE then resolve_debug tgt fi I
            else if opc I = STATEPOINT then resolve_statepoint tgt fi I else Inr I) = Inr I'"
          "(if b then getSPAdjust tgt I' else Inr 0) = Inr a"
          "replace_loop tgt fi b (i32 (n + a)) rest = Inr (ys, n')" "mis' = I' # ys"
        using "2.prems" nf False by (auto simp: bind_result_Inr_iff simp del: not_None_eq)
      have "opc I' = opc I" using r(1) resolve_debug_opc resolve_statepoint_opc by (auto split: if_splits)
      then show ?thesis using "2.IH"(3) [OF nf False r(1-3)] r nf False
        by (auto simp: body_of_Cons simp del: not_None_eq split: if_splits)
    qed
  qed
qed (simp add: body_of_def exit_of_def)

text \<open>The run of a block is the run of its body, which falls through to the return if there is one.\<close>

definition returned :: "mstate \<times> leaving \<Rightarrow> mstate \<times> leaving" where
  "returned x = (fst x, if snd x = To None then Returns else snd x)"

lemma returned_simps [simp]:
  "returned (s, To None) = (s, Returns)" "returned (s, To (Some b)) = (s, To (Some b))" "returned (s, Returns) = (s, Returns)"
  by (simp_all add: returned_def)

lemma run_block_body:
  "run_block e (Some nxt) mis s = map_option returned (run_block e (exit_of nxt mis) (body_of mis) s)"
proof (induction mis arbitrary: s)
  case (Cons mi mis)
  let ?run = "run_block e (exit_of nxt mis) (body_of mis)"
  have eq: "run_block e (Some nxt) mis = (\<lambda>s. map_option returned (?run s))" using Cons.IH by blast
  have bind: "Option.bind x (\<lambda>s. map_option returned (?run s)) = map_option returned (Option.bind x ?run)" for x
    by (cases x) simp_all
  show ?case
  proof (cases "isReturn (opc mi)")
    case True
    then show ?thesis by (simp add: body_of_Cons) (simp add: isReturn_def)
  next
    case False
    then have b: "body_of (mi # mis) = mi # body_of mis" "exit_of nxt (mi # mis) = exit_of nxt mis"
      by (simp_all add: body_of_Cons)
    show ?thesis unfolding b run_block.simps eq bind using False
      by (auto simp: isReturn_def split: opcode.split bind_split option.split)
  qed
qed (simp add: body_of_def exit_of_def)

lemma run_block_no_return:
  "run_block e nxt mis s = Some (s', t) \<Longrightarrow> \<forall>mi \<in> set mis. \<not> isReturn (opc mi) \<Longrightarrow> t \<noteq> Returns"
  by (induction mis arbitrary: s) (auto split: opcode.splits if_splits simp: bind_eq_Some_conv isReturn_def)

lemma returns_last_body:
  assumes "returns_last MBB"
  shows "MBB = body_of MBB @ (if isReturnBlock MBB then [last MBB] else [])"
    and "exit_of nxt MBB = (if isReturnBlock MBB then None else Some nxt)"
proof -
  have "MBB = body_of MBB @ (if isReturnBlock MBB then [last MBB] else []) \<and>
    exit_of nxt MBB = (if isReturnBlock MBB then None else Some nxt)"
    using assms
    by (cases MBB rule: rev_cases) (auto simp: returns_last_def isReturnBlock_def body_of_def exit_of_def takeWhile_append)
  then show "MBB = body_of MBB @ (if isReturnBlock MBB then [last MBB] else [])"
    "exit_of nxt MBB = (if isReturnBlock MBB then None else Some nxt)" by simp_all
qed

lemma insertPrologEpilogCode_2003f:
  assumes "insertPrologEpilogCode fi [0] (filter (\<lambda>b. isReturnBlock (Fn ! b)) [0 ..< length Fn]) Fn = Inr Fn'"
    and "\<forall>MBB \<in> set Fn. returns_last MBB"
  shows "length Fn' = length Fn \<and> (\<forall>b < length Fn.
    Fn' ! b = open_frame fi b @ body_of (Fn ! b) @ close_frame fi (Fn ! b) @ (if isReturnBlock (Fn ! b) then [last (Fn ! b)] else []))"
proof -
  obtain Fn1 where p: "update_block (emitPrologue fi) 0 Fn = Inr Fn1"
      and q: "fold_result (update_block (\<lambda>_. emitEpilogue fi)) (filter (\<lambda>b. isReturnBlock (Fn ! b)) [0 ..< length Fn]) Fn1 = Inr Fn'"
    using assms(1) by (auto simp: insertPrologEpilogCode_def bind_result_Inr_iff)
  have len: "length Fn1 = length Fn" and P: "\<And>b. b < length Fn \<Longrightarrow> Fn1 ! b = open_frame fi b @ Fn ! b"
    using p by (auto simp: update_block_Inr_iff emitPrologue_0 open_frame_def nth_list_update)
  have U: "length Fn' = length Fn" "\<And>b. b < length Fn \<Longrightarrow> if isReturnBlock (Fn ! b)
      then emitEpilogue fi (Fn1 ! b) = Inr (Fn' ! b) else Fn' ! b = Fn1 ! b"
    using update_blocks_each [OF q] len by auto
  have "Fn' ! b = open_frame fi b @ body_of (Fn ! b) @ close_frame fi (Fn ! b) @ (if isReturnBlock (Fn ! b) then [last (Fn ! b)] else [])"
    if b: "b < length Fn" for b
  proof -
    have r: "returns_last (Fn ! b)" using assms(2) b nth_mem by blast
    note body = returns_last_body(1) [OF r]
    show ?thesis
    proof (cases "isReturnBlock (Fn ! b)")
      case True
      then have "opc (last (Fn ! b)) = KRZ_DOSNUD" "\<not> inside_bundle (last (Fn ! b))"
        using r by (auto simp: isReturnBlock_def returns_last_def isReturn_def)
      moreover have "Fn1 ! b = (open_frame fi b @ body_of (Fn ! b)) @ [last (Fn ! b)]"
        using P [OF b] body True by simp
      ultimately have "emitEpilogue fi (Fn1 ! b) = Inr ((open_frame fi b @ body_of (Fn ! b)) @
          (if StackSize fi \<noteq> 0 then [mk_instr ATAri [def_reg F5, use_reg F5, MO_Immediate (i64 (StackSize fi))]] else []) @ [last (Fn ! b)])"
        using emitEpilogue_return [of "last (Fn ! b)" fi "open_frame fi b @ body_of (Fn ! b)"] by simp
      then show ?thesis using U(2) [OF b] True by (simp add: close_frame_def)
    next
      case False
      then show ?thesis using U(2) [OF b] P [OF b] body by (simp add: close_frame_def)
    qed
  qed
  then show ?thesis using U(1) by blast
qed

text \<open>The resolution leaves the code for the stack pointer alone, and resolves what stands between.\<close>

definition untouched :: "minstr \<Rightarrow> bool" where
  "untouched I = (\<not> isFrameInstr I \<and> first_FI (operands I) = None \<and> opc I \<noteq> DBG_VALUE \<and> opc I \<noteq> STATEPOINT)"

lemma replace_loop_untouched:
  "untouched I \<Longrightarrow> replace_loop tgt fi b n (I # rest) =
     bind_result (replace_loop tgt fi b (i32 n) rest) (\<lambda>(ys, k). Inr (I # ys, k))"
  by (auto simp: untouched_def getSPAdjust_other bind_result_Inr_iff split: sum.split)

lemma replace_loop_append_untouched:
  assumes "replace_loop tgt fi b n (mis @ Q) = Inr (zs, k)" "\<forall>I \<in> set Q. untouched I"
  shows "\<exists>ws k'. zs = ws @ Q \<and> replace_loop tgt fi b n mis = Inr (ws, k')"
  using assms
proof (induction tgt fi b n mis arbitrary: zs k rule: replace_loop.induct)
  case (1 tgt fi b n)
  have "zs = Q" if "replace_loop tgt fi b n Q = Inr (zs, k)" "\<forall>I \<in> set Q. untouched I" for b n Q zs
    using that
    by (induction Q arbitrary: n zs) (auto simp: replace_loop_untouched bind_result_Inr_iff simp del: replace_loop.simps(2))
  then show ?case using 1 by simp
next
  case (2 tgt fi b n I rest)
  show ?case
  proof (cases "isFrameInstr I")
    case True
    then obtain a xs ys where r: "getSPAdjust tgt I = Inr a" "eliminateCallFramePseudoInstr I = Inr xs"
        "replace_loop tgt fi (isFrameSetup I) (i32 (n + a)) (rest @ Q) = Inr (ys, k)" "zs = xs @ ys"
      using "2.prems" by (auto simp: bind_result_Inr_iff)
    from "2.IH"(1) [OF True r(1-3) "2.prems"(2)] r True show ?thesis by (auto simp: bind_result_Inr_iff)
  next
    case nf: False
    show ?thesis
    proof (cases "first_FI (operands I) \<noteq> None \<and> opc I \<noteq> DBG_VALUE \<and> opc I \<noteq> STATEPOINT")
      case True
      then obtain j where j: "first_FI (operands I) = Some j" by blast
      obtain xs where xs: "eliminateFrameIndex fi I n j = Inr xs"
          "replace_loop tgt fi b n ((xs @ rest) @ Q) = Inr (zs, k)"
        using "2.prems" nf True j by (auto simp: bind_result_Inr_iff)
      from "2.IH"(2) [OF nf True _ xs(2) "2.prems"(2)] xs(1) j nf True show ?thesis by auto
    next
      case False
      obtain I' a ys where r:
          "(if opc I = DBG_VALUE then resolve_debug tgt fi I
            else if opc I = STATEPOINT then resolve_statepoint tgt fi I else Inr I) = Inr I'"
          "(if b then getSPAdjust tgt I' else Inr 0) = Inr a"
          "replace_loop tgt fi b (i32 (n + a)) (rest @ Q) = Inr (ys, k)" "zs = I' # ys"
        using "2.prems" nf False by (auto simp: bind_result_Inr_iff simp del: not_None_eq)
      from "2.IH"(3) [OF nf False r(1-3) "2.prems"(2)] r nf False show ?thesis
        by (auto simp: bind_result_Inr_iff simp del: not_None_eq)
    qed
  qed
qed

lemma frame_code_untouched:
  "\<forall>I \<in> set (open_frame fi b). untouched I" "\<forall>I \<in> set (close_frame fi MBB). untouched I"
  "\<forall>I \<in> set (open_frame fi b). \<not> isReturn (opc I)" "\<forall>I \<in> set (close_frame fi MBB). \<not> isReturn (opc I)"
  by (simp_all add: open_frame_def close_frame_def untouched_def isFrameInstr_def isReturn_def)

lemma replace_frame_code:
  assumes "replace_loop tgt fi b n (open_frame fi p @ body @ close_frame fi MBB) = Inr (zs, k)"
  shows "\<exists>ws m k'. zs = open_frame fi p @ ws @ close_frame fi MBB \<and> (word_of_int m :: 32 word) = word_of_int n \<and>
    replace_loop tgt fi b m body = Inr (ws, k')"
proof (cases "open_frame fi p")
  case Nil
  then show ?thesis using replace_loop_append_untouched [OF _ frame_code_untouched(2)] assms by force
next
  case (Cons I Is)
  then have Is: "Is = []" "untouched I" using frame_code_untouched(1) [of fi p] by (auto simp: open_frame_def split: if_splits)
  then obtain ys where ys: "replace_loop tgt fi b (i32 n) (body @ close_frame fi MBB) = Inr (ys, k)" "zs = I # ys"
    using assms Cons by (auto simp: replace_loop_untouched bind_result_Inr_iff simp del: replace_loop.simps(2))
  obtain ws k' where ws: "ys = ws @ close_frame fi MBB" "replace_loop tgt fi b (i32 n) body = Inr (ws, k')"
    using replace_loop_append_untouched [OF ys(1) frame_code_untouched(2)] by blast
  show ?thesis by (rule exI [of _ ws], rule exI [of _ "i32 n"], rule exI [of _ k']) (use ws ys(2) Cons Is in simp)
qed

section \<open>The function runs as before the pass\<close>

text \<open>The state with the frame open, and with it closed when the function returns.\<close>

definition opened :: "frame_info \<Rightarrow> mstate \<Rightarrow> mstate" where
  "opened fi s = s\<lparr>regs := (regs s)(F5 := regs s F5 - word_of_int (StackSize fi))\<rparr>"

definition closed :: "frame_info \<Rightarrow> mstate \<times> leaving \<Rightarrow> mstate \<times> leaving" where
  "closed fi x = (case x of
     (s, Returns) \<Rightarrow> (s\<lparr>regs := (regs s)(F5 := regs s F5 + word_of_int (StackSize fi))\<rparr>, Returns) | _ \<Rightarrow> x)"

lemma closed_simps [simp]:
  "closed fi (s, Returns) = (s\<lparr>regs := (regs s)(F5 := regs s F5 + word_of_int (StackSize fi))\<rparr>, Returns)"
  "closed fi (s, To b) = (s, To b)"
  by (simp_all add: closed_def)

lemma closed_returns:
  assumes "map_option (closed fi) r = Some (s', Returns)"
  shows "\<exists>s. r = Some (s, Returns) \<and> regs s' F5 = regs s F5 + word_of_int (StackSize fi)"
proof -
  obtain s t where "r = Some (s, t)" "closed fi (s, t) = (s', Returns)" using assms by (cases r) auto
  then show ?thesis by (cases t) auto
qed

lemma run_open_frame: "run_block e nxt (open_frame fi 0 @ mis) s = run_block e nxt mis (opened fi s)"
  by (simp add: open_frame_def opened_def exec_NTAri)

lemma run_block_leaves: "run_block e (Some nxt) mis s = Some (s', t) \<Longrightarrow> t \<noteq> To None"
  by (induction mis arbitrary: s) (auto split: opcode.splits if_splits simp: bind_eq_Some_conv)

lemma run_close_frame:
  assumes "returns_last MBB" "\<forall>mi \<in> set ws. \<not> isReturn (opc mi)"
  shows "map_option returned (run_block e (exit_of nxt MBB) (ws @ close_frame fi MBB) s) =
    map_option (closed fi) (map_option returned (run_block e (exit_of nxt MBB) ws s))"
proof (cases "isReturnBlock MBB")
  case True
  have close: "run_block e None (close_frame fi MBB) s' = Some (fst (closed fi (s', Returns)), To None)" for s'
    using True by (simp add: close_frame_def exec_ATAri)
  have "map_option returned (run_block e None (ws @ close_frame fi MBB) s) =
      map_option (closed fi) (map_option returned (run_block e None ws s))"
  proof (cases "run_block e None ws s")
    case (Some x)
    obtain s' t where x: "x = (s', t)" by (cases x)
    have "t \<noteq> Returns" using run_block_no_return assms(2) Some x by blast
    then show ?thesis unfolding run_block_append [of e None ws] using Some x close
      by (cases t) (auto simp: returned_def)
  qed (simp add: run_block_append [of e None ws])
  then show ?thesis using True by (simp add: returns_last_body(2) [OF assms(1)])
next
  case False
  then have c: "close_frame fi MBB = []" "exit_of nxt MBB = Some nxt"
    by (simp_all add: returns_last_body(2) [OF assms(1)] close_frame_def)
  show ?thesis
  proof (cases "run_block e (Some nxt) ws s")
    case (Some x)
    obtain s' t where x: "x = (s', t)" by (cases x)
    have "t \<noteq> Returns" "t \<noteq> To None" using run_block_no_return run_block_leaves assms(2) Some x by blast+
    then show ?thesis using Some x c by (cases t) (auto simp: returned_def)
  qed (simp add: c)
qed

text \<open>What the pass makes of one block.\<close>

definition block_done :: "frame_info \<Rightarrow> (nat \<Rightarrow> int) \<Rightarrow> nat \<Rightarrow> minstr list \<Rightarrow> minstr list \<Rightarrow> bool" where
  "block_done fi adj b MBB MBB' =
     (\<exists>ws m k. body_of MBB' = open_frame fi b @ ws @ close_frame fi MBB \<and> (\<forall>nxt. exit_of nxt MBB' = exit_of nxt MBB) \<and>
        (word_of_int m :: 32 word) = word_of_int (adj b) \<and>
        replace_loop f2003f_target fi False m (body_of MBB) = Inr (ws, k))"

lemma body_of_drop:
  assumes "body_of mis = xs @ ys"
  shows "body_of (drop (length xs) mis) = ys" "exit_of nxt (drop (length xs) mis) = exit_of nxt mis"
    "mis = xs @ drop (length xs) mis"
proof -
  obtain zs where zs: "mis = body_of mis @ zs" unfolding body_of_def by (metis takeWhile_dropWhile_id)
  then have m: "mis = xs @ ys @ zs" using assms by simp
  have no: "\<forall>mi \<in> set (xs @ ys). \<not> isReturn (opc mi)" using assms by (metis body_of_def set_takeWhileD)
  then have "body_of mis = xs @ body_of (ys @ zs)" unfolding m body_of_def by simp
  then show "body_of (drop (length xs) mis) = ys" using assms m by simp
  show "exit_of nxt (drop (length xs) mis) = exit_of nxt mis" unfolding m using no by (auto simp: exit_of_def)
  show "mis = xs @ drop (length xs) mis" unfolding m by simp
qed

lemma block_done_runs:
  assumes "block_done fi adj b MBB MBB'" "frame_env fi A e" "sp_at fi A (adj b) s" "\<forall>mi \<in> set MBB. resolvable mi"
    and "returns_last MBB"
  shows "run_block e (Some nxt) (drop (length (open_frame fi b)) MBB') s =
    map_option (closed fi) (run_block e (Some nxt) MBB s)"
proof -
  obtain ws m k where d: "body_of MBB' = open_frame fi b @ ws @ close_frame fi MBB" "exit_of nxt MBB' = exit_of nxt MBB"
      "(word_of_int m :: 32 word) = word_of_int (adj b)" "replace_loop f2003f_target fi False m (body_of MBB) = Inr (ws, k)"
    using assms(1) unfolding block_done_def by blast
  have no: "\<forall>mi \<in> set (body_of MBB'). \<not> isReturn (opc mi)" by (auto simp: body_of_def dest: set_takeWhileD)
  have "\<forall>mi \<in> set (body_of MBB). resolvable mi" using assms(4) by (auto simp: body_of_def dest: set_takeWhileD)
  moreover have "sp_at fi A m s" using assms(3) sp_at_cong [OF d(3)] by simp
  ultimately have "run_block e (exit_of nxt MBB) ws s = run_block e (exit_of nxt MBB) (body_of MBB) s"
    using replace_loop_runs [OF assms(2) _ _ d(4)] by blast
  moreover have "body_of (drop (length (open_frame fi b)) MBB') = ws @ close_frame fi MBB"
      "exit_of nxt (drop (length (open_frame fi b)) MBB') = exit_of nxt MBB"
    using body_of_drop [OF d(1)] d(2) by simp_all
  ultimately show ?thesis unfolding run_block_body using run_close_frame [OF assms(5)] no d(1) by simp
qed

lemma blocks_done_run:
  assumes "frame_env fi A e" "\<forall>MBB \<in> set Fn. returns_last MBB \<and> (\<forall>mi \<in> set MBB. resolvable mi)"
    and "sp_consistent succs Fn adj" "\<forall>b. 0 \<notin> set (succs b)" "length Fn' = length Fn"
    and each: "\<And>b. b < length Fn \<Longrightarrow> (0, b) \<in> {(p, q). q \<in> set (succs p)}\<^sup>* \<Longrightarrow> block_done fi adj b (Fn ! b) (Fn' ! b)"
    and "(0, b) \<in> {(p, q). q \<in> set (succs p)}\<^sup>*" "sp_at fi A (adj b) s"
    and "if b = 0 then s = opened fi s0 \<and> fuel \<noteq> 0 else s = s0"
  shows "run_function e Fn' fuel b s0 = map_option (closed fi) (run_function e Fn fuel b s)"
    and "run_function e Fn fuel b s = Some (s', Returns) \<Longrightarrow> sp_at fi A 0 s'"
proof -
  have "run_function e Fn' fuel b s0 = map_option (closed fi) (run_function e Fn fuel b s) \<and>
      (\<forall>s'. run_function e Fn fuel b s = Some (s', Returns) \<longrightarrow> sp_at fi A 0 s')"
    using assms(7-9)
  proof (induction fuel arbitrary: b s s0)
    case (Suc fuel)
    show ?case
    proof (cases "b < length Fn")
      case True
      then have b: "returns_last (Fn ! b)" "\<forall>mi \<in> set (Fn ! b). resolvable mi" using assms(2) nth_mem by blast+
      let ?old = "run_block e (Some (Suc b)) (Fn ! b) s"
      let ?new = "run_block e (Some (Suc b)) (Fn' ! b) s0"
      have D: "block_done fi adj b (Fn ! b) (Fn' ! b)" by (rule each [OF True Suc.prems(1)])
      then obtain rest where "body_of (Fn' ! b) = open_frame fi b @ rest" unfolding block_done_def by blast
      then have split: "Fn' ! b = open_frame fi b @ drop (length (open_frame fi b)) (Fn' ! b)" by (rule body_of_drop(3))
      have "?new = run_block e (Some (Suc b)) (drop (length (open_frame fi b)) (Fn' ! b)) s"
      proof (cases "b = 0")
        case True
        then show ?thesis using Suc.prems(3) run_open_frame [of e _ fi _ s0] by (subst split) simp
      next
        case False
        then show ?thesis using Suc.prems(3) by (simp add: open_frame_def)
      qed
      then have new: "?new = map_option (closed fi) ?old"
        using block_done_runs [OF D assms(1) Suc.prems(2) b(2,1)] by simp
      have IH: "run_function e Fn' fuel t s1 = map_option (closed fi) (run_function e Fn fuel t s1) \<and>
          (\<forall>s'. run_function e Fn fuel t s1 = Some (s', Returns) \<longrightarrow> sp_at fi A 0 s')"
        if go: "?old = Some (s1, To (Some t))" for s1 t
      proof -
        obtain k where k: "(To (Some t), k) \<in> set (sp_exits (Suc b) (adj b) (Fn ! b))" "sp_at fi A k s1"
          using run_block_sp [OF go b(2) Suc.prems(2)] by blast
        have t: "t \<in> set (succs b)" "k = adj t" using sp_consistentD(3) [OF assms(3) True k(1)] by simp_all
        have "(0, t) \<in> {(p, q). q \<in> set (succs p)}\<^sup>*" using rtrancl_into_rtrancl [OF Suc.prems(1)] t(1) by simp
        moreover have "t \<noteq> 0" using t(1) assms(4) by metis
        ultimately show ?thesis using Suc.IH [of t s1 s1] k(2) t(2) by simp
      qed
      have ret: "sp_at fi A 0 s1" if go: "?old = Some (s1, Returns)" for s1
        using run_block_sp [OF go b(2) Suc.prems(2)] sp_consistentD(4) [OF assms(3) True] by blast
      show ?thesis
      proof (cases ?old)
        case (Some x)
        obtain s1 t where x: "x = (s1, t)" by (cases x)
        consider q where "t = To (Some q)" | "t = Returns"
          using run_block_leaves Some x by (metis leaving.exhaust not_None_eq)
        then show ?thesis using Some x new IH ret True assms(5) by cases auto
      qed (use new True assms(5) in simp)
    qed (simp add: assms(5))
  qed (simp_all split: if_splits)
  then show "run_function e Fn' fuel b s0 = map_option (closed fi) (run_function e Fn fuel b s)"
    "run_function e Fn fuel b s = Some (s', Returns) \<Longrightarrow> sp_at fi A 0 s'" by simp_all
qed

text \<open>The steps of the pass that matter on the 2003f.\<close>

lemma doSpillCalleeSavedRegs_2003f:
  assumes "on_2003f pt" "CSInfo (Frame MF) = []"
  shows "doSpillCalleeSavedRegs (cs_hooks pt) tgt SB RB MF =
    Inr (MF\<lparr>Frame := (Frame MF)\<lparr>CSIValid := True\<rparr>\<rparr>, 2 ^ 32 - 1, 0)"
proof -
  have "\<not> Naked (cs_hooks pt)" using assms(1) by (simp add: on_2003f_def)
  then show ?thesis
    by (simp add: doSpillCalleeSavedRegs_def assignCalleeSavedSpillSlots_2003f [OF assms(1)]
        insertCSRSpillsAndRestores_def assms(2))
qed

lemma runOnMachineFunction_2003f:
  assumes "runOnMachineFunction pt MF = Inr (MF', w)" "on_2003f pt"
    and "CSInfo (Frame MF) = []" "SavePoint (Frame MF) = None" "\<forall>b. \<not> isEHFuncletEntry MF b"
  obtains fi Fn where "Frame MF' = fi\<lparr>SavePoint := None, RestorePoint := None\<rparr>"
    "insertPrologEpilogCode fi [0] (filter (\<lambda>b. isReturnBlock (Blocks MF ! b)) [0 ..< length (Blocks MF)]) (Blocks MF) = Inr Fn"
    "replaceFrameIndices_function f2003f_target fi (successors MF) Fn = Inr (Blocks MF')"
proof -
  note T = assms(2) [unfolded on_2003f_def]
  obtain fi1 Fn1 where c: "calculateCallFrameInfo f2003f_target (Frame MF) (Blocks MF) = Inr (fi1, Fn1)"
    using assms(1) T by (auto simp: runOnMachineFunction_def bind_result_Inr_iff)
  note C = calculateCallFrameInfo_2003f [OF c]
  have no_EH: "isEHFuncletEntry MF = (\<lambda>_. False)" using assms(5) by auto
  have sr: "calculateSaveRestoreBlocks (Blocks MF) f (isEHFuncletEntry MF) (SavePoint fi1) r
      = Inr ([0], filter (\<lambda>b. isReturnBlock (Blocks MF ! b)) [0 ..< length (Blocks MF)])" for f r
    by (simp add: calculateSaveRestoreBlocks_def C(3) assms(4) no_EH)
  have tgt: "f2003f_target\<lparr>MinCSFrameIndex := 2 ^ 32 - 1, MaxCSFrameIndex := 0\<rparr> = f2003f_target"
    by (simp add: f2003f_target_def)
  let ?MF = "MF\<lparr>Frame := fi1, Blocks := Blocks MF\<rparr>"
  have do_spill: "doSpillCalleeSavedRegs (cs_hooks pt) f2003f_target SB RB ?MF =
      Inr (?MF\<lparr>Frame := fi1\<lparr>CSIValid := True\<rparr>\<rparr>, 2 ^ 32 - 1, 0)" for SB RB
    using doSpillCalleeSavedRegs_2003f [OF assms(2), of ?MF] C(2) assms(3) by simp
  show thesis
    using assms(1) T c C(1) sr do_spill tgt
    by (auto simp: runOnMachineFunction_def bind_result_Inr_iff Let_def split: if_splits intro: that)
qed

lemma pass_blocks_done:
  assumes "insertPrologEpilogCode fi [0] (filter (\<lambda>b. isReturnBlock (Fn ! b)) [0 ..< length Fn]) Fn = Inr Fn1"
    and "replaceFrameIndices_function f2003f_target fi succs Fn1 = Inr Fn'"
    and "\<forall>MBB \<in> set Fn. returns_last MBB" "sp_consistent succs Fn adj"
  shows "length Fn' = length Fn" "b < length Fn \<Longrightarrow> (0, b) \<in> {(p, q). q \<in> set (succs p)}\<^sup>* \<Longrightarrow> block_done fi adj b (Fn ! b) (Fn' ! b)"
proof -
  note I = insertPrologEpilogCode_2003f [OF assms(1,3)]
  have "needsFrameIndexResolution f2003f_target fi"
    by (simp add: needsFrameIndexResolution_def canSimplifyCallFramePseudos_def f2003f_target_def)
  note R = replaceFrameIndices_blocks [OF assms(2) this]
  show "length Fn' = length Fn" using I R by simp
  assume b: "b < length Fn" and path: "(0, b) \<in> {(p, q). q \<in> set (succs p)}\<^sup>*"
  have last: "returns_last (Fn ! p)" if "p < length Fn" for p using assms(3) that nth_mem by blast
  let ?tl = "\<lambda>p. if isReturnBlock (Fn ! p) then [last (Fn ! p)] else []"
  have Fn1: "Fn1 ! p = open_frame fi p @ body_of (Fn ! p) @ close_frame fi (Fn ! p) @ ?tl p" if "p < length Fn" for p
    using I that by simp
  obtain n k where n: "replaceFrameIndices f2003f_target fi n (Fn1 ! b) = Inr (Fn' ! b, k)" "entered f2003f_target fi succs Fn1 b n"
    using R b path I by auto
  have amount: "block_adjust a (Fn1 ! p) = block_adjust a (Fn ! p)" if "p < length Fn" for a p
  proof -
    have "frame_amount I = 0" if "I \<in> set (open_frame fi p) \<union> set (close_frame fi (Fn ! p))" for I
      using that frame_code_untouched(1,2) by (auto simp: untouched_def intro: frame_amount_other)
    then have "sum_list (map frame_amount (open_frame fi p)) = 0" "sum_list (map frame_amount (close_frame fi (Fn ! p))) = 0"
      by (auto simp: open_frame_def close_frame_def)
    then have "block_adjust a (Fn1 ! p) = block_adjust a (body_of (Fn ! p) @ ?tl p)"
      by (simp add: block_adjust_def Fn1 [OF that])
    then show ?thesis using returns_last_body(1) [OF last [OF that]] by simp
  qed
  have adj: "(word_of_int n :: 32 word) = word_of_int (adj b)"
    by (rule entered_adjust [OF n(2)]) (use sp_consistentD(1,2) [OF assms(4)] amount I in auto)
  have ret: "isReturnBlock MBB \<Longrightarrow> isReturn (opc (last MBB))" for MBB by (simp add: isReturnBlock_def)
  have none: "\<forall>mi \<in> set (body_of (Fn ! b)). \<not> isReturn (opc mi)" by (auto simp: body_of_def dest: set_takeWhileD)
  have body: "body_of (Fn1 ! b) = open_frame fi b @ body_of (Fn ! b) @ close_frame fi (Fn ! b)"
    using frame_code_untouched(3,4) none ret by (simp add: Fn1 [OF b] body_of_def [of "_ @ _"] takeWhile_append)
  have ex: "exit_of nxt (Fn1 ! b) = exit_of nxt (Fn ! b)" for nxt
    using frame_code_untouched(3,4) none ret returns_last_body(2) [OF last [OF b]] by (auto simp: Fn1 [OF b] exit_of_def [of _ "_ @ _"])
  have rep: "replace_loop f2003f_target fi False n (Fn1 ! b) = Inr (Fn' ! b, k)" using n(1) by (simp add: replaceFrameIndices_def)
  obtain k' where k': "replace_loop f2003f_target fi False n (open_frame fi b @ body_of (Fn ! b) @ close_frame fi (Fn ! b)) = Inr (body_of (Fn' ! b), k')"
    using replace_loop_body [OF rep] unfolding body by blast
  from replace_frame_code [OF this] obtain ws m k'' where "body_of (Fn' ! b) = open_frame fi b @ ws @ close_frame fi (Fn ! b)"
      "(word_of_int m :: 32 word) = word_of_int n" "replace_loop f2003f_target fi False m (body_of (Fn ! b)) = Inr (ws, k'')" by blast
  then show "block_done fi adj b (Fn ! b) (Fn' ! b)"
    unfolding block_done_def using replace_loop_body [OF rep] ex adj by metis
qed

text \<open>
  C1. The pass keeps the meaning of a function of the 2003f: from the entry, with the stack pointer \<open>A\<close>, the
  function with the prologue, the epilogues and the resolved frame indices runs as the function before the
  pass with the frame open, its frame indices standing for the addresses of the laid-out objects below \<open>A\<close>;
  it stops, goes on and returns exactly when that one does, with the same registers and memory, and when it
  returns the stack pointer is \<open>A\<close> again.
\<close>

theorem pei_pass_correct:
  assumes "runOnMachineFunction pt MF = Inr (MF', w)" "on_2003f pt"
    and "CSInfo (Frame MF) = []" "SavePoint (Frame MF) = None" "\<forall>b. \<not> isEHFuncletEntry MF b"
    and "\<forall>MBB \<in> set (Blocks MF). returns_last MBB \<and> (\<forall>mi \<in> set MBB. resolvable mi)"
    and "sp_consistent (successors MF) (Blocks MF) adj" "\<forall>b. 0 \<notin> set (successors MF b)"
    and "frame_env (Frame MF') A e" "regs s F5 = A"
  shows "run_function e (Blocks MF') (Suc fuel) 0 s =
      map_option (closed (Frame MF')) (run_function e (Blocks MF) (Suc fuel) 0 (opened (Frame MF') s)) \<and>
    (\<forall>s'. run_function e (Blocks MF') (Suc fuel) 0 s = Some (s', Returns) \<longrightarrow> regs s' F5 = A)"
proof -
  obtain fi Fn where fi: "Frame MF' = fi\<lparr>SavePoint := None, RestorePoint := None\<rparr>"
    "insertPrologEpilogCode fi [0] (filter (\<lambda>b. isReturnBlock (Blocks MF ! b)) [0 ..< length (Blocks MF)]) (Blocks MF) = Inr Fn"
    "replaceFrameIndices_function f2003f_target fi (successors MF) Fn = Inr (Blocks MF')"
    by (rule runOnMachineFunction_2003f [OF assms(1-5)])
  have env: "frame_env fi A e"
    using assms(9) by (simp add: fi(1) frame_env_def getObjectOffset_def get_object_def valid_index_def object_at_def slot_of_def)
  have same: "closed (Frame MF') = closed fi" "opened (Frame MF') = opened fi"
    by (simp_all add: fi(1) fun_eq_iff closed_def opened_def)
  have "\<forall>MBB \<in> set (Blocks MF). returns_last MBB" using assms(6) by blast
  note D = pass_blocks_done [OF fi(2,3) this assms(7)]
  have adj0: "adj 0 = 0" by (rule sp_consistentD(1) [OF assms(7)])
  have start: "sp_at fi A (adj 0) (opened fi s)" using adj0 assms(10) by (simp add: sp_at_def opened_def)
  note run = blocks_done_run [OF env assms(6,7,8) D, where b = 0 and fuel = "Suc fuel" and s = "opened fi s" and ?s0.0 = s,
      OF _ _ rtrancl_refl start]
  have "run_function e (Blocks MF') (Suc fuel) 0 s = map_option (closed fi) (run_function e (Blocks MF) (Suc fuel) 0 (opened fi s))"
    by (rule run(1)) simp_all
  moreover have "sp_at fi A 0 s'" if "run_function e (Blocks MF) (Suc fuel) 0 (opened fi s) = Some (s', Returns)" for s'
    by (rule run(2) [OF _ _ _ that]) simp_all
  moreover have "regs s' F5 = A"
    if r: "map_option (closed fi) (run_function e (Blocks MF) (Suc fuel) 0 (opened fi s)) = Some (s', Returns)" for s'
  proof -
    from closed_returns [OF r] obtain s1 where
        "run_function e (Blocks MF) (Suc fuel) 0 (opened fi s) = Some (s1, Returns)" "regs s' F5 = regs s1 F5 + word_of_int (StackSize fi)" by blast
    then show ?thesis using calculation(2) by (simp add: sp_at_def)
  qed
  ultimately show ?thesis unfolding same by simp
qed

section \<open>A concrete function\<close>

text \<open>The addresses of the objects of a frame that is laid out below \<open>A\<close>.\<close>

definition frame_addresses :: "frame_info \<Rightarrow> 32 word \<Rightarrow> env" where
  "frame_addresses fi A x = (case x of
     MO_FrameIndex i \<Rightarrow> (case getObjectOffset fi i of Inr off \<Rightarrow> A + word_of_int off | Inl _ \<Rightarrow> 0)
   | _ \<Rightarrow> 0)"

lemma frame_env_addresses: "frame_env fi A (frame_addresses fi A)"
  by (simp add: frame_env_def frame_addresses_def)

text \<open>The loop of \<open>ReplaceIndices\<close> with one word in its frame, before the pass.\<close>

definition pei_2003f :: pei_target where
  "pei_2003f = \<lparr>frame_hooks = f2003f_target, cs_hooks = sample_cs\<lparr>CSRegs := []\<rparr>, usesPhysRegsForPEI = True,
     processFunctionBeforeFrameFinalized = Inr, scavengeFrameVirtualRegs = None, WarnStackSize = Some 4\<rparr>"

definition loop_MF :: machine_function where
  "loop_MF = \<lparr>Frame = empty_2003f_frame\<lparr>Objects := [StackObject 4 4 0 False True None False], MaxAlignment := 4\<rparr>,
     Blocks = loop_blocks, LiveIns = (\<lambda>_. []), successors = loop_succs, isEHFuncletEntry = (\<lambda>_. False)\<rparr>"

lemma on_2003f_pei: "on_2003f pei_2003f"
  by (simp add: on_2003f_def pei_2003f_def sample_cs_def)

lemma loop_call_frames:
  "calculateCallFrameInfo f2003f_target (Frame loop_MF) loop_blocks =
     Inr ((Frame loop_MF)\<lparr>AdjustsStack := True, MaxCallFrameSize := 4\<rparr>, loop_blocks)"
  by (simp add: calculateCallFrameInfo_def loop_blocks_def word_block_def scan_call_frame_def isMaxCallFrameSizeComputed_def
      loop_MF_def empty_2003f_frame_def new_frame_info_def canSimplifyCallFramePseudos_def block_eval)

definition loop_frame :: frame_info where
  "loop_frame = (Frame loop_MF)\<lparr>AdjustsStack := True, MaxCallFrameSize := 4, CSIValid := True\<rparr>"

definition loop_laid_out :: frame_info where
  "loop_laid_out = loop_frame\<lparr>Objects := [StackObject 4 4 (-4) False True None False], StackSize := 4\<rparr>"

lemmas loop_frame_defs = loop_frame_def loop_MF_def empty_2003f_frame_def new_frame_info_def

lemma loop_layout: "calculateFrameObjectOffsets f2003f_target loop_frame = Inr loop_laid_out"
proof -
  have v: "valid_index loop_frame i \<longleftrightarrow> i = 0" for i by (auto simp: valid_index_def loop_frame_defs)
  have ob: "object_at loop_frame 0 = StackObject 4 4 0 False True None False"
    by (simp add: object_at_def slot_of_def loop_frame_defs)
  have p: "plain_frame loop_frame"
    by (auto simp: plain_frame_def small_frame_def live_def v ob StackObject_def) (simp_all add: loop_frame_defs)
  have "getObjectIndexEnd loop_frame = 1" by (simp add: getObjectIndexEnd_def loop_frame_defs)
  then have l: "live_objects loop_frame = [0]"
    by (simp add: live_objects_def ob StackObject_def dead_size_def)
  have s: "plain_start loop_frame = \<lparr>MFI = loop_frame, Offset = 0, MaxAlign = 4\<rparr>"
    by (simp add: plain_start_def getObjectIndexBegin_def loop_frame_defs)
  show ?thesis
    unfolding plain_layout [OF f2003f_plain p] l s
    by (simp add: AdjustStackOffset_def f2003f_target_def loop_laid_out_def loop_frame_defs getObjectSize_def
        getObjectAlignment_def get_object_def valid_index_def object_at_def slot_of_def StackObject_def setObjectOffset_def
        set_object_def dead_size_def alignTo_def Let_def i64_id u64_id round_stack_def getObjectIndexEnd_def)
qed

lemma loop_replaced:
  obtains Fn Fn' where "insertPrologEpilogCode loop_laid_out [0] [2] loop_blocks = Inr Fn"
    "replaceFrameIndices_function f2003f_target loop_laid_out loop_succs Fn = Inr Fn'"
  by (simp add: insertPrologEpilogCode_def update_block_def emitPrologue_def emitEpilogue_def loop_blocks_def word_block_def
      loop_laid_out_def loop_frame_defs block_eval replaceFrameIndices_function_def needsFrameIndexResolution_def
      replace_dfs.simps(2) replace_rest_def loop_succs_def numeral_2_eq_2 numeral_3_eq_3)

lemma loop_MF_passes:
  obtains MF' where "runOnMachineFunction pei_2003f loop_MF = Inr (MF', False)" "StackSize (Frame MF') = 4"
proof -
  have rets: "filter (\<lambda>b. isReturnBlock (loop_blocks ! b)) [0 ..< length loop_blocks] = [2]"
    by (simp add: loop_blocks_def isReturnBlock_def isReturn_def word_block_def upt_rec)
  have sr: "calculateSaveRestoreBlocks loop_blocks f (\<lambda>_. False) None r = Inr ([0], [2])" for f r
    using rets by (simp add: calculateSaveRestoreBlocks_def)
  have SP: "SavePoint ((Frame loop_MF)\<lparr>AdjustsStack := True, MaxCallFrameSize := 4\<rparr>) = None"
    "CSInfo ((Frame loop_MF)\<lparr>AdjustsStack := True, MaxCallFrameSize := 4\<rparr>) = []"
    by (simp_all add: loop_frame_defs)
  obtain Fn Fn' where fn: "insertPrologEpilogCode loop_laid_out [0] [2] loop_blocks = Inr Fn"
      "replaceFrameIndices_function f2003f_target loop_laid_out loop_succs Fn = Inr Fn'"
    by (rule loop_replaced)
  note T = on_2003f_pei [unfolded on_2003f_def]
  have tgt: "f2003f_target\<lparr>MinCSFrameIndex := 4294967295, MaxCSFrameIndex := 0\<rparr> = f2003f_target"
    by (simp add: f2003f_target_def)
  have MF: "isEHFuncletEntry loop_MF = (\<lambda>_. False)" "Blocks loop_MF = loop_blocks" "successors loop_MF = loop_succs"
    "usesPhysRegsForPEI pei_2003f" "WarnStackSize pei_2003f = Some 4"
    by (simp_all add: loop_MF_def pei_2003f_def)
  have "\<exists>MF'. runOnMachineFunction pei_2003f loop_MF = Inr (MF', False) \<and> StackSize (Frame MF') = 4"
    using T SP doSpillCalleeSavedRegs_2003f [OF on_2003f_pei, of "loop_MF\<lparr>Frame := (Frame loop_MF)\<lparr>AdjustsStack := True, MaxCallFrameSize := 4\<rparr>, Blocks := loop_blocks\<rparr>"]
    by (simp add: runOnMachineFunction_def MF loop_call_frames sr loop_layout [unfolded loop_frame_def] fn tgt)
      (simp add: loop_laid_out_def)
  then show thesis using that by blast
qed

theorem pei_pass_correct_witness:
  "\<exists>MF' e. runOnMachineFunction pei_2003f loop_MF = Inr (MF', False) \<and>
     run_function e (Blocks MF') 2 0 word_state =
       map_option (closed (Frame MF')) (run_function e loop_blocks 2 0 (opened (Frame MF') word_state))"
proof -
  obtain MF' where r: "runOnMachineFunction pei_2003f loop_MF = Inr (MF', False)" by (rule loop_MF_passes)
  have "CSInfo (Frame loop_MF) = []" "SavePoint (Frame loop_MF) = None" "\<forall>b. \<not> isEHFuncletEntry loop_MF b"
      "Blocks loop_MF = loop_blocks" "successors loop_MF = loop_succs"
    by (simp_all add: loop_frame_defs)
  moreover have "\<forall>MBB \<in> set loop_blocks. returns_last MBB \<and> (\<forall>mi \<in> set MBB. resolvable mi)"
    by (simp add: loop_blocks_def word_block_def resolvable_def isFrameInstr_def keeps_F5_def fi_shape_Mem fi_shape_other
        returns_last_def isReturn_def)
  moreover have "sp_consistent loop_succs loop_blocks (\<lambda>_. 0)"
    by (auto simp: sp_consistent_def loop_blocks_def loop_succs_def word_block_def block_adjust_def frame_amount_def
        block_eval branch_target_def less_Suc_eq numeral_2_eq_2 numeral_3_eq_3)
  moreover have "\<forall>b. 0 \<notin> set (loop_succs b)" by (simp add: loop_succs_def)
  ultimately show ?thesis
    using pei_pass_correct [OF r on_2003f_pei, of "\<lambda>_. 0" "regs word_state F5" "frame_addresses (Frame MF') (regs word_state F5)" word_state 1]
      r frame_env_addresses by (auto simp: numeral_2_eq_2)
qed

end
