(* ===== verification/CallLower.thy ===== *)
theory CallLower
  imports FrameInfo
begin

text \<open>
  The assignment of arguments and return values to locations:
  \<open>CCState\<close> of \<open>include/llvm/CodeGen/CallingConvLower.h\<close> and \<open>lib/CodeGen/CallingConvLower.cpp\<close>, and the two
  conventions of \<open>lib/Target/F2003f/F2003fCallingConv.td\<close> in the form that
  \<open>utils/TableGen/CallingConvEmitter.cpp\<close> gives them.

  The register aliases of the target are an argument of the operations that mark registers; the
  registers of the 2003f have no aliases but themselves (\<open>no_aliases\<close>). The records for by-value
  parameters in registers, which only ARM fills, and the forwarding of registers to \<open>musttail\<close> calls are
  left out.

  The lemmas say where the 2003f convention puts the arguments of any call, that stack slots of any
  sequence of allocations are disjoint and aligned, and that no register is given out twice.
\<close>

section \<open>Value types, flags, locations\<close>

text \<open>The simple value types that the backend names; any other one is \<open>VT\<close> with its size in bits.\<close>

datatype mvt = VOther | VGlue | Vi1 | Vi8 | Vi16 | Vi32 | Vi64 | VT nat int

fun getSizeInBits :: "mvt \<Rightarrow> int" where
  "getSizeInBits Vi1 = 1"
| "getSizeInBits Vi8 = 8"
| "getSizeInBits Vi16 = 16"
| "getSizeInBits Vi32 = 32"
| "getSizeInBits Vi64 = 64"
| "getSizeInBits (VT n b) = b"
| "getSizeInBits VOther = 0"
| "getSizeInBits VGlue = 0"

record arg_flags =
  IsZExt :: bool
  IsSExt :: bool
  IsInReg :: bool
  IsByVal :: bool
  IsSecArgPass :: bool
  ByValAlign :: nat
  ByValSize :: int

definition no_flags :: arg_flags where
  "no_flags = \<lparr>IsZExt = False, IsSExt = False, IsInReg = False, IsByVal = False,
     IsSecArgPass = False, ByValAlign = 0, ByValSize = 0\<rparr>"

definition getByValAlign :: "arg_flags \<Rightarrow> int" where
  "getByValAlign fl = u32 (2 ^ ByValAlign fl) div 2"

text \<open>\<open>ISD::InputArg\<close> and \<open>ISD::OutputArg\<close>, the parts that the lowering reads.\<close>

record io_arg =
  arg_VT :: mvt
  arg_Flags :: arg_flags

datatype loc_info = Full | SExt | ZExt | AExt | SExtUpper | ZExtUpper | AExtUpper | BCvt | VExt
  | FPExt | Indirect

text \<open>\<open>isMem\<close> says which of the two readings of \<open>Loc\<close> holds.\<close>

datatype loc = RegLoc reg | MemLoc int

record cc_val_assign =
  ValNo :: nat
  Loc :: loc
  isCustom :: bool
  HTP :: loc_info
  ValVT :: mvt
  LocVT :: mvt

definition getReg :: "nat \<Rightarrow> mvt \<Rightarrow> reg \<Rightarrow> mvt \<Rightarrow> loc_info \<Rightarrow> cc_val_assign" where
  "getReg n vt r lvt h = \<lparr>ValNo = n, Loc = RegLoc r, isCustom = False, HTP = h, ValVT = vt, LocVT = lvt\<rparr>"

definition getCustomReg :: "nat \<Rightarrow> mvt \<Rightarrow> reg \<Rightarrow> mvt \<Rightarrow> loc_info \<Rightarrow> cc_val_assign" where
  "getCustomReg n vt r lvt h = (getReg n vt r lvt h)\<lparr>isCustom := True\<rparr>"

definition getMem :: "nat \<Rightarrow> mvt \<Rightarrow> int \<Rightarrow> mvt \<Rightarrow> loc_info \<Rightarrow> cc_val_assign" where
  "getMem n vt off lvt h = \<lparr>ValNo = n, Loc = MemLoc off, isCustom = False, HTP = h, ValVT = vt, LocVT = lvt\<rparr>"

definition getCustomMem :: "nat \<Rightarrow> mvt \<Rightarrow> int \<Rightarrow> mvt \<Rightarrow> loc_info \<Rightarrow> cc_val_assign" where
  "getCustomMem n vt off lvt h = (getMem n vt off lvt h)\<lparr>isCustom := True\<rparr>"

definition convertToReg :: "reg \<Rightarrow> cc_val_assign \<Rightarrow> cc_val_assign" where
  "convertToReg r va = va\<lparr>Loc := RegLoc r\<rparr>"

definition convertToMem :: "int \<Rightarrow> cc_val_assign \<Rightarrow> cc_val_assign" where
  "convertToMem off va = va\<lparr>Loc := MemLoc off\<rparr>"

definition isRegLoc :: "cc_val_assign \<Rightarrow> bool" where
  "isRegLoc va = (case Loc va of RegLoc r \<Rightarrow> True | MemLoc off \<Rightarrow> False)"

definition isMemLoc :: "cc_val_assign \<Rightarrow> bool" where
  "isMemLoc va = (\<not> isRegLoc va)"

definition getLocReg :: "cc_val_assign \<Rightarrow> reg result" where
  "getLocReg va = (case Loc va of RegLoc r \<Rightarrow> Inr r | MemLoc off \<Rightarrow> Inl AssertFailed)"

definition getLocMemOffset :: "cc_val_assign \<Rightarrow> int result" where
  "getLocMemOffset va = (case Loc va of RegLoc r \<Rightarrow> Inl AssertFailed | MemLoc off \<Rightarrow> Inr off)"

definition isExtInLoc :: "cc_val_assign \<Rightarrow> bool" where
  "isExtInLoc va = (HTP va = AExt \<or> HTP va = SExt \<or> HTP va = ZExt)"

definition isUpperBitsInLoc :: "cc_val_assign \<Rightarrow> bool" where
  "isUpperBitsInLoc va = (HTP va = AExtUpper \<or> HTP va = SExtUpper \<or> HTP va = ZExtUpper)"

section \<open>The state of an assignment\<close>

text \<open>\<open>CCFrame\<close> is the frame of the machine function, whose alignment the assignment raises.\<close>

record cc_state =
  CCIsVarArg :: bool
  AnalyzingMustTailForwardedRegs :: bool
  CCFrame :: frame_info
  Locs :: "cc_val_assign list"
  StackOffset :: int
  MaxStackArgAlign :: int
  UsedRegs :: "reg set"

definition CCState :: "bool \<Rightarrow> frame_info \<Rightarrow> cc_state" where
  "CCState va fi = \<lparr>CCIsVarArg = va, AnalyzingMustTailForwardedRegs = False, CCFrame = fi, Locs = [],
     StackOffset = 0, MaxStackArgAlign = 1, UsedRegs = {}\<rparr>"

definition addLoc :: "cc_val_assign \<Rightarrow> cc_state \<Rightarrow> cc_state" where
  "addLoc v st = st\<lparr>Locs := Locs st @ [v]\<rparr>"

definition getAlignedCallFrameSize :: "cc_state \<Rightarrow> int result" where
  "getAlignedCallFrameSize st =
     bind_result (alignTo (StackOffset st) (MaxStackArgAlign st) 0) (\<lambda>a. Inr (u32 a))"

definition isAllocated :: "reg \<Rightarrow> cc_state \<Rightarrow> bool" where
  "isAllocated r st = (r \<in> UsedRegs st)"

definition no_aliases :: "reg \<Rightarrow> reg list" where
  "no_aliases r = [r]"

definition MarkAllocated :: "(reg \<Rightarrow> reg list) \<Rightarrow> reg \<Rightarrow> cc_state \<Rightarrow> cc_state" where
  "MarkAllocated aliases r st = st\<lparr>UsedRegs := UsedRegs st \<union> set (aliases r)\<rparr>"

definition IsShadowAllocatedReg :: "(reg \<Rightarrow> reg list) \<Rightarrow> reg \<Rightarrow> cc_state \<Rightarrow> bool" where
  "IsShadowAllocatedReg aliases r st =
     (isAllocated r st
      \<and> \<not> (\<exists>va \<in> set (Locs st). case Loc va of RegLoc x \<Rightarrow> r \<in> set (aliases x) | MemLoc off \<Rightarrow> False))"

fun getFirstUnallocated :: "reg list \<Rightarrow> cc_state \<Rightarrow> nat" where
  "getFirstUnallocated [] st = 0"
| "getFirstUnallocated (r # rs) st = (if \<not> isAllocated r st then 0 else Suc (getFirstUnallocated rs st))"

text \<open>Register number 0 is \<open>NoRegister\<close>.\<close>

definition AllocateReg :: "(reg \<Rightarrow> reg list) \<Rightarrow> reg \<Rightarrow> cc_state \<Rightarrow> reg \<times> cc_state" where
  "AllocateReg aliases r st =
     (if isAllocated r st then (NoRegister, st) else (r, MarkAllocated aliases r st))"

definition AllocateReg_shadow :: "(reg \<Rightarrow> reg list) \<Rightarrow> reg \<Rightarrow> reg \<Rightarrow> cc_state \<Rightarrow> reg \<times> cc_state" where
  "AllocateReg_shadow aliases r shadow st =
     (if isAllocated r st then (NoRegister, st)
      else (r, MarkAllocated aliases shadow (MarkAllocated aliases r st)))"

definition AllocateReg_list :: "(reg \<Rightarrow> reg list) \<Rightarrow> reg list \<Rightarrow> cc_state \<Rightarrow> reg \<times> cc_state" where
  "AllocateReg_list aliases rs st =
     (let k = getFirstUnallocated rs st in
      if k = length rs then (NoRegister, st) else (rs ! k, MarkAllocated aliases (rs ! k) st))"

fun block_from :: "(reg \<Rightarrow> reg list) \<Rightarrow> reg list \<Rightarrow> nat \<Rightarrow> cc_state \<Rightarrow> reg \<times> cc_state" where
  "block_from aliases rs n st =
     (if length rs < n then (NoRegister, st)
      else if \<forall>r \<in> set (take n rs). \<not> isAllocated r st
      then (hd (rs @ [NoRegister]), fold (MarkAllocated aliases) (take n rs) st)
      else (case rs of [] \<Rightarrow> (NoRegister, st) | r # rs' \<Rightarrow> block_from aliases rs' n st))"

declare block_from.simps [simp del]

definition AllocateRegBlock :: "(reg \<Rightarrow> reg list) \<Rightarrow> reg list \<Rightarrow> nat \<Rightarrow> cc_state \<Rightarrow> reg \<times> cc_state" where
  "AllocateRegBlock aliases rs n st = block_from aliases rs n st"

definition CC_ensureMaxAlignment :: "int \<Rightarrow> cc_state \<Rightarrow> cc_state result" where
  "CC_ensureMaxAlignment Align st =
     (if \<not> AnalyzingMustTailForwardedRegs st
      then bind_result (ensureMaxAlignment (CCFrame st) Align) (\<lambda>fi. Inr (st\<lparr>CCFrame := fi\<rparr>))
      else Inr st)"

definition AllocateStack :: "int \<Rightarrow> int \<Rightarrow> cc_state \<Rightarrow> (int \<times> cc_state) result" where
  "AllocateStack Sz Align st =
     (if \<not> (Align \<noteq> 0 \<and> u32 (Align - 1) AND Align = 0) then Inl AssertFailed
      else bind_result (alignTo (StackOffset st) Align 0) (\<lambda>a.
        let Result = u32 a in
        bind_result (CC_ensureMaxAlignment Align
            (st\<lparr>StackOffset := u32 (Result + Sz), MaxStackArgAlign := max Align (MaxStackArgAlign st)\<rparr>))
          (\<lambda>st. Inr (Result, st))))"

definition AllocateStack_shadow :: "(reg \<Rightarrow> reg list) \<Rightarrow> int \<Rightarrow> int \<Rightarrow> reg list \<Rightarrow> cc_state
    \<Rightarrow> (int \<times> cc_state) result" where
  "AllocateStack_shadow aliases Sz Align shadows st =
     AllocateStack Sz Align (fold (MarkAllocated aliases) shadows st)"

text \<open>\<open>hook\<close> is the target's \<open>HandleByVal\<close>, which may change the size; by default it does not.\<close>

definition HandleByVal :: "(int \<Rightarrow> int \<Rightarrow> cc_state \<Rightarrow> int \<times> cc_state) \<Rightarrow> nat \<Rightarrow> mvt \<Rightarrow> mvt \<Rightarrow> loc_info
    \<Rightarrow> int \<Rightarrow> int \<Rightarrow> arg_flags \<Rightarrow> cc_state \<Rightarrow> cc_state result" where
  "HandleByVal hook n vt lvt h MinSize MinAlgn fl st =
     (let Align = getByValAlign fl; Sz = ByValSize fl;
          Sz = (if MinSize > i32 Sz then u32 MinSize else Sz);
          Align = (if MinAlgn > i32 Align then u32 MinAlgn else Align) in
      bind_result (CC_ensureMaxAlignment Align st) (\<lambda>st.
      case hook Sz Align st of (Sz, st) \<Rightarrow>
      bind_result (alignTo Sz (u64 MinAlgn) 0) (\<lambda>a.
      bind_result (AllocateStack (u32 a) Align st) (\<lambda>(off, st).
        Inr (addLoc (getMem n vt off lvt h) st)))))"

section \<open>Analysing a list of values\<close>

text \<open>\<open>CCAssignFn\<close>: true means that the value could not be assigned.\<close>

type_synonym cc_assign_fn =
  "nat \<Rightarrow> mvt \<Rightarrow> mvt \<Rightarrow> loc_info \<Rightarrow> arg_flags \<Rightarrow> cc_state \<Rightarrow> (bool \<times> cc_state) result"

fun analyze_from :: "cc_assign_fn \<Rightarrow> nat \<Rightarrow> io_arg list \<Rightarrow> cc_state \<Rightarrow> cc_state result" where
  "analyze_from Fn i [] st = Inr st"
| "analyze_from Fn i (a # as) st =
     bind_result (Fn i (arg_VT a) (arg_VT a) Full (arg_Flags a) st) (\<lambda>(failed, st).
       if failed then Inl Unreachable else analyze_from Fn (Suc i) as st)"

definition AnalyzeFormalArguments :: "cc_assign_fn \<Rightarrow> io_arg list \<Rightarrow> cc_state \<Rightarrow> cc_state result" where
  "AnalyzeFormalArguments Fn Ins st = analyze_from Fn 0 Ins st"

definition AnalyzeReturn :: "cc_assign_fn \<Rightarrow> io_arg list \<Rightarrow> cc_state \<Rightarrow> cc_state result" where
  "AnalyzeReturn Fn Outs st = analyze_from Fn 0 Outs st"

definition AnalyzeCallOperands :: "cc_assign_fn \<Rightarrow> io_arg list \<Rightarrow> cc_state \<Rightarrow> cc_state result" where
  "AnalyzeCallOperands Fn Outs st = analyze_from Fn 0 Outs st"

definition AnalyzeCallOperands_types :: "cc_assign_fn \<Rightarrow> mvt list \<Rightarrow> arg_flags list \<Rightarrow> cc_state \<Rightarrow> cc_state result" where
  "AnalyzeCallOperands_types Fn vts fls st =
     (if length fls < length vts then Inl AssertFailed
      else analyze_from Fn 0 (map (\<lambda>(vt, fl). \<lparr>arg_VT = vt, arg_Flags = fl\<rparr>) (zip vts fls)) st)"

definition AnalyzeCallResult :: "cc_assign_fn \<Rightarrow> io_arg list \<Rightarrow> cc_state \<Rightarrow> cc_state result" where
  "AnalyzeCallResult Fn Ins st = analyze_from Fn 0 Ins st"

definition AnalyzeCallResult_single :: "cc_assign_fn \<Rightarrow> mvt \<Rightarrow> cc_state \<Rightarrow> cc_state result" where
  "AnalyzeCallResult_single Fn vt st =
     bind_result (Fn 0 vt vt Full no_flags st) (\<lambda>(failed, st). if failed then Inl Unreachable else Inr st)"

fun check_from :: "cc_assign_fn \<Rightarrow> nat \<Rightarrow> io_arg list \<Rightarrow> cc_state \<Rightarrow> (bool \<times> cc_state) result" where
  "check_from Fn i [] st = Inr (True, st)"
| "check_from Fn i (a # as) st =
     bind_result (Fn i (arg_VT a) (arg_VT a) Full (arg_Flags a) st) (\<lambda>(failed, st).
       if failed then Inr (False, st) else check_from Fn (Suc i) as st)"

definition CheckReturn :: "cc_assign_fn \<Rightarrow> io_arg list \<Rightarrow> cc_state \<Rightarrow> (bool \<times> cc_state) result" where
  "CheckReturn Fn Outs st = check_from Fn 0 Outs st"

definition resultsCompatible :: "nat \<Rightarrow> nat \<Rightarrow> frame_info \<Rightarrow> io_arg list \<Rightarrow> cc_assign_fn \<Rightarrow> cc_assign_fn
    \<Rightarrow> bool result" where
  "resultsCompatible CalleeCC CallerCC fi Ins CalleeFn CallerFn =
     (if CalleeCC = CallerCC then Inr True
      else bind_result (AnalyzeCallResult CalleeFn Ins (CCState False fi)) (\<lambda>st1.
           bind_result (AnalyzeCallResult CallerFn Ins (CCState False (CCFrame st1))) (\<lambda>st2.
             Inr (length (Locs st1) = length (Locs st2)
               \<and> list_all2 (\<lambda>l1 l2. HTP l1 = HTP l2 \<and> Loc l1 = Loc l2) (Locs st1) (Locs st2)))))"

section \<open>The conventions of the 2003f\<close>

definition promote_i32 :: "mvt \<Rightarrow> loc_info \<Rightarrow> arg_flags \<Rightarrow> mvt \<times> loc_info" where
  "promote_i32 lvt h fl =
     (if lvt = Vi1 \<or> lvt = Vi8 \<or> lvt = Vi16
      then (Vi32, if IsSExt fl then SExt else if IsZExt fl then ZExt else AExt)
      else (lvt, h))"

definition CC_F2003f :: cc_assign_fn where
  "CC_F2003f n vt lvt h fl st =
     (case promote_i32 lvt h fl of (lvt, h) \<Rightarrow>
      if lvt = Vi32 then
        bind_result (AllocateStack 4 4 st) (\<lambda>(off, st). Inr (False, addLoc (getMem n vt off lvt h) st))
      else Inr (True, st))"

definition RetCC_F2003f :: cc_assign_fn where
  "RetCC_F2003f n vt lvt h fl st =
     (case promote_i32 lvt h fl of (lvt, h) \<Rightarrow>
      if lvt = Vi32 then
        (case AllocateReg no_aliases F0 st of (r, st) \<Rightarrow>
           if r \<noteq> NoRegister then Inr (False, addLoc (getReg n vt r lvt h) st) else Inr (True, st))
      else Inr (True, st))"

section \<open>Stack slots of a sequence of allocations\<close>

text \<open>
  The contract of an allocator that hands out the next aligned piece above what is in use: a client
  gets disjoint pieces from it whatever it asks for, as long as the total stays below the limit.
\<close>

fun alloc_all :: "(int \<Rightarrow> int \<Rightarrow> 's \<Rightarrow> (int \<times> 's) result) \<Rightarrow> (int \<times> int) list \<Rightarrow> 's
    \<Rightarrow> (int list \<times> 's) result" where
  "alloc_all alloc [] s = Inr ([], s)"
| "alloc_all alloc ((sz, al) # rs) s = bind_result (alloc sz al s) (\<lambda>(off, s).
     bind_result (alloc_all alloc rs s) (\<lambda>(offs, s). Inr (off # offs, s)))"

locale bump_allocator =
  fixes alloc :: "int \<Rightarrow> int \<Rightarrow> 's \<Rightarrow> (int \<times> 's) result"
    and top :: "'s \<Rightarrow> int"
    and limit :: int
  assumes alloc_bumps: "alloc sz al s = Inr (off, s') \<Longrightarrow> 0 \<le> sz \<Longrightarrow> 0 < al \<Longrightarrow> 0 \<le> top s \<Longrightarrow>
      top s + al + sz \<le> limit \<Longrightarrow>
      top s \<le> off \<and> off < top s + al \<and> off mod al = 0 \<and> top s' = off + sz"
begin

lemma alloc_all_pieces:
  assumes "alloc_all alloc rs s = Inr (offs, s')" "\<forall>(sz, al) \<in> set rs. 0 \<le> sz \<and> 0 < al" "0 \<le> top s"
    and "top s + (\<Sum>(sz, al) \<leftarrow> rs. al + sz) \<le> limit"
  shows "length offs = length rs \<and> top s \<le> top s'
    \<and> (\<forall>k < length rs. top s \<le> offs ! k \<and> offs ! k + fst (rs ! k) \<le> top s' \<and> offs ! k mod snd (rs ! k) = 0)
    \<and> (\<forall>j k. j < k \<and> k < length rs \<longrightarrow> offs ! j + fst (rs ! j) \<le> offs ! k)"
  using assms
proof (induction rs arbitrary: s offs)
  case (Cons r rs)
  obtain sz al where r: "r = (sz, al)" by (cases r)
  obtain off s1 offs1 where a: "alloc sz al s = Inr (off, s1)" "alloc_all alloc rs s1 = Inr (offs1, s')" "offs = off # offs1"
    using Cons.prems(1) r by (auto simp: bind_result_Inr_iff)
  have nn: "0 \<le> (\<Sum>(sz, al) \<leftarrow> rs. al + sz)"
    using Cons.prems(2) by (intro sum_list_nonneg) auto
  have b: "top s \<le> off" "off < top s + al" "off mod al = 0" "top s1 = off + sz"
    using alloc_bumps [OF a(1)] Cons.prems(2-4) nn r by auto
  have "0 \<le> sz" using Cons.prems(2) r by simp
  then have IH: "length offs1 = length rs \<and> top s1 \<le> top s'
    \<and> (\<forall>k < length rs. top s1 \<le> offs1 ! k \<and> offs1 ! k + fst (rs ! k) \<le> top s' \<and> offs1 ! k mod snd (rs ! k) = 0)
    \<and> (\<forall>j k. j < k \<and> k < length rs \<longrightarrow> offs1 ! j + fst (rs ! j) \<le> offs1 ! k)"
    using Cons.IH [OF a(2)] Cons.prems(2-4) b r by auto
  then show ?case
    using b \<open>0 \<le> sz\<close> unfolding a(3) r
    by (auto simp: nth_Cons' less_Suc_eq_0_disj)
qed simp

end

lemma AllocateStack_bumps:
  assumes "AllocateStack sz al st = Inr (off, st')" "0 \<le> sz" "0 < al" "0 \<le> StackOffset st"
    and "StackOffset st + al + sz \<le> 2 ^ 32"
  shows "StackOffset st \<le> off \<and> off < StackOffset st + al \<and> off mod al = 0 \<and> (off + sz < 2 ^ 32 \<longrightarrow> StackOffset st' = off + sz)
    \<and> Locs st' = Locs st"
proof -
  have al: "alignTo (StackOffset st) al 0 = Inr (ceil_to al 0 (StackOffset st))"
    using alignTo_ceil_to [of "StackOffset st" al 0] assms(3-5,2) by simp
  note cb = ceil_to_bounds [OF assms(3), where v = "StackOffset st" and s = 0]
  have "u32 (ceil_to al 0 (StackOffset st)) = ceil_to al 0 (StackOffset st)"
    by (rule u32_id; use cb assms in linarith)
  then show ?thesis
    using assms(1,2,4) cb ceil_to_mod [of al 0 "StackOffset st"] unfolding AllocateStack_def al
    by (auto simp: bind_result_Inr_iff CC_ensureMaxAlignment_def Let_def u32_id split: if_splits)
qed

interpretation cc_stack: bump_allocator AllocateStack StackOffset "2 ^ 32 - 1"
proof unfold_locales
  fix sz al off and s s' :: cc_state
  assume a: "AllocateStack sz al s = Inr (off, s')" "0 \<le> sz" "0 < al" "0 \<le> StackOffset s"
    "StackOffset s + al + sz \<le> 2 ^ 32 - 1"
  then show "StackOffset s \<le> off \<and> off < StackOffset s + al \<and> off mod al = 0 \<and> StackOffset s' = off + sz"
    using AllocateStack_bumps [OF a(1-4)] by auto
qed

text \<open>
  Stack slots. For any sequence of allocations whose sizes and alignments add up to less than
  \<open>2 ^ 32\<close>, the slots that \<open>AllocateStack\<close> returns are aligned as requested, follow each other without
  overlap, and end at the next stack offset.
\<close>

theorem stack_slots_disjoint:
  assumes "alloc_all AllocateStack rs (CCState va fi) = Inr (offs, st)" "\<forall>(sz, al) \<in> set rs. 0 \<le> sz \<and> 0 < al"
    and "(\<Sum>(sz, al) \<leftarrow> rs. al + sz) < 2 ^ 32"
  shows "length offs = length rs
    \<and> (\<forall>k < length rs. 0 \<le> offs ! k \<and> offs ! k + fst (rs ! k) \<le> StackOffset st \<and> offs ! k mod snd (rs ! k) = 0)
    \<and> (\<forall>j k. j < k \<and> k < length rs \<longrightarrow> offs ! j + fst (rs ! j) \<le> offs ! k)"
  using cc_stack.alloc_all_pieces [OF assms(1,2)] assms(3) by (simp add: CCState_def)

section \<open>Where the arguments of a call are\<close>

definition passable :: "io_arg \<Rightarrow> bool" where
  "passable a = (arg_VT a \<in> {Vi1, Vi8, Vi16, Vi32})"

definition arg_info :: "io_arg \<Rightarrow> loc_info" where
  "arg_info a = snd (promote_i32 (arg_VT a) Full (arg_Flags a))"

fun arg_locs :: "nat \<Rightarrow> int \<Rightarrow> io_arg list \<Rightarrow> cc_val_assign list" where
  "arg_locs i off [] = []"
| "arg_locs i off (a # as) = getMem i (arg_VT a) off Vi32 (arg_info a) # arg_locs (Suc i) (off + 4) as"

lemma length_arg_locs [simp]: "length (arg_locs i off as) = length as"
  by (induction as arbitrary: i off) simp_all

lemma nth_arg_locs:
  "k < length as \<Longrightarrow> arg_locs i off as ! k = getMem (i + k) (arg_VT (as ! k)) (off + 4 * int k) Vi32 (arg_info (as ! k))"
proof (induction as arbitrary: i off k)
  case (Cons a as)
  then show ?case by (cases k) (simp_all add: algebra_simps)
qed simp

text \<open>The frame alignment that the assignment leaves: four is asked for when there is an argument.\<close>

definition aligned_frame :: "io_arg list \<Rightarrow> frame_info \<Rightarrow> frame_info" where
  "aligned_frame as fi = (if as \<noteq> [] \<and> MaxAlignment fi < 4 then fi\<lparr>MaxAlignment := 4\<rparr> else fi)"

definition word_aligned_stack :: "frame_info \<Rightarrow> bool" where
  "word_aligned_stack fi = (StackRealignable fi \<or> 4 \<le> StackAlignment fi)"

lemma promote_passable:
  "passable a \<Longrightarrow> promote_i32 (arg_VT a) Full (arg_Flags a) = (Vi32, arg_info a)"
  by (auto simp: passable_def promote_i32_def arg_info_def)

lemma AllocateStack_word:
  assumes "StackOffset st = 4 * m" "0 \<le> m" "m < 2 ^ 29" "word_aligned_stack (CCFrame st)"
    "\<not> AnalyzingMustTailForwardedRegs st"
  shows "AllocateStack 4 4 st = Inr (4 * m, st\<lparr>StackOffset := 4 * (m + 1),
      MaxStackArgAlign := max 4 (MaxStackArgAlign st), CCFrame := aligned_frame [a] (CCFrame st)\<rparr>)"
proof -
  have "alignTo (4 * m) 4 0 = Inr (4 * m)"
    using assms(2,3) ceil_to_least [of 4 "4 * m" "4 * m" 0] ceil_to_bounds(1) [of 4 "4 * m" 0]
    by (simp add: alignTo_ceil_to)
  moreover have "u32 (4 * m) = 4 * m" "u32 (4 * m + 4) = 4 * (m + 1)"
    using assms(2,3) by (simp_all add: u32_id)
  moreover have "u32 3 AND 4 = 0" by (simp add: u32_def)
  moreover have "ensureMaxAlignment (CCFrame st) 4 = Inr (aligned_frame [a] (CCFrame st))"
    using assms(4) by (auto simp: ensureMaxAlignment_def aligned_frame_def word_aligned_stack_def)
  ultimately show ?thesis
    using assms(5) by (simp add: AllocateStack_def assms(1) CC_ensureMaxAlignment_def Let_def)
qed

lemma CC_F2003f_step:
  assumes "passable a" "StackOffset st = 4 * m" "0 \<le> m" "m < 2 ^ 29" "word_aligned_stack (CCFrame st)"
    "\<not> AnalyzingMustTailForwardedRegs st"
  shows "CC_F2003f i (arg_VT a) (arg_VT a) Full (arg_Flags a) st = Inr (False,
     st\<lparr>Locs := Locs st @ [getMem i (arg_VT a) (4 * m) Vi32 (arg_info a)], StackOffset := 4 * (m + 1),
      MaxStackArgAlign := max 4 (MaxStackArgAlign st), CCFrame := aligned_frame [a] (CCFrame st)\<rparr>)"
  using AllocateStack_word [OF assms(2-6), of a]
  by (simp add: CC_F2003f_def promote_passable [OF assms(1)] addLoc_def)

lemma CC_F2003f_unhandled:
  "\<not> passable a \<Longrightarrow> CC_F2003f i (arg_VT a) (arg_VT a) Full (arg_Flags a) st = Inr (True, st)"
  by (auto simp: CC_F2003f_def promote_i32_def passable_def)

lemma aligned_frame_word: "word_aligned_stack (aligned_frame as fi) = word_aligned_stack fi"
  by (simp add: aligned_frame_def word_aligned_stack_def)

lemma aligned_frame_append: "aligned_frame as (aligned_frame bs fi) = aligned_frame (bs @ as) fi"
  by (simp add: aligned_frame_def)

lemma analyze_CC_F2003f:
  assumes "StackOffset st = 4 * m" "0 \<le> m" "m + int (length as) < 2 ^ 29" "word_aligned_stack (CCFrame st)"
    "\<not> AnalyzingMustTailForwardedRegs st"
  shows "analyze_from CC_F2003f i as st =
    (if \<forall>a \<in> set as. passable a
     then Inr (st\<lparr>Locs := Locs st @ arg_locs i (4 * m) as, StackOffset := 4 * (m + int (length as)),
        MaxStackArgAlign := (if as = [] then MaxStackArgAlign st else max 4 (MaxStackArgAlign st)),
        CCFrame := aligned_frame as (CCFrame st)\<rparr>)
     else Inl Unreachable)"
  using assms
proof (induction as arbitrary: i st m)
  case Nil
  then show ?case by (simp add: aligned_frame_def)
next
  case (Cons a as)
  show ?case
  proof (cases "passable a")
    case True
    have s: "CC_F2003f i (arg_VT a) (arg_VT a) Full (arg_Flags a) st = Inr (False,
       st\<lparr>Locs := Locs st @ [getMem i (arg_VT a) (4 * m) Vi32 (arg_info a)], StackOffset := 4 * (m + 1),
        MaxStackArgAlign := max 4 (MaxStackArgAlign st), CCFrame := aligned_frame [a] (CCFrame st)\<rparr>)"
      by (rule CC_F2003f_step) (use True Cons.prems in auto)
    show ?thesis
      using True Cons.prems
      by (simp add: s Cons.IH [where m = "m + 1"] aligned_frame_word aligned_frame_append algebra_simps)
  next
    case False
    then show ?thesis by (simp add: CC_F2003f_unhandled)
  qed
qed

text \<open>
  The argument convention of the 2003f. The caller's and the callee's analysis of a list of values
  agree: when every value is an \<open>i32\<close> or promoted to one, value \<open>k\<close> gets the four bytes at stack offset
  \<open>4 * k\<close>, extended as its flags say, and the call frame is as large as the values; a value of any
  other type stops both.
\<close>

theorem argument_locations:
  assumes "word_aligned_stack fi" "length as < 2 ^ 29"
  shows "AnalyzeFormalArguments CC_F2003f as (CCState va fi) = AnalyzeCallOperands CC_F2003f as (CCState va fi)
    \<and> (if \<forall>a \<in> set as. passable a
       then \<exists>st. AnalyzeFormalArguments CC_F2003f as (CCState va fi) = Inr st
         \<and> length (Locs st) = length as \<and> StackOffset st = 4 * int (length as)
         \<and> (\<forall>k < length as. Locs st ! k = getMem k (arg_VT (as ! k)) (4 * int k) Vi32 (arg_info (as ! k)))
         \<and> Objects (CCFrame st) = Objects fi
       else AnalyzeFormalArguments CC_F2003f as (CCState va fi) = Inl Unreachable)"
  using analyze_CC_F2003f [of "CCState va fi" 0 as 0] assms
  by (simp add: AnalyzeFormalArguments_def AnalyzeCallOperands_def CCState_def nth_arg_locs aligned_frame_def)

section \<open>Where the result is\<close>

lemma RetCC_F2003f_step:
  "passable a \<Longrightarrow> RetCC_F2003f i (arg_VT a) (arg_VT a) Full (arg_Flags a) st =
     (if F0 \<in> UsedRegs st then Inr (True, st)
      else Inr (False, st\<lparr>UsedRegs := UsedRegs st \<union> {F0},
        Locs := Locs st @ [getReg i (arg_VT a) F0 Vi32 (arg_info a)]\<rparr>))"
  by (simp add: RetCC_F2003f_def promote_passable AllocateReg_def isAllocated_def MarkAllocated_def
      no_aliases_def addLoc_def)

lemma RetCC_F2003f_unhandled:
  "\<not> passable a \<Longrightarrow> RetCC_F2003f i (arg_VT a) (arg_VT a) Full (arg_Flags a) st = Inr (True, st)"
  by (auto simp: RetCC_F2003f_def promote_i32_def passable_def)

text \<open>
  The return convention of the 2003f. At most one value is returned in registers: no value, or one
  that is an \<open>i32\<close> or promoted to one, in \<open>F0\<close>. For anything else \<open>CheckReturn\<close> says no, which sends the
  value through memory, and the analyses stop.
\<close>

theorem result_location:
  "(\<exists>st. CheckReturn RetCC_F2003f as (CCState va fi) = Inr (as = [] \<or> (\<exists>a. as = [a] \<and> passable a), st))
   \<and> AnalyzeReturn RetCC_F2003f as (CCState va fi) =
       (case as of [] \<Rightarrow> Inr (CCState va fi)
        | a # as' \<Rightarrow> if passable a \<and> as' = []
            then Inr ((CCState va fi)\<lparr>UsedRegs := {F0}, Locs := [getReg 0 (arg_VT a) F0 Vi32 (arg_info a)]\<rparr>)
            else Inl Unreachable)
   \<and> AnalyzeCallResult RetCC_F2003f as (CCState va fi) = AnalyzeReturn RetCC_F2003f as (CCState va fi)"
proof -
  have u: "F0 \<notin> UsedRegs (CCState va fi)" "Locs (CCState va fi) = []" "UsedRegs (CCState va fi) = {}"
    by (simp_all add: CCState_def)
  have used: "RetCC_F2003f i (arg_VT a) (arg_VT a) Full (arg_Flags a) st = Inr (True, st)"
    if "F0 \<in> UsedRegs st" for i and a :: io_arg and st
    using that RetCC_F2003f_step RetCC_F2003f_unhandled by (cases "passable a") auto
  show ?thesis
  proof (cases as)
    case Nil
    then show ?thesis by (simp add: CheckReturn_def AnalyzeReturn_def AnalyzeCallResult_def)
  next
    case (Cons a as')
    show ?thesis
    proof (cases "passable a")
      case True
      then show ?thesis
        using Cons u used
        by (cases as') (simp_all add: CheckReturn_def AnalyzeReturn_def AnalyzeCallResult_def RetCC_F2003f_step)
    next
      case False
      then show ?thesis
        using Cons by (simp add: CheckReturn_def AnalyzeReturn_def AnalyzeCallResult_def RetCC_F2003f_unhandled)
    qed
  qed
qed

section \<open>Registers are given out once\<close>

lemma getFirstUnallocated_spec:
  "getFirstUnallocated rs st \<le> length rs \<and> (\<forall>k < getFirstUnallocated rs st. isAllocated (rs ! k) st)
   \<and> (getFirstUnallocated rs st < length rs \<longrightarrow> \<not> isAllocated (rs ! getFirstUnallocated rs st) st)"
proof (induction rs)
  case (Cons r rs)
  then show ?case by (auto simp: less_Suc_eq_0_disj)
qed simp

lemma fold_MarkAllocated: "UsedRegs (fold (MarkAllocated aliases) rs st) = UsedRegs st \<union> (\<Union>r \<in> set rs. set (aliases r))"
  by (induction rs arbitrary: st) (auto simp: MarkAllocated_def)

lemma block_from_spec:
  assumes "block_from aliases rs n st = (r, st')" "NoRegister \<notin> set rs" "r \<noteq> NoRegister"
  shows "\<exists>i. i + n \<le> length rs \<and> i < length rs \<and> r = rs ! i \<and> (\<forall>k < n. \<not> isAllocated (rs ! (i + k)) st)
    \<and> UsedRegs st' = UsedRegs st \<union> (\<Union>k \<in> {i ..< i + n}. set (aliases (rs ! k)))"
  using assms
proof (induction aliases rs n st rule: block_from.induct)
  case (1 aliases rs n st)
  have nl: "\<not> length rs < n" using "1.prems"(1,3) by (auto simp: block_from.simps [of aliases rs])
  show ?case
  proof (cases "\<forall>r \<in> set (take n rs). \<not> isAllocated r st")
    case True
    then have r: "r = hd (rs @ [NoRegister])" "st' = fold (MarkAllocated aliases) (take n rs) st"
      using "1.prems"(1) nl by (simp_all add: block_from.simps [of aliases rs])
    then have ne: "rs \<noteq> []" using "1.prems"(3) by auto
    have "(\<Union>r \<in> set (take n rs). set (aliases r)) = (\<Union>k \<in> {0 ..< n}. set (aliases (rs ! k)))"
      using nl by (simp add: nth_image [symmetric])
    then show ?thesis
      using r ne nl True
      by (cases rs) (auto simp: fold_MarkAllocated nth_image [symmetric] intro: exI [where x = 0])
  next
    case False
    then obtain x rs' where rs: "rs = x # rs'" using nl by (cases rs) auto
    then have "block_from aliases rs' n st = (r, st')"
      using "1.prems"(1) nl False unfolding rs
      by (subst (asm) block_from.simps) (auto split: if_splits)
    then obtain i where i: "i + n \<le> length rs'" "i < length rs'" "r = rs' ! i" "\<forall>k < n. \<not> isAllocated (rs' ! (i + k)) st"
        "UsedRegs st' = UsedRegs st \<union> (\<Union>k \<in> {i ..< i + n}. set (aliases (rs' ! k)))"
      using "1.IH" [OF nl False rs] "1.prems"(2,3) rs by auto
    have "(\<Union>k \<in> {i ..< i + n}. set (aliases (rs' ! k))) = (\<Union>k \<in> {Suc i ..< Suc i + n}. set (aliases (rs ! k)))"
    proof -
      have "{Suc i ..< Suc i + n} = Suc ` {i ..< i + n}" by (simp add: image_Suc_atLeastLessThan)
      then show ?thesis by (simp only: rs image_image) simp
    qed
    then show ?thesis using i rs by (intro exI [where x = "Suc i"]) auto
  qed
qed

text \<open>
  Registers are given out once. A register that \<open>AllocateReg\<close> returns was free before and is
  allocated afterwards, with its aliases; when it returns none, none of the candidates was free. A block
  that \<open>AllocateRegBlock\<close> returns starts a run of as many free registers as asked for, and exactly those
  and their aliases are allocated.
\<close>

theorem registers_allocated_once:
  assumes "NoRegister \<notin> set rs"
  shows "(case AllocateReg_list aliases rs st of (r, st') \<Rightarrow>
       if r = NoRegister then st' = st \<and> (\<forall>x \<in> set rs. isAllocated x st)
       else r \<in> set rs \<and> \<not> isAllocated r st \<and> UsedRegs st' = UsedRegs st \<union> set (aliases r))
    \<and> (case AllocateRegBlock aliases rs n st of (r, st') \<Rightarrow> r \<noteq> NoRegister \<longrightarrow>
       (\<exists>i. i + n \<le> length rs \<and> r = rs ! i \<and> (\<forall>k < n. \<not> isAllocated (rs ! (i + k)) st)
         \<and> UsedRegs st' = UsedRegs st \<union> (\<Union>k \<in> {i ..< i + n}. set (aliases (rs ! k)))))"
proof -
  have "rs ! k \<noteq> NoRegister" if "k < length rs" for k using that assms by (metis nth_mem)
  then have "case AllocateReg_list aliases rs st of (r, st') \<Rightarrow>
       if r = NoRegister then st' = st \<and> (\<forall>x \<in> set rs. isAllocated x st)
       else r \<in> set rs \<and> \<not> isAllocated r st \<and> UsedRegs st' = UsedRegs st \<union> set (aliases r)"
    using getFirstUnallocated_spec [of rs st]
    by (auto simp: AllocateReg_list_def Let_def MarkAllocated_def) (metis in_set_conv_nth)+
  then show ?thesis
    using block_from_spec [of aliases rs n st] assms
    by (auto simp: AllocateRegBlock_def split: prod.splits)
qed

section \<open>Concrete calls\<close>

definition sample_args :: "io_arg list" where
  "sample_args = [\<lparr>arg_VT = Vi32, arg_Flags = no_flags\<rparr>, \<lparr>arg_VT = Vi8, arg_Flags = no_flags\<lparr>IsZExt := True\<rparr>\<rparr>]"

theorem argument_locations_witness:
  "\<exists>st. AnalyzeFormalArguments CC_F2003f sample_args (CCState False empty_2003f_frame) = Inr st
     \<and> StackOffset st = 8 \<and> Locs st ! 1 = getMem 1 Vi8 4 Vi32 ZExt"
proof -
  have "word_aligned_stack empty_2003f_frame"
    by (simp add: word_aligned_stack_def empty_2003f_frame_def new_frame_info_def)
  moreover have "length sample_args < 2 ^ 29" "\<forall>a \<in> set sample_args. passable a" "1 < length sample_args"
    by (simp_all add: sample_args_def passable_def)
  moreover have "arg_VT (sample_args ! 1) = Vi8" "arg_info (sample_args ! 1) = ZExt" "length sample_args = 2"
    by (simp_all add: sample_args_def arg_info_def promote_i32_def no_flags_def)
  ultimately obtain st where "AnalyzeFormalArguments CC_F2003f sample_args (CCState False empty_2003f_frame) = Inr st"
    "StackOffset st = 8" "\<forall>k < 2. Locs st ! k = getMem k (arg_VT (sample_args ! k)) (4 * int k) Vi32 (arg_info (sample_args ! k))"
    using argument_locations [of empty_2003f_frame sample_args False]
    by (auto simp del: One_nat_def simp: eq_commute [of _ "Inr _"])
  with \<open>arg_VT (sample_args ! 1) = Vi8\<close> \<open>arg_info (sample_args ! 1) = ZExt\<close> show ?thesis
    by (intro exI [of _ st] conjI) simp_all
qed

lemma sample_allocations: "alloc_all AllocateStack [(4, 4), (1, 1), (8, 4)] (CCState False empty_2003f_frame)
    = Inr ([0, 4, 8], (CCState False (empty_2003f_frame\<lparr>MaxAlignment := 4\<rparr>))\<lparr>StackOffset := 16, MaxStackArgAlign := 4\<rparr>)"
  by (simp add: AllocateStack_def CCState_def alignTo_def u32_def u64_def CC_ensureMaxAlignment_def
      ensureMaxAlignment_def empty_2003f_frame_def new_frame_info_def)

theorem stack_slots_disjoint_witness:
  "\<exists>offs st. alloc_all AllocateStack [(4, 4), (1, 1), (8, 4)] (CCState False empty_2003f_frame) = Inr (offs, st)
     \<and> offs ! 1 + 1 \<le> offs ! 2 \<and> offs ! 2 mod 4 = 0"
proof -
  have h: "\<forall>(sz, al) \<in> set [(4, 4), (1, 1), (8 :: int, 4 :: int)]. 0 \<le> sz \<and> 0 < al"
    "(\<Sum>(sz, al) \<leftarrow> [(4, 4), (1, 1), (8 :: int, 4)]. al + sz) < 2 ^ 32" by simp_all
  have d: "\<And>j k. j < k \<Longrightarrow> k < 3 \<Longrightarrow>
      [0, 4, 8 :: int] ! j + fst ([(4, 4), (1, 1), (8 :: int, 4 :: int)] ! j) \<le> [0, 4, 8] ! k"
    using stack_slots_disjoint [OF sample_allocations h] by simp
  show ?thesis using d [of 1 2] sample_allocations by simp
qed

theorem registers_allocated_once_witness:
  "fst (AllocateReg_list no_aliases [F0, F1] ((CCState False empty_2003f_frame)\<lparr>UsedRegs := {F0}\<rparr>)) = F1
   \<and> \<not> isAllocated F1 ((CCState False empty_2003f_frame)\<lparr>UsedRegs := {F0}\<rparr>)"
proof -
  let ?st = "(CCState False empty_2003f_frame)\<lparr>UsedRegs := {F0}\<rparr>"
  have "NoRegister \<notin> set [F0, F1]" by simp
  note once = registers_allocated_once [OF this, where aliases = no_aliases and st = ?st and n = 1]
  moreover have "fst (AllocateReg_list no_aliases [F0, F1] ?st) = F1"
    by (simp add: AllocateReg_list_def isAllocated_def)
  ultimately show ?thesis by (auto split: prod.splits)
qed

end
