(* ===== verification/SelDAG.thy ===== *)
theory SelDAG
  imports CallLower ISA
begin

text \<open>
  The nodes of a selection DAG (\<open>SDNode\<close> and \<open>SDValue\<close> of \<open>include/llvm/CodeGen/SelectionDAGNodes.h\<close>)
  as far as the 2003f backend builds and inspects them, the node constructors of
  \<open>include/llvm/CodeGen/SelectionDAG.h\<close> and \<open>lib/CodeGen/SelectionDAG/SelectionDAG.cpp\<close> that it calls,
  and the value that a node denotes.

  A node is the tree of what it uses: the sharing of equal nodes, the debug locations, the memory
  operand annotations and the target flags (always zero here) are left out, and so are the folds that
  \<open>getNode\<close> makes, which replace a node by one of the same value. An opcode with a payload, such as the
  index of a \<open>FrameIndexSDNode\<close>, carries it.
\<close>

section \<open>Nodes\<close>

datatype sd_op =
    ISD_EntryToken | ISD_TokenFactor
  | ISD_Constant int | ISD_TargetConstant int
  | ISD_FrameIndex int | ISD_TargetFrameIndex int
  | ISD_GlobalAddress string int | ISD_TargetGlobalAddress string int
  | ISD_ExternalSymbol string | ISD_TargetExternalSymbol string
  | ISD_BlockAddress string | ISD_TargetBlockAddress string
  | ISD_JumpTable int | ISD_TargetJumpTable int
  | ISD_CondCode isd_cond | ISD_BasicBlock nat | ISD_Register reg | ISD_RegisterMask
  | ISD_CopyToReg | ISD_CopyFromReg
  | ISD_SIGN_EXTEND | ISD_ZERO_EXTEND | ISD_ANY_EXTEND
  | ISD_ADD | ISD_SUB | ISD_OR | ISD_AND
  | ISD_LOAD | ISD_STORE | ISD_MEMCPY int
  | ISD_CALLSEQ_START | ISD_CALLSEQ_END
  | ISD_SELECT_CC | ISD_BR_CC
  | F2003fISD_Wrapper | F2003fISD_FENXEO | F2003fISD_DOSNUD | F2003fISD_SELECT_CC | F2003fISD_BR_CC
  | Machine opcode
  | ISD_other nat

datatype sdnode = SDNode (getOpcode: sd_op) (value_types: "mvt list") (node_operands: "(sdnode \<times> nat) list")

type_synonym sdvalue = "sdnode \<times> nat"

text \<open>Out of range, \<open>getOperand\<close> and \<open>getValueType\<close> assert, and so does the \<open>operator[]\<close> of a vector.\<close>

definition nth_checked :: "'a list \<Rightarrow> nat \<Rightarrow> 'a result" where
  "nth_checked xs i = (if i < length xs then Inr (xs ! i) else Inl AssertFailed)"

definition getValueType :: "sdvalue \<Rightarrow> mvt" where
  "getValueType v = value_types (fst v) ! snd v"

definition getValue :: "sdvalue \<Rightarrow> nat \<Rightarrow> sdvalue" where
  "getValue v n = (fst v, n)"

definition getNode :: "sd_op \<Rightarrow> mvt list \<Rightarrow> sdvalue list \<Rightarrow> sdvalue" where
  "getNode op vts vs = (SDNode op vts vs, 0)"

lemma nth_checked_Inr [simp]: "i < length xs \<Longrightarrow> nth_checked xs i = Inr (xs ! i)"
  by (simp add: nth_checked_def)

section \<open>Constructors\<close>

text \<open>\<open>getPointerTy\<close>: pointers of the 2003f have 32 bits.\<close>

abbreviation PtrVT :: mvt where "PtrVT \<equiv> Vi32"

definition getConstant :: "int \<Rightarrow> mvt \<Rightarrow> bool \<Rightarrow> sdvalue result" where
  "getConstant Val vt isT =
     (let b = nat (getSizeInBits vt) in
      if \<not> (64 \<le> b \<or> u64 (u64 (i64 Val div 2 ^ b) + 1) < 2) then Inl AssertFailed
      else Inr (getNode (if isT then ISD_TargetConstant (take_bit b Val) else ISD_Constant (take_bit b Val)) [vt] []))"

definition getIntPtrConstant :: "int \<Rightarrow> bool \<Rightarrow> sdvalue result" where
  "getIntPtrConstant Val isT = getConstant Val PtrVT isT"

definition getGlobalAddress :: "string \<Rightarrow> mvt \<Rightarrow> int \<Rightarrow> bool \<Rightarrow> sdvalue" where
  "getGlobalAddress GV vt Offset isTargetGA =
     (let Offset = i32 Offset in
      getNode (if isTargetGA then ISD_TargetGlobalAddress GV Offset else ISD_GlobalAddress GV Offset) [vt] [])"

definition getFrameIndex :: "int \<Rightarrow> mvt \<Rightarrow> bool \<Rightarrow> sdvalue" where
  "getFrameIndex i vt isTarget =
     getNode (if isTarget then ISD_TargetFrameIndex i else ISD_FrameIndex i) [vt] []"

definition getRegister :: "reg \<Rightarrow> mvt \<Rightarrow> sdvalue" where
  "getRegister r vt = getNode (ISD_Register r) [vt] []"

definition getCopyToReg :: "sdvalue \<Rightarrow> reg \<Rightarrow> sdvalue \<Rightarrow> sdvalue option \<Rightarrow> sdvalue" where
  "getCopyToReg Chain r N Glue =
     getNode ISD_CopyToReg [VOther, VGlue]
       ([Chain, getRegister r (getValueType N), N] @ (case Glue of Some g \<Rightarrow> [g] | None \<Rightarrow> []))"

definition getCopyFromReg :: "sdvalue \<Rightarrow> reg \<Rightarrow> mvt \<Rightarrow> sdvalue" where
  "getCopyFromReg Chain r vt = getNode ISD_CopyFromReg [vt, VOther] [Chain, getRegister r vt]"

definition getCopyFromReg_glue :: "sdvalue \<Rightarrow> reg \<Rightarrow> mvt \<Rightarrow> sdvalue option \<Rightarrow> sdvalue" where
  "getCopyFromReg_glue Chain r vt Glue =
     getNode ISD_CopyFromReg [vt, VOther, VGlue]
       ([Chain, getRegister r vt] @ (case Glue of Some g \<Rightarrow> [g] | None \<Rightarrow> []))"

definition getCALLSEQ_START :: "sdvalue \<Rightarrow> int \<Rightarrow> int \<Rightarrow> sdvalue result" where
  "getCALLSEQ_START Chain InSize OutSize =
     bind_result (getIntPtrConstant InSize True) (\<lambda>i.
     bind_result (getIntPtrConstant OutSize True) (\<lambda>o'.
       Inr (getNode ISD_CALLSEQ_START [VOther, VGlue] [Chain, i, o'])))"

definition getCALLSEQ_END :: "sdvalue \<Rightarrow> sdvalue \<Rightarrow> sdvalue \<Rightarrow> sdvalue option \<Rightarrow> sdvalue" where
  "getCALLSEQ_END Chain Op1 Op2 InGlue =
     getNode ISD_CALLSEQ_END [VOther, VGlue]
       ([Chain, Op1, Op2] @ (case InGlue of Some g \<Rightarrow> [g] | None \<Rightarrow> []))"

text \<open>A plain load has the loaded value and the chain as results; a plain store only the chain.\<close>

definition getLoad :: "mvt \<Rightarrow> sdvalue \<Rightarrow> sdvalue \<Rightarrow> sdvalue" where
  "getLoad vt Chain Ptr = getNode ISD_LOAD [vt, VOther] [Chain, Ptr]"

definition getStore :: "sdvalue \<Rightarrow> sdvalue \<Rightarrow> sdvalue \<Rightarrow> sdvalue" where
  "getStore Chain Val Ptr = getNode ISD_STORE [VOther] [Chain, Val, Ptr]"

text \<open>\<open>getMemcpy\<close> expands a copy into loads and stores; here it stays one node.\<close>

definition getMemcpy :: "sdvalue \<Rightarrow> sdvalue \<Rightarrow> sdvalue \<Rightarrow> sdvalue \<Rightarrow> int \<Rightarrow> sdvalue" where
  "getMemcpy Chain Dst Src Sz Align = getNode (ISD_MEMCPY Align) [VOther] [Chain, Dst, Src, Sz]"

lemma getNode_simps [simp]:
  "fst (getNode op vts vs) = SDNode op vts vs" "snd (getNode op vts vs) = 0"
  by (simp_all add: getNode_def)

lemma getValueType_getNode [simp]: "getValueType (getNode op (vt # vts) vs) = vt"
  by (simp add: getValueType_def)

lemma getConstant_u32:
  assumes "0 \<le> n" "n < 2 ^ 32"
  shows "getConstant n Vi32 isT = Inr (getNode (if isT then ISD_TargetConstant n else ISD_Constant n) [Vi32] [])"
proof -
  have "i64 n = n" "take_bit 32 n = n" "n div 2 ^ 32 = 0"
    using assms by (simp_all add: i64_id take_bit_int_eq_self)
  then show ?thesis by (simp add: getConstant_def u64_def)
qed

section \<open>The value of a node\<close>

text \<open>
  \<open>dag_env\<close> is what a value depends on besides the DAG: registers and memory at the place in the chain
  where the value is read, the addresses of stack objects and symbols, the undefined high bits of
  \<open>ANY_EXTEND\<close>, and the value of the nodes that are not modelled. A value narrower than 32 bits is in the
  low bits of its word.
\<close>

record dag_env =
  dag_reg :: "reg \<Rightarrow> 32 word"
  dag_mem :: "32 word \<Rightarrow> 8 word"
  dag_frame :: "int \<Rightarrow> 32 word"
  dag_symbol :: "sd_op \<Rightarrow> 32 word"
  dag_junk :: "32 word"
  dag_other :: "sdnode \<Rightarrow> nat \<Rightarrow> 32 word"

definition low_bits :: "mvt \<Rightarrow> nat" where
  "low_bits vt = nat (getSizeInBits vt)"

text \<open>The address of a symbol, the same before and after the node is marked as a target node.\<close>

fun symbol_value :: "dag_env \<Rightarrow> sd_op \<Rightarrow> 32 word option" where
  "symbol_value e (ISD_GlobalAddress g off) = Some (dag_symbol e (ISD_GlobalAddress g 0) + word_of_int off)"
| "symbol_value e (ISD_TargetGlobalAddress g off) = Some (dag_symbol e (ISD_GlobalAddress g 0) + word_of_int off)"
| "symbol_value e (ISD_ExternalSymbol s) = Some (dag_symbol e (ISD_ExternalSymbol s))"
| "symbol_value e (ISD_TargetExternalSymbol s) = Some (dag_symbol e (ISD_ExternalSymbol s))"
| "symbol_value e (ISD_BlockAddress b) = Some (dag_symbol e (ISD_BlockAddress b))"
| "symbol_value e (ISD_TargetBlockAddress b) = Some (dag_symbol e (ISD_BlockAddress b))"
| "symbol_value e (ISD_JumpTable j) = Some (dag_symbol e (ISD_JumpTable j))"
| "symbol_value e (ISD_TargetJumpTable j) = Some (dag_symbol e (ISD_JumpTable j))"
| "symbol_value e (ISD_Constant n) = Some (word_of_int n)"
| "symbol_value e (ISD_TargetConstant n) = Some (word_of_int n)"
| "symbol_value e (ISD_FrameIndex i) = Some (dag_frame e i)"
| "symbol_value e (ISD_TargetFrameIndex i) = Some (dag_frame e i)"
| "symbol_value e (ISD_Register r) = Some (if r = NoRegister then 0 else dag_reg e r)"
| "symbol_value e _ = None"

text \<open>
  The value of a node from its opcode and, for each operand, the opcode, the width and the value. The
  target's select chooses the second operand when the comparison of the third and fourth holds, and
  else the first, as the pattern of \<open>FI.._MALKRZ..\<close> has it.
\<close>

definition node_value :: "dag_env \<Rightarrow> sd_op \<Rightarrow> (sd_op \<times> nat \<times> 32 word) list \<Rightarrow> 32 word option" where
  "node_value e op ws = (case op of
      ISD_ADD \<Rightarrow> (case ws of [(_, _, a), (_, _, b)] \<Rightarrow> Some (a + b) | _ \<Rightarrow> None)
    | ISD_SUB \<Rightarrow> (case ws of [(_, _, a), (_, _, b)] \<Rightarrow> Some (a - b) | _ \<Rightarrow> None)
    | ISD_OR \<Rightarrow> (case ws of [(_, _, a), (_, _, b)] \<Rightarrow> Some (a OR b) | _ \<Rightarrow> None)
    | ISD_AND \<Rightarrow> (case ws of [(_, _, a), (_, _, b)] \<Rightarrow> Some (a AND b) | _ \<Rightarrow> None)
    | ISD_SIGN_EXTEND \<Rightarrow> (case ws of [(_, n, a)] \<Rightarrow> Some (signed_take_bit (n - 1) a) | _ \<Rightarrow> None)
    | ISD_ZERO_EXTEND \<Rightarrow> (case ws of [(_, n, a)] \<Rightarrow> Some (take_bit n a) | _ \<Rightarrow> None)
    | ISD_ANY_EXTEND \<Rightarrow> (case ws of [(_, n, a)] \<Rightarrow>
        Some (take_bit n a OR (dag_junk e AND NOT (mask n))) | _ \<Rightarrow> None)
    | ISD_LOAD \<Rightarrow> (case ws of [_, (_, _, p)] \<Rightarrow> Some (load32 (dag_mem e) p) | _ \<Rightarrow> None)
    | ISD_CopyFromReg \<Rightarrow> (case ws of _ # (_, _, r) # _ \<Rightarrow> Some r | _ \<Rightarrow> None)
    | ISD_SELECT_CC \<Rightarrow> (case ws of [(_, _, l), (_, _, r), (_, _, t), (_, _, f), (ISD_CondCode c, _, _)] \<Rightarrow>
        map_option (\<lambda>b. if b then t else f) (eval_isd_cond c l r) | _ \<Rightarrow> None)
    | F2003fISD_SELECT_CC \<Rightarrow>
       (case ws of [(_, _, f), (_, _, t), (_, _, l), (_, _, r), (ISD_TargetConstant n, _, _)] \<Rightarrow>
        map_option (\<lambda>c. if eval_cc c l r then t else f) (cc_of_number n) | _ \<Rightarrow> None)
    | Machine c \<Rightarrow> (if c = ATAframe
        then (case ws of [(_, _, a), (_, _, b)] \<Rightarrow> Some (a + b) | _ \<Rightarrow> None) else None)
    | F2003fISD_Wrapper \<Rightarrow> (case ws of [(_, _, a)] \<Rightarrow> Some a | _ \<Rightarrow> None)
    | _ \<Rightarrow> symbol_value e op)"

fun eval_node :: "dag_env \<Rightarrow> sdnode \<Rightarrow> nat \<Rightarrow> 32 word" where
  "eval_node e (SDNode op vts vs) n =
     (case node_value e op (map (\<lambda>(a, i). (getOpcode a, low_bits (value_types a ! i), eval_node e a i)) vs) of
        Some w \<Rightarrow> w
      | None \<Rightarrow> dag_other e (SDNode op vts vs) n)"

definition eval :: "dag_env \<Rightarrow> sdvalue \<Rightarrow> 32 word" where
  "eval e v = eval_node e (fst v) (snd v)"

lemma eval_SDNode:
  "eval e (SDNode op vts vs, n) =
     (case node_value e op (map (\<lambda>v. (getOpcode (fst v), low_bits (getValueType v), eval e v)) vs) of
        Some w \<Rightarrow> w
      | None \<Rightarrow> dag_other e (SDNode op vts vs) n)"
  by (simp add: eval_def getValueType_def case_prod_unfold)

lemma eval_getNode [simp]:
  "eval e (getNode op vts vs) =
     (case node_value e op (map (\<lambda>v. (getOpcode (fst v), low_bits (getValueType v), eval e v)) vs) of
        Some w \<Rightarrow> w
      | None \<Rightarrow> dag_other e (SDNode op vts vs) 0)"
  by (simp add: getNode_def eval_SDNode)

text \<open>A branch on a comparison, as the generic and as the target node.\<close>

definition branch_taken :: "dag_env \<Rightarrow> sdnode \<Rightarrow> bool option" where
  "branch_taken e n = (case getOpcode n of
      ISD_BR_CC \<Rightarrow> (case node_operands n of
          [_, c, l, r, _] \<Rightarrow> (case getOpcode (fst c) of
              ISD_CondCode cc \<Rightarrow> eval_isd_cond cc (eval e l) (eval e r) | _ \<Rightarrow> None)
        | _ \<Rightarrow> None)
    | F2003fISD_BR_CC \<Rightarrow> (case node_operands n of
          [_, _, l, r, c] \<Rightarrow> (case getOpcode (fst c) of
              ISD_TargetConstant k \<Rightarrow> map_option (\<lambda>cc. eval_cc cc (eval e l) (eval e r)) (cc_of_number k)
            | _ \<Rightarrow> None)
        | _ \<Rightarrow> None)
    | _ \<Rightarrow> None)"

definition branch_dest :: "sdnode \<Rightarrow> sdvalue option" where
  "branch_dest n = (case (getOpcode n, node_operands n) of
      (ISD_BR_CC, [_, _, _, _, d]) \<Rightarrow> Some d
    | (F2003fISD_BR_CC, [_, d, _, _, _]) \<Rightarrow> Some d
    | _ \<Rightarrow> None)"

end
