(* ===== verification/ISelLower.thy ===== *)
theory ISelLower
  imports SelDAG FrameLayout "HOL-Library.Multiset"
begin

text \<open>
  \<open>lib/Target/F2003f/F2003fISelLowering.cpp\<close>: how calls, returns, formal arguments, comparisons and
  addresses become nodes of the selection DAG. The state of the machine function that the lowering
  changes is \<open>mf_state\<close>: its frame, the number of its virtual registers and its live-in registers.

  The theorems follow a call from the caller to the callee: what the callee loads from its stack objects
  is what the caller stored, whatever the order of the stores; the result comes back in \<open>F0\<close>; lowered
  comparisons and addresses have the value of the generic nodes. By-value aggregates are the exception:
  they overlap their neighbours.
\<close>

record mf_state =
  mf_Frame :: frame_info
  mf_VRegs :: nat
  mf_LiveIns :: "(reg \<times> reg) list"

section \<open>Comparisons and addresses\<close>

definition node_cond :: "sdvalue \<Rightarrow> isd_cond result" where
  "node_cond v = (case getOpcode (fst v) of ISD_CondCode c \<Rightarrow> Inr c | _ \<Rightarrow> Inl AssertFailed)"

definition getOperand :: "sdvalue \<Rightarrow> nat \<Rightarrow> sdvalue result" where
  "getOperand Op i = nth_checked (node_operands (fst Op)) i"

definition LowerSELECT_CC :: "sdvalue \<Rightarrow> sdvalue result" where
  "LowerSELECT_CC Op =
     bind_result (getOperand Op 0) (\<lambda>LHS. bind_result (getOperand Op 1) (\<lambda>RHS.
     bind_result (getOperand Op 2) (\<lambda>TrueV. bind_result (getOperand Op 3) (\<lambda>FalseV.
     bind_result (bind_result (getOperand Op 4) node_cond) (\<lambda>CC.
     bind_result (getF2003fCC CC) (\<lambda>k.
     bind_result (getConstant (cc_number k) Vi8 True) (\<lambda>TargetCC.
       Inr (getNode F2003fISD_SELECT_CC [getValueType Op] [FalseV, TrueV, LHS, RHS, TargetCC]))))))))"

definition LowerBR_CC :: "sdvalue \<Rightarrow> sdvalue result" where
  "LowerBR_CC Op =
     bind_result (getOperand Op 0) (\<lambda>Chain.
     bind_result (bind_result (getOperand Op 1) node_cond) (\<lambda>CC.
     bind_result (getOperand Op 2) (\<lambda>LHS. bind_result (getOperand Op 3) (\<lambda>RHS.
     bind_result (getOperand Op 4) (\<lambda>Dest.
     bind_result (getF2003fCC CC) (\<lambda>k.
     bind_result (getConstant (cc_number k) Vi8 True) (\<lambda>TargetCC.
       Inr (getNode F2003fISD_BR_CC [getValueType Op] [Chain, Dest, LHS, RHS, TargetCC]))))))))"

definition LowerGlobalAddress :: "sdvalue \<Rightarrow> sdvalue result" where
  "LowerGlobalAddress Op = (case getOpcode (fst Op) of
     ISD_GlobalAddress GV off \<Rightarrow>
       let Result = getNode F2003fISD_Wrapper [PtrVT] [getGlobalAddress GV PtrVT 0 True] in
       if off \<noteq> 0
       then bind_result (getConstant off PtrVT False) (\<lambda>c. Inr (getNode ISD_ADD [PtrVT] [Result, c]))
       else Inr Result
   | _ \<Rightarrow> Inl AssertFailed)"

definition LowerExternalSymbol :: "sdvalue \<Rightarrow> sdvalue result" where
  "LowerExternalSymbol Op = (case getOpcode (fst Op) of
     ISD_ExternalSymbol Sym \<Rightarrow>
       Inr (getNode F2003fISD_Wrapper [PtrVT] [getNode (ISD_TargetExternalSymbol Sym) [PtrVT] []])
   | _ \<Rightarrow> Inl AssertFailed)"

definition LowerBlockAddress :: "sdvalue \<Rightarrow> sdvalue result" where
  "LowerBlockAddress Op = (case getOpcode (fst Op) of
     ISD_BlockAddress BA \<Rightarrow>
       Inr (getNode F2003fISD_Wrapper [PtrVT] [getNode (ISD_TargetBlockAddress BA) [PtrVT] []])
   | _ \<Rightarrow> Inl AssertFailed)"

definition LowerJumpTable :: "sdvalue \<Rightarrow> sdvalue result" where
  "LowerJumpTable Op = (case getOpcode (fst Op) of
     ISD_JumpTable JT \<Rightarrow>
       Inr (getNode F2003fISD_Wrapper [PtrVT] [getNode (ISD_TargetJumpTable JT) [PtrVT] []])
   | _ \<Rightarrow> Inl AssertFailed)"

definition LowerOperation :: "sdvalue \<Rightarrow> sdvalue result" where
  "LowerOperation Op = (case getOpcode (fst Op) of
     ISD_SELECT_CC \<Rightarrow> LowerSELECT_CC Op
   | ISD_BR_CC \<Rightarrow> LowerBR_CC Op
   | ISD_GlobalAddress g off \<Rightarrow> LowerGlobalAddress Op
   | ISD_BlockAddress b \<Rightarrow> LowerBlockAddress Op
   | ISD_ExternalSymbol s \<Rightarrow> LowerExternalSymbol Op
   | ISD_JumpTable j \<Rightarrow> LowerJumpTable Op
   | _ \<Rightarrow> Inl Unreachable)"

definition getTargetNodeName :: "sd_op \<Rightarrow> string option" where
  "getTargetNodeName op = (case op of
     F2003fISD_Wrapper \<Rightarrow> Some ''F2003fISD::Wrapper''
   | F2003fISD_FENXEO \<Rightarrow> Some ''F2003fISD::FENXEO''
   | F2003fISD_DOSNUD \<Rightarrow> Some ''F2003fISD::DOSNUD''
   | F2003fISD_SELECT_CC \<Rightarrow> Some ''F2003fISD::SELECT_CC''
   | F2003fISD_BR_CC \<Rightarrow> Some ''F2003fISD::BR_CC''
   | _ \<Rightarrow> None)"

section \<open>Formal arguments\<close>

text \<open>\<open>NumBytes - VA.getLocMemOffset() - VA.getLocVT().getSizeInBits()/8\<close>, in unsigned arithmetic.\<close>

definition arg_offset :: "int \<Rightarrow> cc_val_assign \<Rightarrow> int \<Rightarrow> int" where
  "arg_offset NumBytes VA LocMem = u32 (NumBytes - LocMem - getSizeInBits (LocVT VA) div 8)"

definition lower_formal :: "sdvalue \<Rightarrow> int \<Rightarrow> cc_val_assign \<Rightarrow> io_arg \<Rightarrow> mf_state \<Rightarrow> (sdvalue \<times> mf_state) result" where
  "lower_formal Chain NumBytes VA In st =
     (if isRegLoc VA then
        (if LocVT VA = Vi32 then
           bind_result (getLocReg VA) (\<lambda>r.
           let v = VReg (mf_VRegs st) in
           Inr (getCopyFromReg Chain v (LocVT VA),
                st\<lparr>mf_VRegs := mf_VRegs st + 1, mf_LiveIns := mf_LiveIns st @ [(r, v)]\<rparr>))
         else Inl Unreachable)
      else
        bind_result (getLocMemOffset VA) (\<lambda>LocMem.
        let offset = arg_offset NumBytes VA LocMem in
        if IsByVal (arg_Flags In) then
          bind_result (CreateFixedObject (mf_Frame st) (ByValSize (arg_Flags In)) offset True False) (\<lambda>(i, fi).
            Inr (getFrameIndex i PtrVT False, st\<lparr>mf_Frame := fi\<rparr>))
        else
          bind_result (CreateFixedObject (mf_Frame st) (getSizeInBits (LocVT VA) div 8) offset True False) (\<lambda>(i, fi).
            Inr (getLoad (LocVT VA) Chain (getFrameIndex i Vi32 False), st\<lparr>mf_Frame := fi\<rparr>))))"

fun lower_formals :: "sdvalue \<Rightarrow> int \<Rightarrow> cc_val_assign list \<Rightarrow> io_arg list \<Rightarrow> mf_state
    \<Rightarrow> (sdvalue list \<times> mf_state) result" where
  "lower_formals Chain NumBytes [] Ins st = Inr ([], st)"
| "lower_formals Chain NumBytes (VA # VAs) Ins st =
     bind_result (nth_checked Ins 0) (\<lambda>In.
     bind_result (lower_formal Chain NumBytes VA In st) (\<lambda>(v, st).
     bind_result (lower_formals Chain NumBytes VAs (tl Ins) st) (\<lambda>(vs, st). Inr (v # vs, st))))"

definition LowerFormalArguments :: "sdvalue \<Rightarrow> bool \<Rightarrow> io_arg list \<Rightarrow> mf_state
    \<Rightarrow> (sdvalue \<times> sdvalue list \<times> mf_state) result" where
  "LowerFormalArguments Chain isVarArg Ins st =
     bind_result (AnalyzeFormalArguments CC_F2003f Ins (CCState isVarArg (mf_Frame st))) (\<lambda>CCInfo.
     let NumBytes = u32 (StackOffset CCInfo + 4) in
     if isVarArg then Inl Unreachable
     else bind_result (lower_formals Chain NumBytes (Locs CCInfo) Ins (st\<lparr>mf_Frame := CCFrame CCInfo\<rparr>))
       (\<lambda>(vs, st). Inr (Chain, vs, st)))"

section \<open>Calls\<close>

record call_info =
  cl_Chain :: sdvalue
  cl_Callee :: sdvalue
  cl_IsTailCall :: bool
  cl_IsVarArg :: bool
  cl_Outs :: "io_arg list"
  cl_OutVals :: "sdvalue list"
  cl_Ins :: "io_arg list"

definition promote_arg :: "cc_val_assign \<Rightarrow> sdvalue \<Rightarrow> sdvalue result" where
  "promote_arg VA Arg = (case HTP VA of
     Full \<Rightarrow> Inr Arg
   | SExt \<Rightarrow> Inr (getNode ISD_SIGN_EXTEND [LocVT VA] [Arg])
   | ZExt \<Rightarrow> Inr (getNode ISD_ZERO_EXTEND [LocVT VA] [Arg])
   | AExt \<Rightarrow> Inr (getNode ISD_ANY_EXTEND [LocVT VA] [Arg])
   | _ \<Rightarrow> Inl Unreachable)"

text \<open>The state of the loop over the argument locations.\<close>

record arg_state =
  RegsToPass :: "(reg \<times> sdvalue) list"
  MemOpChains :: "sdvalue list"
  StackPtr :: "sdvalue option"

definition lower_arg :: "sdvalue \<Rightarrow> int \<Rightarrow> cc_val_assign \<Rightarrow> sdvalue \<Rightarrow> io_arg \<Rightarrow> arg_state \<Rightarrow> arg_state result" where
  "lower_arg Chain NumBytes VA Arg Out s =
     bind_result (promote_arg VA Arg) (\<lambda>Arg.
     if isRegLoc VA then bind_result (getLocReg VA) (\<lambda>r. Inr (s\<lparr>RegsToPass := RegsToPass s @ [(r, Arg)]\<rparr>))
     else
       (let sp = (case StackPtr s of Some p \<Rightarrow> p | None \<Rightarrow> getCopyFromReg Chain F5 PtrVT) in
       bind_result (getLocMemOffset VA) (\<lambda>LocMem.
       bind_result (getIntPtrConstant (arg_offset NumBytes VA LocMem) False) (\<lambda>off.
       let PtrOff = getNode ISD_ADD [PtrVT] [sp, off] in
       bind_result
         (if IsByVal (arg_Flags Out)
          then bind_result (getConstant (ByValSize (arg_Flags Out)) Vi32 False) (\<lambda>SizeNode.
            Inr (getMemcpy Chain PtrOff Arg SizeNode (getByValAlign (arg_Flags Out))))
          else Inr (getStore Chain Arg PtrOff))
         (\<lambda>MemOp. Inr (s\<lparr>MemOpChains := MemOpChains s @ [MemOp], StackPtr := Some sp\<rparr>))))))"

fun lower_args :: "sdvalue \<Rightarrow> int \<Rightarrow> cc_val_assign list \<Rightarrow> sdvalue list \<Rightarrow> io_arg list \<Rightarrow> arg_state \<Rightarrow> arg_state result" where
  "lower_args Chain NumBytes [] Args Outs s = Inr s"
| "lower_args Chain NumBytes (VA # VAs) Args Outs s =
     bind_result (nth_checked Args 0) (\<lambda>Arg. bind_result (nth_checked Outs 0) (\<lambda>Out.
     bind_result (lower_arg Chain NumBytes VA Arg Out s)
       (lower_args Chain NumBytes VAs (tl Args) (tl Outs))))"

fun copy_to_regs :: "(reg \<times> sdvalue) list \<Rightarrow> sdvalue \<Rightarrow> sdvalue option \<Rightarrow> sdvalue \<times> sdvalue option" where
  "copy_to_regs [] Chain InFlag = (Chain, InFlag)"
| "copy_to_regs ((r, v) # rs) Chain InFlag =
     (let Chain = getCopyToReg Chain r v InFlag in copy_to_regs rs Chain (Some (getValue Chain 1)))"

definition direct_callee :: "sdvalue \<Rightarrow> sdvalue" where
  "direct_callee Callee = (case getOpcode (fst Callee) of
     ISD_GlobalAddress g off \<Rightarrow> getGlobalAddress g Vi32 0 True
   | ISD_TargetGlobalAddress g off \<Rightarrow> getGlobalAddress g Vi32 0 True
   | ISD_ExternalSymbol s \<Rightarrow> getNode (ISD_TargetExternalSymbol s) [Vi32] []
   | ISD_TargetExternalSymbol s \<Rightarrow> getNode (ISD_TargetExternalSymbol s) [Vi32] []
   | _ \<Rightarrow> Callee)"

fun copy_results :: "cc_val_assign list \<Rightarrow> sdvalue \<Rightarrow> sdvalue option \<Rightarrow> (sdvalue \<times> sdvalue list) result" where
  "copy_results [] Chain InFlag = Inr (Chain, [])"
| "copy_results (VA # VAs) Chain InFlag =
     bind_result (getLocReg VA) (\<lambda>r.
     let Chain = getValue (getCopyFromReg_glue Chain r (ValVT VA) InFlag) 1 in
     bind_result (copy_results VAs Chain (Some (getValue Chain 2))) (\<lambda>(Chain', vs).
       Inr (Chain', getValue Chain 0 # vs)))"

definition LowerCallResult :: "sdvalue \<Rightarrow> sdvalue option \<Rightarrow> bool \<Rightarrow> io_arg list \<Rightarrow> mf_state
    \<Rightarrow> (sdvalue \<times> sdvalue list \<times> mf_state) result" where
  "LowerCallResult Chain InFlag isVarArg Ins st =
     bind_result (AnalyzeCallResult RetCC_F2003f Ins (CCState isVarArg (mf_Frame st))) (\<lambda>CCInfo.
     bind_result (copy_results (Locs CCInfo) Chain InFlag) (\<lambda>(Chain, vs).
       Inr (Chain, vs, st\<lparr>mf_Frame := CCFrame CCInfo\<rparr>)))"

definition LowerCall :: "call_info \<Rightarrow> mf_state \<Rightarrow> (sdvalue \<times> call_info \<times> sdvalue list \<times> mf_state) result" where
  "LowerCall CLI st =
     (let CLI = CLI\<lparr>cl_IsTailCall := False\<rparr> in
      bind_result (AnalyzeCallOperands CC_F2003f (cl_Outs CLI) (CCState (cl_IsVarArg CLI) (mf_Frame st))) (\<lambda>CCInfo.
      let NumBytes = u32 (StackOffset CCInfo + 4); st = st\<lparr>mf_Frame := CCFrame CCInfo\<rparr> in
      bind_result (getCALLSEQ_START (cl_Chain CLI) NumBytes 0) (\<lambda>Chain.
      bind_result (lower_args Chain NumBytes (Locs CCInfo) (cl_OutVals CLI) (cl_Outs CLI)
          \<lparr>RegsToPass = [], MemOpChains = [], StackPtr = None\<rparr>) (\<lambda>s.
      let Chain = (if MemOpChains s \<noteq> [] then getNode ISD_TokenFactor [VOther] (MemOpChains s) else Chain) in
      case copy_to_regs (RegsToPass s) Chain None of (Chain, InFlag) \<Rightarrow>
      let Callee = direct_callee (cl_Callee CLI);
          Ops = [Chain, Callee] @ map (\<lambda>(r, v). getRegister r (getValueType v)) (RegsToPass s)
            @ [getNode ISD_RegisterMask [] []] @ (case InFlag of Some g \<Rightarrow> [g] | None \<Rightarrow> []);
          Chain = getNode F2003fISD_FENXEO [VOther, VGlue] Ops;
          InFlag = getValue Chain 1 in
      bind_result (getConstant NumBytes PtrVT True) (\<lambda>n.
      bind_result (getConstant 0 PtrVT True) (\<lambda>z.
      let Chain = getCALLSEQ_END Chain n z (Some InFlag); InFlag = getValue Chain 1 in
      bind_result (LowerCallResult Chain (Some InFlag) (cl_IsVarArg CLI) (cl_Ins CLI) st) (\<lambda>(Chain, vs, st).
        Inr (Chain, CLI, vs, st))))))))"

section \<open>Returns\<close>

definition CanLowerReturn :: "bool \<Rightarrow> io_arg list \<Rightarrow> mf_state \<Rightarrow> bool result" where
  "CanLowerReturn IsVarArg Outs st =
     bind_result (CheckReturn RetCC_F2003f Outs (CCState IsVarArg (mf_Frame st))) (\<lambda>(ok, _). Inr ok)"

fun copy_returns :: "cc_val_assign list \<Rightarrow> sdvalue list \<Rightarrow> sdvalue \<Rightarrow> sdvalue option
    \<Rightarrow> (sdvalue \<times> sdvalue option \<times> sdvalue list) result" where
  "copy_returns [] Vals Chain Flag = Inr (Chain, Flag, [])"
| "copy_returns (VA # VAs) Vals Chain Flag =
     (if \<not> isRegLoc VA then Inl AssertFailed
      else bind_result (getLocReg VA) (\<lambda>r. bind_result (nth_checked Vals 0) (\<lambda>v.
        let Chain = getCopyToReg Chain r v Flag in
        bind_result (copy_returns VAs (tl Vals) Chain (Some (getValue Chain 1))) (\<lambda>(Chain, Flag, rs).
          Inr (Chain, Flag, getRegister r (LocVT VA) # rs)))))"

definition LowerReturn :: "sdvalue \<Rightarrow> bool \<Rightarrow> io_arg list \<Rightarrow> sdvalue list \<Rightarrow> mf_state \<Rightarrow> (sdvalue \<times> mf_state) result" where
  "LowerReturn Chain isVarArg Outs OutVals st =
     bind_result (AnalyzeReturn RetCC_F2003f Outs (CCState isVarArg (mf_Frame st))) (\<lambda>CCInfo.
     bind_result (copy_returns (Locs CCInfo) OutVals Chain None) (\<lambda>(Chain, Flag, rs).
       Inr (getNode F2003fISD_DOSNUD [VOther]
              ([Chain] @ rs @ (case Flag of Some g \<Rightarrow> [g] | None \<Rightarrow> [])),
            st\<lparr>mf_Frame := CCFrame CCInfo\<rparr>)))"

section \<open>The nodes that the lowering makes\<close>

text \<open>Argument \<open>k\<close> of \<open>n\<close> is at this offset from the stack pointer of the call.\<close>

definition arg_slot :: "nat \<Rightarrow> nat \<Rightarrow> int" where
  "arg_slot n k = 4 * (int n - int k)"

definition arg_object_size :: "io_arg \<Rightarrow> int" where
  "arg_object_size a = (if IsByVal (arg_Flags a) then ByValSize (arg_Flags a) else 4)"

definition formal_index :: "frame_info \<Rightarrow> nat \<Rightarrow> int" where
  "formal_index fi k = - int (NumFixedObjects fi + k + 1)"

definition formal_value :: "sdvalue \<Rightarrow> io_arg \<Rightarrow> int \<Rightarrow> sdvalue" where
  "formal_value Chain a i = (if IsByVal (arg_Flags a) then getFrameIndex i PtrVT False
     else getLoad Vi32 Chain (getFrameIndex i Vi32 False))"

lemma arg_loc_simps [simp]:
  "isRegLoc (getMem n vt off lvt h) = False"
  "getLocMemOffset (getMem n vt off lvt h) = Inr off"
  "LocVT (getMem n vt off lvt h) = lvt"
  "HTP (getMem n vt off lvt h) = h"
  "ValVT (getMem n vt off lvt h) = vt"
  "isRegLoc (getReg n vt r lvt h) = True"
  "getLocReg (getReg n vt r lvt h) = Inr r"
  "LocVT (getReg n vt r lvt h) = lvt"
  "HTP (getReg n vt r lvt h) = h"
  "ValVT (getReg n vt r lvt h) = vt"
  by (simp_all add: getMem_def getReg_def isRegLoc_def getLocMemOffset_def getLocReg_def)

lemma arg_offset_slot:
  assumes "k < n" "n < 2 ^ 29"
  shows "arg_offset (4 * int n + 4) (getMem i vt (4 * int k) Vi32 h) (4 * int k) = arg_slot n k"
  using assms by (simp add: arg_offset_def arg_slot_def u32_id)

definition object_extents :: "frame_info \<Rightarrow> (int \<times> int) list" where
  "object_extents fi = map (\<lambda>ob. (SPOffset ob, Size ob)) (Objects fi)"

lemma CreateFixedObject_eq:
  assumes "sz \<noteq> 0"
  shows "\<exists>fi'. CreateFixedObject fi sz off True False = Inr (- int (NumFixedObjects fi + 1), fi')
    \<and> NumFixedObjects fi' = NumFixedObjects fi + 1 \<and> object_extents fi' = (off, sz) # object_extents fi"
  using assms by (simp add: CreateFixedObject_def Let_def object_extents_def StackObject_def)

lemma lower_formal_eq:
  assumes "k < n" "n < 2 ^ 29" "arg_object_size a \<noteq> 0"
  shows "\<exists>fi'. lower_formal Chain (4 * int n + 4) (getMem i vt (4 * int k) Vi32 h) a st
      = Inr (formal_value Chain a (- int (NumFixedObjects (mf_Frame st) + 1)), st\<lparr>mf_Frame := fi'\<rparr>)
    \<and> NumFixedObjects fi' = NumFixedObjects (mf_Frame st) + 1
    \<and> object_extents fi' = (arg_slot n k, arg_object_size a) # object_extents (mf_Frame st)"
  using CreateFixedObject_eq [OF assms(3), of "mf_Frame st" "arg_slot n k"] arg_offset_slot [OF assms(1,2)] assms(3)
  by (fastforce simp: lower_formal_def formal_value_def arg_object_size_def)

lemma lower_formals_eq:
  assumes "k + length as = n" "n < 2 ^ 29" "\<forall>a \<in> set as. arg_object_size a \<noteq> 0"
  shows "\<exists>fi'. lower_formals Chain (4 * int n + 4) (arg_locs k (4 * int k) as) as st
      = Inr (map (\<lambda>j. formal_value Chain (as ! j) (formal_index (mf_Frame st) j)) [0 ..< length as], st\<lparr>mf_Frame := fi'\<rparr>)
    \<and> NumFixedObjects fi' = NumFixedObjects (mf_Frame st) + length as
    \<and> object_extents fi' = rev (map (\<lambda>j. (arg_slot n (k + j), arg_object_size (as ! j))) [0 ..< length as])
        @ object_extents (mf_Frame st)"
  using assms
proof (induction as arbitrary: k st)
  case Nil
  then show ?case by (intro exI [of _ "mf_Frame st"]) simp
next
  case (Cons a as)
  have "k < n" "arg_object_size a \<noteq> 0" using Cons.prems by auto
  from lower_formal_eq [OF this(1) Cons.prems(2) this(2), of Chain k "arg_VT a" "arg_info a" st]
  obtain fi1 where f: "lower_formal Chain (4 * int n + 4) (getMem k (arg_VT a) (4 * int k) Vi32 (arg_info a)) a st
      = Inr (formal_value Chain a (- int (NumFixedObjects (mf_Frame st) + 1)), st\<lparr>mf_Frame := fi1\<rparr>)"
    "NumFixedObjects fi1 = NumFixedObjects (mf_Frame st) + 1"
    "object_extents fi1 = (arg_slot n k, arg_object_size a) # object_extents (mf_Frame st)" by blast
  have "Suc k + length as = n" "\<forall>a \<in> set as. arg_object_size a \<noteq> 0" using Cons.prems by auto
  from Cons.IH [OF this(1) Cons.prems(2) this(2), of "st\<lparr>mf_Frame := fi1\<rparr>"] obtain fi2 where
    g: "lower_formals Chain (4 * int n + 4) (arg_locs (Suc k) (4 * int (Suc k)) as) as (st\<lparr>mf_Frame := fi1\<rparr>)
      = Inr (map (\<lambda>j. formal_value Chain (as ! j) (formal_index fi1 j)) [0 ..< length as], st\<lparr>mf_Frame := fi2\<rparr>)"
    "NumFixedObjects fi2 = NumFixedObjects fi1 + length as"
    "object_extents fi2 = rev (map (\<lambda>j. (arg_slot n (Suc k + j), arg_object_size (as ! j))) [0 ..< length as])
        @ object_extents fi1" by auto
  have up: "[0 ..< length (a # as)] = 0 # map Suc [0 ..< length as]"
    by (simp only: length_Cons upt_conv_Cons map_Suc_upt zero_less_Suc)
  have i: "4 * int k + 4 = 4 * int (Suc k)" "formal_index fi1 j = formal_index (mf_Frame st) (Suc j)"
      "- int (NumFixedObjects (mf_Frame st) + 1) = formal_index (mf_Frame st) 0" for j
    using f(2) by (simp_all add: formal_index_def)
  have lf: "lower_formals Chain (4 * int n + 4) (arg_locs k (4 * int k) (a # as)) (a # as) st
      = Inr (formal_value Chain a (formal_index (mf_Frame st) 0)
          # map (\<lambda>j. formal_value Chain (as ! j) (formal_index (mf_Frame st) (Suc j))) [0 ..< length as], st\<lparr>mf_Frame := fi2\<rparr>)"
    using f(2) by (simp add: f(1) g(1) [unfolded i(1) [symmetric]] formal_index_def)
  show ?case
    unfolding up using f(2,3) g(2,3) lf
    by (intro exI [of _ fi2]) (simp add: o_def)
qed

text \<open>The node that stores or copies argument \<open>k\<close>, with \<open>Chain\<close> the start of the call sequence.\<close>

definition promoted :: "io_arg \<Rightarrow> sdvalue \<Rightarrow> sdvalue" where
  "promoted a v = (case arg_info a of SExt \<Rightarrow> getNode ISD_SIGN_EXTEND [Vi32] [v]
     | ZExt \<Rightarrow> getNode ISD_ZERO_EXTEND [Vi32] [v] | AExt \<Rightarrow> getNode ISD_ANY_EXTEND [Vi32] [v] | _ \<Rightarrow> v)"

definition arg_pointer :: "sdvalue \<Rightarrow> int \<Rightarrow> sdvalue" where
  "arg_pointer Chain off = getNode ISD_ADD [PtrVT]
     [getCopyFromReg Chain F5 PtrVT, getNode (ISD_Constant off) [Vi32] []]"

definition arg_memop :: "sdvalue \<Rightarrow> io_arg \<Rightarrow> sdvalue \<Rightarrow> int \<Rightarrow> sdvalue" where
  "arg_memop Chain a v off = (if IsByVal (arg_Flags a)
     then getMemcpy Chain (arg_pointer Chain off) (promoted a v)
       (getNode (ISD_Constant (ByValSize (arg_Flags a))) [Vi32] []) (getByValAlign (arg_Flags a))
     else getStore Chain (promoted a v) (arg_pointer Chain off))"

lemma arg_info_cases: "arg_info a \<in> {Full, SExt, ZExt, AExt}"
  by (simp add: arg_info_def promote_i32_def)

lemma promote_arg_eq: "promote_arg (getMem n vt off Vi32 (arg_info a)) v = Inr (promoted a v)"
  using arg_info_cases [of a] by (auto simp: promote_arg_def promoted_def)

definition unsigned_size :: "io_arg \<Rightarrow> bool" where
  "unsigned_size a = (0 \<le> ByValSize (arg_Flags a) \<and> ByValSize (arg_Flags a) < 2 ^ 32)"

lemma lower_arg_eq:
  assumes "k < n" "n < 2 ^ 29" "unsigned_size a"
    and "StackPtr s \<in> {None, Some (getCopyFromReg Chain F5 PtrVT)}"
  shows "lower_arg Chain (4 * int n + 4) (getMem i vt (4 * int k) Vi32 (arg_info a)) v a s
    = Inr (s\<lparr>MemOpChains := MemOpChains s @ [arg_memop Chain a v (arg_slot n k)],
        StackPtr := Some (getCopyFromReg Chain F5 PtrVT)\<rparr>)"
proof -
  have sp: "(case StackPtr s of Some p \<Rightarrow> p | None \<Rightarrow> getCopyFromReg Chain F5 PtrVT) = getCopyFromReg Chain F5 PtrVT"
    using assms(4) by auto
  have "getIntPtrConstant (arg_slot n k) False = Inr (getNode (ISD_Constant (arg_slot n k)) [Vi32] [])"
    unfolding getIntPtrConstant_def
    by (subst getConstant_u32) (use assms(1,2) in \<open>simp_all add: arg_slot_def\<close>)
  moreover have "getConstant (ByValSize (arg_Flags a)) Vi32 False
      = Inr (getNode (ISD_Constant (ByValSize (arg_Flags a))) [Vi32] [])"
    by (subst getConstant_u32) (use assms(3) in \<open>simp_all add: unsigned_size_def\<close>)
  ultimately show ?thesis
    by (simp add: lower_arg_def promote_arg_eq sp Let_def arg_offset_slot [OF assms(1,2)] arg_memop_def arg_pointer_def)
qed

lemma lower_args_eq:
  assumes "k + length as = n" "n < 2 ^ 29" "\<forall>a \<in> set as. unsigned_size a" "length vs = length as"
    and "StackPtr s \<in> {None, Some (getCopyFromReg Chain F5 PtrVT)}"
  shows "\<exists>p. lower_args Chain (4 * int n + 4) (arg_locs k (4 * int k) as) vs as s
    = Inr (s\<lparr>MemOpChains := MemOpChains s
          @ map (\<lambda>j. arg_memop Chain (as ! j) (vs ! j) (arg_slot n (k + j))) [0 ..< length as],
        StackPtr := p\<rparr>)"
  using assms
proof (induction as arbitrary: k vs s)
  case Nil
  then show ?case by (intro exI [of _ "StackPtr s"]) simp
next
  case (Cons a as)
  obtain v vs' where vs: "vs = v # vs'" "length vs' = length as"
    using Cons.prems(4) by (cases vs) auto
  let ?s = "s\<lparr>MemOpChains := MemOpChains s @ [arg_memop Chain a v (arg_slot n k)],
        StackPtr := Some (getCopyFromReg Chain F5 PtrVT)\<rparr>"
  have f: "lower_arg Chain (4 * int n + 4) (getMem k (arg_VT a) (4 * int k) Vi32 (arg_info a)) v a s = Inr ?s"
    by (rule lower_arg_eq) (use Cons.prems in auto)
  have "Suc k + length as = n" "\<forall>a \<in> set as. unsigned_size a"
    "StackPtr ?s \<in> {None, Some (getCopyFromReg Chain F5 PtrVT)}" using Cons.prems by auto
  from Cons.IH [OF this(1) Cons.prems(2) this(2) vs(2) this(3)] obtain p where
    g: "lower_args Chain (4 * int n + 4) (arg_locs (Suc k) (4 * int (Suc k)) as) vs' as ?s
      = Inr (?s\<lparr>MemOpChains := MemOpChains ?s
          @ map (\<lambda>j. arg_memop Chain (as ! j) (vs' ! j) (arg_slot n (Suc k + j))) [0 ..< length as],
        StackPtr := p\<rparr>)" by blast
  have up: "[0 ..< length (a # as)] = 0 # map Suc [0 ..< length as]"
    by (simp only: length_Cons upt_conv_Cons map_Suc_upt zero_less_Suc)
  have i: "4 * int k + 4 = 4 * int (Suc k)" by simp
  show ?case
    unfolding up vs(1) by (intro exI [of _ p]) (simp add: f g [unfolded i [symmetric]] o_def)
qed

lemma analyze_args:
  assumes "word_aligned_stack fi" "length as < 2 ^ 29" "analyze_from CC_F2003f 0 as (CCState va fi) = Inr st"
  shows "\<forall>a \<in> set as. passable a" "Locs st = arg_locs 0 0 as" "StackOffset st = 4 * int (length as)"
    "CCFrame st = aligned_frame as fi"
  using analyze_CC_F2003f [of "CCState va fi" 0 as 0] assms
  by (auto simp: CCState_def split: if_splits)

lemma object_extents_aligned [simp]: "object_extents (aligned_frame as fi) = object_extents fi"
  "NumFixedObjects (aligned_frame as fi) = NumFixedObjects fi"
  by (simp_all add: object_extents_def aligned_frame_def)

lemma formal_index_aligned [simp]: "formal_index (aligned_frame as fi) = formal_index fi"
  by (simp add: formal_index_def fun_eq_iff)

text \<open>What \<open>LowerFormalArguments\<close> leaves: one fixed object per argument.\<close>

lemma LowerFormalArguments_eq:
  assumes "LowerFormalArguments Chain va Ins st = Inr (Chain', vs, st')"
    and "word_aligned_stack (mf_Frame st)" "length Ins < 2 ^ 29" "\<forall>a \<in> set Ins. arg_object_size a \<noteq> 0"
  shows "Chain' = Chain" "\<not> va" "\<forall>a \<in> set Ins. passable a"
    "vs = map (\<lambda>j. formal_value Chain (Ins ! j) (formal_index (mf_Frame st) j)) [0 ..< length Ins]"
    "NumFixedObjects (mf_Frame st') = NumFixedObjects (mf_Frame st) + length Ins"
    "object_extents (mf_Frame st') = rev (map (\<lambda>j. (arg_slot (length Ins) j, arg_object_size (Ins ! j))) [0 ..< length Ins])
        @ object_extents (mf_Frame st)"
proof -
  obtain cc where cc: "analyze_from CC_F2003f 0 Ins (CCState va (mf_Frame st)) = Inr cc"
    using assms(1) by (auto simp: LowerFormalArguments_def AnalyzeFormalArguments_def bind_result_Inr_iff)
  note an = analyze_args [OF assms(2,3) cc]
  have nb: "u32 (4 * int (length Ins) + 4) = 4 * int (length Ins) + 4" using assms(3) by (simp add: u32_id)
  have r: "\<not> va" "bind_result (lower_formals Chain (4 * int (length Ins) + 4) (arg_locs 0 0 Ins) Ins
        (st\<lparr>mf_Frame := aligned_frame Ins (mf_Frame st)\<rparr>)) (\<lambda>(vs, st). Inr (Chain, vs, st)) = Inr (Chain', vs, st')"
    using assms(1) cc an(2-4) nb
    by (auto simp: LowerFormalArguments_def AnalyzeFormalArguments_def Let_def split: if_splits)
  note lf = lower_formals_eq [of 0 Ins "length Ins" Chain "st\<lparr>mf_Frame := aligned_frame Ins (mf_Frame st)\<rparr>"]
  show "\<not> va" "\<forall>a \<in> set Ins. passable a" by (fact r(1), fact an(1))
  show "Chain' = Chain" 
    "vs = map (\<lambda>j. formal_value Chain (Ins ! j) (formal_index (mf_Frame st) j)) [0 ..< length Ins]"
    "NumFixedObjects (mf_Frame st') = NumFixedObjects (mf_Frame st) + length Ins"
    "object_extents (mf_Frame st') = rev (map (\<lambda>j. (arg_slot (length Ins) j, arg_object_size (Ins ! j))) [0 ..< length Ins])
        @ object_extents (mf_Frame st)"
    using lf r(2) assms(3,4) by auto
qed

section \<open>Walking back a chain\<close>

fun find_chain :: "sd_op \<Rightarrow> sdnode \<Rightarrow> sdnode option" where
  "find_chain op (SDNode op' vts vs) =
     (if op' = op then Some (SDNode op' vts vs)
      else case vs of [] \<Rightarrow> None | (c, i) # _ \<Rightarrow> find_chain op c)"

text \<open>
  The operands of the call node: the chain, the callee and what follows. The stores of the call are the
  operands of the token factor that it is chained to.
\<close>

definition call_operands :: "sdvalue \<Rightarrow> sdvalue list" where
  "call_operands Chain = (case find_chain F2003fISD_FENXEO (fst Chain) of
     Some n \<Rightarrow> node_operands n | None \<Rightarrow> [])"

definition call_stores :: "sdvalue \<Rightarrow> sdvalue list" where
  "call_stores Chain = (case call_operands Chain of
     (t, i) # _ \<Rightarrow> if getOpcode t = ISD_TokenFactor then node_operands t else []
   | [] \<Rightarrow> [])"

definition call_target :: "dag_env \<Rightarrow> sdvalue \<Rightarrow> 32 word" where
  "call_target e Chain = (case call_operands Chain of _ # f # _ \<Rightarrow> eval e f | _ \<Rightarrow> 0)"

definition call_start :: "sdvalue \<Rightarrow> int \<Rightarrow> sdvalue" where
  "call_start Chain n = getNode ISD_CALLSEQ_START [VOther, VGlue]
     [Chain, getNode (ISD_TargetConstant n) [Vi32] [], getNode (ISD_TargetConstant 0) [Vi32] []]"

lemma getCALLSEQ_START_eq:
  "0 \<le> n \<Longrightarrow> n < 2 ^ 32 \<Longrightarrow> getCALLSEQ_START Chain n 0 = Inr (call_start Chain n)"
  by (simp add: getCALLSEQ_START_def getIntPtrConstant_def getConstant_u32 call_start_def)

lemma find_chain_getNode:
  "find_chain op (fst (getNode op' vts (v # vs))) =
     (if op' = op then Some (fst (getNode op' vts (v # vs))) else find_chain op (fst v))"
  by (cases v) simp

lemma copy_results_chain:
  "copy_results VAs Chain Flag = Inr (Chain', vs) \<Longrightarrow>
     find_chain F2003fISD_FENXEO (fst Chain') = find_chain F2003fISD_FENXEO (fst Chain)"
proof (induction VAs arbitrary: Chain Flag vs)
  case (Cons VA VAs)
  then show ?case
    by (cases Chain) (fastforce simp: bind_result_Inr_iff Let_def getCopyFromReg_glue_def getValue_def getNode_def)
qed simp

lemma LowerCallResult_operands:
  "LowerCallResult Chain Flag va Ins st = Inr (Chain', vs, st') \<Longrightarrow> call_operands Chain' = call_operands Chain"
  by (auto simp: LowerCallResult_def bind_result_Inr_iff call_operands_def dest: copy_results_chain)

lemma bind_result_triple:
  "bind_result r (\<lambda>(a, b, c). Inr (a, x, b, c)) = Inr (a', x', b', c') \<longleftrightarrow> r = Inr (a', b', c') \<and> x' = x"
  by (cases r) auto

text \<open>The call node and the end of the call sequence, for a start \<open>C\<close> of the sequence.\<close>

definition call_memops :: "call_info \<Rightarrow> sdvalue \<Rightarrow> sdvalue list" where
  "call_memops CLI C = map (\<lambda>j. arg_memop C (cl_Outs CLI ! j) (cl_OutVals CLI ! j)
     (arg_slot (length (cl_Outs CLI)) j)) [0 ..< length (cl_Outs CLI)]"

definition call_node :: "call_info \<Rightarrow> sdvalue \<Rightarrow> sdvalue" where
  "call_node CLI C = getNode F2003fISD_FENXEO [VOther, VGlue]
     [if call_memops CLI C \<noteq> [] then getNode ISD_TokenFactor [VOther] (call_memops CLI C) else C,
      direct_callee (cl_Callee CLI), getNode ISD_RegisterMask [] []]"

definition call_end :: "call_info \<Rightarrow> sdvalue \<Rightarrow> sdvalue" where
  "call_end CLI C = getCALLSEQ_END (call_node CLI C)
     (getNode (ISD_TargetConstant (4 * int (length (cl_Outs CLI)) + 4)) [Vi32] [])
     (getNode (ISD_TargetConstant 0) [Vi32] []) (Some (getValue (call_node CLI C) 1))"

definition call_begin :: "call_info \<Rightarrow> sdvalue" where
  "call_begin CLI = call_start (cl_Chain CLI) (4 * int (length (cl_Outs CLI)) + 4)"

lemma LowerCall_eq:
  assumes "word_aligned_stack (mf_Frame st)" "length (cl_Outs CLI) < 2 ^ 29"
    and "\<forall>a \<in> set (cl_Outs CLI). unsigned_size a" "length (cl_OutVals CLI) = length (cl_Outs CLI)"
    and "\<forall>a \<in> set (cl_Outs CLI). passable a"
  shows "LowerCall CLI st = bind_result (LowerCallResult (call_end CLI (call_begin CLI))
      (Some (getValue (call_end CLI (call_begin CLI)) 1)) (cl_IsVarArg CLI) (cl_Ins CLI)
      (st\<lparr>mf_Frame := aligned_frame (cl_Outs CLI) (mf_Frame st)\<rparr>))
      (\<lambda>(Chain, vs, st). Inr (Chain, CLI\<lparr>cl_IsTailCall := False\<rparr>, vs, st))"
proof -
  let ?n = "length (cl_Outs CLI)" and ?s = "\<lparr>RegsToPass = [], MemOpChains = [], StackPtr = None\<rparr>"
  define C where "C = call_begin CLI"
  obtain cc where cc: "analyze_from CC_F2003f 0 (cl_Outs CLI) (CCState (cl_IsVarArg CLI) (mf_Frame st)) = Inr cc"
    using analyze_CC_F2003f [of "CCState (cl_IsVarArg CLI) (mf_Frame st)" 0 "cl_Outs CLI" 0] assms(1,2,5)
    by (auto simp: CCState_def)
  note an = analyze_args [OF assms(1,2) cc]
  have nb: "u32 (4 * int ?n + 4) = 4 * int ?n + 4" "0 \<le> 4 * int ?n + 4" "4 * int ?n + 4 < 2 ^ 32"
    using assms(2) by (simp_all add: u32_id)
  obtain p where la: "lower_args C (4 * int ?n + 4) (arg_locs 0 0 (cl_Outs CLI)) (cl_OutVals CLI) (cl_Outs CLI) ?s
      = Inr (?s\<lparr>MemOpChains := call_memops CLI C, StackPtr := p\<rparr>)"
    using lower_args_eq [of 0 "cl_Outs CLI" ?n "cl_OutVals CLI" ?s C] assms(2-4) by (auto simp: call_memops_def)
  have c: "getCALLSEQ_START (cl_Chain CLI) (4 * int ?n + 4) 0 = Inr C"
    using nb by (simp add: getCALLSEQ_START_eq C_def call_begin_def)
  show ?thesis
    using nb la
    by (simp add: LowerCall_def AnalyzeCallOperands_def cc an(2-4) Let_def c getConstant_u32
        C_def [symmetric] call_end_def call_node_def)
qed

text \<open>What \<open>LowerCall\<close> chains to the call: one memory operation per argument.\<close>

lemma LowerCall_stores:
  assumes "LowerCall CLI st = Inr (Chain, CLI', vs, st')"
    and "word_aligned_stack (mf_Frame st)" "length (cl_Outs CLI) < 2 ^ 29"
    and "\<forall>a \<in> set (cl_Outs CLI). unsigned_size a" "length (cl_OutVals CLI) = length (cl_Outs CLI)"
  shows "call_stores Chain = call_memops CLI (call_begin CLI)"
    and "\<forall>a \<in> set (cl_Outs CLI). passable a" "\<not> cl_IsTailCall CLI'"
    and "call_target e Chain = eval e (direct_callee (cl_Callee CLI))"
proof -
  define C where "C = call_begin CLI"
  obtain cc where cc: "analyze_from CC_F2003f 0 (cl_Outs CLI) (CCState (cl_IsVarArg CLI) (mf_Frame st)) = Inr cc"
    using assms(1) by (auto simp: LowerCall_def AnalyzeCallOperands_def Let_def bind_result_Inr_iff)
  show p: "\<forall>a \<in> set (cl_Outs CLI). passable a" by (rule analyze_args(1) [OF assms(2,3) cc])
  obtain flag st1 where r: "LowerCallResult (call_end CLI C) flag (cl_IsVarArg CLI) (cl_Ins CLI) st1 = Inr (Chain, vs, st')"
    and "CLI' = CLI\<lparr>cl_IsTailCall := False\<rparr>"
    using assms(1) unfolding LowerCall_eq [OF assms(2-5) p] bind_result_triple C_def by blast
  then show "\<not> cl_IsTailCall CLI'" by simp
  have ops: "call_operands Chain = node_operands (fst (call_node CLI C))"
    by (simp only: LowerCallResult_operands [OF r])
      (simp add: call_operands_def call_end_def getCALLSEQ_END_def getNode_def call_node_def)
  then show "call_target e Chain = eval e (direct_callee (cl_Callee CLI))"
    by (simp add: call_target_def call_node_def)
  have "getOpcode (fst C) \<noteq> ISD_TokenFactor" by (simp add: C_def call_begin_def call_start_def)
  then show "call_stores Chain = call_memops CLI (call_begin CLI)"
    by (auto simp: call_stores_def ops call_node_def case_prod_unfold C_def [symmetric])
qed

section \<open>From the caller's values to the callee's\<close>

text \<open>The effect of a store node on memory.\<close>

definition store_effect :: "dag_env \<Rightarrow> sdvalue \<Rightarrow> (32 word \<Rightarrow> 8 word) \<Rightarrow> (32 word \<Rightarrow> 8 word)" where
  "store_effect e n m = (case node_operands (fst n) of
     [c, v, p] \<Rightarrow> store32 m (eval e p) (eval e v) | _ \<Rightarrow> m)"

lemma load_after_stores:
  assumes "\<forall>x \<in> set xs. \<forall>y \<in> set xs. x \<noteq> y \<longrightarrow> separated (addr x) (addr y)" "distinct xs" "x \<in> set xs"
  shows "load32 (fold (\<lambda>x m. store32 m (addr x) (val x)) xs m) (addr x) = val x"
  using assms
proof (induction xs arbitrary: m rule: rev_induct)
  case (snoc y ys)
  then show ?case
    by (cases "x = y") (auto simp: load32_store32 load32_separated)
qed simp

lemma arg_slots_separated:
  assumes "j < n" "k < n" "j \<noteq> k" "n < 2 ^ 29"
  shows "separated (A + word_of_int (arg_slot n j)) (A + word_of_int (arg_slot n k))"
  by (rule separated_offsets) (use assms in \<open>auto simp: arg_slot_def\<close>)

lemma arg_slot_separated_return:
  assumes "k < n" "n < 2 ^ 29"
  shows "separated A (A + word_of_int (arg_slot n k))"
  using separated_offsets [of 0 "arg_slot n k" A] assms by (auto simp: arg_slot_def)

lemma not_separated_self: "\<not> separated a a"
  by (auto simp: separated_def intro!: bexI [of _ 0])

lemma eval_arg_pointer [simp]: "eval e (arg_pointer Chain off) = dag_reg e F5 + word_of_int off"
  by (simp add: arg_pointer_def node_value_def getCopyFromReg_def getRegister_def)

lemma store_effect_memop:
  "\<not> IsByVal (arg_Flags a) \<Longrightarrow> store_effect e (arg_memop Chain a v off) m
     = store32 m (dag_reg e F5 + word_of_int off) (eval e (promoted a v))"
  by (simp add: store_effect_def arg_memop_def getStore_def)

text \<open>The extension that the argument flags ask for.\<close>

definition extended :: "loc_info \<Rightarrow> nat \<Rightarrow> 32 word \<Rightarrow> 32 word \<Rightarrow> bool" where
  "extended h n v w = (case h of SExt \<Rightarrow> w = signed_take_bit (n - 1) v | ZExt \<Rightarrow> w = take_bit n v
     | AExt \<Rightarrow> take_bit n w = take_bit n v | _ \<Rightarrow> w = v)"

lemma take_bit_or_not_mask: "take_bit n (take_bit n v OR (j AND NOT (mask n))) = take_bit n (v :: 32 word)"
  by (rule bit_word_eqI) (auto simp: bit_take_bit_iff bit_or_iff bit_and_iff bit_not_iff bit_mask_iff)

lemma eval_promoted: "extended (arg_info a) (low_bits (getValueType v)) (eval e v) (eval e (promoted a v))"
  using arg_info_cases [of a]
  by (auto simp: extended_def promoted_def node_value_def take_bit_or_not_mask simp del: take_bit_or take_bit_and)

lemma eval_formal:
  "\<not> IsByVal (arg_Flags a) \<Longrightarrow> eval e (formal_value Chain a i) = load32 (dag_mem e) (dag_frame e i)"
  by (simp add: formal_value_def getLoad_def node_value_def getFrameIndex_def)

lemma formal_object:
  assumes "object_extents fi' = rev (map (\<lambda>j. (off j, sz j)) [0 ..< n]) @ object_extents fi"
    and "NumFixedObjects fi' = NumFixedObjects fi + n" "k < n"
  shows "valid_index fi' (formal_index fi k)" "SPOffset (object_at fi' (formal_index fi k)) = off k"
    "Size (object_at fi' (formal_index fi k)) = sz k"
proof -
  have len: "length (Objects fi') = n + length (Objects fi)"
    using arg_cong [OF assms(1), of length] by (simp add: object_extents_def)
  have s: "slot_of fi' (formal_index fi k) = n - 1 - k"
    using assms(2,3) by (simp add: slot_of_def formal_index_def)
  show "valid_index fi' (formal_index fi k)"
    using assms(2,3) len by (simp add: valid_index_def formal_index_def)
  have "object_extents fi' ! (n - 1 - k) = (off k, sz k)"
    unfolding assms(1) using assms(3) by (simp add: nth_append rev_nth)
  then show "SPOffset (object_at fi' (formal_index fi k)) = off k"
    "Size (object_at fi' (formal_index fi k)) = sz k"
    using len assms(3) by (auto simp: object_at_def s object_extents_def)
qed

lemma call_stores_memory:
  assumes "mset order = mset (map (\<lambda>j. arg_memop C (as ! j) (vs ! j) (arg_slot n j)) [0 ..< n])"
    and "\<forall>j < n. \<not> IsByVal (arg_Flags (as ! j))" "n < 2 ^ 29" "k < n"
  shows "load32 (store32 (fold (store_effect e) order m) (dag_reg e F5) ra) (dag_reg e F5 + word_of_int (arg_slot n k))
    = eval e (promoted (as ! k) (vs ! k))"
proof -
  let ?f = "\<lambda>j. arg_memop C (as ! j) (vs ! j) (arg_slot n j)"
  define addr where "addr x = eval e (node_operands (fst x) ! 2)" for x :: sdvalue
  define val where "val x = eval e (node_operands (fst x) ! 1)" for x :: sdvalue
  have f: "addr (?f j) = dag_reg e F5 + word_of_int (arg_slot n j)" "val (?f j) = eval e (promoted (as ! j) (vs ! j))"
    "store_effect e (?f j) m = store32 m (addr (?f j)) (val (?f j))" if "j < n" for j m
    using assms(2) that by (simp_all add: arg_memop_def getStore_def addr_def val_def store_effect_def)
  have sep: "separated (addr (?f i)) (addr (?f j))" if "i < n" "j < n" "i \<noteq> j" for i j
    using arg_slots_separated [OF that assms(3)] that f(1) by simp
  have "inj_on ?f {0 ..< n}"
  proof (rule inj_onI, rule ccontr)
    fix i j assume ij: "i \<in> {0 ..< n}" "j \<in> {0 ..< n}" "?f i = ?f j" "i \<noteq> j"
    then have "separated (addr (?f i)) (addr (?f i))" using sep [of i j] by simp
    then show False by (simp add: not_separated_self)
  qed
  then have "distinct (map ?f [0 ..< n])" by (simp add: distinct_map)
  then have dis: "distinct order" using assms(1) mset_eq_imp_distinct_iff by blast
  have set: "set order = ?f ` {0 ..< n}" using mset_eq_setD [OF assms(1)] by simp
  have "fold (store_effect e) order m = fold (\<lambda>x m. store32 m (addr x) (val x)) order m"
    by (rule fold_cong) (use set f(3) in auto)
  moreover have "separated (addr x) (addr y)" if xy: "x \<in> set order" "y \<in> set order" "x \<noteq> y" for x y
  proof -
    obtain i j where "x = ?f i" "y = ?f j" "i < n" "j < n" using xy(1,2) set by auto
    then show ?thesis using sep [of i j] xy(3) by blast
  qed
  then have "load32 (fold (\<lambda>x m. store32 m (addr x) (val x)) order m) (addr (?f k)) = val (?f k)"
    by (intro load_after_stores) (use set dis assms(4) in auto)
  ultimately show ?thesis
    using f(1,2) [OF assms(4)] load32_separated [OF arg_slot_separated_return [OF assms(4,3)]] by simp
qed

text \<open>
  C3. Arguments reach the callee. Take a call whose arguments are not by-value aggregates, lowered in the
  caller by \<open>LowerCall\<close>, and the same list of arguments lowered in the callee by \<open>LowerFormalArguments\<close>.
  Run the stores that the call is chained to in any order, write the return address at the stack
  pointer, and let the frame indices of the callee denote the stack pointer at its entry plus the
  offset of the object: each argument has, in the callee, the value of the caller's operand, extended
  as its flags say.
\<close>

theorem arguments_reach_callee:
  assumes "LowerCall CLI st = Inr (Chain, CLI', vals, st')"
    and "LowerFormalArguments Chain1 va (cl_Outs CLI) st1 = Inr (Chain1', args, st1')"
    and "word_aligned_stack (mf_Frame st)" "word_aligned_stack (mf_Frame st1)" "length (cl_Outs CLI) < 2 ^ 29"
    and "\<forall>a \<in> set (cl_Outs CLI). \<not> IsByVal (arg_Flags a) \<and> unsigned_size a"
    and "length (cl_OutVals CLI) = length (cl_Outs CLI)"
    and "mset order = mset (call_stores Chain)"
    and "dag_mem e1 = store32 (fold (store_effect e) order (dag_mem e)) (dag_reg e F5) return_address"
    and "\<forall>i off. getObjectOffset (mf_Frame st1') i = Inr off \<longrightarrow> dag_frame e1 i = dag_reg e F5 + word_of_int off"
  shows "length args = length (cl_Outs CLI)
    \<and> (\<forall>k < length (cl_Outs CLI). extended (arg_info (cl_Outs CLI ! k))
        (low_bits (getValueType (cl_OutVals CLI ! k))) (eval e (cl_OutVals CLI ! k)) (eval e1 (args ! k)))"
proof -
  let ?n = "length (cl_Outs CLI)"
  have sz: "arg_object_size (cl_Outs CLI ! k) = 4" "\<not> IsByVal (arg_Flags (cl_Outs CLI ! k))" if "k < ?n" for k
    using assms(6) that by (auto simp: arg_object_size_def)
  note cs = LowerCall_stores [OF assms(1,3,5) _ assms(7)]
  note fa = LowerFormalArguments_eq [OF assms(2,4,5)]
  have nz: "\<forall>a \<in> set (cl_Outs CLI). arg_object_size a \<noteq> 0" using assms(6) by (auto simp: arg_object_size_def)
  have "extended (arg_info (cl_Outs CLI ! k)) (low_bits (getValueType (cl_OutVals CLI ! k)))
      (eval e (cl_OutVals CLI ! k)) (eval e1 (args ! k))" if "k < ?n" for k
  proof -
    let ?i = "formal_index (mf_Frame st1) k"
    note ob = formal_object [OF fa(6) [OF nz] fa(5) [OF nz] that]
    have "getObjectOffset (mf_Frame st1') ?i = Inr (arg_slot ?n k)"
      using ob sz [OF that] by (simp add: getObjectOffset_def get_object_def dead_size_def)
    then have fr: "dag_frame e1 ?i = dag_reg e F5 + word_of_int (arg_slot ?n k)" using assms(10) by blast
    have "eval e1 (args ! k) = eval e (promoted (cl_Outs CLI ! k) (cl_OutVals CLI ! k))"
      using fa(4) [OF nz] that sz(2) [OF that] assms(6,8) sz(2)
      by (simp add: eval_formal fr assms(9) call_stores_memory [OF _ _ assms(5) that] cs(1) call_memops_def)
    then show ?thesis using eval_promoted by metis
  qed
  then show ?thesis using fa(4) [OF nz] by simp
qed

text \<open>
  By-value aggregates are not passed right. The convention gives every argument four bytes, but the
  object that the callee creates for a by-value aggregate has the size of the aggregate and starts at
  the same place: one larger than four bytes overlaps the object of the argument before it.
\<close>

theorem byval_overlaps:
  assumes "LowerFormalArguments Chain va Ins st = Inr (Chain', args, st')"
    and "word_aligned_stack (mf_Frame st)" "length Ins < 2 ^ 29" "\<forall>a \<in> set Ins. arg_object_size a \<noteq> 0"
    and "Suc k < length Ins" "IsByVal (arg_Flags (Ins ! Suc k))" "4 < ByValSize (arg_Flags (Ins ! Suc k))"
    and "arg_object_size (Ins ! k) = 4"
  shows "let i = formal_index (mf_Frame st) k; j = formal_index (mf_Frame st) (Suc k) in
    args ! Suc k = getFrameIndex j PtrVT False
    \<and> args ! k = formal_value Chain (Ins ! k) i
    \<and> bytes_of (object_at (mf_Frame st') i) \<inter> bytes_of (object_at (mf_Frame st') j) \<noteq> {}"
proof -
  note fa = LowerFormalArguments_eq [OF assms(1-4)]
  note o1 = formal_object [OF fa(6,5), of k] and o2 = formal_object [OF fa(6,5) assms(5)]
  have "arg_slot (length Ins) k = arg_slot (length Ins) (Suc k) + 4" by (simp add: arg_slot_def)
  moreover have "arg_object_size (Ins ! Suc k) = ByValSize (arg_Flags (Ins ! Suc k))"
    using assms(6) by (simp add: arg_object_size_def)
  ultimately have "arg_slot (length Ins) k \<in> bytes_of (object_at (mf_Frame st') (formal_index (mf_Frame st) k))
      \<inter> bytes_of (object_at (mf_Frame st') (formal_index (mf_Frame st) (Suc k)))"
    using o1 o2 assms(5,7,8) by (simp add: bytes_of_def)
  moreover have "args ! Suc k = getFrameIndex (formal_index (mf_Frame st) (Suc k)) PtrVT False"
    "args ! k = formal_value Chain (Ins ! k) (formal_index (mf_Frame st) k)"
    using fa(4) assms(5,6) by (simp_all add: formal_value_def)
  ultimately show ?thesis by (auto simp: Let_def)
qed

section \<open>The result comes back\<close>

text \<open>What a return leaves in a register: the value of the last copy to a register on its chain.\<close>

definition returned :: "dag_env \<Rightarrow> sdvalue \<Rightarrow> reg \<Rightarrow> 32 word" where
  "returned e R r = (case find_chain ISD_CopyToReg (fst R) of
     Some n \<Rightarrow> (case node_operands n of
         c # (x, i) # v # _ \<Rightarrow> if getOpcode x = ISD_Register r then eval e v else dag_reg e r
       | _ \<Rightarrow> dag_reg e r)
   | None \<Rightarrow> dag_reg e r)"

lemma analyze_result:
  assumes "analyze_from RetCC_F2003f 0 as (CCState va fi) = Inr st"
  shows "length as \<le> 1 \<and> Locs st = map (\<lambda>a. getReg 0 (arg_VT a) F0 Vi32 (arg_info a)) as"
proof -
  have used: "RetCC_F2003f i (arg_VT a) (arg_VT a) Full (arg_Flags a) st = Inr (True, st)"
    if "F0 \<in> UsedRegs st" for i and a :: io_arg and st
    using that RetCC_F2003f_step RetCC_F2003f_unhandled by (cases "passable a") auto
  show ?thesis
  proof (cases as)
    case (Cons a as')
    then show ?thesis
      using assms used
      by (cases "passable a"; cases as') (auto simp: CCState_def RetCC_F2003f_step RetCC_F2003f_unhandled)
  qed (use assms in \<open>auto simp: CCState_def\<close>)
qed

text \<open>
  C14. The result reaches the caller. When a return is lowered in the callee and the call in the caller, for
  the same result types, there is at most one result, and the value that the caller copies out of the
  register is the value that the callee returned.
\<close>

theorem result_reaches_caller:
  assumes "LowerReturn Chain va Outs OutVals st = Inr (R, st')"
    and "LowerCallResult Chain1 Flag va1 Outs st1 = Inr (Chain1', vals, st1')"
    and "length OutVals = length Outs" "dag_reg e1 F0 = returned e R F0"
  shows "length vals = length Outs \<and> length Outs \<le> 1
    \<and> (\<forall>k < length Outs. eval e1 (vals ! k) = eval e (OutVals ! k))"
proof -
  obtain c1 c2 where c: "analyze_from RetCC_F2003f 0 Outs (CCState va (mf_Frame st)) = Inr c1"
    "analyze_from RetCC_F2003f 0 Outs (CCState va1 (mf_Frame st1)) = Inr c2"
    using assms(1,2) by (auto simp: LowerReturn_def LowerCallResult_def AnalyzeReturn_def AnalyzeCallResult_def bind_result_Inr_iff)
  note a1 = analyze_result [OF c(1)] and a2 = analyze_result [OF c(2)]
  show ?thesis
  proof (cases Outs)
    case Nil
    then show ?thesis
      using assms(2) c(2) a2 by (auto simp: LowerCallResult_def AnalyzeCallResult_def)
  next
    case (Cons a as)
    then have a: "Outs = [a]" using a1 by (cases as) auto
    then obtain v where v: "OutVals = [v]" using assms(3) by (cases OutVals) auto
    have "R = getNode F2003fISD_DOSNUD [VOther] [getCopyToReg Chain F0 v None, getRegister F0 Vi32,
        getValue (getCopyToReg Chain F0 v None) 1]"
      using assms(1) c(1) a v a1 by (auto simp: LowerReturn_def AnalyzeReturn_def Let_def)
    then have "returned e R F0 = eval e v"
      by (simp add: returned_def getCopyToReg_def getNode_def getRegister_def)
    moreover have "eval e1 (vals ! 0) = dag_reg e1 F0" "length vals = 1"
      using assms(2) c(2) a a2
      by (auto simp: LowerCallResult_def AnalyzeCallResult_def Let_def getCopyFromReg_glue_def getValue_def
          getNode_def eval_def node_value_def getRegister_def)
    ultimately show ?thesis using assms(4) a v by simp
  qed
qed

section \<open>Lowered comparisons and addresses\<close>

lemma target_cc: "getConstant (cc_number k) Vi8 True = Inr (getNode (ISD_TargetConstant (cc_number k)) [Vi8] [])"
  by (cases k) (simp_all add: getConstant_def i64_def u64_def)

lemma word_of_take_bit: "word_of_int (take_bit 32 n) = (word_of_int n :: 32 word)"
  by (simp add: word_of_int_eq_iff)

lemma getConstant_value: "getConstant n Vi32 isT = Inr v \<Longrightarrow> eval e v = word_of_int n"
  by (auto simp: getConstant_def Let_def node_value_def word_of_take_bit split: if_splits)

definition well_formed_op :: "sdvalue \<Rightarrow> bool" where
  "well_formed_op Op = (snd Op = 0 \<and>
     (getOpcode (fst Op) \<in> {ISD_SELECT_CC, ISD_BR_CC} \<longrightarrow> length (node_operands (fst Op)) = 5))"

lemma five_operands:
  assumes "length xs = 5"
  obtains a b c d f where "xs = [a, b, c, d, f]"
  using assms by (auto simp: numeral_eq_Suc length_Suc_conv)

text \<open>
  C15. Lowering an operation keeps its meaning. A branch on a comparison is taken in the same cases and to
  the same block; a select, or the address of a global, an external symbol, a block or a jump table,
  has the same value.
\<close>

theorem LowerOperation_sound:
  assumes "LowerOperation Op = Inr Op'" "well_formed_op Op"
  shows "if getOpcode (fst Op) = ISD_BR_CC
    then branch_taken e (fst Op') = branch_taken e (fst Op) \<and> branch_taken e (fst Op) \<noteq> None
      \<and> branch_dest (fst Op') = branch_dest (fst Op) \<and> branch_dest (fst Op) \<noteq> None
    else eval e Op' = eval e Op"
proof -
  obtain op vts vs where O: "Op = (SDNode op vts vs, 0)"
    using assms(2) by (cases Op; cases "fst Op") (auto simp: well_formed_op_def)
  have cc: "eval_isd_cond C x y = Some (eval_cc k x y)" if "getF2003fCC C = Inr k" for C k x y
    using getF2003fCC_eval [OF that] .
  consider (select) "op = ISD_SELECT_CC" | (branch) "op = ISD_BR_CC" | (addr) "op \<notin> {ISD_SELECT_CC, ISD_BR_CC}"
    by blast
  then show ?thesis
  proof cases
    case select
    then have "length vs = 5" using assms(2) O by (simp add: well_formed_op_def)
    then obtain l r t f c where vs: "vs = [l, r, t, f, c]" by (rule five_operands)
    obtain C k where k: "getOpcode (fst c) = ISD_CondCode C" "getF2003fCC C = Inr k"
        "Op' = getNode F2003fISD_SELECT_CC [getValueType Op] [f, t, l, r, getNode (ISD_TargetConstant (cc_number k)) [Vi8] []]"
      using assms(1) select O vs
      by (auto simp: LowerOperation_def LowerSELECT_CC_def getOperand_def bind_result_Inr_iff node_cond_def target_cc
          split: sd_op.splits)
    show ?thesis
      using select O vs k(1) cc [OF k(2)] unfolding k(3)
      by (simp add: node_value_def eval_SDNode)
  next
    case branch
    then have "length vs = 5" using assms(2) O by (simp add: well_formed_op_def)
    then obtain ch c l r d where vs: "vs = [ch, c, l, r, d]" by (rule five_operands)
    obtain C k where k: "getOpcode (fst c) = ISD_CondCode C" "getF2003fCC C = Inr k"
        "Op' = getNode F2003fISD_BR_CC [getValueType Op] [ch, d, l, r, getNode (ISD_TargetConstant (cc_number k)) [Vi8] []]"
      using assms(1) branch O vs
      by (auto simp: LowerOperation_def LowerBR_CC_def getOperand_def bind_result_Inr_iff node_cond_def target_cc
          split: sd_op.splits)
    show ?thesis
      using branch O vs k(1) cc [OF k(2)] unfolding k(3)
      by (simp add: branch_taken_def branch_dest_def)
  next
    case addr
    then show ?thesis
      using assms(1) O getConstant_value
      by (auto simp: LowerOperation_def LowerGlobalAddress_def LowerExternalSymbol_def LowerBlockAddress_def
          LowerJumpTable_def node_value_def eval_SDNode getGlobalAddress_def Let_def i32_def
          bind_result_Inr_iff split: sd_op.splits if_splits)
  qed
qed

text \<open>
  A direct call forgets the offset. When the callee is a global address with an offset, the call goes
  to the global itself.
\<close>

theorem direct_callee_drops_offset:
  assumes "LowerCall CLI st = Inr (Chain, CLI', vals, st')" "cl_Callee CLI = getGlobalAddress g Vi32 off False"
    and "word_aligned_stack (mf_Frame st)" "length (cl_Outs CLI) < 2 ^ 29"
    and "\<forall>a \<in> set (cl_Outs CLI). unsigned_size a" "length (cl_OutVals CLI) = length (cl_Outs CLI)"
  shows "call_target e Chain = dag_symbol e (ISD_GlobalAddress g 0)
    \<and> eval e (cl_Callee CLI) = dag_symbol e (ISD_GlobalAddress g 0) + word_of_int off"
proof -
  have "word_of_int (i32 n) = (word_of_int n :: 32 word)" for n
    by (simp add: word_of_int_eq_iff i32_def take_bit_signed_take_bit)
  then show ?thesis
    using LowerCall_stores(4) [OF assms(1,3-6)] assms(2)
    by (simp add: direct_callee_def getGlobalAddress_def Let_def node_value_def i32_def)
qed

section \<open>A concrete call\<close>

definition entry_token :: sdvalue where
  "entry_token = getNode ISD_EntryToken [VOther] []"

definition sample_mf :: mf_state where
  "sample_mf = \<lparr>mf_Frame = empty_2003f_frame, mf_VRegs = 0, mf_LiveIns = []\<rparr>"

definition sample_call :: call_info where
  "sample_call = \<lparr>cl_Chain = entry_token, cl_Callee = getGlobalAddress ''f'' Vi32 8 False,
     cl_IsTailCall = True, cl_IsVarArg = False, cl_Outs = sample_args,
     cl_OutVals = [getNode (ISD_Constant 7) [Vi32] [], getNode (ISD_Constant 300) [Vi8] []],
     cl_Ins = [\<lparr>arg_VT = Vi32, arg_Flags = no_flags\<rparr>]\<rparr>"

definition sample_env :: "(32 word \<Rightarrow> 8 word) \<Rightarrow> frame_info \<Rightarrow> dag_env" where
  "sample_env m fi = \<lparr>dag_reg = (\<lambda>r. if r = F5 then 1000 else 5), dag_mem = m,
     dag_frame = (\<lambda>i. case getObjectOffset fi i of Inr off \<Rightarrow> 1000 + word_of_int off | Inl _ \<Rightarrow> 0),
     dag_symbol = (\<lambda>op. 64), dag_junk = 0, dag_other = (\<lambda>n i. 0)\<rparr>"

lemma sample_env_simps [simp]:
  "dag_reg (sample_env m fi) F5 = 1000" "dag_mem (sample_env m fi) = m" "dag_symbol (sample_env m fi) op = 64"
  "getObjectOffset fi i = Inr off \<Longrightarrow> dag_frame (sample_env m fi) i = 1000 + word_of_int off"
  by (simp_all add: sample_env_def)

lemma sample_aligned: "word_aligned_stack (mf_Frame sample_mf)"
  by (simp add: sample_mf_def word_aligned_stack_def empty_2003f_frame_def new_frame_info_def)

lemma sample_args_ok:
  "length sample_args = 2" "\<forall>a \<in> set sample_args. \<not> IsByVal (arg_Flags a) \<and> unsigned_size a"
  "\<forall>a \<in> set sample_args. arg_object_size a = 4" "\<forall>a \<in> set sample_args. passable a"
  "arg_info (sample_args ! 1) = ZExt"
  by (simp_all add: sample_args_def no_flags_def unsigned_size_def arg_object_size_def passable_def arg_info_def
      promote_i32_def)

lemma sample_analyzed:
  "\<exists>cc. analyze_from CC_F2003f 0 sample_args (CCState False empty_2003f_frame) = Inr cc"
  using analyze_CC_F2003f [of "CCState False empty_2003f_frame" 0 sample_args 0] sample_args_ok sample_aligned
  by (auto simp: CCState_def sample_mf_def)

lemma sample_result:
  "\<exists>Chain vals st. LowerCallResult c f False (cl_Ins sample_call) st0 = Inr (Chain, vals, st)"
  by (simp add: LowerCallResult_def AnalyzeCallResult_def sample_call_def RetCC_F2003f_def promote_i32_def
      no_flags_def AllocateReg_def isAllocated_def MarkAllocated_def CCState_def addLoc_def Let_def)

lemma sample_lowered: "\<exists>Chain CLI vals st. LowerCall sample_call sample_mf = Inr (Chain, CLI, vals, st)"
proof -
  have "cl_Outs sample_call = sample_args" "length (cl_OutVals sample_call) = 2" "\<not> cl_IsVarArg sample_call"
    by (simp_all add: sample_call_def)
  then have eq: "LowerCall sample_call sample_mf = bind_result
      (LowerCallResult (call_end sample_call (call_begin sample_call))
        (Some (getValue (call_end sample_call (call_begin sample_call)) 1)) False (cl_Ins sample_call)
        (sample_mf\<lparr>mf_Frame := aligned_frame sample_args (mf_Frame sample_mf)\<rparr>))
      (\<lambda>(Chain, vs, st). Inr (Chain, sample_call\<lparr>cl_IsTailCall := False\<rparr>, vs, st))"
    using LowerCall_eq [of sample_mf sample_call] sample_args_ok sample_aligned by simp
  show ?thesis unfolding eq bind_result_triple using sample_result by blast
qed

lemma sample_formals: "\<exists>args st. LowerFormalArguments entry_token False sample_args sample_mf = Inr (entry_token, args, st)"
proof -
  obtain cc where cc: "analyze_from CC_F2003f 0 sample_args (CCState False empty_2003f_frame) = Inr cc"
    using sample_analyzed by blast
  have "word_aligned_stack empty_2003f_frame" using sample_aligned by (simp add: sample_mf_def)
  note an = analyze_args [OF this _ cc]
  have "Locs cc = arg_locs 0 0 sample_args" "StackOffset cc = 8" using an sample_args_ok by simp_all
  then show ?thesis
    using lower_formals_eq [of 0 sample_args 2 entry_token "sample_mf\<lparr>mf_Frame := CCFrame cc\<rparr>"] sample_args_ok cc
    by (auto simp: LowerFormalArguments_def AnalyzeFormalArguments_def sample_mf_def u32_def)
qed

theorem arguments_reach_callee_witness:
  "\<exists>Chain CLI vals st args st1. LowerCall sample_call sample_mf = Inr (Chain, CLI, vals, st)
     \<and> LowerFormalArguments entry_token False sample_args sample_mf = Inr (entry_token, args, st1)
     \<and> eval (sample_env (store32 (fold (store_effect (sample_env (\<lambda>a. 0) empty_2003f_frame)) (rev (call_stores Chain)) (\<lambda>a. 0)) 1000 77)
          (mf_Frame st1)) (args ! 1) = 44"
proof -
  obtain Chain CLI vals st args st1 where l: "LowerCall sample_call sample_mf = Inr (Chain, CLI, vals, st)"
      "LowerFormalArguments entry_token False (cl_Outs sample_call) sample_mf = Inr (entry_token, args, st1)"
    using sample_lowered sample_formals by (auto simp: sample_call_def)
  let ?e = "sample_env (\<lambda>a. 0) empty_2003f_frame"
  let ?e1 = "sample_env (store32 (fold (store_effect ?e) (rev (call_stores Chain)) (\<lambda>a. 0)) 1000 77) (mf_Frame st1)"
  have c: "cl_Outs sample_call = sample_args" "length (cl_OutVals sample_call) = 2" by (simp_all add: sample_call_def)
  have p: "length (cl_Outs sample_call) < 2 ^ 29"
    "\<forall>a \<in> set (cl_Outs sample_call). \<not> IsByVal (arg_Flags a) \<and> unsigned_size a"
    "length (cl_OutVals sample_call) = length (cl_Outs sample_call)"
    "mset (rev (call_stores Chain)) = mset (call_stores Chain)"
    "dag_mem ?e1 = store32 (fold (store_effect ?e) (rev (call_stores Chain)) (dag_mem ?e)) (dag_reg ?e F5) 77"
    "\<forall>i off. getObjectOffset (mf_Frame st1) i = Inr off \<longrightarrow> dag_frame ?e1 i = dag_reg ?e F5 + word_of_int off"
    using sample_args_ok c by simp_all
  have "extended (arg_info (cl_Outs sample_call ! 1)) (low_bits (getValueType (cl_OutVals sample_call ! 1)))
      (eval ?e (cl_OutVals sample_call ! 1)) (eval ?e1 (args ! 1))"
    by (rule arguments_reach_callee [OF l sample_aligned sample_aligned p, THEN conjunct2, rule_format])
      (simp add: c sample_args_ok)
  moreover have "arg_info (cl_Outs sample_call ! 1) = ZExt" using sample_args_ok(5) c(1) by simp
  moreover have "getValueType (cl_OutVals sample_call ! 1) = Vi8" "eval ?e (cl_OutVals sample_call ! 1) = 300"
    by (simp_all add: sample_call_def node_value_def)
  ultimately have "eval ?e1 (args ! 1) = 44" by (simp add: extended_def low_bits_def)
  then show ?thesis using l unfolding c(1) by blast
qed

definition byval_args :: "io_arg list" where
  "byval_args = [\<lparr>arg_VT = Vi32, arg_Flags = no_flags\<rparr>,
     \<lparr>arg_VT = Vi32, arg_Flags = no_flags\<lparr>IsByVal := True, ByValSize := 12, ByValAlign := 3\<rparr>\<rparr>]"

theorem byval_overlaps_witness:
  "\<exists>args st1. LowerFormalArguments entry_token False byval_args sample_mf = Inr (entry_token, args, st1)
     \<and> bytes_of (object_at (mf_Frame st1) (- 1)) \<inter> bytes_of (object_at (mf_Frame st1) (- 2)) \<noteq> {}"
proof -
  have b: "length byval_args = 2" "\<forall>a \<in> set byval_args. passable a" "\<forall>a \<in> set byval_args. arg_object_size a \<noteq> 0"
    "IsByVal (arg_Flags (byval_args ! 1))" "ByValSize (arg_Flags (byval_args ! 1)) = 12" "arg_object_size (byval_args ! 0) = 4"
    by (simp_all add: byval_args_def passable_def arg_object_size_def no_flags_def)
  have al: "word_aligned_stack empty_2003f_frame" using sample_aligned by (simp add: sample_mf_def)
  obtain cc where cc: "analyze_from CC_F2003f 0 byval_args (CCState False empty_2003f_frame) = Inr cc"
    using analyze_CC_F2003f [of "CCState False empty_2003f_frame" 0 byval_args 0] b al by (auto simp: CCState_def)
  note an = analyze_args [OF al _ cc]
  have "Locs cc = arg_locs 0 0 byval_args" "StackOffset cc = 8" using an b by simp_all
  then obtain args st1 where l: "LowerFormalArguments entry_token False byval_args sample_mf = Inr (entry_token, args, st1)"
    using lower_formals_eq [of 0 byval_args 2 entry_token "sample_mf\<lparr>mf_Frame := CCFrame cc\<rparr>"] b cc
    by (auto simp: LowerFormalArguments_def AnalyzeFormalArguments_def sample_mf_def u32_def)
  have "formal_index (mf_Frame sample_mf) 0 = -1" "formal_index (mf_Frame sample_mf) 1 = -2"
    by (simp_all add: formal_index_def sample_mf_def empty_2003f_frame_def new_frame_info_def)
  then show ?thesis
    using byval_overlaps [OF l sample_aligned _ b(3), of 0] b l by (auto simp: Let_def)
qed

theorem result_reaches_caller_witness:
  "\<exists>R st vals Chain st1. LowerReturn entry_token False (cl_Ins sample_call) [getNode (ISD_Constant 9) [Vi32] []] sample_mf = Inr (R, st)
     \<and> LowerCallResult entry_token None False (cl_Ins sample_call) sample_mf = Inr (Chain, vals, st1)
     \<and> eval (sample_env (\<lambda>a. 0) empty_2003f_frame\<lparr>dag_reg := (\<lambda>r. 9)\<rparr>) (vals ! 0) = 9"
proof -
  let ?v = "getNode (ISD_Constant 9) [Vi32] []" and ?e = "sample_env (\<lambda>a. 0) empty_2003f_frame"
  let ?e1 = "?e\<lparr>dag_reg := (\<lambda>r. 9)\<rparr>"
  obtain R st where r: "LowerReturn entry_token False (cl_Ins sample_call) [?v] sample_mf = Inr (R, st)"
      "returned ?e R F0 = 9"
    by (simp add: LowerReturn_def AnalyzeReturn_def sample_call_def RetCC_F2003f_def promote_i32_def
      no_flags_def AllocateReg_def isAllocated_def MarkAllocated_def CCState_def addLoc_def Let_def
      returned_def getCopyToReg_def getNode_def getRegister_def eval_def node_value_def no_aliases_def)
  obtain Chain vals st1 where l: "LowerCallResult entry_token None False (cl_Ins sample_call) sample_mf = Inr (Chain, vals, st1)"
    using sample_result by blast
  have "dag_reg ?e1 F0 = returned ?e R F0" "length [?v] = length (cl_Ins sample_call)"
    using r(2) by (simp_all add: sample_call_def)
  from result_reaches_caller [OF r(1) l this(2) this(1)] have "eval ?e1 (vals ! 0) = eval ?e ?v"
    by (simp add: sample_call_def)
  moreover have "eval ?e ?v = 9" by (simp add: node_value_def)
  ultimately show ?thesis using r l by metis
qed

theorem LowerOperation_sound_witness:
  "\<exists>Op'. LowerOperation (getGlobalAddress ''g'' Vi32 12 False) = Inr Op'
     \<and> eval (sample_env (\<lambda>a. 0) empty_2003f_frame) Op' = 76"
proof -
  let ?Op = "getGlobalAddress ''g'' Vi32 12 False" and ?e = "sample_env (\<lambda>a. 0) empty_2003f_frame"
  have i: "i32 12 = 12" by (simp add: i32_def)
  obtain Op' where l: "LowerOperation ?Op = Inr Op'"
    using getConstant_u32 [of 12 False]
    by (simp add: LowerOperation_def LowerGlobalAddress_def getGlobalAddress_def Let_def i)
  have "well_formed_op ?Op" "getOpcode (fst ?Op) \<noteq> ISD_BR_CC"
    by (simp_all add: well_formed_op_def getGlobalAddress_def Let_def i)
  with LowerOperation_sound [OF l, of ?e] have "eval ?e Op' = eval ?e ?Op" by simp
  also have "\<dots> = 76" by (simp add: getGlobalAddress_def Let_def i node_value_def)
  finally show ?thesis using l by blast
qed

theorem direct_callee_drops_offset_witness:
  "\<exists>Chain CLI vals st. LowerCall sample_call sample_mf = Inr (Chain, CLI, vals, st)
     \<and> call_target (sample_env (\<lambda>a. 0) empty_2003f_frame) Chain = 64
     \<and> eval (sample_env (\<lambda>a. 0) empty_2003f_frame) (cl_Callee sample_call) = 72"
proof -
  obtain Chain CLI vals st where l: "LowerCall sample_call sample_mf = Inr (Chain, CLI, vals, st)"
    using sample_lowered by blast
  have "cl_Callee sample_call = getGlobalAddress ''f'' Vi32 8 False" "cl_Outs sample_call = sample_args"
    "length (cl_OutVals sample_call) = 2"
    by (simp_all add: sample_call_def)
  with direct_callee_drops_offset [OF l this(1) sample_aligned] sample_args_ok l show ?thesis
    by fastforce
qed

end
