(* ===== verification/ISelSelect.thy ===== *)
theory ISelSelect
  imports SelDAG
begin

text \<open>
  \<open>lib/Target/F2003f/F2003fISelDAGToDAG.cpp\<close>: the hand-written part of the instruction selection.
  \<open>SelectAddr\<close> splits an address into the base, the displacement register and the displacement of a
  memory operand; \<open>Select\<close> turns a stack address that no memory operand has taken into the pseudo
  \<open>ATAframe\<close>. The generated matcher (\<open>SelectCode\<close>) and the analysis of known bits
  (\<open>MaskedValueIsZero\<close>) are arguments.

  The theorem is that the three parts add up to the address.
\<close>

section \<open>Address matching\<close>

text \<open>\<open>isa<ConstantSDNode>\<close> and \<open>getSExtValue\<close>.\<close>

definition constant_value :: "sdvalue \<Rightarrow> int option" where
  "constant_value v = (case getOpcode (fst v) of
     ISD_Constant n \<Rightarrow> Some (signed_take_bit (low_bits (getValueType v) - 1) n)
   | ISD_TargetConstant n \<Rightarrow> Some (signed_take_bit (low_bits (getValueType v) - 1) n)
   | _ \<Rightarrow> None)"

definition constant_bits :: "sdvalue \<Rightarrow> int" where
  "constant_bits v = (case getOpcode (fst v) of ISD_Constant n \<Rightarrow> n | ISD_TargetConstant n \<Rightarrow> n | _ \<Rightarrow> 0)"

definition operand :: "sdvalue \<Rightarrow> nat \<Rightarrow> sdvalue result" where
  "operand v i = nth_checked (node_operands (fst v)) i"

definition isBaseWithConstantOffset :: "(sdvalue \<Rightarrow> int \<Rightarrow> bool) \<Rightarrow> sdvalue \<Rightarrow> bool result" where
  "isBaseWithConstantOffset MaskedValueIsZero Op =
     (if getOpcode (fst Op) \<noteq> ISD_ADD \<and> getOpcode (fst Op) \<noteq> ISD_OR then Inr False
      else bind_result (operand Op 1) (\<lambda>c.
        if constant_value c = None then Inr False
        else bind_result (operand Op 0) (\<lambda>b.
          Inr (\<not> (getOpcode (fst Op) = ISD_OR \<and> \<not> MaskedValueIsZero b (constant_bits c))))))"

definition is_wrapper :: "sdvalue \<Rightarrow> bool" where
  "is_wrapper v = (getOpcode (fst v) = F2003fISD_Wrapper)"

text \<open>One operand of a sum is a label: the label becomes the base, the other operand the displacement register.\<close>

definition label_operand :: "sdvalue \<Rightarrow> sdvalue \<Rightarrow> sdvalue \<Rightarrow> sdvalue \<Rightarrow> sdvalue \<Rightarrow> (sdvalue \<times> sdvalue \<times> sdvalue) result" where
  "label_operand x y Base DispReg DispImm =
     (if is_wrapper x then bind_result (operand x 0) (\<lambda>b. Inr (b, y, DispImm))
      else if is_wrapper y then bind_result (operand y 0) (\<lambda>b. Inr (b, x, DispImm))
      else Inr (Base, DispReg, DispImm))"

definition SelectAddr :: "(sdvalue \<Rightarrow> int \<Rightarrow> bool) \<Rightarrow> sdvalue \<Rightarrow> (sdvalue \<times> sdvalue \<times> sdvalue) result" where
  "SelectAddr MaskedValueIsZero N =
     (let vt = getValueType N; no_reg = getRegister NoRegister vt in
      bind_result (getConstant 0 Vi32 True) (\<lambda>zero.
      bind_result (isBaseWithConstantOffset MaskedValueIsZero N) (\<lambda>base_offset.
      if base_offset then
        bind_result (operand N 1) (\<lambda>c.
        let RHSC = i32 (case constant_value c of Some n \<Rightarrow> n | None \<Rightarrow> 0);
            RHSC = (if getOpcode (fst N) = ISD_SUB then i32 (- RHSC) else RHSC) in
        bind_result (getConstant RHSC Vi32 True) (\<lambda>imm.
        bind_result (operand N 0) (\<lambda>Base.
        case getOpcode (fst Base) of
          ISD_FrameIndex i \<Rightarrow> Inr (getFrameIndex i PtrVT True, no_reg, imm)
        | F2003fISD_Wrapper \<Rightarrow> bind_result (operand Base 0) (\<lambda>b. Inr (b, no_reg, imm))
        | ISD_ADD \<Rightarrow>
            bind_result (operand Base 0) (\<lambda>x. bind_result (operand Base 1) (\<lambda>y.
              label_operand x y Base no_reg imm))
        | _ \<Rightarrow> Inr (Base, no_reg, imm))))
      else if getOpcode (fst N) = ISD_ADD then
        bind_result (operand N 0) (\<lambda>x. bind_result (operand N 1) (\<lambda>y.
          label_operand x y x y zero))
      else
        (case getOpcode (fst N) of
          ISD_FrameIndex i \<Rightarrow> Inr (getFrameIndex i PtrVT True, no_reg, zero)
        | F2003fISD_Wrapper \<Rightarrow> bind_result (operand N 0) (\<lambda>b. Inr (b, no_reg, zero))
        | _ \<Rightarrow> Inr (N, no_reg, zero)))))"

section \<open>Selection\<close>

definition Select :: "(sdnode \<Rightarrow> sdnode result) \<Rightarrow> sdnode \<Rightarrow> sdnode result" where
  "Select SelectCode Node = (case getOpcode Node of
     Machine c \<Rightarrow> Inr Node
   | ISD_FrameIndex i \<Rightarrow>
       bind_result (getConstant 0 Vi16 True) (\<lambda>z.
         Inr (fst (getNode (Machine ATAframe) [Vi32] [getFrameIndex i PtrVT True, z])))
   | _ \<Rightarrow> SelectCode Node)"

section \<open>The parts add up to the address\<close>

text \<open>What holds of the nodes of a legal DAG: the number of operands, and constants of pointer type.\<close>

fun dag_ok :: "sdnode \<Rightarrow> bool" where
  "dag_ok (SDNode op vts vs) =
     ((op \<in> {ISD_ADD, ISD_OR} \<longrightarrow> length vs = 2) \<and> (op = F2003fISD_Wrapper \<longrightarrow> length vs = 1)
      \<and> (case op of ISD_Constant n \<Rightarrow> vts = [Vi32] | ISD_TargetConstant n \<Rightarrow> vts = [Vi32] | _ \<Rightarrow> True)
      \<and> list_all (\<lambda>(c, i). i < length (value_types c) \<and> dag_ok c) vs)"

text \<open>\<open>MaskedValueIsZero\<close> only says yes when the bits of the mask are zero in the value.\<close>

definition known_zero_sound :: "dag_env \<Rightarrow> (sdvalue \<Rightarrow> int \<Rightarrow> bool) \<Rightarrow> bool" where
  "known_zero_sound e mvz = (\<forall>v n. mvz v n \<longrightarrow> eval e v AND word_of_int n = 0)"

definition address_sum :: "dag_env \<Rightarrow> sdvalue \<times> sdvalue \<times> sdvalue \<Rightarrow> 32 word" where
  "address_sum e p = (case p of (b, d, i) \<Rightarrow> eval e b + eval e d + eval e i)"

lemma address_sum_simp [simp]: "address_sum e (b, d, i) = eval e b + eval e d + eval e i"
  by (simp add: address_sum_def)

lemma getConstant_i32:
  assumes "- (2 ^ 31) \<le> n" "n < 2 ^ 31"
  shows "getConstant n Vi32 True = Inr (getNode (ISD_TargetConstant (take_bit 32 n)) [Vi32] [])"
proof -
  have "n div 2 ^ 32 = (if n < 0 then -1 else 0)"
  proof (cases "n < 0")
    case True
    then have "n div 2 ^ 32 = -1" using assms by (simp add: div_eq_minus1)
    then show ?thesis using True by simp
  qed (use assms in simp)
  then show ?thesis using assms by (simp add: getConstant_def i64_id u64_mod)
qed

lemma eval_no_reg [simp]: "eval e (getRegister NoRegister vt) = 0"
  by (simp add: getRegister_def node_value_def)

lemma eval_target_frame_index [simp]: "eval e (getFrameIndex i vt b) = dag_frame e i"
  by (simp add: getFrameIndex_def node_value_def)

lemma eval_frame_index: "getOpcode (fst v) = ISD_FrameIndex i \<Longrightarrow> eval e v = dag_frame e i"
  by (cases v; cases "fst v") (simp add: eval_SDNode node_value_def)

lemma eval_constant:
  assumes "constant_value v = Some n" "dag_ok (fst v)" "snd v < length (value_types (fst v))"
  shows "eval e v = word_of_int n" "eval e v = word_of_int (constant_bits v)" "i32 n = n"
proof -
  obtain op vts vs j where v: "v = (SDNode op vts vs, j)" by (cases v; cases "fst v") auto
  have *: "word_of_int (signed_take_bit 31 k) = (word_of_int k :: 32 word)" for k
    by (simp add: word_of_int_eq_iff take_bit_signed_take_bit)
  show "eval e v = word_of_int n" "eval e v = word_of_int (constant_bits v)" "i32 n = n"
    using assms unfolding v
    by (auto simp: constant_value_def constant_bits_def eval_SDNode node_value_def low_bits_def getValueType_def *
        i32_def split: sd_op.splits)
qed

lemma operands_two:
  assumes "dag_ok (fst v)" "getOpcode (fst v) \<in> {ISD_ADD, ISD_OR}"
  obtains a b where "node_operands (fst v) = [a, b]" "dag_ok (fst a)" "dag_ok (fst b)"
    "snd b < length (value_types (fst b))"
  using assms by (cases "fst v") (auto simp: length_Suc_conv numeral_2_eq_2)

lemma operands_one:
  assumes "dag_ok (fst v)" "is_wrapper v"
  obtains a where "node_operands (fst v) = [a]" "eval e v = eval e a"
proof (cases v)
  case (Pair n i)
  then obtain vts vs where "n = SDNode F2003fISD_Wrapper vts vs" "length vs = 1"
    using assms by (cases n) (auto simp: is_wrapper_def)
  then show thesis using Pair that by (auto simp: length_Suc_conv eval_SDNode node_value_def)
qed

lemma eval_add:
  "getOpcode (fst v) = ISD_ADD \<Longrightarrow> node_operands (fst v) = [a, b] \<Longrightarrow> eval e v = eval e a + eval e b"
  by (cases v; cases "fst v") (auto simp: eval_SDNode node_value_def)

lemma eval_or:
  "getOpcode (fst v) = ISD_OR \<Longrightarrow> node_operands (fst v) = [a, b] \<Longrightarrow> eval e v = eval e a OR eval e b"
  by (cases v; cases "fst v") (auto simp: eval_SDNode node_value_def)

lemma or_is_add: "a AND b = 0 \<Longrightarrow> a OR b = a + (b :: 32 word)"
  by (rule disjunctive_add [symmetric]) (metis bit_and_iff bit_0_eq bot_apply bot_bool_def)

lemma wrapped_operand:
  assumes "is_wrapper v" "dag_ok (fst v)"
  shows "\<exists>a. operand v 0 = Inr a \<and> eval e v = eval e a"
  using operands_one [OF assms(2,1)] by (metis length_Cons zero_less_Suc nth_Cons_0 nth_checked_Inr operand_def)

lemma label_operand_sum:
  assumes "dag_ok (fst x)" "dag_ok (fst y)" "eval e b + eval e d = eval e x + eval e y"
  shows "\<exists>p. label_operand x y b d i = Inr p \<and> address_sum e p = eval e x + eval e y + eval e i"
  using wrapped_operand [OF _ assms(1), of e] wrapped_operand [OF _ assms(2), of e] assms(3)
  by (auto simp: label_operand_def add.commute add.left_commute simp del: split_paired_Ex split: if_splits)

lemma add_operands:
  assumes "dag_ok (fst v)" "getOpcode (fst v) = ISD_ADD"
  obtains a b where "operand v 0 = Inr a" "operand v 1 = Inr b" "dag_ok (fst a)" "dag_ok (fst b)"
    "eval e v = eval e a + eval e b"
proof -
  obtain a b where "node_operands (fst v) = [a, b]" "dag_ok (fst a)" "dag_ok (fst b)"
    using operands_two [OF assms(1)] assms(2) by blast
  then show thesis using eval_add [OF assms(2)] by (intro that [of a b]) (simp_all add: operand_def)
qed

lemma eval_base_offset:
  assumes "isBaseWithConstantOffset mvz N = Inr True" "dag_ok (fst N)" "known_zero_sound e mvz"
  obtains a c n where "operand N 0 = Inr a" "operand N 1 = Inr c" "constant_value c = Some n" "i32 n = n" "dag_ok (fst a)"
    "eval e N = eval e a + word_of_int n"
proof -
  have op: "getOpcode (fst N) \<in> {ISD_ADD, ISD_OR}"
    using assms(1) by (auto simp: isBaseWithConstantOffset_def split: if_splits)
  obtain a c where ac: "node_operands (fst N) = [a, c]" "dag_ok (fst a)" "dag_ok (fst c)"
      "snd c < length (value_types (fst c))"
    using operands_two [OF assms(2) op] .
  then have o: "operand N 0 = Inr a" "operand N 1 = Inr c" by (simp_all add: operand_def)
  then obtain n where n: "constant_value c = Some n" "getOpcode (fst N) = ISD_OR \<longrightarrow> mvz a (constant_bits c)"
    using assms(1) by (auto simp: isBaseWithConstantOffset_def split: if_splits)
  note c = eval_constant [OF n(1) ac(3,4)]
  have "eval e N = eval e a + word_of_int n"
  proof (cases "getOpcode (fst N) = ISD_ADD")
    case False
    then have r: "getOpcode (fst N) = ISD_OR" using op by simp
    have "eval e a AND eval e c = 0"
      using n(2) r assms(3) c(2) unfolding known_zero_sound_def by metis
    then show ?thesis using eval_or [OF r ac(1)] or_is_add c(1) by simp
  qed (use eval_add [OF _ ac(1)] c(1) in simp)
  then show thesis using that o n(1) c(3) ac(2) by blast
qed

lemma i32_range: "i32 n = n \<Longrightarrow> - (2 ^ 31) \<le> n \<and> n < 2 ^ 31"
  by (metis i32_def signed_take_bit_int_less_exp signed_take_bit_int_greater_eq_minus_exp)

text \<open>
  C21. Address matching is sound. On the nodes of a legal DAG, with a sound analysis of known bits,
  \<open>SelectAddr\<close> succeeds, and the base, the displacement register and the displacement that it returns
  add up to the address, modulo \<open>2 ^ 32\<close>.
\<close>

theorem SelectAddr_sound:
  assumes "dag_ok (fst N)" "known_zero_sound e mvz"
  shows "\<exists>p. SelectAddr mvz N = Inr p \<and> address_sum e p = eval e N"
proof -
  note [simp del] = split_paired_Ex eval_getNode
  let ?zero = "getNode (ISD_TargetConstant 0) [Vi32] []"
  have zero: "getConstant 0 Vi32 True = Inr ?zero" "eval e ?zero = 0"
    by (simp_all add: getConstant_i32 eval_getNode node_value_def)
  have "\<exists>b. isBaseWithConstantOffset mvz N = Inr b"
  proof (cases "getOpcode (fst N) \<in> {ISD_ADD, ISD_OR}")
    case True
    then show ?thesis
      by (rule operands_two [OF assms(1)]) (auto simp: isBaseWithConstantOffset_def operand_def)
  qed (auto simp: isBaseWithConstantOffset_def)
  then obtain b where b: "isBaseWithConstantOffset mvz N = Inr b" ..
  consider (base) "b" | (add) "\<not> b" "getOpcode (fst N) = ISD_ADD" | (leaf) "\<not> b" "getOpcode (fst N) \<noteq> ISD_ADD"
    by blast
  then show ?thesis
  proof cases
    case base
    then obtain a c n where s: "operand N 0 = Inr a" "operand N 1 = Inr c" "constant_value c = Some n" "i32 n = n"
        "dag_ok (fst a)" "eval e N = eval e a + word_of_int n"
      using eval_base_offset [OF _ assms] b by metis
    let ?imm = "getNode (ISD_TargetConstant (take_bit 32 n)) [Vi32] []"
    have imm: "getConstant n Vi32 True = Inr ?imm" "eval e ?imm = word_of_int n"
      using i32_range [OF s(4)] by (simp_all add: getConstant_i32 eval_getNode node_value_def word_of_int_eq_iff)
    have "getOpcode (fst N) \<noteq> ISD_SUB" using b base by (auto simp: isBaseWithConstantOffset_def)
    note start = b [simplified] base this s zero imm
    consider (frame) i where "getOpcode (fst a) = ISD_FrameIndex i" | (label) "is_wrapper a" | (sum) "getOpcode (fst a) = ISD_ADD"
      | (other) "\<forall>i. getOpcode (fst a) \<noteq> ISD_FrameIndex i" "\<not> is_wrapper a" "getOpcode (fst a) \<noteq> ISD_ADD"
      by blast
    then show ?thesis
    proof cases
      case frame
      then show ?thesis using start by (simp add: SelectAddr_def Let_def eval_frame_index)
    next
      case label
      then show ?thesis
        using start wrapped_operand [OF label s(5), of e] by (auto simp: SelectAddr_def Let_def is_wrapper_def)
    next
      case sum
      obtain x y where xy: "operand a 0 = Inr x" "operand a 1 = Inr y" "dag_ok (fst x)" "dag_ok (fst y)"
          "eval e a = eval e x + eval e y"
        using add_operands [OF s(5) sum, of e] by metis
      then show ?thesis
        using start sum label_operand_sum [OF xy(3,4), of e a "getRegister NoRegister (getValueType N)" ?imm]
        by (simp add: SelectAddr_def Let_def)
    next
      case other
      then show ?thesis
        using start by (auto simp: SelectAddr_def Let_def is_wrapper_def split: sd_op.splits)
    qed
  next
    case add
    obtain x y where xy: "operand N 0 = Inr x" "operand N 1 = Inr y" "dag_ok (fst x)" "dag_ok (fst y)"
        "eval e N = eval e x + eval e y"
      using add_operands [OF assms(1) add(2), of e] by metis
    then show ?thesis
      using b add zero label_operand_sum [OF xy(3,4), of e x y ?zero] by (simp add: SelectAddr_def Let_def)
  next
    case leaf
    then show ?thesis
      using b zero wrapped_operand [OF _ assms(1), of e]
      by (auto simp: SelectAddr_def Let_def is_wrapper_def eval_frame_index split: sd_op.splits)
  qed
qed

text \<open>A stack address that is not part of a memory operand keeps its value as an \<open>ATAframe\<close>.\<close>

lemma Select_frame_index:
  "\<exists>n. Select sc (fst (getFrameIndex i Vi32 False)) = Inr n \<and> eval e (n, 0) = dag_frame e i"
  by (simp add: Select_def getFrameIndex_def getConstant_def i64_def u64_def eval_SDNode node_value_def)

text \<open>Known bits of a constant, enough to match an \<open>or\<close> of two constants.\<close>

definition constant_zero_bits :: "sdvalue \<Rightarrow> int \<Rightarrow> bool" where
  "constant_zero_bits v n = (case getOpcode (fst v) of
     ISD_Constant k \<Rightarrow> word_of_int k AND word_of_int n = (0 :: 32 word) | _ \<Rightarrow> False)"

lemma constant_zero_bits_sound: "known_zero_sound e constant_zero_bits"
  unfolding known_zero_sound_def
proof (intro allI impI)
  fix v :: sdvalue and n
  assume "constant_zero_bits v n"
  then show "eval e v AND word_of_int n = 0"
    by (cases v; cases "fst v") (auto simp: constant_zero_bits_def eval_SDNode node_value_def split: sd_op.splits)
qed

theorem SelectAddr_sound_witness:
  "\<exists>p. SelectAddr constant_zero_bits (getNode ISD_OR [Vi32]
       [getNode (ISD_Constant 16) [Vi32] [], getNode (ISD_Constant 3) [Vi32] []]) = Inr p
     \<and> (\<forall>e. address_sum e p = 19)"
proof -
  let ?N = "getNode ISD_OR [Vi32] [getNode (ISD_Constant 16) [Vi32] [], getNode (ISD_Constant 3) [Vi32] []]"
  have ok: "dag_ok (fst ?N)" by (simp add: getNode_def)
  have v: "eval e ?N = 19" for e by (simp add: node_value_def)
  have *: "\<exists>p. SelectAddr constant_zero_bits ?N = Inr p \<and> address_sum e p = 19" for e
    using SelectAddr_sound [OF ok constant_zero_bits_sound, of e] by (simp only: v)
  then obtain p where p: "SelectAddr constant_zero_bits ?N = Inr p" by blast
  have "address_sum e p = 19" for e using * [of e] unfolding p by auto
  with p show ?thesis by blast
qed

end
