(* ===== verification/ConstantRange.thy ===== *)
theory ConstantRange
  imports Prelude
begin

text \<open>
  \<open>lib/IR/ConstantRange.cpp\<close> with \<open>include/llvm/IR/ConstantRange.h\<close>: a range of values of an integer type,
  \<open>[Lower, Upper)\<close>, which may wrap around the end. The bit width of an \<open>APInt\<close> is the length of the word
  type, so the assertions that two widths agree hold by typing; the constructor's other assertion is
  kept, and an operation that can reach it returns a \<open>result\<close>. The two ends equal mean the full set at
  the maximal value and the empty set at zero. The shifts, comparisons and extrema of \<open>APInt\<close> are those
  of words.

  The arithmetic of ranges is in \<open>RangeArith\<close>; printing is not modelled.
\<close>

section \<open>Ranges\<close>

record (overloaded) 'a constant_range =
  Lower :: "'a::len word"
  Upper :: "'a word"

definition CR :: "'a::len word \<Rightarrow> 'a word \<Rightarrow> 'a constant_range" where
  "CR L U = \<lparr>Lower = L, Upper = U\<rparr>"

lemma CR_simps [simp]: "Lower (CR L U) = L" "Upper (CR L U) = U"
  by (simp_all add: CR_def)

text \<open>The extreme values of a width, unsigned and signed.\<close>

abbreviation MaxValue :: "'a::len word" where "MaxValue \<equiv> - 1"

definition SignedMinValue :: "'a::len word" where
  "SignedMinValue = push_bit (LENGTH('a) - 1) 1"

definition SignedMaxValue :: "'a::len word" where
  "SignedMaxValue = SignedMinValue - 1"

definition full_or_empty :: "bool \<Rightarrow> 'a::len constant_range" where
  "full_or_empty Full = (if Full then CR MaxValue MaxValue else CR 0 0)"

definition single_value :: "'a::len word \<Rightarrow> 'a constant_range" where
  "single_value V = CR V (V + 1)"

definition from_bounds :: "'a::len word \<Rightarrow> 'a word \<Rightarrow> 'a constant_range result" where
  "from_bounds L U = (if L \<noteq> U \<or> L = MaxValue \<or> L = 0 then Inr (CR L U) else Inl AssertFailed)"

definition isFullSet :: "'a::len constant_range \<Rightarrow> bool" where
  "isFullSet R = (Lower R = Upper R \<and> Lower R = MaxValue)"

definition isEmptySet :: "'a::len constant_range \<Rightarrow> bool" where
  "isEmptySet R = (Lower R = Upper R \<and> Lower R = 0)"

definition isWrappedSet :: "'a::len constant_range \<Rightarrow> bool" where
  "isWrappedSet R = (Lower R > Upper R)"

definition contains :: "'a::len constant_range \<Rightarrow> 'a word \<Rightarrow> bool" where
  "contains R V =
     (if Lower R = Upper R then isFullSet R
      else if \<not> isWrappedSet R then Lower R \<le> V \<and> V < Upper R
      else Lower R \<le> V \<or> V < Upper R)"

definition isSignWrappedSet :: "'a::len constant_range \<Rightarrow> bool" where
  "isSignWrappedSet R = (contains R SignedMaxValue \<and> contains R SignedMinValue)"

definition getSingleElement :: "'a::len constant_range \<Rightarrow> 'a word option" where
  "getSingleElement R = (if Upper R = Lower R + 1 then Some (Lower R) else None)"

definition getSingleMissingElement :: "'a::len constant_range \<Rightarrow> 'a word option" where
  "getSingleMissingElement R = (if Lower R = Upper R + 1 then Some (Upper R) else None)"

definition isSingleElement :: "'a::len constant_range \<Rightarrow> bool" where
  "isSingleElement R = (getSingleElement R \<noteq> None)"

text \<open>The size has one bit more than the values.\<close>

definition getSetSize :: "'a::len constant_range \<Rightarrow> nat" where
  "getSetSize R = (if isFullSet R then 2 ^ LENGTH('a) else unat (Upper R - Lower R))"

definition isSizeStrictlySmallerThan :: "'a::len constant_range \<Rightarrow> 'a constant_range \<Rightarrow> bool" where
  "isSizeStrictlySmallerThan R Other =
     (if isFullSet R then False
      else if isFullSet Other then True
      else Upper R - Lower R < Upper Other - Lower Other)"

definition isSizeLargerThan :: "'a::len constant_range \<Rightarrow> int \<Rightarrow> bool result" where
  "isSizeLargerThan R MaxSize =
     (if MaxSize = 0 then Inl AssertFailed
      else if isFullSet R then Inr (uint (MaxValue :: 'a word) > MaxSize - 1)
      else Inr (uint (Upper R - Lower R) > MaxSize))"

definition getUnsignedMax :: "'a::len constant_range \<Rightarrow> 'a word" where
  "getUnsignedMax R = (if isFullSet R \<or> isWrappedSet R then MaxValue else Upper R - 1)"

definition getUnsignedMin :: "'a::len constant_range \<Rightarrow> 'a word" where
  "getUnsignedMin R = (if isFullSet R \<or> isWrappedSet R \<and> Upper R \<noteq> 0 then 0 else Lower R)"

definition getSignedMax :: "'a::len constant_range \<Rightarrow> 'a word" where
  "getSignedMax R = (if isFullSet R \<or> Upper R <s Lower R then SignedMaxValue else Upper R - 1)"

definition getSignedMin :: "'a::len constant_range \<Rightarrow> 'a word" where
  "getSignedMin R =
     (if isFullSet R \<or> Upper R <s Lower R \<and> Upper R \<noteq> SignedMinValue then SignedMinValue else Lower R)"

definition contains_range :: "'a::len constant_range \<Rightarrow> 'a constant_range \<Rightarrow> bool" where
  "contains_range R Other =
     (if isFullSet R \<or> isEmptySet Other then True
      else if isEmptySet R \<or> isFullSet Other then False
      else if \<not> isWrappedSet R then
        (if isWrappedSet Other then False
         else Lower R \<le> Lower Other \<and> Upper Other \<le> Upper R)
      else if \<not> isWrappedSet Other then Upper Other \<le> Upper R \<or> Lower R \<le> Lower Other
      else Upper Other \<le> Upper R \<and> Lower R \<le> Lower Other)"

definition subtract :: "'a::len constant_range \<Rightarrow> 'a word \<Rightarrow> 'a constant_range result" where
  "subtract R Val = (if Lower R = Upper R then Inr R else from_bounds (Lower R - Val) (Upper R - Val))"

definition inverse_range :: "'a::len constant_range \<Rightarrow> 'a constant_range result" where
  "inverse_range R =
     (if isFullSet R then Inr (full_or_empty False)
      else if isEmptySet R then Inr (full_or_empty True)
      else from_bounds (Upper R) (Lower R))"

section \<open>Intersection and union\<close>

text \<open>Both call themselves once with the operands swapped, so that a wrapped operand comes first.\<close>

function intersectWith :: "'a::len constant_range \<Rightarrow> 'a constant_range \<Rightarrow> 'a constant_range result" where
  "intersectWith R C =
     (if isEmptySet R \<or> isFullSet C then Inr R
      else if isEmptySet C \<or> isFullSet R then Inr C
      else if \<not> isWrappedSet R \<and> isWrappedSet C then intersectWith C R
      else if \<not> isWrappedSet R \<and> \<not> isWrappedSet C then
        (if Lower R < Lower C then
           (if Upper R \<le> Lower C then Inr (full_or_empty False)
            else if Upper R < Upper C then from_bounds (Lower C) (Upper R)
            else Inr C)
         else if Upper R < Upper C then Inr R
         else if Lower R < Upper C then from_bounds (Lower R) (Upper C)
         else Inr (full_or_empty False))
      else if isWrappedSet R \<and> \<not> isWrappedSet C then
        (if Lower C < Upper R then
           (if Upper C < Upper R then Inr C
            else if Upper C \<le> Lower R then from_bounds (Lower C) (Upper R)
            else if isSizeStrictlySmallerThan R C then Inr R
            else Inr C)
         else if Lower C < Lower R then
           (if Upper C \<le> Lower R then Inr (full_or_empty False)
            else from_bounds (Lower R) (Upper C))
         else Inr C)
      else if Upper C < Upper R then
        (if Lower C < Upper R then (if isSizeStrictlySmallerThan R C then Inr R else Inr C)
         else if Lower C < Lower R then from_bounds (Lower R) (Upper C)
         else Inr C)
      else if Upper C \<le> Lower R then
        (if Lower C < Lower R then Inr R else from_bounds (Lower C) (Upper R))
      else if isSizeStrictlySmallerThan R C then Inr R
      else Inr C)"
  by pat_completeness auto

termination intersectWith
  by (relation "measure (\<lambda>(R, C). if \<not> isWrappedSet R \<and> isWrappedSet C then 1 else 0)") auto

function unionWith :: "'a::len constant_range \<Rightarrow> 'a constant_range \<Rightarrow> 'a constant_range result" where
  "unionWith R C =
     (if isFullSet R \<or> isEmptySet C then Inr R
      else if isFullSet C \<or> isEmptySet R then Inr C
      else if \<not> isWrappedSet R \<and> isWrappedSet C then unionWith C R
      else if \<not> isWrappedSet R \<and> \<not> isWrappedSet C then
        (if Upper C < Lower R \<or> Upper R < Lower C then
           (let d1 = Lower C - Upper R; d2 = Lower R - Upper C in
            if d1 < d2 then from_bounds (Lower R) (Upper C) else from_bounds (Lower C) (Upper R))
         else
           (let L = (if Lower C < Lower R then Lower C else Lower R);
                U = (if Upper C - 1 > Upper R - 1 then Upper C else Upper R) in
            if L = 0 \<and> U = 0 then Inr (full_or_empty True) else from_bounds L U))
      else if \<not> isWrappedSet C then
        (if Upper C \<le> Upper R \<or> Lower C \<ge> Lower R then Inr R
         else if Lower C \<le> Upper R \<and> Lower R \<le> Upper C then Inr (full_or_empty True)
         else if Upper R \<le> Lower C \<and> Upper C \<le> Lower R then
           (let d1 = Lower C - Upper R; d2 = Lower R - Upper C in
            if d1 < d2 then from_bounds (Lower R) (Upper C) else from_bounds (Lower C) (Upper R))
         else if Upper R < Lower C \<and> Lower R < Upper C then from_bounds (Lower C) (Upper R)
         else if \<not> (Lower C < Upper R \<and> Upper C < Lower R) then Inl AssertFailed
         else from_bounds (Lower R) (Upper C))
      else if Lower C \<le> Upper R \<or> Lower R \<le> Upper C then Inr (full_or_empty True)
      else
        (let L = (if Lower C < Lower R then Lower C else Lower R);
             U = (if Upper C > Upper R then Upper C else Upper R) in
         from_bounds L U))"
  by pat_completeness auto

termination unionWith
  by (relation "measure (\<lambda>(R, C). if \<not> isWrappedSet R \<and> isWrappedSet C then 1 else 0)") auto

declare intersectWith.simps [simp del] unionWith.simps [simp del]

definition difference :: "'a::len constant_range \<Rightarrow> 'a constant_range \<Rightarrow> 'a constant_range result" where
  "difference R C = bind_result (inverse_range C) (intersectWith R)"

text \<open>The ranges of a \<open>range\<close> metadata node: a list of pairs, at least one.\<close>

fun union_all :: "('a::len word \<times> 'a word) list \<Rightarrow> 'a constant_range \<Rightarrow> 'a constant_range result" where
  "union_all [] R = Inr R"
| "union_all ((Low, High) # rs) R =
     bind_result (from_bounds Low High) (\<lambda>C. bind_result (unionWith R C) (union_all rs))"

definition getConstantRangeFromMetadata :: "('a::len word \<times> 'a word) list \<Rightarrow> 'a constant_range result" where
  "getConstantRangeFromMetadata rs = (case rs of
     [] \<Rightarrow> Inl AssertFailed
   | (FirstLow, FirstHigh) # rs' \<Rightarrow> bind_result (from_bounds FirstLow FirstHigh) (union_all rs'))"

section \<open>Comparisons\<close>

text \<open>The integer predicates of \<open>CmpInst\<close>, with their meaning.\<close>

datatype icmp_pred = ICMP_EQ | ICMP_NE | ICMP_UGT | ICMP_UGE | ICMP_ULT | ICMP_ULE
  | ICMP_SGT | ICMP_SGE | ICMP_SLT | ICMP_SLE

fun icmp :: "icmp_pred \<Rightarrow> 'a::len word \<Rightarrow> 'a word \<Rightarrow> bool" where
  "icmp ICMP_EQ x y = (x = y)"
| "icmp ICMP_NE x y = (x \<noteq> y)"
| "icmp ICMP_UGT x y = (y < x)"
| "icmp ICMP_UGE x y = (y \<le> x)"
| "icmp ICMP_ULT x y = (x < y)"
| "icmp ICMP_ULE x y = (x \<le> y)"
| "icmp ICMP_SGT x y = (y <s x)"
| "icmp ICMP_SGE x y = (y \<le>s x)"
| "icmp ICMP_SLT x y = (x <s y)"
| "icmp ICMP_SLE x y = (x \<le>s y)"

fun getInversePredicate :: "icmp_pred \<Rightarrow> icmp_pred" where
  "getInversePredicate ICMP_EQ = ICMP_NE"
| "getInversePredicate ICMP_NE = ICMP_EQ"
| "getInversePredicate ICMP_UGT = ICMP_ULE"
| "getInversePredicate ICMP_ULT = ICMP_UGE"
| "getInversePredicate ICMP_UGE = ICMP_ULT"
| "getInversePredicate ICMP_ULE = ICMP_UGT"
| "getInversePredicate ICMP_SGT = ICMP_SLE"
| "getInversePredicate ICMP_SLT = ICMP_SGE"
| "getInversePredicate ICMP_SGE = ICMP_SLT"
| "getInversePredicate ICMP_SLE = ICMP_SGT"

definition makeAllowedICmpRegion :: "icmp_pred \<Rightarrow> 'a::len constant_range \<Rightarrow> 'a constant_range result" where
  "makeAllowedICmpRegion Pred C =
     (if isEmptySet C then Inr C
      else case Pred of
        ICMP_EQ \<Rightarrow> Inr C
      | ICMP_NE \<Rightarrow>
          if isSingleElement C then from_bounds (Upper C) (Lower C) else Inr (full_or_empty True)
      | ICMP_ULT \<Rightarrow>
          let UMax = getUnsignedMax C in
          if UMax = 0 then Inr (full_or_empty False) else from_bounds 0 UMax
      | ICMP_SLT \<Rightarrow>
          let SMax = getSignedMax C in
          if SMax = SignedMinValue then Inr (full_or_empty False) else from_bounds SignedMinValue SMax
      | ICMP_ULE \<Rightarrow>
          let UMax = getUnsignedMax C in
          if UMax = MaxValue then Inr (full_or_empty True) else from_bounds 0 (UMax + 1)
      | ICMP_SLE \<Rightarrow>
          let SMax = getSignedMax C in
          if SMax = SignedMaxValue then Inr (full_or_empty True) else from_bounds SignedMinValue (SMax + 1)
      | ICMP_UGT \<Rightarrow>
          let UMin = getUnsignedMin C in
          if UMin = MaxValue then Inr (full_or_empty False) else from_bounds (UMin + 1) 0
      | ICMP_SGT \<Rightarrow>
          let SMin = getSignedMin C in
          if SMin = SignedMaxValue then Inr (full_or_empty False) else from_bounds (SMin + 1) SignedMinValue
      | ICMP_UGE \<Rightarrow>
          let UMin = getUnsignedMin C in
          if UMin = 0 then Inr (full_or_empty True) else from_bounds UMin 0
      | ICMP_SGE \<Rightarrow>
          let SMin = getSignedMin C in
          if SMin = SignedMinValue then Inr (full_or_empty True) else from_bounds SMin SignedMinValue)"

definition makeSatisfyingICmpRegion :: "icmp_pred \<Rightarrow> 'a::len constant_range \<Rightarrow> 'a constant_range result" where
  "makeSatisfyingICmpRegion Pred C =
     bind_result (makeAllowedICmpRegion (getInversePredicate Pred) C) inverse_range"

definition makeExactICmpRegion :: "icmp_pred \<Rightarrow> 'a::len word \<Rightarrow> 'a constant_range result" where
  "makeExactICmpRegion Pred C =
     bind_result (makeAllowedICmpRegion Pred (single_value C)) (\<lambda>allowed.
     bind_result (makeSatisfyingICmpRegion Pred (single_value C)) (\<lambda>satisfying.
       if allowed = satisfying then Inr allowed else Inl AssertFailed))"

text \<open>\<open>None\<close> is the return value false.\<close>

definition getEquivalentICmp :: "'a::len constant_range \<Rightarrow> (icmp_pred \<times> 'a word) option result" where
  "getEquivalentICmp R =
     (let found =
        (if isFullSet R \<or> isEmptySet R then Some (if isEmptySet R then ICMP_ULT else ICMP_UGE, 0)
         else if getSingleElement R \<noteq> None then Some (ICMP_EQ, the (getSingleElement R))
         else if getSingleMissingElement R \<noteq> None then Some (ICMP_NE, the (getSingleMissingElement R))
         else if Lower R = SignedMinValue \<or> Lower R = 0
         then Some (if Lower R = SignedMinValue then ICMP_SLT else ICMP_ULT, Upper R)
         else if Upper R = SignedMinValue \<or> Upper R = 0
         then Some (if Upper R = SignedMinValue then ICMP_SGE else ICMP_UGE, Lower R)
         else None) in
      case found of
        None \<Rightarrow> Inr None
      | Some (Pred, RHS) \<Rightarrow> bind_result (makeExactICmpRegion Pred RHS) (\<lambda>X.
          if X = R then Inr (Some (Pred, RHS)) else Inl AssertFailed))"

section \<open>The set of values of a range\<close>

definition gamma :: "'a::len constant_range \<Rightarrow> 'a word set" where
  "gamma R = {v. contains R v}"

definition cr_ok :: "'a::len constant_range \<Rightarrow> bool" where
  "cr_ok R = (Lower R \<noteq> Upper R \<or> isFullSet R \<or> isEmptySet R)"

text \<open>An operation that returns a well-formed range with property \<open>P\<close>.\<close>

definition returns :: "('a::len constant_range \<Rightarrow> bool) \<Rightarrow> 'a constant_range result \<Rightarrow> bool" where
  "returns P r = (case r of Inr X \<Rightarrow> cr_ok X \<and> P X | Inl e \<Rightarrow> False)"

lemma returns_Inr [simp]: "returns P (Inr X) \<longleftrightarrow> cr_ok X \<and> P X"
  by (simp add: returns_def)

lemma returnsE:
  assumes "returns P r"
  obtains X where "r = Inr X" "cr_ok X" "P X"
  using assms by (auto simp: returns_def split: sum.splits)

lemma returns_bind:
  "returns Q r \<Longrightarrow> (\<And>X. cr_ok X \<Longrightarrow> Q X \<Longrightarrow> returns P (f X)) \<Longrightarrow> returns P (bind_result r f)"
  by (auto elim: returnsE)

lemma returns_mono: "returns P r \<Longrightarrow> (\<And>X. cr_ok X \<Longrightarrow> P X \<Longrightarrow> Q X) \<Longrightarrow> returns Q r"
  by (auto elim!: returnsE)

lemma returns_from_bounds: "L \<noteq> U \<Longrightarrow> P (CR L U) \<Longrightarrow> returns P (from_bounds L U)"
  by (simp add: from_bounds_def cr_ok_def)

lemma cr_ok_full_or_empty [simp]: "cr_ok (full_or_empty b)"
  by (simp add: full_or_empty_def cr_ok_def isFullSet_def isEmptySet_def)

lemma cr_ok_single [simp]: "cr_ok (single_value v)"
  by (simp add: single_value_def cr_ok_def)

lemma contains_full_or_empty [simp]: "contains (full_or_empty b) v = b"
  by (simp add: full_or_empty_def contains_def isFullSet_def)

lemma isFullSet_full [simp]: "isFullSet (full_or_empty b) = b"
  "isEmptySet (full_or_empty b) = (\<not> b)"
  by (simp_all add: full_or_empty_def isFullSet_def isEmptySet_def)

lemma contains_full: "isFullSet R \<Longrightarrow> contains R v"
  by (auto simp: contains_def isFullSet_def)

lemma contains_empty: "isEmptySet R \<Longrightarrow> \<not> contains R v"
  by (auto simp: contains_def isFullSet_def isEmptySet_def)

lemma uneven_ends: "cr_ok R \<Longrightarrow> \<not> isFullSet R \<Longrightarrow> \<not> isEmptySet R \<Longrightarrow> Lower R \<noteq> Upper R"
  by (simp add: cr_ok_def)

lemmas word_order_nat = word_less_nat_alt word_le_nat_alt word_unat_eq_iff

lemma contains_offset:
  fixes v :: "'a::len word"
  assumes "Lower R \<noteq> Upper R"
  shows "contains R v \<longleftrightarrow> v - Lower R < Upper R - Lower R"
proof -
  define N :: nat where "N = 2 ^ LENGTH('a)"
  have N: "unat x < N" for x :: "'a word" by (simp add: N_def)
  have sub: "unat (x - y) = (if unat y \<le> unat x then unat x - unat y else unat x + N - unat y)"
    for x y :: "'a word" by (simp add: unat_sub_if' N_def)
  show ?thesis
    using assms N [of v] N [of "Upper R"] N [of "Lower R"]
    by (auto simp: contains_def isWrappedSet_def word_order_nat sub)
qed

lemma contains_single [simp]: "contains (single_value v) w \<longleftrightarrow> w = v"
  by (auto simp: single_value_def contains_offset word_less_1)

lemma returns_from_bounds_iff [simp]: "L \<noteq> U \<Longrightarrow> returns P (from_bounds L U) = P (CR L U)"
  by (simp add: from_bounds_def cr_ok_def)

lemma contains_CR:
  "L < U \<Longrightarrow> contains (CR L U) v \<longleftrightarrow> L \<le> v \<and> v < U"
  "U < L \<Longrightarrow> contains (CR L U) v \<longleftrightarrow> L \<le> v \<or> v < U"
  by (auto simp: contains_def isWrappedSet_def)

lemma CR_eta: "R = CR (Lower R) (Upper R)"
  by (simp add: CR_def)

lemma uneven_simps:
  "L \<noteq> U \<Longrightarrow> isFullSet (CR L U) = False"
  "L \<noteq> U \<Longrightarrow> isEmptySet (CR L U) = False"
  "isWrappedSet (CR L U) = (U < L)"
  "L \<noteq> U \<Longrightarrow> cr_ok (CR L U)"
  by (auto simp: isFullSet_def isEmptySet_def isWrappedSet_def cr_ok_def)

lemma range_cases [case_names empty full straight wrapped]:
  assumes "cr_ok R"
  obtains "R = full_or_empty False" | "R = full_or_empty True"
    | L U where "R = CR L U" "L < U" | L U where "R = CR L U" "U < L"
proof -
  consider "isEmptySet R" | "isFullSet R" | "Lower R < Upper R" | "Upper R < Lower R"
    using assms by (auto simp: cr_ok_def neq_iff)
  then show thesis
  proof cases
    case 1
    then have "R = full_or_empty False" by (cases R) (auto simp: isEmptySet_def full_or_empty_def CR_def)
    then show thesis by (rule that(1))
  next
    case 2
    then have "R = full_or_empty True" by (cases R) (auto simp: isFullSet_def full_or_empty_def CR_def)
    then show thesis by (rule that(2))
  qed (use that(3,4) CR_eta in blast)+
qed

text \<open>The result of an intersection: the common values exactly, or one of the operands where the common
  values are not a range.\<close>

definition met :: "'a::len constant_range \<Rightarrow> 'a constant_range \<Rightarrow> 'a constant_range \<Rightarrow> bool" where
  "met R C X =
     ((\<forall>v. contains R v \<and> contains C v \<longrightarrow> contains X v) \<and>
      (X = R \<or> X = C \<or> (\<forall>v. contains X v \<longrightarrow> contains R v \<and> contains C v)))"

lemma intersect_straight:
  assumes "a < b" "c < d"
  shows "returns (met (CR a b) (CR c d)) (intersectWith (CR a b) (CR c d))"
  using assms
  by (subst intersectWith.simps) (auto simp: uneven_simps contains_CR met_def)

lemma intersect_wrapped_straight:
  assumes "b < a" "c < d"
  shows "returns (met (CR a b) (CR c d)) (intersectWith (CR a b) (CR c d))"
  using assms
  by (subst intersectWith.simps) (auto simp: uneven_simps contains_CR met_def)

lemma intersect_wrapped:
  assumes "b < a" "d < c"
  shows "returns (met (CR a b) (CR c d)) (intersectWith (CR a b) (CR c d))"
  using assms
  by (subst intersectWith.simps) (auto simp: uneven_simps contains_CR met_def)

lemma intersect_flip: "a < b \<Longrightarrow> d < c \<Longrightarrow> intersectWith (CR a b) (CR c d) = intersectWith (CR c d) (CR a b)"
  by (subst intersectWith.simps) (auto simp: uneven_simps)

lemma intersectWith_returns:
  assumes "cr_ok R" "cr_ok C"
  shows "returns (met R C) (intersectWith R C)"
  using assms(1)
proof (cases R rule: range_cases)
  case empty
  then show ?thesis using assms by (simp add: intersectWith.simps [of _ C] met_def)
next
  case full
  then show ?thesis using assms by (simp add: intersectWith.simps [of _ C] contains_empty met_def)
next
  case straight_R: (straight a b)
  show ?thesis
    using assms(2)
  proof (cases C rule: range_cases)
    case (wrapped c d)
    then show ?thesis
      unfolding straight_R(1) wrapped(1) intersect_flip [OF straight_R(2) wrapped(2)]
      by (intro returns_mono [OF intersect_wrapped_straight [OF wrapped(2) straight_R(2)]]) (auto simp: met_def)
  next
    case (straight c d)
    then show ?thesis using intersect_straight [OF straight_R(2) straight(2)] straight_R by simp
  qed (use straight_R in \<open>simp_all add: intersectWith.simps [of "CR a b" "full_or_empty _"] uneven_simps met_def\<close>)
next
  case wrapped_R: (wrapped a b)
  show ?thesis
    using assms(2)
  proof (cases C rule: range_cases)
    case (straight c d)
    then show ?thesis using intersect_wrapped_straight [OF wrapped_R(2) straight(2)] wrapped_R by simp
  next
    case (wrapped c d)
    then show ?thesis using intersect_wrapped [OF wrapped_R(2) wrapped(2)] wrapped_R by simp
  qed (use wrapped_R in \<open>simp_all add: intersectWith.simps [of "CR a b" "full_or_empty _"] uneven_simps met_def\<close>)
qed

text \<open>The complement is exact.\<close>

lemma inverse_range_returns:
  assumes "cr_ok R"
  shows "returns (\<lambda>X. \<forall>v. contains X v \<longleftrightarrow> \<not> contains R v) (inverse_range R)"
  using assms
  by (cases R rule: range_cases) (auto simp: inverse_range_def uneven_simps contains_CR)

lemma subtract_returns:
  assumes "cr_ok R"
  shows "returns (\<lambda>X. \<forall>v. contains X (v - k) \<longleftrightarrow> contains R v) (subtract R k)"
proof (cases "Lower R = Upper R")
  case True
  then show ?thesis using assms by (auto simp: subtract_def contains_def isFullSet_def)
next
  case False
  then show ?thesis by (simp add: subtract_def contains_offset)
qed

text \<open>\<open>contains\<close> on ranges decides inclusion: the ends of the ranges are the values that tell.\<close>

lemma in_gamma [simp]: "v \<in> gamma R \<longleftrightarrow> contains R v"
  by (simp add: gamma_def)

lemma le_pred:
  assumes "(0 :: 'a::len word) < d"
  shows "x \<le> d - 1 \<longleftrightarrow> x < d" "d - 1 < x \<longleftrightarrow> d \<le> x"
proof -
  have "d \<noteq> 0" using assms by auto
  then have "unat (d - 1) = unat d - 1" "0 < unat d" by (simp_all add: unat_minus_one unat_gt_0)
  then show "x \<le> d - 1 \<longleftrightarrow> x < d" "d - 1 < x \<longleftrightarrow> d \<le> x"
    by (auto simp: word_less_nat_alt word_le_nat_alt)
qed

lemma subset_points:
  "v \<in> gamma C \<Longrightarrow> gamma C \<subseteq> gamma R \<Longrightarrow> contains R v"
  by (auto simp: gamma_def)

lemma contains_range_iff:
  assumes "cr_ok R" "cr_ok C"
  shows "contains_range R C \<longleftrightarrow> gamma C \<subseteq> gamma R"
  using assms(1)
proof (cases R rule: range_cases)
  case empty
  have "gamma C = {} \<longleftrightarrow> isEmptySet C"
    using assms(2) by (cases C rule: range_cases) (auto simp: gamma_def contains_CR uneven_simps)
  then show ?thesis using empty by (auto simp: contains_range_def gamma_def)
next
  case full
  then show ?thesis by (auto simp: contains_range_def gamma_def)
next
  case R: (straight a b)
  have b: "0 < b" using R(2) by (auto intro: le_less_trans word_zero_le)
  show ?thesis
    using assms(2)
  proof (cases C rule: range_cases)
    case (straight c d)
    have "0 < d" using straight(2) by (auto intro: le_less_trans word_zero_le)
    then show ?thesis
      using R straight subset_points [of c C R] subset_points [of "d - 1" C R]
      by (auto simp: contains_range_def uneven_simps contains_CR le_pred)
  next
    case full
    then show ?thesis using R subset_points [of b C R] by (auto simp: contains_range_def uneven_simps contains_CR)
  next
    case (wrapped c d)
    have "\<not> contains R MaxValue" using R(1) contains_CR(1) [OF R(2)] by (auto simp: not_less)
    then show ?thesis
      using R wrapped subset_points [of MaxValue C R]
      by (auto simp: contains_range_def uneven_simps contains_CR)
  qed (use R in \<open>auto simp: contains_range_def\<close>)
next
  case R: (wrapped a b)
  show ?thesis
    using assms(2)
  proof (cases C rule: range_cases)
    case (straight c d)
    then show ?thesis
      using R subset_points [of c C R] subset_points [of b C R]
      by (cases "d \<le> b") (auto simp: contains_range_def uneven_simps contains_CR not_le less_imp_le)
  next
    case (wrapped c d)
    then show ?thesis
      using R subset_points [of c C R] subset_points [of b C R]
      by (cases "d \<le> b") (auto simp: contains_range_def uneven_simps contains_CR not_le less_imp_le)
  next
    case full
    then show ?thesis using R subset_points [of b C R] by (auto simp: contains_range_def uneven_simps contains_CR)
  qed (use R in \<open>auto simp: contains_range_def\<close>)
qed

text \<open>A range has only one representation.\<close>

lemma contains_range_antisym:
  assumes "cr_ok R" "cr_ok C" "contains_range R C" "contains_range C R"
  shows "R = C"
  using assms(1)
proof (cases R rule: range_cases)
  case R: (straight a b)
  show ?thesis
    using assms(2) by (cases C rule: range_cases) (use assms(3,4) R in \<open>auto simp: contains_range_def uneven_simps split: if_splits\<close>)
next
  case R: (wrapped a b)
  show ?thesis
    using assms(2) by (cases C rule: range_cases) (use assms(3,4) R in \<open>auto simp: contains_range_def uneven_simps split: if_splits\<close>)
next
  case empty
  show ?thesis
    using assms(2) by (cases C rule: range_cases) (use assms(3,4) empty in \<open>auto simp: contains_range_def uneven_simps\<close>)
next
  case full
  show ?thesis
    using assms(2) by (cases C rule: range_cases) (use assms(3,4) full in \<open>auto simp: contains_range_def uneven_simps\<close>)
qed

lemma gamma_inject: "cr_ok R \<Longrightarrow> cr_ok C \<Longrightarrow> gamma R = gamma C \<longleftrightarrow> R = C"
  using contains_range_antisym contains_range_iff by blast

section \<open>The smallest range\<close>

text \<open>
  \<open>smallest T X\<close>: the range \<open>X\<close> covers the set \<open>T\<close>, and no range that covers it has fewer values. A set with two gaps
  is no range, and there may be several smallest ranges that cover it.
\<close>

definition smallest :: "'a::len word set \<Rightarrow> 'a constant_range \<Rightarrow> bool" where
  "smallest T X = (T \<subseteq> gamma X \<and> (\<forall>Y. cr_ok Y \<and> T \<subseteq> gamma Y \<longrightarrow> card (gamma X) \<le> card (gamma Y)))"

lemma smallest_exact: "gamma X = T \<Longrightarrow> smallest T X"
  by (auto simp: smallest_def intro!: card_mono)

lemma unat_bound: "unat (w :: 'a::len word) < 2 ^ LENGTH('a)"
  by simp

lemma unat_word_of_nat_less: "k < unat (w :: 'a::len word) \<Longrightarrow> unat (word_of_nat k :: 'a word) = k"
  using less_trans [OF _ unat_bound, of k w] by (simp add: unsigned_of_nat take_bit_nat_eq_self)

lemma card_gamma_uneven:
  fixes R :: "'a::len constant_range"
  assumes "Lower R \<noteq> Upper R"
  shows "card (gamma R) = unat (Upper R - Lower R)"
proof -
  let ?n = "Upper R - Lower R"
  have "bij_betw (\<lambda>v. unat (v - Lower R)) (gamma R) {..< unat ?n}"
  proof (rule bij_betw_imageI)
    show "inj_on (\<lambda>v. unat (v - Lower R)) (gamma R)"
      by (rule inj_onI) (metis diff_add_cancel word_unat_eq_iff)
    have "k \<in> (\<lambda>v. unat (v - Lower R)) ` gamma R" if "k < unat ?n" for k
    proof (rule image_eqI [where x = "Lower R + word_of_nat k"])
      have "unat (word_of_nat k :: 'a word) = k" by (rule unat_word_of_nat_less [OF that])
      then show "k = unat (Lower R + word_of_nat k - Lower R)" "Lower R + word_of_nat k \<in> gamma R"
        using that by (simp_all add: contains_offset [OF assms] word_less_nat_alt)
    qed
    then show "(\<lambda>v. unat (v - Lower R)) ` gamma R = {..< unat ?n}"
      by (auto simp: contains_offset [OF assms] word_less_nat_alt)
  qed
  then show ?thesis by (simp add: bij_betw_same_card)
qed

lemma card_gamma:
  assumes "cr_ok R"
  shows "getSetSize R = card (gamma R)"
  using assms
proof (cases R rule: range_cases)
  case full
  then have "gamma R = UNIV" by auto
  then show ?thesis using full by (simp add: getSetSize_def card_word)
next
  case empty
  then have "gamma R = {}" by auto
  then show ?thesis using empty by (simp add: getSetSize_def) (simp add: full_or_empty_def)
qed (simp_all add: getSetSize_def uneven_simps card_gamma_uneven)

text \<open>A range inside two arcs, without the values behind the ends of the arcs, is inside one of them.\<close>

lemma arc_step: "L \<noteq> U \<Longrightarrow> contains (CR L U) v \<Longrightarrow> v + 1 \<noteq> U \<Longrightarrow> contains (CR L U) (v + 1)"
  for v :: "'a::len word"
proof -
  assume ne: "L \<noteq> U" and v: "contains (CR L U) v" and U: "v + 1 \<noteq> U"
  have lt: "v - L < U - L" using v ne by (simp add: contains_offset)
  have "v - L + 1 \<noteq> U - L" using U by (simp add: algebra_simps)
  moreover have "v - L + 1 \<le> U - L" using lt by (rule inc_le)
  ultimately have "v - L + 1 < U - L" by (rule le_neq_trans [rotated])
  then show ?thesis using ne by (simp add: contains_offset algebra_simps)
qed

lemma range_in_arc:
  assumes "Lower N \<noteq> Upper N" "L \<noteq> U" "contains (CR L U) (Lower N)"
    and "\<And>v. contains N v \<Longrightarrow> v \<noteq> U"
  shows "gamma N \<subseteq> gamma (CR L U)"
proof
  have step: "contains (CR L U) (Lower N + word_of_nat k)" if "k < unat (Upper N - Lower N)" for k
    using that
  proof (induction k)
    case (Suc k)
    have "unat (word_of_nat (Suc k) :: 'a word) = Suc k" by (rule unat_word_of_nat_less [OF Suc.prems])
    then have "contains N (Lower N + word_of_nat (Suc k))"
      using Suc.prems by (simp only: contains_offset [OF assms(1)] word_less_nat_alt) simp
    then have "Lower N + word_of_nat k + 1 \<noteq> U" using assms(4) by (metis add.assoc add.commute of_nat_Suc)
    then show ?case using arc_step [OF assms(2), of "Lower N + word_of_nat k"] Suc by (simp add: algebra_simps)
  qed (simp add: assms(3))
  fix v assume "v \<in> gamma N"
  then have "unat (v - Lower N) < unat (Upper N - Lower N)" by (simp add: contains_offset [OF assms(1)] word_less_nat_alt)
  from step [OF this] show "v \<in> gamma (CR L U)" by simp
qed

lemma smallest_two_gaps:
  fixes l1 u1 l2 u2 :: "'a::len word"
  assumes "l1 \<noteq> u1" "l2 \<noteq> u2" "u1 \<notin> gamma (CR l2 u2)" "u2 \<notin> gamma (CR l1 u1)" "u2 - l2 \<le> u1 - l1"
  shows "smallest (- (gamma (CR l1 u1) \<union> gamma (CR l2 u2))) (CR u1 l1)"
proof -
  let ?G1 = "CR l1 u1" and ?G2 = "CR l2 u2" and ?X = "CR u1 l1"
  have X: "gamma ?X = - gamma ?G1" using inverse_range_returns [of ?G1] assms(1)
    by (auto simp: inverse_range_def uneven_simps)
  have ends: "u1 \<notin> gamma ?G1" "u2 \<notin> gamma ?G2" using assms(1,2) by (simp_all add: contains_offset)
  have "card (gamma ?X) \<le> card (gamma Y)" if Y: "cr_ok Y" "- (gamma ?G1 \<union> gamma ?G2) \<subseteq> gamma Y" for Y
  proof -
    obtain N where N: "cr_ok N" "gamma N = - gamma Y"
      using inverse_range_returns [OF Y(1)] by (elim returnsE) (auto simp: gamma_def)
    have sub: "gamma N \<subseteq> gamma ?G1 \<union> gamma ?G2" using Y(2) N(2) by blast
    then have not_end: "v \<noteq> u1" "v \<noteq> u2" if "contains N v" for v
      using that ends assms(3,4) by (metis (no_types) in_gamma subsetD Un_iff)+
    have "card (gamma N) \<le> card (gamma ?G1)"
    proof (cases "Lower N = Upper N")
      case True
      then have "gamma N = {} \<or> gamma N = UNIV" by (auto simp: contains_def)
      moreover have "gamma N \<noteq> UNIV" using not_end(1) by (metis UNIV_I in_gamma)
      ultimately show ?thesis by auto
    next
      case False
      then have "contains N (Lower N)" by (simp add: contains_offset word_gt_0)
      then consider "contains ?G1 (Lower N)" | "contains ?G2 (Lower N)" using sub by auto
      then show ?thesis
      proof cases
        case 1
        then show ?thesis using range_in_arc [OF False assms(1)] not_end(1) by (intro card_mono) auto
      next
        case 2
        then have "card (gamma N) \<le> card (gamma ?G2)"
          using range_in_arc [OF False assms(2)] not_end(2) by (intro card_mono) auto
        also have "\<dots> \<le> card (gamma ?G1)" using assms(1,2,5) by (simp add: card_gamma_uneven word_le_nat_alt)
        finally show ?thesis .
      qed
    qed
    moreover have "card (gamma N) = card (UNIV :: 'a word set) - card (gamma Y)"
      unfolding N(2) by (simp add: Compl_eq_Diff_UNIV card_Diff_subset)
    moreover have "card (gamma Y) \<le> card (UNIV :: 'a word set)" by (intro card_mono) simp_all
    ultimately show ?thesis unfolding X by (simp add: Compl_eq_Diff_UNIV card_Diff_subset)
  qed
  then show ?thesis unfolding smallest_def X by blast
qed

text \<open>The intersection of two ranges that meet in two places is the smaller one of them.\<close>

lemma neg_le_neg: "0 < x \<Longrightarrow> x \<le> y \<Longrightarrow> - y \<le> - x" for x y :: "'a::len word"
  using unat_sub_if' [of 0 x] unat_sub_if' [of 0 y] unat_bound [of x] unat_bound [of y]
  by (auto simp: word_le_nat_alt word_less_nat_alt)

lemma smaller_operand:
  fixes a b c d :: "'a::len word"
  assumes "a \<noteq> b" "c \<noteq> d" "contains (CR a b) c" "contains (CR c d) a"
  shows "smallest (gamma (CR a b) \<inter> gamma (CR c d))
    (if isSizeStrictlySmallerThan (CR a b) (CR c d) then CR a b else CR c d)"
proof -
  have compl: "gamma (CR u l) = - gamma (CR l u)" if "l \<noteq> u" for l u :: "'a word"
    using inverse_range_returns [of "CR l u"] that by (auto simp: inverse_range_def uneven_simps)
  have T: "gamma (CR a b) \<inter> gamma (CR c d) = - (gamma (CR b a) \<union> gamma (CR d c))"
    using compl [of b a] compl [of d c] assms(1,2) by auto
  have ends: "a \<notin> gamma (CR d c)" "c \<notin> gamma (CR b a)"
    using compl [of d c] compl [of b a] assms by auto
  have size: "isSizeStrictlySmallerThan (CR a b) (CR c d) \<longleftrightarrow> b - a < d - c"
    using assms(1,2) by (simp add: isSizeStrictlySmallerThan_def uneven_simps)
  show ?thesis
  proof (cases "b - a < d - c")
    case True
    then have "c - d \<le> a - b" using neg_le_neg [of "b - a" "d - c"] assms(1) by (simp add: word_gt_0)
    then show ?thesis
      unfolding T size using True smallest_two_gaps [of b a d c] assms(1,2) ends by simp
  next
    case False
    then have "a - b \<le> c - d" using neg_le_neg [of "d - c" "b - a"] assms(2) by (simp add: word_gt_0)
    then show ?thesis
      unfolding T size using False smallest_two_gaps [of d c b a] assms(1,2) ends by (simp add: Un_commute)
  qed
qed

definition exactly :: "('a::len word \<Rightarrow> bool) \<Rightarrow> 'a constant_range \<Rightarrow> bool" where
  "exactly T X = (\<forall>v. contains X v \<longleftrightarrow> T v)"

lemma returns_exactly: "returns (exactly T) r \<Longrightarrow> S = {v. T v} \<Longrightarrow> returns (smallest S) r"
  by (erule returns_mono) (auto simp: exactly_def intro: smallest_exact)

abbreviation meet_of :: "'a::len constant_range \<Rightarrow> 'a constant_range \<Rightarrow> 'a constant_range result \<Rightarrow> bool" where
  "meet_of R C \<equiv> returns (smallest (gamma R \<inter> gamma C))"

lemma meet_exactly: "returns (exactly (\<lambda>v. contains R v \<and> contains C v)) r \<Longrightarrow> meet_of R C r"
  by (rule returns_exactly) auto

lemma intersect_straight_smallest:
  assumes "a < b" "c < d"
  shows "meet_of (CR a b) (CR c d) (intersectWith (CR a b) (CR c d))"
proof -
  have n: "\<not> b < a" "\<not> d < c" "a \<noteq> b" "c \<noteq> d" using assms by auto
  note go = uneven_simps CR_simps n simp_thms if_True if_False not_less
  consider "a < c" "b \<le> c" | "a < c" "\<not> b \<le> c" "b < d" | "a < c" "\<not> b \<le> c" "\<not> b < d" | "\<not> a < c" "b < d"
    | "\<not> a < c" "\<not> b < d" "a < d" | "\<not> a < c" "\<not> b < d" "\<not> a < d" by blast
  then show ?thesis
    by cases (rule meet_exactly, subst intersectWith.simps, simp add: uneven_simps n exactly_def,
      use assms in \<open>auto simp: contains_CR\<close>)+
qed

lemma intersect_wrapped_straight_smallest:
  assumes "b < a" "c < d"
  shows "meet_of (CR a b) (CR c d) (intersectWith (CR a b) (CR c d))"
proof (cases "c < b \<and> a < d")
  case True
  have i: "intersectWith (CR a b) (CR c d) = Inr (if isSizeStrictlySmallerThan (CR a b) (CR c d) then CR a b else CR c d)"
    using assms True by (subst intersectWith.simps) (auto simp: uneven_simps)
  have "contains (CR a b) c" "contains (CR c d) a" using assms True by (auto simp: contains_CR)
  with smaller_operand [of a b c d] assms show ?thesis unfolding i by (auto simp: uneven_simps)
next
  case False
  then show ?thesis using assms
    by (intro meet_exactly) (subst intersectWith.simps, auto simp: uneven_simps contains_CR exactly_def)
qed

lemma intersect_wrapped_smallest:
  assumes "b < a" "d < c"
  shows "meet_of (CR a b) (CR c d) (intersectWith (CR a b) (CR c d))"
proof (cases "c < b \<or> a < d")
  case True
  have i: "intersectWith (CR a b) (CR c d) = Inr (if isSizeStrictlySmallerThan (CR a b) (CR c d) then CR a b else CR c d)"
    using assms True by (subst intersectWith.simps) (auto simp: uneven_simps)
  have "contains (CR a b) c" "contains (CR c d) a" using assms True by (auto simp: contains_CR)
  with smaller_operand [of a b c d] assms show ?thesis unfolding i by (auto simp: uneven_simps)
next
  case False
  then show ?thesis using assms
    by (intro meet_exactly) (subst intersectWith.simps, auto simp: uneven_simps contains_CR exactly_def)
qed

lemma intersect_extreme:
  assumes "L \<noteq> U"
  shows "meet_of (CR L U) (full_or_empty x) (intersectWith (CR L U) (full_or_empty x))"
  by (rule meet_exactly) (use assms in \<open>simp add: intersectWith.simps [of "CR L U" "full_or_empty _"] uneven_simps exactly_def\<close>)

lemma intersectWith_smallest:
  assumes "cr_ok R" "cr_ok C"
  shows "meet_of R C (intersectWith R C)"
  using assms(1)
proof (cases R rule: range_cases)
  case empty
  then show ?thesis using assms by (intro meet_exactly) (simp add: intersectWith.simps [of _ C] exactly_def)
next
  case full
  then show ?thesis using assms
    by (intro meet_exactly) (auto simp: intersectWith.simps [of _ C] contains_empty contains_full exactly_def)
next
  case straight_R: (straight a b)
  show ?thesis
    using assms(2)
  proof (cases C rule: range_cases)
    case (wrapped c d)
    then show ?thesis
      unfolding straight_R(1) wrapped(1) intersect_flip [OF straight_R(2) wrapped(2)]
      using intersect_wrapped_straight_smallest [OF wrapped(2) straight_R(2)] by (simp add: Int_commute)
  next
    case (straight c d)
    then show ?thesis using intersect_straight_smallest [OF straight_R(2) straight(2)] straight_R by simp
  qed (use straight_R in \<open>simp_all add: intersect_extreme\<close>)
next
  case wrapped_R: (wrapped a b)
  show ?thesis
    using assms(2)
  proof (cases C rule: range_cases)
    case (straight c d)
    then show ?thesis using intersect_wrapped_straight_smallest [OF wrapped_R(2) straight(2)] wrapped_R by simp
  next
    case (wrapped c d)
    then show ?thesis using intersect_wrapped_smallest [OF wrapped_R(2) wrapped(2)] wrapped_R by simp
  qed (use wrapped_R in \<open>simp_all add: intersect_extreme\<close>)
qed

abbreviation join_of :: "'a::len constant_range \<Rightarrow> 'a constant_range \<Rightarrow> 'a constant_range result \<Rightarrow> bool" where
  "join_of R C \<equiv> returns (smallest (gamma R \<union> gamma C))"

lemma join_exactly: "returns (exactly (\<lambda>v. contains R v \<or> contains C v)) r \<Longrightarrow> join_of R C r"
  by (rule returns_exactly) auto

text \<open>The union of two ranges with a gap on either side closes the smaller one.\<close>

lemma smaller_gap:
  fixes a b c d :: "'a::len word"
  assumes "b \<noteq> c" "d \<noteq> a" "a \<noteq> b" "c \<noteq> d"
    and gaps: "\<And>v. contains (CR a b) v \<or> contains (CR c d) v \<longleftrightarrow> \<not> (contains (CR b c) v \<or> contains (CR d a) v)"
  shows "join_of (CR a b) (CR c d) (if c - b < a - d then from_bounds a d else from_bounds c b)"
proof -
  have T: "gamma (CR a b) \<union> gamma (CR c d) = - (gamma (CR b c) \<union> gamma (CR d a))"
    by (rule set_eqI) (simp add: gaps)
  have "a \<in> gamma (CR a b)" "c \<in> gamma (CR c d)" using assms(3,4) by (simp_all add: contains_offset word_gt_0)
  then have ends: "a \<notin> gamma (CR b c)" "c \<notin> gamma (CR d a)" using T by blast+
  show ?thesis
  proof (cases "c - b < a - d")
    case True
    then show ?thesis unfolding T
      using smallest_two_gaps [of d a b c] assms(1,2) ends by (simp add: Un_commute)
  next
    case False
    then show ?thesis unfolding T
      using smallest_two_gaps [of b c d a] assms(1,2) ends by simp
  qed
qed

lemma pred_less:
  assumes "(0 :: 'a::len word) < b" "0 < d"
  shows "b - 1 < d - 1 \<longleftrightarrow> b < d"
proof -
  have "b \<noteq> 0" "d \<noteq> 0" using assms by auto
  then have "unat (b - 1) = unat b - 1" "unat (d - 1) = unat d - 1" "0 < unat b" "0 < unat d"
    by (simp_all add: unat_minus_one unat_gt_0)
  then show ?thesis by (auto simp: word_less_nat_alt)
qed

lemma union_straight_smallest:
  assumes "a < b" "c < d"
  shows "join_of (CR a b) (CR c d) (unionWith (CR a b) (CR c d))"
proof -
  have n: "\<not> b < a" "\<not> d < c" "a \<noteq> b" "c \<noteq> d" "0 < b" "0 < d" using assms by (auto intro: le_less_trans word_zero_le)
  have m: "(if c < a then c else a) = min a c" "(if b < d then d else b) = max b d" by (auto simp: min_def max_def)
  have l: "min a c < max b d" using assms by (auto simp: min_def max_def)
  have nz: "max b d \<noteq> 0" using n by (auto simp: max_def)
  show ?thesis
  proof (cases "d < a \<or> b < c")
    case True
    have u: "unionWith (CR a b) (CR c d) = (if c - b < a - d then from_bounds a d else from_bounds c b)"
      by (subst unionWith.simps, simp only: uneven_simps CR_simps n True simp_thms if_True if_False Let_def)
    have ne: "b \<noteq> c" "d \<noteq> a" using True assms by auto
    have "contains (CR a b) v \<or> contains (CR c d) v \<longleftrightarrow> \<not> (contains (CR b c) v \<or> contains (CR d a) v)" for v
      using True assms by (elim disjE) (auto simp: contains_CR)
    then show ?thesis unfolding u by (intro smaller_gap ne n)
  next
    case False
    have u: "unionWith (CR a b) (CR c d) = from_bounds (min a c) (max b d)"
      using nz by (subst unionWith.simps, simp only: uneven_simps CR_simps n False simp_thms if_True if_False Let_def pred_less m)
    have "exactly (\<lambda>v. contains (CR a b) v \<or> contains (CR c d) v) (CR (min a c) (max b d))"
      using False assms by (auto simp: exactly_def contains_CR(1) [OF l] contains_CR(1) min_le_iff_disj less_max_iff_disj)
    then show ?thesis unfolding u by (intro join_exactly) (simp only: returns_from_bounds_iff [OF less_imp_neq [OF l]])
  qed
qed

lemma union_wrapped_straight_smallest:
  assumes "b < a" "c < d"
  shows "join_of (CR a b) (CR c d) (unionWith (CR a b) (CR c d))"
proof -
  have n: "\<not> d < c" "a \<noteq> b" "c \<noteq> d" using assms by auto
  note go = uneven_simps CR_simps n assms simp_thms if_True if_False Let_def
  consider (inside) "d \<le> b \<or> a \<le> c" | (all) "\<not> (d \<le> b \<or> a \<le> c)" "c \<le> b \<and> a \<le> d"
    | (gap) "\<not> (d \<le> b \<or> a \<le> c)" "\<not> (c \<le> b \<and> a \<le> d)" "b \<le> c \<and> d \<le> a"
    | (left) "\<not> (d \<le> b \<or> a \<le> c)" "\<not> (c \<le> b \<and> a \<le> d)" "\<not> (b \<le> c \<and> d \<le> a)" "b < c \<and> a < d"
    | (right) "\<not> (d \<le> b \<or> a \<le> c)" "\<not> (c \<le> b \<and> a \<le> d)" "\<not> (b \<le> c \<and> d \<le> a)" "\<not> (b < c \<and> a < d)"
    by blast
  then show ?thesis
  proof cases
    case inside
    then show ?thesis
      by (intro join_exactly, subst unionWith.simps, simp only: go inside)
        (use assms n inside in \<open>auto simp: contains_CR uneven_simps exactly_def\<close>)
  next
    case all
    then show ?thesis
      by (intro join_exactly, subst unionWith.simps, simp only: go all) (use assms all in \<open>auto simp: exactly_def contains_CR\<close>)
  next
    case gap
    have u: "unionWith (CR a b) (CR c d) = (if c - b < a - d then from_bounds a d else from_bounds c b)"
      by (subst unionWith.simps, simp only: go gap)
    show ?thesis
    proof (cases "b = c \<or> d = a")
      case True
      then have "a \<noteq> d \<or> b \<noteq> c" using gap by auto
      then show ?thesis unfolding u using True gap assms
        by (intro join_exactly) (auto simp: exactly_def contains_CR word_gt_0)
    next
      case False
      then have "b < c" "d < a" using gap by auto
      then have "contains (CR a b) v \<or> contains (CR c d) v \<longleftrightarrow> \<not> (contains (CR b c) v \<or> contains (CR d a) v)" for v
        using assms by (auto simp: contains_CR)
      then show ?thesis unfolding u using False n by (intro smaller_gap) auto
    qed
  next
    case left
    then show ?thesis
      by (intro join_exactly, subst unionWith.simps, simp only: go left) (use assms left in \<open>auto simp: contains_CR exactly_def\<close>)
  next
    case right
    then have r: "c < b \<and> d < a" using assms by auto
    then show ?thesis
      by (intro join_exactly, subst unionWith.simps, simp only: go right r)
        (use assms r right in \<open>auto simp: contains_CR exactly_def\<close>)
  qed
qed

lemma union_wrapped_smallest:
  assumes "b < a" "d < c"
  shows "join_of (CR a b) (CR c d) (unionWith (CR a b) (CR c d))"
proof -
  have n: "a \<noteq> b" "c \<noteq> d" using assms by auto
  have m: "(if c < a then c else a) = min a c" "(if b < d then d else b) = max b d" by (auto simp: min_def max_def)
  show ?thesis
  proof (cases "c \<le> b \<or> a \<le> d")
    case True
    then show ?thesis
      by (intro join_exactly, subst unionWith.simps, simp only: uneven_simps CR_simps n assms simp_thms if_True if_False)
        (use assms in \<open>auto simp: exactly_def contains_CR\<close>)
  next
    case False
    then have l: "max b d < min a c" using assms by auto
    have "unionWith (CR a b) (CR c d) = from_bounds (min a c) (max b d)"
      by (subst unionWith.simps, simp only: uneven_simps CR_simps n assms False simp_thms if_True if_False Let_def m)
    then show ?thesis using less_imp_neq [OF l] assms
      by (intro join_exactly) (auto simp: exactly_def contains_CR(2) [OF l] contains_CR min_le_iff_disj less_max_iff_disj)
  qed
qed

lemma union_flip: "a < b \<Longrightarrow> d < c \<Longrightarrow> unionWith (CR a b) (CR c d) = unionWith (CR c d) (CR a b)"
  by (subst unionWith.simps) (auto simp: uneven_simps)

lemma union_extreme:
  assumes "L \<noteq> U"
  shows "join_of (CR L U) (full_or_empty x) (unionWith (CR L U) (full_or_empty x))"
  by (rule join_exactly) (use assms in \<open>auto simp: unionWith.simps [of "CR L U" "full_or_empty _"] uneven_simps exactly_def\<close>)

lemma unionWith_smallest:
  assumes "cr_ok R" "cr_ok C"
  shows "join_of R C (unionWith R C)"
  using assms(1)
proof (cases R rule: range_cases)
  case empty
  then show ?thesis using assms
    by (intro join_exactly) (cases "isEmptySet C"; simp add: unionWith.simps [of _ C] contains_empty exactly_def)
next
  case full
  then show ?thesis using assms by (intro join_exactly) (auto simp: unionWith.simps [of _ C] exactly_def)
next
  case straight_R: (straight a b)
  show ?thesis
    using assms(2)
  proof (cases C rule: range_cases)
    case (wrapped c d)
    then show ?thesis
      unfolding straight_R(1) wrapped(1) union_flip [OF straight_R(2) wrapped(2)]
      using union_wrapped_straight_smallest [OF wrapped(2) straight_R(2)] by (simp add: Un_commute)
  next
    case (straight c d)
    then show ?thesis using union_straight_smallest [OF straight_R(2) straight(2)] straight_R by simp
  qed (use straight_R in \<open>simp_all add: union_extreme\<close>)
next
  case wrapped_R: (wrapped a b)
  show ?thesis
    using assms(2)
  proof (cases C rule: range_cases)
    case (straight c d)
    then show ?thesis using union_wrapped_straight_smallest [OF wrapped_R(2) straight(2)] wrapped_R by simp
  next
    case (wrapped c d)
    then show ?thesis using union_wrapped_smallest [OF wrapped_R(2) wrapped(2)] wrapped_R by simp
  qed (use wrapped_R in \<open>simp_all add: union_extreme\<close>)
qed

lemma unionWith_returns:
  assumes "cr_ok R" "cr_ok C"
  shows "returns (\<lambda>X. \<forall>v. contains R v \<or> contains C v \<longrightarrow> contains X v) (unionWith R C)"
  using unionWith_smallest [OF assms] by (rule returns_mono) (auto simp: smallest_def)

section \<open>The least and the greatest value\<close>

lemma getUnsignedMax_greatest:
  assumes "cr_ok R" "\<not> isEmptySet R"
  shows "contains R (getUnsignedMax R) \<and> (\<forall>v. contains R v \<longrightarrow> v \<le> getUnsignedMax R)"
  using assms(1)
proof (cases R rule: range_cases)
  case (straight a b)
  have "0 < b" using straight(2) by (auto intro: le_less_trans word_zero_le)
  then show ?thesis
    using straight by (auto simp: getUnsignedMax_def uneven_simps contains_CR le_pred)
qed (use assms in \<open>auto simp: getUnsignedMax_def uneven_simps contains_CR\<close>)

lemma getUnsignedMin_least:
  assumes "cr_ok R" "\<not> isEmptySet R"
  shows "contains R (getUnsignedMin R) \<and> (\<forall>v. contains R v \<longrightarrow> getUnsignedMin R \<le> v)"
  using assms(1)
proof (cases R rule: range_cases)
  case (wrapped a b)
  then show ?thesis
    by (cases "b = 0") (auto simp: getUnsignedMin_def uneven_simps contains_CR word_gt_0)
qed (use assms in \<open>auto simp: getUnsignedMin_def uneven_simps contains_CR\<close>)

text \<open>
  Adding the least signed value turns the signed order into the unsigned one, and moves a range to the
  range of the moved values.
\<close>

definition rot :: "'a::len word \<Rightarrow> 'a word" where
  "rot x = x + SignedMinValue"

definition rot_range :: "'a::len constant_range \<Rightarrow> 'a constant_range" where
  "rot_range R = (if Lower R = Upper R then R else CR (rot (Lower R)) (rot (Upper R)))"

lemma uint_rot: "uint (rot (x :: 'a::len word)) = sint x + 2 ^ (LENGTH('a) - 1)"
proof -
  have p: "(2 :: int) ^ LENGTH('a) = 2 * 2 ^ (LENGTH('a) - 1)"
    by (metis One_nat_def Suc_pred len_gt_0 power_Suc)
  have r: "- (2 ^ (LENGTH('a) - 1)) \<le> sint x" "sint x < 2 ^ (LENGTH('a) - 1)"
    by (simp_all add: sint_greater_eq sint_less)
  have "rot x = word_of_int (sint x + 2 ^ (LENGTH('a) - 1))"
    by (simp add: rot_def SignedMinValue_def push_bit_eq_mult)
  then have "uint (rot x) = take_bit LENGTH('a) (sint x + 2 ^ (LENGTH('a) - 1))"
    by (simp only: uint_word_of_int take_bit_eq_mod)
  also have "\<dots> = sint x + 2 ^ (LENGTH('a) - 1)"
    by (rule take_bit_int_eq_self) (use r p in linarith)+
  finally show ?thesis .
qed

lemma rot_rot [simp]: "rot (rot x) = x"
proof -
  have "(2 :: 'a word) * 2 ^ (LENGTH('a) - 1) = 2 ^ LENGTH('a)"
    by (metis One_nat_def Suc_pred len_gt_0 power_Suc)
  then have "SignedMinValue + SignedMinValue = (0 :: 'a word)"
    by (simp add: SignedMinValue_def push_bit_eq_mult flip: mult_2)
  then show ?thesis by (simp add: rot_def add.assoc)
qed

lemma rot_eq [simp]: "rot x = rot y \<longleftrightarrow> x = y"
  by (simp add: rot_def)

lemma rot_less: "x <s y \<longleftrightarrow> rot x < rot y"
  by (simp add: word_sless_alt word_less_def uint_rot)

lemma rot_le: "x \<le>s y \<longleftrightarrow> rot x \<le> rot y"
  by (simp add: word_sle_eq word_le_def uint_rot)

lemma contains_rot: "contains (rot_range R) (rot v) \<longleftrightarrow> contains R v"
proof (cases "Lower R = Upper R")
  case False
  then have "Lower (rot_range R) \<noteq> Upper (rot_range R)" by (simp add: rot_range_def)
  then show ?thesis using False by (simp add: contains_offset) (simp add: rot_range_def rot_def)
qed (simp add: rot_range_def contains_def isFullSet_def)

lemma rot_range_simps:
  assumes "cr_ok R"
  shows "cr_ok (rot_range R)" "isEmptySet (rot_range R) = isEmptySet R" "isFullSet (rot_range R) = isFullSet R"
    "isWrappedSet (rot_range R) \<longleftrightarrow> Upper R <s Lower R"
  using assms by (auto simp: rot_range_def cr_ok_def isEmptySet_def isFullSet_def isWrappedSet_def rot_less)

lemma rot_ends [simp]: "rot 0 = SignedMinValue" "rot SignedMinValue = 0" "rot MaxValue = SignedMaxValue"
  using rot_rot [of 0] by (simp_all add: rot_def SignedMaxValue_def)

lemma getSignedMax_rot:
  assumes "cr_ok R" "\<not> isEmptySet R"
  shows "getSignedMax R = rot (getUnsignedMax (rot_range R))"
proof (cases "isFullSet R")
  case False
  then have "Lower R \<noteq> Upper R" using assms uneven_ends by blast
  moreover have "rot (rot x - 1) = x - 1" for x :: "'a word"
    using rot_rot [of x] by (simp add: rot_def)
  ultimately show ?thesis
    using False assms by (auto simp: getSignedMax_def getUnsignedMax_def rot_range_simps) (simp add: rot_range_def)
qed (use assms in \<open>simp add: getSignedMax_def getUnsignedMax_def rot_range_simps\<close>)

lemma getSignedMin_rot:
  assumes "cr_ok R" "\<not> isEmptySet R"
  shows "getSignedMin R = rot (getUnsignedMin (rot_range R))"
proof (cases "isFullSet R")
  case False
  then have "Lower R \<noteq> Upper R" using assms uneven_ends by blast
  then have u: "Upper (rot_range R) = 0 \<longleftrightarrow> Upper R = SignedMinValue" "rot (Lower (rot_range R)) = Lower R"
    by (auto simp: rot_range_def) (metis rot_ends(1) rot_rot)
  show ?thesis using False assms by (auto simp: getSignedMin_def getUnsignedMin_def rot_range_simps u)
qed (use assms in \<open>simp add: getSignedMin_def getUnsignedMin_def rot_range_simps\<close>)

lemma getSignedMax_greatest:
  assumes "cr_ok R" "\<not> isEmptySet R"
  shows "contains R (getSignedMax R) \<and> (\<forall>v. contains R v \<longrightarrow> v \<le>s getSignedMax R)"
  using getUnsignedMax_greatest [of "rot_range R"] assms contains_rot [of R]
  unfolding getSignedMax_rot [OF assms] by (metis rot_le rot_range_simps(1,2) rot_rot)

lemma getSignedMin_least:
  assumes "cr_ok R" "\<not> isEmptySet R"
  shows "contains R (getSignedMin R) \<and> (\<forall>v. contains R v \<longrightarrow> getSignedMin R \<le>s v)"
  using getUnsignedMin_least [of "rot_range R"] assms contains_rot [of R]
  unfolding getSignedMin_rot [OF assms] by (metis rot_le rot_range_simps(1,2) rot_rot)

section \<open>Regions of comparisons\<close>

lemma less_succ:
  fixes x :: "'a::len word"
  assumes "x \<noteq> MaxValue"
  shows "v < x + 1 \<longleftrightarrow> v \<le> x" "x + 1 \<le> v \<longleftrightarrow> x < v" "x + 1 \<noteq> 0"
proof -
  show n: "x + 1 \<noteq> 0" using assms by (metis add.commute add_eq_0_iff)
  then have "0 < x + 1" by (simp add: word_gt_0)
  from le_pred [OF this] show "v < x + 1 \<longleftrightarrow> v \<le> x" "x + 1 \<le> v \<longleftrightarrow> x < v" by auto
qed

lemma contains_low: "U \<noteq> 0 \<Longrightarrow> contains (CR 0 U) v \<longleftrightarrow> v < U"
  by (simp add: contains_CR word_gt_0)

lemma contains_high: "L \<noteq> 0 \<Longrightarrow> contains (CR L 0) v \<longleftrightarrow> L \<le> v"
  by (simp add: contains_CR word_gt_0)

lemma contains_CR_rot: "L \<noteq> U \<Longrightarrow> contains (CR L U) v \<longleftrightarrow> contains (CR (rot L) (rot U)) (rot v)"
  using contains_rot [of "CR L U" v] by (simp add: rot_range_def)

lemma rot_neq_0: "U \<noteq> SignedMinValue \<Longrightarrow> rot U \<noteq> 0"
  by (metis rot_ends(1) rot_rot)

lemma contains_slow: "U \<noteq> SignedMinValue \<Longrightarrow> contains (CR SignedMinValue U) v \<longleftrightarrow> v <s U"
  by (subst contains_CR_rot) (simp_all add: contains_low rot_neq_0 rot_less)

lemma contains_shigh: "L \<noteq> SignedMinValue \<Longrightarrow> contains (CR L SignedMinValue) v \<longleftrightarrow> L \<le>s v"
  by (subst contains_CR_rot) (simp_all add: contains_high rot_neq_0 rot_le)

lemma signed_extremes:
  fixes x :: "'a::len word"
  shows "x \<le>s SignedMaxValue" "SignedMinValue \<le>s x" "\<not> SignedMaxValue <s x" "\<not> x <s SignedMinValue"
proof -
  have "rot (SignedMaxValue :: 'a word) = MaxValue" by (metis rot_ends(3) rot_rot)
  then show "x \<le>s SignedMaxValue" "SignedMinValue \<le>s x" "\<not> SignedMaxValue <s x" "\<not> x <s SignedMinValue"
    by (simp_all add: rot_le rot_less not_less)
qed

lemma sless_succ:
  fixes x :: "'a::len word"
  assumes "x \<noteq> SignedMaxValue"
  shows "v <s x + 1 \<longleftrightarrow> v \<le>s x" "x + 1 \<le>s v \<longleftrightarrow> x <s v" "x + 1 \<noteq> SignedMinValue"
proof -
  have r: "rot (x + 1) = rot x + 1" by (simp add: rot_def)
  have n: "rot x \<noteq> MaxValue" using assms by (metis rot_ends(3) rot_rot)
  show "v <s x + 1 \<longleftrightarrow> v \<le>s x" "x + 1 \<le>s v \<longleftrightarrow> x <s v"
    by (simp_all add: rot_less rot_le r less_succ [OF n])
  show "x + 1 \<noteq> SignedMinValue" using less_succ(3) [OF n] by (metis r rot_ends(2))
qed

lemma getInversePredicate_icmp: "icmp (getInversePredicate p) x y \<longleftrightarrow> \<not> icmp p x y"
  by (cases p) (auto simp: not_le not_less rot_less rot_le)

lemma single_element_iff:
  assumes "cr_ok R" "\<not> isEmptySet R"
  shows "isSingleElement R \<Longrightarrow> contains R v \<longleftrightarrow> v = Lower R" "isSingleElement R \<Longrightarrow> Lower R \<noteq> Upper R"
    "\<not> isSingleElement R \<Longrightarrow> \<exists>y. contains R y \<and> y \<noteq> v"
proof -
  show one: "contains R v \<longleftrightarrow> v = Lower R" "Lower R \<noteq> Upper R" if "isSingleElement R"
    using that by (auto simp: isSingleElement_def getSingleElement_def contains_offset word_less_1 split: if_splits)
  show "\<exists>y. contains R y \<and> y \<noteq> v" if "\<not> isSingleElement R"
  proof (rule ccontr)
    assume n: "\<not> ?thesis"
    then have "gamma R \<subseteq> gamma (single_value v)" by (auto simp: gamma_def)
    moreover have "gamma (single_value v) \<subseteq> gamma R"
      using n getUnsignedMax_greatest [OF assms] by (auto simp: gamma_def)
    ultimately have "R = single_value v" using gamma_inject [OF assms(1), of "single_value v"] by auto
    then show False using that by (simp add: isSingleElement_def getSingleElement_def single_value_def)
  qed
qed

text \<open>The allowed region is exact: the values that compare true with some value of the range.\<close>

lemma makeAllowedICmpRegion_returns:
  assumes "cr_ok R"
  shows "returns (\<lambda>X. \<forall>x. contains X x \<longleftrightarrow> (\<exists>y. contains R y \<and> icmp p x y)) (makeAllowedICmpRegion p R)"
proof (cases "isEmptySet R")
  case True
  then show ?thesis using assms by (auto simp: makeAllowedICmpRegion_def contains_empty)
next
  case False
  note umax = getUnsignedMax_greatest [OF assms False] and umin = getUnsignedMin_least [OF assms False]
    and smax = getSignedMax_greatest [OF assms False] and smin = getSignedMin_least [OF assms False]
  note single = single_element_iff [OF assms False]
  have ends: "getSignedMax R <s SignedMinValue \<longleftrightarrow> False" for R :: "'a constant_range" by (simp add: rot_less)
  show ?thesis
  proof (cases p)
    case ICMP_NE
    show ?thesis
    proof (cases "isSingleElement R")
      case True
      then have u: "Upper R \<noteq> Lower R" using single(2) by metis
      moreover have "contains (CR (Upper R) (Lower R)) x \<longleftrightarrow> \<not> contains R x" for x
        using u by (cases "Upper R < Lower R") (auto simp: contains_def isWrappedSet_def)
      ultimately show ?thesis
        using False ICMP_NE True single(1) by (simp add: makeAllowedICmpRegion_def)
    next
      case False
      then show ?thesis
        using \<open>\<not> isEmptySet R\<close> ICMP_NE single(3) by (simp add: makeAllowedICmpRegion_def) metis
    qed
  next
    case ICMP_ULT
    have "(\<exists>y. contains R y \<and> x < y) \<longleftrightarrow> x < getUnsignedMax R" for x using umax by (meson less_le_trans)
    then show ?thesis using False ICMP_ULT by (simp add: makeAllowedICmpRegion_def Let_def contains_low)
  next
    case ICMP_ULE
    have "(\<exists>y. contains R y \<and> x \<le> y) \<longleftrightarrow> x \<le> getUnsignedMax R" for x using umax by (meson order_trans)
    then show ?thesis
      using False ICMP_ULE less_succ [of "getUnsignedMax R"] by (auto simp: makeAllowedICmpRegion_def Let_def contains_low)
  next
    case ICMP_UGT
    have "(\<exists>y. contains R y \<and> y < x) \<longleftrightarrow> getUnsignedMin R < x" for x using umin by (meson le_less_trans)
    then show ?thesis
      using False ICMP_UGT less_succ [of "getUnsignedMin R"] by (auto simp: makeAllowedICmpRegion_def Let_def contains_high not_less)
  next
    case ICMP_UGE
    have "(\<exists>y. contains R y \<and> y \<le> x) \<longleftrightarrow> getUnsignedMin R \<le> x" for x using umin by (meson order_trans)
    then show ?thesis using False ICMP_UGE by (auto simp: makeAllowedICmpRegion_def Let_def contains_high)
  next
    case ICMP_SLT
    have "(\<exists>y. contains R y \<and> x <s y) \<longleftrightarrow> x <s getSignedMax R" for x using smax by (meson signed.less_le_trans)
    then show ?thesis using False ICMP_SLT by (auto simp: makeAllowedICmpRegion_def Let_def contains_slow rot_less)
  next
    case ICMP_SLE
    have "(\<exists>y. contains R y \<and> x \<le>s y) \<longleftrightarrow> x \<le>s getSignedMax R" for x using smax by (meson signed.order_trans)
    then show ?thesis
      using False ICMP_SLE sless_succ [of "getSignedMax R"] by (auto simp: makeAllowedICmpRegion_def Let_def contains_slow signed_extremes)
  next
    case ICMP_SGT
    have "(\<exists>y. contains R y \<and> y <s x) \<longleftrightarrow> getSignedMin R <s x" for x using smin by (meson signed.le_less_trans)
    then show ?thesis
      using False ICMP_SGT sless_succ [of "getSignedMin R"] by (auto simp: makeAllowedICmpRegion_def Let_def contains_shigh signed_extremes)
  next
    case ICMP_SGE
    have "(\<exists>y. contains R y \<and> y \<le>s x) \<longleftrightarrow> getSignedMin R \<le>s x" for x using smin by (meson signed.order_trans)
    then show ?thesis using False ICMP_SGE by (auto simp: makeAllowedICmpRegion_def Let_def contains_shigh signed_extremes)
  qed (use assms False in \<open>simp add: makeAllowedICmpRegion_def\<close>)
qed

text \<open>The satisfying region is exact: the values that compare true with every value of the range.\<close>

lemma makeSatisfyingICmpRegion_returns:
  assumes "cr_ok R"
  shows "returns (\<lambda>X. \<forall>x. contains X x \<longleftrightarrow> (\<forall>y. contains R y \<longrightarrow> icmp p x y)) (makeSatisfyingICmpRegion p R)"
  unfolding makeSatisfyingICmpRegion_def
proof (rule returns_bind [OF makeAllowedICmpRegion_returns [OF assms]])
  fix X assume X: "cr_ok X" "\<forall>x. contains X x \<longleftrightarrow> (\<exists>y. contains R y \<and> icmp (getInversePredicate p) x y)"
  then show "returns (\<lambda>X. \<forall>x. contains X x \<longleftrightarrow> (\<forall>y. contains R y \<longrightarrow> icmp p x y)) (inverse_range X)"
    by (intro returns_mono [OF inverse_range_returns [OF X(1)]]) (auto simp: getInversePredicate_icmp)
qed

lemma makeExactICmpRegion_returns:
  "returns (\<lambda>X. \<forall>x. contains X x \<longleftrightarrow> icmp p x c) (makeExactICmpRegion p c)"
proof -
  obtain X where X: "makeAllowedICmpRegion p (single_value c) = Inr X" "cr_ok X" "\<forall>x. contains X x \<longleftrightarrow> icmp p x c"
    using makeAllowedICmpRegion_returns [of "single_value c" p] by (auto elim: returnsE)
  obtain Y where Y: "makeSatisfyingICmpRegion p (single_value c) = Inr Y" "cr_ok Y" "\<forall>x. contains Y x \<longleftrightarrow> icmp p x c"
    using makeSatisfyingICmpRegion_returns [of "single_value c" p] by (auto elim: returnsE)
  have "X = Y" using gamma_inject [OF X(2) Y(2)] X(3) Y(3) by (auto simp: gamma_def)
  then show ?thesis using X Y by (simp add: makeExactICmpRegion_def)
qed

lemma single_missing:
  "Lower R = Upper R + 1 \<Longrightarrow> contains R v \<longleftrightarrow> v \<noteq> Upper R"
proof -
  assume l: "Lower R = Upper R + 1"
  then have "contains R v \<longleftrightarrow> v - Upper R - 1 < - 1" by (simp add: contains_offset diff_diff_eq)
  also have "\<dots> \<longleftrightarrow> v - Upper R - 1 \<noteq> - 1" using word_order.not_eq_extremum by blast
  finally show ?thesis by (simp add: diff_eq_eq)
qed

text \<open>The comparison found describes the range, so the assertion at the end holds.\<close>

lemma getEquivalentICmp_exact:
  assumes "cr_ok R" "gamma R = {x. icmp p x c}"
  shows "bind_result (makeExactICmpRegion p c) (\<lambda>X. if X = R then Inr (Some (p, c)) else Inl AssertFailed) = Inr (Some (p, c))"
proof -
  obtain X where X: "makeExactICmpRegion p c = Inr X" "cr_ok X" "\<forall>x. contains X x \<longleftrightarrow> icmp p x c"
    using makeExactICmpRegion_returns [of p c] by (auto elim: returnsE)
  then have "X = R" using gamma_inject [OF X(2) assms(1)] assms(2) by (auto simp: gamma_def)
  then show ?thesis using X(1) by simp
qed

lemma ordered_set:
  assumes "Lower R \<noteq> Upper R"
  shows "Lower R = 0 \<Longrightarrow> gamma R = {x. x < Upper R}"
    "Upper R = 0 \<Longrightarrow> gamma R = {x. Lower R \<le> x}"
    "Lower R = SignedMinValue \<Longrightarrow> gamma R = {x. x <s Upper R}"
    "Upper R = SignedMinValue \<Longrightarrow> gamma R = {x. Lower R \<le>s x}"
proof -
  obtain L U where R: "R = CR L U" "L \<noteq> U" using assms CR_eta by metis
  show "Lower R = 0 \<Longrightarrow> gamma R = {x. x < Upper R}" "Upper R = 0 \<Longrightarrow> gamma R = {x. Lower R \<le> x}"
    "Lower R = SignedMinValue \<Longrightarrow> gamma R = {x. x <s Upper R}"
    "Upper R = SignedMinValue \<Longrightarrow> gamma R = {x. Lower R \<le>s x}"
    using R by (auto simp: gamma_def contains_low contains_high contains_slow contains_shigh)
qed

lemma getEquivalentICmp_cases:
  assumes "cr_ok R"
  shows "getEquivalentICmp R = Inr None \<or> (\<exists>p c. getEquivalentICmp R = Inr (Some (p, c)) \<and> gamma R = {x. icmp p x c})"
proof -
  note ex = getEquivalentICmp_exact [OF assms]
  have u: "Lower R \<noteq> Upper R" if "\<not> isFullSet R" "\<not> isEmptySet R" using assms that by (simp add: cr_ok_def)
  have r: ?thesis if "gamma R = {x. icmp p x c}"
      "getEquivalentICmp R = bind_result (makeExactICmpRegion p c) (\<lambda>X. if X = R then Inr (Some (p, c)) else Inl AssertFailed)"
    for p c
    using ex [OF that(1)] that by (intro disjI2 exI [of _ p] exI [of _ c]) simp
  show ?thesis
  proof (cases "isFullSet R \<or> isEmptySet R")
    case True
    then show ?thesis
      by (intro r [where p = "if isEmptySet R then ICMP_ULT else ICMP_UGE" and c = 0])
        (auto simp: gamma_def contains_full contains_empty getEquivalentICmp_def)
  next
    case nt: False
    then have LU: "Lower R \<noteq> Upper R" using u by blast
    note sets = ordered_set [OF LU]
    consider (single) "Upper R = Lower R + 1" | (missing) "Upper R \<noteq> Lower R + 1" "Lower R = Upper R + 1"
      | (other) "Upper R \<noteq> Lower R + 1" "Lower R \<noteq> Upper R + 1" by blast
    then show ?thesis
    proof cases
      case single
      then have "gamma R = gamma (single_value (Lower R))" using CR_eta [of R] by (simp only: single_value_def)
      then have "gamma R = {Lower R}" by (auto simp: gamma_def)
      then show ?thesis
        using single nt by (intro r [where p = ICMP_EQ and c = "Lower R"]) (auto simp: getEquivalentICmp_def getSingleElement_def)
    next
      case missing
      then show ?thesis
        using nt by (intro r [where p = ICMP_NE and c = "Upper R"])
          (auto simp: gamma_def single_missing getEquivalentICmp_def getSingleElement_def getSingleMissingElement_def)
    next
      case other
      note def = getEquivalentICmp_def getSingleElement_def getSingleMissingElement_def
      consider "Lower R = SignedMinValue \<or> Lower R = 0"
        | "Lower R \<noteq> SignedMinValue" "Lower R \<noteq> 0" "Upper R = SignedMinValue \<or> Upper R = 0"
        | "Lower R \<noteq> SignedMinValue" "Lower R \<noteq> 0" "Upper R \<noteq> SignedMinValue" "Upper R \<noteq> 0" by blast
      then show ?thesis
      proof cases
        case 1
        then show ?thesis
          using nt other sets by (intro r [where p = "if Lower R = SignedMinValue then ICMP_SLT else ICMP_ULT" and c = "Upper R"])
            (auto simp: def)
      next
        case 2
        then show ?thesis
          using nt other sets by (intro r [where p = "if Upper R = SignedMinValue then ICMP_SGE else ICMP_UGE" and c = "Lower R"])
            (auto simp: def)
      next
        case 3
        then show ?thesis using nt other by (intro disjI1) (simp add: def)
      qed
    qed
  qed
qed

lemma single_ends:
  "getUnsignedMax (single_value c) = c" "getUnsignedMin (single_value c) = c"
  "getSignedMax (single_value c) = c" "getSignedMin (single_value c) = c"
proof -
  have "\<not> isEmptySet (single_value c)" using contains_empty [of "single_value c" c] by auto
  then show "getUnsignedMax (single_value c) = c" "getUnsignedMin (single_value c) = c"
    "getSignedMax (single_value c) = c" "getSignedMin (single_value c) = c"
    using getUnsignedMax_greatest [of "single_value c"] getUnsignedMin_least [of "single_value c"]
      getSignedMax_greatest [of "single_value c"] getSignedMin_least [of "single_value c"] by simp_all
qed

text \<open>A comparison with a constant has one of the shapes that are recognised.\<close>

lemma allowed_single_shape:
  assumes "makeAllowedICmpRegion p (single_value c) = Inr X"
  shows "isFullSet X \<or> isEmptySet X \<or> Upper X = Lower X + 1 \<or> Lower X = Upper X + 1 \<or>
    Lower X \<in> {0, SignedMinValue} \<or> Upper X \<in> {0, SignedMinValue}"
proof -
  have ne: "\<not> isEmptySet (single_value c)" using contains_empty [of "single_value c" c] by auto
  have se: "isSingleElement (single_value c)" by (simp add: isSingleElement_def getSingleElement_def single_value_def)
  show ?thesis
    using assms ne se
    by (cases p) (auto simp: makeAllowedICmpRegion_def Let_def single_ends from_bounds_def single_value_def split: if_splits)
qed

lemma getEquivalentICmp_None:
  assumes "cr_ok R" "getEquivalentICmp R = Inr None"
  shows "gamma R \<noteq> {x. icmp p x c}"
proof
  assume g: "gamma R = {x. icmp p x c}"
  obtain X where X: "makeAllowedICmpRegion p (single_value c) = Inr X" "cr_ok X" "\<forall>x. contains X x \<longleftrightarrow> icmp p x c"
    using makeAllowedICmpRegion_returns [of "single_value c" p] by (auto elim: returnsE)
  have "R = X" using gamma_inject [OF assms(1) X(2)] g X(3) by (auto simp: gamma_def)
  then show False
    using allowed_single_shape [OF X(1)] assms(2)
    by (auto simp: getEquivalentICmp_def getSingleElement_def getSingleMissingElement_def bind_result_Inr_iff split: if_splits)
qed

section \<open>Properties\<close>

text \<open>
  C7. The set operations of \<open>ConstantRange\<close>. For any two well-formed ranges, \<open>intersectWith\<close>, \<open>unionWith\<close> and
  \<open>inverse\<close> return without reaching the constructor's assertion or the one inside \<open>unionWith\<close>. The intersection and
  the union are smallest: they hold every common value and every value of either operand, and no range that does has
  fewer values. So they are exact whenever the set is a range; an intersection that is not exact is one of the
  operands. The inverse is the complement; \<open>contains\<close> on two ranges decides inclusion; and \<open>getSetSize\<close> is the number of
  values.
\<close>

theorem range_set_operations:
  assumes "cr_ok R" "cr_ok C"
  shows "(\<exists>I. intersectWith R C = Inr I \<and> cr_ok I \<and> smallest (gamma R \<inter> gamma C) I \<and>
      (I = R \<or> I = C \<or> gamma I = gamma R \<inter> gamma C)) \<and>
    (\<exists>U. unionWith R C = Inr U \<and> cr_ok U \<and> smallest (gamma R \<union> gamma C) U) \<and>
    (\<exists>N. inverse_range R = Inr N \<and> cr_ok N \<and> gamma N = - gamma R) \<and>
    contains_range R C = (gamma C \<subseteq> gamma R) \<and> getSetSize R = card (gamma R)"
proof (intro conjI)
  show "\<exists>I. intersectWith R C = Inr I \<and> cr_ok I \<and> smallest (gamma R \<inter> gamma C) I \<and>
      (I = R \<or> I = C \<or> gamma I = gamma R \<inter> gamma C)"
    using intersectWith_returns [OF assms] intersectWith_smallest [OF assms]
    by (elim returnsE) (auto simp: met_def gamma_def)
  show "\<exists>U. unionWith R C = Inr U \<and> cr_ok U \<and> smallest (gamma R \<union> gamma C) U"
    using unionWith_smallest [OF assms] by (elim returnsE) auto
  show "\<exists>N. inverse_range R = Inr N \<and> cr_ok N \<and> gamma N = - gamma R"
    using inverse_range_returns [OF assms(1)] by (elim returnsE) (auto simp: gamma_def)
qed (rule contains_range_iff [OF assms] card_gamma [OF assms(1)])+

text \<open>
  Two wrapped eight-bit ranges that meet in two places, where the smaller one is the result, and two ranges with a
  narrow and a wide gap between them, where the narrow one is filled.
\<close>

theorem range_set_operations_witness:
  "smallest (gamma (CR 250 10 :: 8 constant_range) \<inter> gamma (CR 5 252)) (CR 250 10) \<and>
   smallest (gamma (CR 10 20 :: 8 constant_range) \<union> gamma (CR 30 40)) (CR 10 40)"
proof -
  have ok: "cr_ok (CR 250 10 :: 8 constant_range)" "cr_ok (CR 5 252 :: 8 constant_range)"
    "cr_ok (CR 10 20 :: 8 constant_range)" "cr_ok (CR 30 40 :: 8 constant_range)" by (simp_all add: cr_ok_def)
  have "intersectWith (CR 250 10 :: 8 constant_range) (CR 5 252) = Inr (CR 250 10)"
    by (subst intersectWith.simps) (simp add: uneven_simps isSizeStrictlySmallerThan_def)
  moreover have "unionWith (CR 10 20 :: 8 constant_range) (CR 30 40) = Inr (CR 10 40)"
    by (subst unionWith.simps) (simp add: uneven_simps from_bounds_def)
  ultimately show ?thesis using range_set_operations [OF ok(1,2)] range_set_operations [OF ok(3,4)] by auto
qed

text \<open>
  C8. The regions of a comparison are exact. \<open>makeAllowedICmpRegion\<close> is the set of values that compare true with
  some value of the range, \<open>makeSatisfyingICmpRegion\<close> of those that compare true with every one, for each of
  the ten integer predicates, at every width, for wrapped, empty and full ranges; for a single value
  the two agree, so the assertion in \<open>makeExactICmpRegion\<close> holds.
\<close>

theorem icmp_regions_exact:
  assumes "cr_ok R"
  shows "(\<exists>A. makeAllowedICmpRegion p R = Inr A \<and> cr_ok A \<and> gamma A = {x. \<exists>y \<in> gamma R. icmp p x y}) \<and>
    (\<exists>S. makeSatisfyingICmpRegion p R = Inr S \<and> cr_ok S \<and> gamma S = {x. \<forall>y \<in> gamma R. icmp p x y}) \<and>
    (\<exists>E. makeExactICmpRegion p c = Inr E \<and> cr_ok E \<and> gamma E = {x. icmp p x c})"
proof (intro conjI)
  show "\<exists>A. makeAllowedICmpRegion p R = Inr A \<and> cr_ok A \<and> gamma A = {x. \<exists>y \<in> gamma R. icmp p x y}"
    using makeAllowedICmpRegion_returns [OF assms, of p] by (elim returnsE) (auto simp: gamma_def)
  show "\<exists>S. makeSatisfyingICmpRegion p R = Inr S \<and> cr_ok S \<and> gamma S = {x. \<forall>y \<in> gamma R. icmp p x y}"
    using makeSatisfyingICmpRegion_returns [OF assms, of p] by (elim returnsE) (auto simp: gamma_def)
  show "\<exists>E. makeExactICmpRegion p c = Inr E \<and> cr_ok E \<and> gamma E = {x. icmp p x c}"
    using makeExactICmpRegion_returns [of p c] by (elim returnsE) (auto simp: gamma_def)
qed

theorem icmp_regions_exact_witness:
  "\<exists>A. makeAllowedICmpRegion ICMP_SLT (CR 250 10 :: 8 constant_range) = Inr A \<and> contains A 5 \<and> \<not> contains A 10"
proof -
  have ok: "cr_ok (CR 250 10 :: 8 constant_range)" by (simp add: cr_ok_def)
  obtain A where A: "makeAllowedICmpRegion ICMP_SLT (CR 250 10 :: 8 constant_range) = Inr A"
      "gamma A = {x. \<exists>y \<in> gamma (CR 250 10). icmp ICMP_SLT x y}"
    using icmp_regions_exact [OF ok] by blast
  have "A = CR SignedMinValue 9"
    using A(1) by (simp add: makeAllowedICmpRegion_def uneven_simps getSignedMax_def Let_def from_bounds_def
        SignedMinValue_def word_sless_alt split: if_splits)
  then show ?thesis using A(1) by (simp add: contains_def isWrappedSet_def SignedMinValue_def)
qed

text \<open>
  \<open>getEquivalentICmp\<close> finds a comparison with a constant exactly when there is one: the predicate and
  constant it returns hold of the values of the range and of no other, its assertion \<open>Bad result!\<close> never
  fails, and when it returns false no integer comparison with a constant describes the range.
\<close>

theorem getEquivalentICmp_correct:
  assumes "cr_ok R"
  shows "case getEquivalentICmp R of
      Inl e \<Rightarrow> False
    | Inr None \<Rightarrow> (\<forall>p c. gamma R \<noteq> {x. icmp p x c})
    | Inr (Some (p, c)) \<Rightarrow> gamma R = {x. icmp p x c}"
  using getEquivalentICmp_cases [OF assms] getEquivalentICmp_None [OF assms]
  by (auto split: sum.splits option.splits)

theorem getEquivalentICmp_correct_witness:
  "getEquivalentICmp (CR 7 128 :: 8 constant_range) = Inr (Some (ICMP_SGE, 7)) \<and>
   gamma (CR 7 128 :: 8 constant_range) = {x. 7 \<le>s x}"
proof -
  have ok: "cr_ok (CR 7 128 :: 8 constant_range)" by (simp add: cr_ok_def)
  have m: "(SignedMinValue :: 8 word) = 128" by (simp add: SignedMinValue_def)
  have u: "\<not> isFullSet (CR 7 128 :: 8 constant_range)" "\<not> isEmptySet (CR 7 128 :: 8 constant_range)"
    by (simp_all add: uneven_simps)
  have "getEquivalentICmp (CR 7 128 :: 8 constant_range) = Inr (Some (ICMP_SGE, 7))"
    using getEquivalentICmp_cases [OF ok] u
    by (auto simp: getEquivalentICmp_def getSingleElement_def getSingleMissingElement_def m bind_result_Inr_iff split: if_splits)
  then show ?thesis using getEquivalentICmp_correct [OF ok] by simp
qed

end
