(* ===== verification/RangeArith.thy ===== *)
theory RangeArith
  imports ConstantRange "HOL-Library.Signed_Division"
begin

text \<open>
  The arithmetic of \<open>lib/IR/ConstantRange.cpp\<close>: the range of a cast, of a sum, a product, a quotient, a
  shift, a minimum, given the ranges of the operands, and the region in which an addition does not
  overflow. The width of the result of a cast is the length of the result's word type, so
  \<open>truncate\<close>, \<open>zeroExtend\<close> and \<open>signExtend\<close> are polymorphic in it and keep the assertion that relates the two
  widths. \<open>approximates F f\<close> is the contract of a transfer function: \<open>F\<close> never runs into an assertion, and
  its range holds every value \<open>f\<close> can have on the operands' ranges.
\<close>

section \<open>Bits of a value\<close>

fun active_bits :: "nat \<Rightarrow> nat" where
  "active_bits n = (if n = 0 then 0 else Suc (active_bits (n div 2)))"

declare active_bits.simps [simp del]

definition getActiveBits :: "'a::len word \<Rightarrow> nat" where
  "getActiveBits w = active_bits (unat w)"

definition countLeadingZeros :: "'a::len word \<Rightarrow> nat" where
  "countLeadingZeros w = LENGTH('a) - getActiveBits w"

definition countTrailingOnes :: "'a::len word \<Rightarrow> nat" where
  "countTrailingOnes w = length (takeWhile (bit w) [0..<LENGTH('a)])"

definition umin_value :: "'a::len word \<Rightarrow> 'a word \<Rightarrow> 'a word" where
  "umin_value A B = (if A < B then A else B)"

definition umax_value :: "'a::len word \<Rightarrow> 'a word \<Rightarrow> 'a word" where
  "umax_value A B = (if B < A then A else B)"

definition smin_value :: "'a::len word \<Rightarrow> 'a word \<Rightarrow> 'a word" where
  "smin_value A B = (if A <s B then A else B)"

definition smax_value :: "'a::len word \<Rightarrow> 'a word \<Rightarrow> 'a word" where
  "smax_value A B = (if B <s A then A else B)"

section \<open>Casts\<close>

definition zeroExtend :: "'a::len constant_range \<Rightarrow> 'b::len constant_range result" where
  "zeroExtend R =
     (if isEmptySet R then Inr (full_or_empty False)
      else if \<not> LENGTH('a) < LENGTH('b) then Inl AssertFailed
      else if isFullSet R \<or> isWrappedSet R
      then from_bounds (if Upper R = 0 then ucast (Lower R) else 0) (push_bit LENGTH('a) 1)
      else from_bounds (ucast (Lower R)) (ucast (Upper R)))"

definition signExtend :: "'a::len constant_range \<Rightarrow> 'b::len constant_range result" where
  "signExtend R =
     (if isEmptySet R then Inr (full_or_empty False)
      else if \<not> LENGTH('a) < LENGTH('b) then Inl AssertFailed
      else if Upper R = SignedMinValue then from_bounds (scast (Lower R)) (ucast (Upper R))
      else if isFullSet R \<or> isSignWrappedSet R
      then from_bounds (NOT (mask (LENGTH('a) - 1))) (mask (LENGTH('a) - 1) + 1)
      else from_bounds (scast (Lower R)) (scast (Upper R)))"

text \<open>The part of \<open>truncate\<close> after the wrapped part has been split off: \<open>[LowerDiv, UpperDiv)\<close> is not
  wrapped, and \<open>U\<close> is the range of what was split off.\<close>

definition truncate_straight :: "'a::len word \<Rightarrow> 'a word \<Rightarrow> 'b::len constant_range \<Rightarrow> 'b constant_range result" where
  "truncate_straight LowerDiv0 UpperDiv0 U =
     (let Adjust = (if getActiveBits LowerDiv0 > LENGTH('b) then LowerDiv0 AND NOT (mask LENGTH('b)) else 0);
          LowerDiv = LowerDiv0 - Adjust;
          UpperDiv = UpperDiv0 - Adjust;
          UpperDivWidth = getActiveBits UpperDiv;
          UpperDiv' = unset_bit LENGTH('b) UpperDiv in
      if UpperDivWidth \<le> LENGTH('b)
      then bind_result (from_bounds (ucast LowerDiv) (ucast UpperDiv)) (\<lambda>X. unionWith X U)
      else if UpperDivWidth = LENGTH('b) + 1 \<and> UpperDiv' < LowerDiv
      then bind_result (from_bounds (ucast LowerDiv) (ucast UpperDiv')) (\<lambda>X. unionWith X U)
      else Inr (full_or_empty True))"

definition truncate :: "'a::len constant_range \<Rightarrow> 'b::len constant_range result" where
  "truncate R =
     (if \<not> LENGTH('b) < LENGTH('a) then Inl AssertFailed
      else if isEmptySet R then Inr (full_or_empty False)
      else if isFullSet R then Inr (full_or_empty True)
      else if isWrappedSet R then
        (if getActiveBits (Upper R) > LENGTH('b) \<or> countTrailingOnes (Upper R) = LENGTH('b)
         then Inr (full_or_empty True)
         else bind_result (from_bounds MaxValue (ucast (Upper R))) (\<lambda>U.
           if Lower R = MaxValue then Inr U else truncate_straight (Lower R) MaxValue U))
      else truncate_straight (Lower R) (Upper R) (full_or_empty False))"

text \<open>Where the widths agree the range is returned as it is; the result type of the model is then another
  name of the same width.\<close>

definition zextOrTrunc :: "'a::len constant_range \<Rightarrow> 'b::len constant_range result" where
  "zextOrTrunc R =
     (if LENGTH('b) < LENGTH('a) then truncate R
      else if LENGTH('a) < LENGTH('b) then zeroExtend R
      else Inr (CR (ucast (Lower R)) (ucast (Upper R))))"

definition sextOrTrunc :: "'a::len constant_range \<Rightarrow> 'b::len constant_range result" where
  "sextOrTrunc R =
     (if LENGTH('b) < LENGTH('a) then truncate R
      else if LENGTH('a) < LENGTH('b) then signExtend R
      else Inr (CR (ucast (Lower R)) (ucast (Upper R))))"

text \<open>\<open>castOp\<close> is asked for a result of some width, and some of its branches return a range of the operand's
  width instead: \<open>Inl\<close> is a range of the operand's width, \<open>Inr\<close> one of the requested width.\<close>

datatype cast_op = Trunc | ZExt | SExt | FPToUI | FPToSI | UIToFP | SIToFP | FPTrunc | FPExt
  | PtrToInt | IntToPtr | BitCast | AddrSpaceCast

definition castOp :: "cast_op \<Rightarrow> 'a::len constant_range \<Rightarrow> ('a constant_range + 'b::len constant_range) result" where
  "castOp CastOp R = (case CastOp of
     Trunc \<Rightarrow> map_sum id Inr (truncate R)
   | SExt \<Rightarrow> map_sum id Inr (signExtend R)
   | ZExt \<Rightarrow> map_sum id Inr (zeroExtend R)
   | BitCast \<Rightarrow> Inr (Inl R)
   | FPToUI \<Rightarrow> if LENGTH('a) = LENGTH('b) then Inr (Inl R) else Inr (Inl (full_or_empty True))
   | FPToSI \<Rightarrow> if LENGTH('a) = LENGTH('b) then Inr (Inl R) else Inr (Inl (full_or_empty True))
   | UIToFP \<Rightarrow>
       if LENGTH('a) < LENGTH('b)
       then map_sum id Inr (from_bounds (ucast (0 :: 'a word)) (ucast (MaxValue :: 'a word)))
       else map_sum id Inl (from_bounds 0 MaxValue)
   | SIToFP \<Rightarrow>
       if LENGTH('a) < LENGTH('b)
       then map_sum id Inr (from_bounds (scast (SignedMinValue :: 'a word)) (scast (SignedMaxValue :: 'a word)))
       else map_sum id Inl (from_bounds SignedMinValue SignedMaxValue)
   | _ \<Rightarrow> Inr (Inl (full_or_empty True)))"

section \<open>Arithmetic\<close>

text \<open>The last step of \<open>add\<close> and \<open>sub\<close>: a result smaller than an operand has wrapped.\<close>

definition full_if_wrapped :: "'a::len constant_range \<Rightarrow> 'a constant_range \<Rightarrow> 'a word \<Rightarrow> 'a word \<Rightarrow> 'a constant_range result" where
  "full_if_wrapped R Other NewLower NewUpper =
     (if NewLower = NewUpper then Inr (full_or_empty True)
      else bind_result (from_bounds NewLower NewUpper) (\<lambda>X.
        if isSizeStrictlySmallerThan X R \<or> isSizeStrictlySmallerThan X Other
        then Inr (full_or_empty True) else Inr X))"

definition add :: "'a::len constant_range \<Rightarrow> 'a constant_range \<Rightarrow> 'a constant_range result" where
  "add R Other =
     (if isEmptySet R \<or> isEmptySet Other then Inr (full_or_empty False)
      else if isFullSet R \<or> isFullSet Other then Inr (full_or_empty True)
      else full_if_wrapped R Other (Lower R + Lower Other) (Upper R + Upper Other - 1))"

definition sub :: "'a::len constant_range \<Rightarrow> 'a constant_range \<Rightarrow> 'a constant_range result" where
  "sub R Other =
     (if isEmptySet R \<or> isEmptySet Other then Inr (full_or_empty False)
      else if isFullSet R \<or> isFullSet Other then Inr (full_or_empty True)
      else full_if_wrapped R Other (Lower R - Upper Other + 1) (Upper R - Lower Other))"

text \<open>\<open>multiply\<close> works at twice the width, once on the unsigned and once on the signed bounds.\<close>

definition unsigned_product :: "'a::len constant_range \<Rightarrow> 'a constant_range \<Rightarrow> 'a constant_range result" where
  "unsigned_product R Other =
     (let this_min = ucast (getUnsignedMin R) :: 'a bit0 word;
          this_max = ucast (getUnsignedMax R);
          Other_min = ucast (getUnsignedMin Other);
          Other_max = ucast (getUnsignedMax Other) in
      bind_result (from_bounds (this_min * Other_min) (this_max * Other_max + 1)) truncate)"

definition signed_product :: "'a::len constant_range \<Rightarrow> 'a constant_range \<Rightarrow> 'a constant_range result" where
  "signed_product R Other =
     (let this_min = scast (getSignedMin R) :: 'a bit0 word;
          this_max = scast (getSignedMax R);
          Other_min = scast (getSignedMin Other);
          Other_max = scast (getSignedMax Other);
          products = [this_min * Other_max, this_max * Other_min, this_max * Other_max] in
      bind_result (from_bounds (fold smin_value products (this_min * Other_min))
                               (fold smax_value products (this_min * Other_min) + 1)) truncate)"

definition multiply :: "'a::len constant_range \<Rightarrow> 'a constant_range \<Rightarrow> 'a constant_range result" where
  "multiply R Other =
     (if isEmptySet R \<or> isEmptySet Other then Inr (full_or_empty False)
      else bind_result (unsigned_product R Other) (\<lambda>UR.
        if \<not> isWrappedSet UR \<and> (0 \<le>s Upper UR \<or> Upper UR = SignedMinValue) then Inr UR
        else bind_result (signed_product R Other) (\<lambda>SR.
          Inr (if isSizeStrictlySmallerThan UR SR then UR else SR))))"

text \<open>A range from inclusive bounds, which is the full set when the end wraps to the start.\<close>

definition full_if_equal :: "'a::len word \<Rightarrow> 'a word \<Rightarrow> 'a constant_range result" where
  "full_if_equal NewL NewU = (if NewU = NewL then Inr (full_or_empty True) else from_bounds NewL NewU)"

definition smax :: "'a::len constant_range \<Rightarrow> 'a constant_range \<Rightarrow> 'a constant_range result" where
  "smax R Other =
     (if isEmptySet R \<or> isEmptySet Other then Inr (full_or_empty False)
      else full_if_equal (smax_value (getSignedMin R) (getSignedMin Other))
             (smax_value (getSignedMax R) (getSignedMax Other) + 1))"

definition umax :: "'a::len constant_range \<Rightarrow> 'a constant_range \<Rightarrow> 'a constant_range result" where
  "umax R Other =
     (if isEmptySet R \<or> isEmptySet Other then Inr (full_or_empty False)
      else full_if_equal (umax_value (getUnsignedMin R) (getUnsignedMin Other))
             (umax_value (getUnsignedMax R) (getUnsignedMax Other) + 1))"

definition smin :: "'a::len constant_range \<Rightarrow> 'a constant_range \<Rightarrow> 'a constant_range result" where
  "smin R Other =
     (if isEmptySet R \<or> isEmptySet Other then Inr (full_or_empty False)
      else full_if_equal (smin_value (getSignedMin R) (getSignedMin Other))
             (smin_value (getSignedMax R) (getSignedMax Other) + 1))"

definition umin :: "'a::len constant_range \<Rightarrow> 'a constant_range \<Rightarrow> 'a constant_range result" where
  "umin R Other =
     (if isEmptySet R \<or> isEmptySet Other then Inr (full_or_empty False)
      else full_if_equal (umin_value (getUnsignedMin R) (getUnsignedMin Other))
             (umin_value (getUnsignedMax R) (getUnsignedMax Other) + 1))"

text \<open>\<open>APInt::udiv\<close> asserts that the divisor is not zero.\<close>

definition udiv_value :: "'a::len word \<Rightarrow> 'a word \<Rightarrow> 'a word result" where
  "udiv_value A B = (if B = 0 then Inl AssertFailed else Inr (A div B))"

definition udiv :: "'a::len constant_range \<Rightarrow> 'a constant_range \<Rightarrow> 'a constant_range result" where
  "udiv R RHS =
     (if isEmptySet R \<or> isEmptySet RHS \<or> getUnsignedMax RHS = 0 then Inr (full_or_empty False)
      else if isFullSet RHS then Inr (full_or_empty True)
      else bind_result (udiv_value (getUnsignedMin R) (getUnsignedMax RHS)) (\<lambda>L.
        let RHS_umin =
          (if getUnsignedMin RHS = 0 then (if Upper RHS = 1 then Lower RHS else 1) else getUnsignedMin RHS) in
        bind_result (udiv_value (getUnsignedMax R) RHS_umin) (\<lambda>Q.
          let U = Q + 1 in
          if L = U then Inr (full_or_empty True) else from_bounds L U)))"

definition binaryAnd :: "'a::len constant_range \<Rightarrow> 'a constant_range \<Rightarrow> 'a constant_range result" where
  "binaryAnd R Other =
     (if isEmptySet R \<or> isEmptySet Other then Inr (full_or_empty False)
      else let m = umin_value (getUnsignedMax Other) (getUnsignedMax R) in
        if m = - 1 then Inr (full_or_empty True) else from_bounds 0 (m + 1))"

definition binaryOr :: "'a::len constant_range \<Rightarrow> 'a constant_range \<Rightarrow> 'a constant_range result" where
  "binaryOr R Other =
     (if isEmptySet R \<or> isEmptySet Other then Inr (full_or_empty False)
      else let m = umax_value (getUnsignedMin R) (getUnsignedMin Other) in
        if m = 0 then Inr (full_or_empty True) else from_bounds m 0)"

text \<open>A shift by the width or more gives zero.\<close>

definition shl :: "'a::len constant_range \<Rightarrow> 'a constant_range \<Rightarrow> 'a constant_range result" where
  "shl R Other =
     (if isEmptySet R \<or> isEmptySet Other then Inr (full_or_empty False)
      else let mx = getUnsignedMax R; Other_umax = getUnsignedMax Other in
        if unat Other_umax \<ge> countLeadingZeros mx then Inr (full_or_empty True)
        else from_bounds (push_bit (unat (getUnsignedMin Other)) (getUnsignedMin R))
               (push_bit (unat Other_umax) mx + 1))"

definition lshr :: "'a::len constant_range \<Rightarrow> 'a constant_range \<Rightarrow> 'a constant_range result" where
  "lshr R Other =
     (if isEmptySet R \<or> isEmptySet Other then Inr (full_or_empty False)
      else let mx = drop_bit (unat (getUnsignedMin Other)) (getUnsignedMax R) + 1;
               mn = drop_bit (unat (getUnsignedMax Other)) (getUnsignedMin R) in
        if mn = mx then Inr (full_or_empty True) else from_bounds mn mx)"

datatype binary_op = Add | FAdd | Sub | FSub | Mul | FMul | UDiv | SDiv | FDiv | URem | SRem | FRem
  | Shl | LShr | AShr | And | Or | Xor

definition binaryOp :: "binary_op \<Rightarrow> 'a::len constant_range \<Rightarrow> 'a constant_range \<Rightarrow> 'a constant_range result" where
  "binaryOp BinOp R Other = (case BinOp of
     Add \<Rightarrow> add R Other | Sub \<Rightarrow> sub R Other | Mul \<Rightarrow> multiply R Other | UDiv \<Rightarrow> udiv R Other
   | Shl \<Rightarrow> shl R Other | LShr \<Rightarrow> lshr R Other | And \<Rightarrow> binaryAnd R Other | Or \<Rightarrow> binaryOr R Other
   | FAdd \<Rightarrow> add R Other | FSub \<Rightarrow> sub R Other | FMul \<Rightarrow> multiply R Other
   | _ \<Rightarrow> Inr (full_or_empty True))"

section \<open>Additions that do not overflow\<close>

definition SubsetIntersect :: "'a::len constant_range \<Rightarrow> 'a constant_range \<Rightarrow> 'a constant_range result" where
  "SubsetIntersect CR0 CR1 =
     bind_result (inverse_range CR0) (\<lambda>I0.
     bind_result (inverse_range CR1) (\<lambda>I1.
     bind_result (unionWith I0 I1) inverse_range))"

text \<open>\<open>NoWrapKind\<close> is the pair of its two bits, no unsigned wrap and no signed wrap.\<close>

definition makeGuaranteedNoWrapRegion ::
  "binary_op \<Rightarrow> 'a::len constant_range \<Rightarrow> bool \<Rightarrow> bool \<Rightarrow> 'a constant_range result" where
  "makeGuaranteedNoWrapRegion BinOp Other NUW NSW =
     (if \<not> NUW \<and> \<not> NSW then Inl AssertFailed
      else if BinOp \<noteq> Add then Inr (full_or_empty False)
      else if getSingleElement Other = Some 0 then Inr (full_or_empty True)
      else
        bind_result
          (if NUW then bind_result (from_bounds 0 (- getUnsignedMax Other)) (SubsetIntersect (full_or_empty True))
           else Inr (full_or_empty True)) (\<lambda>Result.
        if NSW then
          (let SignedMin = getSignedMin Other; SignedMax = getSignedMax Other in
           bind_result
             (if 0 <s SignedMax
              then bind_result (from_bounds SignedMinValue (SignedMinValue - SignedMax)) (SubsetIntersect Result)
              else Inr Result) (\<lambda>Result.
           if SignedMin <s 0
           then bind_result (from_bounds (SignedMinValue - SignedMin) SignedMinValue) (SubsetIntersect Result)
           else Inr Result))
        else Inr Result))"

definition addWithNoSignedWrap :: "'a::len constant_range \<Rightarrow> 'a word \<Rightarrow> 'a constant_range result" where
  "addWithNoSignedWrap R Other =
     bind_result (makeGuaranteedNoWrapRegion Add (single_value Other) False True) (\<lambda>NSWRange.
     bind_result (intersectWith R NSWRange) (\<lambda>NSWConstrainedRange.
       add NSWConstrainedRange (single_value Other)))"

section \<open>The contract of a transfer function\<close>

definition approximates ::
  "('a::len constant_range \<Rightarrow> 'a constant_range \<Rightarrow> 'a constant_range result) \<Rightarrow> ('a word \<Rightarrow> 'a word \<Rightarrow> 'a word option) \<Rightarrow> bool" where
  "approximates F f =
     (\<forall>R C. cr_ok R \<longrightarrow> cr_ok C \<longrightarrow>
       returns (\<lambda>X. \<forall>x y z. contains R x \<longrightarrow> contains C y \<longrightarrow> f x y = Some z \<longrightarrow> contains X z) (F R C))"

lemma approximatesI:
  assumes "\<And>R C. cr_ok R \<Longrightarrow> cr_ok C \<Longrightarrow> isEmptySet R \<or> isEmptySet C \<Longrightarrow> F R C = Inr (full_or_empty False)"
    "\<And>R C. cr_ok R \<Longrightarrow> cr_ok C \<Longrightarrow> \<not> isEmptySet R \<Longrightarrow> \<not> isEmptySet C \<Longrightarrow>
      returns (\<lambda>X. \<forall>x y z. contains R x \<longrightarrow> contains C y \<longrightarrow> f x y = Some z \<longrightarrow> contains X z) (F R C)"
  shows "approximates F f"
  unfolding approximates_def
proof (intro allI impI)
  fix R C :: "'a constant_range"
  assume ok: "cr_ok R" "cr_ok C"
  show "returns (\<lambda>X. \<forall>x y z. contains R x \<longrightarrow> contains C y \<longrightarrow> f x y = Some z \<longrightarrow> contains X z) (F R C)"
    using assms(1) [OF ok] assms(2) [OF ok] by (cases "isEmptySet R \<or> isEmptySet C") (auto simp: contains_empty)
qed

lemma active_bits_le: "active_bits n \<le> d \<longleftrightarrow> n < 2 ^ d"
proof (induction n arbitrary: d rule: active_bits.induct)
  case (1 n)
  show ?case
  proof (cases "n = 0")
    case True
    then show ?thesis by (simp add: active_bits.simps [of 0])
  next
    case False
    then show ?thesis using 1 [of "d - 1"] by (cases d) (auto simp: active_bits.simps [of n] div_less_iff_less_mult)
  qed
qed

lemma getActiveBits_le: "getActiveBits w \<le> d \<longleftrightarrow> unat w < 2 ^ d"
  by (simp add: getActiveBits_def active_bits_le)

lemma word_unat_less: "unat (w :: 'a::len word) < 2 ^ LENGTH('a)"
  by (rule unsigned_less)

lemma unat_mask_less:
  assumes "d \<le> LENGTH('a)"
  shows "unat (mask d :: 'a::len word) = 2 ^ d - 1"
proof -
  have "unat (take_bit d (- 1) :: 'a word) = take_bit d (mask LENGTH('a))"
    by (simp only: unsigned_take_bit_eq unsigned_minus_1_eq_mask)
  also have "\<dots> = 2 ^ d - 1" using assms by (simp add: take_bit_of_mask min_absorb1 del: mask_eq_exp_minus_1) (simp add: mask_eq_exp_minus_1)
  finally show ?thesis by (simp only: take_bit_minus_one_eq_mask)
qed

lemma countTrailingOnes_mask:
  fixes w :: "'a::len word"
  assumes "unat w < 2 ^ d" "d < LENGTH('a)"
  shows "countTrailingOnes w = d \<longleftrightarrow> unat w = 2 ^ d - 1"
proof
  have high: "\<not> bit w i" if "d \<le> i" for i
    using assms(1) that bit_take_bit_iff [of d "unat w" i] by (simp add: take_bit_nat_eq_self bit_unsigned_iff)
  show "unat w = 2 ^ d - 1" if "countTrailingOnes w = d"
  proof -
    have "bit w i" if "i < d" for i
    proof -
      have "takeWhile (bit w) [0..<LENGTH('a)] ! i \<in> set (takeWhile (bit w) [0..<LENGTH('a)])"
        using that \<open>countTrailingOnes w = d\<close> by (intro nth_mem) (simp add: countTrailingOnes_def)
      moreover have "takeWhile (bit w) [0..<LENGTH('a)] ! i = i"
        using that \<open>countTrailingOnes w = d\<close> assms(2) by (subst takeWhile_nth) (auto simp: countTrailingOnes_def)
      ultimately show ?thesis by (auto dest: set_takeWhileD)
    qed
    then have "w = mask d" using high by (intro bit_word_eqI) (auto simp: bit_mask_iff, meson leI)
    then show ?thesis using assms(2) by (simp add: unat_mask_less)
  qed
  show "countTrailingOnes w = d" if "unat w = 2 ^ d - 1"
  proof -
    have "w = mask d" using that assms(2) by (simp add: word_unat_eq_iff unat_mask_less)
    moreover have "takeWhile (bit (mask d :: 'a word)) ([0..<d] @ [d..<LENGTH('a)]) = [0..<d]"
      using assms(2) by (subst takeWhile_append2) (auto simp: bit_mask_iff upt_conv_Cons)
    moreover have "[0..<LENGTH('a)] = [0..<d] @ [d..<LENGTH('a)]"
      using assms(2) upt_add_eq_append [of 0 d "LENGTH('a) - d"] by simp
    ultimately show ?thesis by (simp add: countTrailingOnes_def)
  qed
qed

section \<open>Sums and differences\<close>

text \<open>With \<open>p\<close> and \<open>q\<close> the offsets of the operands in their ranges.\<close>

lemma full_if_wrapped_returns:
  fixes R C :: "'a::len constant_range"
  assumes "Lower R \<noteq> Upper R" "Lower C \<noteq> Upper C" "NU - NL = (Upper R - Lower R) + (Upper C - Lower C) - 1"
  shows "returns (\<lambda>X. \<forall>p q. p < Upper R - Lower R \<longrightarrow> q < Upper C - Lower C \<longrightarrow> contains X (NL + (p + q)))
    (full_if_wrapped R C NL NU)"
proof -
  define a b where "a = Upper R - Lower R" and "b = Upper C - Lower C"
  have ab: "a \<noteq> 0" "b \<noteq> 0" "NU - NL = a + b - 1" using assms by (auto simp: a_def b_def)
  have pos: "0 < unat a" "0 < unat b" using ab by (simp_all add: unat_gt_0)
  have nf: "isFullSet R = False" "isFullSet C = False" using assms(1,2) by (auto simp: isFullSet_def)
  show ?thesis
  proof (cases "NL = NU")
    case False
    let ?X = "CR NL NU"
    show ?thesis
    proof (cases "unat a + unat b - 1 < 2 ^ LENGTH('a)")
      case True
      have u: "unat (a + b - 1) = unat a + unat b - 1"
      proof -
        have "a + b - 1 = word_of_nat (unat a + unat b - 1)" using pos by (simp add: of_nat_diff)
        then show ?thesis using True of_nat_inverse by metis
      qed
      have "contains ?X (NL + (p + q))" if "p < a" "q < b" for p q
      proof -
        have l: "unat p + unat q < unat a + unat b - 1" using that pos by (simp add: word_less_nat_alt)
        then have "unat (p + q) = unat p + unat q" using True by (intro unat_add_lem [THEN iffD1]) simp
        then show ?thesis using False l by (simp add: contains_offset ab(3) word_less_nat_alt u)
      qed
      then show ?thesis
        using False nf by (auto simp: full_if_wrapped_def a_def b_def uneven_simps from_bounds_def)
    next
      case wrap: False
      have "unat (a + b - 1) = unat a + unat b - 1 - 2 ^ LENGTH('a)"
      proof -
        have "a + b - 1 = word_of_nat (unat a + unat b - 1 - 2 ^ LENGTH('a))" using pos wrap by (simp add: of_nat_diff)
        moreover have "unat a + unat b - 1 - 2 ^ LENGTH('a) < 2 ^ LENGTH('a)"
          using word_unat_less [of a] word_unat_less [of b] by linarith
        ultimately show ?thesis using of_nat_inverse by metis
      qed
      then have "a + b - 1 < a" using word_unat_less [of b] pos unfolding word_less_nat_alt by linarith
      then have "isSizeStrictlySmallerThan ?X R"
        using False nf ab(3) by (simp add: isSizeStrictlySmallerThan_def uneven_simps a_def)
      then show ?thesis using False by (simp add: full_if_wrapped_def from_bounds_def)
    qed
  qed (simp add: full_if_wrapped_def)
qed

lemma add_approximates: "approximates add (\<lambda>x y. Some (x + y))"
proof (rule approximatesI)
  fix R C :: "'a constant_range"
  assume ok: "cr_ok R" "cr_ok C" and ne: "\<not> isEmptySet R" "\<not> isEmptySet C"
  show "returns (\<lambda>X. \<forall>x y z. contains R x \<longrightarrow> contains C y \<longrightarrow> Some (x + y) = Some z \<longrightarrow> contains X z) (add R C)"
  proof (cases "isFullSet R \<or> isFullSet C")
    case False
    then have u: "Lower R \<noteq> Upper R" "Lower C \<noteq> Upper C" using ok ne by (auto simp: uneven_ends)
    have shift: "Lower R + Lower C + ((x - Lower R) + (y - Lower C)) = x + y" for x y by simp
    have "returns (\<lambda>X. \<forall>p q. p < Upper R - Lower R \<longrightarrow> q < Upper C - Lower C \<longrightarrow> contains X (Lower R + Lower C + (p + q)))
        (add R C)"
      using False ne by (simp only: add_def simp_thms if_False) (rule full_if_wrapped_returns [OF u], simp)
    then show ?thesis
      by (rule returns_mono) (metis contains_offset shift option.inject u)
  qed (use ne in \<open>auto simp: add_def\<close>)
qed (auto simp: add_def)

lemma sub_approximates: "approximates sub (\<lambda>x y. Some (x - y))"
proof (rule approximatesI)
  fix R C :: "'a constant_range"
  assume ok: "cr_ok R" "cr_ok C" and ne: "\<not> isEmptySet R" "\<not> isEmptySet C"
  show "returns (\<lambda>X. \<forall>x y z. contains R x \<longrightarrow> contains C y \<longrightarrow> Some (x - y) = Some z \<longrightarrow> contains X z) (sub R C)"
  proof (cases "isFullSet R \<or> isFullSet C")
    case False
    then have u: "Lower R \<noteq> Upper R" "Lower C \<noteq> Upper C" using ok ne by (auto simp: uneven_ends)
    have "returns (\<lambda>X. \<forall>p q. p < Upper R - Lower R \<longrightarrow> q < Upper C - Lower C \<longrightarrow> contains X (Lower R - Upper C + 1 + (p + q)))
        (sub R C)"
      using False ne by (simp only: sub_def simp_thms if_False) (rule full_if_wrapped_returns [OF u], simp)
    moreover have "Lower R - Upper C + 1 + ((x - Lower R) + (Upper C - 1 - y)) = x - y" for x y by simp
    moreover have "Upper C - 1 - y < Upper C - Lower C" if "contains C y" for y
    proof -
      have "unat (y - Lower C) < unat (Upper C - Lower C)" using that u by (simp add: contains_offset word_less_nat_alt)
      moreover have "Upper C - 1 - y = word_of_nat (unat (Upper C - Lower C) - 1 - unat (y - Lower C))"
        using calculation by (simp add: of_nat_diff)
      moreover have "unat (Upper C - Lower C) - 1 - unat (y - Lower C) < 2 ^ LENGTH('a)"
        using unsigned_less [of "Upper C - Lower C"] by (meson diff_le_self le_less_trans)
      ultimately have "unat (Upper C - 1 - y) = unat (Upper C - Lower C) - 1 - unat (y - Lower C)"
        using of_nat_inverse by metis
      then show ?thesis using \<open>unat (y - Lower C) < _\<close> by (simp add: word_less_nat_alt)
    qed
    ultimately show ?thesis
      by (elim returns_mono) (metis contains_offset option.inject u)
  qed (use ne in \<open>auto simp: sub_def\<close>)
qed (auto simp: sub_def)

section \<open>Extrema, quotients, masks and shifts\<close>

text \<open>These ranges are exact: the values between two inclusive bounds.\<close>

lemma full_if_equal_unsigned:
  assumes "L \<le> M"
  shows "returns (\<lambda>X. \<forall>z. contains X z \<longleftrightarrow> L \<le> z \<and> z \<le> M) (full_if_equal L (M + 1))"
proof (cases "M + 1 = L")
  case True
  then have "M = MaxValue" using assms by (metis less_succ(2) linorder_not_le order_less_le)
  then have "L = 0" using True by simp
  then show ?thesis using True \<open>M = MaxValue\<close> by (auto simp: full_if_equal_def)
next
  case False
  show ?thesis
  proof (cases "M = MaxValue")
    case True
    then show ?thesis using False by (simp add: full_if_equal_def contains_high)
  next
    case no: False
    then have "L < M + 1" using assms less_succ(1) by blast
    then show ?thesis using False no by (auto simp: full_if_equal_def contains_CR less_succ(1))
  qed
qed

lemma contains_CR_signed:
  "L <s U \<Longrightarrow> contains (CR L U) z \<longleftrightarrow> L \<le>s z \<and> z <s U"
proof -
  assume "L <s U"
  then have "rot L < rot U" "L \<noteq> U" by (auto simp: rot_less)
  then show ?thesis by (simp add: contains_CR_rot [OF \<open>L \<noteq> U\<close>] contains_CR rot_less rot_le)
qed

lemma SignedMax_succ [simp]: "SignedMaxValue + 1 = SignedMinValue"
  by (simp add: SignedMaxValue_def)

lemma full_if_equal_signed:
  assumes "L \<le>s M"
  shows "returns (\<lambda>X. \<forall>z. contains X z \<longleftrightarrow> L \<le>s z \<and> z \<le>s M) (full_if_equal L (M + 1))"
proof (cases "M = SignedMaxValue")
  case True
  then show ?thesis
    by (cases "L = SignedMinValue") (auto simp: full_if_equal_def contains_shigh signed_extremes)
next
  case False
  then have l: "L <s M + 1" using assms sless_succ(1) by blast
  then have "M + 1 \<noteq> L" by auto
  then show ?thesis using l by (auto simp: full_if_equal_def contains_CR_signed sless_succ(1) [OF False])
qed

text \<open>What the unsigned and the signed bounds of a range have in common: an order of the values, in which a
  range lies between its two bounds, and every interval between two bounds is a range.\<close>

locale bounded_order =
  fixes le :: "'a::len word \<Rightarrow> 'a word \<Rightarrow> bool"
    and lo hi :: "'a constant_range \<Rightarrow> 'a word"
  assumes le_trans: "le x y \<Longrightarrow> le y z \<Longrightarrow> le x z"
    and hi_greatest: "cr_ok R \<Longrightarrow> \<not> isEmptySet R \<Longrightarrow> contains R (hi R) \<and> (\<forall>v. contains R v \<longrightarrow> le v (hi R))"
    and lo_least: "cr_ok R \<Longrightarrow> \<not> isEmptySet R \<Longrightarrow> contains R (lo R) \<and> (\<forall>v. contains R v \<longrightarrow> le (lo R) v)"
    and enclosed: "le L M \<Longrightarrow> returns (\<lambda>X. \<forall>z. contains X z \<longleftrightarrow> le L z \<and> le z M) (full_if_equal L (M + 1))"
begin

lemma monotone_approximates:
  assumes mono: "\<And>x x' y y'. le x x' \<Longrightarrow> le y y' \<Longrightarrow> le (f x y) (f x' y')"
  shows "approximates
    (\<lambda>R C. if isEmptySet R \<or> isEmptySet C then Inr (full_or_empty False)
           else full_if_equal (f (lo R) (lo C)) (f (hi R) (hi C) + 1))
    (\<lambda>x y. Some (f x y))"
proof (rule approximatesI)
  fix R C :: "'a constant_range"
  assume ok: "cr_ok R" "cr_ok C" and ne: "\<not> isEmptySet R" "\<not> isEmptySet C"
  note b = hi_greatest [OF ok(1) ne(1)] lo_least [OF ok(1) ne(1)] hi_greatest [OF ok(2) ne(2)] lo_least [OF ok(2) ne(2)]
  have "le (f (lo R) (lo C)) (f (hi R) (hi C))" using b by (intro mono) auto
  from enclosed [OF this]
  have "returns (\<lambda>X. \<forall>x y z. contains R x \<longrightarrow> contains C y \<longrightarrow> Some (f x y) = Some z \<longrightarrow> contains X z)
    (full_if_equal (f (lo R) (lo C)) (f (hi R) (hi C) + 1))"
    by (rule returns_mono) (use b mono in auto)
  then show "returns (\<lambda>X. \<forall>x y z. contains R x \<longrightarrow> contains C y \<longrightarrow> Some (f x y) = Some z \<longrightarrow> contains X z)
    (if isEmptySet R \<or> isEmptySet C then Inr (full_or_empty False)
           else full_if_equal (f (lo R) (lo C)) (f (hi R) (hi C) + 1))"
    using ne by simp
qed auto

end

interpretation unsigned: bounded_order "(\<le>)" getUnsignedMin getUnsignedMax
  by unfold_locales (fact order_trans getUnsignedMax_greatest getUnsignedMin_least full_if_equal_unsigned)+

interpretation signed: bounded_order "word_sle" getSignedMin getSignedMax
  by unfold_locales (fact signed.order_trans getSignedMax_greatest getSignedMin_least full_if_equal_signed)+

lemma extrema_approximate:
  "approximates (umax :: 'a::len constant_range \<Rightarrow> _) (\<lambda>x y. Some (umax_value x y))" "approximates (umin :: 'a::len constant_range \<Rightarrow> _) (\<lambda>x y. Some (umin_value x y))"
  "approximates (smax :: 'a::len constant_range \<Rightarrow> _) (\<lambda>x y. Some (smax_value x y))" "approximates (smin :: 'a::len constant_range \<Rightarrow> _) (\<lambda>x y. Some (smin_value x y))"
proof -
  have u: "umax_value x y \<le> umax_value x' y'" "umin_value x y \<le> umin_value x' y'" if "x \<le> x'" "y \<le> y'"
    for x x' y y' :: "'a word" using that by (auto simp: umax_value_def umin_value_def)
  have s: "smax_value x y \<le>s smax_value x' y'" "smin_value x y \<le>s smin_value x' y'" if "x \<le>s x'" "y \<le>s y'"
    for x x' y y' :: "'a word" using that by (auto simp: smax_value_def smin_value_def rot_le rot_less)
  show "approximates (umax :: 'a constant_range \<Rightarrow> _) (\<lambda>x y. Some (umax_value x y))"
    unfolding umax_def [abs_def] by (rule unsigned.monotone_approximates [of umax_value]) (rule u)
  show "approximates (umin :: 'a constant_range \<Rightarrow> _) (\<lambda>x y. Some (umin_value x y))"
    unfolding umin_def [abs_def] by (rule unsigned.monotone_approximates [of umin_value]) (rule u)
  show "approximates (smax :: 'a constant_range \<Rightarrow> _) (\<lambda>x y. Some (smax_value x y))"
    unfolding smax_def [abs_def] by (rule signed.monotone_approximates [of smax_value]) (rule s)
  show "approximates (smin :: 'a constant_range \<Rightarrow> _) (\<lambda>x y. Some (smin_value x y))"
    unfolding smin_def [abs_def] by (rule signed.monotone_approximates [of smin_value]) (rule s)
qed

lemma div_mono_word:
  fixes x x' y y' :: "'a::len word"
  assumes "x \<le> x'" "y' \<le> y" "y' \<noteq> 0"
  shows "x div y \<le> x' div y'"
proof -
  have "unat x div unat y \<le> unat x' div unat y'"
    using assms by (intro order_trans [OF div_le_mono div_le_mono2]) (auto simp: word_le_nat_alt unat_gt_0)
  then show ?thesis by (simp add: word_le_nat_alt unat_div_distrib)
qed

text \<open>The divisors that occur are not zero, so \<open>APInt::udiv\<close> never asserts.\<close>

lemma udiv_approximates: "approximates udiv (\<lambda>x y. if y = 0 then None else Some (x div y))"
  (is "approximates _ ?f")
proof (rule approximatesI)
  fix R C :: "'a constant_range"
  assume ok: "cr_ok R" "cr_ok C" and ne: "\<not> isEmptySet R" "\<not> isEmptySet C"
  let ?P = "\<lambda>X. \<forall>x y z. contains R x \<longrightarrow> contains C y \<longrightarrow> ?f x y = Some z \<longrightarrow> contains X z"
  note b = getUnsignedMax_greatest [OF ok(1) ne(1)] getUnsignedMin_least [OF ok(1) ne(1)]
    getUnsignedMax_greatest [OF ok(2) ne(2)] getUnsignedMin_least [OF ok(2) ne(2)]
  show "returns ?P (udiv R C)"
  proof (cases "getUnsignedMax C = 0 \<or> isFullSet C")
    case True
    then show ?thesis using b ne by (auto simp: udiv_def)
  next
    case False
    define m where "m = (if getUnsignedMin C = 0 then (if Upper C = 1 then Lower C else 1) else getUnsignedMin C)"
    have u: "Lower C \<noteq> Upper C" using False ne ok by (auto simp: uneven_ends)
    have m: "m \<noteq> 0 \<and> (\<forall>y. contains C y \<longrightarrow> y \<noteq> 0 \<longrightarrow> m \<le> y)"
    proof (cases "getUnsignedMin C = 0 \<and> Upper C = 1")
      case True
      have l: "Lower C \<noteq> 0"
      proof
        assume "Lower C = 0"
        then have "getUnsignedMax C = 0" using True u False by (simp add: getUnsignedMax_def isWrappedSet_def)
        then show False using False by blast
      qed
      moreover have "Lower C \<noteq> 1" using u True by auto
      ultimately have "1 < Lower C" by (metis word_le_0_iff linorder_not_le word_less_1 word_le_less_eq)
      then show ?thesis using True l u word_less_1 by (auto simp: m_def contains_def isWrappedSet_def)
    qed (use b in \<open>auto simp: m_def word_less_1 not_less [symmetric]\<close>)
    have le: "getUnsignedMin R div getUnsignedMax C \<le> getUnsignedMax R div m"
      using b m False by (intro div_mono_word) auto
    have q: "udiv R C = full_if_equal (getUnsignedMin R div getUnsignedMax C) (getUnsignedMax R div m + 1)"
    proof -
      have c: "isEmptySet R = False" "isEmptySet C = False" "isFullSet C = False"
          "(getUnsignedMax C = 0) = False" "(m = 0) = False" using False ne m by auto
      show ?thesis
        unfolding udiv_def m_def [symmetric] Let_def udiv_value_def c simp_thms if_False bind_result_simps full_if_equal_def
        by (rule if_cong) auto
    qed
    have in_q: "getUnsignedMin R div getUnsignedMax C \<le> x div y \<and> x div y \<le> getUnsignedMax R div m"
      if "contains R x" "contains C y" "y \<noteq> 0" for x y
      using b m that by (simp add: div_mono_word)
    show ?thesis
      unfolding q by (rule returns_mono [OF full_if_equal_unsigned [OF le]]) (use in_q in \<open>auto split: if_splits\<close>)
  qed
qed (auto simp: udiv_def)

lemma binaryAnd_approximates: "approximates binaryAnd (\<lambda>x y. Some (x AND y))"
proof (rule approximatesI)
  fix R C :: "'a constant_range"
  assume ok: "cr_ok R" "cr_ok C" and ne: "\<not> isEmptySet R" "\<not> isEmptySet C"
  note b = getUnsignedMax_greatest [OF ok(1) ne(1)] getUnsignedMax_greatest [OF ok(2) ne(2)]
  have "binaryAnd R C = full_if_equal 0 (umin_value (getUnsignedMax C) (getUnsignedMax R) + 1)"
    using ne by (auto simp: binaryAnd_def full_if_equal_def Let_def add_eq_0_iff2)
  then show "returns (\<lambda>X. \<forall>x y z. contains R x \<longrightarrow> contains C y \<longrightarrow> Some (x AND y) = Some z \<longrightarrow> contains X z) (binaryAnd R C)"
    by (elim ssubst) (rule returns_mono [OF full_if_equal_unsigned],
      use b in \<open>auto simp: umin_value_def intro: order_trans [OF word_and_le1] order_trans [OF word_and_le2]\<close>)
qed (auto simp: binaryAnd_def)

lemma binaryOr_approximates: "approximates binaryOr (\<lambda>x y. Some (x OR y))"
proof (rule approximatesI)
  fix R C :: "'a constant_range"
  assume ok: "cr_ok R" "cr_ok C" and ne: "\<not> isEmptySet R" "\<not> isEmptySet C"
  note b = getUnsignedMin_least [OF ok(1) ne(1)] getUnsignedMin_least [OF ok(2) ne(2)]
  have "binaryOr R C = full_if_equal (umax_value (getUnsignedMin R) (getUnsignedMin C)) (MaxValue + 1)"
    using ne by (auto simp: binaryOr_def full_if_equal_def Let_def)
  then show "returns (\<lambda>X. \<forall>x y z. contains R x \<longrightarrow> contains C y \<longrightarrow> Some (x OR y) = Some z \<longrightarrow> contains X z) (binaryOr R C)"
    by (elim ssubst) (rule returns_mono [OF full_if_equal_unsigned],
      use b in \<open>auto simp: umax_value_def intro: order_trans [OF _ le_word_or1] order_trans [OF _ le_word_or2]\<close>)
qed (auto simp: binaryOr_def)

lemma unat_drop_bit: "unat (drop_bit n (w :: 'a::len word)) = unat w div 2 ^ n"
proof -
  have "unat (drop_bit n w) = drop_bit n (unat w)" by (simp add: unsigned_drop_bit_eq take_bit_nat_eq_self)
  then show ?thesis unfolding drop_bit_eq_div [of n "unat w"] .
qed

lemma drop_bit_mono:
  fixes x x' :: "'a::len word"
  assumes "x \<le> x'" "n' \<le> n"
  shows "drop_bit n x \<le> drop_bit n' x'"
proof -
  have "unat x div 2 ^ n \<le> unat x' div 2 ^ n'"
    using assms by (intro order_trans [OF div_le_mono div_le_mono2]) (auto simp: word_le_nat_alt)
  then show ?thesis by (simp add: word_le_nat_alt unat_drop_bit)
qed

lemma lshr_approximates: "approximates lshr (\<lambda>x y. Some (drop_bit (unat y) x))"
proof (rule approximatesI)
  fix R C :: "'a constant_range"
  assume ok: "cr_ok R" "cr_ok C" and ne: "\<not> isEmptySet R" "\<not> isEmptySet C"
  note b = getUnsignedMax_greatest [OF ok(1) ne(1)] getUnsignedMin_least [OF ok(1) ne(1)]
    getUnsignedMax_greatest [OF ok(2) ne(2)] getUnsignedMin_least [OF ok(2) ne(2)]
  let ?L = "drop_bit (unat (getUnsignedMax C)) (getUnsignedMin R)" and ?M = "drop_bit (unat (getUnsignedMin C)) (getUnsignedMax R)"
  have le: "?L \<le> ?M" using b by (intro drop_bit_mono) (auto simp: word_le_nat_alt [symmetric])
  have "lshr R C = full_if_equal ?L (?M + 1)"
    using ne by (auto simp: lshr_def full_if_equal_def Let_def)
  then show "returns (\<lambda>X. \<forall>x y z. contains R x \<longrightarrow> contains C y \<longrightarrow> Some (drop_bit (unat y) x) = Some z \<longrightarrow> contains X z) (lshr R C)"
    by (elim ssubst) (rule returns_mono [OF full_if_equal_unsigned [OF le]],
      use b in \<open>auto intro!: drop_bit_mono simp: word_le_nat_alt [symmetric]\<close>)
qed (auto simp: lshr_def)

lemma unat_push_bit:
  "unat x * 2 ^ n < 2 ^ LENGTH('a) \<Longrightarrow> unat (push_bit n (x :: 'a::len word)) = unat x * 2 ^ n"
proof -
  assume l: "unat x * 2 ^ n < 2 ^ LENGTH('a)"
  have "unat (push_bit n x) = take_bit LENGTH('a) (push_bit n (unat x))" by (simp add: unsigned_push_bit_eq)
  then show ?thesis using l unfolding push_bit_eq_mult [of n "unat x"] by (simp only: take_bit_nat_eq_self)
qed

lemma shl_approximates: "approximates shl (\<lambda>x y. Some (push_bit (unat y) x))"
proof (rule approximatesI)
  fix R C :: "'a constant_range"
  assume ok: "cr_ok R" "cr_ok C" and ne: "\<not> isEmptySet R" "\<not> isEmptySet C"
  note b = getUnsignedMax_greatest [OF ok(1) ne(1)] getUnsignedMin_least [OF ok(1) ne(1)]
    getUnsignedMax_greatest [OF ok(2) ne(2)] getUnsignedMin_least [OF ok(2) ne(2)]
  let ?s = "unat (getUnsignedMax C)" and ?mx = "getUnsignedMax R"
  show "returns (\<lambda>X. \<forall>x y z. contains R x \<longrightarrow> contains C y \<longrightarrow> Some (push_bit (unat y) x) = Some z \<longrightarrow> contains X z) (shl R C)"
  proof (cases "?s \<ge> countLeadingZeros ?mx")
    case False
    have "getActiveBits ?mx \<le> LENGTH('a) - 1 - ?s" using False by (simp add: countLeadingZeros_def)
    then have "unat ?mx < 2 ^ (LENGTH('a) - 1 - ?s)" by (simp add: getActiveBits_le)
    moreover have "(2 :: nat) ^ (LENGTH('a) - 1 - ?s) * 2 ^ ?s = 2 ^ (LENGTH('a) - 1)"
      using False by (simp add: countLeadingZeros_def flip: power_add)
    ultimately have top: "unat ?mx * 2 ^ ?s < 2 ^ (LENGTH('a) - 1)" by (metis mult_less_mono1 zero_less_numeral zero_less_power)
    have half: "(2 :: nat) ^ (LENGTH('a) - 1) < 2 ^ LENGTH('a)" by simp
    have le: "unat x * 2 ^ unat y \<le> unat ?mx * 2 ^ ?s" if "x \<le> ?mx" "y \<le> getUnsignedMax C" for x y
      using that by (intro mult_mono power_increasing) (auto simp: word_le_nat_alt)
    have push: "unat (push_bit (unat y) x) = unat x * 2 ^ unat y" if "x \<le> ?mx" "y \<le> getUnsignedMax C" for x y
      using le [OF that] top half by (intro unat_push_bit) linarith
    have mono: "push_bit (unat y) x \<le> push_bit (unat y') x'"
      if "x \<le> x'" "y \<le> y'" "x' \<le> ?mx" "y' \<le> getUnsignedMax C" for x y x' y'
      using that push [of x y] push [of x' y']
      by (auto simp: word_le_nat_alt intro!: mult_mono power_increasing)
    let ?L = "push_bit (unat (getUnsignedMin C)) (getUnsignedMin R)" and ?M = "push_bit ?s ?mx"
    have LM: "?L \<le> ?M" using b by (intro mono) auto
    have "?M \<noteq> MaxValue"
    proof
      assume "?M = MaxValue"
      then have "unat ?M = 2 ^ LENGTH('a) - 1" by (simp add: unsigned_minus_1_eq_mask mask_eq_exp_minus_1)
      moreover have "(2 :: nat) ^ LENGTH('a) = 2 * 2 ^ (LENGTH('a) - 1)" by (metis len_gt_0 Suc_diff_1 power_Suc)
      ultimately show False using top push [of ?mx "getUnsignedMax C"] by simp
    qed
    then have "?M + 1 \<noteq> ?L" using LM less_succ(1) [of ?M ?L] by auto
    then have "shl R C = full_if_equal ?L (?M + 1)"
      using ne False by (auto simp: shl_def full_if_equal_def Let_def)
    then show ?thesis
      by (elim ssubst) (rule returns_mono [OF full_if_equal_unsigned [OF LM]], use b in \<open>auto intro!: mono\<close>)
  qed (use ne in \<open>auto simp: shl_def Let_def\<close>)
qed (auto simp: shl_def)

section \<open>Widening\<close>

lemma unat_ucast_up:
  "LENGTH('a) \<le> LENGTH('b) \<Longrightarrow> unat (ucast (x :: 'a::len word) :: 'b::len word) = unat x"
proof -
  assume l: "LENGTH('a) \<le> LENGTH('b)"
  have "unat x < 2 ^ LENGTH('b)" using word_unat_less [of x] power_increasing [OF l, of "2 :: nat"] by linarith
  then show ?thesis by (simp add: unsigned_ucast_eq take_bit_nat_eq_self)
qed

lemma sint_of_int:
  "- (2 ^ (LENGTH('a) - 1)) \<le> k \<Longrightarrow> k < 2 ^ (LENGTH('a) - 1) \<Longrightarrow> sint (word_of_int k :: 'a::len word) = k"
  by (simp add: signed_of_int signed_take_bit_int_eq_self)

lemma sint_bounds: "- (2 ^ (LENGTH('a) - 1)) \<le> sint (w :: 'a::len word)" "sint (w :: 'a::len word) < 2 ^ (LENGTH('a) - 1)"
  by (simp_all add: sint_greater_eq sint_less)

lemma half_power_less: "LENGTH('a::len) < LENGTH('b::len) \<Longrightarrow> (2 :: int) ^ (LENGTH('a) - 1) < 2 ^ (LENGTH('b) - 1)"
  by (rule power_strict_increasing) (simp_all add: Suc_leI less_diff_conv2)

lemma sint_scast_up:
  assumes "LENGTH('a) < LENGTH('b)"
  shows "sint (scast (x :: 'a::len word) :: 'b::len word) = sint x"
  unfolding scast_eq
proof (rule sint_of_int)
  show "- (2 ^ (LENGTH('b) - 1)) \<le> sint x" "sint x < 2 ^ (LENGTH('b) - 1)"
    using sint_bounds [of x] half_power_less [OF assms] by linarith+
qed

lemma SignedMin_of_int: "(SignedMinValue :: 'a::len word) = word_of_int (2 ^ (LENGTH('a) - 1))"
  by (simp add: SignedMinValue_def push_bit_eq_mult)

lemma ucast_SignedMin:
  assumes "LENGTH('a) < LENGTH('b)"
  shows "ucast (SignedMinValue :: 'a::len word) = (word_of_int (2 ^ (LENGTH('a) - 1)) :: 'b::len word)"
proof -
  have "uint (SignedMinValue :: 'a word) = 2 ^ (LENGTH('a) - 1)"
    using uint_rot [of "0 :: 'a word"] by simp
  then show ?thesis by (metis ucast_eq)
qed

lemma returns_ordered:
  "L < U \<Longrightarrow> (\<And>x. Q x \<Longrightarrow> L \<le> f x \<and> f x < U) \<Longrightarrow> returns (\<lambda>X. \<forall>x. Q x \<longrightarrow> contains X (f x)) (from_bounds L U)"
  by (auto simp: contains_CR)

lemma returns_signed_ordered:
  "L <s U \<Longrightarrow> (\<And>x. Q x \<Longrightarrow> L \<le>s f x \<and> f x <s U) \<Longrightarrow> returns (\<lambda>X. \<forall>x. Q x \<longrightarrow> contains X (f x)) (from_bounds L U)"
  by (auto simp: contains_CR_signed)

lemma zeroExtend_sound:
  fixes R :: "'a::len constant_range"
  assumes "cr_ok R" "LENGTH('a) < LENGTH('b)"
  shows "returns (\<lambda>X. \<forall>x. contains R x \<longrightarrow> contains X (ucast x)) (zeroExtend R :: 'b::len constant_range result)"
proof (cases "isEmptySet R")
  case True
  then show ?thesis by (simp add: zeroExtend_def contains_empty)
next
  case ne: False
  have up: "unat (ucast x :: 'b word) = unat x" for x :: "'a word" using assms(2) by (intro unat_ucast_up) simp
  have top: "unat (push_bit LENGTH('a) 1 :: 'b word) = 2 ^ LENGTH('a)"
    using assms(2) by (subst unat_push_bit) simp_all
  have order: "(ucast x :: 'b word) < push_bit LENGTH('a) 1" for x :: "'a word"
    unfolding word_less_nat_alt up top by (rule word_unat_less)
  show ?thesis
  proof (cases "isFullSet R \<or> isWrappedSet R")
    case True
    let ?L = "if Upper R = 0 then ucast (Lower R) else 0 :: 'b word"
    have l: "?L < push_bit LENGTH('a) 1" using order [of 0] order [of "Lower R"] by simp
    have low: "?L \<le> ucast x" if "contains R x" for x
    proof (cases "Upper R = 0")
      case up0: True
      then have "isWrappedSet R" using True by (auto simp: isFullSet_def)
      then have "Lower R \<le> x" using that up0 by (auto simp: contains_def isWrappedSet_def split: if_splits)
      then show ?thesis using up0 by (simp add: word_le_nat_alt up)
    qed simp
    have "zeroExtend R = from_bounds ?L (push_bit LENGTH('a) 1)" using ne True assms(2) by (simp add: zeroExtend_def)
    moreover have "?L \<le> ucast x \<and> (ucast x :: 'b word) < push_bit LENGTH('a) 1" if "contains R x" for x
      using low [OF that] order [of x] by blast
    ultimately show ?thesis using l by (elim ssubst) (rule returns_ordered)
  next
    case False
    then have lu: "Lower R < Upper R" using assms(1) ne by (auto simp: cr_ok_def isWrappedSet_def)
    then have "(ucast (Lower R) :: 'b word) < ucast (Upper R)" by (simp add: word_less_nat_alt up)
    moreover have "contains (CR (ucast (Lower R)) (ucast (Upper R)) :: 'b constant_range) (ucast x)" if "contains R x" for x
      using that lu calculation by (auto simp: contains_CR(1) contains_def isWrappedSet_def word_order_nat up split: if_splits)
    ultimately show ?thesis using ne False assms(2) by (auto simp: zeroExtend_def)
  qed
qed

lemma contains_signed_order:
  assumes "\<not> isSignWrappedSet R" "Lower R \<noteq> Upper R" "Upper R \<noteq> SignedMinValue"
  shows "Lower R <s Upper R" "contains R x \<longleftrightarrow> Lower R \<le>s x \<and> x <s Upper R"
proof -
  show "Lower R <s Upper R"
  proof (rule ccontr)
    assume "\<not> ?thesis"
    then have w: "rot (Upper R) < rot (Lower R)" using assms(2) unfolding rot_less by (metis linorder_neqE rot_eq)
    have "rot (Upper R) \<noteq> 0" using assms(3) by (metis rot_ends(1) rot_rot)
    moreover have "rot (SignedMaxValue :: 'a word) = MaxValue" by (metis rot_ends(3) rot_rot)
    ultimately have "contains R SignedMaxValue" "contains R SignedMinValue"
      using w contains_CR_rot [OF assms(2)] CR_eta [of R] by (auto simp: contains_CR word_gt_0)
    then show False using assms(1) by (simp add: isSignWrappedSet_def)
  qed
  then show "contains R x \<longleftrightarrow> Lower R \<le>s x \<and> x <s Upper R" using contains_CR_signed CR_eta by metis
qed

lemma signExtend_sound:
  fixes R :: "'a::len constant_range"
  assumes "cr_ok R" "LENGTH('a) < LENGTH('b)"
  shows "returns (\<lambda>X. \<forall>x. contains R x \<longrightarrow> contains X (scast x)) (signExtend R :: 'b::len constant_range result)"
proof (cases "isEmptySet R")
  case True
  then show ?thesis by (simp add: signExtend_def contains_empty)
next
  case ne: False
  note up = sint_scast_up [OF assms(2)] and half = half_power_less [OF assms(2)]
  have top: "sint (word_of_int (2 ^ (LENGTH('a) - 1)) :: 'b word) = 2 ^ (LENGTH('a) - 1)"
    using half by (intro sint_of_int) (simp_all add: order_trans [of _ 0])
  consider (edge) "Upper R = SignedMinValue" | (wrap) "Upper R \<noteq> SignedMinValue" "isFullSet R \<or> isSignWrappedSet R"
    | (plain) "Upper R \<noteq> SignedMinValue" "\<not> isFullSet R" "\<not> isSignWrappedSet R" by blast
  then show ?thesis
  proof cases
    case edge
    have "Lower R \<le>s x" if "contains R x" for x
    proof (cases "Lower R = SignedMinValue")
      case False
      then show ?thesis using that edge CR_eta [of R] contains_shigh by metis
    qed (simp add: signed_extremes)
    then have in_edge: "scast (Lower R) \<le>s (scast x :: 'b word) \<and> scast x <s (word_of_int (2 ^ (LENGTH('a) - 1)) :: 'b word)"
      if "contains R x" for x
      using that sint_bounds(2) [of x] unfolding word_sless_alt word_sle_eq up top by blast
    have "scast (Lower R) <s (word_of_int (2 ^ (LENGTH('a) - 1)) :: 'b word)"
      using sint_bounds(2) [of "Lower R"] unfolding word_sless_alt up top by blast
    moreover have "signExtend R = from_bounds (scast (Lower R)) (word_of_int (2 ^ (LENGTH('a) - 1)) :: 'b word)"
      using edge ne assms(2) by (simp only: signExtend_def simp_thms if_False if_True ucast_SignedMin)
    ultimately show ?thesis using in_edge by (elim ssubst) (rule returns_signed_ordered)
  next
    case wrap
    have lo: "sint (NOT (mask (LENGTH('a) - 1)) :: 'b word) = - (2 ^ (LENGTH('a) - 1))"
    proof -
      have "(NOT (mask (LENGTH('a) - 1)) :: 'b word) = word_of_int (- (2 ^ (LENGTH('a) - 1)))"
        by (simp add: not_eq_complement mask_eq_exp_minus_1)
      moreover have "sint (word_of_int (- (2 ^ (LENGTH('a) - 1))) :: 'b word) = - (2 ^ (LENGTH('a) - 1))"
      proof (rule sint_of_int)
        show "- (2 ^ (LENGTH('a) - 1)) < (2 :: int) ^ (LENGTH('b) - 1)" by (rule order_less_le_trans [of _ 0]) simp_all
      qed (use half in linarith)
      ultimately show ?thesis by (simp only:)
    qed
    have hi: "(mask (LENGTH('a) - 1) + 1 :: 'b word) = word_of_int (2 ^ (LENGTH('a) - 1))"
      by (simp add: mask_eq_exp_minus_1)
    let ?L = "NOT (mask (LENGTH('a) - 1)) :: 'b word" and ?U = "word_of_int (2 ^ (LENGTH('a) - 1)) :: 'b word"
    have "?L \<le>s scast x \<and> scast x <s ?U" for x :: "'a word"
      using sint_bounds [of x] unfolding word_sless_alt word_sle_eq up top lo by blast
    moreover have "?L <s ?U" unfolding word_sless_alt top lo by (simp add: neg_less_pos)
    moreover have "signExtend R = from_bounds ?L ?U"
      using wrap ne assms(2) by (simp only: signExtend_def simp_thms if_False if_True hi)
    ultimately show ?thesis by (elim ssubst) (rule returns_signed_ordered)
  next
    case plain
    then have lu: "Lower R \<noteq> Upper R" using assms(1) ne by (simp add: uneven_ends)
    note o = contains_signed_order [OF plain(3) lu plain(1)]
    have "signExtend R = from_bounds (scast (Lower R)) (scast (Upper R) :: 'b word)"
      using plain ne assms(2) by (simp only: signExtend_def simp_thms if_False)
    then show ?thesis
      by (elim ssubst) (rule returns_signed_ordered, use o in \<open>simp_all add: word_sless_alt word_sle_eq up\<close>)
  qed
qed

section \<open>Truncation\<close>

lemma ucast_nat: "ucast (x :: 'a::len word) = (word_of_nat (unat x) :: 'b::len word)"
  by simp

lemma unat_of_nat_small: "n < 2 ^ LENGTH('b) \<Longrightarrow> unat (word_of_nat n :: 'b::len word) = n"
  using of_nat_inverse by blast

lemma of_nat_add_multiple: "(word_of_nat (n + 2 ^ LENGTH('b) * k) :: 'b::len word) = word_of_nat n"
  by (simp add: word_of_nat_eq_iff take_bit_eq_mod)

lemma unset_top_bit:
  fixes w :: "'a::len word"
  assumes "unat w < 2 ^ Suc d" "2 ^ d \<le> unat w" "d < LENGTH('a)"
  shows "unat (unset_bit d w) = unat w - 2 ^ d"
proof -
  have "take_bit (Suc d) w = w"
    using assms(1) by (simp add: word_unat_eq_iff unsigned_take_bit_eq take_bit_nat_eq_self)
  then have high: "\<not> bit w i" if "Suc d \<le> i" for i
    using that by (metis bit_take_bit_iff linorder_not_less)
  have "unset_bit d w = take_bit d w"
    by (intro bit_word_eqI) (use high in \<open>auto simp: bit_unset_bit_iff bit_take_bit_iff Suc_le_eq neq_iff\<close>)
  then have "unat (unset_bit d w) = unat w mod 2 ^ d" by (simp add: unsigned_take_bit_eq flip: take_bit_eq_mod)
  also have "\<dots> = unat w - 2 ^ d" using assms(1,2) by (simp add: mod_if)
  finally show ?thesis .
qed

text \<open>After the adjustment the bounds are the offsets \<open>l\<close> and \<open>u\<close> from a multiple of the target's modulus.\<close>

lemma truncate_straight_sound:
  fixes L0 U0 :: "'a::len word" and U :: "'b::len constant_range"
  assumes d: "LENGTH('b) < LENGTH('a)" and lu: "L0 < U0" and "cr_ok U"
  shows "returns (\<lambda>X. (\<forall>x. L0 \<le> x \<and> x < U0 \<longrightarrow> contains X (ucast x)) \<and> (\<forall>v. contains U v \<longrightarrow> contains X v))
    (truncate_straight L0 U0 U)"
    (is "returns ?P _")
proof -
  let ?d = "LENGTH('b)"
  define A where "A = (if getActiveBits L0 > ?d then L0 AND NOT (mask ?d) else 0)"
  define l u where "l = unat L0 mod 2 ^ ?d" and "u = unat U0 - unat L0 + l"
  have A: "L0 - A = take_bit ?d L0"
  proof (cases "getActiveBits L0 > ?d")
    case False
    then have "unat L0 < 2 ^ ?d" by (simp add: getActiveBits_le flip: not_le)
    then show ?thesis using False by (simp add: A_def word_unat_eq_iff unsigned_take_bit_eq take_bit_nat_eq_self)
  next
    case True
    have "L0 - (L0 AND NOT (mask ?d)) = L0 AND NOT (L0 AND NOT (mask ?d))" by (rule disjunctive_diff) (simp add: bit_simps)
    also have "\<dots> = take_bit ?d L0" by (rule bit_word_eqI) (auto simp: bit_simps)
    finally show ?thesis using True by (simp add: A_def)
  qed
  have l: "unat (L0 - A) = l" unfolding A by (simp add: l_def unsigned_take_bit_eq flip: take_bit_eq_mod)
  have ll: "l \<le> unat L0" by (simp add: l_def)
  have lu': "unat L0 < unat U0" using lu by (simp add: word_less_nat_alt)
  have u: "unat (U0 - A) = u"
  proof -
    have "U0 - A = word_of_nat (unat U0) - word_of_nat (unat L0) + word_of_nat (unat (L0 - A))" by simp
    also have "\<dots> = word_of_nat u" unfolding l using lu' by (simp add: u_def of_nat_diff)
    finally have "U0 - A = word_of_nat u" .
    moreover have "u < 2 ^ LENGTH('a)" using lu' ll word_unat_less [of U0] unfolding u_def by linarith
    ultimately show ?thesis by (simp add: unat_of_nat_small)
  qed
  have off: "\<exists>n. ucast x = (word_of_nat n :: 'b word) \<and> l \<le> n \<and> n < u" if "L0 \<le> x" "x < U0" for x
  proof (intro exI conjI)
    have "unat x = (unat x - unat L0 + l) + 2 ^ ?d * (unat L0 div 2 ^ ?d)"
      using that unfolding l_def word_le_nat_alt
      by (metis add.assoc add.commute le_add_diff_inverse2 mult_div_mod_eq)
    then show "ucast x = (word_of_nat (unat x - unat L0 + l) :: 'b word)" by (metis ucast_nat of_nat_add_multiple)
  qed (use that in \<open>auto simp: word_order_nat u_def\<close>)
  have join: "returns ?P (bind_result (from_bounds Lo Up) (\<lambda>X. unionWith X U))"
    if "Lo \<noteq> Up" "\<And>x. L0 \<le> x \<Longrightarrow> x < U0 \<Longrightarrow> contains (CR Lo Up) (ucast x)" for Lo Up :: "'b word"
  proof -
    have "returns ?P (unionWith (CR Lo Up) U)"
      by (rule returns_mono [OF unionWith_returns]) (use that assms(3) in \<open>auto simp: uneven_simps\<close>)
    then show ?thesis using that(1) by (simp add: from_bounds_def)
  qed
  show ?thesis
  proof (cases "getActiveBits (U0 - A) \<le> ?d")
    case True
    then have ub: "u < 2 ^ ?d" by (simp add: getActiveBits_le u)
    have lt: "l < u" using lu' by (simp add: u_def)
    have ends: "unat (ucast (L0 - A) :: 'b word) = l" "unat (ucast (U0 - A) :: 'b word) = u"
      unfolding ucast_nat l u using ub lt by (simp_all add: unat_of_nat_small)
    then have less: "(ucast (L0 - A) :: 'b word) < ucast (U0 - A)" using lt by (simp add: word_less_nat_alt)
    have "contains (CR (ucast (L0 - A)) (ucast (U0 - A)) :: 'b constant_range) (ucast x)" if "L0 \<le> x" "x < U0" for x
      using off [OF that] ub by (auto simp: contains_CR(1) [OF less] word_order_nat ends unat_of_nat_small)
    then show ?thesis
      using True less join by (simp add: truncate_straight_def A_def [symmetric] Let_def)
  next
    case False
    show ?thesis
    proof (cases "getActiveBits (U0 - A) = ?d + 1 \<and> unset_bit ?d (U0 - A) < L0 - A")
      case True
      then have ub: "u < 2 ^ Suc ?d" "2 ^ ?d \<le> u"
        using False getActiveBits_le [of "U0 - A" "Suc ?d"] getActiveBits_le [of "U0 - A" ?d] by (simp_all add: u not_less)
      have cleared: "unat (unset_bit ?d (U0 - A)) = u - 2 ^ ?d" using unset_top_bit [of "U0 - A" ?d] ub d u by simp
      have lt: "u - 2 ^ ?d < l" using True by (simp only: word_less_nat_alt cleared l)
      have lb: "l < 2 ^ ?d" by (simp add: l_def)
      have ends: "unat (ucast (L0 - A) :: 'b word) = l" "unat (ucast (unset_bit ?d (U0 - A)) :: 'b word) = u - 2 ^ ?d"
        unfolding ucast_nat l cleared by (rule unat_of_nat_small, use ub lb in simp)+
      then have less: "(ucast (unset_bit ?d (U0 - A)) :: 'b word) < ucast (L0 - A)" using lt by (simp only: word_less_nat_alt)
      have "contains (CR (ucast (L0 - A)) (ucast (unset_bit ?d (U0 - A))) :: 'b constant_range) (ucast x)"
        if x: "L0 \<le> x" "x < U0" for x
      proof -
        obtain n where n: "ucast x = (word_of_nat n :: 'b word)" "l \<le> n" "n < u" using off [OF x] by blast
        have "unat (word_of_nat n :: 'b word) = (if n < 2 ^ ?d then n else n - 2 ^ ?d)"
          using n(3) ub by (simp add: unat_of_nat mod_if)
        then show ?thesis unfolding contains_CR(2) [OF less] n(1) word_order_nat ends using n ub by auto
      qed
      then show ?thesis
        using True False less join by (simp add: truncate_straight_def A_def [symmetric] Let_def)
    qed (use False in \<open>auto simp: truncate_straight_def A_def [symmetric] Let_def\<close>)
  qed
qed

lemma truncate_sound:
  fixes R :: "'a::len constant_range"
  assumes "cr_ok R" "LENGTH('b) < LENGTH('a)"
  shows "returns (\<lambda>X. \<forall>x. contains R x \<longrightarrow> contains X (ucast x)) (truncate R :: 'b::len constant_range result)"
  using assms(1)
proof (cases R rule: range_cases)
  case empty
  then show ?thesis using assms(2) by (simp add: truncate_def)
next
  case full
  then show ?thesis using assms(2) by (simp add: truncate_def)
next
  case (straight L U)
  have "returns (\<lambda>X. \<forall>x. L \<le> x \<and> x < U \<longrightarrow> contains X (ucast x)) (truncate_straight L U (full_or_empty False :: 'b constant_range))"
    by (rule returns_mono [OF truncate_straight_sound [OF assms(2) straight(2)]]) simp_all
  moreover have "truncate R = truncate_straight L U (full_or_empty False :: 'b constant_range)"
    using straight assms(2) by (auto simp: truncate_def uneven_simps)
  ultimately show ?thesis using straight by (simp add: contains_CR)
next
  case (wrapped L U)
  have tr: "(truncate R :: 'b constant_range result) = (if getActiveBits U > LENGTH('b) \<or> countTrailingOnes U = LENGTH('b) then Inr (full_or_empty True)
      else bind_result (from_bounds MaxValue (ucast U)) (\<lambda>X. if L = MaxValue then Inr X else truncate_straight L MaxValue X))"
    (is "_ = (if ?full then _ else _)")
    using wrapped assms(2) by (auto simp: truncate_def uneven_simps cong: if_cong)
  show ?thesis
  proof (cases ?full)
    case False
    then have ub: "unat U < 2 ^ LENGTH('b)" using getActiveBits_le [of U "LENGTH('b)"] by simp
    then have "unat U \<noteq> 2 ^ LENGTH('b) - 1" using False countTrailingOnes_mask [OF ub assms(2)] by blast
    have uU: "unat (ucast U :: 'b word) = unat U" using ub unfolding ucast_nat by (rule unat_of_nat_small)
    have max: "unat (MaxValue :: 'b word) = 2 ^ LENGTH('b) - 1" by (simp add: unsigned_minus_1_eq_mask mask_eq_exp_minus_1)
    have less: "(ucast U :: 'b word) < MaxValue"
      using ub \<open>unat U \<noteq> _\<close> unfolding word_less_nat_alt uU max by linarith
    define W where "W = CR MaxValue (ucast U :: 'b word)"
    have W: "contains W v \<longleftrightarrow> v = MaxValue \<or> v < ucast U" for v
      unfolding W_def contains_CR(2) [OF less] by (auto simp: word_order.extremum_unique)
    have low: "contains W (ucast x)" if "x < U" for x
    proof -
      have "unat (ucast x :: 'b word) = unat x"
        unfolding ucast_nat using that ub by (intro unat_of_nat_small) (simp add: word_less_nat_alt)
      then show ?thesis using that by (simp add: W word_less_nat_alt uU)
    qed
    have top: "contains W (ucast (MaxValue :: 'a word))"
    proof -
      have "ucast (MaxValue :: 'a word) = (MaxValue :: 'b word)"
        using assms(2) by (intro bit_word_eqI) (auto simp: bit_simps)
      then show ?thesis by (simp add: W)
    qed
    have ok: "cr_ok W" using less by (auto simp: W_def intro: uneven_simps)
    have fb: "from_bounds MaxValue (ucast U :: 'b word) = Inr W" using less by (auto simp: from_bounds_def W_def)
    show ?thesis
    proof (cases "L = MaxValue")
      case True
      have "contains W (ucast x)" if "contains R x" for x
        using that low top True wrapped by (auto simp: contains_CR word_order.extremum_unique)
      then show ?thesis using tr False fb True ok by simp
    next
      case lm: False
      then have "L < MaxValue" by (simp add: word_order.not_eq_extremum)
      have "returns (\<lambda>X. \<forall>x. contains R x \<longrightarrow> contains X (ucast x)) (truncate_straight L MaxValue W)"
      proof (rule returns_mono [OF truncate_straight_sound [OF assms(2) \<open>L < MaxValue\<close> ok]])
        fix X assume X: "(\<forall>x. L \<le> x \<and> x < MaxValue \<longrightarrow> contains X (ucast x)) \<and> (\<forall>v. contains W v \<longrightarrow> contains X v)"
        have "contains X (ucast x)" if "contains R x" for x
        proof (cases "x = MaxValue")
          case False
          then have "x < MaxValue" by (simp add: word_order.not_eq_extremum)
          then show ?thesis using X low that wrapped by (auto simp: contains_CR)
        qed (use X top in blast)
        then show "\<forall>x. contains R x \<longrightarrow> contains X (ucast x)" by blast
      qed
      then show ?thesis using tr False fb lm by simp
    qed
  qed (use tr in simp)
qed

section \<open>Products\<close>

lemma LENGTH_bit0_less: "LENGTH('a::len) < LENGTH('a bit0)"
  by simp

lemma ucast_of_nat_down:
  "LENGTH('b) \<le> LENGTH('a) \<Longrightarrow> ucast (word_of_nat n :: 'a::len word) = (word_of_nat n :: 'b::len word)"
  by (simp add: unsigned_of_nat word_of_nat_eq_iff take_bit_take_bit min_def)

lemma unat_product:
  fixes x y :: "'a::len word"
  shows "unat (ucast x * ucast y :: 'a bit0 word) = unat x * unat y"
proof -
  have "unat x * unat y < 2 ^ LENGTH('a) * 2 ^ LENGTH('a)"
    by (intro mult_strict_mono word_unat_less) simp_all
  then have "unat x * unat y < 2 ^ LENGTH('a bit0)" by (simp add: mult_2 power_add)
  then have "unat (word_of_nat (unat x * unat y) :: 'a bit0 word) = unat x * unat y" by (rule unat_of_nat_small)
  then show ?thesis unfolding ucast_nat of_nat_mult .
qed

lemma ucast_product:
  fixes x y :: "'a::len word"
  shows "ucast (ucast x * ucast y :: 'a bit0 word) = x * y"
proof -
  have "ucast (ucast x * ucast y :: 'a bit0 word) = (word_of_nat (unat x * unat y) :: 'a word)"
    unfolding ucast_nat [of "ucast x * ucast y"] unat_product ..
  then show ?thesis by simp
qed

lemma unsigned_product_sound:
  assumes "cr_ok R" "cr_ok C" "\<not> isEmptySet R" "\<not> isEmptySet C"
  shows "returns (\<lambda>X. \<forall>x y. contains R x \<longrightarrow> contains C y \<longrightarrow> contains X (x * y)) (unsigned_product R C)"
proof -
  note b = getUnsignedMax_greatest [OF assms(1,3)] getUnsignedMin_least [OF assms(1,3)]
    getUnsignedMax_greatest [OF assms(2,4)] getUnsignedMin_least [OF assms(2,4)]
  let ?L = "ucast (getUnsignedMin R) * ucast (getUnsignedMin C) :: 'a bit0 word"
    and ?M = "ucast (getUnsignedMax R) * ucast (getUnsignedMax C) :: 'a bit0 word"
  have mono: "(ucast x * ucast y :: 'a bit0 word) \<le> ucast x' * ucast y'" if "x \<le> x'" "y \<le> y'" for x x' y y' :: "'a word"
    using that unfolding word_le_nat_alt unat_product by (rule mult_le_mono)
  have LM: "?L \<le> ?M" using b by (intro mono) auto
  have "?M \<noteq> MaxValue"
  proof
    assume "?M = MaxValue"
    then have "unat (getUnsignedMax R) * unat (getUnsignedMax C) = 2 ^ LENGTH('a bit0) - 1"
      by (metis unat_product unsigned_minus_1_eq_mask mask_eq_exp_minus_1)
    also have "\<dots> = (2 ^ LENGTH('a) - 1) * (2 ^ LENGTH('a) - 1) + 2 * (2 ^ LENGTH('a) - 1)"
    proof -
      have "N * N - 1 = (N - 1) * (N - 1) + 2 * (N - 1)" if "0 < N" for N :: nat using that by (cases N) auto
      from this [of "2 ^ LENGTH('a)"] show ?thesis by (simp add: mult_2 power_add)
    qed
    finally have e: "unat (getUnsignedMax R) * unat (getUnsignedMax C) = (2 ^ LENGTH('a) - 1) * (2 ^ LENGTH('a) - 1) + 2 * (2 ^ LENGTH('a) - 1)" .
    have "unat (getUnsignedMax R) * unat (getUnsignedMax C) \<le> (2 ^ LENGTH('a) - 1) * (2 ^ LENGTH('a) - 1)"
      using word_unat_less [of "getUnsignedMax R"] word_unat_less [of "getUnsignedMax C"] by (intro mult_le_mono) linarith+
    moreover have "(2 :: nat) ^ LENGTH('a) - 1 > 0" using one_less_power [of "2 :: nat" "LENGTH('a)"] by simp
    ultimately show False using e by linarith
  qed
  then have "?L < ?M + 1" using LM less_succ(1) by blast
  then have fb: "from_bounds ?L (?M + 1) = Inr (CR ?L (?M + 1))" and ok: "cr_ok (CR ?L (?M + 1))"
    by (auto simp: from_bounds_def uneven_simps)
  have in_p: "contains (CR ?L (?M + 1)) (ucast x * ucast y)" if "contains R x" "contains C y" for x y
    using b that \<open>?L < ?M + 1\<close> by (auto simp: contains_CR less_succ(1) [OF \<open>?M \<noteq> MaxValue\<close>] intro!: mono)
  have "returns (\<lambda>X. \<forall>z. contains (CR ?L (?M + 1)) z \<longrightarrow> contains X (ucast z)) (truncate (CR ?L (?M + 1)) :: 'a constant_range result)"
    by (rule truncate_sound [OF ok LENGTH_bit0_less])
  then have "returns (\<lambda>X. \<forall>x y. contains R x \<longrightarrow> contains C y \<longrightarrow> contains X (x * y)) (truncate (CR ?L (?M + 1)))"
    by (rule returns_mono) (use in_p ucast_product in metis)
  then show ?thesis by (simp add: unsigned_product_def Let_def fb)
qed

lemma product_between:
  fixes x :: int
  assumes "a \<le> x" "x \<le> b"
  shows "min (a * y) (b * y) \<le> x * y" "x * y \<le> max (a * y) (b * y)"
  using assms by (cases "0 \<le> y"; force simp: min_le_iff_disj le_max_iff_disj intro: mult_right_mono mult_right_mono_neg)+

text \<open>A product lies between two products of bounds.\<close>

lemma product_corners:
  fixes x :: int
  assumes "a \<le> x" "x \<le> b" "c \<le> y" "y \<le> d"
  shows "\<exists>p \<in> {a * c, a * d, b * c, b * d}. p \<le> x * y" "\<exists>p \<in> {a * c, a * d, b * c, b * d}. x * y \<le> p"
proof -
  have "min (a * y) (b * y) \<le> x * y" "min (c * a) (d * a) \<le> y * a" "min (c * b) (d * b) \<le> y * b"
    using product_between assms by blast+
  then show "\<exists>p \<in> {a * c, a * d, b * c, b * d}. p \<le> x * y" by (auto simp: min_le_iff_disj mult.commute intro: order_trans)
  have "x * y \<le> max (a * y) (b * y)" "y * a \<le> max (c * a) (d * a)" "y * b \<le> max (c * b) (d * b)"
    using product_between assms by blast+
  then show "\<exists>p \<in> {a * c, a * d, b * c, b * d}. x * y \<le> p" by (auto simp: le_max_iff_disj mult.commute intro: order_trans)
qed

lemma fold_smin_value: "fold smin_value ps a \<in> set (a # ps) \<and> (\<forall>p \<in> set (a # ps). fold smin_value ps a \<le>s p)"
proof (induction ps arbitrary: a)
  case (Cons b ps)
  have "smin_value b a \<le>s a" "smin_value b a \<le>s b" "smin_value b a = a \<or> smin_value b a = b"
    by (auto simp: smin_value_def)
  then show ?case using Cons [of "smin_value b a"] by (auto intro: signed.order_trans)
qed simp

lemma fold_smax_value: "fold smax_value ps a \<in> set (a # ps) \<and> (\<forall>p \<in> set (a # ps). p \<le>s fold smax_value ps a)"
proof (induction ps arbitrary: a)
  case (Cons b ps)
  have "a \<le>s smax_value b a" "b \<le>s smax_value b a" "smax_value b a = a \<or> smax_value b a = b"
    by (auto simp: smax_value_def)
  then show ?case using Cons [of "smax_value b a"] by (auto intro: signed.order_trans)
qed simp

lemma product_abs:
  fixes x y :: "'a::len word"
  shows "\<bar>sint x * sint y\<bar> < 2 ^ (LENGTH('a bit0) - 1)"
proof -
  let ?H = "(2 :: int) ^ (LENGTH('a) - 1)"
  have "\<bar>sint w\<bar> \<le> ?H" for w :: "'a word" using sint_bounds [of w] by linarith
  then have "\<bar>sint x * sint y\<bar> \<le> ?H * ?H" unfolding abs_mult by (intro mult_mono) auto
  also have "?H * ?H < 2 ^ (LENGTH('a bit0) - 1)"
    unfolding power_add [symmetric] by (rule power_strict_increasing) (simp, use len_gt_0 [where ?'a = 'a] in linarith, simp)
  finally show ?thesis .
qed

lemma sint_product:
  fixes x y :: "'a::len word"
  shows "sint (scast x * scast y :: 'a bit0 word) = sint x * sint y"
proof -
  have "sint (word_of_int (sint x * sint y) :: 'a bit0 word) = sint x * sint y"
    using product_abs [of x y] by (intro sint_of_int) linarith+
  then show ?thesis unfolding scast_eq of_int_mult .
qed

lemma ucast_signed_product:
  fixes x y :: "'a::len word"
  shows "ucast (scast x * scast y :: 'a bit0 word) = x * y"
proof -
  have "ucast (word_of_int k :: 'a bit0 word) = (word_of_int k :: 'a word)" for k
    by (simp add: unsigned_of_int word_of_int_eq_iff take_bit_take_bit)
  moreover have "(scast x * scast y :: 'a bit0 word) = word_of_int (sint x * sint y)" by (simp only: scast_eq of_int_mult)
  ultimately have "ucast (scast x * scast y :: 'a bit0 word) = (word_of_int (sint x * sint y) :: 'a word)" by (simp only:)
  moreover have "(word_of_int (sint x * sint y) :: 'a word) = x * y" by simp
  ultimately show ?thesis by (simp only:)
qed

lemma signed_product_sound:
  fixes R C :: "'a::len constant_range"
  assumes "cr_ok R" "cr_ok C" "\<not> isEmptySet R" "\<not> isEmptySet C"
  shows "returns (\<lambda>X. \<forall>x y. contains R x \<longrightarrow> contains C y \<longrightarrow> contains X (x * y)) (signed_product R C)"
proof -
  note b = getSignedMax_greatest [OF assms(1,3)] getSignedMin_least [OF assms(1,3)]
    getSignedMax_greatest [OF assms(2,4)] getSignedMin_least [OF assms(2,4)]
  let ?pr = "\<lambda>(x :: 'a word) (y :: 'a word). scast x * scast y :: 'a bit0 word"
  let ?a = "getSignedMin R" and ?b = "getSignedMax R" and ?c = "getSignedMin C" and ?d = "getSignedMax C"
  let ?ps = "[?pr ?a ?d, ?pr ?b ?c, ?pr ?b ?d]"
  define L M where "L = fold smin_value ?ps (?pr ?a ?c)" and "M = fold smax_value ?ps (?pr ?a ?c)"
  have L: "L \<le>s ?pr x y" and M: "?pr x y \<le>s M" if "contains R x" "contains C y" for x y
  proof -
    have bs: "sint ?a \<le> sint x" "sint x \<le> sint ?b" "sint ?c \<le> sint y" "sint y \<le> sint ?d"
      using b that by (auto simp: word_sle_eq)
    have "\<exists>p \<in> set (?pr ?a ?c # ?ps). p \<le>s ?pr x y" "\<exists>p \<in> set (?pr ?a ?c # ?ps). ?pr x y \<le>s p"
      using product_corners [OF bs] by (simp_all add: word_sle_eq sint_product)
    then show "L \<le>s ?pr x y" "?pr x y \<le>s M"
      using fold_smin_value [of ?ps "?pr ?a ?c"] fold_smax_value [of ?ps "?pr ?a ?c"]
      unfolding L_def M_def by (blast intro: signed.order_trans)+
  qed
  have LM: "L \<le>s M" using L [of ?a ?c] M [of ?a ?c] b by (blast intro: signed.order_trans)
  have "M + 1 \<noteq> L"
  proof
    assume eq: "M + 1 = L"
    then have "M = SignedMaxValue" using LM sless_succ(1) [of M L] by auto
    then have "L = SignedMinValue" using eq by simp
    have "L \<in> set (?pr ?a ?c # ?ps)" unfolding L_def using fold_smin_value by blast
    then obtain x y where xy: "L = ?pr x y" unfolding list.set insert_iff empty_iff by blast
    have "sint L = - (2 ^ (LENGTH('a bit0) - 1))"
      using uint_rot [of L] \<open>L = SignedMinValue\<close> by simp
    then show False using product_abs [of x y] unfolding xy sint_product by linarith
  qed
  then have eq: "from_bounds L (M + 1) = full_if_equal L (M + 1)" by (simp add: full_if_equal_def)
  obtain P where P: "full_if_equal L (M + 1) = Inr P" "cr_ok P" "\<forall>z. contains P z \<longleftrightarrow> L \<le>s z \<and> z \<le>s M"
    using full_if_equal_signed [OF LM] by (auto elim: returnsE)
  have "returns (\<lambda>X. \<forall>z. contains P z \<longrightarrow> contains X (ucast z)) (truncate P :: 'a constant_range result)"
    by (rule truncate_sound [OF P(2) LENGTH_bit0_less])
  then have "returns (\<lambda>X. \<forall>x y. contains R x \<longrightarrow> contains C y \<longrightarrow> contains X (x * y)) (truncate P)"
    by (rule returns_mono) (use P(3) L M ucast_signed_product in metis)
  then show ?thesis unfolding signed_product_def Let_def L_def [symmetric] M_def [symmetric] eq P(1) by simp
qed

lemma multiply_approximates: "approximates multiply (\<lambda>x y. Some (x * y))"
proof (rule approximatesI)
  fix R C :: "'a constant_range"
  assume ok: "cr_ok R" "cr_ok C" and ne: "\<not> isEmptySet R" "\<not> isEmptySet C"
  obtain UR where U: "unsigned_product R C = Inr UR" "cr_ok UR" "\<forall>x y. contains R x \<longrightarrow> contains C y \<longrightarrow> contains UR (x * y)"
    using unsigned_product_sound [OF ok ne] by (auto elim: returnsE)
  obtain SR where S: "signed_product R C = Inr SR" "cr_ok SR" "\<forall>x y. contains R x \<longrightarrow> contains C y \<longrightarrow> contains SR (x * y)"
    using signed_product_sound [OF ok ne] by (auto elim: returnsE)
  show "returns (\<lambda>X. \<forall>x y z. contains R x \<longrightarrow> contains C y \<longrightarrow> Some (x * y) = Some z \<longrightarrow> contains X z) (multiply R C)"
    using U S ne by (simp add: multiply_def)
qed (auto simp: multiply_def)

section \<open>Regions without overflow\<close>

lemma SubsetIntersect_returns:
  assumes "cr_ok A" "cr_ok B"
  shows "returns (\<lambda>X. \<forall>x. contains X x \<longrightarrow> contains A x \<and> contains B x) (SubsetIntersect A B)"
  unfolding SubsetIntersect_def
proof (rule returns_bind [OF inverse_range_returns [OF assms(1)]], rule returns_bind [OF inverse_range_returns [OF assms(2)]])
  fix I J assume I: "cr_ok I" "\<forall>v. contains I v \<longleftrightarrow> \<not> contains A v" and J: "cr_ok J" "\<forall>v. contains J v \<longleftrightarrow> \<not> contains B v"
  show "returns (\<lambda>X. \<forall>x. contains X x \<longrightarrow> contains A x \<and> contains B x) (bind_result (unionWith I J) inverse_range)"
  proof (rule returns_bind [OF unionWith_returns [OF I(1) J(1)]])
    fix K assume K: "cr_ok K" "\<forall>v. contains I v \<or> contains J v \<longrightarrow> contains K v"
    show "returns (\<lambda>X. \<forall>x. contains X x \<longrightarrow> contains A x \<and> contains B x) (inverse_range K)"
      by (rule returns_mono [OF inverse_range_returns [OF K(1)]]) (use I J K in blast)
  qed
qed

lemma SubsetIntersect_full:
  assumes "cr_ok B"
  shows "SubsetIntersect (full_or_empty True) B = Inr B"
proof -
  obtain J where J: "inverse_range B = Inr J" "cr_ok J" "\<forall>v. contains J v \<longleftrightarrow> \<not> contains B v"
    using inverse_range_returns [OF assms] by (auto elim: returnsE)
  obtain K where K: "inverse_range J = Inr K" "cr_ok K" "\<forall>v. contains K v \<longleftrightarrow> \<not> contains J v"
    using inverse_range_returns [OF J(2)] by (auto elim: returnsE)
  have "K = B" using gamma_inject [OF K(2) assms] J(3) K(3) by (auto simp: gamma_def)
  moreover have "unionWith (full_or_empty False) J = Inr J"
  proof (cases "isEmptySet J")
    case True
    have "J = full_or_empty False"
      using gamma_inject [of J "full_or_empty False"] J(2) True by (auto simp: gamma_def contains_empty)
    then show ?thesis by (subst unionWith.simps) simp
  next
    case False
    then show ?thesis by (subst unionWith.simps) simp
  qed
  ultimately show ?thesis using J(1) K(1) by (simp add: SubsetIntersect_def inverse_range_def [of "full_or_empty _"])
qed

definition no_unsigned_wrap :: "'a::len word \<Rightarrow> 'a word \<Rightarrow> bool" where
  "no_unsigned_wrap x y = (uint x + uint y < 2 ^ LENGTH('a))"

definition no_signed_wrap :: "'a::len word \<Rightarrow> 'a word \<Rightarrow> bool" where
  "no_signed_wrap x y =
     (- (2 ^ (LENGTH('a) - 1)) \<le> sint x + sint y \<and> sint x + sint y < 2 ^ (LENGTH('a) - 1))"

lemma contains_no_unsigned:
  assumes "m \<noteq> 0"
  shows "contains (CR 0 (- m)) x \<longleftrightarrow> no_unsigned_wrap x m"
proof -
  have "0 < uint m" using assms word_gt_0 [of m] by (simp add: word_less_def)
  then have "uint (- m) = 2 ^ LENGTH('a) - uint m"
    using uint_lt2p [of m] by (simp add: uint_word_ariths zmod_zminus1_eq_if)
  then show ?thesis using assms by (simp add: contains_low word_less_def no_unsigned_wrap_def) linarith
qed

lemma sint_SignedMin_minus:
  fixes m :: "'a::len word"
  assumes "m \<noteq> 0"
  shows "sint (SignedMinValue - m) = (if 0 \<le> sint m then 2 ^ (LENGTH('a) - 1) - sint m else - (2 ^ (LENGTH('a) - 1)) - sint m)"
    "SignedMinValue - m \<noteq> SignedMinValue"
proof -
  let ?H = "(2 :: int) ^ (LENGTH('a) - 1)"
  have n0: "sint m \<noteq> 0"
  proof
    assume "sint m = 0"
    then have "(scast m :: 'a word) = 0" unfolding scast_eq by simp
    then show False using assms by simp
  qed
  have neg: "(SignedMinValue :: 'a word) = word_of_int (- ?H)"
  proof -
    have "rot (SignedMinValue :: 'a word) = 0" by simp
    then show ?thesis unfolding SignedMin_of_int rot_def of_int_minus by (simp add: eq_neg_iff_add_eq_0)
  qed
  have m: "SignedMinValue - m = word_of_int (?H - sint m)" "SignedMinValue - m = word_of_int (- ?H - sint m)"
    unfolding of_int_diff neg [symmetric] SignedMin_of_int [symmetric] by simp_all
  show "sint (SignedMinValue - m) = (if 0 \<le> sint m then ?H - sint m else - ?H - sint m)"
  proof (cases "0 \<le> sint m")
    case True
    then have "sint (word_of_int (?H - sint m) :: 'a word) = ?H - sint m"
      using n0 sint_bounds [of m] by (intro sint_of_int) linarith+
    then show ?thesis using True m(1) by (simp only: if_True)
  next
    case False
    then have "sint (word_of_int (- ?H - sint m) :: 'a word) = - ?H - sint m"
      using n0 sint_bounds [of m] by (intro sint_of_int) linarith+
    then show ?thesis using False m(2) by (simp only: if_False)
  qed
  show "SignedMinValue - m \<noteq> SignedMinValue" using assms by simp
qed

lemma contains_no_signed:
  assumes "m \<noteq> 0"
  shows "0 <s m \<Longrightarrow> contains (CR SignedMinValue (SignedMinValue - m)) x \<longleftrightarrow> sint x + sint m < 2 ^ (LENGTH('a) - 1)"
    "m <s 0 \<Longrightarrow> contains (CR (SignedMinValue - m) SignedMinValue) (x :: 'a::len word) \<longleftrightarrow> - (2 ^ (LENGTH('a) - 1)) \<le> sint x + sint m"
  using sint_SignedMin_minus [OF assms] by (auto simp: contains_slow contains_shigh word_sless_alt word_sle_eq)

text \<open>Adding one more constraint to a region.\<close>

lemma constrain:
  assumes "cr_ok Res" "\<And>x. contains Res x \<Longrightarrow> P x" "from_bounds L U = Inr B" "cr_ok B" "\<And>x. contains B x \<Longrightarrow> Q x"
  shows "returns (\<lambda>X. \<forall>x. contains X x \<longrightarrow> P x \<and> Q x) (bind_result (from_bounds L U) (SubsetIntersect Res))"
proof -
  have "returns (\<lambda>X. \<forall>x. contains X x \<longrightarrow> P x \<and> Q x) (SubsetIntersect Res B)"
    by (rule returns_mono [OF SubsetIntersect_returns [OF assms(1,4)]]) (use assms(2,5) in blast)
  then show ?thesis by (simp add: assms(3))
qed

lemma makeGuaranteedNoWrapRegion_returns:
  fixes C :: "'a::len constant_range"
  assumes "cr_ok C" "NUW \<or> NSW"
  shows "returns (\<lambda>X. \<forall>x y. contains X x \<longrightarrow> contains C y \<longrightarrow> (NUW \<longrightarrow> no_unsigned_wrap x y) \<and> (NSW \<longrightarrow> no_signed_wrap x y))
    (makeGuaranteedNoWrapRegion Add C NUW NSW)"
proof (cases "getSingleElement C = Some 0")
  case True
  then have "C = single_value 0" using CR_eta [of C] by (auto simp: getSingleElement_def single_value_def split: if_splits)
  then have "contains C y \<longleftrightarrow> y = 0" for y by simp
  then show ?thesis
    using True assms(2) uint_lt2p sint_bounds by (auto simp: makeGuaranteedNoWrapRegion_def no_unsigned_wrap_def no_signed_wrap_def)
next
  case False
  define PU :: "'a word \<Rightarrow> bool" where "PU x \<longleftrightarrow> (NUW \<longrightarrow> (\<forall>y. contains C y \<longrightarrow> no_unsigned_wrap x y))" for x
  define PH :: "'a word \<Rightarrow> bool" where "PH x \<longleftrightarrow> (\<forall>y. contains C y \<longrightarrow> sint x + sint y < 2 ^ (LENGTH('a) - 1))" for x
  define PL :: "'a word \<Rightarrow> bool" where "PL x \<longleftrightarrow> (\<forall>y. contains C y \<longrightarrow> - (2 ^ (LENGTH('a) - 1)) \<le> sint x + sint y)" for x
  let ?Max = "getSignedMax C" and ?Min = "getSignedMin C"
  have bounds: "y \<le> getUnsignedMax C" "y \<le>s ?Max" "?Min \<le>s y" if "contains C y" for y
    using that getUnsignedMax_greatest [OF assms(1)] getSignedMax_greatest [OF assms(1)] getSignedMin_least [OF assms(1)]
      contains_empty by blast+
  have U: "PU x" if "contains (CR 0 (- getUnsignedMax C)) x" for x
  proof (cases "getUnsignedMax C = 0")
    case False
    then show ?thesis
      using that bounds(1) contains_no_unsigned [OF False] unfolding PU_def no_unsigned_wrap_def word_le_def by fastforce
  qed (use that in \<open>simp add: contains_def isFullSet_def\<close>)
  have H: "PH x" if "0 <s ?Max \<Longrightarrow> contains (CR SignedMinValue (SignedMinValue - ?Max)) x" for x
  proof (cases "0 <s ?Max")
    case True
    then show ?thesis using that contains_no_signed(1) [of ?Max x] bounds(2) unfolding PH_def word_sle_eq by force
  next
    case False
    then have "sint y \<le> 0" if "contains C y" for y using bounds(2) [OF that] by (simp add: word_sless_alt word_sle_eq)
    then show ?thesis using sint_bounds(2) [of x] unfolding PH_def by (meson add_decreasing2 order_le_less_trans order_refl)
  qed
  have L: "PL x" if "?Min <s 0 \<Longrightarrow> contains (CR (SignedMinValue - ?Min) SignedMinValue) x" for x
  proof (cases "?Min <s 0")
    case True
    then show ?thesis using that contains_no_signed(2) [of ?Min x] bounds(3) unfolding PL_def word_sle_eq by force
  next
    case False
    then have "0 \<le> sint y" if "contains C y" for y using bounds(3) [OF that] by (simp add: word_sless_alt word_sle_eq)
    then show ?thesis using sint_bounds(1) [of x] unfolding PL_def by (meson add_increasing2)
  qed
  have fbH: "from_bounds SignedMinValue (SignedMinValue - ?Max) = Inr (CR SignedMinValue (SignedMinValue - ?Max))"
    "cr_ok (CR SignedMinValue (SignedMinValue - ?Max))" if "0 <s ?Max"
    using that sint_SignedMin_minus(2) [of ?Max] by (auto simp: from_bounds_def uneven_simps)
  have fbL: "from_bounds (SignedMinValue - ?Min) SignedMinValue = Inr (CR (SignedMinValue - ?Min) SignedMinValue)"
    "cr_ok (CR (SignedMinValue - ?Min) SignedMinValue)" if "?Min <s 0"
    using that sint_SignedMin_minus(2) [of ?Min] by (auto simp: from_bounds_def uneven_simps)
  have fbU: "from_bounds 0 (- getUnsignedMax C) = Inr (CR 0 (- getUnsignedMax C))" "cr_ok (CR 0 (- getUnsignedMax C))"
    by (auto simp: from_bounds_def cr_ok_def isEmptySet_def)
  let ?R0 = "if NUW then bind_result (from_bounds 0 (- getUnsignedMax C)) (SubsetIntersect (full_or_empty True)) else Inr (full_or_empty True)"
  have s1: "returns (\<lambda>X. \<forall>x. contains X x \<longrightarrow> PU x) ?R0"
  proof (cases NUW)
    case True
    have "returns (\<lambda>X. \<forall>x. contains X x \<longrightarrow> True \<and> PU x) (bind_result (from_bounds 0 (- getUnsignedMax C)) (SubsetIntersect (full_or_empty True)))"
      by (rule constrain [OF _ _ fbU]) (simp_all add: U)
    then show ?thesis using True by simp
  qed (simp add: PU_def)
  have s2: "returns (\<lambda>X. \<forall>x. contains X x \<longrightarrow> PU x \<and> PH x)
      (if 0 <s ?Max then bind_result (from_bounds SignedMinValue (SignedMinValue - ?Max)) (SubsetIntersect Res) else Inr Res)"
    if "cr_ok Res" "\<forall>x. contains Res x \<longrightarrow> PU x" for Res
    using that H by (auto intro!: constrain [OF _ _ fbH])
  have s3: "returns (\<lambda>X. \<forall>x. contains X x \<longrightarrow> (PU x \<and> PH x) \<and> PL x)
      (if ?Min <s 0 then bind_result (from_bounds (SignedMinValue - ?Min) SignedMinValue) (SubsetIntersect Res) else Inr Res)"
    if "cr_ok Res" "\<forall>x. contains Res x \<longrightarrow> PU x \<and> PH x" for Res
    using that L constrain [where P = "\<lambda>x. PU x \<and> PH x" and Q = PL and Res = Res, OF that(1) _ fbL] by auto
  have "returns (\<lambda>X. \<forall>x. contains X x \<longrightarrow> PU x \<and> (NSW \<longrightarrow> PH x \<and> PL x)) (makeGuaranteedNoWrapRegion Add C NUW NSW)"
  proof (cases NSW)
    case True
    have "makeGuaranteedNoWrapRegion Add C NUW NSW = bind_result ?R0 (\<lambda>Result.
        bind_result (if 0 <s ?Max then bind_result (from_bounds SignedMinValue (SignedMinValue - ?Max)) (SubsetIntersect Result) else Inr Result)
          (\<lambda>Result. if ?Min <s 0 then bind_result (from_bounds (SignedMinValue - ?Min) SignedMinValue) (SubsetIntersect Result) else Inr Result))"
      using True False by (simp add: makeGuaranteedNoWrapRegion_def Let_def)
    moreover have "returns (\<lambda>X. \<forall>x. contains X x \<longrightarrow> (PU x \<and> PH x) \<and> PL x) \<dots>"
      by (intro returns_bind [OF s1] returns_bind [OF s2] s3)
    ultimately show ?thesis by (elim ssubst returns_mono) (use True in blast)
  next
    case no: False
    then have "makeGuaranteedNoWrapRegion Add C NUW NSW = ?R0"
      using False assms(2) by (cases ?R0) (auto simp: makeGuaranteedNoWrapRegion_def Let_def)
    then show ?thesis using s1 no by simp
  qed
  then show ?thesis
    by (rule returns_mono) (auto simp: PU_def PH_def PL_def no_signed_wrap_def)
qed

text \<open>For a single addend the region is exact.\<close>

lemma no_signed_wrap_single:
  obtains X where "makeGuaranteedNoWrapRegion Add (single_value c) False True = Inr X" "cr_ok X"
    "\<And>x. no_signed_wrap x c \<Longrightarrow> contains X x"
proof -
  have e: "getSingleElement (single_value c) = Some c" by (simp add: getSingleElement_def single_value_def)
  consider "c = 0" | "0 <s c" "\<not> c <s 0" "c \<noteq> 0" | "c <s 0" "\<not> 0 <s c" "c \<noteq> 0" using signed.less_linear by force
  then show thesis
  proof cases
    case 1
    then show thesis using e that [of "full_or_empty True"] by (simp add: makeGuaranteedNoWrapRegion_def)
  next
    case 2
    let ?B = "CR SignedMinValue (SignedMinValue - c)"
    have B: "from_bounds SignedMinValue (SignedMinValue - c) = Inr ?B" "cr_ok ?B"
      using sint_SignedMin_minus(2) [OF 2(3)] by (auto simp: from_bounds_def uneven_simps)
    then show thesis
      using that [of ?B] 2 e contains_no_signed(1) [OF 2(3,1)]
      by (simp add: makeGuaranteedNoWrapRegion_def single_ends SubsetIntersect_full no_signed_wrap_def)
  next
    case 3
    let ?B = "CR (SignedMinValue - c) SignedMinValue"
    have B: "from_bounds (SignedMinValue - c) SignedMinValue = Inr ?B" "cr_ok ?B"
      using sint_SignedMin_minus(2) [OF 3(3)] by (auto simp: from_bounds_def uneven_simps)
    then show thesis
      using that [of ?B] 3 e contains_no_signed(2) [OF 3(3,1)]
      by (simp add: makeGuaranteedNoWrapRegion_def single_ends SubsetIntersect_full no_signed_wrap_def)
  qed
qed

lemma addWithNoSignedWrap_returns:
  assumes "cr_ok R"
  shows "returns (\<lambda>X. \<forall>x. contains R x \<longrightarrow> no_signed_wrap x c \<longrightarrow> contains X (x + c)) (addWithNoSignedWrap R c)"
proof -
  obtain N where N: "makeGuaranteedNoWrapRegion Add (single_value c) False True = Inr N" "cr_ok N"
    "\<And>x. no_signed_wrap x c \<Longrightarrow> contains N x" using no_signed_wrap_single by blast
  have "returns (\<lambda>X. \<forall>x. contains R x \<longrightarrow> no_signed_wrap x c \<longrightarrow> contains X (x + c))
    (bind_result (intersectWith R N) (\<lambda>I. add I (single_value c)))"
  proof (rule returns_bind [OF intersectWith_returns [OF assms N(2)]])
    fix I assume I: "cr_ok I" "met R N I"
    have "returns (\<lambda>X. \<forall>x y z. contains I x \<longrightarrow> contains (single_value c) y \<longrightarrow> Some (x + y) = Some z \<longrightarrow> contains X z)
        (add I (single_value c))"
      using add_approximates I(1) cr_ok_single unfolding approximates_def by blast
    then show "returns (\<lambda>X. \<forall>x. contains R x \<longrightarrow> no_signed_wrap x c \<longrightarrow> contains X (x + c)) (add I (single_value c))"
      by (rule returns_mono) (use I N in \<open>simp add: met_def\<close>)
  qed
  then show ?thesis by (simp add: addWithNoSignedWrap_def N(1))
qed

section \<open>The instructions\<close>

text \<open>The value an integer instruction gives: \<open>None\<close> where it has none (a division by zero, a shift by the
  width or more) and for the floating-point opcodes.\<close>

definition eval_binary :: "binary_op \<Rightarrow> 'a::len word \<Rightarrow> 'a word \<Rightarrow> 'a word option" where
  "eval_binary BinOp x y = (case BinOp of
     Add \<Rightarrow> Some (x + y) | Sub \<Rightarrow> Some (x - y) | Mul \<Rightarrow> Some (x * y)
   | UDiv \<Rightarrow> if y = 0 then None else Some (x div y)
   | URem \<Rightarrow> if y = 0 then None else Some (x mod y)
   | SDiv \<Rightarrow> if y = 0 then None else Some (word_of_int (sint x sdiv sint y))
   | SRem \<Rightarrow> if y = 0 then None else Some (word_of_int (sint x smod sint y))
   | Shl \<Rightarrow> if unat y < LENGTH('a) then Some (push_bit (unat y) x) else None
   | LShr \<Rightarrow> if unat y < LENGTH('a) then Some (drop_bit (unat y) x) else None
   | AShr \<Rightarrow> if unat y < LENGTH('a) then Some (signed_drop_bit (unat y) x) else None
   | And \<Rightarrow> Some (x AND y) | Or \<Rightarrow> Some (x OR y) | Xor \<Rightarrow> Some (x XOR y)
   | _ \<Rightarrow> None)"

lemma approximates_mono:
  "approximates F f \<Longrightarrow> (\<And>x y z. g x y = Some z \<Longrightarrow> f x y = Some z) \<Longrightarrow> approximates F g"
  unfolding approximates_def by (blast intro: returns_mono)

lemma approximates_full: "approximates (\<lambda>R C. Inr (full_or_empty True)) f"
  by (simp add: approximates_def)

lemma binaryOp_approximates: "approximates (binaryOp BinOp) (eval_binary BinOp)"
  unfolding binaryOp_def [abs_def]
  by (cases BinOp)
    (auto simp: eval_binary_def approximates_full split: if_splits
      intro: approximates_mono [OF add_approximates] approximates_mono [OF sub_approximates]
        approximates_mono [OF multiply_approximates] approximates_mono [OF udiv_approximates]
        approximates_mono [OF shl_approximates] approximates_mono [OF lshr_approximates]
        approximates_mono [OF binaryAnd_approximates] approximates_mono [OF binaryOr_approximates])

section \<open>Range metadata\<close>

lemma union_all_returns:
  assumes "cr_ok R" "\<forall>(L, H) \<in> set rs. L \<noteq> H"
  shows "returns (\<lambda>X. \<forall>v. contains R v \<or> (\<exists>(L, H) \<in> set rs. contains (CR L H) v) \<longrightarrow> contains X v) (union_all rs R)"
  using assms
proof (induction rs arbitrary: R)
  case (Cons p rs)
  obtain L H where p: "p = (L, H)" by (cases p)
  then have LH: "L \<noteq> H" using Cons.prems(2) by simp
  have "returns (\<lambda>X. \<forall>v. contains R v \<or> (\<exists>(L, H) \<in> set (p # rs). contains (CR L H) v) \<longrightarrow> contains X v)
      (bind_result (unionWith R (CR L H)) (union_all rs))"
  proof (rule returns_bind [OF unionWith_returns])
    fix X assume X: "cr_ok X" "\<forall>v. contains R v \<or> contains (CR L H) v \<longrightarrow> contains X v"
    show "returns (\<lambda>X. \<forall>v. contains R v \<or> (\<exists>(L, H) \<in> set (p # rs). contains (CR L H) v) \<longrightarrow> contains X v) (union_all rs X)"
      by (rule returns_mono [OF Cons.IH [OF X(1)]]) (use X Cons.prems p in auto)
  qed (use Cons.prems LH in \<open>simp_all add: uneven_simps\<close>)
  then show ?case using LH by (simp add: p from_bounds_def)
qed simp

section \<open>Properties\<close>

text \<open>
  C6. The range of an integer operation is sound. For every opcode, \<open>binaryOp\<close> on two well-formed ranges
  returns without an assertion (no range with equal ends other than the empty and the full one, no
  division by zero in \<open>udiv\<close>, in spite of ranges that contain zero or wrap), and the result contains the value of the
  instruction for all operands in the ranges. Signed and unsigned maximum and minimum are sound
  likewise.
\<close>

theorem binaryOp_sound:
  fixes R C :: "'a::len constant_range"
  assumes "cr_ok R" "cr_ok C"
  shows "(\<exists>X. binaryOp BinOp R C = Inr X \<and> cr_ok X \<and>
      (\<forall>x \<in> gamma R. \<forall>y \<in> gamma C. \<forall>z. eval_binary BinOp x y = Some z \<longrightarrow> z \<in> gamma X)) \<and>
    (\<exists>X. umax R C = Inr X \<and> cr_ok X \<and> (\<forall>x \<in> gamma R. \<forall>y \<in> gamma C. max x y \<in> gamma X)) \<and>
    (\<exists>X. umin R C = Inr X \<and> cr_ok X \<and> (\<forall>x \<in> gamma R. \<forall>y \<in> gamma C. min x y \<in> gamma X)) \<and>
    (\<exists>X. smax R C = Inr X \<and> cr_ok X \<and> (\<forall>x \<in> gamma R. \<forall>y \<in> gamma C. (if x \<le>s y then y else x) \<in> gamma X)) \<and>
    (\<exists>X. smin R C = Inr X \<and> cr_ok X \<and> (\<forall>x \<in> gamma R. \<forall>y \<in> gamma C. (if x \<le>s y then x else y) \<in> gamma X))"
proof -
  have run: "\<exists>X. F R C = Inr X \<and> cr_ok X \<and> (\<forall>x \<in> gamma R. \<forall>y \<in> gamma C. \<forall>z. f x y = Some z \<longrightarrow> z \<in> gamma X)"
    if "approximates F f" for F :: "'a constant_range \<Rightarrow> 'a constant_range \<Rightarrow> 'a constant_range result" and f
  proof -
    have "returns (\<lambda>X. \<forall>x y z. contains R x \<longrightarrow> contains C y \<longrightarrow> f x y = Some z \<longrightarrow> contains X z) (F R C)"
      using that assms unfolding approximates_def by blast
    then show ?thesis by (elim returnsE) (auto simp: gamma_def)
  qed
  have m: "umax_value x y = max x y" "umin_value x y = min x y"
    "smax_value x y = (if x \<le>s y then y else x)" "smin_value x y = (if x \<le>s y then x else y)" for x y :: "'a word"
    by (auto simp: umax_value_def umin_value_def smax_value_def smin_value_def max_def min_def not_less rot_less rot_le)
  show ?thesis
    using run [OF binaryOp_approximates, of BinOp] extrema_approximate [THEN run] unfolding m by simp
qed

theorem binaryOp_sound_witness:
  "\<exists>X. binaryOp Mul (CR 250 3 :: 8 constant_range) (CR 7 9) = Inr X \<and> 16 \<in> gamma X \<and> 221 \<in> gamma X"
proof -
  have ok: "cr_ok (CR 250 3 :: 8 constant_range)" "cr_ok (CR 7 9 :: 8 constant_range)" by (simp_all add: cr_ok_def)
  obtain X where X: "binaryOp Mul (CR 250 3 :: 8 constant_range) (CR 7 9) = Inr X"
      "\<forall>x \<in> gamma (CR 250 3). \<forall>y \<in> gamma (CR 7 9). \<forall>z. eval_binary Mul x y = Some z \<longrightarrow> z \<in> gamma X"
    using binaryOp_sound [OF ok, of Mul] by blast
  have "2 \<in> gamma (CR 250 3 :: 8 constant_range)" "251 \<in> gamma (CR 250 3 :: 8 constant_range)"
    "7 \<in> gamma (CR 7 9 :: 8 constant_range)" "8 \<in> gamma (CR 7 9 :: 8 constant_range)"
    by (simp_all add: contains_CR)
  moreover have "eval_binary Mul (2 :: 8 word) 8 = Some 16" "eval_binary Mul (251 :: 8 word) 7 = Some 221"
    by (simp_all add: eval_binary_def)
  ultimately have "16 \<in> gamma X" "221 \<in> gamma X" using X(2) by blast+
  then show ?thesis using X(1) by blast
qed

text \<open>
  The range of an integer cast is sound: \<open>truncate\<close> to a smaller width and \<open>zeroExtend\<close> and \<open>signExtend\<close> to a
  larger one return without an assertion, on wrapped and sign-wrapped ranges too, and hold the cast of
  every value of the range.
\<close>

theorem integer_casts_sound:
  fixes R :: "'a::len constant_range"
  assumes "cr_ok R"
  shows "(LENGTH('b) < LENGTH('a) \<longrightarrow>
      (\<exists>X :: 'b::len constant_range. truncate R = Inr X \<and> cr_ok X \<and> (\<forall>x \<in> gamma R. ucast x \<in> gamma X))) \<and>
    (LENGTH('a) < LENGTH('c) \<longrightarrow>
      (\<exists>X :: 'c::len constant_range. zeroExtend R = Inr X \<and> cr_ok X \<and> (\<forall>x \<in> gamma R. ucast x \<in> gamma X)) \<and>
      (\<exists>X :: 'c::len constant_range. signExtend R = Inr X \<and> cr_ok X \<and> (\<forall>x \<in> gamma R. scast x \<in> gamma X)))"
proof (intro conjI impI)
  assume l: "LENGTH('b) < LENGTH('a)"
  show "\<exists>X :: 'b constant_range. truncate R = Inr X \<and> cr_ok X \<and> (\<forall>x \<in> gamma R. ucast x \<in> gamma X)"
    using truncate_sound [OF assms l] by (elim returnsE) (auto simp: gamma_def)
next
  assume l: "LENGTH('a) < LENGTH('c)"
  show "\<exists>X :: 'c constant_range. zeroExtend R = Inr X \<and> cr_ok X \<and> (\<forall>x \<in> gamma R. ucast x \<in> gamma X)"
    using zeroExtend_sound [OF assms l] by (elim returnsE) (auto simp: gamma_def)
  show "\<exists>X :: 'c constant_range. signExtend R = Inr X \<and> cr_ok X \<and> (\<forall>x \<in> gamma R. scast x \<in> gamma X)"
    using signExtend_sound [OF assms l] by (elim returnsE) (auto simp: gamma_def)
qed

text \<open>A sign-wrapped range of 16 bits, cut to 8 bits and extended to 32.\<close>

theorem integer_casts_sound_witness:
  "(\<exists>X :: 8 constant_range. truncate (CR 32000 33000 :: 16 constant_range) = Inr X \<and> cr_ok X) \<and>
   (\<exists>X :: 32 constant_range. signExtend (CR 32000 33000 :: 16 constant_range) = Inr X \<and> cr_ok X \<and> - 32767 \<in> gamma X)"
proof -
  have ok: "cr_ok (CR 32000 33000 :: 16 constant_range)" by (simp add: cr_ok_def)
  note casts = integer_casts_sound [OF ok, where ?'b = 8 and ?'c = 32]
  have "32769 \<in> gamma (CR 32000 33000 :: 16 constant_range)" by (simp add: contains_CR)
  moreover have "(scast (32769 :: 16 word) :: 32 word) = - 32767" by simp
  ultimately show ?thesis using casts by (auto simp del: in_gamma)
qed

text \<open>
  C26. The region of additions that do not overflow. For well-formed ranges, \<open>makeGuaranteedNoWrapRegion\<close> returns without
  an assertion a range of values to which every value of the other range can be added without the
  overflow asked about (unsigned, signed, or neither), and \<open>addWithNoSignedWrap\<close> holds every sum that does not
  overflow.
\<close>

theorem no_wrap_region_sound:
  fixes R :: "'a::len constant_range"
  assumes "cr_ok R" "NUW \<or> NSW"
  shows "(\<exists>X. makeGuaranteedNoWrapRegion Add R NUW NSW = Inr X \<and> cr_ok X \<and>
      (\<forall>x \<in> gamma X. \<forall>y \<in> gamma R. (NUW \<longrightarrow> no_unsigned_wrap x y) \<and> (NSW \<longrightarrow> no_signed_wrap x y))) \<and>
    (\<exists>X. addWithNoSignedWrap R c = Inr X \<and> cr_ok X \<and>
      (\<forall>x \<in> gamma R. no_signed_wrap x c \<longrightarrow> x + c \<in> gamma X))"
proof (intro conjI)
  show "\<exists>X. makeGuaranteedNoWrapRegion Add R NUW NSW = Inr X \<and> cr_ok X \<and>
      (\<forall>x \<in> gamma X. \<forall>y \<in> gamma R. (NUW \<longrightarrow> no_unsigned_wrap x y) \<and> (NSW \<longrightarrow> no_signed_wrap x y))"
    using makeGuaranteedNoWrapRegion_returns [OF assms] by (elim returnsE) (auto simp: gamma_def)
  show "\<exists>X. addWithNoSignedWrap R c = Inr X \<and> cr_ok X \<and> (\<forall>x \<in> gamma R. no_signed_wrap x c \<longrightarrow> x + c \<in> gamma X)"
    using addWithNoSignedWrap_returns [OF assms(1), of c] by (elim returnsE) (auto simp: gamma_def)
qed

theorem no_wrap_region_sound_witness:
  "\<exists>X. addWithNoSignedWrap (CR 100 130 :: 8 constant_range) 20 = Inr X \<and> 125 \<in> gamma X"
proof -
  have ok: "cr_ok (CR 100 130 :: 8 constant_range)" by (simp add: cr_ok_def)
  obtain X where X: "addWithNoSignedWrap (CR 100 130 :: 8 constant_range) 20 = Inr X"
      "\<forall>x \<in> gamma (CR 100 130). no_signed_wrap x 20 \<longrightarrow> x + 20 \<in> gamma X"
    using no_wrap_region_sound [OF ok, of True False 20] by blast
  have "105 \<in> gamma (CR 100 130 :: 8 constant_range)" by (simp add: contains_CR)
  moreover have "no_signed_wrap (105 :: 8 word) 20" by (simp add: no_signed_wrap_def)
  ultimately have "105 + 20 \<in> gamma X" using X(2) by blast
  then show ?thesis using X(1) by simp
qed

text \<open>
  The range of a conversion from an integer to a floating-point value leaves out the largest integer:
  \<open>castOp\<close> builds \<open>[Min, Max)\<close> from the least and the greatest value of the operand's type, and the upper
  end of a range is exclusive. So the greatest unsigned and the greatest signed value, taken as the
  ideal integer that the code says floating-point operations work on, are outside the range returned
  for an operand that holds them.
\<close>

theorem castOp_to_float_drops_maximum:
  fixes R :: "'a::len constant_range"
  assumes "LENGTH('a) < LENGTH('b)"
  shows "\<exists>(U :: 'b::len constant_range) (S :: 'b constant_range). castOp UIToFP R = Inr (Inr U) \<and> ucast (MaxValue :: 'a word) \<notin> gamma U \<and>
    castOp SIToFP R = Inr (Inr S) \<and> scast (SignedMaxValue :: 'a word) \<notin> gamma S"
proof -
  let ?U = "CR (ucast (0 :: 'a word)) (ucast (MaxValue :: 'a word)) :: 'b constant_range"
    and ?S = "CR (scast (SignedMinValue :: 'a word)) (scast (SignedMaxValue :: 'a word)) :: 'b constant_range"
  have u: "Lower ?U \<noteq> Upper ?U"
  proof
    assume "Lower ?U = Upper ?U"
    then have "unat (ucast (MaxValue :: 'a word) :: 'b word) = 0" by simp
    then have "unat (MaxValue :: 'a word) = 0" using unat_ucast_up [of "MaxValue :: 'a word", where ?'b = 'b] assms by simp
    then show False by (simp add: unat_eq_0)
  qed
  have s: "Lower ?S \<noteq> Upper ?S"
  proof
    assume "Lower ?S = Upper ?S"
    then have "sint (SignedMinValue :: 'a word) = sint (SignedMaxValue :: 'a word)"
      using sint_scast_up [OF assms] unfolding CR_simps by metis
    then have "(SignedMinValue :: 'a word) = SignedMaxValue" by (metis uint_rot word_uint_eq_iff rot_eq)
    then show False by (simp add: SignedMaxValue_def)
  qed
  have out: "Upper X \<notin> gamma X" if "Lower X \<noteq> Upper X" for X :: "'b constant_range"
    using that by (simp add: contains_offset)
  have "castOp UIToFP R = Inr (Inr ?U)" "castOp SIToFP R = Inr (Inr ?S)"
    using assms u s by (simp_all add: castOp_def from_bounds_def)
  then show ?thesis using out [OF u] out [OF s] by auto
qed

theorem castOp_to_float_drops_maximum_witness:
  "\<exists>U :: 16 constant_range. castOp UIToFP (full_or_empty True :: 8 constant_range) = Inr (Inr U) \<and> 255 \<notin> gamma U"
proof -
  have "(ucast (MaxValue :: 8 word) :: 16 word) = 255" by (simp add: word_eq_iff_unsigned unsigned_ucast_eq unsigned_minus_1_eq_mask mask_eq_exp_minus_1)
  then show ?thesis using castOp_to_float_drops_maximum [of "full_or_empty True :: 8 constant_range", where ?'b = 16] by auto
qed

end
