(* ===== verification/SymbolNames.thy ===== *)
theory SymbolNames
  imports Prelude "HOL-Library.Char_ord"
begin

text \<open>
  How names and numbers are written in the assembly of the 2003f: the quoting rules of
  \<open>lib/Target/F2003f/MCTargetDesc/F2003fMCAsmInfo.cpp\<close>, \<open>MCSymbol::print\<close> of \<open>lib/MC/MCSymbol.cpp\<close> that applies them,
  and the decimal printing of \<open>lib/Support/NativeFormatting.cpp\<close>.

  A name is any string of bytes. The reference for the quoting is a reader of quoted names, which the
  repository does not have; the reference for numbers is the value of a numeral.
\<close>

section \<open>Symbol names\<close>

text \<open>Comparisons with characters are those of bytes; \<open>char\<close> may be signed, but bytes from 128 on are not
  acceptable whatever the comparison says.\<close>

definition isAcceptableChar :: "char \<Rightarrow> bool" where
  "isAcceptableChar C =
     ((CHR ''a'' \<le> C \<and> C \<le> CHR ''z'') \<or> C = CHR ''F'' \<or> C = CHR ''R'' \<or> C = CHR ''V'' \<or> C = CHR ''X'' \<or>
      (CHR ''0'' \<le> C \<and> C \<le> CHR ''9'') \<or> C = CHR 0x27 \<or> C = CHR ''_'' \<or> C = CHR ''-'')"

fun valid_chars :: "bool \<Rightarrow> string \<Rightarrow> bool" where
  "valid_chars hasNonNumericChar [] = hasNonNumericChar"
| "valid_chars hasNonNumericChar (C # Name) =
     (let hasNonNumericChar = (if \<not> hasNonNumericChar \<and> (C \<le> CHR ''0'' \<or> CHR ''9'' \<le> C) then True else hasNonNumericChar)
      in if \<not> isAcceptableChar C then False else valid_chars hasNonNumericChar Name)"

definition isValidUnquotedName :: "string \<Rightarrow> bool" where
  "isValidUnquotedName Name =
     (if Name = [] then False
      else if length Name = 2 \<and> Name ! 0 = CHR ''f'' \<and> CHR ''0'' \<le> Name ! 1 \<and> Name ! 1 \<le> CHR ''7'' then False
      else if length Name = 2 \<and> Name = ''xx'' then False
      else if Name ! 0 = CHR 0x27 then False
      else valid_chars False Name)"

definition hexdigit :: "nat \<Rightarrow> char" where
  "hexdigit X = (if X < 10 then char_of (of_char CHR ''0'' + X) else char_of (of_char CHR ''a'' + X - 10))"

definition quote_char :: "char \<Rightarrow> string" where
  "quote_char C =
     (if C = CHR 0x27 then [CHR 0x27, CHR 0x27]
      else if isAcceptableChar C then [C]
      else if CHR ''A'' \<le> C \<and> C \<le> CHR ''Z'' then [CHR 0x27, char_of (of_char C - of_char CHR ''A'' + (of_char CHR ''a'' :: nat))]
      else [CHR 0x27, CHR ''x'', hexdigit (of_char C div 16), hexdigit (of_char C mod 16)])"

definition printQuotedName :: "string \<Rightarrow> string" where
  "printQuotedName Name = CHR 0x27 # concat (map quote_char Name)"

text \<open>\<open>MCSymbol::print\<close>; this target supports quoting.\<close>

definition print_symbol :: "string \<Rightarrow> string" where
  "print_symbol Name = (if isValidUnquotedName Name then Name else printQuotedName Name)"

section \<open>Numbers\<close>

definition digit :: "nat \<Rightarrow> char" where
  "digit d = char_of (of_char CHR ''0'' + d)"

fun format_to_buffer :: "nat \<Rightarrow> string" where
  "format_to_buffer Value =
     (if Value div 10 = 0 then [digit (Value mod 10)] else format_to_buffer (Value div 10) @ [digit (Value mod 10)])"

declare format_to_buffer.simps [simp del]

definition write_unsigned :: "nat \<Rightarrow> string" where
  "write_unsigned N = format_to_buffer N"

text \<open>The argument is an \<open>int64_t\<close>; its negation is taken as a \<open>uint64_t\<close>.\<close>

definition write_signed :: "int \<Rightarrow> string" where
  "write_signed N = (if 0 \<le> N then write_unsigned (nat N) else CHR ''-'' # write_unsigned (nat (u64 (- u64 N))))"

section \<open>Reading names and numbers back\<close>

definition hex_value :: "char \<Rightarrow> nat option" where
  "hex_value c = (if CHR ''0'' \<le> c \<and> c \<le> CHR ''9'' then Some (of_char c - of_char CHR ''0'')
     else if CHR ''a'' \<le> c \<and> c \<le> CHR ''f'' then Some (of_char c - of_char CHR ''a'' + 10) else None)"

fun unquote :: "string \<Rightarrow> string option" where
  "unquote [] = Some []"
| "unquote (c # rest) =
     (if c \<noteq> CHR 0x27 then map_option ((#) c) (unquote rest)
      else case rest of
        [] \<Rightarrow> None
      | d # rest' \<Rightarrow>
          if d = CHR 0x27 then map_option ((#) d) (unquote rest')
          else if d = CHR ''x'' then
            (case rest' of
               h # l # rest'' \<Rightarrow>
                 (case (hex_value h, hex_value l) of
                    (Some a, Some b) \<Rightarrow> map_option ((#) (char_of (16 * a + b))) (unquote rest'')
                  | _ \<Rightarrow> None)
             | _ \<Rightarrow> None)
          else if CHR ''a'' \<le> d \<and> d \<le> CHR ''z'' then
            map_option ((#) (char_of (of_char d - of_char CHR ''a'' + (of_char CHR ''A'' :: nat)))) (unquote rest')
          else None)"

definition read_symbol :: "string \<Rightarrow> string option" where
  "read_symbol s = (case s of c # rest \<Rightarrow> if c = CHR 0x27 then unquote rest else Some s | [] \<Rightarrow> None)"

definition is_digit :: "char \<Rightarrow> bool" where
  "is_digit c = (CHR ''0'' \<le> c \<and> c \<le> CHR ''9'')"

definition digits_value :: "string \<Rightarrow> nat" where
  "digits_value s = foldl (\<lambda>n c. 10 * n + (of_char c - of_char CHR ''0'')) 0 s"

definition is_numeral :: "string \<Rightarrow> bool" where
  "is_numeral s = (s \<noteq> [] \<and> (\<forall>c \<in> set s. is_digit c))"

definition read_number :: "string \<Rightarrow> int option" where
  "read_number s = (case s of
     c # rest \<Rightarrow> if c = CHR ''-'' then (if is_numeral rest then Some (- int (digits_value rest)) else None)
       else if is_numeral s then Some (int (digits_value s)) else None
   | [] \<Rightarrow> None)"

section \<open>Round trips\<close>

lemma of_char_less: "(of_char c :: nat) < 256"
  by (metis of_char_mod_256 mod_less_divisor zero_less_numeral)

lemma char_le_iff: "c \<le> d \<longleftrightarrow> (of_char c :: nat) \<le> of_char d"
  by (simp add: less_eq_char_def)

lemma of_char_of_small: "n < 256 \<Longrightarrow> of_char (char_of n :: char) = (n :: nat)"
  by simp

lemma hex_value_hexdigit: "X < 16 \<Longrightarrow> hex_value (hexdigit X) = Some X"
  by (auto simp: hex_value_def hexdigit_def char_le_iff)

lemma unquote_quote_char: "unquote (quote_char C @ rest) = map_option ((#) C) (unquote rest)"
proof -
  consider (q) "C = CHR 0x27" | (ok) "C \<noteq> CHR 0x27" "isAcceptableChar C"
    | (up) "C \<noteq> CHR 0x27" "\<not> isAcceptableChar C" "CHR ''A'' \<le> C" "C \<le> CHR ''Z''"
    | (hex) "C \<noteq> CHR 0x27" "\<not> isAcceptableChar C" "\<not> (CHR ''A'' \<le> C \<and> C \<le> CHR ''Z'')" by blast
  then show ?thesis
  proof cases
    case up
    define n where "n = (of_char C :: nat)"
    have C: "C = char_of n" by (simp add: n_def)
    have n: "65 \<le> n" "n \<le> 90" using up(3,4) by (simp_all add: char_le_iff n_def)
    have "C \<noteq> CHR ''X''" using up(2) by (auto simp: isAcceptableChar_def)
    then have "n \<noteq> of_char CHR ''X''" unfolding n_def of_char_eq_iff .
    then have "n \<noteq> 88" by simp
    then have "char_of (n + 32) \<noteq> CHR ''x''" "char_of (n + 32) \<noteq> CHR 0x27"
      using n by (auto dest!: arg_cong [of _ _ "of_char :: char \<Rightarrow> nat"])
    moreover have "CHR ''a'' \<le> char_of (n + 32)" "char_of (n + 32) \<le> CHR ''z''" using n by (simp_all add: char_le_iff)
    moreover have "quote_char C = [CHR 0x27, char_of (n + 32)]"
      using up n by (simp add: quote_char_def n_def [symmetric])
    moreover have "char_of ((of_char (char_of (n + 32) :: char) - 97) + 65 :: nat) = C" using n C by simp
    ultimately show ?thesis by simp
  next
    case hex
    have "of_char C div 16 < (16 :: nat)" "of_char C mod 16 < (16 :: nat)"
      using less_mult_imp_div_less [of "of_char C" 16 16] of_char_less [of C] by simp_all
    moreover have "16 * (of_char C div 16) + of_char C mod 16 = (of_char C :: nat)" by (simp add: mult.commute)
    moreover have "quote_char C = [CHR 0x27, CHR ''x'', hexdigit (of_char C div 16), hexdigit (of_char C mod 16)]"
      using hex by (auto simp: quote_char_def)
    ultimately show ?thesis by (simp add: hex_value_hexdigit)
  qed (simp_all add: quote_char_def)
qed

lemma unquote_printQuotedName: "unquote (concat (map quote_char Name)) = Some Name"
  by (induction Name) (simp_all add: unquote_quote_char)

lemma valid_chars_iff:
  "valid_chars b Name \<longleftrightarrow> (\<forall>c \<in> set Name. isAcceptableChar c) \<and> (b \<or> (\<exists>c \<in> set Name. \<not> (CHR ''0'' < c \<and> c < CHR ''9'')))"
  by (induction b Name rule: valid_chars.induct) (auto simp: Let_def not_less)

lemma isValidUnquotedNameD:
  assumes "isValidUnquotedName Name"
  shows "Name \<noteq> []" "hd Name \<noteq> CHR 0x27" "\<forall>c \<in> set Name. isAcceptableChar c"
    "\<exists>c \<in> set Name. \<not> (CHR ''0'' < c \<and> c < CHR ''9'')"
  using assms by (auto simp: isValidUnquotedName_def valid_chars_iff hd_conv_nth split: if_splits)

lemma hexdigit_acceptable: "X < 16 \<Longrightarrow> isAcceptableChar (hexdigit X)"
  by (auto simp: isAcceptableChar_def hexdigit_def char_le_iff)

lemma quote_char_acceptable: "c \<in> set (quote_char C) \<Longrightarrow> isAcceptableChar c"
proof -
  assume c: "c \<in> set (quote_char C)"
  have "of_char C div 16 < (16 :: nat)" using less_mult_imp_div_less [of "of_char C" 16 16] of_char_less [of C] by simp
  then have hex: "isAcceptableChar (hexdigit (of_char C div 16))" "isAcceptableChar (hexdigit (of_char C mod 16))"
    by (simp_all add: hexdigit_acceptable)
  have up: "isAcceptableChar (char_of (of_char C - 65 + 97 :: nat))" if "CHR ''A'' \<le> C" "C \<le> CHR ''Z''"
    using that by (auto simp: isAcceptableChar_def char_le_iff)
  have "isAcceptableChar CHR 0x27" "isAcceptableChar CHR ''x''" by (simp_all add: isAcceptableChar_def)
  then show ?thesis using c hex up by (auto simp: quote_char_def split: if_splits)
qed

lemma print_symbol_cases:
  obtains "isValidUnquotedName Name" "print_symbol Name = Name"
    | "\<not> isValidUnquotedName Name" "print_symbol Name = CHR 0x27 # concat (map quote_char Name)"
  by (auto simp: print_symbol_def printQuotedName_def)

lemma print_symbol_facts:
  "read_symbol (print_symbol Name) = Some Name \<and> print_symbol Name \<noteq> [] \<and>
   (\<forall>c \<in> set (print_symbol Name). isAcceptableChar c) \<and>
   print_symbol Name \<notin> {''f0'', ''f1'', ''f2'', ''f3'', ''f4'', ''f5'', ''f6'', ''f7'', ''xx''}"
proof (cases rule: print_symbol_cases [of Name])
  case 1
  have "Name \<notin> {''f0'', ''f1'', ''f2'', ''f3'', ''f4'', ''f5'', ''f6'', ''f7'', ''xx''}"
    using 1(1) by (auto simp: isValidUnquotedName_def char_le_iff)
  then show ?thesis unfolding 1(2) using isValidUnquotedNameD(1-3) [OF 1(1)] by (cases Name) (simp_all add: read_symbol_def)
next
  case 2
  have "isAcceptableChar CHR 0x27" by (simp add: isAcceptableChar_def)
  then show ?thesis unfolding 2(2)
    using quote_char_acceptable by (auto simp: read_symbol_def unquote_printQuotedName)
qed

text \<open>
  C27. What \<open>MCSymbol::print\<close> writes for a name can be read back: quoted or not, the text determines the
  name, for every string of bytes. It consists of characters that the rules accept, so there is no space or
  line end in it, and it is never the name of a register.
\<close>

theorem print_symbol_round_trip:
  "read_symbol (print_symbol Name) = Some Name \<and> print_symbol Name \<noteq> [] \<and>
   list_all isAcceptableChar (print_symbol Name) \<and>
   print_symbol Name \<notin> {''f0'', ''f1'', ''f2'', ''f3'', ''f4'', ''f5'', ''f6'', ''f7'', ''xx''}"
  using print_symbol_facts [of Name] by (auto simp: list_all_iff)

lemma is_digit_iff: "is_digit c \<longleftrightarrow> c = CHR ''0'' \<or> c = CHR ''9'' \<or> (CHR ''0'' < c \<and> c < CHR ''9'')"
  by (auto simp: is_digit_def order_le_less)

lemma digit_acceptable: "is_digit c \<Longrightarrow> isAcceptableChar c \<and> c \<noteq> CHR 0x27 \<and> c \<noteq> CHR ''f'' \<and> c \<noteq> CHR ''x''"
  by (auto simp: is_digit_def isAcceptableChar_def char_le_iff)

text \<open>
  A name of digits only is not always quoted: the test for a character that is not a digit takes \<open>0\<close> and
  \<open>9\<close> for such characters, so the name is written like a number exactly when it has one of them.
\<close>

theorem print_symbol_numeral:
  "is_numeral (print_symbol Name) \<longleftrightarrow> is_numeral Name \<and> (CHR ''0'' \<in> set Name \<or> CHR ''9'' \<in> set Name)"
proof (cases rule: print_symbol_cases [of Name])
  case 1
  obtain c where c: "c \<in> set Name" "\<not> (CHR ''0'' < c \<and> c < CHR ''9'')" using isValidUnquotedNameD(4) [OF 1(1)] by blast
  have "CHR ''0'' \<in> set Name \<or> CHR ''9'' \<in> set Name" if "is_numeral Name"
  proof -
    have "is_digit c" using that c(1) by (simp add: is_numeral_def)
    then show ?thesis using c is_digit_iff [of c] by metis
  qed
  then show ?thesis unfolding 1(2) by blast
next
  case 2
  have "\<not> is_digit CHR 0x27" by (simp add: is_digit_def)
  moreover have "isValidUnquotedName Name" if "is_numeral Name" "CHR ''0'' \<in> set Name \<or> CHR ''9'' \<in> set Name"
  proof -
    have d: "isAcceptableChar c \<and> c \<noteq> CHR 0x27 \<and> c \<noteq> CHR ''f'' \<and> c \<noteq> CHR ''x''" if "c \<in> set Name" for c
      using that \<open>is_numeral Name\<close> digit_acceptable by (simp add: is_numeral_def)
    have "Name \<noteq> []" using that(1) by (simp add: is_numeral_def)
    then have "Name ! 0 \<in> set Name" by simp
    from d [OF this] show ?thesis using d that(2) \<open>Name \<noteq> []\<close>
      by (auto simp: isValidUnquotedName_def valid_chars_iff)
  qed
  ultimately show ?thesis using 2 by (auto simp: is_numeral_def)
qed

lemma digit_is_digit: "d < 10 \<Longrightarrow> is_digit (digit d) \<and> of_char (digit d) = 48 + d"
  by (simp add: digit_def is_digit_def char_le_iff)

lemma digits_value_append: "digits_value (xs @ [c]) = 10 * digits_value xs + (of_char c - 48)"
  by (simp add: digits_value_def)

lemma format_to_buffer_value: "is_numeral (format_to_buffer n) \<and> digits_value (format_to_buffer n) = n"
proof (induction n rule: format_to_buffer.induct)
  case (1 n)
  note D = digit_is_digit [of "n mod 10"]
  show ?case
  proof (cases "n div 10 = 0")
    case True
    then have "format_to_buffer n = [] @ [digit (n mod 10)]" by (simp add: format_to_buffer.simps [of n])
    then show ?thesis using D True digits_value_append [of "[]" "digit (n mod 10)"]
      by (simp add: is_numeral_def digits_value_def [of "[]"])
  next
    case False
    then have "format_to_buffer n = format_to_buffer (n div 10) @ [digit (n mod 10)]" by (simp add: format_to_buffer.simps [of n])
    then show ?thesis using D "1.IH" [OF False] by (simp add: is_numeral_def digits_value_append)
  qed
qed

text \<open>
  The decimal text of an \<open>int64_t\<close> reads back as its value, the least one included, and it is a numeral or a
  minus sign before one.
\<close>

theorem write_signed_round_trip:
  assumes "- (2 ^ 63) \<le> N" "N < 2 ^ 63"
  shows "read_number (write_signed N) = Some N"
proof (cases "0 \<le> N")
  case True
  obtain c rest where c: "format_to_buffer (nat N) = c # rest" "is_digit c"
    using format_to_buffer_value [of "nat N"] by (cases "format_to_buffer (nat N)") (auto simp: is_numeral_def)
  have "c \<noteq> CHR ''-''" using c(2) by (auto simp: is_digit_def char_le_iff)
  then show ?thesis using True c format_to_buffer_value [of "nat N"]
    by (simp add: write_signed_def write_unsigned_def read_number_def)
next
  case False
  have "u64 (- u64 N) = u64 (- N)" by (simp add: u64_mod mod_minus_eq)
  also have "\<dots> = - N" using False assms by (intro u64_id) simp_all
  finally show ?thesis using False format_to_buffer_value [of "nat (- N)"]
    by (simp add: write_signed_def write_unsigned_def read_number_def)
qed

theorem write_signed_round_trip_witness: "read_number (write_signed (- (2 ^ 63))) = Some (- (2 ^ 63))"
  by (rule write_signed_round_trip) simp_all

end
