(* ===== verification/MCExprs.thy ===== *)
theory MCExprs
  imports SymbolNames "HOL-Library.Signed_Division"
begin

text \<open>
  Assembler expressions, \<open>lib/MC/MCExpr.cpp\<close>: their printing and their evaluation to a symbol, minus a symbol,
  plus a constant. Values are \<open>int64_t\<close>; signed overflow is taken to wrap. Shifts by 64 or more, a remainder by
  zero and the quotient of the least value by \<open>-1\<close>, which C++ leaves undefined, stop the model with
  \<open>Unreachable\<close>. Expressions of other targets (\<open>MCTargetExpr\<close>) are not modelled.

  The assembler, the layout and the section addresses are there or not, as the pointers of the source are;
  what they know about symbols is a record. A variable symbol stands for an expression: the number of
  variables expanded inside each other is bounded by a fuel, and \<open>evaluate_terminates\<close> says how much is enough.
\<close>

section \<open>Expressions\<close>

datatype variant_kind = VK_None | VK_WEAKREF | VK_Other nat

type_synonym sym_ref = "string \<times> variant_kind"

datatype mc_unary = U_LNot | U_Minus | U_Not | U_Plus

datatype mc_binary = B_Add | B_And | B_Div | B_EQ | B_GT | B_GTE | B_LAnd | B_LOr | B_LT | B_LTE | B_Mod | B_Mul
  | B_NE | B_Or | B_Shl | B_AShr | B_LShr | B_Sub | B_Xor

datatype mc_expr =
    ConstantExpr "64 word"
  | SymbolRefExpr sym_ref
  | UnaryExpr mc_unary mc_expr
  | BinaryExpr mc_binary mc_expr mc_expr

section \<open>Printing\<close>

definition binary_text :: "mc_binary \<Rightarrow> string" where
  "binary_text op = (case op of B_Add \<Rightarrow> ''+'' | B_AShr \<Rightarrow> ''>>'' | B_And \<Rightarrow> ''&'' | B_Div \<Rightarrow> ''/'' | B_EQ \<Rightarrow> ''==''
     | B_GT \<Rightarrow> ''>'' | B_GTE \<Rightarrow> ''>='' | B_LAnd \<Rightarrow> ''&&'' | B_LOr \<Rightarrow> ''||'' | B_LShr \<Rightarrow> ''>>'' | B_LT \<Rightarrow> ''<''
     | B_LTE \<Rightarrow> ''<='' | B_Mod \<Rightarrow> ''%'' | B_Mul \<Rightarrow> ''*'' | B_NE \<Rightarrow> ''!='' | B_Or \<Rightarrow> ''|'' | B_Shl \<Rightarrow> ''<<''
     | B_Sub \<Rightarrow> ''-'' | B_Xor \<Rightarrow> ''^'')"

definition unary_text :: "mc_unary \<Rightarrow> string" where
  "unary_text op = (case op of U_LNot \<Rightarrow> ''!'' | U_Minus \<Rightarrow> ''-'' | U_Not \<Rightarrow> ''~'' | U_Plus \<Rightarrow> ''+'')"

fun is_simple :: "mc_expr \<Rightarrow> bool" where
  "is_simple (ConstantExpr _) = True"
| "is_simple (SymbolRefExpr _) = True"
| "is_simple _ = False"

text \<open>\<open>variant_name\<close> is \<open>getVariantKindName\<close>; this target does not write variants in parentheses.\<close>

definition print_sym_ref :: "(variant_kind \<Rightarrow> string) \<Rightarrow> bool \<Rightarrow> sym_ref \<Rightarrow> string" where
  "print_sym_ref variant_name InParens SRE =
     (let (Name, Kind) = SRE;
          UseParens = (\<not> InParens \<and> Name \<noteq> [] \<and> hd Name = CHR ''$'')
      in (if UseParens then ''('' @ print_symbol Name @ '')'' else print_symbol Name) @
         (if Kind \<noteq> VK_None then ''@'' @ variant_name Kind else []))"

fun print_expr :: "(variant_kind \<Rightarrow> string) \<Rightarrow> bool \<Rightarrow> mc_expr \<Rightarrow> string" where
  "print_expr vn InParens (ConstantExpr c) = write_signed (sint c)"
| "print_expr vn InParens (SymbolRefExpr SRE) = print_sym_ref vn InParens SRE"
| "print_expr vn InParens (UnaryExpr op e) = unary_text op @ print_expr vn False e"
| "print_expr vn InParens (BinaryExpr op l r) =
     (let parens = (\<lambda>e s. if is_simple e then s else ''('' @ s @ '')'');
          left = parens l (print_expr vn False l)
      in case (op, r) of
           (B_Add, ConstantExpr c) \<Rightarrow>
             if sint c < 0 then left @ write_signed (sint c) else left @ ''+'' @ print_expr vn False r
         | _ \<Rightarrow> left @ binary_text op @ parens r (print_expr vn False r))"

section \<open>Evaluation\<close>

record mc_value =
  SymA :: "sym_ref option"
  SymB :: "sym_ref option"
  Cst :: "64 word"

definition value_of_constant :: "64 word \<Rightarrow> mc_value" where
  "value_of_constant c = \<lparr>SymA = None, SymB = None, Cst = c\<rparr>"

definition isAbsolute :: "mc_value \<Rightarrow> bool" where
  "isAbsolute V = (SymA V = None \<and> SymB V = None)"

text \<open>What is known of the symbols. \<open>Asm\<close>, \<open>Layout\<close> and \<open>Addrs\<close> are \<open>None\<close> for null pointers; of the assembler, the
  evaluation asks whether a difference is resolved and which symbols are Thumb functions.\<close>

record mc_context =
  variable_value :: "string \<Rightarrow> mc_expr option"
  sym_undefined :: "string \<Rightarrow> bool"
  sym_absolute :: "string \<Rightarrow> bool"
  sym_fragment :: "string \<Rightarrow> nat"
  sym_offset :: "string \<Rightarrow> 64 word"
  fragment_section :: "nat \<Rightarrow> nat"
  hasSubsectionsViaSymbols :: bool
  Asm :: "(sym_ref \<Rightarrow> sym_ref \<Rightarrow> bool \<Rightarrow> bool) option"
  isThumbFunc :: "string \<Rightarrow> bool"
  Layout :: "(string \<Rightarrow> 64 word) option"
  Addrs :: "(nat \<Rightarrow> 64 word option) option"

definition lookup_address :: "(nat \<Rightarrow> 64 word option) \<Rightarrow> nat \<Rightarrow> 64 word" where
  "lookup_address addrs s = (case addrs s of None \<Rightarrow> 0 | Some a \<Rightarrow> a)"

text \<open>The state is the two symbols and the addend. Without an assembler this is not called.\<close>

definition AttemptToFoldSymbolOffsetDifference :: "mc_context \<Rightarrow> (sym_ref \<Rightarrow> sym_ref \<Rightarrow> bool \<Rightarrow> bool) \<Rightarrow> bool
    \<Rightarrow> sym_ref option \<Rightarrow> sym_ref option \<Rightarrow> 64 word \<Rightarrow> sym_ref option \<times> sym_ref option \<times> 64 word" where
  "AttemptToFoldSymbolOffsetDifference C resolved InSet A B Addend =
     (case (A, B) of
        (Some a, Some b) \<Rightarrow>
          let SA = fst a; SB = fst b in
          if sym_undefined C SA \<or> sym_undefined C SB then (A, B, Addend)
          else if \<not> resolved a b InSet then (A, B, Addend)
          else if sym_fragment C SA = sym_fragment C SB \<and> variable_value C SA = None \<and> variable_value C SB = None then
            (let Addend = Addend + (sym_offset C SA - sym_offset C SB)
             in (None, None, if isThumbFunc C SA then Addend OR 1 else Addend))
          else (case Layout C of
              None \<Rightarrow> (A, B, Addend)
            | Some getSymbolOffset \<Rightarrow>
                let SecA = fragment_section C (sym_fragment C SA); SecB = fragment_section C (sym_fragment C SB) in
                if SecA \<noteq> SecB \<and> Addrs C = None then (A, B, Addend)
                else
                  let Addend = Addend + (getSymbolOffset SA - getSymbolOffset SB);
                      Addend = (case Addrs C of
                        Some addrs \<Rightarrow> if SecA \<noteq> SecB then Addend + (lookup_address addrs SecA - lookup_address addrs SecB) else Addend
                      | None \<Rightarrow> Addend)
                  in (None, None, if isThumbFunc C SA then Addend OR 1 else Addend))
      | _ \<Rightarrow> (A, B, Addend))"

text \<open>\<open>Inr None\<close> is the result \<open>false\<close>: the sum cannot be represented.\<close>

definition EvaluateSymbolicAdd :: "mc_context \<Rightarrow> bool \<Rightarrow> mc_value \<Rightarrow> sym_ref option \<Rightarrow> sym_ref option \<Rightarrow> 64 word
    \<Rightarrow> mc_value option result" where
  "EvaluateSymbolicAdd C InSet LHS RHS_A RHS_B RHS_Cst =
     (if Layout C \<noteq> None \<and> Asm C = None then Inl AssertFailed
      else
        let fold = (case Asm C of None \<Rightarrow> (\<lambda>A B c. (A, B, c))
              | Some resolved \<Rightarrow> AttemptToFoldSymbolOffsetDifference C resolved InSet);
            (LHS_A, LHS_B, c) = fold (SymA LHS) (SymB LHS) (Cst LHS + RHS_Cst);
            (LHS_A, RHS_B, c) = fold LHS_A RHS_B c;
            (RHS_A, LHS_B, c) = fold RHS_A LHS_B c;
            (RHS_A, RHS_B, c) = fold RHS_A RHS_B c
        in if (LHS_A \<noteq> None \<and> RHS_A \<noteq> None) \<or> (LHS_B \<noteq> None \<and> RHS_B \<noteq> None) then Inr None
           else Inr (Some \<lparr>SymA = (if LHS_A \<noteq> None then LHS_A else RHS_A),
                          SymB = (if LHS_B \<noteq> None then LHS_B else RHS_B), Cst = c\<rparr>))"

definition of_bool_word :: "bool \<Rightarrow> 64 word" where
  "of_bool_word b = (if b then 1 else 0)"

text \<open>The operators on constants.\<close>

definition binary_constant :: "mc_binary \<Rightarrow> 64 word \<Rightarrow> 64 word \<Rightarrow> 64 word option result" where
  "binary_constant op LHS RHS =
     (let shift_ok = (0 \<le> sint RHS \<and> sint RHS < 64);
          overflow = (sint LHS = - (2 ^ 63) \<and> sint RHS = - 1)
      in case op of
        B_AShr \<Rightarrow> if shift_ok then Inr (Some (signed_drop_bit (unat RHS) LHS)) else Inl Unreachable
      | B_Add \<Rightarrow> Inr (Some (LHS + RHS))
      | B_And \<Rightarrow> Inr (Some (LHS AND RHS))
      | B_Div \<Rightarrow> if RHS = 0 then Inr None
                 else if overflow then Inl Unreachable else Inr (Some (word_of_int (sint LHS sdiv sint RHS)))
      | B_EQ \<Rightarrow> Inr (Some (of_bool_word (LHS = RHS)))
      | B_GT \<Rightarrow> Inr (Some (of_bool_word (sint LHS > sint RHS)))
      | B_GTE \<Rightarrow> Inr (Some (of_bool_word (sint LHS \<ge> sint RHS)))
      | B_LAnd \<Rightarrow> Inr (Some (of_bool_word (LHS \<noteq> 0 \<and> RHS \<noteq> 0)))
      | B_LOr \<Rightarrow> Inr (Some (of_bool_word (LHS \<noteq> 0 \<or> RHS \<noteq> 0)))
      | B_LShr \<Rightarrow> if shift_ok then Inr (Some (drop_bit (unat RHS) LHS)) else Inl Unreachable
      | B_LT \<Rightarrow> Inr (Some (of_bool_word (sint LHS < sint RHS)))
      | B_LTE \<Rightarrow> Inr (Some (of_bool_word (sint LHS \<le> sint RHS)))
      | B_Mod \<Rightarrow> if RHS = 0 \<or> overflow then Inl Unreachable else Inr (Some (word_of_int (sint LHS smod sint RHS)))
      | B_Mul \<Rightarrow> Inr (Some (LHS * RHS))
      | B_NE \<Rightarrow> Inr (Some (of_bool_word (LHS \<noteq> RHS)))
      | B_Or \<Rightarrow> Inr (Some (LHS OR RHS))
      | B_Shl \<Rightarrow> if shift_ok then Inr (Some (push_bit (unat RHS) LHS)) else Inl Unreachable
      | B_Sub \<Rightarrow> Inr (Some (LHS - RHS))
      | B_Xor \<Rightarrow> Inr (Some (LHS XOR RHS)))"

definition evaluate_unary :: "mc_unary \<Rightarrow> mc_value \<Rightarrow> mc_value option" where
  "evaluate_unary op V = (case op of
     U_LNot \<Rightarrow> if \<not> isAbsolute V then None else Some (value_of_constant (of_bool_word (Cst V = 0)))
   | U_Minus \<Rightarrow> if SymA V \<noteq> None \<and> SymB V = None then None else Some \<lparr>SymA = SymB V, SymB = SymA V, Cst = - Cst V\<rparr>
   | U_Not \<Rightarrow> if \<not> isAbsolute V then None else Some (value_of_constant (NOT (Cst V)))
   | U_Plus \<Rightarrow> Some V)"

definition evaluate_binary :: "mc_context \<Rightarrow> bool \<Rightarrow> mc_binary \<Rightarrow> mc_value \<Rightarrow> mc_value \<Rightarrow> mc_value option result" where
  "evaluate_binary C InSet op LHS RHS =
     (if \<not> isAbsolute LHS \<or> \<not> isAbsolute RHS then
        (case op of
           B_Sub \<Rightarrow> EvaluateSymbolicAdd C InSet LHS (SymB RHS) (SymA RHS) (- Cst RHS)
         | B_Add \<Rightarrow> EvaluateSymbolicAdd C InSet LHS (SymA RHS) (SymB RHS) (Cst RHS)
         | _ \<Rightarrow> Inr None)
      else bind_result (binary_constant op (Cst LHS) (Cst RHS)) (\<lambda>r. Inr (map_option value_of_constant r)))"

definition canExpand :: "mc_context \<Rightarrow> string \<Rightarrow> mc_expr \<Rightarrow> bool \<Rightarrow> bool" where
  "canExpand C Sym Expr InSet =
     (case Expr of
        SymbolRefExpr (_, Kind) \<Rightarrow> if Kind = VK_WEAKREF then False
          else InSet \<or> \<not> (\<not> sym_undefined C Sym \<and> \<not> sym_absolute C Sym)
      | _ \<Rightarrow> InSet \<or> \<not> (\<not> sym_undefined C Sym \<and> \<not> sym_absolute C Sym))"

text \<open>\<open>None\<close> is the end of the fuel, \<open>Some (Inr None)\<close> the result \<open>false\<close>.\<close>

definition then_value :: "mc_value option result option \<Rightarrow> (mc_value \<Rightarrow> mc_value option result option)
    \<Rightarrow> mc_value option result option" where
  "then_value r k = (case r of Some (Inr (Some V)) \<Rightarrow> k V | _ \<Rightarrow> r)"

lemma then_value_cong [fundef_cong]:
  "r = r' \<Longrightarrow> (\<And>V. r' = Some (Inr (Some V)) \<Longrightarrow> k V = k' V) \<Longrightarrow> then_value r k = then_value r' k'"
  by (auto simp: then_value_def split: option.split sum.split)

function evaluateAsRelocatableImpl :: "mc_context \<Rightarrow> nat \<Rightarrow> bool \<Rightarrow> mc_expr \<Rightarrow> mc_value option result option" where
  "evaluateAsRelocatableImpl C fuel InSet (ConstantExpr c) = Some (Inr (Some (value_of_constant c)))"
| "evaluateAsRelocatableImpl C fuel InSet (SymbolRefExpr SRE) =
     (let self = Some (Inr (Some \<lparr>SymA = Some SRE, SymB = None, Cst = 0\<rparr>)) in
      case variable_value C (fst SRE) of
        None \<Rightarrow> self
      | Some Expr \<Rightarrow>
          if snd SRE = VK_None \<and> canExpand C (fst SRE) Expr InSet then
            (case fuel of
               0 \<Rightarrow> None
             | Suc fuel \<Rightarrow>
                 (case evaluateAsRelocatableImpl C fuel (InSet \<or> hasSubsectionsViaSymbols C) Expr of
                    Some (Inr (Some Res)) \<Rightarrow>
                      if \<not> hasSubsectionsViaSymbols C then Some (Inr (Some Res))
                      else if SymA Res = None \<and> SymB Res = None then Some (Inr (Some Res))
                      else if Cst Res = 0 \<and> (SymA Res = None \<or> SymB Res = None) then Some (Inr (Some Res))
                      else self
                  | Some (Inr None) \<Rightarrow> self
                  | r \<Rightarrow> r))
          else self)"
| "evaluateAsRelocatableImpl C fuel InSet (UnaryExpr op e) =
     then_value (evaluateAsRelocatableImpl C fuel InSet e) (\<lambda>V. Some (Inr (evaluate_unary op V)))"
| "evaluateAsRelocatableImpl C fuel InSet (BinaryExpr op l r) =
     then_value (evaluateAsRelocatableImpl C fuel InSet l) (\<lambda>LHS.
       then_value (evaluateAsRelocatableImpl C fuel InSet r) (\<lambda>RHS. Some (evaluate_binary C InSet op LHS RHS)))"
  by pat_completeness auto

termination evaluateAsRelocatableImpl
  by (relation "measures [\<lambda>(_, fuel, _, _). fuel, \<lambda>(_, _, _, e). size e]") auto

text \<open>The result and the value of \<open>Res\<close>; with section addresses the differences across sections count as in a
  set directive.\<close>

definition evaluateAsAbsolute :: "mc_context \<Rightarrow> nat \<Rightarrow> mc_expr \<Rightarrow> (bool \<times> 64 word) result option" where
  "evaluateAsAbsolute C fuel e = (case e of
     ConstantExpr c \<Rightarrow> Some (Inr (True, c))
   | _ \<Rightarrow> (case evaluateAsRelocatableImpl C fuel (Addrs C \<noteq> None) e of
       None \<Rightarrow> None
     | Some (Inl f) \<Rightarrow> Some (Inl f)
     | Some (Inr None) \<Rightarrow> Some (Inr (False, 0))
     | Some (Inr (Some V)) \<Rightarrow> Some (Inr (isAbsolute V, Cst V))))"

section \<open>Evaluation is sound\<close>

text \<open>The value of an expression when the symbols have addresses.\<close>

definition unary_value :: "mc_unary \<Rightarrow> 64 word \<Rightarrow> 64 word" where
  "unary_value op v = (case op of U_LNot \<Rightarrow> of_bool_word (v = 0) | U_Minus \<Rightarrow> - v | U_Not \<Rightarrow> NOT v | U_Plus \<Rightarrow> v)"

fun expr_value :: "(sym_ref \<Rightarrow> 64 word) \<Rightarrow> mc_expr \<Rightarrow> 64 word option" where
  "expr_value addr (ConstantExpr c) = Some c"
| "expr_value addr (SymbolRefExpr SRE) = Some (addr SRE)"
| "expr_value addr (UnaryExpr op e) = map_option (unary_value op) (expr_value addr e)"
| "expr_value addr (BinaryExpr op l r) =
     (case (expr_value addr l, expr_value addr r) of
        (Some a, Some b) \<Rightarrow> (case binary_constant op a b of Inr v \<Rightarrow> v | Inl _ \<Rightarrow> None)
      | _ \<Rightarrow> None)"

definition sym_value :: "(sym_ref \<Rightarrow> 64 word) \<Rightarrow> sym_ref option \<Rightarrow> 64 word" where
  "sym_value addr s = (case s of None \<Rightarrow> 0 | Some a \<Rightarrow> addr a)"

definition value_at :: "(sym_ref \<Rightarrow> 64 word) \<Rightarrow> mc_value \<Rightarrow> 64 word" where
  "value_at addr V = sym_value addr (SymA V) - sym_value addr (SymB V) + Cst V"

lemma sym_value_simps [simp]: "sym_value addr None = 0" "sym_value addr (Some a) = addr a"
  by (simp_all add: sym_value_def)

lemma value_at_constant [simp]: "value_at addr (value_of_constant c) = c" "isAbsolute (value_of_constant c)"
  by (simp_all add: value_at_def value_of_constant_def isAbsolute_def)

lemma value_at_absolute: "isAbsolute V \<Longrightarrow> value_at addr V = Cst V"
  by (simp add: value_at_def isAbsolute_def)

text \<open>Addresses that agree with the variables and with what the assembler and the layout know.\<close>

definition addresses_ok :: "mc_context \<Rightarrow> (sym_ref \<Rightarrow> 64 word) \<Rightarrow> bool" where
  "addresses_ok C addr =
     ((\<forall>x e. variable_value C x = Some e \<longrightarrow> expr_value addr e = Some (addr (x, VK_None))) \<and>
      (\<forall>x. \<not> isThumbFunc C x) \<and>
      (\<forall>resolved a b InSet. Asm C = Some resolved \<and> resolved a b InSet \<and> \<not> sym_undefined C (fst a) \<and> \<not> sym_undefined C (fst b) \<longrightarrow>
         (sym_fragment C (fst a) = sym_fragment C (fst b) \<and> variable_value C (fst a) = None \<and> variable_value C (fst b) = None \<longrightarrow>
            addr a - addr b = sym_offset C (fst a) - sym_offset C (fst b)) \<and>
         (\<forall>at. Layout C = Some at \<longrightarrow>
            (let SecA = fragment_section C (sym_fragment C (fst a)); SecB = fragment_section C (sym_fragment C (fst b)) in
             (SecA = SecB \<longrightarrow> addr a - addr b = at (fst a) - at (fst b)) \<and>
             (\<forall>addrs. Addrs C = Some addrs \<longrightarrow> addr a - addr b =
                (at (fst a) + lookup_address addrs SecA) - (at (fst b) + lookup_address addrs SecB))))))"

lemma group_diff: "(a + b) - (c + d) = (a - c) + (b - d)" for a b c d :: "64 word"
  by (simp add: algebra_simps)

lemma fold_difference_sound:
  assumes "AttemptToFoldSymbolOffsetDifference C resolved InSet A B c = (A', B', c')"
    and "addresses_ok C addr" "Asm C = Some resolved"
  shows "sym_value addr A' - sym_value addr B' + c' = sym_value addr A - sym_value addr B + c"
proof (cases "A = None \<or> B = None")
  case True
  then show ?thesis using assms(1) by (auto simp: AttemptToFoldSymbolOffsetDifference_def split: option.splits)
next
  case False
  then obtain a b where ab: "A = Some a" "B = Some b" by (cases A; cases B) auto
  note no_thumb = assms(2) [unfolded addresses_ok_def, THEN conjunct2, THEN conjunct1]
  note ok = assms(2) [unfolded addresses_ok_def, THEN conjunct2, THEN conjunct2, rule_format, of resolved a b InSet, OF conjI, OF assms(3)]
  show ?thesis
    using assms(1) ok [unfolded group_diff] no_thumb
    by (auto simp: ab AttemptToFoldSymbolOffsetDifference_def Let_def ac_simps split: if_splits option.splits)
qed

lemma EvaluateSymbolicAdd_sound:
  assumes "EvaluateSymbolicAdd C InSet L A B c = Inr (Some V)" "addresses_ok C addr"
  shows "value_at addr V = value_at addr L + (sym_value addr A - sym_value addr B + c)"
proof -
  define fold where "fold = (case Asm C of None \<Rightarrow> (\<lambda>A B c. (A, B, c))
    | Some resolved \<Rightarrow> AttemptToFoldSymbolOffsetDifference C resolved InSet)"
  have fold_sound: "c' = sym_value addr A - sym_value addr B + c - sym_value addr A' + sym_value addr B'"
    if "fold A B c = (A', B', c')" for A B c A' B' c'
    using that fold_difference_sound [OF _ assms(2), of _ InSet A B c A' B' c', symmetric]
    by (auto simp: fold_def split: option.splits)
  obtain LA1 LB1 c1 where f1: "fold (SymA L) (SymB L) (Cst L + c) = (LA1, LB1, c1)" by (metis prod_cases3)
  obtain LA2 RB2 c2 where f2: "fold LA1 B c1 = (LA2, RB2, c2)" by (metis prod_cases3)
  obtain RA3 LB3 c3 where f3: "fold A LB1 c2 = (RA3, LB3, c3)" by (metis prod_cases3)
  obtain RA4 RB4 c4 where f4: "fold RA3 RB2 c3 = (RA4, RB4, c4)" by (metis prod_cases3)
  have V: "V = \<lparr>SymA = (if LA2 \<noteq> None then LA2 else RA4), SymB = (if LB3 \<noteq> None then LB3 else RB4), Cst = c4\<rparr>"
    and one: "LA2 = None \<or> RA4 = None" "LB3 = None \<or> RB4 = None"
    using assms(1) unfolding EvaluateSymbolicAdd_def fold_def [symmetric]
    by (simp_all add: f1 f2 f3 f4 Let_def case_prod_beta del: not_None_eq split: if_split_asm)
  have "value_at addr V = sym_value addr LA2 + sym_value addr RA4 - (sym_value addr LB3 + sym_value addr RB4) + c4"
    using one by (cases LA2; cases RA4; cases LB3; cases RB4) (simp_all add: V value_at_def)
  also have "\<dots> = value_at addr L + (sym_value addr A - sym_value addr B + c)"
    using fold_sound [OF f1] fold_sound [OF f2] fold_sound [OF f3] fold_sound [OF f4] by (simp add: value_at_def)
  finally show ?thesis .
qed

lemma evaluate_unary_sound: "evaluate_unary op V = Some W \<Longrightarrow> value_at addr W = unary_value op (value_at addr V)"
  by (cases op; cases "SymA V"; cases "SymB V")
    (auto simp: evaluate_unary_def unary_value_def isAbsolute_def value_at_def value_of_constant_def)

lemma evaluate_binary_sound:
  assumes "evaluate_binary C InSet op L R = Inr (Some V)" "addresses_ok C addr"
  shows "binary_constant op (value_at addr L) (value_at addr R) = Inr (Some (value_at addr V))"
proof (cases "isAbsolute L \<and> isAbsolute R")
  case True
  then show ?thesis using assms(1) by (auto simp: evaluate_binary_def bind_result_Inr_iff value_at_absolute)
next
  case False
  then consider (sub) "op = B_Sub" "EvaluateSymbolicAdd C InSet L (SymB R) (SymA R) (- Cst R) = Inr (Some V)"
    | (add) "op = B_Add" "EvaluateSymbolicAdd C InSet L (SymA R) (SymB R) (Cst R) = Inr (Some V)"
    using assms(1) by (cases op) (auto simp: evaluate_binary_def)
  then show ?thesis
  proof cases
    case sub
    show ?thesis using EvaluateSymbolicAdd_sound [OF sub(2) assms(2)] by (simp add: sub(1) binary_constant_def) (simp add: value_at_def)
  next
    case add
    show ?thesis using EvaluateSymbolicAdd_sound [OF add(2) assms(2)] by (simp add: add(1) binary_constant_def) (simp add: value_at_def)
  qed
qed

lemma then_value_Inr: "then_value r k = Some (Inr (Some W)) \<longleftrightarrow> (\<exists>V. r = Some (Inr (Some V)) \<and> k V = Some (Inr (Some W)))"
  by (auto simp: then_value_def split: option.splits sum.splits)

lemma evaluate_symbol:
  assumes "evaluateAsRelocatableImpl C fuel InSet (SymbolRefExpr SRE) = Some (Inr (Some V))"
  obtains "V = \<lparr>SymA = Some SRE, SymB = None, Cst = 0\<rparr>"
    | f' Expr where "variable_value C (fst SRE) = Some Expr" "snd SRE = VK_None" "canExpand C (fst SRE) Expr InSet" "fuel = Suc f'"
        "evaluateAsRelocatableImpl C f' (InSet \<or> hasSubsectionsViaSymbols C) Expr = Some (Inr (Some V))"
proof (cases "variable_value C (fst SRE)")
  case None
  then show thesis using assms that(1) by simp
next
  case (Some Expr)
  show thesis
  proof (cases "snd SRE = VK_None \<and> canExpand C (fst SRE) Expr InSet")
    case True
    then obtain f' where f': "fuel = Suc f'" using assms Some by (cases fuel) simp_all
    show thesis
    proof (cases "\<exists>W. evaluateAsRelocatableImpl C f' (InSet \<or> hasSubsectionsViaSymbols C) Expr = Some (Inr (Some W))")
      case W: True
      then obtain W where "evaluateAsRelocatableImpl C f' (InSet \<or> hasSubsectionsViaSymbols C) Expr = Some (Inr (Some W))" ..
      then show thesis using assms that(1) that(2) [OF Some _ _ f'] True Some f'
        by (simp del: evaluateAsRelocatableImpl.simps add: evaluateAsRelocatableImpl.simps(2) split: if_split_asm)
    next
      case False
      then show thesis using assms that(1) True Some f'
        by (simp del: evaluateAsRelocatableImpl.simps add: evaluateAsRelocatableImpl.simps(2) Let_def split: option.split_asm sum.split_asm)
    qed
  next
    case False
    then show thesis using assms that(1) Some by (simp only: evaluateAsRelocatableImpl.simps) (auto simp: Let_def)
  qed
qed

text \<open>
  C28. The evaluation is sound: when it finds a symbol, minus a symbol, plus a constant, then these add up to
  the value of the expression under any addresses that agree with the definitions of the variables and
  with the offsets the assembler and the layout know. So an absolute result is the value.
\<close>

theorem evaluateAsRelocatableImpl_sound:
  assumes "evaluateAsRelocatableImpl C fuel InSet e = Some (Inr (Some V))" "addresses_ok C addr"
  shows "expr_value addr e = Some (value_at addr V)"
  using assms
proof (induction C fuel InSet e arbitrary: V rule: evaluateAsRelocatableImpl.induct)
  case (2 C fuel InSet SRE)
  from "2.prems"(1) show ?case
  proof (cases rule: evaluate_symbol)
    case 1
    then show ?thesis by (simp add: value_at_def)
  next
    case (2 f' Expr)
    have "expr_value addr Expr = Some (value_at addr V)"
      by (rule "2.IH") (use 2 "2.prems" in simp_all)
    moreover have "expr_value addr Expr = Some (addr (fst SRE, VK_None))"
      using "2.prems"(2) 2(1) unfolding addresses_ok_def by blast
    ultimately show ?thesis using 2(2) by (cases SRE) simp
  qed
next
  case (3 C fuel InSet op e)
  obtain W where W: "evaluateAsRelocatableImpl C fuel InSet e = Some (Inr (Some W))" "evaluate_unary op W = Some V"
    using "3.prems"(1) by (auto simp: then_value_Inr)
  show ?case using "3.IH" [OF W(1) "3.prems"(2)] evaluate_unary_sound [OF W(2)] by simp
next
  case (4 C fuel InSet op l r)
  obtain L R where L: "evaluateAsRelocatableImpl C fuel InSet l = Some (Inr (Some L))"
      and R: "evaluateAsRelocatableImpl C fuel InSet r = Some (Inr (Some R))"
      and V: "evaluate_binary C InSet op L R = Inr (Some V)"
    using "4.prems"(1) by (auto simp: then_value_Inr)
  show ?case using "4.IH"(1) [OF L "4.prems"(2)] "4.IH"(2) [OF L R "4.prems"(2)] evaluate_binary_sound [OF V "4.prems"(2)] by simp
qed simp

definition sample_context :: mc_context where
  "sample_context = \<lparr>variable_value = [''v'' \<mapsto> BinaryExpr B_Add (SymbolRefExpr (''b'', VK_None)) (ConstantExpr 8)],
     sym_undefined = (\<lambda>_. False), sym_absolute = (\<lambda>x. x = ''v''), sym_fragment = (\<lambda>_. 0),
     sym_offset = (\<lambda>x. if x = ''b'' then 12 else 4), fragment_section = (\<lambda>_. 0), hasSubsectionsViaSymbols = False,
     Asm = Some (\<lambda>_ _ _. True), isThumbFunc = (\<lambda>_. False), Layout = None, Addrs = None\<rparr>"

definition sample_addr :: "sym_ref \<Rightarrow> 64 word" where
  "sample_addr s = (if fst s = ''b'' then 112 else if fst s = ''v'' then 120 else 104)"

text \<open>The difference of \<open>v = b + 8\<close> and \<open>a\<close>, two symbols of one fragment at 12 and 4, is 16.\<close>

lemma sample_evaluates:
  "evaluateAsRelocatableImpl sample_context 1 False
     (BinaryExpr B_Sub (SymbolRefExpr (''v'', VK_None)) (SymbolRefExpr (''a'', VK_None))) =
   Some (Inr (Some \<lparr>SymA = None, SymB = None, Cst = 16\<rparr>))"
  by code_simp

lemma sample_addresses_ok: "addresses_ok sample_context sample_addr"
  by (auto simp: addresses_ok_def sample_context_def sample_addr_def binary_constant_def split: if_splits)

theorem evaluateAsRelocatableImpl_sound_witness:
  "expr_value sample_addr (BinaryExpr B_Sub (SymbolRefExpr (''v'', VK_None)) (SymbolRefExpr (''a'', VK_None))) =
   Some (value_at sample_addr \<lparr>SymA = None, SymB = None, Cst = 16\<rparr>)"
  by (rule evaluateAsRelocatableImpl_sound [OF sample_evaluates sample_addresses_ok])

section \<open>Evaluation ends\<close>

fun expr_symbols :: "mc_expr \<Rightarrow> string set" where
  "expr_symbols (ConstantExpr _) = {}"
| "expr_symbols (SymbolRefExpr SRE) = {fst SRE}"
| "expr_symbols (UnaryExpr _ e) = expr_symbols e"
| "expr_symbols (BinaryExpr _ l r) = expr_symbols l \<union> expr_symbols r"

lemma then_value_terminates: "r \<noteq> None \<Longrightarrow> (\<And>V. r = Some (Inr (Some V)) \<Longrightarrow> k V \<noteq> None) \<Longrightarrow> then_value r k \<noteq> None"
  by (auto simp: then_value_def split: option.splits sum.splits)

text \<open>
  C29. The evaluation ends when no variable is defined, directly or through others, in terms of itself: with
  variables ranked so that a definition uses lower ones only, a fuel above the ranks of the symbols of the
  expression is enough.
\<close>

theorem evaluate_terminates:
  assumes "\<forall>x d. variable_value C x = Some d \<longrightarrow> (\<forall>y\<in>expr_symbols d. rank y < rank x)"
    and "\<forall>y\<in>expr_symbols e. rank y < fuel"
  shows "evaluateAsRelocatableImpl C fuel InSet e \<noteq> None"
  using assms
proof (induction C fuel InSet e rule: evaluateAsRelocatableImpl.induct)
  case (2 C fuel InSet SRE)
  show ?case
  proof (cases "\<exists>d. variable_value C (fst SRE) = Some d \<and> snd SRE = VK_None \<and> canExpand C (fst SRE) d InSet")
    case True
    then obtain d where d: "variable_value C (fst SRE) = Some d" "snd SRE = VK_None \<and> canExpand C (fst SRE) d InSet" by metis
    obtain f where f: "fuel = Suc f" using "2.prems"(2) by (cases fuel) simp_all
    have "evaluateAsRelocatableImpl C f (InSet \<or> hasSubsectionsViaSymbols C) d \<noteq> None"
    proof (rule "2.IH" [OF refl d f "2.prems"(1)])
      have "rank y < rank (fst SRE)" if "y \<in> expr_symbols d" for y using "2.prems"(1) d(1) that by metis
      then show "\<forall>y\<in>expr_symbols d. rank y < f" using "2.prems"(2) f by fastforce
    qed
    then show ?thesis using d f
      by (simp del: evaluateAsRelocatableImpl.simps add: evaluateAsRelocatableImpl.simps(2) Let_def split: option.split sum.split)
  next
    case False
    then show ?thesis
      by (cases "variable_value C (fst SRE)") (auto simp: Let_def)
  qed
next
  case (3 C fuel InSet op e)
  then show ?case by (simp add: then_value_terminates)
next
  case (4 C fuel InSet op l r)
  then show ?case by (simp add: then_value_terminates)
qed simp

theorem evaluate_terminates_witness:
  "evaluateAsRelocatableImpl sample_context 2 False (SymbolRefExpr (''v'', VK_None)) \<noteq> None"
  by (rule evaluate_terminates [where rank = "\<lambda>x. if x = ''v'' then 1 else 0"]) (simp_all add: sample_context_def)

text \<open>
  A variable defined as itself is expanded for ever: whatever the fuel, it runs out.
\<close>

theorem evaluate_cyclic:
  assumes "variable_value C x = Some (SymbolRefExpr (x, VK_None))" "sym_undefined C x \<or> sym_absolute C x"
  shows "evaluateAsRelocatableImpl C fuel InSet (SymbolRefExpr (x, VK_None)) = None"
  using assms by (induction fuel arbitrary: InSet) (auto simp: canExpand_def)

text \<open>
  A zero divisor: a quotient by an absolute zero is the result \<open>false\<close>, which the callers report, but a
  remainder by it is computed all the same and stops the program.
\<close>

theorem zero_divisor:
  assumes "evaluateAsRelocatableImpl C fuel InSet l = Some (Inr (Some L))" "isAbsolute L"
    and "evaluateAsRelocatableImpl C fuel InSet r = Some (Inr (Some R))" "isAbsolute R" "Cst R = 0"
  shows "evaluateAsRelocatableImpl C fuel InSet (BinaryExpr B_Div l r) = Some (Inr None) \<and>
    evaluateAsRelocatableImpl C fuel InSet (BinaryExpr B_Mod l r) = Some (Inl Unreachable)"
  using assms by (simp add: then_value_def evaluate_binary_def binary_constant_def bind_result_def)

theorem zero_divisor_witness:
  "evaluateAsRelocatableImpl sample_context 0 False (BinaryExpr B_Div (ConstantExpr 7) (ConstantExpr 0)) = Some (Inr None) \<and>
   evaluateAsRelocatableImpl sample_context 0 False (BinaryExpr B_Mod (ConstantExpr 7) (ConstantExpr 0)) = Some (Inl Unreachable)"
  by (rule zero_divisor [where L = "value_of_constant 7" and R = "value_of_constant 0"]) (simp_all, simp add: value_of_constant_def)

section \<open>What is printed\<close>

lemma double_zero: "b + b = 0 \<Longrightarrow> b = 0 \<or> b = 2 ^ 63" for b :: "64 word"
proof -
  assume "b + b = 0"
  then have "uint (b + b) = 0" by simp
  then have "(uint b + uint b) mod 2 ^ 64 = 0" by (simp only: uint_word_ariths(1)) simp
  then obtain k where k: "uint b + uint b = 2 ^ 64 * k" by (auto simp: mod_eq_0_iff_dvd)
  then have "0 \<le> k" "k < 2" using uint_bounded [of b] uint_ge_0 [of b] by simp_all
  then have "k = 0 \<or> k = 1" by arith
  then have "uint b = 0 \<or> uint b = 2 ^ 63" using k by auto
  then show ?thesis by (metis of_int_numeral of_int_power uint_0_iff word_of_int_uint)
qed

lemma write_signed_minus: "0 < N \<Longrightarrow> N < 2 ^ 63 \<Longrightarrow> write_signed (- N) = ''-'' @ write_signed N"
  using u64_id [of N] by (simp add: write_signed_def u64_mod mod_minus_eq)

text \<open>
  The operand of a unary operator is printed without parentheses: the negated sum of two constants, the first
  one positive, is printed as the sum of the negated first constant and the second, another value.
\<close>

theorem print_negated_sum_ambiguous:
  assumes "0 < sint a" "b \<noteq> 0" "b \<noteq> 2 ^ 63"
  shows "print_expr vn False (UnaryExpr U_Minus (BinaryExpr B_Add (ConstantExpr a) (ConstantExpr b))) =
      print_expr vn False (BinaryExpr B_Add (ConstantExpr (- a)) (ConstantExpr b)) \<and>
    expr_value addr (UnaryExpr U_Minus (BinaryExpr B_Add (ConstantExpr a) (ConstantExpr b))) \<noteq>
      expr_value addr (BinaryExpr B_Add (ConstantExpr (- a)) (ConstantExpr b))"
proof
  have "sint (- a) = - sint a"
    using assms(1) sint_lt [of a] by (simp add: sint_word_ariths signed_take_bit_int_eq_self)
  then show "print_expr vn False (UnaryExpr U_Minus (BinaryExpr B_Add (ConstantExpr a) (ConstantExpr b))) =
      print_expr vn False (BinaryExpr B_Add (ConstantExpr (- a)) (ConstantExpr b))"
    using write_signed_minus [OF assms(1)] sint_lt [of a] by (simp add: unary_text_def Let_def)
next
  show "expr_value addr (UnaryExpr U_Minus (BinaryExpr B_Add (ConstantExpr a) (ConstantExpr b))) \<noteq>
      expr_value addr (BinaryExpr B_Add (ConstantExpr (- a)) (ConstantExpr b))"
  proof
    assume "expr_value addr (UnaryExpr U_Minus (BinaryExpr B_Add (ConstantExpr a) (ConstantExpr b))) =
      expr_value addr (BinaryExpr B_Add (ConstantExpr (- a)) (ConstantExpr b))"
    then have "b + b = 0" by (simp add: unary_value_def binary_constant_def eq_neg_iff_add_eq_0 neg_eq_iff_add_eq_0)
    then show False using double_zero [of b] assms(2,3) by simp
  qed
qed

theorem print_negated_sum_ambiguous_witness:
  "print_expr (\<lambda>_. []) False (UnaryExpr U_Minus (BinaryExpr B_Add (ConstantExpr 1) (ConstantExpr 2))) =
     print_expr (\<lambda>_. []) False (BinaryExpr B_Add (ConstantExpr (- 1)) (ConstantExpr 2)) \<and>
   expr_value sample_addr (UnaryExpr U_Minus (BinaryExpr B_Add (ConstantExpr 1) (ConstantExpr 2))) \<noteq>
     expr_value sample_addr (BinaryExpr B_Add (ConstantExpr (- 1)) (ConstantExpr 2))"
  by (rule print_negated_sum_ambiguous) simp_all

end
