(* ===== verification/InstPrint.thy ===== *)
theory InstPrint
  imports MCExprs MachineIR CondCode
begin

text \<open>
  Machine code instructions (\<open>include/llvm/MC/MCInst.h\<close>) and the printing of their operands,
  \<open>lib/Target/F2003f/InstPrinter/F2003fInstPrinter.cpp\<close>. The opcode and the register numbers are those of
  \<open>MachineIR\<close>; the function \<open>printInstruction\<close>, which TableGen makes from the assembly strings, is a parameter
  of what uses it.
\<close>

section \<open>Instructions\<close>

datatype mc_operand = MC_Reg reg | MC_Imm "64 word" | MC_Expr mc_expr

record mc_inst =
  mc_opcode :: opcode
  mc_operand_list :: "mc_operand list"

definition mc_get_operand :: "mc_inst \<Rightarrow> nat \<Rightarrow> mc_operand result" where
  "mc_get_operand MI i = (if i < length (mc_operand_list MI) then Inr (mc_operand_list MI ! i) else Inl AssertFailed)"

section \<open>Printing operands\<close>

text \<open>The names of the registers in \<open>F2003fRegisterInfo.td\<close>; \<open>getRegisterName\<close> asserts that it gets a physical register.\<close>

definition getRegisterName :: "reg \<Rightarrow> string result" where
  "getRegisterName r = (case r of F0 \<Rightarrow> Inr ''f0'' | F1 \<Rightarrow> Inr ''f1'' | F2 \<Rightarrow> Inr ''f2'' | F3 \<Rightarrow> Inr ''f3''
     | F5 \<Rightarrow> Inr ''f5'' | XX \<Rightarrow> Inr ''xx'' | _ \<Rightarrow> Inl AssertFailed)"

definition print_mc_operand :: "(variant_kind \<Rightarrow> string) \<Rightarrow> mc_operand \<Rightarrow> string result" where
  "print_mc_operand vn Op = (case Op of
     MC_Reg r \<Rightarrow> getRegisterName r
   | MC_Imm i \<Rightarrow> Inr (write_unsigned (unat (ucast i :: 32 word)))
   | MC_Expr e \<Rightarrow> Inr (print_expr vn False e))"

definition printOperand :: "(variant_kind \<Rightarrow> string) \<Rightarrow> mc_inst \<Rightarrow> nat \<Rightarrow> string result" where
  "printOperand vn MI OpNo = bind_result (mc_get_operand MI OpNo) (print_mc_operand vn)"

text \<open>\<open>getReg\<close> asserts that the operand is a register.\<close>

definition printMem :: "(variant_kind \<Rightarrow> string) \<Rightarrow> mc_inst \<Rightarrow> nat \<Rightarrow> string result" where
  "printMem vn MI OpNo =
     bind_result (mc_get_operand MI (OpNo + 1)) (\<lambda>dispReg.
     bind_result (mc_get_operand MI (OpNo + 2)) (\<lambda>dispImm.
     bind_result (printOperand vn MI OpNo) (\<lambda>base.
     bind_result (case dispReg of
         MC_Reg r \<Rightarrow> if r \<noteq> NoRegister then map_sum id (\<lambda>s. ''+'' @ s) (printOperand vn MI (OpNo + 1)) else Inr []
       | _ \<Rightarrow> Inl AssertFailed) (\<lambda>index.
     bind_result (case dispImm of
         MC_Imm i \<Rightarrow> if i \<noteq> 0 then map_sum id (\<lambda>s. ''+'' @ s) (printOperand vn MI (OpNo + 2)) else Inr []
       | MC_Expr e \<Rightarrow> Inr (''+'' @ print_expr vn False e)
       | _ \<Rightarrow> Inl AssertFailed) (\<lambda>disp.
     Inr (base @ index @ disp @ ''@''))))))"

text \<open>A number that is no condition code is \<open>llvm_unreachable\<close> in \<open>F2003fCCToString\<close>.\<close>

definition printCC :: "mc_inst \<Rightarrow> nat \<Rightarrow> string result" where
  "printCC MI OpNo = bind_result (mc_get_operand MI OpNo) (\<lambda>Op. case Op of
     MC_Imm i \<Rightarrow> (case cc_of_number (sint i) of Some CC \<Rightarrow> Inr (F2003fCCToString CC) | None \<Rightarrow> Inl Unreachable)
   | _ \<Rightarrow> Inl AssertFailed)"

section \<open>A memory operand is read back\<close>

fun split_at :: "char \<Rightarrow> string \<Rightarrow> string list" where
  "split_at sep [] = [[]]"
| "split_at sep (c # s) = (if c = sep then [] # split_at sep s else case split_at sep s of t # ts \<Rightarrow> (c # t) # ts | [] \<Rightarrow> [[c]])"

definition read_reg :: "string \<Rightarrow> reg option" where
  "read_reg s = (if s = ''f0'' then Some F0 else if s = ''f1'' then Some F1 else if s = ''f2'' then Some F2
     else if s = ''f3'' then Some F3 else if s = ''f5'' then Some F5 else if s = ''xx'' then Some XX else None)"

datatype displacement = D_Number "32 word" | D_Symbol string

definition read_displacement :: "string \<Rightarrow> displacement option" where
  "read_displacement s = (if is_numeral s then Some (D_Number (of_nat (digits_value s))) else map_option D_Symbol (read_symbol s))"

text \<open>Base, index and displacement; an operand that is left out is no register, or 0.\<close>

definition read_mem :: "string \<Rightarrow> (reg \<times> reg \<times> displacement) option" where
  "read_mem s = (if s = [] \<or> last s \<noteq> CHR ''@'' then None
     else case split_at CHR ''+'' (butlast s) of
       [b] \<Rightarrow> map_option (\<lambda>b. (b, NoRegister, D_Number 0)) (read_reg b)
     | [b, t] \<Rightarrow> (case (read_reg b, read_reg t) of
           (Some b, Some i) \<Rightarrow> Some (b, i, D_Number 0)
         | (Some b, None) \<Rightarrow> map_option (\<lambda>d. (b, NoRegister, d)) (read_displacement t)
         | _ \<Rightarrow> None)
     | [b, i, d] \<Rightarrow> (case (read_reg b, read_reg i, read_displacement d) of
           (Some b, Some i, Some d) \<Rightarrow> Some (b, i, d) | _ \<Rightarrow> None)
     | _ \<Rightarrow> None)"

lemma split_at_append: "c \<notin> set a \<Longrightarrow> split_at c (a @ c # b) = a # split_at c b"
  by (induction a) auto

lemma split_at_none: "c \<notin> set a \<Longrightarrow> split_at c a = [a]"
  by (induction a) auto

lemma getRegisterName_iff: "getRegisterName r = Inr s \<longleftrightarrow>
    (r, s) \<in> {(F0, ''f0''), (F1, ''f1''), (F2, ''f2''), (F3, ''f3''), (F5, ''f5''), (XX, ''xx'')}"
  by (cases r) (auto simp: getRegisterName_def)

lemma getRegisterName_reads: "getRegisterName r = Inr s \<Longrightarrow> read_reg s = Some r \<and> CHR ''+'' \<notin> set s"
  unfolding getRegisterName_iff by (auto simp: read_reg_def)

lemma print_symbol_no_register: "read_reg (print_symbol x) = None" "CHR ''+'' \<notin> set (print_symbol x)"
proof -
  show "read_reg (print_symbol x) = None" using print_symbol_facts [of x] by (simp add: read_reg_def)
  have "\<not> isAcceptableChar CHR ''+''" by (simp add: isAcceptableChar_def)
  then show "CHR ''+'' \<notin> set (print_symbol x)" using print_symbol_facts [of x] by blast
qed

lemma write_unsigned_reads:
  "read_displacement (write_unsigned (unat d)) = Some (D_Number d)" "read_reg (write_unsigned n) = None"
  "CHR ''+'' \<notin> set (write_unsigned n)" for d :: "32 word"
proof -
  have num: "is_numeral (write_unsigned n)" "digits_value (write_unsigned n) = n" for n
    using format_to_buffer_value [of n] by (simp_all add: write_unsigned_def)
  show "read_displacement (write_unsigned (unat d)) = Some (D_Number d)" by (simp add: read_displacement_def num)
  show "read_reg (write_unsigned n) = None" using num(1) [of n] by (auto simp: read_reg_def is_numeral_def is_digit_def)
  show "CHR ''+'' \<notin> set (write_unsigned n)" using num(1) [of n] by (auto simp: is_numeral_def is_digit_def)
qed

text \<open>The displacement of a memory operand, and the ones whose text can be read.\<close>

fun operand_displacement :: "mc_operand \<Rightarrow> displacement option" where
  "operand_displacement (MC_Imm i) = Some (D_Number (ucast i))"
| "operand_displacement (MC_Expr (SymbolRefExpr (x, VK_None))) =
     (if is_numeral x \<or> x \<noteq> [] \<and> hd x = CHR ''$'' then None else Some (D_Symbol x))"
| "operand_displacement _ = None"

lemma symbol_reads:
  assumes "\<not> is_numeral x"
  shows "read_displacement (print_symbol x) = Some (D_Symbol x)"
proof -
  have "\<not> is_numeral (print_symbol x)"
    using assms by (auto simp: print_symbol_def printQuotedName_def is_numeral_def is_digit_def)
  then show ?thesis using print_symbol_facts [of x] by (simp add: read_displacement_def)
qed

lemma read_mem_parts:
  assumes "read_reg b = Some rb" "CHR ''+'' \<notin> set b"
  shows "read_mem (b @ ''@'') = Some (rb, NoRegister, D_Number 0)"
    and "read_reg n = Some i \<Longrightarrow> CHR ''+'' \<notin> set n \<Longrightarrow> read_mem (b @ CHR ''+'' # n @ ''@'') = Some (rb, i, D_Number 0)"
    and "read_reg t = None \<Longrightarrow> CHR ''+'' \<notin> set t \<Longrightarrow> read_displacement t = Some d \<Longrightarrow>
      read_mem (b @ CHR ''+'' # t @ ''@'') = Some (rb, NoRegister, d)"
    and "read_reg n = Some i \<Longrightarrow> CHR ''+'' \<notin> set n \<Longrightarrow> CHR ''+'' \<notin> set t \<Longrightarrow> read_displacement t = Some d \<Longrightarrow>
      read_mem (b @ CHR ''+'' # n @ CHR ''+'' # t @ ''@'') = Some (rb, i, d)"
  using assms by (simp_all add: read_mem_def split_at_append split_at_none butlast_append)

lemma printMem_parts:
  assumes "OpNo + 2 < length (mc_operand_list MI)" "mc_operand_list MI ! OpNo = MC_Reg b" "mc_operand_list MI ! (OpNo + 1) = MC_Reg i"
    and "operand_displacement (mc_operand_list MI ! (OpNo + 2)) = Some d" "printMem vn MI OpNo = Inr s"
  shows "\<exists>bs is' ds. getRegisterName b = Inr bs \<and> s = bs @ is' @ ds @ ''@'' \<and>
      ((i = NoRegister \<and> is' = []) \<or> (\<exists>n. getRegisterName i = Inr n \<and> is' = CHR ''+'' # n)) \<and>
      ((d = D_Number 0 \<and> ds = []) \<or> (\<exists>t. ds = CHR ''+'' # t \<and> read_displacement t = Some d \<and> read_reg t = None \<and> CHR ''+'' \<notin> set t))"
proof -
  define D where "D = mc_operand_list MI ! (OpNo + 2)"
  have ops: "mc_get_operand MI OpNo = Inr (MC_Reg b)" "mc_get_operand MI (OpNo + 1) = Inr (MC_Reg i)" "mc_get_operand MI (OpNo + 2) = Inr D"
    using assms(1-3) by (simp_all add: mc_get_operand_def D_def)
  have print_reg: "print_mc_operand vn (MC_Reg r) = getRegisterName r" for r by (simp add: print_mc_operand_def)
  obtain bs is' ds where bs: "getRegisterName b = Inr bs" and s: "s = bs @ is' @ ds @ ''@''"
    and is': "(if i \<noteq> NoRegister then map_sum id (\<lambda>s. ''+'' @ s) (getRegisterName i) else Inr []) = Inr is'"
    and ds: "(case D of MC_Imm n \<Rightarrow> if n \<noteq> 0 then map_sum id (\<lambda>s. ''+'' @ s) (print_mc_operand vn D) else Inr []
       | MC_Expr e \<Rightarrow> Inr (''+'' @ print_expr vn False e) | _ \<Rightarrow> Inl AssertFailed) = Inr ds"
    using assms(5) unfolding printMem_def printOperand_def ops bind_result_simps mc_operand.case print_reg bind_result_Inr_iff
    by blast
  have "(i = NoRegister \<and> is' = []) \<or> (\<exists>n. getRegisterName i = Inr n \<and> is' = CHR ''+'' # n)"
    using is' by (auto simp: map_sum_Inr_iff split: if_splits)
  moreover have "(d = D_Number 0 \<and> ds = []) \<or> (\<exists>t. ds = CHR ''+'' # t \<and> read_displacement t = Some d \<and> read_reg t = None \<and> CHR ''+'' \<notin> set t)"
  proof (cases D)
    case (MC_Imm n)
    then have "d = D_Number (ucast n)" using assms(4) by (simp add: D_def)
    then show ?thesis using ds MC_Imm write_unsigned_reads(1) [of "ucast n"] write_unsigned_reads(2,3)
      by (cases "n = 0") (auto simp: print_mc_operand_def)
  next
    case (MC_Expr e)
    then obtain x where x: "e = SymbolRefExpr (x, VK_None)" "\<not> is_numeral x" "\<not> (x \<noteq> [] \<and> hd x = CHR ''$'')" "d = D_Symbol x"
      using assms(4) by (cases "MC_Expr e" rule: operand_displacement.cases) (auto simp: D_def split: if_splits)
    then show ?thesis using ds MC_Expr symbol_reads [OF x(2)] print_symbol_no_register [of x]
      by (auto simp: print_sym_ref_def)
  next
    case (MC_Reg r)
    then show ?thesis using assms(4) by (simp add: D_def)
  qed
  ultimately show ?thesis using bs s by blast
qed

text \<open>
  C32. A memory operand is read back from its text: the printed sum determines the base, the index and the displacement,
  a number modulo \<open>2 ^ 32\<close> or a symbol. A symbol is not taken for a register; one whose name is a numeral would be taken
  for a number.
\<close>

theorem printMem_round_trip:
  assumes "OpNo + 2 < length (mc_operand_list MI)" "mc_operand_list MI ! OpNo = MC_Reg b" "mc_operand_list MI ! (OpNo + 1) = MC_Reg i"
    and "operand_displacement (mc_operand_list MI ! (OpNo + 2)) = Some d" "printMem vn MI OpNo = Inr s"
  shows "read_mem s = Some (b, i, d)"
proof -
  have "\<exists>bs is' ds. getRegisterName b = Inr bs \<and> s = bs @ is' @ ds @ ''@'' \<and>
      ((i = NoRegister \<and> is' = []) \<or> (\<exists>n. getRegisterName i = Inr n \<and> is' = CHR ''+'' # n)) \<and>
      ((d = D_Number 0 \<and> ds = []) \<or> (\<exists>t. ds = CHR ''+'' # t \<and> read_displacement t = Some d \<and> read_reg t = None \<and> CHR ''+'' \<notin> set t))"
    using printMem_parts [OF assms] .
  then obtain bs is' ds where b: "getRegisterName b = Inr bs" and s: "s = bs @ is' @ ds @ ''@''"
    and i: "(i = NoRegister \<and> is' = []) \<or> (\<exists>n. getRegisterName i = Inr n \<and> is' = CHR ''+'' # n)"
    and ds: "(d = D_Number 0 \<and> ds = []) \<or> (\<exists>t. ds = CHR ''+'' # t \<and> read_displacement t = Some d \<and> read_reg t = None \<and> CHR ''+'' \<notin> set t)"
    by blast
  note B = getRegisterName_reads [OF b]
  note R = read_mem_parts [OF conjunct1 [OF B] conjunct2 [OF B]]
  from i show ?thesis
  proof (elim disjE conjE exE)
    assume none: "i = NoRegister" "is' = []"
    from ds show ?thesis
    proof (elim disjE conjE exE)
      assume "d = D_Number 0" "ds = []"
      then show ?thesis using R(1) by (simp add: s none)
    next
      fix t assume "ds = CHR ''+'' # t" "read_displacement t = Some d" "read_reg t = None" "CHR ''+'' \<notin> set t"
      then show ?thesis using R(3) [of t d] by (simp add: s none)
    qed
  next
    fix n assume n: "getRegisterName i = Inr n" "is' = CHR ''+'' # n"
    note N = getRegisterName_reads [OF n(1)]
    from ds show ?thesis
    proof (elim disjE conjE exE)
      assume "d = D_Number 0" "ds = []"
      then show ?thesis using R(2) [of n i] N by (simp add: s n(2))
    next
      fix t assume "ds = CHR ''+'' # t" "read_displacement t = Some d" "CHR ''+'' \<notin> set t"
      then show ?thesis using R(4) [of n i t d] N by (simp add: s n(2))
    qed
  qed
qed

theorem printMem_round_trip_witness:
  "read_mem ''f5+f1+8@'' = Some (F5, F1, D_Number 8)"
proof (rule printMem_round_trip [where OpNo = 0 and MI = "\<lparr>mc_opcode = KRZrm, mc_operand_list = [MC_Reg F5, MC_Reg F1, MC_Imm 8]\<rparr>" and vn = "\<lambda>_. []"])
  show "printMem (\<lambda>_. []) \<lparr>mc_opcode = KRZrm, mc_operand_list = [MC_Reg F5, MC_Reg F1, MC_Imm 8]\<rparr> 0 = Inr ''f5+f1+8@''"
    by code_simp
  show "operand_displacement (mc_operand_list \<lparr>mc_opcode = KRZrm, mc_operand_list = [MC_Reg F5, MC_Reg F1, MC_Imm 8]\<rparr> ! (0 + 2)) =
      Some (D_Number 8)" by code_simp
qed simp_all

end
