(* ===== verification/LEB128.thy ===== *)
theory LEB128
  imports Prelude
begin

text \<open>
  LEB128 numbers, \<open>include/llvm/Support/LEB128.h\<close> and \<open>lib/Support/LEB128.cpp\<close>: encoding with padding, decoding with
  its error results, and the sizes. A decoder reads from a pointer; here it reads a list, whose end is the
  \<open>end\<close> argument of the C++ function, and returns the value with the number of bytes read.
\<close>

section \<open>Encoding\<close>

function encodeULEB128 :: "64 word \<Rightarrow> nat \<Rightarrow> 8 word list" where
  "encodeULEB128 Value Padding =
     (let Byte = ucast (Value AND 0x7F) :: 8 word;
          Value = drop_bit 7 Value;
          Byte = (if Value \<noteq> 0 \<or> Padding \<noteq> 0 then Byte OR 0x80 else Byte)
      in Byte # (if Value \<noteq> 0 then encodeULEB128 Value Padding
                 else if Padding \<noteq> 0 then replicate (Padding - 1) 0x80 @ [0]
                 else []))"
  by auto

lemma unat_drop_7: "unat (drop_bit 7 v) = unat v div 128" for v :: "64 word"
  by (simp only: unat_drop_bit_eq) (simp add: drop_bit_eq_div)

termination encodeULEB128
proof (relation "measure (\<lambda>(Value, _). unat Value)")
  fix Value x :: "64 word" and Padding :: nat
  assume "x = drop_bit 7 Value" "x \<noteq> 0"
  then have "unat Value div 128 \<noteq> 0" "unat x = unat Value div 128" by (auto simp: unat_drop_7 simp flip: unat_eq_0)
  then show "((x, Padding), (Value, Padding)) \<in> measure (\<lambda>(Value, _). unat Value)" by simp
qed simp

declare encodeULEB128.simps [simp del]

section \<open>Bytes of seven bits\<close>

lemma mask_7: "x AND 0x7F = take_bit 7 x" for x :: "'a::len word"
  by (simp add: take_bit_eq_mask mask_eq_exp_minus_1)

lemma byte_ge_128: "128 \<le> p \<longleftrightarrow> bit p 7" for p :: "8 word"
proof -
  have "unat p < 256" using unsigned_less [where ?'b = 8 and ?'a = nat, of p] by simp
  then have "unat p div 128 < 2" by (simp add: less_mult_imp_div_less)
  then have "unat p div 128 = 0 \<or> unat p div 128 = 1" by linarith
  moreover have "unat p div 128 = 0 \<longleftrightarrow> unat p < 128" by (simp add: div_eq_0_iff)
  ultimately have "odd (unat p div 128) \<longleftrightarrow> 128 \<le> unat p" by (cases "unat p < 128") auto
  moreover have "bit p 7 \<longleftrightarrow> odd (unat p div 128)" using bit_unsigned_iff [where ?'b = 8 and ?'a = nat, of p 7] by (simp add: bit_iff_odd [of "unat p"])
  ultimately show ?thesis by (simp add: word_le_nat_alt)
qed

lemma low_byte:
  fixes v :: "64 word"
  defines "b \<equiv> ucast (v AND 0x7F) :: 8 word"
  shows "ucast (b AND 0x7F) = take_bit 7 v" "\<not> bit b 7" "ucast ((b OR 0x80) AND 0x7F) = take_bit 7 v" "bit (b OR 0x80) 7"
proof -
  have 80: "bit (0x80 :: 8 word) n \<longleftrightarrow> n = 7" for n
    using bit_exp_iff [of 7 n, where 'a = "8 word"] by auto
  show "ucast (b AND 0x7F) = take_bit 7 v" "\<not> bit b 7" "ucast ((b OR 0x80) AND 0x7F) = take_bit 7 v" "bit (b OR 0x80) 7"
    unfolding b_def mask_7
    by (auto intro!: bit_word_eqI simp: bit_ucast_iff bit_take_bit_iff bit_or_iff 80)
qed

section \<open>Signed encoding\<close>

text \<open>The shift of the signed value is arithmetic.\<close>

function encodeSLEB128 :: "64 word \<Rightarrow> nat \<Rightarrow> 8 word list" where
  "encodeSLEB128 Value Padding =
     (let Byte = ucast (Value AND 0x7F) :: 8 word;
          Value = signed_drop_bit 7 Value;
          More = (\<not> ((Value = 0 \<and> Byte AND 0x40 = 0) \<or> (Value = - 1 \<and> Byte AND 0x40 \<noteq> 0)));
          Byte = (if More \<or> Padding \<noteq> 0 then Byte OR 0x80 else Byte)
      in Byte # (if More then encodeSLEB128 Value Padding
                 else if Padding \<noteq> 0 then
                   (let PadValue = if Value <s 0 then 0x7F else 0
                    in replicate (Padding - 1) (PadValue OR 0x80) @ [PadValue])
                 else []))"
  by auto

lemma sint_sdrop_7: "sint (signed_drop_bit 7 v) = sint v div 128" for v :: "64 word"
  by (simp add: sint_signed_drop_bit_eq drop_bit_eq_div)

lemma low_byte_40: "(ucast (v AND 0x7F) :: 8 word) AND 0x40 = 0 \<longleftrightarrow> \<not> bit v 6" for v :: "64 word"
proof -
  have "(0x40 :: 8 word) = 2 ^ 6" by simp
  then have "(ucast (v AND 0x7F) :: 8 word) AND 0x40 = 0 \<longleftrightarrow> \<not> bit (ucast (v AND 0x7F) :: 8 word) 6"
    by (simp only: and_exp_eq_0_iff_not_bit)
  then show ?thesis by (simp add: mask_7 bit_ucast_iff bit_take_bit_iff)
qed

lemma div_128_less: "v \<noteq> 0 \<Longrightarrow> v \<noteq> - 1 \<Longrightarrow> \<bar>v div 128\<bar> < \<bar>v\<bar>" for v :: int
  using div_mult_mod_eq [of v 128] pos_mod_bound [of 128 v] pos_mod_sign [of 128 v] by linarith

termination encodeSLEB128
proof (relation "measure (\<lambda>(Value, _). nat \<bar>sint Value\<bar>)")
  fix Value x :: "64 word" and Padding :: nat and Byte :: "8 word" and xa
  assume a: "Byte = ucast (Value AND 0x7F)" "x = signed_drop_bit 7 Value"
    "xa = (\<not> (x = 0 \<and> Byte AND 0x40 = 0 \<or> x = - 1 \<and> Byte AND 0x40 \<noteq> 0))" "xa"
  have "Value \<noteq> 0" using a low_byte_40 [of Value] by auto
  moreover have "Value \<noteq> - 1" using a low_byte_40 [of Value] by auto
  ultimately have "sint Value \<noteq> 0" "sint Value \<noteq> - 1" using signed_word_eqI [of Value "- 1", where ?'a = int] signed_word_eqI [of Value 0, where ?'a = int] by auto
  then have "\<bar>sint Value div 128\<bar> < \<bar>sint Value\<bar>" by (rule div_128_less)
  then show "((x, Padding), (Value, Padding)) \<in> measure (\<lambda>(Value, _). nat \<bar>sint Value\<bar>)"
    using a(2) by (simp add: sint_sdrop_7)
qed simp

declare encodeSLEB128.simps [simp del]

section \<open>Decoding\<close>

datatype leb_error = Extends_past_end | Too_big

text \<open>\<open>decodeULEB128\<close>: the value, or 0 with an error, and the bytes read.\<close>

fun decode_uleb :: "8 word list \<Rightarrow> 64 word \<Rightarrow> nat \<Rightarrow> nat \<Rightarrow> 64 word \<times> nat \<times> leb_error option" where
  "decode_uleb [] Value Shift n = (0, n, Some Extends_past_end)"
| "decode_uleb (p # ps) Value Shift n =
     (let Slice = ucast (p AND 0x7F) :: 64 word in
      if Shift \<ge> 64 \<or> drop_bit Shift (push_bit Shift Slice) \<noteq> Slice then (0, n, Some Too_big)
      else
        let Value = Value + push_bit Shift Slice in
        if p \<ge> 128 then decode_uleb ps Value (Shift + 7) (n + 1) else (Value, n + 1, None))"

definition decodeULEB128 :: "8 word list \<Rightarrow> 64 word \<times> nat \<times> leb_error option" where
  "decodeULEB128 p = decode_uleb p 0 0 0"

text \<open>\<open>decodeSLEB128\<close> does not check the shifts; one by 64 or more, which C++ leaves undefined, stops the model.\<close>

fun decode_sleb :: "8 word list \<Rightarrow> 64 word \<Rightarrow> nat \<Rightarrow> nat \<Rightarrow> (64 word \<times> nat \<times> leb_error option) result" where
  "decode_sleb [] Value Shift n = Inr (0, n, Some Extends_past_end)"
| "decode_sleb (Byte # ps) Value Shift n =
     (if Shift \<ge> 64 then Inl Unreachable
      else
        let Value = Value OR push_bit Shift (ucast (Byte AND 0x7F)); Shift = Shift + 7 in
        if Byte \<ge> 128 then decode_sleb ps Value Shift (n + 1)
        else if Byte AND 0x40 = 0 then Inr (Value, n + 1, None)
        else if Shift \<ge> 64 then Inl Unreachable
        else Inr (Value OR push_bit Shift (- 1), n + 1, None))"

definition decodeSLEB128 :: "8 word list \<Rightarrow> (64 word \<times> nat \<times> leb_error option) result" where
  "decodeSLEB128 p = decode_sleb p 0 0 0"

section \<open>Sizes\<close>

function getULEB128Size :: "64 word \<Rightarrow> nat" where
  "getULEB128Size Value = (let Value = drop_bit 7 Value in 1 + (if Value \<noteq> 0 then getULEB128Size Value else 0))"
  by auto

termination getULEB128Size
proof (relation "measure unat")
  fix Value x :: "64 word"
  assume "x = drop_bit 7 Value" "x \<noteq> 0"
  then have "unat Value div 128 \<noteq> 0" "unat x = unat Value div 128" by (auto simp: unat_drop_7 simp flip: unat_eq_0)
  then show "(x, Value) \<in> measure unat" by simp
qed simp

declare getULEB128Size.simps [simp del]

text \<open>The loop of \<open>getSLEB128Size\<close>; it ends because \<open>Sign\<close> is the sign of the value, which is proved below.\<close>

partial_function (option) sleb_size :: "64 word \<Rightarrow> 64 word \<Rightarrow> nat \<Rightarrow> nat option" where
  "sleb_size Sign Value Size =
     (let Byte = Value AND 0x7F; Value = signed_drop_bit 7 Value;
          IsMore = (Value \<noteq> Sign \<or> (Byte XOR Sign) AND 0x40 \<noteq> 0);
          Size = Size + 1
      in if IsMore then sleb_size Sign Value Size else Some Size)"

definition getSLEB128Size :: "64 word \<Rightarrow> nat option" where
  "getSLEB128Size Value = sleb_size (signed_drop_bit 63 Value) Value 0"

section \<open>Unsigned numbers round trip\<close>

lemma drop_push_bit:
  fixes w :: "64 word"
  assumes "unat w * 2 ^ s < 2 ^ 64"
  shows "drop_bit s (push_bit s w) = w"
proof (rule bit_word_eqI)
  fix k assume "k < LENGTH(64)"
  have "s + k < 64" if "bit w k"
  proof (rule ccontr)
    assume "\<not> s + k < 64"
    have "odd (unat w div 2 ^ k)" using that bit_unsigned_iff [where ?'b = 64 and ?'a = nat, of w k]
      by (simp add: bit_iff_odd [of "unat w"])
    then have "1 \<le> unat w div 2 ^ k" by (cases "unat w div 2 ^ k") auto
    then have "2 ^ k \<le> unat w" by (simp add: Suc_le_eq div_greater_zero_iff)
    then have "2 ^ k * 2 ^ s \<le> unat w * 2 ^ s" by (rule mult_le_mono1)
    moreover have "(2::nat) ^ 64 \<le> 2 ^ (k + s)" using \<open>\<not> s + k < 64\<close> by (intro power_increasing) simp_all
    then have "(2::nat) ^ 64 \<le> 2 ^ k * 2 ^ s" by (simp only: power_add)
    ultimately show False using assms by linarith
  qed
  then show "bit (drop_bit s (push_bit s w)) k = bit w k"
    by (auto simp: bit_drop_bit_eq bit_push_bit_iff)
qed

lemma decode_uleb_padding:
  "Shift + 7 * k \<le> 63 \<Longrightarrow> decode_uleb (replicate k 0x80 @ 0 # rest) acc Shift n = (acc, n + k + 1, None)"
  by (induction k arbitrary: Shift n) simp_all

lemma take_bit_7_id: "drop_bit 7 v = 0 \<Longrightarrow> take_bit 7 v = v" for v :: "64 word"
  by (metis bits_ident push_bit_of_0 add_0)

lemma split_7: "push_bit s (take_bit 7 v) + push_bit (s + 7) (drop_bit 7 v) = push_bit s v" for v :: "64 word"
  by (metis bits_ident add.commute push_bit_add push_bit_push_bit)

lemma decode_uleb_encode:
  assumes "Shift + 7 * length (encodeULEB128 v pad) \<le> 70" "unat v * 2 ^ Shift < 2 ^ 64"
  shows "decode_uleb (encodeULEB128 v pad @ rest) acc Shift n = (acc + push_bit Shift v, n + length (encodeULEB128 v pad), None)"
  using assms
proof (induction v pad arbitrary: acc Shift n rule: encodeULEB128.induct)
  case (1 v pad)
  let ?b = "ucast (v AND 0x7F) :: 8 word" and ?w = "drop_bit 7 v"
  have "unat (take_bit 7 v) \<le> unat v" by (simp only: unsigned_take_bit_eq) (simp add: take_bit_eq_mod)
  then have "unat (take_bit 7 v) * 2 ^ Shift < 2 ^ 64" using "1.prems"(2) by (meson mult_le_mono1 order.strict_trans1)
  then have slice: "drop_bit Shift (push_bit Shift (take_bit 7 v)) = take_bit 7 v" by (rule drop_push_bit)
  have Shift: "Shift < 64" using "1.prems"(1) by (subst (asm) encodeULEB128.simps) (simp add: Let_def)
  note bytes = low_byte [of v] byte_ge_128
  show ?case
  proof (cases "?w = 0")
    case False
    then have eq: "encodeULEB128 v pad = (?b OR 0x80) # encodeULEB128 ?w pad" by (subst encodeULEB128.simps) (simp add: Let_def)
    have "unat ?w * 2 ^ (Shift + 7) \<le> unat v * 2 ^ Shift" by (simp add: unat_drop_7 power_add)
    then have "decode_uleb (encodeULEB128 ?w pad @ rest) (acc + push_bit Shift (take_bit 7 v)) (Shift + 7) (n + 1) =
        (acc + push_bit Shift (take_bit 7 v) + push_bit (Shift + 7) ?w, n + 1 + length (encodeULEB128 ?w pad), None)"
      using "1.prems" False eq by (intro "1.IH" [OF refl refl refl]) simp_all
    then show ?thesis using Shift slice split_7 [of Shift v] by (simp add: eq bytes Let_def add.assoc)
  next
    case True
    show ?thesis
    proof (cases "pad = 0")
      case pad: True
      then have "encodeULEB128 v pad = [?b]" using True by (subst encodeULEB128.simps) (simp add: Let_def)
      then show ?thesis using Shift slice take_bit_7_id [OF True] by (simp add: bytes Let_def)
    next
      case False
      then have eq: "encodeULEB128 v pad = (?b OR 0x80) # replicate (pad - 1) 0x80 @ [0]"
        using True by (subst encodeULEB128.simps) (simp add: Let_def)
      then have "Shift + 7 + 7 * (pad - 1) \<le> 63" using "1.prems"(1) by simp
      from decode_uleb_padding [OF this] show ?thesis using Shift slice take_bit_7_id [OF True]
        by (simp add: eq bytes Let_def)
    qed
  qed
qed

text \<open>
  C30. Unsigned LEB128 numbers round trip: an encoding of at most ten bytes, padded or not, decodes to the number and
  is read to its end, whatever follows it.
\<close>

theorem uleb_round_trip:
  assumes "length (encodeULEB128 v pad) \<le> 10"
  shows "decodeULEB128 (encodeULEB128 v pad @ rest) = (v, length (encodeULEB128 v pad), None)"
  using decode_uleb_encode [of 0 v pad rest 0 0] assms unsigned_less [where ?'b = 64 and ?'a = nat, of v]
  by (simp add: decodeULEB128_def)

lemma encode_300: "encodeULEB128 300 0 = [0xAC, 2]"
  by code_simp

theorem uleb_round_trip_witness: "decodeULEB128 (encodeULEB128 300 0 @ [7]) = (300, length (encodeULEB128 300 0), None)"
  by (rule uleb_round_trip) (simp add: encode_300)

text \<open>
  \<open>getULEB128Size\<close> is the length of the encoding without padding.
\<close>

theorem getULEB128Size_length: "getULEB128Size v = length (encodeULEB128 v 0)"
proof (induction v rule: getULEB128Size.induct)
  case (1 v)
  then show ?case by (subst getULEB128Size.simps, subst encodeULEB128.simps) (simp add: Let_def)
qed

section \<open>Signed numbers\<close>

text \<open>Whether a further byte follows.\<close>

definition sleb_more :: "64 word \<Rightarrow> bool" where
  "sleb_more v = (\<not> ((signed_drop_bit 7 v = 0 \<and> \<not> bit v 6) \<or> (signed_drop_bit 7 v = - 1 \<and> bit v 6)))"

lemma encodeSLEB128_unfold:
  "encodeSLEB128 v 0 = (if sleb_more v then (ucast (v AND 0x7F) OR 0x80) # encodeSLEB128 (signed_drop_bit 7 v) 0 else [ucast (v AND 0x7F)])"
  by (subst encodeSLEB128.simps) (simp add: Let_def sleb_more_def low_byte_40)

lemma encodeSLEB128_not_Nil [simp]: "encodeSLEB128 v 0 \<noteq> []"
  by (subst encodeSLEB128_unfold) simp

lemma signed_split_7: "take_bit 7 v OR push_bit 7 (signed_drop_bit 7 v) = v" for v :: "64 word"
proof (rule bit_word_eqI)
  fix n assume "n < LENGTH(64)"
  then show "bit (take_bit 7 v OR push_bit 7 (signed_drop_bit 7 v)) n = bit v n"
    by (cases "n < 7") (auto simp: bit_or_iff bit_take_bit_iff bit_push_bit_iff bit_signed_drop_bit_iff not_less)
qed

lemma push_split_7: "push_bit s (take_bit 7 v) OR push_bit (s + 7) (signed_drop_bit 7 v) = push_bit s v" for v :: "64 word"
proof -
  have "push_bit s (take_bit 7 v) OR push_bit (s + 7) (signed_drop_bit 7 v) = push_bit s (take_bit 7 v OR push_bit 7 (signed_drop_bit 7 v))"
    by (simp only: push_bit_or push_bit_push_bit)
  then show ?thesis by (simp only: signed_split_7)
qed

lemma sdrop_negative: "sint (signed_drop_bit 7 v) < 0 \<longleftrightarrow> sint v < 0" for v :: "64 word"
  by (simp add: sint_sdrop_7 pos_imp_zdiv_neg_iff)

lemma sleb_last:
  assumes "\<not> sleb_more v"
  shows "bit v 6 \<longleftrightarrow> sint v < 0" "signed_drop_bit 7 v = (if bit v 6 then - 1 else 0)"
proof -
  show 1: "signed_drop_bit 7 v = (if bit v 6 then - 1 else 0)" using assms by (auto simp: sleb_more_def)
  have "sint v < 0 \<longleftrightarrow> sint (signed_drop_bit 7 v) < 0" by (simp only: sdrop_negative)
  then show "bit v 6 \<longleftrightarrow> sint v < 0" using 1 by simp
qed

lemma decode_sleb_encode:
  assumes "Shift + 7 * length (encodeSLEB128 v 0) \<le> 70"
  shows "decode_sleb (encodeSLEB128 v 0 @ rest) acc Shift n =
    (if 0 \<le> sint v \<or> Shift + 7 * length (encodeSLEB128 v 0) < 64
     then Inr (acc OR push_bit Shift v, n + length (encodeSLEB128 v 0), None) else Inl Unreachable)"
  using assms
proof (induction "length (encodeSLEB128 v 0)" arbitrary: v acc Shift n)
  case 0
  then show ?case by simp
next
  case (Suc k)
  let ?b = "ucast (v AND 0x7F) :: 8 word" and ?w = "signed_drop_bit 7 v"
  have Shift: "Shift < 64" using Suc.prems Suc.hyps(2) by simp
  note bytes = low_byte [of v] byte_ge_128
  show ?case
  proof (cases "sleb_more v")
    case True
    then have eq: "encodeSLEB128 v 0 = (?b OR 0x80) # encodeSLEB128 ?w 0" by (subst encodeSLEB128_unfold) simp
    have "decode_sleb (encodeSLEB128 ?w 0 @ rest) (acc OR push_bit Shift (take_bit 7 v)) (Shift + 7) (n + 1) =
      (if 0 \<le> sint ?w \<or> Shift + 7 + 7 * length (encodeSLEB128 ?w 0) < 64
       then Inr ((acc OR push_bit Shift (take_bit 7 v)) OR push_bit (Shift + 7) ?w, n + 1 + length (encodeSLEB128 ?w 0), None) else Inl Unreachable)"
      using Suc.hyps(2) Suc.prems by (intro Suc.hyps(1)) (simp_all add: eq)
    moreover have "0 \<le> sint ?w \<longleftrightarrow> 0 \<le> sint v" using sdrop_negative [of v] by linarith
    ultimately show ?thesis using Shift push_split_7 [of Shift v] by (simp add: eq bytes Let_def or.assoc)
  next
    case False
    then have eq: "encodeSLEB128 v 0 = [?b]" by (subst encodeSLEB128_unfold) simp
    have sign: "bit v 6 \<longleftrightarrow> \<not> 0 \<le> sint v" using sleb_last(1) [OF False] by linarith
    show ?thesis using Shift push_split_7 [of Shift v] sleb_last(2) [OF False] sign
      by (auto simp: eq bytes low_byte_40 Let_def or.assoc)
  qed
qed

lemma sleb_range_int: "(x div 128 = 0 \<and> even (x div 64)) \<or> (x div 128 = - 1 \<and> odd (x div 64)) \<longleftrightarrow> - 64 \<le> x \<and> x < 64" for x :: int
proof -
  define q where "q = x div 64"
  have q: "x = 64 * q + x mod 64" "0 \<le> x mod 64" "x mod 64 < 64" by (simp_all add: q_def)
  have "x div 128 = q div 2" using zdiv_zmult2_eq [of 2 x 64] by (simp add: q_def)
  then have "(x div 128 = 0 \<and> even (x div 64)) \<or> (x div 128 = - 1 \<and> odd (x div 64)) \<longleftrightarrow> q = 0 \<or> q = - 1"
    unfolding q_def [symmetric] by (auto elim!: evenE oddE)
  also have "\<dots> \<longleftrightarrow> - 64 \<le> x \<and> x < 64" using q by linarith
  finally show ?thesis .
qed

lemma sleb_more_range: "\<not> sleb_more v \<longleftrightarrow> - 64 \<le> sint v \<and> sint v < 64"
proof -
  have zero: "signed_drop_bit 7 v = 0 \<longleftrightarrow> sint v div 128 = 0"
    using signed_word_eqI [of "signed_drop_bit 7 v" 0, where ?'a = int] by (auto simp: sint_sdrop_7 simp flip: sint_sdrop_7)
  have minus: "signed_drop_bit 7 v = - 1 \<longleftrightarrow> sint v div 128 = - 1"
    using signed_word_eqI [of "signed_drop_bit 7 v" "- 1", where ?'a = int] by (auto simp flip: sint_sdrop_7)
  have "bit v 6 \<longleftrightarrow> odd (sint v div 64)"
    using bit_signed_iff [where ?'b = 64 and ?'a = int, of v 6] by (simp add: bit_iff_odd [of "sint v"])
  then have "\<not> sleb_more v \<longleftrightarrow>
      (sint v div 128 = 0 \<and> even (sint v div 64)) \<or> (sint v div 128 = - 1 \<and> odd (sint v div 64))"
    by (simp add: sleb_more_def zero minus)
  also have "\<dots> \<longleftrightarrow> - 64 \<le> sint v \<and> sint v < 64" by (rule sleb_range_int)
  finally show ?thesis .
qed

lemma sleb_length: "length (encodeSLEB128 v 0) \<le> Suc k \<longleftrightarrow> - (2 ^ (7 * k + 6)) \<le> sint v \<and> sint v < 2 ^ (7 * k + 6)"
proof (induction k arbitrary: v)
  case 0
  show ?case using sleb_more_range [of v] by (subst encodeSLEB128_unfold) auto
next
  case (Suc k)
  let ?m = "(2 :: int) ^ (7 * k + 6)"
  have m: "(2 :: int) ^ (7 * Suc k + 6) = 128 * ?m" by (simp add: power_add)
  show ?case
  proof (cases "sleb_more v")
    case True
    then have "length (encodeSLEB128 v 0) \<le> Suc (Suc k) \<longleftrightarrow> - ?m \<le> sint v div 128 \<and> sint v div 128 < ?m"
      using Suc [of "signed_drop_bit 7 v"] by (subst encodeSLEB128_unfold) (simp add: sint_sdrop_7)
    also have "\<dots> \<longleftrightarrow> - (128 * ?m) \<le> sint v \<and> sint v < 128 * ?m" by linarith
    finally show ?thesis by (simp only: m)
  next
    case False
    have "0 < ?m" by simp
    then have "- (128 * ?m) \<le> sint v \<and> sint v < 128 * ?m" using False sleb_more_range [of v] by linarith
    then show ?thesis using False by (subst encodeSLEB128_unfold) (simp only: m, simp)
  qed
qed

text \<open>
  C31. Signed LEB128 numbers round trip from \<open>- (2 ^ 62)\<close> on. Below it the encoding takes ten bytes, and the decoder
  extends the sign with a shift by 70.
\<close>

theorem sleb_round_trip:
  "decodeSLEB128 (encodeSLEB128 v 0 @ rest) =
    (if - (2 ^ 62) \<le> sint v then Inr (v, length (encodeSLEB128 v 0), None) else Inl Unreachable)"
proof -
  have "- (2 ^ 69) \<le> sint v \<and> sint v < 2 ^ 69" using sint_ge [of v] sint_lt [of v] by simp
  then have "length (encodeSLEB128 v 0) \<le> 10" using sleb_length [of v 9] by simp
  moreover have "7 * length (encodeSLEB128 v 0) < 64 \<longleftrightarrow> length (encodeSLEB128 v 0) \<le> Suc 8" by linarith
  then have "7 * length (encodeSLEB128 v 0) < 64 \<longleftrightarrow> - (2 ^ 62) \<le> sint v \<and> sint v < 2 ^ 62" by (simp only: sleb_length) simp
  ultimately show ?thesis using decode_sleb_encode [of 0 v rest 0 0] by (auto simp: decodeSLEB128_def)
qed

lemma sleb_size_length: "sleb_size (if sint v < 0 then - 1 else 0) v Size = Some (Size + length (encodeSLEB128 v 0))"
proof (induction "length (encodeSLEB128 v 0)" arbitrary: v Size)
  case 0
  then show ?case by simp
next
  case (Suc k)
  let ?Sign = "if sint v < 0 then - 1 else 0 :: 64 word"
  have forty: "(0x40 :: 64 word) = 2 ^ 6" by simp
  have "((v AND 0x7F) XOR ?Sign) AND 0x40 \<noteq> 0 \<longleftrightarrow> (bit v 6 \<noteq> (sint v < 0))"
    unfolding forty and_exp_eq_0_iff_not_bit not_not by (simp add: mask_7 bit_xor_iff bit_take_bit_iff)
  then have more: "(signed_drop_bit 7 v \<noteq> ?Sign \<or> ((v AND 0x7F) XOR ?Sign) AND 0x40 \<noteq> 0) \<longleftrightarrow> sleb_more v"
    using sdrop_negative [of v] by (auto simp: sleb_more_def)
  show ?case
  proof (cases "sleb_more v")
    case True
    then have eq: "length (encodeSLEB128 v 0) = Suc (length (encodeSLEB128 (signed_drop_bit 7 v) 0))"
      by (subst encodeSLEB128_unfold) simp
    then have "sleb_size ?Sign (signed_drop_bit 7 v) (Size + 1) = Some (Size + 1 + length (encodeSLEB128 (signed_drop_bit 7 v) 0))"
      using Suc.hyps(1) [of "signed_drop_bit 7 v"] Suc.hyps(2) by (simp add: sdrop_negative)
    then show ?thesis using True more by (subst sleb_size.simps) (simp add: Let_def eq)
  next
    case False
    then have "length (encodeSLEB128 v 0) = 1" by (subst encodeSLEB128_unfold) simp
    then show ?thesis using False more by (subst sleb_size.simps) (simp add: Let_def)
  qed
qed

text \<open>
  \<open>getSLEB128Size\<close> ends, and its result is the length of the encoding.
\<close>

theorem getSLEB128Size_length: "getSLEB128Size v = Some (length (encodeSLEB128 v 0))"
proof -
  have "signed_drop_bit 63 v = (if sint v < 0 then - 1 else 0)"
  proof (rule bit_word_eqI)
    fix n assume "n < LENGTH(64)"
    have "bit v 63 \<longleftrightarrow> sint v < 0" using bit_last_iff [of v] by simp
    then show "bit (signed_drop_bit 63 v) n = bit (if sint v < 0 then - 1 else 0 :: 64 word) n"
      using \<open>n < LENGTH(64)\<close> by (cases n) (auto simp: bit_signed_drop_bit_iff)
  qed
  then show ?thesis using sleb_size_length [of v 0] by (simp add: getSLEB128Size_def)
qed

end
