(* ===== verification/AsmStream.thy ===== *)
theory AsmStream
  imports InstPrint LEB128
begin

text \<open>
  The text streamer of the target, \<open>lib/Target/F2003f/MCTargetDesc/F2003fMCAsmStreamer.cpp\<close>, with the operations of its
  base class it builds on, \<open>lib/MC/MCStreamer.cpp\<close>. The state of both classes is one record. Symbols are
  their names; what the code keeps in a symbol (whether it is registered, whether it has a fragment) is kept in two
  lists of the state. There are no variables, since \<open>EmitAssignment\<close> stops; so a symbol is undefined exactly
  when it has no fragment. Sections and subsections are numbers.

  The language puts a label behind the statement it marks, so labels wait for the next statement; and data
  directives exist for the current alignment only, so bytes wait in \<open>ValueBuffer\<close> until they fill one.
\<close>

section \<open>State\<close>

type_synonym section_pair = "nat option \<times> nat option"

record streamer =
  OS :: string
  LabelToEmit :: string
  ExplicitCommentToEmit :: string
  CommentToEmit :: string
  Symbols :: "string list"
  Registered :: "string list"
  Defined :: "string list"
  SectionStack :: "(section_pair \<times> section_pair) list"
  IsVerboseAsm :: bool
  ShowInst :: bool
  CurrentAlignmentToValue :: nat
  ValueBuffer :: "8 word list"

text \<open>What is fixed: the names of the symbol variants, the begin and end symbols of the sections and the text section.\<close>

record stream_env =
  variant_name :: "variant_kind \<Rightarrow> string"
  begin_symbol :: "nat \<Rightarrow> string option"
  end_symbol :: "nat \<Rightarrow> string option"
  text_section :: nat

text \<open>The constructor leaves \<open>CurrentAlignmentToValue\<close> uninitialised.\<close>

definition new_streamer :: "bool \<Rightarrow> bool \<Rightarrow> nat \<Rightarrow> streamer" where
  "new_streamer isVerboseAsm showInst uninit =
     \<lparr>OS = [], LabelToEmit = [], ExplicitCommentToEmit = [], CommentToEmit = [], Symbols = [], Registered = [],
      Defined = [], SectionStack = [((None, None), (None, None))], IsVerboseAsm = isVerboseAsm,
      ShowInst = showInst, CurrentAlignmentToValue = uninit, ValueBuffer = []\<rparr>"

definition reset :: "streamer \<Rightarrow> streamer" where
  "reset S = S\<lparr>LabelToEmit := [], ExplicitCommentToEmit := [], CommentToEmit := [], Symbols := [],
     CurrentAlignmentToValue := 1, ValueBuffer := [], SectionStack := [((None, None), (None, None))]\<rparr>"

definition put :: "string \<Rightarrow> streamer \<Rightarrow> streamer" where
  "put s S = S\<lparr>OS := OS S @ s\<rparr>"

section \<open>Comments and ends of lines\<close>

text \<open>The column after some output; a tab goes to the next multiple of 8.\<close>

fun update_column :: "nat \<Rightarrow> string \<Rightarrow> nat" where
  "update_column Column [] = Column"
| "update_column Column (c # s) =
     (let Column = Column + 1 in
      update_column
        (if c = CHR 0x0A \<or> c = CHR 0x0D then 0
         else if c = CHR 0x09 then Column + (8 - Column mod 8) mod 8
         else Column) s)"

definition PadToColumn :: "nat \<Rightarrow> streamer \<Rightarrow> streamer" where
  "PadToColumn NewCol S = put (replicate (nat (max (int NewCol - int (update_column 0 (OS S))) 1)) CHR '' '') S"

definition emitExplicitComments :: "streamer \<Rightarrow> streamer" where
  "emitExplicitComments S = (put (ExplicitCommentToEmit S) S)\<lparr>ExplicitCommentToEmit := []\<rparr>"

function emit_comment_lines :: "string \<Rightarrow> streamer \<Rightarrow> streamer" where
  "emit_comment_lines Comments S =
     (let S = PadToColumn 40 S;
          Line = takeWhile (\<lambda>c. c \<noteq> CHR 0x0A) Comments;
          S = put ('';'' @ '' '' @ Line @ [CHR 0x0A]) S;
          Comments = drop (length Line + 1) Comments
      in if Comments = [] then S else emit_comment_lines Comments S)"
  by auto

termination by (relation "measure (\<lambda>(Comments, _). length Comments)") (auto simp: not_le)

declare emit_comment_lines.simps [simp del]

definition EmitCommentsAndEOL :: "streamer \<Rightarrow> streamer result" where
  "EmitCommentsAndEOL S =
     (if CommentToEmit S = [] then Inr (put [CHR 0x0A] S)
      else if last (CommentToEmit S) \<noteq> CHR 0x0A then Inl AssertFailed
      else Inr ((emit_comment_lines (CommentToEmit S) S)\<lparr>CommentToEmit := []\<rparr>))"

definition EmitEOL :: "streamer \<Rightarrow> streamer result" where
  "EmitEOL S =
     (let S = emitExplicitComments S in
      if \<not> IsVerboseAsm S then Inr (put [CHR 0x0A] S) else EmitCommentsAndEOL S)"

definition AddComment :: "string \<Rightarrow> bool \<Rightarrow> streamer \<Rightarrow> streamer" where
  "AddComment T EOL S =
     (if \<not> IsVerboseAsm S then S else S\<lparr>CommentToEmit := CommentToEmit S @ T @ (if EOL then [CHR 0x0A] else [])\<rparr>)"

text \<open>\<open>GetCommentOS() << T\<close>.\<close>

definition write_comment :: "string \<Rightarrow> streamer \<Rightarrow> streamer" where
  "write_comment T S = (if \<not> IsVerboseAsm S then S else S\<lparr>CommentToEmit := CommentToEmit S @ T\<rparr>)"

definition emitRawComment :: "string \<Rightarrow> streamer \<Rightarrow> streamer result" where
  "emitRawComment T S = EmitEOL (put ('';'' @ T) S)"

definition addExplicitComment :: "string \<Rightarrow> streamer \<Rightarrow> streamer result" where
  "addExplicitComment c S =
     (if c = [] \<or> hd c \<noteq> CHR '';'' then Inl AssertFailed
      else
        let S = S\<lparr>ExplicitCommentToEmit := ExplicitCommentToEmit S @ c\<rparr>
        in Inr (if last c = CHR 0x0A then emitExplicitComments S else S))"

definition AddBlankLine :: "streamer \<Rightarrow> streamer result" where
  "AddBlankLine S = EmitEOL S"

section \<open>Symbols and labels\<close>

definition visitUsedSymbol :: "string \<Rightarrow> streamer \<Rightarrow> streamer" where
  "visitUsedSymbol x S =
     (if x \<in> set (Registered S) then S else S\<lparr>Registered := x # Registered S, Symbols := Symbols S @ [x]\<rparr>)"

fun visitUsedExpr :: "mc_expr \<Rightarrow> streamer \<Rightarrow> streamer" where
  "visitUsedExpr (ConstantExpr _) S = S"
| "visitUsedExpr (BinaryExpr _ l r) S = visitUsedExpr r (visitUsedExpr l S)"
| "visitUsedExpr (SymbolRefExpr SRE) S = visitUsedSymbol (fst SRE) S"
| "visitUsedExpr (UnaryExpr _ e) S = visitUsedExpr e S"

definition flushLabel :: "bool \<Rightarrow> streamer \<Rightarrow> streamer" where
  "flushLabel addFen S =
     (let S' = (if LabelToEmit S \<noteq> [] then put ((if addFen then ''fen'' else []) @ LabelToEmit S) S else S)
      in S'\<lparr>LabelToEmit := []\<rparr>)"

definition getCurrentSection :: "streamer \<Rightarrow> section_pair" where
  "getCurrentSection S = (if SectionStack S = [] then (None, None) else fst (last (SectionStack S)))"

text \<open>
  \<open>MCStreamer::EmitLabel\<close>. A second definition is reported to the context, which, as the code generator has no source
  manager, stops with a fatal error.
\<close>

definition base_EmitLabel :: "string \<Rightarrow> streamer \<Rightarrow> streamer result" where
  "base_EmitLabel x S =
     (if x \<in> set (Defined S) then Inl FatalError
      else if fst (getCurrentSection S) = None then Inl AssertFailed
      else Inr (S\<lparr>Defined := x # Defined S\<rparr>))"

definition EmitLabel :: "string \<Rightarrow> streamer \<Rightarrow> streamer result" where
  "EmitLabel x S =
     (if ValueBuffer S \<noteq> [] then Inl AssertFailed
      else bind_result (base_EmitLabel x S) (\<lambda>S.
        let S = visitUsedSymbol x S
        in Inr (S\<lparr>LabelToEmit := LabelToEmit S @ '' l'' @ [CHR 0x27] @ '' '' @ print_symbol x\<rparr>)))"

section \<open>Data\<close>

definition data_directive :: "nat \<Rightarrow> string option" where
  "data_directive Size = (if Size = 1 then Some ''lifem8 '' else if Size = 2 then Some ''lifem16 ''
     else if Size = 4 then Some ''lifem '' else None)"

definition EmitValueWithAlignment :: "stream_env \<Rightarrow> mc_expr \<Rightarrow> nat \<Rightarrow> streamer \<Rightarrow> streamer result" where
  "EmitValueWithAlignment E Value Size S = (case data_directive Size of
     None \<Rightarrow> Inl AssertFailed
   | Some Directive \<Rightarrow> EmitEOL (flushLabel False (put (Directive @ print_expr (variant_name E) False Value) S)))"

text \<open>The bytes of the buffer as one value, \<open>ValueToEmit\<close>.\<close>

definition value_of_bytes :: "8 word list \<Rightarrow> 64 word" where
  "value_of_bytes bs = foldl (\<lambda>v b. push_bit 8 v OR ucast b) 0 bs"

text \<open>A shift by 64 or more, which C++ leaves undefined, stops the model.\<close>

definition flushValues :: "stream_env \<Rightarrow> streamer \<Rightarrow> streamer result" where
  "flushValues E S =
     (let shift = unat ((of_nat (CurrentAlignmentToValue S) - of_nat (length (ValueBuffer S))) * 8 :: 64 word) in
      bind_result
        (if ValueBuffer S = [] then Inr S
         else if 64 \<le> shift then Inl Unreachable
         else map_sum id (ValueBuffer_update (\<lambda>_. []))
           (EmitValueWithAlignment E (ConstantExpr (push_bit shift (value_of_bytes (ValueBuffer S)))) (CurrentAlignmentToValue S) S))
        (\<lambda>S. Inr (S\<lparr>CurrentAlignmentToValue := 1\<rparr>)))"

definition push_value_byte :: "stream_env \<Rightarrow> 8 word \<Rightarrow> streamer \<Rightarrow> streamer result" where
  "push_value_byte E b S =
     (let S = S\<lparr>ValueBuffer := ValueBuffer S @ [b]\<rparr> in
      if length (ValueBuffer S) = CurrentAlignmentToValue S then
        map_sum id (ValueBuffer_update (\<lambda>_. []))
          (EmitValueWithAlignment E (ConstantExpr (value_of_bytes (ValueBuffer S))) (CurrentAlignmentToValue S) S)
      else Inr S)"

text \<open>The context of an evaluation without assembler and layout; there are no variables.\<close>

definition no_assembler :: "streamer \<Rightarrow> mc_context" where
  "no_assembler S = \<lparr>variable_value = (\<lambda>_. None), sym_undefined = (\<lambda>x. x \<notin> set (Defined S)), sym_absolute = (\<lambda>_. False),
     sym_fragment = (\<lambda>_. 0), sym_offset = (\<lambda>_. 0), fragment_section = (\<lambda>_. 0), hasSubsectionsViaSymbols = False,
     Asm = None, isThumbFunc = (\<lambda>_. False), Layout = None, Addrs = None\<rparr>"

definition bytes_of_value :: "64 word \<Rightarrow> nat \<Rightarrow> 8 word list" where
  "bytes_of_value v Size = map (\<lambda>i. ucast (signed_drop_bit (i * 8) v)) (rev [0..<Size])"

definition EmitValueImpl :: "stream_env \<Rightarrow> mc_expr \<Rightarrow> nat \<Rightarrow> streamer \<Rightarrow> streamer result" where
  "EmitValueImpl E Value Size S =
     (if 8 < Size then Inl AssertFailed
      else if fst (getCurrentSection S) = None then Inl AssertFailed
      else if CurrentAlignmentToValue S = Size \<and> ValueBuffer S = [] then EmitValueWithAlignment E Value Size S
      else (case evaluateAsAbsolute (no_assembler S) 0 Value of
          Some (Inr (True, IntValue)) \<Rightarrow> fold_result (push_value_byte E) (bytes_of_value IntValue Size) S
        | Some (Inr (False, _)) \<Rightarrow> Inl FatalError
        | Some (Inl f) \<Rightarrow> Inl f
        | None \<Rightarrow> Inl Unreachable))"

abbreviation EmitValue :: "stream_env \<Rightarrow> mc_expr \<Rightarrow> nat \<Rightarrow> streamer \<Rightarrow> streamer result" where
  "EmitValue \<equiv> EmitValueImpl"

definition EmitIntValue :: "stream_env \<Rightarrow> 64 word \<Rightarrow> nat \<Rightarrow> streamer \<Rightarrow> streamer result" where
  "EmitIntValue E Value Size = EmitValue E (ConstantExpr Value) Size"

definition EmitBytes :: "stream_env \<Rightarrow> 8 word list \<Rightarrow> streamer \<Rightarrow> streamer result" where
  "EmitBytes E Data = fold_result (\<lambda>b. EmitValue E (ConstantExpr (ucast b)) 1) Data"

definition EmitSymbolValue :: "stream_env \<Rightarrow> string \<Rightarrow> nat \<Rightarrow> streamer \<Rightarrow> streamer result" where
  "EmitSymbolValue E x Size = EmitValueImpl E (SymbolRefExpr (x, VK_None)) Size"

definition EmitValueToAlignment :: "nat \<Rightarrow> streamer \<Rightarrow> streamer" where
  "EmitValueToAlignment ByteAlignment S =
     (if ByteAlignment = 1 \<or> ByteAlignment = 2 \<or> ByteAlignment = 4 then S\<lparr>CurrentAlignmentToValue := ByteAlignment\<rparr>
      else if ByteAlignment mod 4 = 0 then S\<lparr>CurrentAlignmentToValue := 4\<rparr>
      else S\<lparr>CurrentAlignmentToValue := 1\<rparr>)"

section \<open>Sections\<close>

definition ChangeSection :: "stream_env \<Rightarrow> section_pair \<Rightarrow> streamer \<Rightarrow> streamer result" where
  "ChangeSection E sec S = flushValues E S"

text \<open>The operations on the section stack are called with a stack that is not empty.\<close>

definition set_previous :: "streamer \<Rightarrow> streamer" where
  "set_previous S = S\<lparr>SectionStack := (SectionStack S)[length (SectionStack S) - 1 := (getCurrentSection S, getCurrentSection S)]\<rparr>"

definition set_current :: "section_pair \<Rightarrow> streamer \<Rightarrow> streamer" where
  "set_current sec S =
     S\<lparr>SectionStack := (SectionStack S)[length (SectionStack S) - 1 := (sec, snd (last (SectionStack S)))]\<rparr>"

definition SwitchSection :: "stream_env \<Rightarrow> nat \<Rightarrow> nat option \<Rightarrow> streamer \<Rightarrow> streamer result" where
  "SwitchSection E Section Subsection S =
     (let curSection = getCurrentSection S; S = set_previous S in
      if (Some Section, Subsection) = curSection then Inr S
      else bind_result (ChangeSection E (Some Section, Subsection) S) (\<lambda>S.
        let S = set_current (Some Section, Subsection) S;
            hasEnded = (case end_symbol E Section of None \<Rightarrow> False | Some x \<Rightarrow> x \<in> set (Defined S))
        in if hasEnded then Inl AssertFailed
           else (case begin_symbol E Section of
               Some Sym \<Rightarrow> if Sym \<notin> set (Defined S) then EmitLabel Sym S else Inr S
             | None \<Rightarrow> Inr S)))"

definition SwitchSectionNoChange :: "nat \<Rightarrow> nat option \<Rightarrow> streamer \<Rightarrow> streamer" where
  "SwitchSectionNoChange Section Subsection S =
     (let curSection = getCurrentSection S; S = set_previous S in
      if (Some Section, Subsection) = curSection then S else set_current (Some Section, Subsection) S)"

definition PushSection :: "streamer \<Rightarrow> streamer" where
  "PushSection S = S\<lparr>SectionStack := SectionStack S @
     [(getCurrentSection S, if SectionStack S = [] then (None, None) else snd (last (SectionStack S)))]\<rparr>"

definition PopSection :: "stream_env \<Rightarrow> streamer \<Rightarrow> (bool \<times> streamer) result" where
  "PopSection E S =
     (if length (SectionStack S) \<le> 1 then Inr (False, S)
      else
        let OldSection = fst (last (SectionStack S)); NewSection = fst (last (butlast (SectionStack S))) in
        bind_result (if OldSection \<noteq> NewSection then ChangeSection E NewSection S else Inr S) (\<lambda>S.
        Inr (True, S\<lparr>SectionStack := butlast (SectionStack S)\<rparr>)))"

definition InitSections :: "stream_env \<Rightarrow> streamer \<Rightarrow> streamer result" where
  "InitSections E S = SwitchSection E (text_section E) None S"

section \<open>Instructions, attributes and the end of the file\<close>

text \<open>\<open>printInstruction\<close> is generated, \<open>dump\<close> is the text of \<open>dump_pretty\<close> and \<open>SI\<close> that of \<open>getSchedInfoStr\<close>.\<close>

definition scan_values :: "mc_inst \<Rightarrow> streamer \<Rightarrow> streamer" where
  "scan_values Inst S = fold (\<lambda>Op S. case Op of MC_Expr e \<Rightarrow> visitUsedExpr e S | _ \<Rightarrow> S) (rev (mc_operand_list Inst)) S"

definition EmitInstruction :: "(mc_inst \<Rightarrow> string result) \<Rightarrow> string \<Rightarrow> string \<Rightarrow> mc_inst \<Rightarrow> bool \<Rightarrow> streamer \<Rightarrow> streamer result" where
  "EmitInstruction printInstruction dump SI Inst PrintSchedInfo S =
     (let S = scan_values Inst S;
          S = (if ShowInst S
               then write_comment [CHR 0x0A] (write_comment dump (if PrintSchedInfo then write_comment [CHR 0x0A] S else S))
               else S)
      in bind_result (printInstruction Inst) (\<lambda>Buffer.
         if Buffer = [] then Inl Unreachable
         else
           let S = flushLabel False (put (drop 1 Buffer) S);
               S = (if PrintSchedInfo \<and> SI \<noteq> [] then write_comment SI S else S);
               S = (if CommentToEmit S \<noteq> [] \<and> last (CommentToEmit S) \<noteq> CHR 0x0A then write_comment [CHR 0x0A] S else S)
           in EmitEOL S))"

definition EmitRawTextImpl :: "string \<Rightarrow> streamer \<Rightarrow> streamer result" where
  "EmitRawTextImpl String S =
     EmitEOL (put (if String \<noteq> [] \<and> last String = CHR 0x0A then butlast String else String) S)"

definition FinishImpl :: "stream_env \<Rightarrow> streamer \<Rightarrow> streamer result" where
  "FinishImpl E S =
     bind_result (flushValues E S) (\<lambda>S.
     let S = flushLabel True S in
     fold_result (\<lambda>x S. if x \<notin> set (Defined S) then EmitEOL (put (''xok '' @ print_symbol x) S) else Inr S) (Symbols S) S)"

datatype mc_symbol_attr = MCSA_Global | MCSA_Other nat

definition EmitSymbolAttribute :: "string \<Rightarrow> mc_symbol_attr \<Rightarrow> streamer \<Rightarrow> (bool \<times> streamer) result" where
  "EmitSymbolAttribute x Attribute S =
     (let S = visitUsedSymbol x S in
      case Attribute of
        MCSA_Global \<Rightarrow> map_sum id (\<lambda>S. (True, S)) (EmitEOL (put (''kue '' @ print_symbol x) S))
      | MCSA_Other _ \<Rightarrow> Inr (False, S))"

text \<open>The directives the target does not have.\<close>

datatype unsupported_directive = ThumbFunc | Assignment | WeakReference | SymbolDesc | CommonSymbol | LocalCommonSymbol
  | Zerofill | TBSSSymbol | FillExprBytes | FillExprValues | CodeAlignment | ValueToOffset | BundleAlignMode | BundleLock
  | BundleUnlock

definition emit_unsupported :: "unsupported_directive \<Rightarrow> streamer \<Rightarrow> streamer result" where
  "emit_unsupported d S = Inl Unreachable"

section \<open>Operations of the base class on top of these\<close>

text \<open>\<open>MCStreamer\<close> writes the next ones in terms of the virtual \<open>EmitIntValue\<close> and \<open>EmitBytes\<close>, which are arguments here.\<close>

definition base_EmitIntValue :: "(8 word list \<Rightarrow> 's \<Rightarrow> 's result) \<Rightarrow> bool \<Rightarrow> 64 word \<Rightarrow> nat \<Rightarrow> 's \<Rightarrow> 's result" where
  "base_EmitIntValue emitBytes isLittleEndian Value Size S =
     (if \<not> (1 \<le> Size \<and> Size \<le> 8) then Inl AssertFailed
      else if \<not> (uint Value < 2 ^ (8 * Size) \<or> (- (2 ^ (8 * Size - 1)) \<le> sint Value \<and> sint Value < 2 ^ (8 * Size - 1)))
        then Inl AssertFailed
      else emitBytes (map (\<lambda>i. ucast (drop_bit ((if isLittleEndian then i else Size - i - 1) * 8) Value)) [0..<Size]) S)"

definition emitFill_bytes :: "(64 word \<Rightarrow> nat \<Rightarrow> 's \<Rightarrow> 's result) \<Rightarrow> nat \<Rightarrow> 8 word \<Rightarrow> 's \<Rightarrow> 's result" where
  "emitFill_bytes emitIntValue NumBytes FillValue = fold_result (\<lambda>_. emitIntValue (ucast FillValue) 1) [0..<NumBytes]"

text \<open>For sizes that are not positive the mask is a shift by 64 or more.\<close>

definition emitFill_values :: "(64 word \<Rightarrow> nat \<Rightarrow> 's \<Rightarrow> 's result) \<Rightarrow> nat \<Rightarrow> int \<Rightarrow> 64 word \<Rightarrow> 's \<Rightarrow> 's result" where
  "emitFill_values emitIntValue NumValues Size Expr S =
     (if Size \<le> 0 then Inl Unreachable
      else
        let NonZeroSize = (if Size > 4 then 4 else nat Size);
            Expr = Expr AND drop_bit (64 - NonZeroSize * 8) (- 1)
        in fold_result (\<lambda>_ S. bind_result (emitIntValue Expr NonZeroSize S) (\<lambda>S.
             if int NonZeroSize < Size then emitIntValue 0 (nat Size - NonZeroSize) S else Inr S)) [0..<NumValues] S)"

definition EmitZeros :: "(64 word \<Rightarrow> nat \<Rightarrow> 's \<Rightarrow> 's result) \<Rightarrow> nat \<Rightarrow> 's \<Rightarrow> 's result" where
  "EmitZeros emitIntValue NumBytes = emitFill_bytes emitIntValue NumBytes 0"

definition EmitULEB128IntValue :: "(8 word list \<Rightarrow> 's \<Rightarrow> 's result) \<Rightarrow> 64 word \<Rightarrow> nat \<Rightarrow> 's \<Rightarrow> 's result" where
  "EmitULEB128IntValue emitBytes Value Padding = emitBytes (encodeULEB128 Value Padding)"

definition EmitSLEB128IntValue :: "(8 word list \<Rightarrow> 's \<Rightarrow> 's result) \<Rightarrow> 64 word \<Rightarrow> 's \<Rightarrow> 's result" where
  "EmitSLEB128IntValue emitBytes Value = emitBytes (encodeSLEB128 Value 0)"

text \<open>The target does not have set directives that suppress relocations.\<close>

definition emitAbsoluteSymbolDiff :: "stream_env \<Rightarrow> string \<Rightarrow> string \<Rightarrow> nat \<Rightarrow> streamer \<Rightarrow> streamer result" where
  "emitAbsoluteSymbolDiff E Hi Lo Size =
     EmitValue E (BinaryExpr B_Sub (SymbolRefExpr (Hi, VK_None)) (SymbolRefExpr (Lo, VK_None))) Size"

end
