(* ===== verification/AsmData.thy ===== *)
theory AsmData
  imports AsmStream
begin

text \<open>
  The correctness of the text streamer. Its text is read back line by line; then every operation that emits data
  appends the bytes it promises, which is stated as a locale on the virtual functions of the base class and
  interpreted on those of the target, and the text of a sequence of such operations reads back as their bytes. The
  rest is on labels, on the symbols the end of the file declares, and on the invariant of the state.
\<close>

section \<open>Reading the text back\<close>

text \<open>The lines of a text, without their ends, and the bytes a line stands for, the most significant first.\<close>

fun text_lines :: "string \<Rightarrow> string list" where
  "text_lines [] = []"
| "text_lines (c # s) = (if c = CHR 0x0A then [] # text_lines s
     else case text_lines s of [] \<Rightarrow> [[c]] | l # ls \<Rightarrow> (c # l) # ls)"

primrec number_bytes :: "nat \<Rightarrow> nat \<Rightarrow> 8 word list" where
  "number_bytes n 0 = []"
| "number_bytes n (Suc k) = number_bytes (n div 256) k @ [word_of_nat n]"

definition line_number :: "nat \<Rightarrow> string \<Rightarrow> nat" where
  "line_number k l = digits_value (takeWhile is_digit (drop k l))"

definition read_line :: "string \<Rightarrow> 8 word list" where
  "read_line l =
     (if take 7 l = ''lifem8 '' then number_bytes (line_number 7 l) 1
      else if take 8 l = ''lifem16 '' then number_bytes (line_number 8 l) 2
      else if take 6 l = ''lifem '' then number_bytes (line_number 6 l) 4
      else [])"

definition read_data :: "string \<Rightarrow> 8 word list" where
  "read_data s = concat (map read_line (text_lines s))"

definition complete :: "string \<Rightarrow> bool" where
  "complete s = (s = [] \<or> last s = CHR 0x0A)"

lemma text_lines_line: "CHR 0x0A \<notin> set l \<Longrightarrow> text_lines (l @ CHR 0x0A # s) = l # text_lines s"
  by (induction l) auto

lemma text_lines_not_Nil: "text_lines (a @ CHR 0x0A # b) \<noteq> []"
  by (induction a) (auto split: list.split)

lemma text_lines_append_nl: "text_lines (a @ CHR 0x0A # b) = text_lines (a @ [CHR 0x0A]) @ text_lines b"
proof (induction a)
  case (Cons c a)
  then show ?case using text_lines_not_Nil [of a "[]"] by (auto split: list.split)
qed simp

lemma text_lines_append: "complete a \<Longrightarrow> text_lines (a @ b) = text_lines a @ text_lines b"
  using text_lines_append_nl [of "butlast a" b] append_butlast_last_id [of a]
  by (cases "a = []") (simp_all add: complete_def append_eq_append_conv2, metis append_Cons append_Nil append_assoc)

lemma read_data_append: "complete a \<Longrightarrow> read_data (a @ b) = read_data a @ read_data b"
  by (simp add: read_data_def text_lines_append)

lemma complete_append: "complete a \<Longrightarrow> complete b \<Longrightarrow> complete (a @ b)"
  by (auto simp: complete_def last_append)

lemma read_data_Nil [simp]: "read_data [] = []"
  by (simp add: read_data_def)

section \<open>Numbers and bytes\<close>

lemma length_number_bytes [simp]: "length (number_bytes n k) = k"
  by (induction k arbitrary: n) simp_all

lemma rev_upt_Suc: "rev [0..<Suc k] = map Suc (rev [0..<k]) @ [0]"
  by (simp add: upt_rec [of 0 "Suc k"] map_Suc_upt [symmetric] rev_map del: upt_Suc)

lemma number_bytes_word: "number_bytes (unat v) k = map (\<lambda>i. ucast (drop_bit (i * 8) v)) (rev [0..<k])" for v :: "64 word"
proof (induction k arbitrary: v)
  case (Suc k)
  have "unat v div 256 = unat (drop_bit 8 v)" by (simp only: unat_drop_bit_eq) (simp add: drop_bit_eq_div)
  then show ?case using Suc [of "drop_bit 8 v"] unfolding rev_upt_Suc by (simp add: comp_def ac_simps)
qed simp

lemma bytes_of_value_number: "k \<le> 8 \<Longrightarrow> bytes_of_value v k = number_bytes (unat v) k"
proof -
  assume k: "k \<le> 8"
  have "(ucast (signed_drop_bit (i * 8) v) :: 8 word) = ucast (drop_bit (i * 8) v)" if "i < k" for i
    using k that by (intro bit_word_eqI) (auto simp: bit_ucast_iff bit_signed_drop_bit_iff bit_drop_bit_eq)
  then show ?thesis by (simp add: bytes_of_value_def number_bytes_word)
qed

lemma value_of_bytes_snoc: "value_of_bytes (bs @ [b]) = push_bit 8 (value_of_bytes bs) OR ucast b"
  by (simp add: value_of_bytes_def)

lemma unat_byte: "unat b < 256" for b :: "8 word"
  using unsigned_less [where ?'b = 8 and ?'a = nat, of b] by simp

lemma unat_push_byte:
  fixes v :: "64 word" and b :: "8 word"
  assumes "unat v < 256 ^ 7"
  shows "unat (push_bit 8 v OR ucast b) = 256 * unat v + unat b"
proof -
  have "push_bit 8 v OR ucast b = push_bit 8 v + ucast b"
    by (rule disjunctive_add [symmetric]) (auto simp: bit_push_bit_iff bit_ucast_iff dest: bit_imp_le_length)
  also have "\<dots> = word_of_nat (256 * unat v + unat b)" by (simp add: push_bit_eq_mult mult.commute unsigned_ucast_eq)
  finally show ?thesis using assms unat_byte [of b] by (simp only: unsigned_of_nat) (simp add: take_bit_nat_eq_self)
qed

lemma value_of_bytes_bound: "length bs \<le> 8 \<Longrightarrow> unat (value_of_bytes bs) < 256 ^ length bs"
proof (induction bs rule: rev_induct)
  case (snoc b bs)
  have less: "unat (value_of_bytes bs) < 256 ^ length bs" using snoc by simp
  moreover have "(256 :: nat) ^ length bs \<le> 256 ^ 7" using snoc(2) by (intro power_increasing) simp_all
  ultimately have "unat (value_of_bytes bs) < 256 ^ 7" by (rule order.strict_trans2)
  then show ?case using less unat_byte [of b] by (simp add: value_of_bytes_snoc unat_push_byte)
qed (simp add: value_of_bytes_def)

lemma unat_value_of_bytes_snoc:
  assumes "length bs < 8"
  shows "unat (value_of_bytes (bs @ [b])) = 256 * unat (value_of_bytes bs) + unat b"
proof -
  have "unat (value_of_bytes bs) < 256 ^ length bs" using assms by (simp add: value_of_bytes_bound)
  moreover have "(256 :: nat) ^ length bs \<le> 256 ^ 7" using assms by (intro power_increasing) simp_all
  ultimately have "unat (value_of_bytes bs) < 256 ^ 7" by (rule order.strict_trans2)
  then show ?thesis by (simp add: value_of_bytes_snoc unat_push_byte)
qed

lemma number_bytes_value_of_bytes: "length bs \<le> 8 \<Longrightarrow> number_bytes (unat (value_of_bytes bs)) (length bs) = bs"
proof (induction bs rule: rev_induct)
  case (snoc b bs)
  have "(256 * n + unat b) div 256 = n" for n :: nat using unat_byte [of b] by simp
  moreover have "(word_of_nat (256 * n + unat b) :: 8 word) = word_of_nat (unat b)" for n
    by (simp only: word_of_nat_eq_iff) (simp add: take_bit_eq_mod)
  ultimately show ?case using snoc by (simp add: unat_value_of_bytes_snoc del: of_nat_add of_nat_mult)
qed simp

lemma value_of_bytes_zeros: "value_of_bytes (bs @ replicate n 0) = push_bit (n * 8) (value_of_bytes bs)"
proof (induction n)
  case (Suc n)
  have "bs @ replicate (Suc n) 0 = (bs @ replicate n 0) @ [0]" by (simp add: replicate_append_same)
  then show ?case using Suc by (simp only: value_of_bytes_snoc) (simp add: ac_simps)
qed simp

section \<open>What a line ends with\<close>

definition spaced :: "string \<Rightarrow> bool" where
  "spaced u = (u \<noteq> [] \<and> complete u \<and> (\<forall>l \<in> set (text_lines u). l = [] \<or> hd l = CHR '' ''))"

lemma read_line_spaced: "l = [] \<or> hd l = CHR '' '' \<Longrightarrow> read_line l = []"
  by (cases l) (auto simp: read_line_def)

lemma text_lines_Nil_iff: "text_lines u = [] \<longleftrightarrow> u = []"
  by (cases u) (auto split: list.split)

lemma text_lines_prefix:
  assumes "CHR 0x0A \<notin> set p" "u \<noteq> []"
  shows "text_lines (p @ u) = (p @ hd (text_lines u)) # tl (text_lines u)"
proof -
  have "text_lines u \<noteq> []" using assms(2) by (simp add: text_lines_Nil_iff)
  then show ?thesis using assms(1) by (induction p) auto
qed

lemma read_data_line:
  assumes "CHR 0x0A \<notin> set p" "spaced u"
  shows "read_data (p @ u) = read_line (p @ hd (text_lines u))"
proof -
  have "\<forall>l \<in> set (tl (text_lines u)). read_line l = []"
    using assms(2) by (cases "text_lines u") (simp_all add: spaced_def read_line_spaced)
  then show ?thesis using assms by (simp add: read_data_def text_lines_prefix spaced_def)
qed

lemma spaced_hd: "spaced u \<Longrightarrow> hd (text_lines u) = [] \<or> hd (hd (text_lines u)) = CHR '' ''"
  using text_lines_Nil_iff [of u] by (cases "text_lines u") (auto simp: spaced_def)

lemma spaced_newline: "spaced [CHR 0x0A]"
  by (simp add: spaced_def complete_def)

lemma spaced_append: "spaced u \<Longrightarrow> spaced v \<Longrightarrow> spaced (u @ v)"
  by (auto simp: spaced_def text_lines_append complete_append)

lemma put_simps [simp]:
  "put s (put t S) = put (t @ s) S" "OS (put s S) = OS S @ s" "CommentToEmit (put s S) = CommentToEmit S"
  "IsVerboseAsm (put s S) = IsVerboseAsm S" "LabelToEmit (put s S) = LabelToEmit S" "ShowInst (put s S) = ShowInst S"
  "ExplicitCommentToEmit (put s S) = ExplicitCommentToEmit S" "ValueBuffer (put s S) = ValueBuffer S"
  "CurrentAlignmentToValue (put s S) = CurrentAlignmentToValue S" "SectionStack (put s S) = SectionStack S"
  "Symbols (put s S) = Symbols S" "Defined (put s S) = Defined S" "Registered (put s S) = Registered S"
  "getCurrentSection (put s S) = getCurrentSection S"
  by (simp_all add: put_def getCurrentSection_def)

lemma PadToColumn_text: "\<exists>n. PadToColumn c S = put (CHR '' '' # replicate n CHR '' '') S"
proof -
  obtain n where "nat (max (int c - int (update_column 0 (OS S))) 1) = Suc n" by (cases "nat (max (int c - int (update_column 0 (OS S))) 1)") auto
  then show ?thesis by (intro exI [of _ n]) (simp add: PadToColumn_def)
qed

lemma comment_line_spaced:
  assumes "CHR 0x0A \<notin> set l"
  shows "spaced (CHR '' '' # replicate n CHR '' '' @ '';'' @ '' '' @ l @ [CHR 0x0A])"
proof -
  have "text_lines ((CHR '' '' # replicate n CHR '' '' @ '';'' @ '' '' @ l) @ [CHR 0x0A]) = [CHR '' '' # replicate n CHR '' '' @ '';'' @ '' '' @ l]"
    using assms by (subst text_lines_prefix) simp_all
  then show ?thesis by (simp add: spaced_def complete_def)
qed

lemma emit_comment_lines_text:
  assumes "c \<noteq> []" "last c = CHR 0x0A"
  shows "\<exists>u. emit_comment_lines c S = put u S \<and> spaced u"
  using assms
proof (induction c S rule: emit_comment_lines.induct)
  case (1 c S)
  define l where "l = takeWhile (\<lambda>c. c \<noteq> CHR 0x0A) c"
  define r where "r = drop (length l + 1) c"
  obtain n where n: "PadToColumn 40 S = put (CHR '' '' # replicate n CHR '' '') S" using PadToColumn_text by blast
  define v where "v = CHR '' '' # replicate n CHR '' '' @ '';'' @ '' '' @ l @ [CHR 0x0A]"
  have v: "spaced v" unfolding v_def by (rule comment_line_spaced) (auto simp: l_def dest: set_takeWhileD)
  have eq: "emit_comment_lines c S = (if r = [] then put v S else emit_comment_lines r (put v S))"
    by (subst emit_comment_lines.simps) (simp add: n Let_def l_def r_def v_def)
  show ?case
  proof (cases "r = []")
    case True
    then show ?thesis using eq v by auto
  next
    case False
    then have "last r = CHR 0x0A" using "1.prems" by (simp add: r_def)
    then obtain u where "emit_comment_lines r (put v S) = put u (put v S)" "spaced u"
      using "1.IH" [OF refl refl refl refl] False by (auto simp: n r_def l_def v_def)
    then show ?thesis using eq False v by (auto intro: spaced_append)
  qed
qed

section \<open>A data directive\<close>

definition text_ok :: "streamer \<Rightarrow> bool" where
  "text_ok S = ((LabelToEmit S = [] \<or> hd (LabelToEmit S) = CHR '' '') \<and> CHR 0x0A \<notin> set (LabelToEmit S) \<and>
     (ExplicitCommentToEmit S = [] \<or> hd (ExplicitCommentToEmit S) = CHR '';'') \<and> CHR 0x0A \<notin> set (ExplicitCommentToEmit S) \<and>
     (CommentToEmit S = [] \<or> IsVerboseAsm S \<and> last (CommentToEmit S) = CHR 0x0A))"

lemma EmitEOL_text:
  assumes "text_ok S"
  obtains u where "EmitEOL S = Inr (S\<lparr>OS := OS S @ ExplicitCommentToEmit S @ u, ExplicitCommentToEmit := [], CommentToEmit := []\<rparr>)"
    and "spaced u"
proof (cases "CommentToEmit S = []")
  case True
  then have "EmitEOL S = Inr (S\<lparr>OS := OS S @ ExplicitCommentToEmit S @ [CHR 0x0A], ExplicitCommentToEmit := [], CommentToEmit := []\<rparr>)"
    by (simp add: EmitEOL_def EmitCommentsAndEOL_def emitExplicitComments_def put_def Let_def)
  then show thesis using that spaced_newline by blast
next
  case False
  then have "IsVerboseAsm S" "last (CommentToEmit S) = CHR 0x0A" using assms by (auto simp: text_ok_def)
  moreover obtain u where "emit_comment_lines (CommentToEmit S) (emitExplicitComments S) = put u (emitExplicitComments S)" "spaced u"
    using emit_comment_lines_text [OF False calculation(2)] by blast
  ultimately show thesis using False that [of u]
    by (simp add: EmitEOL_def EmitCommentsAndEOL_def emitExplicitComments_def put_def Let_def)
qed

lemma takeWhile_digits:
  assumes "is_numeral n" "\<not> (s \<noteq> [] \<and> is_digit (hd s))"
  shows "takeWhile is_digit (n @ s) = n"
  using assms by (cases s) (auto simp: is_numeral_def takeWhile_append2)

lemma nat_sint_nonneg: "0 \<le> sint c \<Longrightarrow> nat (sint c) = unat c" for c :: "64 word"
  using sint_lt [of c] by (simp add: unat_eq_nat_uint uint_sint take_bit_int_eq_self)

lemma EmitValueWithAlignment_reads:
  assumes "Size = 1 \<or> Size = 2 \<or> Size = 4" "0 \<le> sint c" "text_ok S"
  obtains t where "EmitValueWithAlignment E (ConstantExpr c) Size S =
      Inr (S\<lparr>OS := OS S @ t, LabelToEmit := [], ExplicitCommentToEmit := [], CommentToEmit := []\<rparr>)"
    and "complete t" "t \<noteq> []" "read_data t = number_bytes (unat c) Size"
proof -
  obtain d where d: "data_directive Size = Some d" using assms(1) by (auto simp: data_directive_def)
  define n where "n = format_to_buffer (nat (sint c))"
  have nat: "nat (sint c) = unat c" by (rule nat_sint_nonneg [OF assms(2)])
  have n: "is_numeral n" "digits_value n = unat c" using format_to_buffer_value [of "unat c"] by (simp_all add: n_def nat)
  define S1 where "S1 = flushLabel False (put (d @ n) S)"
  have ok: "text_ok S1" using assms(3) by (simp add: S1_def text_ok_def flushLabel_def put_def Let_def)
  obtain u where u: "EmitEOL S1 = Inr (S1\<lparr>OS := OS S1 @ ExplicitCommentToEmit S1 @ u, ExplicitCommentToEmit := [], CommentToEmit := []\<rparr>)"
    and spaced: "spaced u" using EmitEOL_text [OF ok] .
  define p where "p = LabelToEmit S @ ExplicitCommentToEmit S"
  have p: "CHR 0x0A \<notin> set p" "p = [] \<or> hd p = CHR '' '' \<or> hd p = CHR '';''"
    using assms(3) by (auto simp: p_def text_ok_def hd_append)
  have eq: "EmitValueWithAlignment E (ConstantExpr c) Size S =
      Inr (S\<lparr>OS := OS S @ (d @ n @ p) @ u, LabelToEmit := [], ExplicitCommentToEmit := [], CommentToEmit := []\<rparr>)"
    using u assms(2) by (simp add: EmitValueWithAlignment_def d S1_def n_def p_def flushLabel_def put_def write_signed_def write_unsigned_def Let_def)
  have "\<not> (p @ hd (text_lines u) \<noteq> [] \<and> is_digit (hd (p @ hd (text_lines u))))"
    using p(2) spaced_hd [OF spaced] by (cases p) (auto simp: is_digit_def)
  then have digits: "takeWhile is_digit (n @ p @ hd (text_lines u)) = n" by (rule takeWhile_digits [OF n(1)])
  have "CHR 0x0A \<notin> set (d @ n @ p)"
    using p(1) n(1) d by (auto simp: is_numeral_def is_digit_def data_directive_def split: if_splits)
  then have "read_data ((d @ n @ p) @ u) = read_line (d @ n @ p @ hd (text_lines u))"
    using read_data_line [OF _ spaced, of "d @ n @ p"] by simp
  also have "\<dots> = number_bytes (unat c) Size"
    using assms(1) d digits n(2) by (auto simp: data_directive_def read_line_def line_number_def)
  finally show thesis using that [OF eq] spaced by (auto simp: spaced_def complete_def)
qed

section \<open>What a writer of data promises\<close>

text \<open>
  \<open>writes ready emits f bs\<close>: from a ready state, \<open>f\<close> does not stop, ends in a ready state and has emitted \<open>bs\<close>. What
  \<open>emits\<close> means is left open here: it composes.
\<close>

definition writes :: "('s \<Rightarrow> bool) \<Rightarrow> ('s \<Rightarrow> 's \<Rightarrow> 8 word list \<Rightarrow> bool) \<Rightarrow> ('s \<Rightarrow> 's result) \<Rightarrow> 8 word list \<Rightarrow> bool" where
  "writes ready emits f bs = (\<forall>S. ready S \<longrightarrow> (\<exists>S'. f S = Inr S' \<and> ready S' \<and> emits S S' bs))"

lemma writesI: "(\<And>S. ready S \<Longrightarrow> \<exists>S'. f S = Inr S' \<and> ready S' \<and> emits S S' bs) \<Longrightarrow> writes ready emits f bs"
  by (simp add: writes_def)

lemma writesE:
  assumes "writes ready emits f bs" "ready S"
  obtains S' where "f S = Inr S'" "ready S'" "emits S S' bs"
  using assms by (auto simp: writes_def)

lemma concat_replicate_single: "concat (replicate n [b]) = replicate n b"
  by (induction n) simp_all

lemma map_rev_upt: "map (\<lambda>i. g (n - i - 1)) [0..<n] = map g (rev [0..<n])"
  by (rule nth_equalityI) (simp_all add: rev_nth)

locale data_sink =
  fixes ready :: "'s \<Rightarrow> bool" and emits :: "'s \<Rightarrow> 's \<Rightarrow> 8 word list \<Rightarrow> bool"
  assumes emits_refl: "emits S S []"
    and emits_trans: "emits S S' a \<Longrightarrow> emits S' S'' b \<Longrightarrow> emits S S'' (a @ b)"
begin

lemma writes_skip: "writes ready emits Inr []"
  by (simp add: writes_def emits_refl)

lemma writes_bind:
  assumes "writes ready emits f a" "writes ready emits g b"
  shows "writes ready emits (\<lambda>S. bind_result (f S) g) (a @ b)"
proof (rule writesI)
  fix S assume "ready S"
  with assms(1) obtain S' where S': "f S = Inr S'" "ready S'" "emits S S' a" by (rule writesE)
  from assms(2) S'(2) obtain S'' where "g S' = Inr S''" "ready S''" "emits S' S'' b" by (rule writesE)
  then show "\<exists>S''. bind_result (f S) g = Inr S'' \<and> ready S'' \<and> emits S S'' (a @ b)" using S' emits_trans by auto
qed

lemma writes_fold:
  assumes "\<And>x. x \<in> set xs \<Longrightarrow> writes ready emits (f x) (g x)"
  shows "writes ready emits (fold_result f xs) (concat (map g xs))"
  using assms
proof (induction xs)
  case Nil
  then show ?case using writes_skip by (simp add: writes_def)
next
  case (Cons x xs)
  then have "writes ready emits (\<lambda>S. bind_result (f x S) (fold_result f xs)) (g x @ concat (map g xs))" by (intro writes_bind) auto
  then show ?case by (simp add: writes_def)
qed

lemma writes_repeat:
  assumes "writes ready emits f bs"
  shows "writes ready emits (fold_result (\<lambda>_. f) [0..<n]) (concat (replicate n bs))"
  using writes_fold [of "[0..<n]" "\<lambda>_. f" "\<lambda>_. bs"] assms by (simp add: map_replicate_const)

end

text \<open>The virtual functions that the base class uses: bytes and integers are written with their contents.\<close>

locale data_streamer = data_sink ready emits
  for ready :: "'s \<Rightarrow> bool" and emits :: "'s \<Rightarrow> 's \<Rightarrow> 8 word list \<Rightarrow> bool" +
  fixes emitBytes :: "8 word list \<Rightarrow> 's \<Rightarrow> 's result" and emitIntValue :: "64 word \<Rightarrow> nat \<Rightarrow> 's \<Rightarrow> 's result"
  assumes emitBytes_writes: "writes ready emits (emitBytes d) d"
    and emitIntValue_writes: "Size \<le> 8 \<Longrightarrow> unat v < 256 ^ Size \<Longrightarrow> writes ready emits (emitIntValue v Size) (number_bytes (unat v) Size)"
begin

lemma emitFill_bytes_writes: "writes ready emits (emitFill_bytes emitIntValue n b) (replicate n b)"
proof -
  have "writes ready emits (emitIntValue (ucast b) 1) [b]"
    using emitIntValue_writes [of 1 "ucast b"] unat_byte [of b] by (simp add: unsigned_ucast_eq take_bit_nat_eq_self)
  then have "writes ready emits (emitFill_bytes emitIntValue n b) (concat (replicate n [b]))"
    unfolding emitFill_bytes_def by (rule writes_repeat)
  then show ?thesis by (simp only: concat_replicate_single)
qed

lemma base_EmitIntValue_writes:
  assumes "1 \<le> Size" "Size \<le> 8" "unat v < 256 ^ Size"
  shows "writes ready emits (base_EmitIntValue emitBytes False v Size) (number_bytes (unat v) Size)"
proof -
  have "uint v < 2 ^ (8 * Size)"
  proof -
    have "int (unat v) < int (256 ^ Size)" using assms(3) by (simp only: of_nat_less_iff)
    then show ?thesis by (simp add: power_mult)
  qed
  moreover have "map (\<lambda>i. ucast (drop_bit ((Size - i - 1) * 8) v)) [0..<Size] = number_bytes (unat v) Size"
    by (simp only: number_bytes_word map_rev_upt [where g = "\<lambda>i. ucast (drop_bit (i * 8) v)"])
  ultimately have "base_EmitIntValue emitBytes False v Size = emitBytes (number_bytes (unat v) Size)"
    using assms by (simp add: base_EmitIntValue_def fun_eq_iff)
  then show ?thesis using emitBytes_writes by simp
qed

end

section \<open>The streamer keeps the promise\<close>

definition ready :: "streamer \<Rightarrow> bool" where
  "ready S = (text_ok S \<and> CurrentAlignmentToValue S \<in> {1, 2, 4} \<and> length (ValueBuffer S) < CurrentAlignmentToValue S \<and>
     fst (getCurrentSection S) \<noteq> None)"

text \<open>The text that is new stands, followed by the waiting bytes, for the bytes that were waiting and the emitted ones.\<close>

definition emits :: "streamer \<Rightarrow> streamer \<Rightarrow> 8 word list \<Rightarrow> bool" where
  "emits S S' bs = ((\<exists>t. OS S' = OS S @ t \<and> complete t \<and> read_data t @ ValueBuffer S' = ValueBuffer S @ bs \<and>
       CurrentAlignmentToValue S dvd length (read_data t)) \<and>
     CurrentAlignmentToValue S' = CurrentAlignmentToValue S \<and> Symbols S' = Symbols S \<and> Registered S' = Registered S \<and>
     Defined S' = Defined S \<and> SectionStack S' = SectionStack S)"

interpretation sink: data_sink ready emits
proof
  show "emits S S []" for S by (simp add: emits_def complete_def)
  show "emits S S'' (a @ b)" if ab: "emits S S' a" "emits S' S'' b" for S S' S'' a b
  proof -
    obtain t where t: "OS S' = OS S @ t" "complete t" "read_data t @ ValueBuffer S' = ValueBuffer S @ a"
        "CurrentAlignmentToValue S dvd length (read_data t)"
      using ab(1) by (auto simp: emits_def)
    obtain u where u: "OS S'' = OS S' @ u" "complete u" "read_data u @ ValueBuffer S'' = ValueBuffer S' @ b"
        "CurrentAlignmentToValue S dvd length (read_data u)"
      using ab by (auto simp: emits_def)
    have "OS S'' = OS S @ t @ u" "complete (t @ u)" using t u complete_append by simp_all
    moreover have "read_data (t @ u) @ ValueBuffer S'' = ValueBuffer S @ a @ b"
      using t(3) u(3) by (simp add: read_data_append [OF t(2)])
    moreover have "CurrentAlignmentToValue S dvd length (read_data (t @ u))"
      using t(4) u(4) by (simp add: read_data_append [OF t(2)])
    ultimately have "\<exists>t. OS S'' = OS S @ t \<and> complete t \<and> read_data t @ ValueBuffer S'' = ValueBuffer S @ a @ b \<and>
        CurrentAlignmentToValue S dvd length (read_data t)" by blast
    then show ?thesis using ab by (simp add: emits_def)
  qed
qed

lemma sint_nonneg: "unat c < 2 ^ 63 \<Longrightarrow> 0 \<le> sint c" for c :: "64 word"
proof -
  assume "unat c < 2 ^ 63"
  then have "int (unat c) < int (2 ^ 63)" by (simp only: of_nat_less_iff)
  then have "uint c < 2 ^ 63" by simp
  moreover have "- (2 ^ 63) \<le> uint c" using uint_ge_0 [of c] by (rule order_trans [rotated]) simp
  ultimately have "signed_take_bit 63 (uint c) = uint c" by (intro signed_take_bit_int_eq_self)
  then have "sint c = uint c" by (simp add: sint_uint)
  then show ?thesis by simp
qed

lemma alignment_value_nonneg: "k \<in> {1, 2, 4} \<Longrightarrow> unat c < 256 ^ k \<Longrightarrow> 0 \<le> sint c" for c :: "64 word"
  by (rule sint_nonneg) auto

lemma push_value_byte_writes: "writes ready emits (push_value_byte E b) [b]"
proof (rule writesI)
  fix S assume S: "ready S"
  let ?S = "S\<lparr>ValueBuffer := ValueBuffer S @ [b]\<rparr>"
  show "\<exists>S'. push_value_byte E b S = Inr S' \<and> ready S' \<and> emits S S' [b]"
  proof (cases "Suc (length (ValueBuffer S)) = CurrentAlignmentToValue S")
    case False
    then show ?thesis using S
      by (auto simp: push_value_byte_def ready_def text_ok_def emits_def complete_def getCurrentSection_def Let_def)
  next
    case True
    let ?v = "value_of_bytes (ValueBuffer S @ [b])"
    have A: "CurrentAlignmentToValue S \<in> {1, 2, 4}" and ok: "text_ok ?S" using S by (simp_all add: ready_def text_ok_def)
    then have len: "length (ValueBuffer S @ [b]) \<le> 8" "length (ValueBuffer S @ [b]) = CurrentAlignmentToValue S" using True by auto
    have "0 \<le> sint ?v"
      using alignment_value_nonneg [OF A] value_of_bytes_bound [OF len(1)] by (simp only: len(2))
    then obtain t where t: "EmitValueWithAlignment E (ConstantExpr ?v) (CurrentAlignmentToValue S) ?S =
        Inr (?S\<lparr>OS := OS ?S @ t, LabelToEmit := [], ExplicitCommentToEmit := [], CommentToEmit := []\<rparr>)"
      and "complete t" "read_data t = number_bytes (unat ?v) (CurrentAlignmentToValue S)"
      using A ok by (elim EmitValueWithAlignment_reads [rotated 1]) auto
    moreover have "number_bytes (unat ?v) (CurrentAlignmentToValue S) = ValueBuffer S @ [b]"
      using number_bytes_value_of_bytes [OF len(1)] by (simp only: len(2))
    ultimately show ?thesis using True S
      by (auto simp: push_value_byte_def ready_def text_ok_def emits_def getCurrentSection_def)
  qed
qed

lemma evaluate_constant [simp]: "evaluateAsAbsolute C fuel (ConstantExpr c) = Some (Inr (True, c))"
  by (simp add: evaluateAsAbsolute_def)

lemma number_bytes_concat: "concat (map (\<lambda>b. [b]) bs) = bs"
  by (induction bs) simp_all

lemma EmitIntValue_writes:
  assumes "Size \<le> 8" "unat v < 256 ^ Size"
  shows "writes ready emits (EmitIntValue E v Size) (number_bytes (unat v) Size)"
proof (rule writesI)
  fix S assume S: "ready S"
  show "\<exists>S'. EmitIntValue E v Size S = Inr S' \<and> ready S' \<and> emits S S' (number_bytes (unat v) Size)"
  proof (cases "CurrentAlignmentToValue S = Size \<and> ValueBuffer S = []")
    case True
    then have A: "Size \<in> {1, 2, 4}" and ok: "text_ok S" using S by (auto simp: ready_def)
    obtain t where "EmitValueWithAlignment E (ConstantExpr v) Size S =
        Inr (S\<lparr>OS := OS S @ t, LabelToEmit := [], ExplicitCommentToEmit := [], CommentToEmit := []\<rparr>)"
      and "complete t" "read_data t = number_bytes (unat v) Size"
      using A ok alignment_value_nonneg [OF A assms(2)] by (elim EmitValueWithAlignment_reads [rotated 1]) auto
    then show ?thesis using True S assms(1)
      by (auto simp: EmitIntValue_def EmitValueImpl_def ready_def text_ok_def emits_def getCurrentSection_def)
  next
    case False
    then have "EmitIntValue E v Size S = fold_result (push_value_byte E) (number_bytes (unat v) Size) S"
      using S assms(1) by (auto simp: EmitIntValue_def EmitValueImpl_def ready_def bytes_of_value_number)
    moreover have "writes ready emits (fold_result (push_value_byte E) (number_bytes (unat v) Size)) (number_bytes (unat v) Size)"
      using sink.writes_fold [where f = "push_value_byte E" and g = "\<lambda>b. [b]", OF push_value_byte_writes, of "number_bytes (unat v) Size"] by (simp add: number_bytes_concat)
    ultimately show ?thesis using S by (simp add: writes_def)
  qed
qed

lemma EmitBytes_writes: "writes ready emits (EmitBytes E d) d"
proof -
  have "writes ready emits (EmitValue E (ConstantExpr (ucast b)) 1) [b]" for b
    using EmitIntValue_writes [of 1 "ucast b" E] unat_byte [of b] by (simp add: EmitIntValue_def [abs_def] unsigned_ucast_eq take_bit_nat_eq_self)
  then have "writes ready emits (EmitBytes E d) (concat (map (\<lambda>b. [b]) d))"
    unfolding EmitBytes_def by (intro sink.writes_fold)
  then show ?thesis by (simp add: number_bytes_concat)
qed

interpretation f2003f: data_streamer ready emits "EmitBytes E" "EmitIntValue E" for E
  by unfold_locales (auto intro: EmitBytes_writes EmitIntValue_writes)


section \<open>Data is written once and in order\<close>

lemma flushValues_reads:
  assumes "ready S"
  obtains S' t where "flushValues E S = Inr S'" "OS S' = OS S @ t" "complete t" "ValueBuffer S' = []"
    "CurrentAlignmentToValue S' = 1"
    "read_data t = ValueBuffer S @ (if ValueBuffer S = [] then [] else replicate (CurrentAlignmentToValue S - length (ValueBuffer S)) 0)"
proof (cases "ValueBuffer S = []")
  case True
  then show thesis using that [of "S\<lparr>CurrentAlignmentToValue := 1\<rparr>" "[]"] by (simp add: flushValues_def complete_def)
next
  case False
  define n where "n = CurrentAlignmentToValue S - length (ValueBuffer S)"
  define bs where "bs = ValueBuffer S @ replicate n 0"
  have A: "CurrentAlignmentToValue S \<in> {1, 2, 4}" and ok: "text_ok S"
    and len: "length bs = CurrentAlignmentToValue S" "length bs \<le> 8"
    using assms by (auto simp: ready_def bs_def n_def)
  have "of_nat (CurrentAlignmentToValue S) - of_nat (length (ValueBuffer S)) = (of_nat n :: 64 word)"
    using assms by (simp add: ready_def n_def of_nat_diff)
  moreover have "n = 0 \<or> n = 1 \<or> n = 2 \<or> n = 3 \<or> n = 4" using A by (auto simp: n_def)
  then have "unat (of_nat n * 8 :: 64 word) = n * 8" "n \<le> 4" by (elim disjE; simp)+
  ultimately have shift: "unat ((of_nat (CurrentAlignmentToValue S) - of_nat (length (ValueBuffer S))) * 8 :: 64 word) = n * 8"
    by simp
  have "0 \<le> sint (value_of_bytes bs)" using alignment_value_nonneg [OF A] value_of_bytes_bound [OF len(2)] by (simp only: len(1))
  then obtain t where t: "EmitValueWithAlignment E (ConstantExpr (value_of_bytes bs)) (CurrentAlignmentToValue S) S =
      Inr (S\<lparr>OS := OS S @ t, LabelToEmit := [], ExplicitCommentToEmit := [], CommentToEmit := []\<rparr>)"
    and "complete t" "read_data t = number_bytes (unat (value_of_bytes bs)) (CurrentAlignmentToValue S)"
    using A ok by (elim EmitValueWithAlignment_reads [rotated 1]) auto
  moreover have "number_bytes (unat (value_of_bytes bs)) (CurrentAlignmentToValue S) = bs"
    using number_bytes_value_of_bytes [OF len(2)] by (simp only: len(1))
  moreover have "flushValues E S = Inr (S\<lparr>OS := OS S @ t, LabelToEmit := [], ExplicitCommentToEmit := [], CommentToEmit := [],
      ValueBuffer := [], CurrentAlignmentToValue := 1\<rparr>)"
    unfolding flushValues_def Let_def shift using t(1) \<open>n \<le> 4\<close> False by (simp add: bs_def value_of_bytes_zeros)
  ultimately show thesis using that False by (simp add: bs_def n_def)
qed

text \<open>The operations of the streamer, and of its base class, that emit data.\<close>

datatype data_op = D_Bytes "8 word list" | D_Int "64 word" nat | D_Base_Int "64 word" nat | D_Fill nat "8 word" | D_Zeros nat
  | D_ULEB "64 word" nat | D_SLEB "64 word"

fun data_op_ok :: "data_op \<Rightarrow> bool" where
  "data_op_ok (D_Int v Size) = (Size \<le> 8 \<and> unat v < 256 ^ Size)"
| "data_op_ok (D_Base_Int v Size) = (1 \<le> Size \<and> Size \<le> 8 \<and> unat v < 256 ^ Size)"
| "data_op_ok _ = True"

fun run_data_op :: "stream_env \<Rightarrow> data_op \<Rightarrow> streamer \<Rightarrow> streamer result" where
  "run_data_op E (D_Bytes d) = EmitBytes E d"
| "run_data_op E (D_Int v Size) = EmitIntValue E v Size"
| "run_data_op E (D_Base_Int v Size) = base_EmitIntValue (EmitBytes E) False v Size"
| "run_data_op E (D_Fill n b) = emitFill_bytes (EmitIntValue E) n b"
| "run_data_op E (D_Zeros n) = EmitZeros (EmitIntValue E) n"
| "run_data_op E (D_ULEB v Padding) = EmitULEB128IntValue (EmitBytes E) v Padding"
| "run_data_op E (D_SLEB v) = EmitSLEB128IntValue (EmitBytes E) v"

fun data_op_bytes :: "data_op \<Rightarrow> 8 word list" where
  "data_op_bytes (D_Bytes d) = d"
| "data_op_bytes (D_Int v Size) = number_bytes (unat v) Size"
| "data_op_bytes (D_Base_Int v Size) = number_bytes (unat v) Size"
| "data_op_bytes (D_Fill n b) = replicate n b"
| "data_op_bytes (D_Zeros n) = replicate n 0"
| "data_op_bytes (D_ULEB v Padding) = encodeULEB128 v Padding"
| "data_op_bytes (D_SLEB v) = encodeSLEB128 v 0"

lemma run_data_op_writes: "data_op_ok d \<Longrightarrow> writes ready emits (run_data_op E d) (data_op_bytes d)"
  by (cases d) (simp_all add: f2003f.emitBytes_writes f2003f.emitIntValue_writes f2003f.base_EmitIntValue_writes
      f2003f.emitFill_bytes_writes EmitZeros_def EmitULEB128IntValue_def EmitSLEB128IntValue_def)

text \<open>A sequence of data operations and the flush at its end.\<close>

lemma data_written:
  assumes "ready S" "\<forall>d\<in>set ds. data_op_ok d"
  shows "\<exists>S' S'' t k. fold_result (run_data_op E) ds S = Inr S' \<and> flushValues E S' = Inr S'' \<and> OS S'' = OS S @ t \<and>
    read_data t = ValueBuffer S @ concat (map data_op_bytes ds) @ replicate k 0 \<and> k < CurrentAlignmentToValue S \<and>
    length (read_data t) mod CurrentAlignmentToValue S = 0"
proof -
  have "writes ready emits (fold_result (run_data_op E) ds) (concat (map data_op_bytes ds))"
    using assms(2) by (intro sink.writes_fold run_data_op_writes) simp
  then obtain S' where S': "fold_result (run_data_op E) ds S = Inr S'" "ready S'" "emits S S' (concat (map data_op_bytes ds))"
    using assms(1) by (rule writesE)
  obtain t where t: "OS S' = OS S @ t" "complete t" "read_data t @ ValueBuffer S' = ValueBuffer S @ concat (map data_op_bytes ds)"
      "CurrentAlignmentToValue S dvd length (read_data t)" "CurrentAlignmentToValue S' = CurrentAlignmentToValue S"
    using S'(3) by (auto simp: emits_def)
  obtain S'' u where u: "flushValues E S' = Inr S''" "OS S'' = OS S' @ u" "complete u"
      "read_data u = ValueBuffer S' @ (if ValueBuffer S' = [] then []
         else replicate (CurrentAlignmentToValue S' - length (ValueBuffer S')) 0)"
    using flushValues_reads [OF S'(2), of E] by metis
  define k where "k = (if ValueBuffer S' = [] then 0 else CurrentAlignmentToValue S - length (ValueBuffer S'))"
  have A: "length (ValueBuffer S') < CurrentAlignmentToValue S" using S'(2) t(5) by (simp add: ready_def)
  have app: "read_data (t @ u) = read_data t @ read_data u" by (rule read_data_append [OF t(2)])
  have u': "read_data u = ValueBuffer S' @ replicate k 0" using u(4) t(5) by (simp add: k_def)
  have "length (read_data u) = (if ValueBuffer S' = [] then 0 else CurrentAlignmentToValue S)" using u(4) t(5) A by simp
  then have "CurrentAlignmentToValue S dvd length (read_data (t @ u))" using t(4) by (simp add: app)
  moreover have "read_data (t @ u) = ValueBuffer S @ concat (map data_op_bytes ds) @ replicate k 0"
    using t(3) by (simp add: app u' flip: append_assoc)
  moreover have "k < CurrentAlignmentToValue S" using A by (cases "ValueBuffer S'") (auto simp: k_def)
  ultimately have "length (read_data (t @ u)) mod CurrentAlignmentToValue S = 0 \<and> k < CurrentAlignmentToValue S \<and>
      read_data (t @ u) = ValueBuffer S @ concat (map data_op_bytes ds) @ replicate k 0" by simp
  moreover have "OS S'' = OS S @ (t @ u)" using t(1) u(2) by simp
  ultimately have "fold_result (run_data_op E) ds S = Inr S' \<and> flushValues E S' = Inr S'' \<and> OS S'' = OS S @ (t @ u) \<and>
      read_data (t @ u) = ValueBuffer S @ concat (map data_op_bytes ds) @ replicate k 0 \<and> k < CurrentAlignmentToValue S \<and>
      length (read_data (t @ u)) mod CurrentAlignmentToValue S = 0" using S'(1) u(1)
    by (elim conjE) (intro conjI, assumption+)
  then show ?thesis by (intro exI)
qed

text \<open>
  C33. Data is written once, in order and big-endian: a sequence of data operations and the flush at its end do not
  stop, and their lines, read back directive by directive, are the bytes that were waiting, then the bytes of
  the operations, then fewer zero bytes than the alignment, up to a multiple of it.
\<close>

theorem data_round_trip:
  assumes "ready S" "\<forall>d\<in>set ds. data_op_ok d"
  shows "\<exists>S' S'' t k. fold_result (run_data_op E) ds S = Inr S' \<and> flushValues E S' = Inr S'' \<and> OS S'' = OS S @ t \<and>
    read_data t = ValueBuffer S @ concat (map data_op_bytes ds) @ replicate k 0 \<and> k < CurrentAlignmentToValue S \<and>
    length (read_data t) mod CurrentAlignmentToValue S = 0"
  by (rule data_written [OF assms])


definition sample_env :: stream_env where
  "sample_env = \<lparr>variant_name = (\<lambda>_. ''plt''), begin_symbol = (\<lambda>_. None), end_symbol = (\<lambda>_. None), text_section = 0\<rparr>"

definition sample_streamer :: streamer where
  "sample_streamer = (new_streamer False False 4)\<lparr>SectionStack := [((Some 1, None), (None, None))]\<rparr>"

lemma sample_ready: "ready sample_streamer"
  by (simp add: ready_def text_ok_def sample_streamer_def new_streamer_def getCurrentSection_def)

theorem data_round_trip_witness:
  "\<exists>S' S'' t k. fold_result (run_data_op sample_env) [D_Bytes [1, 2], D_Int 258 2, D_Zeros 1, D_ULEB 300 0] sample_streamer = Inr S' \<and>
    flushValues sample_env S' = Inr S'' \<and> OS S'' = OS sample_streamer @ t \<and>
    read_data t = ValueBuffer sample_streamer @ concat (map data_op_bytes [D_Bytes [1, 2], D_Int 258 2, D_Zeros 1, D_ULEB 300 0]) @ replicate k 0 \<and>
    k < CurrentAlignmentToValue sample_streamer \<and> length (read_data t) mod CurrentAlignmentToValue sample_streamer = 0"
  by (rule data_round_trip [OF sample_ready]) simp

text \<open>
  Bytes collect, and are never printed, once there are as many as the alignment: the streamer compares the two for
  equality after it has added a byte.
\<close>

lemma EmitBytes_stuck:
  assumes "fst (getCurrentSection S) \<noteq> None" "CurrentAlignmentToValue S \<le> length (ValueBuffer S)" "0 < length (ValueBuffer S)"
  shows "EmitBytes E d S = Inr (S\<lparr>ValueBuffer := ValueBuffer S @ d\<rparr>)"
proof -
  have one: "EmitValue E (ConstantExpr (ucast b)) 1 (S\<lparr>ValueBuffer := v\<rparr>) = Inr (S\<lparr>ValueBuffer := v @ [b]\<rparr>)"
    if "CurrentAlignmentToValue S \<le> length v" "0 < length v" for b v
  proof -
    have "bytes_of_value (ucast b) 1 = [b]"
      using unat_byte [of b] by (simp add: bytes_of_value_number unsigned_ucast_eq take_bit_nat_eq_self)
    then show ?thesis using that assms(1) by (auto simp: EmitValueImpl_def push_value_byte_def getCurrentSection_def Let_def)
  qed
  have "fold_result (\<lambda>b. EmitValue E (ConstantExpr (ucast b)) 1) d (S\<lparr>ValueBuffer := v\<rparr>) = Inr (S\<lparr>ValueBuffer := v @ d\<rparr>)"
    if "CurrentAlignmentToValue S \<le> length v" "0 < length v" for v
    using that by (induction d arbitrary: v) (simp_all add: one [simplified])
  from this [OF assms(2,3)] show ?thesis by (simp add: EmitBytes_def)
qed

lemma flushValues_stuck:
  assumes "CurrentAlignmentToValue S < length (ValueBuffer S)" "length (ValueBuffer S) < 2 ^ 32"
  shows "flushValues E S = Inl Unreachable"
proof -
  let ?a = "CurrentAlignmentToValue S"
  define k where "k = length (ValueBuffer S) - ?a"
  have k: "0 < k" "k < 2 ^ 32" "length (ValueBuffer S) = ?a + k" using assms by (auto simp: k_def)
  have u1: "(of_nat ?a - of_nat (?a + k)) * 8 = (of_nat (2 ^ 64 - k * 8) :: 64 word)" using k(2) by (simp add: of_nat_diff)
  have u2: "unat (of_nat (2 ^ 64 - k * 8) :: 64 word) = 2 ^ 64 - k * 8"
    using k(1,2) by (simp only: unsigned_of_nat) (simp add: take_bit_nat_eq_self)
  have "64 \<le> unat ((of_nat ?a - of_nat (length (ValueBuffer S))) * 8 :: 64 word)" unfolding k(3) u1 u2 using k(2) by simp
  then show ?thesis using assms(1) by (auto simp: flushValues_def Let_def)
qed

lemma flushValues_full:
  assumes "length (ValueBuffer S) = CurrentAlignmentToValue S"
  shows "flushValues E S \<noteq> Inl Unreachable"
  using assms by (auto simp: flushValues_def EmitValueWithAlignment_def EmitEOL_def EmitCommentsAndEOL_def Let_def
      split: if_splits option.splits)

text \<open>
  C34. What a change of the alignment does to the bytes that wait. When fewer wait than the new alignment has, nothing is
  lost: those bytes and the ones that follow are written, in order, up to the flush. When as many wait or more, no
  byte is printed any more: the bytes that follow only collect, and the flush shifts by a negative amount, unless just as
  many bytes as the alignment wait at that time.
\<close>

theorem alignment_change_loses_bytes:
  assumes "ready S" "a \<in> {1, 2, 4}" "length (ValueBuffer S) + length d < 2 ^ 32"
  shows "if length (ValueBuffer S) < a
    then \<exists>S' S'' t k. EmitBytes E d (EmitValueToAlignment a S) = Inr S' \<and> flushValues E S' = Inr S'' \<and> OS S'' = OS S @ t \<and>
      read_data t = ValueBuffer S @ d @ replicate k 0 \<and> k < a
    else EmitBytes E d (EmitValueToAlignment a S) = Inr (S\<lparr>CurrentAlignmentToValue := a, ValueBuffer := ValueBuffer S @ d\<rparr>) \<and>
      (flushValues E (S\<lparr>CurrentAlignmentToValue := a, ValueBuffer := ValueBuffer S @ d\<rparr>) = Inl Unreachable \<longleftrightarrow>
         a < length (ValueBuffer S) + length d)"
proof (cases "length (ValueBuffer S) < a")
  case True
  have S: "EmitValueToAlignment a S = S\<lparr>CurrentAlignmentToValue := a\<rparr>" using assms(2) by (auto simp: EmitValueToAlignment_def)
  have "ready (S\<lparr>CurrentAlignmentToValue := a\<rparr>)"
    using assms(1,2) True by (auto simp: ready_def text_ok_def getCurrentSection_def split: if_splits)
  from data_written [OF this, where ds = "[D_Bytes d]" and E = E] obtain S' S'' t k where
      "EmitBytes E d (EmitValueToAlignment a S) = Inr S'" "flushValues E S' = Inr S''" "OS S'' = OS S @ t"
      "read_data t = ValueBuffer S @ d @ replicate k 0" "k < a"
    unfolding S by (auto simp: bind_result_Inr_iff)
  then show ?thesis using True by auto
next
  case False
  let ?S = "S\<lparr>CurrentAlignmentToValue := a\<rparr>" and ?T = "S\<lparr>CurrentAlignmentToValue := a, ValueBuffer := ValueBuffer S @ d\<rparr>"
  have "EmitValueToAlignment a S = ?S" using assms(2) by (auto simp: EmitValueToAlignment_def)
  moreover have "EmitBytes E d ?S = Inr ?T"
  proof -
    have "getCurrentSection ?S = getCurrentSection S" by (simp add: getCurrentSection_def)
    then have "fst (getCurrentSection ?S) \<noteq> None" using assms(1) by (simp add: ready_def)
    moreover have "CurrentAlignmentToValue ?S \<le> length (ValueBuffer ?S)" "0 < length (ValueBuffer ?S)"
      using assms(2) False by auto
    ultimately show ?thesis using EmitBytes_stuck [of ?S E d] by simp
  qed
  moreover have "flushValues E ?T = Inl Unreachable \<longleftrightarrow> a < length (ValueBuffer S) + length d"
  proof (cases "a < length (ValueBuffer S) + length d")
    case True
    then show ?thesis using flushValues_stuck [of ?T E] assms(3) by simp
  next
    case not_more: False
    then have "length (ValueBuffer ?T) = CurrentAlignmentToValue ?T" using False by simp
    then show ?thesis using flushValues_full [of ?T E] not_more by simp
  qed
  ultimately show ?thesis using False by simp
qed

text \<open>
  A symbol can be a datum only where its size is the current alignment and no bytes wait; elsewhere the
  streamer stops, since it cannot split the address.
\<close>

theorem EmitSymbolValue_aligned:
  assumes "EmitSymbolValue E x Size S = Inr S'"
  shows "CurrentAlignmentToValue S = Size \<and> ValueBuffer S = [] \<and> Size \<in> {1, 2, 4}"
  using assms by (auto simp: EmitSymbolValue_def EmitValueImpl_def EmitValueWithAlignment_def data_directive_def
      evaluateAsAbsolute_def no_assembler_def isAbsolute_def split: if_splits)

lemma EmitSymbolValue_sample:
  "EmitSymbolValue sample_env ''x'' 4 sample_streamer = Inr (put (''lifem x'' @ [CHR 0x0A]) sample_streamer)"
  by code_simp

theorem EmitSymbolValue_aligned_witness:
  "CurrentAlignmentToValue sample_streamer = 4 \<and> ValueBuffer sample_streamer = [] \<and> 4 \<in> {1::nat, 2, 4}"
  by (rule EmitSymbolValue_aligned [OF EmitSymbolValue_sample])

section \<open>Symbols that are declared\<close>

lemma EmitEOL_symbols:
  assumes "EmitEOL S = Inr S'"
  shows "Symbols S' = Symbols S \<and> Registered S' = Registered S \<and> Defined S' = Defined S"
proof -
  have "Symbols (emit_comment_lines c T) = Symbols T \<and> Registered (emit_comment_lines c T) = Registered T \<and>
      Defined (emit_comment_lines c T) = Defined T" for c T
  proof (induction c T rule: emit_comment_lines.induct)
    case (1 c T)
    then show ?case by (subst (1 2 3) emit_comment_lines.simps) (auto simp: Let_def PadToColumn_def)
  qed
  then show ?thesis using assms
    by (auto simp: EmitEOL_def EmitCommentsAndEOL_def emitExplicitComments_def put_def Let_def split: if_splits)
qed

text \<open>The symbols of the expression operands of an instruction.\<close>

definition instruction_symbols :: "mc_inst \<Rightarrow> string set" where
  "instruction_symbols Inst = (\<Union>e\<in>{e. MC_Expr e \<in> set (mc_operand_list Inst)}. expr_symbols e)"

lemma visitUsedExpr_registered:
  "set (Registered (visitUsedExpr e S)) = set (Registered S) \<union> expr_symbols e \<and>
   set (Symbols (visitUsedExpr e S)) = set (Symbols S) \<union> (expr_symbols e - set (Registered S))"
  by (induction e arbitrary: S) (auto simp: visitUsedSymbol_def)

lemma scan_values_registered:
  "set (Registered (scan_values Inst S)) = set (Registered S) \<union> instruction_symbols Inst \<and>
   set (Symbols (scan_values Inst S)) = set (Symbols S) \<union> (instruction_symbols Inst - set (Registered S))"
proof -
  have "set (Registered (fold (\<lambda>Op S. case Op of MC_Expr e \<Rightarrow> visitUsedExpr e S | _ \<Rightarrow> S) ops S)) =
      set (Registered S) \<union> (\<Union>e\<in>{e. MC_Expr e \<in> set ops}. expr_symbols e) \<and>
    set (Symbols (fold (\<lambda>Op S. case Op of MC_Expr e \<Rightarrow> visitUsedExpr e S | _ \<Rightarrow> S) ops S)) =
      set (Symbols S) \<union> ((\<Union>e\<in>{e. MC_Expr e \<in> set ops}. expr_symbols e) - set (Registered S))" for ops
  proof (induction ops arbitrary: S)
    case (Cons Op ops)
    then show ?case by (cases Op) (auto simp: visitUsedExpr_registered)
  qed simp
  then show ?thesis by (simp add: scan_values_def instruction_symbols_def)
qed


text \<open>
  What is declared: the symbols in the operands of an instruction are registered, and put on the list unless they were
  registered before; a symbol that is a datum is neither.
\<close>

theorem registered_symbols:
  assumes "EmitInstruction print dump SI Inst Sched S = Inr S1" "EmitSymbolValue E x Size S = Inr S2"
  shows "set (Registered S1) = set (Registered S) \<union> instruction_symbols Inst \<and>
    set (Symbols S1) = set (Symbols S) \<union> (instruction_symbols Inst - set (Registered S)) \<and>
    Registered S2 = Registered S \<and> Symbols S2 = Symbols S"
proof -
  have label: "Symbols (flushLabel b S) = Symbols S" "Registered (flushLabel b S) = Registered S" for b S
    by (simp_all add: flushLabel_def put_def Let_def)
  have comment: "Symbols (write_comment T S) = Symbols S" "Registered (write_comment T S) = Registered S" for T S
    by (simp_all add: write_comment_def)
  have "Symbols S1 = Symbols (scan_values Inst S) \<and> Registered S1 = Registered (scan_values Inst S)"
    using assms(1) unfolding EmitInstruction_def Let_def
    by (auto simp: bind_result_Inr_iff label comment split: if_splits dest!: EmitEOL_symbols)
  moreover have "Symbols S2 = Symbols S \<and> Registered S2 = Registered S"
    using assms(2) by (auto simp: EmitSymbolValue_def EmitValueImpl_def EmitValueWithAlignment_def evaluateAsAbsolute_def
        no_assembler_def isAbsolute_def label split: if_splits option.splits dest!: EmitEOL_symbols)
  ultimately show ?thesis using scan_values_registered by simp
qed

definition sample_inst :: mc_inst where
  "sample_inst = \<lparr>mc_opcode = KRZri, mc_operand_list = [MC_Reg F0, MC_Expr (SymbolRefExpr (''y'', VK_None))]\<rparr>"

lemma EmitInstruction_sample:
  "EmitInstruction (\<lambda>_. Inr (CHR 0x09 # ''krz f0 y'')) [] [] sample_inst False sample_streamer =
   Inr (sample_streamer\<lparr>OS := ''krz f0 y'' @ [CHR 0x0A], Symbols := [''y''], Registered := [''y'']\<rparr>)"
  by code_simp

theorem registered_symbols_witness:
  "set (Registered (sample_streamer\<lparr>OS := ''krz f0 y'' @ [CHR 0x0A], Symbols := [''y''], Registered := [''y'']\<rparr>)) =
     set (Registered sample_streamer) \<union> instruction_symbols sample_inst \<and>
   set (Symbols (sample_streamer\<lparr>OS := ''krz f0 y'' @ [CHR 0x0A], Symbols := [''y''], Registered := [''y'']\<rparr>)) =
     set (Symbols sample_streamer) \<union> (instruction_symbols sample_inst - set (Registered sample_streamer)) \<and>
   Registered (put (''lifem x'' @ [CHR 0x0A]) sample_streamer) = Registered sample_streamer \<and>
   Symbols (put (''lifem x'' @ [CHR 0x0A]) sample_streamer) = Symbols sample_streamer"
  by (rule registered_symbols [OF EmitInstruction_sample EmitSymbolValue_sample])

lemma xok_lines:
  assumes "\<not> IsVerboseAsm S" "ExplicitCommentToEmit S = []"
  shows "fold_result (\<lambda>x S. if x \<notin> set (Defined S) then EmitEOL (put (''xok '' @ print_symbol x) S) else Inr S) xs S =
    Inr (put (concat (map (\<lambda>x. ''xok '' @ print_symbol x @ [CHR 0x0A]) (filter (\<lambda>x. x \<notin> set (Defined S)) xs))) S)"
  using assms
proof (induction xs arbitrary: S)
  case Nil
  then show ?case by (simp add: put_def)
next
  case (Cons x xs)
  have "EmitEOL (put s S) = Inr (put (s @ [CHR 0x0A]) S)" for s
    using Cons.prems by (simp add: EmitEOL_def emitExplicitComments_def put_def Let_def)
  then show ?case using Cons by simp
qed

text \<open>
  The end of the file: the waiting label, on a \<open>fen\<close>, and then a line for every listed symbol that is not defined,
  in the order of their first use. No end of line separates the label from the first of these lines.
\<close>

theorem FinishImpl_text:
  assumes "\<not> IsVerboseAsm S" "ExplicitCommentToEmit S = []" "ValueBuffer S = []"
  shows "FinishImpl E S = Inr S' \<longleftrightarrow> S' = S\<lparr>OS := OS S @ (if LabelToEmit S = [] then [] else ''fen'' @ LabelToEmit S) @
      concat (map (\<lambda>x. ''xok '' @ print_symbol x @ [CHR 0x0A]) (filter (\<lambda>x. x \<notin> set (Defined S)) (Symbols S))),
    LabelToEmit := [], CurrentAlignmentToValue := 1\<rparr>"
proof -
  let ?T = "flushLabel True (S\<lparr>CurrentAlignmentToValue := 1\<rparr>)"
  have "FinishImpl E S = Inr (put (concat (map (\<lambda>x. ''xok '' @ print_symbol x @ [CHR 0x0A]) (filter (\<lambda>x. x \<notin> set (Defined ?T)) (Symbols ?T)))) ?T)"
    unfolding FinishImpl_def using assms by (simp add: flushValues_def xok_lines flushLabel_def put_def Let_def)
  then show ?thesis by (auto simp: flushLabel_def put_def Let_def)
qed

theorem FinishImpl_text_witness:
  "FinishImpl sample_env (sample_streamer\<lparr>LabelToEmit := '' l' a'', Symbols := [''b'']\<rparr>) =
   Inr (sample_streamer\<lparr>OS := ''fen l' axok b'' @ [CHR 0x0A], Symbols := [''b''], CurrentAlignmentToValue := 1\<rparr>)"
proof -
  have "print_symbol ''b'' = ''b''" by code_simp
  then show ?thesis by (subst FinishImpl_text) (simp_all add: sample_streamer_def new_streamer_def)
qed

section \<open>The invariant of the streamer\<close>

definition streamer_inv :: "streamer \<Rightarrow> bool" where
  "streamer_inv S = (text_ok S \<and> CurrentAlignmentToValue S \<in> {1, 2, 4} \<and> length (ValueBuffer S) < CurrentAlignmentToValue S \<and>
     distinct (Symbols S) \<and> set (Symbols S) \<subseteq> set (Registered S) \<and> SectionStack S \<noteq> [])"

datatype stream_op =
    S_Comment string bool | S_ExplicitComment string | S_RawComment string | S_BlankLine
  | S_Label string | S_Instruction "mc_inst \<Rightarrow> string result" string string mc_inst bool | S_RawText string
  | S_Attribute string mc_symbol_attr | S_Bytes "8 word list" | S_Int "64 word" nat | S_Symbol string nat
  | S_Alignment nat | S_Section nat "nat option" | S_PushSection | S_PopSection | S_Finish | S_Reset

fun run_stream_op :: "stream_env \<Rightarrow> stream_op \<Rightarrow> streamer \<Rightarrow> streamer result" where
  "run_stream_op E (S_Comment T EOL) S = Inr (AddComment T EOL S)"
| "run_stream_op E (S_ExplicitComment T) S = addExplicitComment T S"
| "run_stream_op E (S_RawComment T) S = emitRawComment T S"
| "run_stream_op E S_BlankLine S = AddBlankLine S"
| "run_stream_op E (S_Label x) S = EmitLabel x S"
| "run_stream_op E (S_Instruction print dump SI Inst Sched) S = EmitInstruction print dump SI Inst Sched S"
| "run_stream_op E (S_RawText T) S = EmitRawTextImpl T S"
| "run_stream_op E (S_Attribute x A) S = map_sum id snd (EmitSymbolAttribute x A S)"
| "run_stream_op E (S_Bytes d) S = EmitBytes E d S"
| "run_stream_op E (S_Int v Size) S = EmitIntValue E v Size S"
| "run_stream_op E (S_Symbol x Size) S = EmitSymbolValue E x Size S"
| "run_stream_op E (S_Alignment a) S = Inr (EmitValueToAlignment a S)"
| "run_stream_op E (S_Section s sub) S = SwitchSection E s sub S"
| "run_stream_op E S_PushSection S = Inr (PushSection S)"
| "run_stream_op E S_PopSection S = map_sum id snd (PopSection E S)"
| "run_stream_op E S_Finish S = FinishImpl E S"
| "run_stream_op E S_Reset S = Inr (reset S)"

text \<open>Comments are ended, explicit comments are one line, and the alignment is set when no bytes wait.\<close>

fun stream_op_ok :: "stream_op \<Rightarrow> streamer \<Rightarrow> bool" where
  "stream_op_ok (S_Comment T EOL) S = (EOL \<or> T \<noteq> [] \<and> last T = CHR 0x0A)"
| "stream_op_ok (S_ExplicitComment T) S = (CHR 0x0A \<notin> set (butlast T))"
| "stream_op_ok (S_Alignment a) S = (ValueBuffer S = [])"
| "stream_op_ok _ S = True"

lemma print_symbol_newline: "CHR 0x0A \<notin> set (print_symbol x)"
  using print_symbol_facts [of x] by (auto simp: isAcceptableChar_def)

lemma text_ok_updates [simp]:
  "text_ok (S\<lparr>OS := t\<rparr>) = text_ok S" "text_ok (S\<lparr>Symbols := xs\<rparr>) = text_ok S"
  "text_ok (S\<lparr>Registered := xs\<rparr>) = text_ok S" "text_ok (S\<lparr>Defined := xs\<rparr>) = text_ok S"
  "text_ok (S\<lparr>SectionStack := st\<rparr>) = text_ok S"
  "text_ok (S\<lparr>CurrentAlignmentToValue := a\<rparr>) = text_ok S" "text_ok (S\<lparr>ValueBuffer := bs\<rparr>) = text_ok S"
  by (simp_all add: text_ok_def)

lemma text_ok_clear [simp]:
  "text_ok S \<Longrightarrow> text_ok (S\<lparr>LabelToEmit := []\<rparr>)" "text_ok S \<Longrightarrow> text_ok (S\<lparr>ExplicitCommentToEmit := []\<rparr>)"
  "text_ok S \<Longrightarrow> text_ok (S\<lparr>CommentToEmit := []\<rparr>)"
  "text_ok S \<Longrightarrow> (c = [] \<or> IsVerboseAsm S \<and> last c = CHR 0x0A) \<Longrightarrow> text_ok (S\<lparr>CommentToEmit := c\<rparr>)"
  by (auto simp: text_ok_def)

lemma streamer_inv_text_ok: "streamer_inv S \<Longrightarrow> text_ok S"
  by (simp add: streamer_inv_def)

lemma put_inv [simp]: "streamer_inv (put s S) = streamer_inv S" "text_ok (put s S) = text_ok S"
  by (simp_all add: streamer_inv_def put_def)

lemma flushLabel_inv [simp]:
  "streamer_inv S \<Longrightarrow> streamer_inv (flushLabel b S)" "text_ok S \<Longrightarrow> text_ok (flushLabel b S)"
  by (simp_all add: streamer_inv_def flushLabel_def put_def Let_def)

lemma EmitEOL_shape:
  assumes "text_ok S" "EmitEOL S = Inr S'"
  obtains t where "S' = S\<lparr>OS := t, ExplicitCommentToEmit := [], CommentToEmit := []\<rparr>"
  using EmitEOL_text [OF assms(1)] assms(2) by (metis sum.inject(2))

lemma put_shape: "put s S = S\<lparr>OS := OS S @ s\<rparr>"
  by (simp add: put_def)

lemma EmitEOL_inv:
  assumes "streamer_inv S" "EmitEOL S = Inr S'"
  shows "streamer_inv S'"
proof -
  obtain t where "S' = S\<lparr>OS := t, ExplicitCommentToEmit := [], CommentToEmit := []\<rparr>"
    using EmitEOL_shape [OF streamer_inv_text_ok [OF assms(1)] assms(2)] .
  then show ?thesis using assms(1) by (simp add: streamer_inv_def)
qed

lemma EmitValueWithAlignment_shape:
  assumes "text_ok S" "EmitValueWithAlignment E v Size S = Inr S'"
  obtains t where "S' = S\<lparr>OS := t, LabelToEmit := [], ExplicitCommentToEmit := [], CommentToEmit := []\<rparr>"
proof -
  obtain d where "EmitEOL (flushLabel False (put d S)) = Inr S'"
    using assms(2) by (auto simp: EmitValueWithAlignment_def split: option.splits)
  then obtain t where "S' = (flushLabel False (put d S))\<lparr>OS := t, ExplicitCommentToEmit := [], CommentToEmit := []\<rparr>"
    using assms(1) by (elim EmitEOL_shape [rotated]) simp_all
  then show thesis using that [of t] by (simp add: flushLabel_def put_def Let_def)
qed

lemma push_value_byte_inv:
  assumes "streamer_inv S" "push_value_byte E b S = Inr S'"
  shows "streamer_inv S'"
proof (cases "Suc (length (ValueBuffer S)) = CurrentAlignmentToValue S")
  case False
  then have "S' = S\<lparr>ValueBuffer := ValueBuffer S @ [b]\<rparr>" using assms(2) by (simp add: push_value_byte_def)
  then show ?thesis using assms(1) False by (simp add: streamer_inv_def) linarith
next
  case True
  let ?S = "S\<lparr>ValueBuffer := ValueBuffer S @ [b]\<rparr>"
  have "text_ok ?S" using assms(1) by (simp add: streamer_inv_def)
  moreover obtain T where T: "EmitValueWithAlignment E (ConstantExpr (value_of_bytes (ValueBuffer S @ [b]))) (CurrentAlignmentToValue S) ?S = Inr T"
    "S' = T\<lparr>ValueBuffer := []\<rparr>"
    using assms(2) True by (auto simp: push_value_byte_def map_sum_Inr_iff)
  ultimately show ?thesis using assms(1)
    by (elim EmitValueWithAlignment_shape) (auto simp: streamer_inv_def)
qed

lemma EmitValueImpl_inv:
  assumes "streamer_inv S" "EmitValueImpl E v Size S = Inr S'"
  shows "streamer_inv S'"
proof (cases "CurrentAlignmentToValue S = Size \<and> ValueBuffer S = []")
  case True
  then have "EmitValueWithAlignment E v Size S = Inr S'" using assms(2) by (auto simp: EmitValueImpl_def split: if_splits)
  then show ?thesis
    by (rule EmitValueWithAlignment_shape [OF streamer_inv_text_ok [OF assms(1)]]) (use assms(1) in \<open>simp add: streamer_inv_def\<close>)
next
  case False
  then obtain bs where "fold_result (push_value_byte E) bs S = Inr S'"
    using assms(2) by (auto simp: EmitValueImpl_def split: if_splits option.splits sum.splits bool.splits)
  then show ?thesis by (rule fold_result_invariant [where I = streamer_inv, OF _ assms(1)]) (rule push_value_byte_inv)
qed

lemma flushValues_inv:
  assumes "streamer_inv S" "flushValues E S = Inr S'"
  shows "streamer_inv S'"
proof (cases "ValueBuffer S = []")
  case True
  then show ?thesis using assms by (auto simp: flushValues_def Let_def streamer_inv_def)
next
  case False
  then obtain v Size T where "EmitValueWithAlignment E v Size S = Inr T" "S' = T\<lparr>ValueBuffer := [], CurrentAlignmentToValue := 1\<rparr>"
    using assms(2) by (auto simp: flushValues_def Let_def bind_result_Inr_iff map_sum_Inr_iff split: if_splits)
  then show ?thesis using assms(1)
    by (elim EmitValueWithAlignment_shape [rotated]) (auto simp: streamer_inv_def)
qed

lemma flushValues_stack:
  assumes "text_ok S" "flushValues E S = Inr S'"
  shows "SectionStack S' = SectionStack S"
proof (cases "ValueBuffer S = []")
  case True
  then show ?thesis using assms by (auto simp: flushValues_def Let_def)
next
  case False
  then obtain v Size T where "EmitValueWithAlignment E v Size S = Inr T" "S' = T\<lparr>ValueBuffer := [], CurrentAlignmentToValue := 1\<rparr>"
    using assms(2) by (auto simp: flushValues_def Let_def bind_result_Inr_iff map_sum_Inr_iff split: if_splits)
  then show ?thesis using assms(1) by (elim EmitValueWithAlignment_shape [rotated]) simp_all
qed

lemma visitUsedSymbol_inv: "streamer_inv S \<Longrightarrow> streamer_inv (visitUsedSymbol x S)"
  by (auto simp: visitUsedSymbol_def streamer_inv_def)

lemma visitUsedExpr_inv: "streamer_inv S \<Longrightarrow> streamer_inv (visitUsedExpr e S)"
  by (induction e arbitrary: S) (simp_all add: visitUsedSymbol_inv)

lemma EmitLabel_inv:
  assumes "streamer_inv S" "EmitLabel x S = Inr S'"
  shows "streamer_inv S'"
proof -
  obtain T where T: "base_EmitLabel x S = Inr T"
    "S' = (visitUsedSymbol x T)\<lparr>LabelToEmit := LabelToEmit (visitUsedSymbol x T) @ '' l'' @ [CHR 0x27] @ '' '' @ print_symbol x\<rparr>"
    using assms(2) by (auto simp: EmitLabel_def bind_result_Inr_iff Let_def split: if_splits)
  have "streamer_inv T" using T(1) assms(1) by (auto simp: base_EmitLabel_def streamer_inv_def split: if_splits)
  then have "streamer_inv (visitUsedSymbol x T)" by (rule visitUsedSymbol_inv)
  moreover have "text_ok ((visitUsedSymbol x T)\<lparr>LabelToEmit := LabelToEmit (visitUsedSymbol x T) @ '' l'' @ [CHR 0x27] @ '' '' @ print_symbol x\<rparr>)"
    using print_symbol_newline [of x] streamer_inv_text_ok [OF calculation] by (auto simp: text_ok_def hd_append)
  ultimately show ?thesis by (simp add: T(2) streamer_inv_def)
qed

lemma SwitchSection_inv:
  assumes "streamer_inv S" "SwitchSection E sec sub S = Inr S'"
  shows "streamer_inv S'"
proof -
  have prev: "streamer_inv (set_previous S)" using assms(1) by (simp add: set_previous_def streamer_inv_def)
  show ?thesis
  proof (cases "(Some sec, sub) = getCurrentSection S")
    case True
    then show ?thesis using assms(2) prev by (simp add: SwitchSection_def Let_def)
  next
    case False
    then obtain T where "ChangeSection E (Some sec, sub) (set_previous S) = Inr T"
      and S': "EmitLabel (the (begin_symbol E sec)) (set_current (Some sec, sub) T) = Inr S' \<or> S' = set_current (Some sec, sub) T"
      using assms(2) unfolding SwitchSection_def Let_def if_not_P [OF False] bind_result_Inr_iff by (auto split: if_split_asm option.split_asm)
    then have "streamer_inv T" using flushValues_inv [OF prev] by (simp add: ChangeSection_def)
    then have "streamer_inv (set_current (Some sec, sub) T)" by (simp add: set_current_def streamer_inv_def)
    then show ?thesis using S' EmitLabel_inv by blast
  qed
qed

definition but_comments :: "streamer \<Rightarrow> streamer \<Rightarrow> bool" where
  "but_comments T U = (\<exists>t l c. U = T\<lparr>OS := t, LabelToEmit := l, CommentToEmit := c\<rparr> \<and>
     (l = LabelToEmit T \<or> l = []) \<and> (IsVerboseAsm T \<or> c = CommentToEmit T))"

lemma but_comments_refl: "but_comments T T"
  unfolding but_comments_def by (intro exI [of _ "OS T"] exI [of _ "LabelToEmit T"] exI [of _ "CommentToEmit T"]) simp

lemma but_comments_steps:
  assumes "but_comments T U"
  shows "but_comments T (write_comment c U)" "but_comments T (flushLabel b U)" "but_comments T (put s U)"
proof -
  obtain t l d where U: "U = T\<lparr>OS := t, LabelToEmit := l, CommentToEmit := d\<rparr>" "l = LabelToEmit T \<or> l = []"
    "IsVerboseAsm T \<or> d = CommentToEmit T" using assms by (auto simp: but_comments_def)
  define e where "e = (if IsVerboseAsm T then d @ c else d)"
  have "write_comment c U = T\<lparr>OS := t, LabelToEmit := l, CommentToEmit := e\<rparr>" "IsVerboseAsm T \<or> e = CommentToEmit T"
    using U(3) by (auto simp: write_comment_def U(1) e_def)
  then show "but_comments T (write_comment c U)" unfolding but_comments_def using U(2) by blast
  have "put s U = T\<lparr>OS := t @ s, LabelToEmit := l, CommentToEmit := d\<rparr>" for s by (simp add: put_def U(1))
  then show "but_comments T (put s U)" unfolding but_comments_def using U(2,3) by blast
  have "flushLabel b U = T\<lparr>OS := OS (flushLabel b U), LabelToEmit := [], CommentToEmit := d\<rparr>"
    by (simp add: flushLabel_def put_def U(1) Let_def)
  then show "but_comments T (flushLabel b U)" unfolding but_comments_def using U(2,3) by blast
qed

lemma EmitEOL_after_comments:
  assumes "streamer_inv T" "but_comments T U"
    and "EmitEOL (if CommentToEmit U \<noteq> [] \<and> last (CommentToEmit U) \<noteq> CHR 0x0A then write_comment [CHR 0x0A] U else U) = Inr S'"
  shows "streamer_inv S'"
proof -
  define V where "V = (if CommentToEmit U \<noteq> [] \<and> last (CommentToEmit U) \<noteq> CHR 0x0A then write_comment [CHR 0x0A] U else U)"
  have bc: "but_comments T V" using assms(2) by (simp add: V_def but_comments_steps)
  obtain t l c where V: "V = T\<lparr>OS := t, LabelToEmit := l, CommentToEmit := c\<rparr>" "l = LabelToEmit T \<or> l = []"
    "IsVerboseAsm T \<or> c = CommentToEmit T" using bc by (auto simp: but_comments_def)
  have "IsVerboseAsm U = IsVerboseAsm T" using assms(2) by (auto simp: but_comments_def)
  then have "IsVerboseAsm T \<Longrightarrow> CommentToEmit V = [] \<or> last (CommentToEmit V) = CHR 0x0A" by (simp add: V_def write_comment_def)
  then have "c = [] \<or> IsVerboseAsm T \<and> last c = CHR 0x0A"
    using V(1,3) streamer_inv_text_ok [OF assms(1)] by (cases "IsVerboseAsm T") (simp_all add: text_ok_def)
  then have "text_ok (T\<lparr>CommentToEmit := c\<rparr>)" using streamer_inv_text_ok [OF assms(1)] by simp
  then have "streamer_inv V" using V(1,2) assms(1) by (auto simp: streamer_inv_def text_ok_def)
  then show ?thesis using assms(3) unfolding V_def by (rule EmitEOL_inv)
qed

lemma EmitInstruction_inv:
  assumes "streamer_inv S" "EmitInstruction print dump SI Inst Sched S = Inr S'"
  shows "streamer_inv S'"
proof -
  define T where "T = scan_values Inst S"
  have "streamer_inv (fold (\<lambda>Op S. case Op of MC_Expr e \<Rightarrow> visitUsedExpr e S | _ \<Rightarrow> S) ops S)" for ops
    using assms(1) by (induction ops arbitrary: S) (auto simp: visitUsedExpr_inv split: mc_operand.split)
  then have T: "streamer_inv T" by (simp add: T_def scan_values_def)
  define W where "W = (if ShowInst T
    then write_comment [CHR 0x0A] (write_comment dump (if Sched then write_comment [CHR 0x0A] T else T)) else T)"
  obtain b where "b \<noteq> []" and b: "print Inst = Inr b" using assms(2) by (auto simp: EmitInstruction_def Let_def bind_result_Inr_iff split: if_splits)
  define U where "U = (if Sched \<and> SI \<noteq> [] then write_comment SI (flushLabel False (put (drop 1 b) W)) else flushLabel False (put (drop 1 b) W))"
  have "but_comments T W" unfolding W_def by (simp add: but_comments_steps but_comments_refl)
  then have "but_comments T U" unfolding U_def by (simp add: but_comments_steps)
  moreover have "EmitEOL (if CommentToEmit U \<noteq> [] \<and> last (CommentToEmit U) \<noteq> CHR 0x0A then write_comment [CHR 0x0A] U else U) = Inr S'"
    using assms(2) \<open>b \<noteq> []\<close> unfolding EmitInstruction_def Let_def U_def W_def T_def b by simp
  ultimately show ?thesis by (rule EmitEOL_after_comments [OF T])
qed

lemma FinishImpl_inv:
  assumes "streamer_inv S" "FinishImpl E S = Inr S'"
  shows "streamer_inv S'"
proof -
  obtain T where T: "flushValues E S = Inr T"
    "fold_result (\<lambda>x S. if x \<notin> set (Defined S) then EmitEOL (put (''xok '' @ print_symbol x) S) else Inr S)
       (Symbols (flushLabel True T)) (flushLabel True T) = Inr S'"
    using assms(2) by (auto simp: FinishImpl_def bind_result_Inr_iff Let_def)
  show ?thesis
    by (rule fold_result_invariant [where I = streamer_inv, OF T(2)])
      (use flushValues_inv [OF assms(1) T(1)] in \<open>auto dest: EmitEOL_inv [rotated] split: if_splits\<close>)
qed

lemma AddComment_inv: "streamer_inv S \<Longrightarrow> EOL \<or> T \<noteq> [] \<and> last T = CHR 0x0A \<Longrightarrow> streamer_inv (AddComment T EOL S)"
  by (cases EOL) (simp_all add: AddComment_def streamer_inv_def)

lemma addExplicitComment_inv:
  assumes "streamer_inv S" "CHR 0x0A \<notin> set (butlast T)" "addExplicitComment T S = Inr S'"
  shows "streamer_inv S'"
proof -
  have T: "T \<noteq> []" "hd T = CHR '';''" using assms(3) by (simp_all add: addExplicitComment_def split: if_splits)
  define U where "U = S\<lparr>ExplicitCommentToEmit := ExplicitCommentToEmit S @ T\<rparr>"
  have S': "S' = (if last T = CHR 0x0A then emitExplicitComments U else U)"
    using assms(3) T by (auto simp: addExplicitComment_def U_def Let_def)
  show ?thesis
  proof (cases "last T = CHR 0x0A")
    case True
    then have "S' = S\<lparr>OS := OS S @ ExplicitCommentToEmit S @ T, ExplicitCommentToEmit := []\<rparr>"
      by (simp add: S' U_def emitExplicitComments_def put_def)
    then show ?thesis using assms(1) by (simp add: streamer_inv_def)
  next
    case False
    then have "CHR 0x0A \<notin> set T" using assms(2) append_butlast_last_id [OF T(1)] by (metis Un_iff empty_iff empty_set insert_iff list.simps(15) set_append)
    then have "text_ok U" using streamer_inv_text_ok [OF assms(1)] T by (auto simp: U_def text_ok_def hd_append)
    then show ?thesis using assms(1) False by (simp add: S' streamer_inv_def U_def)
  qed
qed

lemma EmitValueToAlignment_inv: "streamer_inv S \<Longrightarrow> ValueBuffer S = [] \<Longrightarrow> streamer_inv (EmitValueToAlignment a S)"
  by (simp add: EmitValueToAlignment_def streamer_inv_def)

lemma PushSection_inv: "streamer_inv S \<Longrightarrow> streamer_inv (PushSection S)"
  by (simp add: PushSection_def streamer_inv_def)

lemma PopSection_inv:
  assumes "streamer_inv S" "PopSection E S = Inr (b, S')"
  shows "streamer_inv S'"
proof (cases "length (SectionStack S) \<le> 1")
  case True
  then show ?thesis using assms by (simp add: PopSection_def)
next
  case False
  then obtain T where T: "(if fst (last (SectionStack S)) \<noteq> fst (last (butlast (SectionStack S)))
      then ChangeSection E (fst (last (butlast (SectionStack S)))) S else Inr S) = Inr T" "S' = T\<lparr>SectionStack := butlast (SectionStack T)\<rparr>"
    using assms(2) by (auto simp: PopSection_def Let_def bind_result_Inr_iff)
  have "streamer_inv T \<and> SectionStack T = SectionStack S"
    using T(1) assms(1) flushValues_inv flushValues_stack [OF streamer_inv_text_ok [OF assms(1)]]
    by (auto simp: ChangeSection_def split: if_splits)
  moreover have "butlast (SectionStack S) \<noteq> []" using False by (cases "SectionStack S" rule: rev_cases) auto
  ultimately show ?thesis by (simp add: T(2) streamer_inv_def)
qed

lemma reset_inv: "streamer_inv (reset S)"
  by (simp add: reset_def streamer_inv_def text_ok_def)

lemma EmitSymbolAttribute_inv:
  assumes "streamer_inv S" "EmitSymbolAttribute x A S = Inr (b, S')"
  shows "streamer_inv S'"
proof (cases A)
  case MCSA_Global
  then show ?thesis using assms visitUsedSymbol_inv [OF assms(1), of x]
    by (auto simp: EmitSymbolAttribute_def map_sum_Inr_iff intro: EmitEOL_inv [rotated])
next
  case (MCSA_Other n)
  then show ?thesis using assms by (auto simp: EmitSymbolAttribute_def visitUsedSymbol_inv)
qed

lemma EmitBytes_inv:
  assumes "streamer_inv S" "EmitBytes E d S = Inr S'"
  shows "streamer_inv S'"
  using assms(2) unfolding EmitBytes_def
  by (rule fold_result_invariant [where I = streamer_inv, OF _ assms(1)]) (rule EmitValueImpl_inv)

lemma line_inv: "streamer_inv S \<Longrightarrow> EmitEOL (put s S) = Inr S' \<Longrightarrow> streamer_inv S'"
  by (rule EmitEOL_inv [of "put s S"]) simp_all

lemmas stream_op_invs = AddComment_inv addExplicitComment_inv EmitValueToAlignment_inv PushSection_inv
  EmitEOL_inv line_inv EmitLabel_inv EmitInstruction_inv EmitValueImpl_inv EmitBytes_inv SwitchSection_inv FinishImpl_inv

text \<open>
  Every operation that returns keeps the invariant of the streamer: fewer bytes wait than the alignment, which has
  a directive; the waiting labels and explicit comments are on one line, so that they cannot hide a directive, and
  the waiting comments end with an end of line; the list of symbols has no symbol twice, and only registered ones.
\<close>

theorem run_stream_op_inv:
  assumes "run_stream_op E op S = Inr S'" "streamer_inv S" "stream_op_ok op S"
  shows "streamer_inv S'"
proof (cases op)
  case (S_Attribute x A)
  then show ?thesis using assms EmitSymbolAttribute_inv by (auto simp: map_sum_Inr_iff)
next
  case S_PopSection
  then show ?thesis using assms PopSection_inv by (auto simp: map_sum_Inr_iff)
next
  case (S_Comment T EOL)
  then show ?thesis using assms by (cases EOL) (auto intro: AddComment_inv)
qed (use assms in \<open>auto simp: emitRawComment_def AddBlankLine_def EmitRawTextImpl_def EmitIntValue_def EmitSymbolValue_def
     intro: stream_op_invs [rotated] stream_op_invs reset_inv\<close>)

lemma sample_inv: "streamer_inv sample_streamer"
  by (simp add: streamer_inv_def text_ok_def sample_streamer_def new_streamer_def)

theorem run_stream_op_inv_witness:
  "streamer_inv (sample_streamer\<lparr>OS := ''krz f0 y'' @ [CHR 0x0A], Symbols := [''y''], Registered := [''y'']\<rparr>)"
  by (rule run_stream_op_inv [where op = "S_Instruction (\<lambda>_. Inr (CHR 0x09 # ''krz f0 y'')) [] [] sample_inst False" and E = sample_env and S = sample_streamer])
    (simp_all add: EmitInstruction_sample sample_inv)

text \<open>Two bytes wait for the alignment 4: after the change to 2 they and the next byte are lost.\<close>

theorem alignment_change_loses_bytes_witness:
  "EmitBytes sample_env [7] (EmitValueToAlignment 2 (sample_streamer\<lparr>ValueBuffer := [1, 2]\<rparr>)) =
     Inr (sample_streamer\<lparr>ValueBuffer := [1, 2], CurrentAlignmentToValue := 2, ValueBuffer := [1, 2] @ [7]\<rparr>) \<and>
   flushValues sample_env (sample_streamer\<lparr>ValueBuffer := [1, 2], CurrentAlignmentToValue := 2, ValueBuffer := [1, 2] @ [7]\<rparr>) =
     Inl Unreachable"
proof -
  have "ready (sample_streamer\<lparr>ValueBuffer := [1, 2]\<rparr>)"
    by (simp add: ready_def text_ok_def sample_streamer_def new_streamer_def getCurrentSection_def)
  from alignment_change_loses_bytes [OF this, where a = 2 and d = "[7]" and E = sample_env] show ?thesis by simp
qed

end
