(* ===== verification/Mangle.thy ===== *)
theory Mangle
  imports SymbolNames
begin

text \<open>
  The names of symbols: \<open>lib/IR/Mangler.cpp\<close> with the mangling modes of \<open>include/llvm/IR/DataLayout.h\<close>, and the labels the
  code generator makes for blocks, constant pool entries and jump tables. The target's data layout string names no
  mangling, so its mode is \<open>MM_None\<close>, and its assembler has an empty prefix for private labels.
\<close>

section \<open>Mangling modes\<close>

datatype mangling_mode = MM_None | MM_ELF | MM_MachO | MM_WinCOFF | MM_WinCOFFX86 | MM_Mips

definition hasMicrosoftFastStdCallMangling :: "mangling_mode \<Rightarrow> bool" where
  "hasMicrosoftFastStdCallMangling m = (m = MM_WinCOFFX86)"

definition getLinkerPrivateGlobalPrefix :: "mangling_mode \<Rightarrow> string" where
  "getLinkerPrivateGlobalPrefix m = (if m = MM_MachO then ''l'' else [])"

text \<open>\<open>None\<close> is the character 0, no prefix.\<close>

definition getGlobalPrefix :: "mangling_mode \<Rightarrow> char option" where
  "getGlobalPrefix m = (case m of MM_MachO \<Rightarrow> Some CHR ''_'' | MM_WinCOFFX86 \<Rightarrow> Some CHR ''_'' | _ \<Rightarrow> None)"

definition getPrivateGlobalPrefix :: "mangling_mode \<Rightarrow> string" where
  "getPrivateGlobalPrefix m = (case m of MM_None \<Rightarrow> [] | MM_ELF \<Rightarrow> ''.L'' | MM_WinCOFF \<Rightarrow> ''.L'' | MM_Mips \<Rightarrow> ''$''
     | MM_MachO \<Rightarrow> ''L'' | MM_WinCOFFX86 \<Rightarrow> ''L'')"

section \<open>The names of globals\<close>

datatype mangler_prefix = PrefixDefault | PrefixPrivate | PrefixLinkerPrivate

definition getNameWithPrefixImpl :: "string \<Rightarrow> mangler_prefix \<Rightarrow> mangling_mode \<Rightarrow> char option \<Rightarrow> string result" where
  "getNameWithPrefixImpl Name PrefixTy m Prefix =
     (if Name = [] then Inl AssertFailed
      else if hd Name = CHR 0x01 then Inr (drop 1 Name)
      else Inr ((case PrefixTy of PrefixPrivate \<Rightarrow> getPrivateGlobalPrefix m | PrefixLinkerPrivate \<Rightarrow> getLinkerPrivateGlobalPrefix m
               | PrefixDefault \<Rightarrow> []) @
             (case Prefix of None \<Rightarrow> [] | Some c \<Rightarrow> [c]) @ Name))"

text \<open>\<open>Mangler::getNameWithPrefix\<close> of a name, used for external symbols.\<close>

definition getNameWithPrefix :: "string \<Rightarrow> mangling_mode \<Rightarrow> string result" where
  "getNameWithPrefix Name m = getNameWithPrefixImpl Name PrefixDefault m (getGlobalPrefix m)"

datatype call_conv = CC_C | CC_X86_FastCall | CC_X86_StdCall | CC_X86_VectorCall | CC_Other nat

definition hasByteCountSuffix :: "call_conv \<Rightarrow> bool" where
  "hasByteCountSuffix CC = (CC \<in> {CC_X86_FastCall, CC_X86_StdCall, CC_X86_VectorCall})"

text \<open>The size of an argument is the allocation size of its type, or of the type pointed to for by-value arguments.\<close>

record mangled_function =
  CallingConv :: call_conv
  arg_sizes :: "nat list"
  isVarArg :: bool
  hasStructRet :: bool

definition addByteCountSuffix :: "nat \<Rightarrow> mangled_function \<Rightarrow> string" where
  "addByteCountSuffix PtrSize F =
     ''@'' @ write_unsigned (foldl (\<lambda>ArgWords s. (ArgWords + (s + PtrSize - 1) div PtrSize * PtrSize) mod 2 ^ 32) 0 (arg_sizes F))"

text \<open>A global: its identity, its name if it has one, and its function if it is one.\<close>

record global_value =
  gv_id :: nat
  gv_name :: "string option"
  hasPrivateLinkage :: bool
  gv_function :: "mangled_function option"

definition starts_with_01 :: "string \<Rightarrow> bool" where
  "starts_with_01 s = (s \<noteq> [] \<and> hd s = CHR 0x01)"

text \<open>\<open>AnonGlobalIDs\<close> numbers the unnamed globals in the order they are met.\<close>

definition mangle_global :: "mangling_mode \<Rightarrow> nat \<Rightarrow> bool \<Rightarrow> global_value \<Rightarrow> (nat \<times> nat) list \<Rightarrow> (string \<times> (nat \<times> nat) list) result" where
  "mangle_global m PtrSize CannotUsePrivateLabel GV AnonGlobalIDs =
     (let PrefixTy = (if hasPrivateLinkage GV then if CannotUsePrivateLabel then PrefixLinkerPrivate else PrefixPrivate
                      else PrefixDefault)
      in case gv_name GV of
        None \<Rightarrow>
          (let IDs = (if map_of AnonGlobalIDs (gv_id GV) = None then (gv_id GV, length AnonGlobalIDs + 1) # AnonGlobalIDs else AnonGlobalIDs)
           in map_sum id (\<lambda>s. (s, IDs))
                (getNameWithPrefixImpl (''__unnamed_'' @ write_unsigned (the (map_of IDs (gv_id GV)))) PrefixTy m (getGlobalPrefix m)))
      | Some Name \<Rightarrow>
          (let MSFunc = (if starts_with_01 Name then None else gv_function GV);
               CC = (case MSFunc of Some F \<Rightarrow> CallingConv F | None \<Rightarrow> CC_C);
               MSFunc = (if \<not> hasMicrosoftFastStdCallMangling m \<and> CC \<noteq> CC_X86_VectorCall then None else MSFunc);
               Prefix = (if MSFunc = None then getGlobalPrefix m
                         else if CC = CC_X86_FastCall then Some CHR ''@''
                         else if CC = CC_X86_VectorCall then None else getGlobalPrefix m)
           in map_sum id (\<lambda>s. (s @ (case MSFunc of
                  None \<Rightarrow> []
                | Some F \<Rightarrow> (if CC = CC_X86_VectorCall then ''@'' else []) @
                    (if hasByteCountSuffix CC \<and>
                        (\<not> isVarArg F \<or> arg_sizes F = [] \<or> (length (arg_sizes F) = 1 \<and> hasStructRet F))
                     then addByteCountSuffix PtrSize F else [])), AnonGlobalIDs))
                (getNameWithPrefixImpl Name PrefixTy m Prefix)))"

section \<open>Labels of the code generator\<close>

definition mbb_symbol :: "string \<Rightarrow> nat \<Rightarrow> nat \<Rightarrow> string" where
  "mbb_symbol PrivateLabelPrefix FunctionNumber n =
     PrivateLabelPrefix @ ''BB'' @ write_unsigned FunctionNumber @ ''_'' @ write_unsigned n"

definition GetCPISymbol :: "mangling_mode \<Rightarrow> nat \<Rightarrow> nat \<Rightarrow> string" where
  "GetCPISymbol m FunctionNumber CPID =
     getPrivateGlobalPrefix m @ ''CPI'' @ write_unsigned FunctionNumber @ ''_'' @ write_unsigned CPID"

definition getJTISymbol :: "mangling_mode \<Rightarrow> bool \<Rightarrow> nat \<Rightarrow> nat \<Rightarrow> nat \<Rightarrow> string result" where
  "getJTISymbol m isLinkerPrivate tables FunctionNumber JTI =
     (if \<not> JTI < tables then Inl AssertFailed
      else Inr ((if isLinkerPrivate then getLinkerPrivateGlobalPrefix m else getPrivateGlobalPrefix m) @
             ''JTI'' @ write_unsigned FunctionNumber @ ''_'' @ write_unsigned JTI))"

section \<open>Distinct things have distinct names\<close>

lemma write_unsigned_chars: "c \<in> set (write_unsigned n) \<Longrightarrow> is_digit c"
  using format_to_buffer_value [of n] by (auto simp: write_unsigned_def is_numeral_def)

lemma write_unsigned_inj: "write_unsigned a = write_unsigned b \<longleftrightarrow> a = b"
  by (metis format_to_buffer_value write_unsigned_def)

lemma numbers_inj:
  "write_unsigned a @ CHR ''_'' # write_unsigned b = write_unsigned c @ CHR ''_'' # write_unsigned d \<longleftrightarrow> a = c \<and> b = d"
proof
  assume eq: "write_unsigned a @ CHR ''_'' # write_unsigned b = write_unsigned c @ CHR ''_'' # write_unsigned d"
  have tw: "takeWhile is_digit (write_unsigned n @ CHR ''_'' # s) = write_unsigned n" for n s
    using write_unsigned_chars [of _ n] by (simp add: takeWhile_append2) (simp add: is_digit_def)
  have "write_unsigned a = write_unsigned c" using arg_cong [OF eq, of "takeWhile is_digit"] by (simp only: tw)
  then show "a = c \<and> b = d" using eq by (simp add: write_unsigned_inj)
qed simp

datatype compiler_label = BlockLabel nat nat | PoolLabel nat nat | TableLabel nat nat

fun label_name :: "compiler_label \<Rightarrow> string" where
  "label_name (BlockLabel f n) = mbb_symbol [] f n"
| "label_name (PoolLabel f n) = GetCPISymbol MM_None f n"
| "label_name (TableLabel f n) = (case getJTISymbol MM_None False (Suc n) f n of Inr s \<Rightarrow> s | Inl _ \<Rightarrow> [])"

lemma label_names: "label_name l = (case l of BlockLabel f n \<Rightarrow> ''BB'' @ write_unsigned f @ CHR ''_'' # write_unsigned n
    | PoolLabel f n \<Rightarrow> ''CPI'' @ write_unsigned f @ CHR ''_'' # write_unsigned n
    | TableLabel f n \<Rightarrow> ''JTI'' @ write_unsigned f @ CHR ''_'' # write_unsigned n)"
  by (cases l) (simp_all add: mbb_symbol_def GetCPISymbol_def getJTISymbol_def getPrivateGlobalPrefix_def)

text \<open>
  C35. The labels of the code generator do not collide: the blocks, constant pool entries and jump tables of all functions
  have pairwise different names.
\<close>

theorem label_names_distinct: "label_name a = label_name b \<longleftrightarrow> a = b"
  by (cases a; cases b) (simp_all add: label_names numbers_inj)

text \<open>
  But they are names a program can use: since the target has no private prefix, a global whose name is that of a label
  is mangled to the name of the label.
\<close>

theorem label_names_not_private:
  assumes "gv_name GV = Some (label_name l)" "\<forall>F. gv_function GV = Some F \<longrightarrow> CallingConv F \<noteq> CC_X86_VectorCall"
  shows "mangle_global MM_None PtrSize P GV IDs = Inr (label_name l, IDs)"
proof -
  have "label_name l \<noteq> []" "hd (label_name l) \<noteq> CHR 0x01" by (cases l; simp add: label_names)+
  then show ?thesis using assms
    by (auto simp: mangle_global_def getNameWithPrefixImpl_def hasMicrosoftFastStdCallMangling_def starts_with_01_def
        getGlobalPrefix_def getPrivateGlobalPrefix_def getLinkerPrivateGlobalPrefix_def Let_def
        split: mangler_prefix.splits option.splits)
qed

theorem label_names_not_private_witness:
  "mangle_global MM_None 4 False \<lparr>gv_id = 7, gv_name = Some (label_name (BlockLabel 0 1)), hasPrivateLinkage = False, gv_function = None\<rparr> [] =
   Inr (label_name (BlockLabel 0 1), [])"
  by (rule label_names_not_private) simp_all

end
