(* ===== verification/AsmPrint.thy ===== *)
theory AsmPrint
  imports AsmStream Mangle
begin

text \<open>
  From machine instructions to text: the lowering of operands, \<open>lib/Target/F2003f/F2003fMCInstLower.cpp\<close>, the emission of
  bundles, \<open>F2003fAsmPrinter.cpp\<close>, and from \<open>lib/CodeGen/AsmPrinter/AsmPrinter.cpp\<close> the labels of blocks and the loop
  over the body of a function with the cases of its opcodes.
\<close>

section \<open>Lowering operands\<close>

text \<open>
  What the lowering asks of the printer and the function: the mangling mode, the number of the function, its number of
  jump tables, the symbols of globals and of block addresses, and the numbers of the opcodes, which are generated.
\<close>

record lower_env =
  ManglingMode :: mangling_mode
  FunctionNumber :: nat
  JumpTables :: nat
  global_symbol :: "string \<Rightarrow> string"
  block_address_symbol :: "string \<Rightarrow> string"
  opcode_number :: "opcode \<Rightarrow> int"

definition LowerSymbolOperand :: "bool \<Rightarrow> int \<Rightarrow> nat \<Rightarrow> string \<Rightarrow> mc_operand result" where
  "LowerSymbolOperand isJTI Offs TargetFlags Sym =
     (let Expr = SymbolRefExpr (Sym, VK_None) in
      if TargetFlags \<noteq> 0 then Inl Unreachable
      else Inr (MC_Expr (if \<not> isJTI \<and> Offs \<noteq> 0 then BinaryExpr B_Add Expr (ConstantExpr (word_of_int Offs)) else Expr)))"

text \<open>\<open>Inr None\<close> is an operand that is left out.\<close>

definition lower_operand :: "lower_env \<Rightarrow> machine_operand \<Rightarrow> mc_operand option result" where
  "lower_operand E MO = (case MO of
     MO_Register r isDef isImplicit isKill \<Rightarrow> if isImplicit then Inr None else Inr (Some (MC_Reg r))
   | MO_Immediate i \<Rightarrow> Inr (Some (MC_Imm (word_of_int i)))
   | MO_OpcodeImm c \<Rightarrow> Inr (Some (MC_Imm (word_of_int (opcode_number E c))))
   | MO_MachineBasicBlock n \<Rightarrow> Inr (Some (MC_Expr (SymbolRefExpr (mbb_symbol [] (FunctionNumber E) n, VK_None))))
   | MO_GlobalAddress g Offs fl \<Rightarrow> map_sum id Some (LowerSymbolOperand False Offs fl (global_symbol E g))
   | MO_ExternalSymbol s Offs fl \<Rightarrow>
       bind_result (getNameWithPrefix s (ManglingMode E)) (\<lambda>Sym. map_sum id Some (LowerSymbolOperand False Offs fl Sym))
   | MO_JumpTableIndex n fl \<Rightarrow>
       bind_result (getJTISymbol (ManglingMode E) False (JumpTables E) (FunctionNumber E) n) (\<lambda>Sym.
         map_sum id Some (LowerSymbolOperand True 0 fl Sym))
   | MO_ConstantPoolIndex n Offs fl \<Rightarrow>
       map_sum id Some (LowerSymbolOperand False Offs fl (GetCPISymbol (ManglingMode E) (FunctionNumber E) n))
   | MO_BlockAddress b Offs fl \<Rightarrow> map_sum id Some (LowerSymbolOperand False Offs fl (block_address_symbol E b))
   | MO_RegisterMask \<Rightarrow> Inr None
   | _ \<Rightarrow> Inl Unreachable)"

fun lower_operands :: "lower_env \<Rightarrow> machine_operand list \<Rightarrow> mc_operand list result" where
  "lower_operands E [] = Inr []"
| "lower_operands E (MO # MOs) =
     bind_result (lower_operand E MO) (\<lambda>MCOp.
     map_sum id (\<lambda>ops. (case MCOp of Some Op \<Rightarrow> Op # ops | None \<Rightarrow> ops)) (lower_operands E MOs))"

definition LowerInstr :: "lower_env \<Rightarrow> minstr \<Rightarrow> mc_inst result" where
  "LowerInstr E MI = map_sum id (\<lambda>ops. \<lparr>mc_opcode = opc MI, mc_operand_list = ops\<rparr>) (lower_operands E (operands MI))"

section \<open>Instructions and bundles\<close>

text \<open>
  The printing of instructions: \<open>printInstruction\<close> is generated; \<open>dump_text\<close> is what \<open>dump_pretty\<close> writes and
  \<open>comment_text\<close> what \<open>emitComments\<close> writes into the comments.
\<close>

datatype exception_handling = EH_None | EH_DwarfCFI | EH_SjLj | EH_ARM | EH_WinEH

datatype cfi_move_type = CFI_M_None | CFI_M_EH | CFI_M_Debug

record print_env =
  lower :: lower_env
  stream :: stream_env
  printInstruction :: "mc_inst \<Rightarrow> string result"
  dump_text :: "mc_inst \<Rightarrow> string"
  comment_text :: "minstr \<Rightarrow> string"
  emit_inline_asm :: "minstr \<Rightarrow> streamer \<Rightarrow> streamer result"
  emit_debug_comment :: "minstr \<Rightarrow> streamer \<Rightarrow> (bool \<times> streamer) result"
  emit_cfi :: "minstr \<Rightarrow> streamer \<Rightarrow> streamer result"
  ExceptionsType :: exception_handling
  needsUnwindTableEntry :: bool
  hasDebugInfo :: bool

definition EmitToStreamer :: "print_env \<Rightarrow> mc_inst \<Rightarrow> streamer \<Rightarrow> streamer result" where
  "EmitToStreamer P Inst S = EmitInstruction (printInstruction P) (dump_text P Inst) [] Inst False S"

definition emit_one :: "print_env \<Rightarrow> minstr \<Rightarrow> streamer \<Rightarrow> streamer result" where
  "emit_one P MI S = bind_result (LowerInstr (lower P) MI) (\<lambda>TmpInst. EmitToStreamer P TmpInst S)"

text \<open>\<open>F2003fAsmPrinter::EmitInstruction\<close>, on the instructions from \<open>MI\<close> to the end of its block.\<close>

fun EmitBundle :: "print_env \<Rightarrow> minstr list \<Rightarrow> streamer \<Rightarrow> streamer result" where
  "EmitBundle P [] S = Inl Unreachable"
| "EmitBundle P (I # rest) S =
     bind_result (emit_one P I S) (\<lambda>S.
       case rest of [] \<Rightarrow> Inr S | J # _ \<Rightarrow> if inside_bundle J then EmitBundle P rest S else Inr S)"

definition EmitRawText :: "string \<Rightarrow> streamer \<Rightarrow> streamer result" where
  "EmitRawText = EmitRawTextImpl"

definition EmitStartOfAsmFile :: "streamer \<Rightarrow> streamer result" where
  "EmitStartOfAsmFile = EmitRawText (CHR 0x27 # ''c'' @ CHR 0x27 # ''i'' @ [CHR 0x0A])"

section \<open>Blocks and bodies\<close>

record print_block =
  block_alignment :: nat
  preds :: "nat list"
  isEHPad :: bool
  isFuncletEntry :: bool
  address_symbols :: "string list option"
  block_comment :: string
  instrs :: "minstr list"

text \<open>An iterator over a block goes from bundle to bundle: to the first instruction that is not inside one.\<close>

fun bundles :: "minstr list \<Rightarrow> minstr list list" where
  "bundles [] = []"
| "bundles (MI # MIs) =
     (case bundles MIs of
        [] \<Rightarrow> [[MI]]
      | b # bs \<Rightarrow> if inside_bundle (hd b) then (MI # b) # bs else [MI] # b # bs)"

text \<open>A property of an instruction holds when an instruction of its bundle has it.\<close>

definition any_in_bundle :: "(opcode \<Rightarrow> bool) \<Rightarrow> minstr list \<Rightarrow> bool" where
  "any_in_bundle p b = (\<exists>MI \<in> set b. p (opc MI))"

definition bundle_isDebugValue :: "minstr list \<Rightarrow> bool" where
  "bundle_isDebugValue b = (opc (hd b) = DBG_VALUE)"

definition block_terminators :: "minstr list \<Rightarrow> minstr list list" where
  "block_terminators MIs =
     (let scanned = rev (takeWhile (\<lambda>b. any_in_bundle isTerminator b \<or> bundle_isDebugValue b) (rev (bundles MIs)));
          before = take (length (bundles MIs) - length scanned) (bundles MIs);
          I = (if before = [] then scanned else last before # scanned)
      in dropWhile (\<lambda>b. \<not> any_in_bundle isTerminator b) I)"

definition bundle_refers :: "nat \<Rightarrow> minstr list \<Rightarrow> bool" where
  "bundle_refers n b = (\<exists>MI \<in> set b. \<exists>MO \<in> set (operands MI). (\<exists>j fl. MO = MO_JumpTableIndex j fl) \<or> MO = MO_MachineBasicBlock n)"

definition isBlockOnlyReachableByFallthrough :: "print_block list \<Rightarrow> nat \<Rightarrow> bool" where
  "isBlockOnlyReachableByFallthrough F n =
     (let MBB = F ! n in
      if isEHPad MBB \<or> preds MBB = [] then False
      else if length (preds MBB) > 1 then False
      else
        let Pred = hd (preds MBB) in
        if Suc Pred \<noteq> n then False
        else if instrs (F ! Pred) = [] then True
        else (\<forall>MI \<in> set (block_terminators (instrs (F ! Pred))).
          any_in_bundle isBranch MI \<and> \<not> any_in_bundle isIndirectBranch MI \<and> \<not> bundle_refers n MI))"

text \<open>
  \<open>EmitBasicBlockStart\<close>. \<open>address_symbols\<close> are the labels of a block whose address is taken; an alignment is a code
  alignment, which the streamer does not have. Funclets only inform the debug handlers.
\<close>

definition EmitBasicBlockStart :: "print_env \<Rightarrow> print_block list \<Rightarrow> nat \<Rightarrow> streamer \<Rightarrow> streamer result" where
  "EmitBasicBlockStart P F n S =
     (let MBB = F ! n in
      bind_result (if block_alignment MBB \<noteq> 0 then emit_unsupported CodeAlignment S else Inr S) (\<lambda>S.
      bind_result (case address_symbols MBB of
          None \<Rightarrow> Inr S
        | Some Syms \<Rightarrow> fold_result EmitLabel Syms (AddComment ''Block address taken'' True S)) (\<lambda>S.
      let S = write_comment (block_comment MBB) S in
      if preds MBB = [] \<or> (isBlockOnlyReachableByFallthrough F n \<and> \<not> isFuncletEntry MBB)
      then (if IsVerboseAsm S then emitRawComment ('' BB#'' @ write_unsigned n @ '':'') S else Inr S)
      else EmitLabel (mbb_symbol [] (FunctionNumber (lower P)) n) S)))"

section \<open>Instructions that are not printed\<close>

text \<open>
  The comments for registers that only the register allocation sees, \<open>PrintReg\<close> of
  \<open>lib/CodeGen/TargetRegisterInfo.cpp\<close> with the names of the definitions in \<open>F2003fRegisterInfo.td\<close>. There are no
  subregisters and no stack slot registers.
\<close>

fun reg_record_name :: "reg \<Rightarrow> string" where
  "reg_record_name F0 = ''F0''" | "reg_record_name F1 = ''F1''" | "reg_record_name F2 = ''F2''"
| "reg_record_name F3 = ''F3''" | "reg_record_name F5 = ''F5''" | "reg_record_name XX = ''XX''"
| "reg_record_name _ = []"

fun PrintReg :: "reg \<Rightarrow> string" where
  "PrintReg NoRegister = ''%noreg''"
| "PrintReg (VReg n) = ''%vreg'' @ write_unsigned n"
| "PrintReg r = CHR ''%'' # reg_record_name r"

definition emitImplicitDef :: "minstr \<Rightarrow> streamer \<Rightarrow> streamer result" where
  "emitImplicitDef MI S =
     bind_result (get_operand MI 0) (\<lambda>Op. bind_result (operand_reg Op) (\<lambda>RegNo.
     AddBlankLine (AddComment (''implicit-def: '' @ PrintReg RegNo) True S)))"

fun kill_operands :: "machine_operand list \<Rightarrow> string result" where
  "kill_operands [] = Inr []"
| "kill_operands (MO_Register r isDef isImplicit isKill # Ops) =
     map_sum id (\<lambda>s. '' '' @ PrintReg r @ (if isDef then ''<def>'' else ''<kill>'') @ s) (kill_operands Ops)"
| "kill_operands (_ # Ops) = Inl AssertFailed"

definition emitKill :: "minstr \<Rightarrow> streamer \<Rightarrow> streamer result" where
  "emitKill MI S =
     bind_result (kill_operands (operands MI)) (\<lambda>Str. AddBlankLine (AddComment (''kill:'' @ Str) True S))"

text \<open>
  Call frame information. \<open>F2003fMCAsmInfo\<close> leaves \<open>ExceptionsType\<close> at \<open>None\<close>, which only the command line can change; the
  directives themselves, behind the two tests, are the argument \<open>emit_cfi\<close>. \<open>emitFrameAlloc\<close> assigns to a symbol, which
  the streamer does not support.
\<close>

definition needsCFIMoves :: "print_env \<Rightarrow> cfi_move_type" where
  "needsCFIMoves P =
     (if ExceptionsType P = EH_DwarfCFI \<and> needsUnwindTableEntry P then CFI_M_EH
      else if hasDebugInfo P then CFI_M_Debug
      else CFI_M_None)"

definition emitCFIInstruction :: "print_env \<Rightarrow> minstr \<Rightarrow> streamer \<Rightarrow> streamer result" where
  "emitCFIInstruction P MI S =
     (if ExceptionsType P \<noteq> EH_DwarfCFI \<and> ExceptionsType P \<noteq> EH_ARM then Inr S
      else if needsCFIMoves P = CFI_M_None then Inr S
      else emit_cfi P MI S)"

definition emitFrameAlloc :: "minstr \<Rightarrow> streamer \<Rightarrow> streamer result" where
  "emitFrameAlloc MI S =
     bind_result (get_operand MI 0) (\<lambda>Op. bind_result (operand_MCSymbol Op) (\<lambda>FrameAllocSym.
     bind_result (get_operand MI 1) (\<lambda>Op. bind_result (operand_imm Op) (\<lambda>FrameOffset.
     emit_unsupported Assignment S))))"

text \<open>
  One iteration over the instructions of a block; the list starts with the bundle. The opcode of its first instruction
  decides: what is not an ordinary instruction hides the rest of its bundle.
\<close>

definition emit_bundle_in_body :: "print_env \<Rightarrow> minstr list \<Rightarrow> streamer \<Rightarrow> streamer result" where
  "emit_bundle_in_body P b S =
     (let MI = hd b; S = write_comment (comment_text P MI) S in
      case opc MI of
        CFI_INSTRUCTION \<Rightarrow> emitCFIInstruction P MI S
      | LOCAL_ESCAPE \<Rightarrow> emitFrameAlloc MI S
      | EH_LABEL \<Rightarrow> bind_result (bind_result (get_operand MI 0) operand_MCSymbol) (\<lambda>x. EmitLabel x S)
      | GC_LABEL \<Rightarrow> bind_result (bind_result (get_operand MI 0) operand_MCSymbol) (\<lambda>x. EmitLabel x S)
      | INLINEASM \<Rightarrow> emit_inline_asm P MI S
      | DBG_VALUE \<Rightarrow>
          if IsVerboseAsm S
          then bind_result (emit_debug_comment P MI S) (\<lambda>(emitted, S). if emitted then Inr S else EmitBundle P b S)
          else Inr S
      | IMPLICIT_DEF \<Rightarrow> if IsVerboseAsm S then emitImplicitDef MI S else Inr S
      | KILL \<Rightarrow> if IsVerboseAsm S then emitKill MI S else Inr S
      | _ \<Rightarrow> EmitBundle P b S)"

section \<open>The body of a function\<close>

definition EmitFunctionBody_blocks :: "print_env \<Rightarrow> print_block list \<Rightarrow> streamer \<Rightarrow> streamer result" where
  "EmitFunctionBody_blocks P F =
     fold_result (\<lambda>n S. bind_result (EmitBasicBlockStart P F n S) (fold_result (emit_bundle_in_body P) (bundles (instrs (F ! n)))))
       [0..<length F]"

section \<open>What is lowered\<close>

text \<open>
  A symbolic operand is lowered to an expression whose value is the address of the symbol plus the offset.
\<close>

theorem LowerSymbolOperand_value:
  assumes "LowerSymbolOperand False Offs TargetFlags Sym = Inr (MC_Expr e)"
  shows "expr_value addr e = Some (addr (Sym, VK_None) + word_of_int Offs)"
  using assms by (auto simp: LowerSymbolOperand_def Let_def binary_constant_def split: if_splits)

theorem LowerSymbolOperand_value_witness:
  "expr_value addr (BinaryExpr B_Add (SymbolRefExpr (''g'', VK_None)) (ConstantExpr (- 8))) = Some (addr (''g'', VK_None) + word_of_int (- 8))"
  by (rule LowerSymbolOperand_value [where TargetFlags = 0]) (simp add: LowerSymbolOperand_def)

text \<open>An operand that has a lowering and is not left out: no implicit register, no register mask.\<close>

fun is_explicit :: "machine_operand \<Rightarrow> bool" where
  "is_explicit (MO_Register r d implicit k) = (\<not> implicit)"
| "is_explicit MO_RegisterMask = False"
| "is_explicit _ = True"

lemma lower_operand_explicit: "lower_operand E MO = Inr r \<Longrightarrow> (r = None) \<longleftrightarrow> \<not> is_explicit MO"
  by (cases MO) (auto simp: lower_operand_def map_sum_Inr_iff bind_result_Inr_iff split: if_splits)

text \<open>
  The operands of the machine code instruction are the lowerings of the explicit operands, in their order: implicit
  registers and register masks leave no gap, so the operand numbers of the assembly string are those of the descriptor.
\<close>

theorem LowerInstr_operands:
  assumes "LowerInstr E MI = Inr I"
  shows "map (\<lambda>Op. Inr (Some Op)) (mc_operand_list I) = map (lower_operand E) (filter is_explicit (operands MI)) \<and>
    mc_opcode I = opc MI"
proof -
  have "lower_operands E MOs = Inr ops \<Longrightarrow> map (\<lambda>Op. Inr (Some Op)) ops = map (lower_operand E) (filter is_explicit MOs)" for MOs ops
  proof (induction MOs arbitrary: ops)
    case (Cons MO MOs)
    then obtain r rest where r: "lower_operand E MO = Inr r" "lower_operands E MOs = Inr rest"
      and ops: "ops = (case r of Some Op \<Rightarrow> Op # rest | None \<Rightarrow> rest)"
      by (auto simp: bind_result_Inr_iff map_sum_Inr_iff)
    show ?case using Cons.IH [OF r(2)] lower_operand_explicit [OF r(1)] r(1) by (cases r) (simp_all add: ops)
  qed simp
  then show ?thesis using assms by (auto simp: LowerInstr_def map_sum_Inr_iff)
qed

definition sample_lower :: lower_env where
  "sample_lower = \<lparr>ManglingMode = MM_None, FunctionNumber = 0, JumpTables = 0, global_symbol = id, block_address_symbol = id,
     opcode_number = (\<lambda>_. 0)\<rparr>"

definition sample_minstr :: minstr where
  "sample_minstr = mk_instr KRZri [def_reg F0, MO_Register F1 False True False, MO_GlobalAddress ''g'' 4 0]"

lemma LowerInstr_sample:
  "LowerInstr sample_lower sample_minstr = Inr \<lparr>mc_opcode = KRZri,
     mc_operand_list = [MC_Reg F0, MC_Expr (BinaryExpr B_Add (SymbolRefExpr (''g'', VK_None)) (ConstantExpr 4))]\<rparr>"
  by (simp add: LowerInstr_def sample_minstr_def sample_lower_def lower_operand_def LowerSymbolOperand_def)

theorem LowerInstr_operands_witness:
  "map (\<lambda>Op. Inr (Some Op)) (mc_operand_list \<lparr>mc_opcode = KRZri,
     mc_operand_list = [MC_Reg F0, MC_Expr (BinaryExpr B_Add (SymbolRefExpr (''g'', VK_None)) (ConstantExpr 4))]\<rparr>) =
   map (lower_operand sample_lower) (filter is_explicit (operands sample_minstr)) \<and>
   mc_opcode \<lparr>mc_opcode = KRZri,
     mc_operand_list = [MC_Reg F0, MC_Expr (BinaryExpr B_Add (SymbolRefExpr (''g'', VK_None)) (ConstantExpr 4))]\<rparr> = opc sample_minstr"
  by (rule LowerInstr_operands [OF LowerInstr_sample])

section \<open>Every instruction is printed once and in order\<close>

lemma bundles_Cons_not_Nil [simp]: "bundles (MI # MIs) \<noteq> []"
  by (simp split: list.split)

lemma concat_bundles: "concat (bundles MIs) = MIs"
  by (induction MIs) (auto split: list.split)



text \<open>Behind a bundle that ends, the rest of the block does not matter.\<close>

lemma EmitBundle_prefix:
  "b \<noteq> [] \<Longrightarrow> \<forall>MI \<in> set (tl b). inside_bundle MI \<Longrightarrow> rest = [] \<or> \<not> inside_bundle (hd rest) \<Longrightarrow>
   EmitBundle P (b @ rest) S = EmitBundle P b S"
proof (induction b arbitrary: S)
  case (Cons I b)
  show ?case
  proof (cases b)
    case Nil
    then show ?thesis using Cons.prems by (cases rest; cases "emit_one P I S") simp_all
  next
    case (Cons J js)
    then have "EmitBundle P (b @ rest) S' = EmitBundle P b S'" for S' using Cons.IH [of S'] Cons.prems by simp
    then show ?thesis using Cons by (cases "emit_one P I S") simp_all
  qed
qed simp













text \<open>The bundles of a block start with instructions that are not inside a bundle, when the block does.\<close>

lemma bundles_heads: "MIs \<noteq> [] \<Longrightarrow> hd (hd (bundles MIs)) = hd MIs"
  by (cases MIs) (auto split: list.split)
















section \<open>Labels that are left out\<close>

definition refers_to :: "nat \<Rightarrow> minstr list \<Rightarrow> bool" where
  "refers_to n MIs = (\<exists>MI \<in> set MIs. MO_MachineBasicBlock n \<in> set (operands MI))"

text \<open>The terminators are the end of the block, and only they name blocks.\<close>

definition branches_at_end :: "minstr list \<Rightarrow> bool" where
  "branches_at_end MIs = (\<exists>body. bundles MIs = body @ block_terminators MIs \<and>
     (\<forall>b \<in> set body. \<forall>MI \<in> set b. \<forall>n. MO_MachineBasicBlock n \<notin> set (operands MI)))"

text \<open>
  C37. A block gets no label only when no branch goes to it: when \<open>EmitBasicBlockStart\<close> leaves the label of a block out, no
  instruction of the function names the block, given that the predecessors list every block that names it and that
  blocks are named by the terminators at their ends.
\<close>

theorem label_left_out:
  assumes "preds (F ! n) = [] \<or> isBlockOnlyReachableByFallthrough F n"
    and "\<forall>p < length F. refers_to n (instrs (F ! p)) \<longrightarrow> p \<in> set (preds (F ! n))"
    and "\<forall>p < length F. branches_at_end (instrs (F ! p))"
  shows "\<forall>p < length F. \<not> refers_to n (instrs (F ! p))"
proof (intro allI impI notI)
  fix p assume p: "p < length F" "refers_to n (instrs (F ! p))"
  then have "p \<in> set (preds (F ! n))" using assms(2) by blast
  then have only: "isBlockOnlyReachableByFallthrough F n" using assms(1) by auto
  then have "length (preds (F ! n)) \<le> 1" by (simp add: isBlockOnlyReachableByFallthrough_def Let_def split: if_splits)
  then have "hd (preds (F ! n)) = p" using \<open>p \<in> set (preds (F ! n))\<close> by (cases "preds (F ! n)") auto
  moreover have "instrs (F ! p) \<noteq> []" using p(2) by (auto simp: refers_to_def)
  ultimately have terms: "\<forall>b \<in> set (block_terminators (instrs (F ! p))). \<not> bundle_refers n b"
    using only by (auto simp: isBlockOnlyReachableByFallthrough_def Let_def split: if_splits)
  obtain body where body: "bundles (instrs (F ! p)) = body @ block_terminators (instrs (F ! p))"
    "\<forall>b \<in> set body. \<forall>MI \<in> set b. \<forall>n. MO_MachineBasicBlock n \<notin> set (operands MI)"
    using assms(3) p(1) by (auto simp: branches_at_end_def)
  obtain MI where MI: "MI \<in> set (instrs (F ! p))" "MO_MachineBasicBlock n \<in> set (operands MI)" using p(2) by (auto simp: refers_to_def)
  obtain b where "b \<in> set (bundles (instrs (F ! p)))" "MI \<in> set b" using MI(1) concat_bundles [of "instrs (F ! p)"] by (metis UN_E set_concat)
  then show False using MI(2) body terms by (auto simp: bundle_refers_def)
qed

text \<open>A function of three blocks: the first may jump to the third and else falls through to the second.\<close>

definition sample_print_block :: "nat list \<Rightarrow> minstr list \<Rightarrow> print_block" where
  "sample_print_block Ps MIs = \<lparr>block_alignment = 0, preds = Ps, isEHPad = False, isFuncletEntry = False, address_symbols = None,
     block_comment = [], instrs = MIs\<rparr>"

definition sample_function :: "print_block list" where
  "sample_function =
     [sample_print_block [] [sample_minstr, mk_instr MALKRZx [MO_MachineBasicBlock 2]], sample_print_block [0] [sample_minstr],
      sample_print_block [0, 1] [sample_minstr]]"

lemmas sample_function_simps = sample_function_def sample_print_block_def sample_minstr_def mk_instr_def

lemma sample_blocks:
  "instrs (sample_function ! 0) = [sample_minstr, mk_instr MALKRZx [MO_MachineBasicBlock 2]]"
  "instrs (sample_function ! Suc 0) = [sample_minstr]" "instrs (sample_function ! 2) = [sample_minstr]"
  by (simp_all add: sample_function_def sample_print_block_def)

lemma sample_bundles:
  "bundles [sample_minstr] = [[sample_minstr]]"
  "bundles [sample_minstr, mk_instr MALKRZx Ops] = [[sample_minstr], [mk_instr MALKRZx Ops]]"
  by simp_all

lemma sample_flags:
  "any_in_bundle isTerminator [sample_minstr] = False" "bundle_isDebugValue [sample_minstr] = False"
  "any_in_bundle isTerminator [mk_instr MALKRZx Ops] = True"
  by (simp_all add: any_in_bundle_def bundle_isDebugValue_def sample_minstr_def desc_flags)

lemma sample_terminators:
  "block_terminators [sample_minstr] = []"
  "block_terminators [sample_minstr, mk_instr MALKRZx Ops] = [[mk_instr MALKRZx Ops]]"
  unfolding block_terminators_def sample_bundles by (simp_all add: sample_flags Let_def)

lemmas sample_bodies = sample_blocks sample_bundles sample_terminators

lemma sample_minstr_names_no_block: "\<forall>b \<in> set [[sample_minstr]]. \<forall>MI \<in> set b. \<forall>n. MO_MachineBasicBlock n \<notin> set (operands MI)"
  by (simp add: sample_minstr_def mk_instr_def)

lemma sample_function_branches: "p < length sample_function \<Longrightarrow> branches_at_end (instrs (sample_function ! p))"
proof -
  assume "p < length sample_function"
  then have "p = 0 \<or> p = Suc 0 \<or> p = 2" by (auto simp: sample_function_def)
  then have "bundles (instrs (sample_function ! p)) = [[sample_minstr]] @ block_terminators (instrs (sample_function ! p))"
    by (elim disjE; simp only: sample_bodies append.simps)
  then show ?thesis using sample_minstr_names_no_block unfolding branches_at_end_def by blast
qed

lemma sample_function_preds:
  "p < length sample_function \<Longrightarrow> refers_to 1 (instrs (sample_function ! p)) \<Longrightarrow> p \<in> set (preds (sample_function ! 1))"
  by (auto simp: refers_to_def sample_function_simps less_Suc_eq numeral_2_eq_2)

lemma sample_falls_through: "isBlockOnlyReachableByFallthrough sample_function 1"
proof -
  have "preds (sample_function ! 1) = [0]" "\<not> isEHPad (sample_function ! 1)" "instrs (sample_function ! 0) \<noteq> []"
    by (simp_all add: sample_function_simps)
  then show ?thesis
    using sample_bodies by (simp add: desc_flags isBlockOnlyReachableByFallthrough_def Let_def any_in_bundle_def bundle_refers_def)
qed

theorem label_left_out_witness: "list_all (\<lambda>B. \<not> refers_to 1 (instrs B)) sample_function"
  unfolding list_all_length using label_left_out [of sample_function 1] sample_falls_through sample_function_preds sample_function_branches by blast

end
