(* ===== verification/PowerMath.thy ===== *)
theory PowerMath
  imports MathExtras
begin

text \<open>
  The powers of two of \<open>include/llvm/Support/MathExtras.h\<close>: the test \<open>isPowerOf2_64\<close>, rounding up with
  \<open>NextPowerOf2\<close> and \<open>PowerOf2Ceil\<close>, which smear the highest bit to the right, and \<open>Log2_32\<close>. Values of
  \<open>uint64_t\<close> are an \<open>int\<close> from \<open>0\<close> to \<open>2 ^ 64 - 1\<close>.
\<close>

definition isPowerOf2_64 :: "int \<Rightarrow> bool" where
  "isPowerOf2_64 Value = (Value \<noteq> 0 \<and> Value AND u64 (Value - 1) = 0)"

definition smear :: "nat \<Rightarrow> int \<Rightarrow> int" where
  "smear s A = A OR drop_bit s A"

definition NextPowerOf2 :: "int \<Rightarrow> int" where
  "NextPowerOf2 A = u64 (smear 32 (smear 16 (smear 8 (smear 4 (smear 2 (smear 1 A))))) + 1)"

definition PowerOf2Ceil :: "int \<Rightarrow> int" where
  "PowerOf2Ceil A = (if A = 0 then 0 else NextPowerOf2 (u64 (A - 1)))"

text \<open>\<open>countLeadingZeros\<close> of a \<open>uint32_t\<close>, which is 32 for zero.\<close>

definition countLeadingZeros_32 :: "int \<Rightarrow> nat" where
  "countLeadingZeros_32 Val = length (takeWhile (\<lambda>i. \<not> bit Val (31 - i)) [0..<32])"

definition Log2_32 :: "int \<Rightarrow> int" where
  "Log2_32 Value = u32 (31 - int (countLeadingZeros_32 Value))"

section \<open>The test\<close>

lemma and_pred_eq_0: "0 < v \<Longrightarrow> v AND (v - 1) = 0 \<longleftrightarrow> (\<exists>k. v = 2 ^ k)" for v :: int
proof (induction "nat v" arbitrary: v rule: less_induct)
  case less
  show ?case
  proof (cases "even v")
    case True
    then obtain w where w: "v = 2 * w" by (elim evenE)
    then have IH: "w AND (w - 1) = 0 \<longleftrightarrow> (\<exists>k. w = 2 ^ k)" using less by simp
    have "(2 * w - 1) div 2 = w - 1" by linarith
    then have "v AND (v - 1) = 2 * (w AND (w - 1))"
      using w by (simp add: and_int_rec [of "2 * w"])
    moreover have "(\<exists>k. v = 2 ^ k) \<longleftrightarrow> (\<exists>k. w = 2 ^ k)"
    proof
      assume "\<exists>k. v = 2 ^ k"
      then obtain k where "v = 2 ^ k" by blast
      then show "\<exists>k. w = 2 ^ k" using w True by (cases k) auto
    next
      assume "\<exists>k. w = 2 ^ k"
      then obtain k where "w = 2 ^ k" by blast
      then have "v = 2 ^ Suc k" using w by simp
      then show "\<exists>k. v = 2 ^ k" by blast
    qed
    ultimately show ?thesis using IH by simp
  next
    case False
    then obtain w where w: "v = 2 * w + 1" by (elim oddE)
    have "v AND (v - 1) = 2 * w"
      using w by (simp add: and_int_rec [of "2 * w + 1"])
    moreover have "(\<exists>k. v = 2 ^ k) \<longleftrightarrow> v = 1"
    proof
      assume "\<exists>k. v = 2 ^ k"
      then obtain k where "v = 2 ^ k" by blast
      then show "v = 1" using False by (cases k) auto
    next
      show "v = 1 \<Longrightarrow> \<exists>k. v = 2 ^ k" by (rule exI [of _ 0]) simp
    qed
    ultimately show ?thesis using w by simp
  qed
qed

lemma isPowerOf2_64_iff: "0 \<le> v \<Longrightarrow> v < 2 ^ 64 \<Longrightarrow> isPowerOf2_64 v \<longleftrightarrow> (\<exists>k < 64. v = 2 ^ k)"
proof (cases "v = 0")
  case False
  assume "0 \<le> v" "v < 2 ^ 64"
  then have "0 < v" "u64 (v - 1) = v - 1" using False by (simp_all add: u64_id)
  then have "isPowerOf2_64 v \<longleftrightarrow> (\<exists>k. v = 2 ^ k)" using and_pred_eq_0 by (simp add: isPowerOf2_64_def)
  moreover have "k < 64" if "v = 2 ^ k" for k
    using \<open>v < 2 ^ 64\<close> that power_strict_increasing_iff [of "2 :: int" k 64] by simp
  ultimately show ?thesis by auto
qed (simp add: isPowerOf2_64_def)

section \<open>Rounding up\<close>

lemma bit_smear:
  assumes "\<And>n. bit x n \<longleftrightarrow> (\<exists>j < s. bit A (n + j))"
  shows "bit (smear s x) n \<longleftrightarrow> (\<exists>j < 2 * s. bit A (n + j))"
proof -
  have "(\<exists>j < 2 * s. bit A (n + j)) \<longleftrightarrow> (\<exists>j < s. bit A (n + j)) \<or> (\<exists>j < s. bit A (n + s + j))"
  proof
    assume "\<exists>j < 2 * s. bit A (n + j)"
    then obtain j where j: "j < 2 * s" "bit A (n + j)" by blast
    show "(\<exists>j < s. bit A (n + j)) \<or> (\<exists>j < s. bit A (n + s + j))"
    proof (cases "j < s")
      case False
      then have "j - s < s" "bit A (n + s + (j - s))" using j by simp_all
      then show ?thesis by blast
    qed (use j in blast)
  next
    assume "(\<exists>j < s. bit A (n + j)) \<or> (\<exists>j < s. bit A (n + s + j))"
    then obtain j where j: "j < s" and A: "bit A (n + j) \<or> bit A (n + (s + j))" by (auto simp: add.assoc)
    have "j < 2 * s" "s + j < 2 * s" using j by simp_all
    with A show "\<exists>j < 2 * s. bit A (n + j)" by blast
  qed
  then show ?thesis
    by (simp add: smear_def bit_or_iff bit_drop_bit_eq assms add.commute [of s])
qed

lemma bit_less_pow: "0 \<le> A \<Longrightarrow> A < 2 ^ k \<Longrightarrow> bit A n \<Longrightarrow> n < k" for A :: int
proof (rule ccontr)
  assume A: "0 \<le> A" "A < 2 ^ k" "bit A n" "\<not> n < k"
  then have "A < 2 ^ n" by (meson less_le_trans linorder_not_less one_le_numeral power_increasing)
  then have "A div 2 ^ n = 0" using A(1) by simp
  then show False using A(3) by (simp add: bit_iff_odd)
qed

text \<open>The next power of two is strictly above its argument; from \<open>2 ^ 63\<close> on it does not fit and is 0.\<close>

lemma NextPowerOf2_eq:
  assumes "k \<le> 64" "(2 :: int) ^ k \<le> 2 * A + 1" "A < 2 ^ k" "0 \<le> A"
  shows "NextPowerOf2 A = u64 (2 ^ k)"
proof -
  have "bit (smear 1 A) n \<longleftrightarrow> (\<exists>j < 2 * 1. bit A (n + j))" for n by (rule bit_smear) auto
  then have "bit (smear 2 (smear 1 A)) n \<longleftrightarrow> (\<exists>j < 2 * 2. bit A (n + j))" for n by (intro bit_smear) simp
  then have "bit (smear 4 (smear 2 (smear 1 A))) n \<longleftrightarrow> (\<exists>j < 2 * 4. bit A (n + j))" for n by (intro bit_smear) simp
  then have "bit (smear 8 (smear 4 (smear 2 (smear 1 A)))) n \<longleftrightarrow> (\<exists>j < 2 * 8. bit A (n + j))" for n by (intro bit_smear) simp
  then have "bit (smear 16 (smear 8 (smear 4 (smear 2 (smear 1 A))))) n \<longleftrightarrow> (\<exists>j < 2 * 16. bit A (n + j))" for n
    by (intro bit_smear) simp
  then have bits: "bit (smear 32 (smear 16 (smear 8 (smear 4 (smear 2 (smear 1 A)))))) n \<longleftrightarrow> (\<exists>j < 2 * 32. bit A (n + j))" for n
    by (intro bit_smear) simp
  have "bit (smear 32 (smear 16 (smear 8 (smear 4 (smear 2 (smear 1 A)))))) n \<longleftrightarrow> n < k" for n
  proof
    assume "bit (smear 32 (smear 16 (smear 8 (smear 4 (smear 2 (smear 1 A)))))) n"
    then obtain j where "bit A (n + j)" using bits by blast
    then show "n < k" using bit_less_pow [OF assms(4,3)] by fastforce
  next
    assume n: "n < k"
    then obtain m where m: "k = Suc m" by (cases k) auto
    have "(2 :: int) * 2 ^ m \<le> 2 * A + 1" using assms(2) m by simp
    then have "2 ^ m \<le> A" by linarith
    moreover have "A < 2 * 2 ^ m" using assms(3) m by simp
    ultimately have "(A - 2 ^ m) div 2 ^ m = 0" by simp
    then have "A div 2 ^ m = 1" using div_add_self1 [of "2 ^ m" "A - 2 ^ m"] by simp
    then have "bit A (n + (m - n))" using n m by (simp add: bit_iff_odd)
    moreover have "m - n < 2 * 32" using m assms(1) n by simp
    ultimately show "bit (smear 32 (smear 16 (smear 8 (smear 4 (smear 2 (smear 1 A)))))) n" using bits by blast
  qed
  then have "smear 32 (smear 16 (smear 8 (smear 4 (smear 2 (smear 1 A))))) = mask k"
    by (intro bit_eqI) (simp add: bit_mask_iff)
  then show ?thesis by (simp add: NextPowerOf2_def mask_eq_exp_minus_1)
qed

lemma ex_pow2_above: "0 < (A :: int) \<Longrightarrow> \<exists>k. A \<le> 2 ^ k \<and> 2 ^ k < 2 * A"
proof (induction "nat A" arbitrary: A rule: less_induct)
  case less
  show ?case
  proof (cases "A = 1")
    case True
    then show ?thesis by (intro exI [of _ 0]) simp
  next
    case False
    then have "0 < (A + 1) div 2" "(A + 1) div 2 < A" using less.prems by simp_all
    then obtain k where "(A + 1) div 2 \<le> 2 ^ k" "2 ^ k < 2 * ((A + 1) div 2)" using less.hyps [of "(A + 1) div 2"] by auto
    then have k: "A \<le> 2 * 2 ^ k" "2 ^ k \<le> A" by linarith+
    have "2 ^ k \<noteq> A"
    proof
      assume "2 ^ k = A"
      then have "even A \<or> A = 1" by (cases k) auto
      then have "even A" using False by blast
      then have "2 * ((A + 1) div 2) = A" by simp
      then show False using \<open>2 ^ k < 2 * ((A + 1) div 2)\<close> \<open>2 ^ k = A\<close> by simp
    qed
    then have "A \<le> 2 ^ Suc k \<and> 2 ^ Suc k < 2 * A" using k by simp
    then show ?thesis by blast
  qed
qed

text \<open>\<open>PowerOf2Ceil\<close> is the least power of two that is not below a positive argument, as far as it fits.\<close>

lemma PowerOf2Ceil_eq:
  assumes "k \<le> 63" "A \<le> 2 ^ k" "2 ^ k < 2 * A"
  shows "PowerOf2Ceil A = 2 ^ k"
proof -
  have k64: "(2 :: int) ^ k < 2 ^ 64" using assms(1) by (intro power_strict_increasing) simp_all
  have "0 < A" using assms(3) zero_less_power [of "2 :: int" k] by linarith
  then have "u64 (A - 1) = A - 1" using assms(2) k64 by (intro u64_id) simp_all
  moreover have "NextPowerOf2 (A - 1) = u64 (2 ^ k)" using assms \<open>0 < A\<close> by (intro NextPowerOf2_eq) simp_all
  moreover have "u64 (2 ^ k) = 2 ^ k" using k64 by (intro u64_id) simp_all
  ultimately show ?thesis using \<open>0 < A\<close> by (simp add: PowerOf2Ceil_def)
qed

lemma PowerOf2Ceil_pow2:
  assumes "0 < A" "A \<le> 2 ^ 63"
  obtains k where "k \<le> 63" "PowerOf2Ceil A = 2 ^ k" "A \<le> 2 ^ k" "2 ^ k < 2 * A"
proof -
  obtain k where k: "A \<le> 2 ^ k" "2 ^ k < 2 * A" using ex_pow2_above [OF assms(1)] by blast
  have "(2 :: int) ^ k < 2 ^ 64" using k(2) assms(2) by simp
  then have "k \<le> 63" using power_strict_increasing_iff [of "2 :: int" k 64] by simp
  then show thesis using that PowerOf2Ceil_eq [OF _ k] k by blast
qed

section \<open>Logarithms\<close>

lemma takeWhile_upt_length:
  assumes "k \<le> n" "\<And>i. i < k \<Longrightarrow> P i" "k < n \<Longrightarrow> \<not> P k"
  shows "length (takeWhile P [0..<n]) = k"
proof -
  have "takeWhile P [0..<n] = take k [0..<n]"
    using assms by (intro takeWhile_eq_take_P_nth) simp_all
  then show ?thesis using assms(1) by simp
qed

lemma Log2_32_pow2: "k \<le> 31 \<Longrightarrow> Log2_32 (2 ^ k) = int k"
proof -
  assume k: "k \<le> 31"
  have "countLeadingZeros_32 (2 ^ k) = 31 - k"
    unfolding countLeadingZeros_32_def using k by (intro takeWhile_upt_length) (auto simp: bit_exp_iff)
  then show ?thesis using k by (simp add: Log2_32_def of_nat_diff u32_id)
qed

end
