(* ===== verification/DataLayout.thy ===== *)
theory DataLayout
  imports PowerMath Mangle
begin

text \<open>
  The layout of types in memory, \<open>lib/IR/DataLayout.cpp\<close> and \<open>include/llvm/IR/DataLayout.h\<close>: the tables of alignments
  and pointers, sizes and alignments of types, the layout of structs, and the offsets of \<open>getelementptr\<close>.
\<close>

section \<open>Types\<close>

text \<open>
  The types of \<open>include/llvm/IR/Type.h\<close>. What a pointer points to has no influence on the layout and is left out, so
  a type is a finite tree; an opaque struct is a struct without a body.
\<close>

datatype ir_type =
    VoidTy | LabelTy | MetadataTy | TokenTy | FunctionTy | OpaqueStructTy
  | HalfTy | FloatTy | DoubleTy | X86_FP80Ty | FP128Ty | PPC_FP128Ty | X86_MMXTy
  | IntegerTy int | PointerTy int | ArrayTy int ir_type | VectorTy int ir_type | StructTy bool "ir_type list"

text \<open>\<open>Type::isSized\<close>.\<close>

fun isSized :: "ir_type \<Rightarrow> bool" where
  "isSized (ArrayTy _ El) = isSized El"
| "isSized (VectorTy _ El) = isSized El"
| "isSized (StructTy _ Tys) = (\<forall>Ty \<in> set Tys. isSized Ty)"
| "isSized Ty = (Ty \<notin> {VoidTy, LabelTy, MetadataTy, TokenTy, FunctionTy, OpaqueStructTy})"

section \<open>The tables\<close>

datatype align_type = INTEGER_ALIGN | VECTOR_ALIGN | FLOAT_ALIGN | AGGREGATE_ALIGN

definition align_code :: "align_type \<Rightarrow> int" where
  "align_code t = (case t of INTEGER_ALIGN \<Rightarrow> 105 | VECTOR_ALIGN \<Rightarrow> 118 | FLOAT_ALIGN \<Rightarrow> 102 | AGGREGATE_ALIGN \<Rightarrow> 97)"

record align_elem =
  AlignType :: align_type
  TypeBitWidth :: int
  ABIAlign :: int
  PrefAlign :: int

record pointer_elem =
  AddressSpace :: int
  PtrABIAlign :: int
  PtrPrefAlign :: int
  TypeByteWidth :: int

record data_layout =
  StringRepresentation :: string
  BigEndian :: bool
  AllocaAddrSpace :: int
  StackNaturalAlign :: int
  Mangling :: mangling_mode
  LegalIntWidths :: "int list"
  Alignments :: "align_elem list"
  Pointers :: "pointer_elem list"
  NonIntegralAddressSpaces :: "int list"

definition LayoutAlignElem_get :: "align_type \<Rightarrow> int \<Rightarrow> int \<Rightarrow> int \<Rightarrow> align_elem result" where
  "LayoutAlignElem_get t abi pref w =
     (if abi \<le> pref then Inr \<lparr>AlignType = t, TypeBitWidth = w, ABIAlign = abi, PrefAlign = pref\<rparr> else Inl AssertFailed)"

definition PointerAlignElem_get :: "int \<Rightarrow> int \<Rightarrow> int \<Rightarrow> int \<Rightarrow> pointer_elem result" where
  "PointerAlignElem_get AS abi pref bytes =
     (if abi \<le> pref then Inr \<lparr>AddressSpace = AS, PtrABIAlign = abi, PtrPrefAlign = pref, TypeByteWidth = bytes\<rparr> else Inl AssertFailed)"

text \<open>\<open>std::lower_bound\<close> on a sorted vector: the elements that are less stand in front.\<close>

definition elem_less :: "align_elem \<Rightarrow> align_type \<times> int \<Rightarrow> bool" where
  "elem_less E k = (align_code (AlignType E) < align_code (fst k) \<or>
     align_code (AlignType E) = align_code (fst k) \<and> TypeBitWidth E < snd k)"

definition findAlignmentLowerBound :: "align_elem list \<Rightarrow> align_type \<Rightarrow> int \<Rightarrow> nat" where
  "findAlignmentLowerBound As t w = length (takeWhile (\<lambda>E. elem_less E (t, w)) As)"

definition setAlignment :: "align_type \<Rightarrow> int \<Rightarrow> int \<Rightarrow> int \<Rightarrow> data_layout \<Rightarrow> data_layout result" where
  "setAlignment t abi pref w DL =
     (if \<not> w < 2 ^ 24 then Inl FatalError
      else if \<not> abi < 2 ^ 16 then Inl FatalError
      else if \<not> pref < 2 ^ 16 then Inl FatalError
      else if abi \<noteq> 0 \<and> \<not> isPowerOf2_64 abi then Inl FatalError
      else if pref \<noteq> 0 \<and> \<not> isPowerOf2_64 pref then Inl FatalError
      else if pref < abi then Inl FatalError
      else
        let As = Alignments DL; I = findAlignmentLowerBound As t w in
        if I < length As \<and> AlignType (As ! I) = t \<and> TypeBitWidth (As ! I) = w
        then Inr (DL\<lparr>Alignments := As[I := (As ! I)\<lparr>ABIAlign := abi, PrefAlign := pref\<rparr>]\<rparr>)
        else bind_result (LayoutAlignElem_get t abi pref w) (\<lambda>E. Inr (DL\<lparr>Alignments := take I As @ E # drop I As\<rparr>)))"

definition findPointerLowerBound :: "pointer_elem list \<Rightarrow> int \<Rightarrow> nat" where
  "findPointerLowerBound Ps AS = length (takeWhile (\<lambda>A. AddressSpace A < AS) Ps)"

definition setPointerAlignment :: "int \<Rightarrow> int \<Rightarrow> int \<Rightarrow> int \<Rightarrow> data_layout \<Rightarrow> data_layout result" where
  "setPointerAlignment AS abi pref bytes DL =
     (if pref < abi then Inl FatalError
      else
        let Ps = Pointers DL; I = findPointerLowerBound Ps AS in
        if I = length Ps \<or> AddressSpace (Ps ! I) \<noteq> AS
        then bind_result (PointerAlignElem_get AS abi pref bytes) (\<lambda>E. Inr (DL\<lparr>Pointers := take I Ps @ E # drop I Ps\<rparr>))
        else Inr (DL\<lparr>Pointers := Ps[I := (Ps ! I)\<lparr>PtrABIAlign := abi, PtrPrefAlign := pref, TypeByteWidth := bytes\<rparr>]\<rparr>))"

text \<open>The entry of an address space, or else of address space 0.\<close>

definition pointer_entry :: "data_layout \<Rightarrow> int \<Rightarrow> pointer_elem result" where
  "pointer_entry DL AS =
     (let Ps = Pointers DL; I = findPointerLowerBound Ps AS in
      if I = length Ps \<or> AddressSpace (Ps ! I) \<noteq> AS then
        let J = findPointerLowerBound Ps 0 in
        if J < length Ps \<and> AddressSpace (Ps ! J) = 0 then Inr (Ps ! J) else Inl AssertFailed
      else Inr (Ps ! I))"

definition getPointerABIAlignment :: "data_layout \<Rightarrow> int \<Rightarrow> int result" where
  "getPointerABIAlignment DL AS = map_sum id PtrABIAlign (pointer_entry DL AS)"

definition getPointerPrefAlignment :: "data_layout \<Rightarrow> int \<Rightarrow> int result" where
  "getPointerPrefAlignment DL AS = map_sum id PtrPrefAlign (pointer_entry DL AS)"

definition getPointerSize :: "data_layout \<Rightarrow> int \<Rightarrow> int result" where
  "getPointerSize DL AS = map_sum id TypeByteWidth (pointer_entry DL AS)"

definition getPointerSizeInBits :: "data_layout \<Rightarrow> int \<Rightarrow> int result" where
  "getPointerSizeInBits DL AS = map_sum id (\<lambda>b. u32 (b * 8)) (getPointerSize DL AS)"

text \<open>
  The first part of \<open>getAlignmentInfo\<close>: an exact match, for an integer also the next larger one, or else the largest
  integer.
\<close>

definition table_alignment :: "align_elem list \<Rightarrow> align_type \<Rightarrow> int \<Rightarrow> bool \<Rightarrow> int option" where
  "table_alignment As t w ABIInfo =
     (let I = findAlignmentLowerBound As t w; info = (\<lambda>E. if ABIInfo then ABIAlign E else PrefAlign E) in
      if I < length As \<and> AlignType (As ! I) = t \<and> (TypeBitWidth (As ! I) = w \<or> t = INTEGER_ALIGN) then Some (info (As ! I))
      else if t = INTEGER_ALIGN \<and> I \<noteq> 0 \<and> AlignType (As ! (I - 1)) = INTEGER_ALIGN then Some (info (As ! (I - 1)))
      else None)"

definition getABIIntegerTypeAlignment :: "data_layout \<Rightarrow> int \<Rightarrow> int result" where
  "getABIIntegerTypeAlignment DL w = (case table_alignment (Alignments DL) INTEGER_ALIGN w True of Some a \<Rightarrow> Inr a | None \<Rightarrow> Inl Unreachable)"

text \<open>\<open>DataLayout::operator==\<close>.\<close>

definition layout_eq :: "data_layout \<Rightarrow> data_layout \<Rightarrow> bool" where
  "layout_eq DL Other = (BigEndian DL = BigEndian Other \<and> AllocaAddrSpace DL = AllocaAddrSpace Other \<and>
     StackNaturalAlign DL = StackNaturalAlign Other \<and> Mangling DL = Mangling Other \<and> LegalIntWidths DL = LegalIntWidths Other \<and>
     Alignments DL = Alignments Other \<and> Pointers DL = Pointers Other)"

section \<open>Sizes, alignments and structs\<close>

record struct_layout =
  StructSize :: int
  StructAlignment :: int
  IsPadded :: bool
  MemberOffsets :: "int list"

definition empty_struct :: struct_layout where
  "empty_struct = \<lparr>StructSize = 0, StructAlignment = 0, IsPadded = False, MemberOffsets = []\<rparr>"

text \<open>One iteration of the loop of \<open>StructLayout\<close>, with the alignment and the allocated size of the element.\<close>

definition place_element :: "int \<Rightarrow> int \<Rightarrow> struct_layout \<Rightarrow> struct_layout result" where
  "place_element TyAlign AllocSize SL =
     bind_result (if StructSize SL AND u32 (TyAlign - 1) \<noteq> 0
        then map_sum id (\<lambda>s. SL\<lparr>IsPadded := True, StructSize := s\<rparr>) (alignTo (StructSize SL) TyAlign 0)
        else Inr SL) (\<lambda>SL.
     Inr (SL\<lparr>StructAlignment := max TyAlign (StructAlignment SL), MemberOffsets := MemberOffsets SL @ [StructSize SL],
       StructSize := u64 (StructSize SL + AllocSize)\<rparr>))"

definition finish_struct :: "struct_layout \<Rightarrow> struct_layout result" where
  "finish_struct SL =
     (let SL = (if StructAlignment SL = 0 then SL\<lparr>StructAlignment := 1\<rparr> else SL) in
      if StructSize SL AND u32 (StructAlignment SL - 1) \<noteq> 0
      then map_sum id (\<lambda>s. SL\<lparr>IsPadded := True, StructSize := s\<rparr>) (alignTo (StructSize SL) (StructAlignment SL) 0)
      else Inr SL)"

function (sequential) getTypeSizeInBits :: "data_layout \<Rightarrow> ir_type \<Rightarrow> int result"
  and getAlignment :: "data_layout \<Rightarrow> ir_type \<Rightarrow> bool \<Rightarrow> int result"
  and getAlignmentInfo :: "data_layout \<Rightarrow> align_type \<Rightarrow> int \<Rightarrow> bool \<Rightarrow> ir_type \<Rightarrow> int result"
  and getTypeAllocSize :: "data_layout \<Rightarrow> ir_type \<Rightarrow> int result"
  and layout_elements :: "data_layout \<Rightarrow> bool \<Rightarrow> ir_type list \<Rightarrow> struct_layout \<Rightarrow> struct_layout result"
  and getStructLayout :: "data_layout \<Rightarrow> bool \<Rightarrow> ir_type list \<Rightarrow> struct_layout result"
where
  "getTypeSizeInBits DL Ty =
     (if \<not> isSized Ty then Inl AssertFailed
      else (case Ty of
        PointerTy AS \<Rightarrow> getPointerSizeInBits DL AS
      | ArrayTy n El \<Rightarrow> bind_result (getTypeAllocSize DL El) (\<lambda>s. Inr (u64 (n * u64 (8 * s))))
      | StructTy Packed Tys \<Rightarrow> bind_result (getStructLayout DL Packed Tys) (\<lambda>SL. Inr (u64 (8 * StructSize SL)))
      | IntegerTy w \<Rightarrow> Inr w
      | HalfTy \<Rightarrow> Inr 16
      | FloatTy \<Rightarrow> Inr 32
      | DoubleTy \<Rightarrow> Inr 64
      | X86_MMXTy \<Rightarrow> Inr 64
      | PPC_FP128Ty \<Rightarrow> Inr 128
      | FP128Ty \<Rightarrow> Inr 128
      | X86_FP80Ty \<Rightarrow> Inr 80
      | VectorTy n El \<Rightarrow> bind_result (getTypeSizeInBits DL El) (\<lambda>b. Inr (u64 (n * b)))
      | _ \<Rightarrow> Inl Unreachable))"
| "getAlignment DL Ty ABI =
     (if \<not> isSized Ty then Inl AssertFailed
      else
        let info = (\<lambda>t. bind_result (getTypeSizeInBits DL Ty) (\<lambda>b. getAlignmentInfo DL t (u32 b) ABI Ty)) in
        case Ty of
          PointerTy AS \<Rightarrow> if ABI then getPointerABIAlignment DL AS else getPointerPrefAlignment DL AS
        | ArrayTy n El \<Rightarrow> getAlignment DL El ABI
        | StructTy Packed Tys \<Rightarrow>
            if Packed \<and> ABI then Inr 1
            else bind_result (getStructLayout DL Packed Tys) (\<lambda>SL.
                 bind_result (getAlignmentInfo DL AGGREGATE_ALIGN 0 ABI Ty) (\<lambda>a. Inr (max a (StructAlignment SL))))
        | IntegerTy w \<Rightarrow> info INTEGER_ALIGN
        | VectorTy n El \<Rightarrow> info VECTOR_ALIGN
        | X86_MMXTy \<Rightarrow> info VECTOR_ALIGN
        | _ \<Rightarrow> info FLOAT_ALIGN)"
| "getAlignmentInfo DL t w ABI Ty =
     (case table_alignment (Alignments DL) t w ABI of
        Some a \<Rightarrow> Inr a
      | None \<Rightarrow>
          if t = VECTOR_ALIGN then
            (case Ty of
               VectorTy n El \<Rightarrow> bind_result (getTypeAllocSize DL El) (\<lambda>s. Inr (u32 (PowerOf2Ceil (u32 (u32 s * n)))))
             | _ \<Rightarrow> Inl AssertFailed)
          else bind_result (getTypeSizeInBits DL Ty) (\<lambda>b. Inr (u32 (PowerOf2Ceil (u32 (u64 (b + 7) div 8))))))"
| "getTypeAllocSize DL Ty =
     bind_result (getTypeSizeInBits DL Ty) (\<lambda>b. bind_result (getAlignment DL Ty True) (\<lambda>a. alignTo (u64 (b + 7) div 8) a 0))"
| "layout_elements DL Packed [] SL = Inr SL"
| "layout_elements DL Packed (Ty # Tys) SL =
     bind_result (if Packed then Inr 1 else getAlignment DL Ty True) (\<lambda>a.
     bind_result (getTypeAllocSize DL Ty) (\<lambda>s.
     bind_result (place_element a s SL) (\<lambda>SL. layout_elements DL Packed Tys SL)))"
| "getStructLayout DL Packed Tys = bind_result (layout_elements DL Packed Tys empty_struct) finish_struct"
  by pat_completeness auto

termination
  by (relation "measure (\<lambda>x. case x of
      Inl (Inl (_, Ty)) \<Rightarrow> 5 * size Ty + 1
    | Inl (Inr (Inl (_, Ty, _))) \<Rightarrow> 5 * size Ty + 3
    | Inl (Inr (Inr (_, _, _, _, Ty))) \<Rightarrow> 5 * size Ty + 2
    | Inr (Inl (_, Ty)) \<Rightarrow> 5 * size Ty + 4
    | Inr (Inr (Inl (_, _, Tys, _))) \<Rightarrow> 5 * size_list size Tys
    | Inr (Inr (Inr (_, _, Tys))) \<Rightarrow> 5 * size_list size Tys + 1)") simp_all

lemmas layout_rec_simps = getTypeSizeInBits.simps getAlignment.simps getAlignmentInfo.simps getTypeAllocSize.simps
  layout_elements.simps getStructLayout.simps

declare layout_rec_simps [simp del]

definition getTypeStoreSize :: "data_layout \<Rightarrow> ir_type \<Rightarrow> int result" where
  "getTypeStoreSize DL Ty = map_sum id (\<lambda>b. u64 (b + 7) div 8) (getTypeSizeInBits DL Ty)"

definition getTypeStoreSizeInBits :: "data_layout \<Rightarrow> ir_type \<Rightarrow> int result" where
  "getTypeStoreSizeInBits DL Ty = map_sum id (\<lambda>s. u64 (8 * s)) (getTypeStoreSize DL Ty)"

definition getTypeAllocSizeInBits :: "data_layout \<Rightarrow> ir_type \<Rightarrow> int result" where
  "getTypeAllocSizeInBits DL Ty = map_sum id (\<lambda>s. u64 (8 * s)) (getTypeAllocSize DL Ty)"

definition getABITypeAlignment :: "data_layout \<Rightarrow> ir_type \<Rightarrow> int result" where
  "getABITypeAlignment DL Ty = getAlignment DL Ty True"

definition getPrefTypeAlignment :: "data_layout \<Rightarrow> ir_type \<Rightarrow> int result" where
  "getPrefTypeAlignment DL Ty = getAlignment DL Ty False"

definition getPreferredTypeAlignmentShift :: "data_layout \<Rightarrow> ir_type \<Rightarrow> int result" where
  "getPreferredTypeAlignmentShift DL Ty =
     bind_result (getPrefTypeAlignment DL Ty) (\<lambda>a. if a AND u32 (a - 1) \<noteq> 0 then Inl AssertFailed else Inr (Log2_32 a))"

text \<open>The preferred alignment of a global, from the type of its value, its own alignment and whether it has an initializer.\<close>

definition getPreferredAlignment :: "data_layout \<Rightarrow> ir_type \<Rightarrow> int \<Rightarrow> bool \<Rightarrow> int result" where
  "getPreferredAlignment DL ElemType GVAlignment hasInitializer =
     bind_result (getPrefTypeAlignment DL ElemType) (\<lambda>a.
     bind_result (if GVAlignment \<ge> a then Inr GVAlignment
       else if GVAlignment \<noteq> 0 then map_sum id (max GVAlignment) (getABITypeAlignment DL ElemType)
       else Inr a) (\<lambda>a.
     if hasInitializer \<and> GVAlignment = 0 \<and> a < 16
     then map_sum id (\<lambda>b. if b > 128 then 16 else a) (getTypeSizeInBits DL ElemType)
     else Inr a))"

definition getPreferredAlignmentLog :: "data_layout \<Rightarrow> ir_type \<Rightarrow> int \<Rightarrow> bool \<Rightarrow> int result" where
  "getPreferredAlignmentLog DL ElemType GVAlignment hasInitializer =
     map_sum id Log2_32 (getPreferredAlignment DL ElemType GVAlignment hasInitializer)"

section \<open>Integers of the machine\<close>

text \<open>The size of a pointer or of the elements of a vector of pointers, and the integer types as wide as they are.\<close>

definition getPointerTypeSizeInBits :: "data_layout \<Rightarrow> ir_type \<Rightarrow> int result" where
  "getPointerTypeSizeInBits DL Ty =
     (case (case Ty of VectorTy _ El \<Rightarrow> El | _ \<Rightarrow> Ty) of PointerTy AS \<Rightarrow> getPointerSizeInBits DL AS | _ \<Rightarrow> Inl AssertFailed)"

definition getIntPtrType :: "data_layout \<Rightarrow> int \<Rightarrow> ir_type result" where
  "getIntPtrType DL AS = map_sum id IntegerTy (getPointerSizeInBits DL AS)"

definition getIntPtrType_of :: "data_layout \<Rightarrow> ir_type \<Rightarrow> ir_type result" where
  "getIntPtrType_of DL Ty =
     bind_result (getPointerTypeSizeInBits DL Ty) (\<lambda>NumBits.
     Inr (case Ty of VectorTy n _ \<Rightarrow> VectorTy n (IntegerTy NumBits) | _ \<Rightarrow> IntegerTy NumBits))"

definition isLegalInteger :: "data_layout \<Rightarrow> int \<Rightarrow> bool" where
  "isLegalInteger DL Width = (Width \<in> set (LegalIntWidths DL))"

definition fitsInLegalInteger :: "data_layout \<Rightarrow> int \<Rightarrow> bool" where
  "fitsInLegalInteger DL Width = (\<exists>w \<in> set (LegalIntWidths DL). Width \<le> w)"

definition getSmallestLegalIntType :: "data_layout \<Rightarrow> int \<Rightarrow> ir_type option" where
  "getSmallestLegalIntType DL Width = map_option IntegerTy (find (\<lambda>w. Width \<le> w) (LegalIntWidths DL))"

definition getLargestLegalIntTypeSizeInBits :: "data_layout \<Rightarrow> int" where
  "getLargestLegalIntTypeSizeInBits DL = (if LegalIntWidths DL = [] then 0 else foldl max (hd (LegalIntWidths DL)) (LegalIntWidths DL))"

definition exceedsNaturalStackAlignment :: "data_layout \<Rightarrow> int \<Rightarrow> bool" where
  "exceedsNaturalStackAlignment DL Align = (StackNaturalAlign DL \<noteq> 0 \<and> Align > StackNaturalAlign DL)"

section \<open>Fields\<close>

definition getElementOffset :: "struct_layout \<Rightarrow> nat \<Rightarrow> int result" where
  "getElementOffset SL Idx = (if Idx < length (MemberOffsets SL) then Inr (MemberOffsets SL ! Idx) else Inl AssertFailed)"

text \<open>\<open>SI\<close> is the position that \<open>std::upper_bound\<close> finds.\<close>

definition getElementContainingOffset :: "struct_layout \<Rightarrow> int \<Rightarrow> nat result" where
  "getElementContainingOffset SL Off =
     (let Offs = MemberOffsets SL; SI = length (takeWhile (\<lambda>x. x \<le> Off) Offs) in
      if SI = 0 then Inl AssertFailed
      else
        let SI = SI - 1 in
        if \<not> Offs ! SI \<le> Off then Inl AssertFailed
        else if \<not> ((SI = 0 \<or> Offs ! (SI - 1) \<le> Off) \<and> (SI + 1 = length Offs \<or> Offs ! (SI + 1) > Off)) then Inl AssertFailed
        else Inr SI)"

text \<open>
  The iterator over the types of a \<open>getelementptr\<close> (\<open>include/llvm/IR/GetElementPtrTypeIterator.h\<close>) is at a struct, at the
  element type of a sequence, or past a type that has no elements. An index is a constant integer, its width and
  its signed value.
\<close>

datatype gep_type = In_Struct bool "ir_type list" | In_Opaque | In_Sequence ir_type | In_Scalar

type_synonym gep_index = "int \<times> int"

definition next_gep_type :: "ir_type \<Rightarrow> gep_type" where
  "next_gep_type Ty = (case Ty of ArrayTy _ El \<Rightarrow> In_Sequence El | VectorTy _ El \<Rightarrow> In_Sequence El
     | StructTy Packed Tys \<Rightarrow> In_Struct Packed Tys | OpaqueStructTy \<Rightarrow> In_Opaque | _ \<Rightarrow> In_Scalar)"

fun gep_offset :: "data_layout \<Rightarrow> gep_type \<Rightarrow> gep_index list \<Rightarrow> int \<Rightarrow> int result" where
  "gep_offset DL CurTy [] Result = Inr Result"
| "gep_offset DL (In_Struct Packed Tys) ((Width, Idx) # Indices) Result =
     (if Width \<noteq> 32 then Inl AssertFailed
      else
        let FieldNo = nat (u32 Idx) in
        bind_result (getStructLayout DL Packed Tys) (\<lambda>Layout.
        bind_result (getElementOffset Layout FieldNo) (\<lambda>Off.
        gep_offset DL (next_gep_type (Tys ! FieldNo)) Indices (i64 (Result + Off)))))"
| "gep_offset DL In_Opaque (_ # _) Result = Inl AssertFailed"
| "gep_offset DL (In_Sequence El) ((Width, Idx) # Indices) Result =
     bind_result (if Idx \<noteq> 0 then map_sum id (\<lambda>s. i64 (Result + u64 (Idx * s))) (getTypeAllocSize DL El) else Inr Result) (\<lambda>Result.
     gep_offset DL (next_gep_type El) Indices Result)"
| "gep_offset DL In_Scalar (_ # _) Result = Inl Unreachable"

definition getIndexedOffsetInType :: "data_layout \<Rightarrow> ir_type \<Rightarrow> gep_index list \<Rightarrow> int result" where
  "getIndexedOffsetInType DL ElemTy Indices = gep_offset DL (In_Sequence ElemTy) Indices 0"

end
