(* ===== verification/LayoutTables.thy ===== *)
theory LayoutTables
  imports DataLayout
begin

text \<open>
  The tables of a data layout: what makes them well formed, that they are sorted maps which \<open>setAlignment\<close> and
  \<open>setPointerAlignment\<close> update, and what the lookup of \<open>getAlignmentInfo\<close> returns.
\<close>

section \<open>Well-formed layouts\<close>

definition pow2_upto :: "nat \<Rightarrow> int \<Rightarrow> bool" where
  "pow2_upto n a = (\<exists>k \<le> n. a = 2 ^ k)"

lemma pow2_uptoD: "pow2_upto n a \<Longrightarrow> 1 \<le> a \<and> a \<le> 2 ^ n"
  by (auto simp: pow2_upto_def)

lemma pow2_upto_mono: "pow2_upto n a \<Longrightarrow> n \<le> m \<Longrightarrow> pow2_upto m a"
  by (auto simp: pow2_upto_def)

lemma pow2_upto_max: "pow2_upto n a \<Longrightarrow> pow2_upto n b \<Longrightarrow> pow2_upto n (max a b)"
  by (auto simp: max_def)

lemma pow2_upto_1: "pow2_upto n 1"
  by (auto simp: pow2_upto_def intro: exI [of _ 0])

lemma pow2_upto_dvd: "pow2_upto n a \<Longrightarrow> pow2_upto m b \<Longrightarrow> a \<le> b \<Longrightarrow> a dvd b"
  by (auto simp: pow2_upto_def le_imp_power_dvd)

definition elem_ok :: "align_elem \<Rightarrow> bool" where
  "elem_ok E = (0 \<le> TypeBitWidth E \<and> TypeBitWidth E < 2 ^ 24 \<and>
     (pow2_upto 15 (ABIAlign E) \<or> ABIAlign E = 0 \<and> AlignType E = AGGREGATE_ALIGN) \<and>
     (pow2_upto 15 (PrefAlign E) \<or> PrefAlign E = 0 \<and> AlignType E = AGGREGATE_ALIGN) \<and> ABIAlign E \<le> PrefAlign E)"

definition pointer_ok :: "pointer_elem \<Rightarrow> bool" where
  "pointer_ok P = (0 \<le> AddressSpace P \<and> pow2_upto 31 (PtrABIAlign P) \<and> pow2_upto 31 (PtrPrefAlign P) \<and> PtrABIAlign P \<le> PtrPrefAlign P \<and>
     1 \<le> TypeByteWidth P \<and> TypeByteWidth P < 2 ^ 29)"

definition table_sorted :: "align_elem list \<Rightarrow> bool" where
  "table_sorted = sorted_wrt (\<lambda>E F. elem_less E (AlignType F, TypeBitWidth F))"

definition layout_ok :: "data_layout \<Rightarrow> bool" where
  "layout_ok DL = (table_sorted (Alignments DL) \<and> (\<forall>E \<in> set (Alignments DL). elem_ok E) \<and>
     (\<exists>E \<in> set (Alignments DL). AlignType E = AGGREGATE_ALIGN \<and> TypeBitWidth E = 0) \<and>
     sorted_wrt (\<lambda>P Q. AddressSpace P < AddressSpace Q) (Pointers DL) \<and> (\<forall>P \<in> set (Pointers DL). pointer_ok P) \<and>
     (\<exists>P \<in> set (Pointers DL). AddressSpace P = 0))"

section \<open>A sorted table is a map\<close>

lemma align_code_inject: "align_code s = align_code t \<longleftrightarrow> s = t"
  by (cases s; cases t) (simp_all add: align_code_def)

lemma elem_less_linear: "elem_less E (t, w) \<or> AlignType E = t \<and> TypeBitWidth E = w \<or> elem_less \<lparr>AlignType = t, TypeBitWidth = w, ABIAlign = a, PrefAlign = p\<rparr> (AlignType E, TypeBitWidth E)"
  using align_code_inject [of "AlignType E" t] by (auto simp: elem_less_def)

lemma elem_less_trans: "elem_less E (AlignType F, TypeBitWidth F) \<Longrightarrow> elem_less F k \<Longrightarrow> elem_less E k"
  by (auto simp: elem_less_def)

text \<open>The bound separates the elements that are less from the others.\<close>

lemma findAlignmentLowerBound_splits:
  fixes As :: "align_elem list" and t :: align_type and w :: int
  assumes "table_sorted As"
  defines "I \<equiv> findAlignmentLowerBound As t w"
  shows "I \<le> length As" "\<And>E. E \<in> set (take I As) \<Longrightarrow> elem_less E (t, w)" "\<And>E. E \<in> set (drop I As) \<Longrightarrow> \<not> elem_less E (t, w)"
proof -
  let ?P = "\<lambda>E. elem_less E (t, w)"
  show "I \<le> length As" by (simp add: I_def findAlignmentLowerBound_def length_takeWhile_le)
  have take: "take I As = takeWhile ?P As" by (simp add: I_def findAlignmentLowerBound_def flip: takeWhile_eq_take)
  then show "E \<in> set (take I As) \<Longrightarrow> ?P E" for E by (auto dest: set_takeWhileD)
  have drop: "drop I As = dropWhile ?P As" by (simp add: I_def findAlignmentLowerBound_def flip: dropWhile_eq_drop)
  show "\<not> ?P E" if "E \<in> set (drop I As)" for E
  proof (cases "dropWhile ?P As")
    case Nil
    then have "drop I As = []" using drop by simp
    then show ?thesis using that by simp
  next
    case (Cons F Fs)
    then have F: "\<not> ?P F" using hd_dropWhile [of ?P As] by simp
    have "table_sorted (dropWhile ?P As)" using assms(1) by (simp add: table_sorted_def sorted_wrt_drop flip: drop)
    then have "\<forall>G \<in> set Fs. elem_less F (AlignType G, TypeBitWidth G)" using Cons by (simp add: table_sorted_def)
    then show ?thesis using that F drop Cons elem_less_trans by auto
  qed
qed

text \<open>The entry of a type and a width, when the table has one, is at the bound.\<close>

definition has_key :: "align_type \<Rightarrow> int \<Rightarrow> align_elem \<Rightarrow> bool" where
  "has_key t w E = (AlignType E = t \<and> TypeBitWidth E = w)"

lemma not_less_cases: "\<not> elem_less E (t, w) \<Longrightarrow> has_key t w E \<or> (\<forall>F. has_key t w F \<longrightarrow> elem_less F (AlignType E, TypeBitWidth E))"
  using align_code_inject [of "AlignType E" t] by (auto simp: elem_less_def has_key_def)

lemma has_key_not_less: "has_key t w E \<Longrightarrow> \<not> elem_less E (t, w)"
  by (auto simp: elem_less_def has_key_def)

lemma entry_at_bound:
  fixes As :: "align_elem list" and t :: align_type and w :: int
  assumes "table_sorted As" "E \<in> set As" "has_key t w E"
  defines "I \<equiv> findAlignmentLowerBound As t w"
  shows "I < length As" "As ! I = E"
proof -
  note sp = findAlignmentLowerBound_splits [OF assms(1), where t = t and w = w, folded I_def]
  have "E \<in> set (take I As) \<or> E \<in> set (drop I As)" using assms(2) append_take_drop_id [of I As] by (metis Un_iff set_append)
  then have E: "E \<in> set (drop I As)" using sp(2) has_key_not_less assms(3) by blast
  then show I: "I < length As" by (cases "I < length As") simp_all
  then have d: "drop I As = As ! I # drop (Suc I) As" by (rule Cons_nth_drop_Suc [symmetric])
  have "table_sorted (drop I As)" using assms(1) by (simp add: table_sorted_def sorted_wrt_drop)
  then have "\<forall>G \<in> set (drop (Suc I) As). elem_less (As ! I) (AlignType G, TypeBitWidth G)" using d by (simp add: table_sorted_def)
  moreover have "\<not> elem_less (As ! I) (t, w)" using sp(3) d by simp
  ultimately show "As ! I = E" using E d assms(3) by (auto simp: has_key_def)
qed

lemma table_sorted_append:
  "table_sorted (xs @ E # ys) \<longleftrightarrow> table_sorted xs \<and> table_sorted ys \<and>
     (\<forall>F \<in> set xs. elem_less F (AlignType E, TypeBitWidth E) \<and> (\<forall>G \<in> set ys. elem_less F (AlignType G, TypeBitWidth G))) \<and>
     (\<forall>G \<in> set ys. elem_less E (AlignType G, TypeBitWidth G))"
  by (auto simp: table_sorted_def sorted_wrt_append)

text \<open>\<open>setAlignment\<close> overwrites the entry of its type and width, or adds one at its place.\<close>

definition new_elem :: "align_type \<Rightarrow> int \<Rightarrow> int \<Rightarrow> int \<Rightarrow> align_elem" where
  "new_elem t abi pref w = \<lparr>AlignType = t, TypeBitWidth = w, ABIAlign = abi, PrefAlign = pref\<rparr>"

lemma overwrite_elem: "AlignType E = t \<Longrightarrow> TypeBitWidth E = w \<Longrightarrow> E\<lparr>ABIAlign := abi, PrefAlign := pref\<rparr> = new_elem t abi pref w"
  by (cases E) (simp add: new_elem_def)

lemma setAlignment_table:
  assumes "setAlignment t abi pref w DL = Inr DL'" "table_sorted (Alignments DL)"
  obtains xs ys where "DL' = DL\<lparr>Alignments := xs @ new_elem t abi pref w # ys\<rparr>"
    and "table_sorted (xs @ new_elem t abi pref w # ys)"
    and "set xs \<union> set ys = {E \<in> set (Alignments DL). \<not> has_key t w E}"
proof -
  define As where "As = Alignments DL"
  define I where "I = findAlignmentLowerBound As t w"
  have sorted: "table_sorted As" using assms(2) by (simp add: As_def)
  note sp = findAlignmentLowerBound_splits [OF sorted, where t = t and w = w, folded I_def]
  have "table_sorted (take I As @ drop I As)" using sorted by (simp only: append_take_drop_id)
  then have cross: "\<forall>F \<in> set (take I As). \<forall>G \<in> set (drop I As). elem_less F (AlignType G, TypeBitWidth G)"
    unfolding table_sorted_def sorted_wrt_append by blast
  have take_less: "elem_less F (t, w)" "elem_less F (AlignType G, TypeBitWidth G)"
    if "F \<in> set (take I As)" "G \<in> set (drop I As)" for F G
    using that sp(2) cross by blast+
  have parts: "table_sorted (take I As)" "table_sorted (drop I As)"
    using sorted by (simp_all add: table_sorted_def sorted_wrt_take sorted_wrt_drop)
  have no_key: "\<not> has_key t w F" if "F \<in> set (take I As)" for F using that sp(2) has_key_not_less by blast
  show thesis
  proof (cases "I < length As \<and> AlignType (As ! I) = t \<and> TypeBitWidth (As ! I) = w")
    case True
    then have d: "drop I As = As ! I # drop (Suc I) As" by (simp add: Cons_nth_drop_Suc)
    have "table_sorted (drop I As)" by (fact parts)
    then have rest: "\<forall>G \<in> set (drop (Suc I) As). elem_less (As ! I) (AlignType G, TypeBitWidth G)" "table_sorted (drop (Suc I) As)"
      using d by (simp_all add: table_sorted_def)
    have eq: "DL' = DL\<lparr>Alignments := take I As @ new_elem t abi pref w # drop (Suc I) As\<rparr>"
      using assms(1) True overwrite_elem [of "As ! I" t w, where abi = abi and pref = pref]
      by (simp add: setAlignment_def As_def I_def Let_def upd_conv_take_nth_drop split: if_splits)
    have srt: "table_sorted (take I As @ new_elem t abi pref w # drop (Suc I) As)"
      unfolding table_sorted_append using parts rest True take_less d by (auto simp: new_elem_def elem_less_def)
    have later: "\<not> has_key t w G" if "G \<in> set (drop (Suc I) As)" for G
      using rest(1) that True by (auto simp: has_key_def elem_less_def)
    have "set As = set (take I As) \<union> set (drop I As)" by (metis append_take_drop_id set_append)
    then have "set As = set (take I As) \<union> insert (As ! I) (set (drop (Suc I) As))" by (simp only: d list.set)
    moreover have "has_key t w (As ! I)" using True by (simp add: has_key_def)
    ultimately have rst: "set (take I As) \<union> set (drop (Suc I) As) = {E \<in> set As. \<not> has_key t w E}" using no_key later by blast
    show thesis using that [OF eq srt] rst by (simp only: As_def)
  next
    case False
    have new: "\<not> has_key t w G" if "G \<in> set As" for G
      using entry_at_bound [OF sorted that] False by (auto simp: has_key_def I_def)
    have gt: "elem_less (new_elem t abi pref w) (AlignType G, TypeBitWidth G)" if "G \<in> set (drop I As)" for G
      using not_less_cases [OF sp(3) [OF that]] new [OF in_set_dropD [OF that]] by (auto simp: has_key_def new_elem_def)
    have "DL' = DL\<lparr>Alignments := take I As @ new_elem t abi pref w # drop I As\<rparr>"
      using assms(1) False by (auto simp: setAlignment_def As_def I_def new_elem_def LayoutAlignElem_get_def Let_def split: if_splits)
    moreover have "table_sorted (take I As @ new_elem t abi pref w # drop I As)"
      unfolding table_sorted_append using parts take_less sp(2) gt by (auto simp: new_elem_def)
    moreover have "set (take I As) \<union> set (drop I As) = set As" by (metis append_take_drop_id set_append)
    then have "set (take I As) \<union> set (drop I As) = {E \<in> set As. \<not> has_key t w E}" using new by blast
    ultimately show thesis using that by (simp only: As_def)
  qed
qed

text \<open>The table of pointers is sorted by the address space alone.\<close>

definition spaces_sorted :: "pointer_elem list \<Rightarrow> bool" where
  "spaces_sorted = sorted_wrt (\<lambda>P Q. AddressSpace P < AddressSpace Q)"

lemma findPointerLowerBound_splits:
  fixes Ps :: "pointer_elem list" and AS :: int
  assumes "spaces_sorted Ps"
  defines "I \<equiv> findPointerLowerBound Ps AS"
  shows "I \<le> length Ps" "\<And>P. P \<in> set (take I Ps) \<Longrightarrow> AddressSpace P < AS" "\<And>P. P \<in> set (drop I Ps) \<Longrightarrow> AS \<le> AddressSpace P"
proof -
  let ?P = "\<lambda>P. AddressSpace P < AS"
  show "I \<le> length Ps" by (simp add: I_def findPointerLowerBound_def length_takeWhile_le)
  have take: "take I Ps = takeWhile ?P Ps" by (simp add: I_def findPointerLowerBound_def flip: takeWhile_eq_take)
  then show "P \<in> set (take I Ps) \<Longrightarrow> ?P P" for P by (auto dest: set_takeWhileD)
  have drop: "drop I Ps = dropWhile ?P Ps" by (simp add: I_def findPointerLowerBound_def flip: dropWhile_eq_drop)
  show "AS \<le> AddressSpace P" if "P \<in> set (drop I Ps)" for P
  proof (cases "dropWhile ?P Ps")
    case Nil
    then have "drop I Ps = []" using drop by simp
    then show ?thesis using that by simp
  next
    case (Cons F Fs)
    then have F: "AS \<le> AddressSpace F" using hd_dropWhile [of ?P Ps] by simp
    have "spaces_sorted (dropWhile ?P Ps)" using assms(1) by (simp add: spaces_sorted_def sorted_wrt_drop flip: drop)
    then have "\<forall>G \<in> set Fs. AddressSpace F < AddressSpace G" using Cons by (simp add: spaces_sorted_def)
    then show ?thesis using that F drop Cons by fastforce
  qed
qed

lemma entry_at_space:
  fixes Ps :: "pointer_elem list" and AS :: int
  assumes "spaces_sorted Ps" "P \<in> set Ps" "AddressSpace P = AS"
  defines "I \<equiv> findPointerLowerBound Ps AS"
  shows "I < length Ps" "Ps ! I = P"
proof -
  note sp = findPointerLowerBound_splits [OF assms(1), where AS = AS, folded I_def]
  have "P \<in> set (take I Ps) \<or> P \<in> set (drop I Ps)" using assms(2) append_take_drop_id [of I Ps] by (metis Un_iff set_append)
  then have P: "P \<in> set (drop I Ps)" using sp(2) assms(3) by fastforce
  then show I: "I < length Ps" by (cases "I < length Ps") simp_all
  then have d: "drop I Ps = Ps ! I # drop (Suc I) Ps" by (rule Cons_nth_drop_Suc [symmetric])
  have "spaces_sorted (drop I Ps)" using assms(1) by (simp add: spaces_sorted_def sorted_wrt_drop)
  then have "\<forall>G \<in> set (drop (Suc I) Ps). AddressSpace (Ps ! I) < AddressSpace G" using d by (simp add: spaces_sorted_def)
  moreover have "AS \<le> AddressSpace (Ps ! I)" using sp(3) d by simp
  ultimately show "Ps ! I = P" using P d assms(3) by fastforce
qed

lemma spaces_sorted_append:
  "spaces_sorted (xs @ P # ys) \<longleftrightarrow> spaces_sorted xs \<and> spaces_sorted ys \<and>
     (\<forall>F \<in> set xs. AddressSpace F < AddressSpace P \<and> (\<forall>G \<in> set ys. AddressSpace F < AddressSpace G)) \<and>
     (\<forall>G \<in> set ys. AddressSpace P < AddressSpace G)"
  by (auto simp: spaces_sorted_def sorted_wrt_append)

definition new_pointer :: "int \<Rightarrow> int \<Rightarrow> int \<Rightarrow> int \<Rightarrow> pointer_elem" where
  "new_pointer AS abi pref bytes = \<lparr>AddressSpace = AS, PtrABIAlign = abi, PtrPrefAlign = pref, TypeByteWidth = bytes\<rparr>"

lemma overwrite_pointer:
  "AddressSpace P = AS \<Longrightarrow> P\<lparr>PtrABIAlign := abi, PtrPrefAlign := pref, TypeByteWidth := bytes\<rparr> = new_pointer AS abi pref bytes"
  by (cases P) (simp add: new_pointer_def)

lemma setPointerAlignment_table:
  assumes "setPointerAlignment AS abi pref bytes DL = Inr DL'" "spaces_sorted (Pointers DL)"
  obtains xs ys where "DL' = DL\<lparr>Pointers := xs @ new_pointer AS abi pref bytes # ys\<rparr>"
    and "spaces_sorted (xs @ new_pointer AS abi pref bytes # ys)"
    and "set xs \<union> set ys = {P \<in> set (Pointers DL). AddressSpace P \<noteq> AS}"
proof -
  define Ps where "Ps = Pointers DL"
  define I where "I = findPointerLowerBound Ps AS"
  have sorted: "spaces_sorted Ps" using assms(2) by (simp add: Ps_def)
  note sp = findPointerLowerBound_splits [OF sorted, where AS = AS, folded I_def]
  have "spaces_sorted (take I Ps @ drop I Ps)" using sorted by (simp only: append_take_drop_id)
  then have cross: "\<forall>F \<in> set (take I Ps). \<forall>G \<in> set (drop I Ps). AddressSpace F < AddressSpace G"
    unfolding spaces_sorted_def sorted_wrt_append by blast
  have parts: "spaces_sorted (take I Ps)" "spaces_sorted (drop I Ps)"
    using sorted by (simp_all add: spaces_sorted_def sorted_wrt_take sorted_wrt_drop)
  have split: "set (take I Ps) \<union> set (drop I Ps) = set Ps" by (metis append_take_drop_id set_append)
  show thesis
  proof (cases "I = length Ps \<or> AddressSpace (Ps ! I) \<noteq> AS")
    case False
    then have I: "I < length Ps" using sp(1) by simp
    then have d: "drop I Ps = Ps ! I # drop (Suc I) Ps" by (rule Cons_nth_drop_Suc [symmetric])
    then have rest: "\<forall>G \<in> set (drop (Suc I) Ps). AddressSpace (Ps ! I) < AddressSpace G" "spaces_sorted (drop (Suc I) Ps)"
      using parts(2) by (simp_all add: spaces_sorted_def)
    have "DL' = DL\<lparr>Pointers := take I Ps @ new_pointer AS abi pref bytes # drop (Suc I) Ps\<rparr>"
      using assms(1) False overwrite_pointer [of "Ps ! I" AS, where abi = abi and pref = pref and bytes = bytes] I
      by (simp add: setPointerAlignment_def Ps_def I_def Let_def upd_conv_take_nth_drop split: if_splits)
    moreover have "spaces_sorted (take I Ps @ new_pointer AS abi pref bytes # drop (Suc I) Ps)"
      unfolding spaces_sorted_append using parts rest False cross d sp(2) by (auto simp: new_pointer_def)
    moreover have "set (take I Ps) \<union> set (drop (Suc I) Ps) = {P \<in> set Ps. AddressSpace P \<noteq> AS}"
      using split d False rest(1) sp(2) by fastforce
    ultimately show thesis using that by (simp only: Ps_def)
  next
    case True
    have new: "AddressSpace P \<noteq> AS" if "P \<in> set Ps" for P
      using entry_at_space [OF sorted that] True by (auto simp: I_def)
    have "DL' = DL\<lparr>Pointers := take I Ps @ new_pointer AS abi pref bytes # drop I Ps\<rparr>"
      using assms(1) True by (auto simp: setPointerAlignment_def Ps_def I_def new_pointer_def PointerAlignElem_get_def Let_def split: if_splits)
    moreover have "spaces_sorted (take I Ps @ new_pointer AS abi pref bytes # drop I Ps)"
      unfolding spaces_sorted_append using parts cross sp(2,3) new in_set_dropD [of _ I Ps] by (fastforce simp: new_pointer_def)
    moreover have "set (take I Ps) \<union> set (drop I Ps) = {P \<in> set Ps. AddressSpace P \<noteq> AS}" using split new by blast
    ultimately show thesis using that by (simp only: Ps_def)
  qed
qed

section \<open>Well-formedness is kept\<close>

lemma layout_okD:
  assumes "layout_ok DL"
  shows "table_sorted (Alignments DL)" "\<And>E. E \<in> set (Alignments DL) \<Longrightarrow> elem_ok E"
    "\<exists>E \<in> set (Alignments DL). AlignType E = AGGREGATE_ALIGN \<and> TypeBitWidth E = 0"
    "spaces_sorted (Pointers DL)" "\<And>P. P \<in> set (Pointers DL) \<Longrightarrow> pointer_ok P" "\<exists>P \<in> set (Pointers DL). AddressSpace P = 0"
  using assms by (auto simp: layout_ok_def spaces_sorted_def)

lemma pow2_upto_test:
  assumes "isPowerOf2_64 a" "0 \<le> a" "a < 2 ^ Suc n" "n \<le> 62"
  shows "pow2_upto n a"
proof -
  have "(2 :: int) ^ Suc n \<le> 2 ^ 64" using assms(4) by (intro power_increasing) simp_all
  then have "a < 2 ^ 64" using assms(3) by linarith
  then obtain k where "a = 2 ^ k" using assms(1,2) isPowerOf2_64_iff [of a] by auto
  moreover from this have "k < Suc n" using assms(3) by (simp only: power_strict_increasing_iff)
  ultimately show ?thesis by (auto simp: pow2_upto_def)
qed

lemma setAlignment_ok:
  assumes "setAlignment t abi pref w DL = Inr DL'" "layout_ok DL" "0 \<le> w" "0 \<le> abi" "0 \<le> pref"
    and "t \<noteq> AGGREGATE_ALIGN \<Longrightarrow> abi \<noteq> 0"
  shows "layout_ok DL'"
proof -
  note ok = layout_okD [OF assms(2)]
  obtain xs ys where DL': "DL' = DL\<lparr>Alignments := xs @ new_elem t abi pref w # ys\<rparr>"
    and sorted: "table_sorted (xs @ new_elem t abi pref w # ys)"
    and rest: "set xs \<union> set ys = {E \<in> set (Alignments DL). \<not> has_key t w E}"
    by (rule setAlignment_table [OF assms(1) ok(1)])
  have c: "w < 2 ^ 24" "abi < 2 ^ 16" "pref < 2 ^ 16" "abi = 0 \<or> isPowerOf2_64 abi" "pref = 0 \<or> isPowerOf2_64 pref" "abi \<le> pref"
    using assms(1) by (auto simp: setAlignment_def split: if_splits)
  have "abi = 0 \<or> pow2_upto 15 abi" "pref = 0 \<or> pow2_upto 15 pref" using c assms(4,5) pow2_upto_test [of _ 15] by auto
  then have "elem_ok (new_elem t abi pref w)" using c assms(3-6) by (auto simp: elem_ok_def new_elem_def)
  moreover have "\<exists>E \<in> set (xs @ new_elem t abi pref w # ys). AlignType E = AGGREGATE_ALIGN \<and> TypeBitWidth E = 0"
    using ok(3) rest by (fastforce simp: new_elem_def has_key_def)
  moreover have "\<forall>E \<in> set xs \<union> set ys. elem_ok E" using rest ok(2) by blast
  ultimately show ?thesis using ok sorted DL' by (auto simp: layout_ok_def spaces_sorted_def)
qed

lemma setPointerAlignment_ok:
  assumes "setPointerAlignment AS abi pref bytes DL = Inr DL'" "layout_ok DL" "pointer_ok (new_pointer AS abi pref bytes)"
  shows "layout_ok DL'"
proof -
  note ok = layout_okD [OF assms(2)]
  obtain xs ys where DL': "DL' = DL\<lparr>Pointers := xs @ new_pointer AS abi pref bytes # ys\<rparr>"
    and sorted: "spaces_sorted (xs @ new_pointer AS abi pref bytes # ys)"
    and rest: "set xs \<union> set ys = {P \<in> set (Pointers DL). AddressSpace P \<noteq> AS}"
    by (rule setPointerAlignment_table [OF assms(1) ok(4)])
  have "\<exists>P \<in> set (xs @ new_pointer AS abi pref bytes # ys). AddressSpace P = 0"
    using ok(6) rest by (fastforce simp: new_pointer_def)
  moreover have "\<forall>P \<in> set xs \<union> set ys. pointer_ok P" using rest ok(5) by blast
  ultimately show ?thesis using ok sorted DL' assms(3) by (auto simp: layout_ok_def spaces_sorted_def)
qed

section \<open>What a lookup returns\<close>

text \<open>
  The entry that serves a type and a width: for integers the narrowest one that is wide enough, and where there is
  none the widest; for the other types only an entry of that width.
\<close>

definition serves :: "align_elem list \<Rightarrow> align_type \<Rightarrow> int \<Rightarrow> align_elem \<Rightarrow> bool" where
  "serves As t w E = (E \<in> set As \<and> AlignType E = t \<and>
     (if t = INTEGER_ALIGN
      then (w \<le> TypeBitWidth E \<and> (\<forall>F \<in> set As. AlignType F = t \<and> w \<le> TypeBitWidth F \<longrightarrow> TypeBitWidth E \<le> TypeBitWidth F)) \<or>
        (TypeBitWidth E < w \<and> (\<forall>F \<in> set As. AlignType F = t \<longrightarrow> TypeBitWidth F \<le> TypeBitWidth E))
      else TypeBitWidth E = w))"

lemma same_key_same_elem:
  assumes "table_sorted As" "E \<in> set As" "F \<in> set As" "AlignType E = AlignType F" "TypeBitWidth E = TypeBitWidth F"
  shows "E = F"
proof -
  have "has_key (AlignType F) (TypeBitWidth F) E" "has_key (AlignType F) (TypeBitWidth F) F" using assms(4,5) by (simp_all add: has_key_def)
  then show ?thesis
    using entry_at_bound(2) [OF assms(1,2), of "AlignType F" "TypeBitWidth F"] entry_at_bound(2) [OF assms(1,3), of "AlignType F" "TypeBitWidth F"]
    by metis
qed

lemma serves_unique:
  assumes "table_sorted As" "serves As t w E" "serves As t w F"
  shows "E = F"
proof -
  have "TypeBitWidth E = TypeBitWidth F"
    using assms(2,3) unfolding serves_def by (cases "t = INTEGER_ALIGN") (auto intro: antisym)
  then show ?thesis using same_key_same_elem [OF assms(1)] assms(2,3) by (auto simp: serves_def)
qed

lemma table_alignment_serves:
  assumes "table_sorted As" "serves As t w E"
  shows "table_alignment As t w ABIInfo = Some (if ABIInfo then ABIAlign E else PrefAlign E)"
proof -
  define I where "I = findAlignmentLowerBound As t w"
  note sp = findAlignmentLowerBound_splits [OF assms(1), where t = t and w = w, folded I_def]
  have E: "E \<in> set As" "AlignType E = t" using assms(2) by (simp_all add: serves_def)
  have split: "set As = set (take I As) \<union> set (drop I As)" by (metis append_take_drop_id set_append)
  have lt: "TypeBitWidth F < w" if "F \<in> set (take I As)" "AlignType F = t" for F
    using sp(2) [OF that(1)] that(2) by (auto simp: elem_less_def)
  have ge: "w \<le> TypeBitWidth F" if "F \<in> set (drop I As)" "AlignType F = t" for F
    using sp(3) [OF that(1)] that(2) by (auto simp: elem_less_def)
  have sorted_drop: "table_sorted (drop I As)" "table_sorted (take I As)"
    using assms(1) by (simp_all add: table_sorted_def sorted_wrt_drop sorted_wrt_take)
  show ?thesis
  proof (cases "w \<le> TypeBitWidth E")
    case True
    then have "E \<notin> set (take I As)" using lt E(2) by fastforce
    then have Ed: "E \<in> set (drop I As)" using E(1) split by blast
    then have I: "I < length As" by (cases "I < length As") simp_all
    then have d: "drop I As = As ! I # drop (Suc I) As" by (rule Cons_nth_drop_Suc [symmetric])
    have "As ! I = E"
    proof (rule ccontr)
      assume "As ! I \<noteq> E"
      then have less: "elem_less (As ! I) (t, TypeBitWidth E)" using Ed d sorted_drop(1) E(2) by (auto simp: table_sorted_def)
      have not: "\<not> elem_less (As ! I) (t, w)" using sp(3) d by simp
      then have at: "AlignType (As ! I) = t" "TypeBitWidth (As ! I) < TypeBitWidth E" "w \<le> TypeBitWidth (As ! I)"
        using less align_code_inject [of "AlignType (As ! I)" t] by (auto simp: elem_less_def)
      moreover have "As ! I \<in> set As" using I by simp
      ultimately show False using assms(2) True by (auto simp: serves_def split: if_splits)
    qed
    then show ?thesis using I E(2) assms(2) by (auto simp: table_alignment_def I_def Let_def serves_def split: if_splits)
  next
    case False
    then have t: "t = INTEGER_ALIGN" and max: "\<forall>F \<in> set As. AlignType F = t \<longrightarrow> TypeBitWidth F \<le> TypeBitWidth E"
      using assms(2) by (auto simp: serves_def split: if_splits)
    have none: "\<not> (I < length As \<and> AlignType (As ! I) = t)"
    proof
      assume I: "I < length As \<and> AlignType (As ! I) = t"
      then have "As ! I \<in> set (drop I As)" by (simp flip: Cons_nth_drop_Suc)
      then have "w \<le> TypeBitWidth (As ! I)" using ge I by blast
      then show False using max I False nth_mem [of I As] by fastforce
    qed
    have Et: "E \<in> set (take I As)" using E split ge False by blast
    then have "I \<noteq> 0" by (cases I) simp_all
    then have I0: "I \<noteq> 0" "I - 1 < length As" using sp(1) by linarith+
    have last: "take I As = take (I - 1) As @ [As ! (I - 1)]" using I0 take_Suc_conv_app_nth [of "I - 1" As] by simp
    have "As ! (I - 1) = E"
    proof (rule ccontr)
      assume "As ! (I - 1) \<noteq> E"
      then have "E \<in> set (take (I - 1) As)" using Et last by (metis Un_iff empty_iff insert_iff list.set set_append)
      then have less: "elem_less E (AlignType (As ! (I - 1)), TypeBitWidth (As ! (I - 1)))"
        using sorted_drop(2) last by (auto simp: table_sorted_def sorted_wrt_append)
      have "elem_less (As ! (I - 1)) (t, w)" using sp(2) last by simp
      then have "AlignType (As ! (I - 1)) = t" "TypeBitWidth E < TypeBitWidth (As ! (I - 1))"
        using less E(2) align_code_inject [of "AlignType (As ! (I - 1))" t] by (auto simp: elem_less_def)
      then show False using max I0(2) nth_mem [of "I - 1" As] by fastforce
    qed
    then show ?thesis using none I0(1) E(2) t by (auto simp: table_alignment_def I_def Let_def)
  qed
qed

lemma table_alignment_none:
  assumes "table_sorted As" "\<nexists>E. serves As t w E"
  shows "table_alignment As t w ABIInfo = None"
proof (cases "t = INTEGER_ALIGN")
  case True
  have "\<not> (\<exists>F \<in> set As. AlignType F = t)"
  proof
    assume ex: "\<exists>F \<in> set As. AlignType F = t"
    let ?W = "TypeBitWidth ` {F \<in> set As. AlignType F = t}"
    have fin: "finite ?W" "?W \<noteq> {}" using ex by auto
    show False
    proof (cases "\<exists>x \<in> ?W. w \<le> x")
      case True
      let ?V = "{x \<in> ?W. w \<le> x}"
      have "Min ?V \<in> ?V" using True fin(1) by (intro Min_in) auto
      then obtain E where E: "E \<in> set As" "AlignType E = t" "TypeBitWidth E = Min ?V" "w \<le> TypeBitWidth E" by auto
      have "TypeBitWidth E \<le> TypeBitWidth F" if "F \<in> set As" "AlignType F = t" "w \<le> TypeBitWidth F" for F
        unfolding E(3) using that fin(1) by (intro Min_le) auto
      then have "serves As t w E" using E(1,2,4) \<open>t = INTEGER_ALIGN\<close> unfolding serves_def by simp
      then show False using assms(2) by blast
    next
      case False
      have "Max ?W \<in> ?W" using fin by (rule Max_in)
      then obtain E where E: "E \<in> set As" "AlignType E = t" "TypeBitWidth E = Max ?W" by auto
      have "TypeBitWidth F \<le> TypeBitWidth E" if "F \<in> set As" "AlignType F = t" for F
        unfolding E(3) using that fin(1) by (intro Max_ge) auto
      moreover have "TypeBitWidth E < w" using False E by auto
      ultimately have "serves As t w E" using E(1,2) \<open>t = INTEGER_ALIGN\<close> unfolding serves_def by simp
      then show False using assms(2) by blast
    qed
  qed
  moreover have "As ! i \<in> set As" if "i < length As" for i using that by simp
  moreover have "findAlignmentLowerBound As t w \<le> length As" by (rule findAlignmentLowerBound_splits(1) [OF assms(1)])
  ultimately show ?thesis using True
    by (fastforce simp: table_alignment_def Let_def)
next
  case False
  have "As ! findAlignmentLowerBound As t w \<in> set As" if "findAlignmentLowerBound As t w < length As" using that by simp
  then show ?thesis using False assms(2) by (auto simp: table_alignment_def Let_def serves_def)
qed

lemma table_alignment_Some_iff:
  assumes "table_sorted As"
  shows "table_alignment As t w ABIInfo = Some a \<longleftrightarrow> (\<exists>E. serves As t w E \<and> a = (if ABIInfo then ABIAlign E else PrefAlign E))"
proof (cases "\<exists>E. serves As t w E")
  case True
  then obtain E where E: "serves As t w E" by blast
  then have "F = E" if "serves As t w F" for F using serves_unique [OF assms] that by blast
  then show ?thesis using table_alignment_serves [OF assms E, of ABIInfo] E by (auto split del: if_split)
next
  case False
  then show ?thesis using table_alignment_none [OF assms False, of ABIInfo] by auto
qed

lemma serves_set_cong: "set As = set Bs \<Longrightarrow> serves As t w E \<longleftrightarrow> serves Bs t w E"
  by (simp add: serves_def)

end
