(* ===== verification/LayoutSizes.thy ===== *)
theory LayoutSizes
  imports LayoutTables
begin

text \<open>
  Sizes and alignments under a well-formed layout. The loop of \<open>StructLayout\<close> places fields as \<open>field_offsets\<close> says, and
  every type of bounded size (\<open>fits\<close>) has a size, an alignment that is a power of two, and an allocation size.
\<close>

section \<open>Placing the elements of a struct\<close>

lemma ceil_to_id: "v mod a = 0 \<Longrightarrow> ceil_to a 0 v = v" if "0 < a"
proof -
  assume "v mod a = 0"
  then have "ceil_to a 0 v \<le> v" using that by (intro ceil_to_least) simp_all
  then show ?thesis using ceil_to_bounds(1) [OF that, where s = 0 and v = v] by simp
qed

lemma mask_mod: "pow2_upto 31 a \<Longrightarrow> 0 \<le> v \<Longrightarrow> v AND u32 (a - 1) = v mod a"
proof -
  assume "pow2_upto 31 a"
  then obtain k where k: "k \<le> 31" "a = 2 ^ k" by (auto simp: pow2_upto_def)
  then have "a \<le> 2 ^ 31" by (simp only: power_increasing_iff)
  then have "u32 (a - 1) = mask k" using k by (subst u32_id) (simp_all add: mask_eq_exp_minus_1)
  then show ?thesis using k by (simp add: take_bit_eq_mask [symmetric] take_bit_eq_mod)
qed

text \<open>The offsets of fields with given alignments and sizes, from an offset on, and where they end.\<close>

fun field_offsets :: "(int \<times> int) list \<Rightarrow> int \<Rightarrow> int list" where
  "field_offsets [] at = []"
| "field_offsets ((a, s) # fs) at = ceil_to a 0 at # field_offsets fs (ceil_to a 0 at + s)"

fun fields_end :: "(int \<times> int) list \<Rightarrow> int \<Rightarrow> int" where
  "fields_end [] at = at"
| "fields_end ((a, s) # fs) at = fields_end fs (ceil_to a 0 at + s)"

fun fields_padded :: "(int \<times> int) list \<Rightarrow> int \<Rightarrow> bool" where
  "fields_padded [] at = False"
| "fields_padded ((a, s) # fs) at = (at mod a \<noteq> 0 \<or> fields_padded fs (ceil_to a 0 at + s))"

definition field_room :: "(int \<times> int) list \<Rightarrow> int" where
  "field_room fs = (\<Sum>(a, s) \<leftarrow> fs. a + s)"

lemma field_room_simps [simp]: "field_room [] = 0" "field_room ((a, s) # fs) = a + s + field_room fs"
  by (simp_all add: field_room_def)

definition field_ok :: "int \<times> int \<Rightarrow> bool" where
  "field_ok f = (pow2_upto 31 (fst f) \<and> 0 \<le> snd f)"

lemma field_room_nonneg: "\<forall>f \<in> set fs. field_ok f \<Longrightarrow> 0 \<le> field_room fs"
  by (induction fs) (auto simp: field_ok_def dest: pow2_uptoD)

lemma fields_end_bounds:
  "\<forall>f \<in> set fs. field_ok f \<Longrightarrow> at \<le> fields_end fs at \<and> fields_end fs at \<le> at + field_room fs"
proof (induction fs at rule: fields_end.induct)
  case (2 a s fs at)
  then have f: "1 \<le> a" "0 \<le> s" by (auto simp: field_ok_def dest: pow2_uptoD)
  then have "at \<le> ceil_to a 0 at" "ceil_to a 0 at < at + a" using ceil_to_bounds [of a] by simp_all
  then show ?case using 2 f by fastforce
qed simp

lemma place_element_eq:
  assumes "pow2_upto 31 a" "0 \<le> s" "0 \<le> StructSize SL" "StructSize SL + a + s < 2 ^ 64"
  shows "place_element a s SL = Inr \<lparr>StructSize = ceil_to a 0 (StructSize SL) + s, StructAlignment = max a (StructAlignment SL),
    IsPadded = (IsPadded SL \<or> StructSize SL mod a \<noteq> 0), MemberOffsets = MemberOffsets SL @ [ceil_to a 0 (StructSize SL)]\<rparr>"
proof -
  have a: "1 \<le> a" using pow2_uptoD [OF assms(1)] by simp
  note b = ceil_to_bounds [of a, where s = 0 and v = "StructSize SL"]
  have "u64 (ceil_to a 0 (StructSize SL) + s) = ceil_to a 0 (StructSize SL) + s"
    using a b assms by (intro u64_id) simp_all
  moreover have "alignTo (StructSize SL) a 0 = Inr (ceil_to a 0 (StructSize SL))"
    using alignTo_ceil_to [of "StructSize SL" a 0] a assms by simp
  ultimately show ?thesis
    using mask_mod [OF assms(1,3)] ceil_to_id [of a "StructSize SL"] a by (cases SL) (auto simp: place_element_def)
qed

definition measured :: "data_layout \<Rightarrow> ir_type \<Rightarrow> int \<Rightarrow> int \<Rightarrow> int \<Rightarrow> bool" where
  "measured DL Ty b a s = (getTypeSizeInBits DL Ty = Inr b \<and> getAlignment DL Ty True = Inr a \<and> getTypeAllocSize DL Ty = Inr s \<and>
     0 \<le> b \<and> pow2_upto 31 a \<and> s = ceil_to a 0 ((b + 7) div 8) \<and> s < 2 ^ 61)"

lemma measured_nonneg: "measured DL Ty b a s \<Longrightarrow> 0 \<le> s \<and> (b + 7) div 8 \<le> s"
  using ceil_to_bounds(1) [of a, where s = 0 and v = "(b + 7) div 8"] pow2_uptoD [of 31 a] by (fastforce simp: measured_def)

lemma getTypeAllocSize_eq:
  assumes "getTypeSizeInBits DL Ty = Inr b" "getAlignment DL Ty True = Inr a" "0 \<le> b" "b < 2 ^ 64 - 8" "pow2_upto 31 a"
  shows "getTypeAllocSize DL Ty = Inr (ceil_to a 0 ((b + 7) div 8))"
proof -
  have "u64 (b + 7) = b + 7" using assms by (intro u64_id) simp_all
  moreover have "1 \<le> a" "a \<le> 2 ^ 31" using pow2_uptoD [OF assms(5)] by simp_all
  moreover have "(b + 7) div 8 < 2 ^ 61" using assms(4) by simp
  then have "(b + 7) div 8 + a \<le> 2 ^ 64" using \<open>a \<le> 2 ^ 31\<close> by simp
  ultimately show ?thesis using assms alignTo_ceil_to [of "(b + 7) div 8" a 0] by (simp add: getTypeAllocSize.simps)
qed

text \<open>The loop over the elements, given the measures of each.\<close>

definition field_of :: "bool \<Rightarrow> int \<times> int \<Rightarrow> int \<times> int" where
  "field_of Packed f = (if Packed then 1 else fst f, snd f)"

lemma layout_elements_eq:
  assumes "list_all2 (\<lambda>Ty f. \<exists>b. measured DL Ty b (fst f) (snd f)) Tys fs"
    and "0 \<le> StructSize SL" "StructSize SL + field_room (map (field_of Packed) fs) < 2 ^ 64"
  shows "layout_elements DL Packed Tys SL = Inr
    \<lparr>StructSize = fields_end (map (field_of Packed) fs) (StructSize SL),
     StructAlignment = foldl (\<lambda>m f. max (fst f) m) (StructAlignment SL) (map (field_of Packed) fs),
     IsPadded = (IsPadded SL \<or> fields_padded (map (field_of Packed) fs) (StructSize SL)),
     MemberOffsets = MemberOffsets SL @ field_offsets (map (field_of Packed) fs) (StructSize SL)\<rparr>"
  using assms
proof (induction Tys arbitrary: fs SL)
  case Nil
  then show ?case by (cases SL) (simp add: layout_elements.simps)
next
  case (Cons Ty Tys)
  then obtain f fs' where fs: "fs = f # fs'" by (cases fs) auto
  obtain a s where f: "f = (a, s)" by (cases f)
  obtain b where m: "measured DL Ty b a s" using Cons.prems(1) fs f by auto
  define a' where "a' = (if Packed then 1 else a)"
  have s: "0 \<le> s" using measured_nonneg [OF m] by simp
  have a': "pow2_upto 31 a'" using m pow2_upto_1 by (simp add: a'_def measured_def)
  have rest: "list_all2 (\<lambda>Ty f. \<exists>b. measured DL Ty b (fst f) (snd f)) Tys fs'" using Cons.prems(1) fs by simp
  have "\<forall>f \<in> set (map (field_of Packed) fs'). field_ok f"
  proof
    fix g assume "g \<in> set (map (field_of Packed) fs')"
    then obtain h where h: "h \<in> set fs'" "g = field_of Packed h" by auto
    then obtain i where i: "i < length fs'" "h = fs' ! i" by (metis in_set_conv_nth)
    then obtain b' where m': "measured DL (Tys ! i) b' (fst h) (snd h)" using rest by (auto simp: list_all2_conv_all_nth)
    then show "field_ok g" using h(2) pow2_upto_1 measured_nonneg [OF m'] by (simp add: field_ok_def field_of_def measured_def)
  qed
  then have room: "0 \<le> field_room (map (field_of Packed) fs')" by (rule field_room_nonneg)
  have fit: "StructSize SL + a' + s + field_room (map (field_of Packed) fs') < 2 ^ 64"
    using Cons.prems(3) unfolding fs f list.map field_of_def [of Packed "(a, s)"] field_room_simps fst_conv snd_conv a'_def by linarith
  have place: "place_element a' s SL = Inr \<lparr>StructSize = ceil_to a' 0 (StructSize SL) + s, StructAlignment = max a' (StructAlignment SL),
      IsPadded = (IsPadded SL \<or> StructSize SL mod a' \<noteq> 0), MemberOffsets = MemberOffsets SL @ [ceil_to a' 0 (StructSize SL)]\<rparr>"
    using place_element_eq [OF a' s Cons.prems(2)] fit room by simp
  have a1: "1 \<le> a'" using pow2_uptoD [OF a'] by simp
  have "ceil_to a' 0 (StructSize SL) < StructSize SL + a'" "StructSize SL \<le> ceil_to a' 0 (StructSize SL)"
    using ceil_to_bounds [of a'] a1 by simp_all
  then have pre: "0 \<le> ceil_to a' 0 (StructSize SL) + s" "ceil_to a' 0 (StructSize SL) + s + field_room (map (field_of Packed) fs') < 2 ^ 64"
    using s Cons.prems(2) fit by linarith+
  have align: "(if Packed then Inr 1 else getAlignment DL Ty True) = Inr a'" and alloc: "getTypeAllocSize DL Ty = Inr s"
    using m by (simp_all add: a'_def measured_def)
  have fo: "field_of Packed (a, s) = (a', s)" by (simp add: field_of_def a'_def)
  show ?case
    unfolding layout_elements.simps align alloc place bind_result_simps
    using Cons.IH [OF rest, where SL = "\<lparr>StructSize = ceil_to a' 0 (StructSize SL) + s, StructAlignment = max a' (StructAlignment SL),
      IsPadded = (IsPadded SL \<or> StructSize SL mod a' \<noteq> 0), MemberOffsets = MemberOffsets SL @ [ceil_to a' 0 (StructSize SL)]\<rparr>"] pre
    by (simp add: fs f fo disj_ac)
qed

definition struct_alignment :: "(int \<times> int) list \<Rightarrow> int" where
  "struct_alignment fs = foldl (\<lambda>m f. max (fst f) m) 1 fs"

lemma foldl_max_pow2: "\<forall>f \<in> set fs. pow2_upto n (fst f) \<Longrightarrow> pow2_upto n m \<Longrightarrow> pow2_upto n (foldl (\<lambda>m f. max (fst f) m) m fs)"
  by (induction fs arbitrary: m) (simp_all add: pow2_upto_max)

lemma foldl_max_ge: "m \<le> foldl (\<lambda>m f. max (fst f) m) m fs" "f \<in> set fs \<Longrightarrow> fst f \<le> foldl (\<lambda>m f. max (fst f) m) (m :: int) fs"
proof (induction fs arbitrary: m)
  case (Cons g fs)
  { case 1 show ?case using Cons.IH(1) [of "max (fst g) m"] by simp }
  { case 2 then show ?case using Cons.IH(1) [of "max (fst g) m"] Cons.IH(2) [of "max (fst g) m"] by auto }
qed simp_all

lemma foldl_max_in: "foldl (\<lambda>m f. max (fst f) m) (m :: int) fs \<in> insert m (fst ` set fs)"
proof (induction fs arbitrary: m)
  case (Cons g fs)
  show ?case using Cons.IH [of "max (fst g) m"] by (cases "fst g \<le> m") (auto simp: max_def)
qed simp

lemma struct_alignment_pow2: "\<forall>f \<in> set fs. field_ok f \<Longrightarrow> pow2_upto 31 (struct_alignment fs)"
  unfolding struct_alignment_def by (intro foldl_max_pow2) (auto simp: field_ok_def pow2_upto_1)

lemma struct_alignment_dvd: "\<forall>f \<in> set fs. field_ok f \<Longrightarrow> f \<in> set fs \<Longrightarrow> fst f dvd struct_alignment fs"
  using struct_alignment_pow2 [of fs] foldl_max_ge(2) [of f fs 1] pow2_upto_dvd by (auto simp: field_ok_def struct_alignment_def)

text \<open>Starting the maximum at 0 and taking 1 for 0 is starting at 1.\<close>

lemma foldl_max_0:
  assumes "\<forall>f \<in> set fs. field_ok f"
  shows "(let m = foldl (\<lambda>m f. max (fst f) m) 0 fs in if m = 0 then 1 else m) = struct_alignment fs"
proof (cases fs)
  case (Cons f fs')
  then have f: "1 \<le> fst f" using assms by (auto simp: field_ok_def dest: pow2_uptoD)
  then have "foldl (\<lambda>m f. max (fst f) m) 0 fs = struct_alignment fs" using Cons by (simp add: struct_alignment_def max_def)
  moreover have "1 \<le> struct_alignment fs" using pow2_uptoD [OF struct_alignment_pow2 [OF assms]] by simp
  ultimately show ?thesis by simp
qed (simp add: struct_alignment_def)

definition measures :: "data_layout \<Rightarrow> ir_type list \<Rightarrow> (int \<times> int) list \<Rightarrow> bool" where
  "measures DL = list_all2 (\<lambda>Ty f. \<exists>b. measured DL Ty b (fst f) (snd f))"

lemma measures_field_ok: "measures DL Tys fs \<Longrightarrow> f \<in> set (map (field_of Packed) fs) \<Longrightarrow> field_ok f"
proof -
  assume m: "measures DL Tys fs" and "f \<in> set (map (field_of Packed) fs)"
  then obtain i where i: "i < length fs" "f = field_of Packed (fs ! i)" by (auto simp: in_set_conv_nth)
  then obtain b where b: "measured DL (Tys ! i) b (fst (fs ! i)) (snd (fs ! i))" using m by (auto simp: measures_def list_all2_conv_all_nth)
  then show "field_ok f" using i(2) pow2_upto_1 measured_nonneg [OF b] by (simp add: field_ok_def field_of_def measured_def)
qed

lemma field_room_packed: "measures DL Tys fs \<Longrightarrow> field_room (map (field_of Packed) fs) \<le> field_room fs"
proof -
  assume m: "measures DL Tys fs"
  have "\<forall>f \<in> set fs. 1 \<le> fst f"
    using measures_field_ok [OF m, of _ False] by (fastforce simp: field_of_def field_ok_def dest: pow2_uptoD)
  then show ?thesis by (induction fs) (auto simp: field_of_def)
qed

theorem getStructLayout_eq:
  fixes Packed :: bool
  assumes "measures DL Tys fs" "field_room fs < 2 ^ 60"
  defines "F \<equiv> map (field_of Packed) fs"
  shows "getStructLayout DL Packed Tys = Inr
    \<lparr>StructSize = ceil_to (struct_alignment F) 0 (fields_end F 0), StructAlignment = struct_alignment F,
     IsPadded = (fields_padded F 0 \<or> fields_end F 0 mod struct_alignment F \<noteq> 0), MemberOffsets = field_offsets F 0\<rparr>"
proof -
  have ok: "\<forall>f \<in> set F. field_ok f" using measures_field_ok [OF assms(1)] by (auto simp: F_def)
  have room: "field_room F < 2 ^ 60" using field_room_packed [OF assms(1), of Packed] assms(2) by (simp add: F_def)
  have E: "0 \<le> fields_end F 0" "fields_end F 0 < 2 ^ 60" using fields_end_bounds [OF ok, of 0] room by simp_all
  define A where "A = struct_alignment F"
  have A: "pow2_upto 31 A" unfolding A_def by (rule struct_alignment_pow2 [OF ok])
  from pow2_uptoD [OF this] have A': "1 \<le> A" "A \<le> 2 ^ 31" by simp_all
  have align: "alignTo (fields_end F 0) A 0 = Inr (ceil_to A 0 (fields_end F 0))"
    using alignTo_ceil_to [of "fields_end F 0" A 0] E A' by simp
  have "layout_elements DL Packed Tys empty_struct = Inr
      \<lparr>StructSize = fields_end F 0, StructAlignment = foldl (\<lambda>m f. max (fst f) m) 0 F,
       IsPadded = fields_padded F 0, MemberOffsets = field_offsets F 0\<rparr>"
    using layout_elements_eq [OF assms(1) [unfolded measures_def], where SL = empty_struct and Packed = Packed] room
    by (simp add: empty_struct_def F_def)
  moreover have "(if foldl (\<lambda>m f. max (fst f) m) 0 F = 0 then 1 else foldl (\<lambda>m f. max (fst f) m) 0 F) = A"
    using foldl_max_0 [OF ok] by (simp add: A_def Let_def)
  ultimately show ?thesis
    using mask_mod [OF A E(1)] align ceil_to_id [of A "fields_end F 0"] A'
    by (cases "foldl (\<lambda>m f. max (fst f) m) 0 F = 0") (simp_all add: getStructLayout.simps finish_struct_def Let_def flip: A_def)
qed

section \<open>Sizes and alignments of every type\<close>

text \<open>
  The types whose sizes stay within 64 bits: widths that \<open>IntegerType\<close> allows, and arrays, vectors and structs that
  are not too large. The type of MMX registers has a size only where the layout lists it.
\<close>

definition measure_of :: "data_layout \<Rightarrow> ir_type \<Rightarrow> int \<times> int" where
  "measure_of DL Ty = (projr (getAlignment DL Ty True), projr (getTypeAllocSize DL Ty))"

fun is_scalar :: "ir_type \<Rightarrow> bool" where
  "is_scalar (VectorTy _ _) = False"
| "is_scalar (ArrayTy _ _) = False"
| "is_scalar (StructTy _ _) = False"
| "is_scalar _ = True"

fun fits :: "data_layout \<Rightarrow> ir_type \<Rightarrow> bool" where
  "fits DL (IntegerTy w) = (1 \<le> w \<and> w < 2 ^ 23)"
| "fits DL (ArrayTy n El) = (fits DL El \<and> 0 \<le> n \<and> n * snd (measure_of DL El) < 2 ^ 60)"
| "fits DL (VectorTy n El) = (is_scalar El \<and> fits DL El \<and> 1 \<le> n \<and> n < 2 ^ 32 \<and> n * snd (measure_of DL El) < 2 ^ 31)"
| "fits DL (StructTy Packed Tys) = ((\<forall>Ty \<in> set Tys. fits DL Ty) \<and> field_room (map (measure_of DL) Tys) < 2 ^ 60)"
| "fits DL (PointerTy _) = True"
| "fits DL Ty = (Ty \<in> {HalfTy, FloatTy, DoubleTy, X86_FP80Ty, FP128Ty, PPC_FP128Ty})"

lemma fits_isSized: "fits DL Ty \<Longrightarrow> isSized Ty"
  by (induction Ty rule: isSized.induct) auto

lemma measured_measure_of: "measured DL Ty b a s \<Longrightarrow> measure_of DL Ty = (a, s)"
  by (simp add: measured_def measure_of_def)

lemma measures_measure_of: "measures DL Tys fs \<longleftrightarrow> (\<forall>Ty \<in> set Tys. \<exists>b a s. measured DL Ty b a s) \<and> fs = map (measure_of DL) Tys"
proof
  assume m: "measures DL Tys fs"
  then have len: "length Tys = length fs" by (simp add: measures_def list_all2_lengthD)
  have nth: "\<exists>b. measured DL (Tys ! i) b (fst (fs ! i)) (snd (fs ! i))" if "i < length Tys" for i
    using m that by (simp add: measures_def list_all2_conv_all_nth)
  then have "fs ! i = measure_of DL (Tys ! i)" if "i < length Tys" for i using measured_measure_of that by fastforce
  then have "fs = map (measure_of DL) Tys" using len by (intro nth_equalityI) simp_all
  then show "(\<forall>Ty \<in> set Tys. \<exists>b a s. measured DL Ty b a s) \<and> fs = map (measure_of DL) Tys"
    using nth by (metis in_set_conv_nth)
next
  assume m: "(\<forall>Ty \<in> set Tys. \<exists>b a s. measured DL Ty b a s) \<and> fs = map (measure_of DL) Tys"
  have "\<exists>b. measured DL Ty b (fst (measure_of DL Ty)) (snd (measure_of DL Ty))" if "Ty \<in> set Tys" for Ty
    using m that measured_measure_of by fastforce
  then show "measures DL Tys fs" using m by (simp add: measures_def list_all2_conv_all_nth)
qed

lemma PowerOf2Ceil_ok: "1 \<le> n \<Longrightarrow> n \<le> 2 ^ 31 \<Longrightarrow> pow2_upto 31 (u32 (PowerOf2Ceil (u32 n)))"
proof -
  assume n: "1 \<le> n" "n \<le> 2 ^ 31"
  then have u: "u32 n = n" by (intro u32_id) simp_all
  have "0 < n" "n \<le> 2 ^ 63" using n by simp_all
  then obtain k where k: "PowerOf2Ceil n = 2 ^ k" "2 ^ k < 2 * n" by (rule PowerOf2Ceil_pow2)
  have "(2 :: int) ^ k < 2 ^ 32" using k(2) n(2) by simp
  then have "k < 32" by (simp only: power_strict_increasing_iff)
  then have "u32 (2 ^ k) = 2 ^ k" using \<open>2 ^ k < 2 ^ 32\<close> by (intro u32_id) simp_all
  then show ?thesis using k(1) u \<open>k < 32\<close> by (auto simp: pow2_upto_def)
qed

lemma table_alignment_ok:
  assumes "layout_ok DL" "table_alignment (Alignments DL) t w True = Some a"
  shows "pow2_upto 15 a \<or> a = 0 \<and> t = AGGREGATE_ALIGN"
proof -
  obtain E where "serves (Alignments DL) t w E" "a = ABIAlign E"
    using assms table_alignment_Some_iff [OF layout_okD(1) [OF assms(1)]] by fastforce
  then show ?thesis using layout_okD(2) [OF assms(1), of E] by (auto simp: serves_def elem_ok_def)
qed

lemma getAlignmentInfo_ok:
  assumes "layout_ok DL" "t = INTEGER_ALIGN \<or> t = FLOAT_ALIGN" "getTypeSizeInBits DL Ty = Inr b" "1 \<le> b" "b < 2 ^ 30"
  shows "\<exists>a. getAlignmentInfo DL t w True Ty = Inr a \<and> pow2_upto 31 a"
proof (cases "table_alignment (Alignments DL) t w True")
  case None
  have "u64 (b + 7) div 8 = (b + 7) div 8" "1 \<le> (b + 7) div 8" "(b + 7) div 8 \<le> 2 ^ 31" using assms(4,5) by (simp_all add: u64_id)
  then show ?thesis using None assms(2,3) PowerOf2Ceil_ok [of "(b + 7) div 8"] by (auto simp: getAlignmentInfo.simps)
next
  case (Some a)
  then show ?thesis using table_alignment_ok [OF assms(1) Some] assms(2) pow2_upto_mono [of 15 a 31] by (auto simp: getAlignmentInfo.simps)
qed

lemma aggregate_alignment_ok:
  assumes "layout_ok DL"
  obtains a where "getAlignmentInfo DL AGGREGATE_ALIGN 0 True Ty = Inr a" "pow2_upto 15 a \<or> a = 0"
proof -
  obtain E where E: "E \<in> set (Alignments DL)" "AlignType E = AGGREGATE_ALIGN" "TypeBitWidth E = 0"
    using layout_okD(3) [OF assms] by blast
  then have "serves (Alignments DL) AGGREGATE_ALIGN 0 E" by (simp add: serves_def)
  then have "table_alignment (Alignments DL) AGGREGATE_ALIGN 0 True = Some (ABIAlign E)"
    using table_alignment_serves [OF layout_okD(1) [OF assms]] by simp
  then show thesis using that [of "ABIAlign E"] table_alignment_ok [OF assms] by (auto simp: getAlignmentInfo.simps)
qed

lemma pointer_entry_ok:
  assumes "layout_ok DL"
  obtains P where "pointer_entry DL AS = Inr P" "P \<in> set (Pointers DL)" "pointer_ok P"
proof -
  note ok = layout_okD [OF assms]
  obtain P0 where P0: "P0 \<in> set (Pointers DL)" "AddressSpace P0 = 0" using ok(6) by blast
  note at0 = entry_at_space [OF ok(4) P0]
  show thesis
  proof (cases "findPointerLowerBound (Pointers DL) AS = length (Pointers DL) \<or>
      AddressSpace (Pointers DL ! findPointerLowerBound (Pointers DL) AS) \<noteq> AS")
    case True
    then show thesis using that [of P0] at0 P0 ok(5) by (simp add: pointer_entry_def)
  next
    case False
    then have "findPointerLowerBound (Pointers DL) AS < length (Pointers DL)"
      using findPointerLowerBound_splits(1) [OF ok(4), of AS] by linarith
    then show thesis using that False ok(5) by (auto simp: pointer_entry_def Let_def)
  qed
qed

lemma measuredI:
  assumes "getTypeSizeInBits DL Ty = Inr b" "getAlignment DL Ty True = Inr a" "0 \<le> b" "b < 2 ^ 64 - 2 ^ 36" "pow2_upto 31 a"
    and "ceil_to a 0 ((b + 7) div 8) < 2 ^ 61"
  shows "measured DL Ty b a (ceil_to a 0 ((b + 7) div 8))"
  using assms getTypeAllocSize_eq [OF assms(1-3)] by (simp add: measured_def)

lemma ceil_to_small: "pow2_upto 31 a \<Longrightarrow> b \<le> 2 ^ 34 \<Longrightarrow> ceil_to a 0 ((b + 7) div 8) < 2 ^ 61"
proof -
  assume a: "pow2_upto 31 a" "b \<le> 2 ^ 34"
  then have "1 \<le> a" "a \<le> 2 ^ 31" "(b + 7) div 8 \<le> 2 ^ 32" using pow2_uptoD [OF a(1)] by simp_all
  then show ?thesis using ceil_to_bounds(2) [of a, where s = 0 and v = "(b + 7) div 8"] by simp
qed

lemma measured_scalar:
  assumes "layout_ok DL" "fits DL Ty" "is_scalar Ty"
  shows "\<exists>b a s. measured DL Ty b a s \<and> 1 \<le> b \<and> b \<le> 2 ^ 32"
proof (cases "\<exists>AS. Ty = PointerTy AS")
  case True
  then obtain AS where Ty: "Ty = PointerTy AS" by blast
  obtain P where P: "pointer_entry DL AS = Inr P" "pointer_ok P" using pointer_entry_ok [OF assms(1)] by metis
  have b: "1 \<le> TypeByteWidth P * 8" "TypeByteWidth P * 8 < 2 ^ 32" "pow2_upto 31 (PtrABIAlign P)" using P(2) by (simp_all add: pointer_ok_def)
  have eqs: "getTypeSizeInBits DL Ty = Inr (TypeByteWidth P * 8)" "getAlignment DL Ty True = Inr (PtrABIAlign P)"
    using P(1) b by (simp_all add: Ty getTypeSizeInBits.simps getAlignment.simps getPointerSizeInBits_def getPointerSize_def
        getPointerABIAlignment_def u32_id)
  have "measured DL Ty (TypeByteWidth P * 8) (PtrABIAlign P) (ceil_to (PtrABIAlign P) 0 ((TypeByteWidth P * 8 + 7) div 8))"
    by (rule measuredI [OF eqs]) (use b ceil_to_small [OF b(3), of "TypeByteWidth P * 8"] in simp_all)
  then show ?thesis using b(1,2) less_imp_le by blast
next
  case False
  define t where "t = (case Ty of IntegerTy _ \<Rightarrow> INTEGER_ALIGN | _ \<Rightarrow> FLOAT_ALIGN)"
  obtain b where b: "getTypeSizeInBits DL Ty = Inr b" "1 \<le> b" "b < 2 ^ 30"
    using assms(2,3) False by (cases Ty) (auto simp: getTypeSizeInBits.simps)
  have t: "t = INTEGER_ALIGN \<or> t = FLOAT_ALIGN" by (simp add: t_def split: ir_type.split)
  obtain a where a: "getAlignmentInfo DL t (u32 b) True Ty = Inr a" "pow2_upto 31 a"
    using getAlignmentInfo_ok [OF assms(1) t b] by blast
  have al: "getAlignment DL Ty True = Inr a"
    using assms(2,3) False a(1) b(1) by (cases Ty) (auto simp: getAlignment.simps t_def)
  have "measured DL Ty b a (ceil_to a 0 ((b + 7) div 8))"
    by (rule measuredI [OF b(1) al]) (use b a(2) ceil_to_small [OF a(2), of b] in simp_all)
  moreover have "b \<le> 2 ^ 32" using b(3) by simp
  ultimately show ?thesis using b(2) by blast
qed

lemma measured_vector:
  assumes "layout_ok DL" "fits DL (VectorTy n El)"
  shows "\<exists>b a s. measured DL (VectorTy n El) b a s"
proof -
  obtain b a s where m: "measured DL El b a s" "1 \<le> b" "b \<le> 2 ^ 32" using measured_scalar [OF assms(1), of El] assms(2) by auto
  then have n: "1 \<le> n" "n * s < 2 ^ 31" using assms(2) measured_measure_of [OF m(1)] by simp_all
  have s: "(b + 7) div 8 \<le> s" "getTypeAllocSize DL El = Inr s" using measured_nonneg [OF m(1)] m(1) [unfolded measured_def] by simp_all
  then have "b \<le> 8 * s" "1 \<le> s" using m(2) by linarith+
  then have "n * b \<le> n * (8 * s)" "1 * 1 \<le> n * s" using n(1) mult_left_mono [of b "8 * s" n] mult_mono [of 1 n 1 s] by simp_all
  then have nb: "n * b < 2 ^ 34" "1 \<le> n * s" using n(2) by simp_all
  have "0 \<le> n * b" using n(1) m(2) by simp
  then have "u64 (n * b) = n * b" using nb by (intro u64_id) simp_all
  moreover have "isSized (VectorTy n El)" by (rule fits_isSized [OF assms(2)])
  ultimately have bits: "getTypeSizeInBits DL (VectorTy n El) = Inr (n * b)" using m(1) by (simp add: getTypeSizeInBits.simps measured_def)
  have "n * s = s * n" by simp
  then have sn: "pow2_upto 31 (u32 (PowerOf2Ceil (u32 (s * n))))" using PowerOf2Ceil_ok [of "s * n"] n(2) nb(2) by (simp add: mult.commute)
  have "s \<le> n * s" using n(1) \<open>1 \<le> s\<close> by simp
  from le_less_trans [OF this n(2)] have "s < 2 ^ 32" by simp
  then have "u32 s = s" using \<open>1 \<le> s\<close> by (intro u32_id) simp_all
  have "\<exists>a'. getAlignmentInfo DL VECTOR_ALIGN (u32 (n * b)) True (VectorTy n El) = Inr a' \<and> pow2_upto 31 a'"
  proof (cases "table_alignment (Alignments DL) VECTOR_ALIGN (u32 (n * b)) True")
    case None
    then show ?thesis using s(2) sn \<open>u32 s = s\<close> by (simp add: getAlignmentInfo.simps)
  next
    case (Some a')
    then have "pow2_upto 15 a'" using table_alignment_ok [OF assms(1) Some] by simp
    then show ?thesis using Some pow2_upto_mono [of 15 a' 31] by (simp add: getAlignmentInfo.simps)
  qed
  then obtain a' where a': "getAlignmentInfo DL VECTOR_ALIGN (u32 (n * b)) True (VectorTy n El) = Inr a'" "pow2_upto 31 a'" by blast
  have al: "getAlignment DL (VectorTy n El) True = Inr a'"
    using a'(1) bits \<open>isSized (VectorTy n El)\<close> by (simp add: getAlignment.simps)
  have "measured DL (VectorTy n El) (n * b) a' (ceil_to a' 0 ((n * b + 7) div 8))"
    by (rule measuredI [OF bits al]) (use \<open>0 \<le> n * b\<close> nb a'(2) ceil_to_small [OF a'(2), of "n * b"] in simp_all)
  then show ?thesis by blast
qed

lemma measured_array:
  assumes "measured DL El b a s" "0 \<le> n" "n * s < 2 ^ 60" "isSized El"
  shows "measured DL (ArrayTy n El) (8 * (n * s)) a (n * s)"
proof -
  have s: "0 \<le> s" "s < 2 ^ 61" "getTypeAllocSize DL El = Inr s" "pow2_upto 31 a" "getAlignment DL El True = Inr a"
    using assms(1) measured_nonneg [OF assms(1)] by (simp_all add: measured_def)
  then have a: "1 \<le> a" using pow2_uptoD by blast
  have "0 \<le> n * s" using assms(2) s(1) by simp
  moreover have "u64 (8 * s) = 8 * s" using s by (intro u64_id) simp_all
  moreover have "u64 (n * (8 * s)) = 8 * (n * s)" using calculation(1) assms(3) by (subst u64_id) (simp_all add: algebra_simps)
  ultimately have bits: "getTypeSizeInBits DL (ArrayTy n El) = Inr (8 * (n * s))"
    using s(3) assms(4) by (simp add: getTypeSizeInBits.simps)
  have al: "getAlignment DL (ArrayTy n El) True = Inr a" using s(5) assms(4) by (simp add: getAlignment.simps)
  have "s mod a = 0" using assms(1) ceil_to_mod [of a 0] by (simp add: measured_def)
  then have "(n * s) mod a = 0" by (simp add: mod_eq_0_iff_dvd)
  moreover have "(8 * (n * s) + 7) div 8 = n * s" by simp
  ultimately have c: "ceil_to a 0 ((8 * (n * s) + 7) div 8) = n * s" using ceil_to_id [of a "n * s"] a by simp
  have "measured DL (ArrayTy n El) (8 * (n * s)) a (ceil_to a 0 ((8 * (n * s) + 7) div 8))"
    by (rule measuredI [OF bits al]) (use \<open>0 \<le> n * s\<close> assms(3) s(4) in \<open>simp_all only: c\<close>, simp_all)
  then show ?thesis by (simp only: c)
qed

lemma struct_alignment_le: "measures DL Tys fs \<Longrightarrow> pow2_upto 31 (struct_alignment (map (field_of Packed) fs))"
  using measures_field_ok by (intro struct_alignment_pow2) blast

lemma measured_struct:
  assumes "layout_ok DL" "measures DL Tys fs" "field_room fs < 2 ^ 60" "\<forall>Ty \<in> set Tys. isSized Ty"
  obtains SL a where "getStructLayout DL Packed Tys = Inr SL" "measured DL (StructTy Packed Tys) (8 * StructSize SL) a (ceil_to a 0 (StructSize SL))"
    and "StructAlignment SL dvd a" "Packed \<Longrightarrow> a = 1"
proof -
  define F where "F = map (field_of Packed) fs"
  have ok: "\<forall>f \<in> set F. field_ok f" using measures_field_ok [OF assms(2)] by (auto simp: F_def)
  obtain SL where SL: "getStructLayout DL Packed Tys = Inr SL" "StructSize SL = ceil_to (struct_alignment F) 0 (fields_end F 0)"
      "StructAlignment SL = struct_alignment F"
    using getStructLayout_eq [OF assms(2,3), of Packed] by (auto simp: F_def)
  have A: "pow2_upto 31 (struct_alignment F)" "1 \<le> struct_alignment F" "struct_alignment F \<le> 2 ^ 31"
    using struct_alignment_pow2 [OF ok] pow2_uptoD [OF struct_alignment_pow2 [OF ok]] by simp_all
  have "field_room F < 2 ^ 60" using field_room_packed [OF assms(2), of Packed] assms(3) by (simp add: F_def)
  then have E: "0 \<le> fields_end F 0" "fields_end F 0 < 2 ^ 60" using fields_end_bounds [OF ok, of 0] by simp_all
  have size: "0 \<le> StructSize SL" "StructSize SL < 2 ^ 60 + 2 ^ 31"
    using ceil_to_bounds [of "struct_alignment F", where s = 0 and v = "fields_end F 0"] A E by (simp_all add: SL(2))
  have sized: "isSized (StructTy Packed Tys)" using assms(4) by simp
  have "u64 (8 * StructSize SL) = 8 * StructSize SL" using size by (intro u64_id) simp_all
  then have bits: "getTypeSizeInBits DL (StructTy Packed Tys) = Inr (8 * StructSize SL)"
    using SL(1) sized by (simp add: getTypeSizeInBits.simps)
  obtain g where g: "getAlignmentInfo DL AGGREGATE_ALIGN 0 True (StructTy Packed Tys) = Inr g" "pow2_upto 15 g \<or> g = 0"
    by (rule aggregate_alignment_ok [OF assms(1)])
  define a where "a = (if Packed then 1 else max g (struct_alignment F))"
  have al: "getAlignment DL (StructTy Packed Tys) True = Inr a"
    using SL(1,3) sized g(1) by (cases Packed) (simp_all add: getAlignment.simps a_def)
  have "g = 0 \<or> pow2_upto 31 g" using g(2) pow2_upto_mono [of 15 g 31] by auto
  then have a: "pow2_upto 31 a" using A pow2_upto_max [of 31 g "struct_alignment F"] pow2_upto_1 by (auto simp: a_def max_def)
  then have a1: "1 \<le> a" "a \<le> 2 ^ 31" using pow2_uptoD [OF a] by simp_all
  have "struct_alignment F dvd a"
  proof (cases Packed)
    case True
    then have "\<forall>f \<in> set F. fst f = 1" by (auto simp: F_def field_of_def)
    then have "struct_alignment F = 1" using foldl_max_in [of 1 F] by (auto simp: struct_alignment_def)
    then show ?thesis by simp
  next
    case False
    then show ?thesis using pow2_upto_dvd [OF A(1) a] by (simp add: a_def)
  qed
  moreover have half: "(8 * StructSize SL + 7) div 8 = StructSize SL" by simp
  moreover have "ceil_to a 0 (StructSize SL) < 2 ^ 61" using ceil_to_bounds(2) [of a, where s = 0 and v = "StructSize SL"] a1 size by simp
  ultimately have "measured DL (StructTy Packed Tys) (8 * StructSize SL) a (ceil_to a 0 ((8 * StructSize SL + 7) div 8))"
    using size a by (intro measuredI [OF bits al]) simp_all
  then show thesis using that [OF SL(1)] \<open>struct_alignment F dvd a\<close> SL(3) by (simp add: half a_def)
qed

lemma scalar_measured: "layout_ok DL \<Longrightarrow> fits DL Ty \<Longrightarrow> is_scalar Ty \<Longrightarrow> \<exists>b a s. measured DL Ty b a s"
  using measured_scalar by blast

theorem fits_measured:
  assumes "layout_ok DL" "fits DL Ty"
  shows "\<exists>b a s. measured DL Ty b a s"
  using assms(2)
proof (induction Ty)
  case (ArrayTy n El)
  then obtain b a s where m: "measured DL El b a s" by auto
  have "0 \<le> n" "n * s < 2 ^ 60" "isSized El" using ArrayTy.prems measured_measure_of [OF m] fits_isSized [of DL El] by simp_all
  then show ?case using measured_array [OF m] by blast
next
  case (VectorTy n El)
  then show ?case using measured_vector [OF assms(1)] by blast
next
  case (StructTy Packed Tys)
  have "measures DL Tys (map (measure_of DL) Tys)" using StructTy by (simp add: measures_measure_of)
  moreover have "field_room (map (measure_of DL) Tys) < 2 ^ 60" "\<forall>Ty \<in> set Tys. isSized Ty"
    using StructTy.prems fits_isSized [of DL] by auto
  ultimately show ?case by (rule measured_struct [OF assms(1), where Packed = Packed]) blast
qed (rule scalar_measured [OF assms(1)], assumption, simp)+

end
