(* ===== verification/LayoutPaths.thy ===== *)
theory LayoutPaths
  imports LayoutSizes "HOL-Library.Sublist"
begin

text \<open>
  Where the parts of a type are: the elements of a struct, the element at an offset, and the offsets of the paths that
  \<open>getIndexedOffsetInType\<close> computes.
\<close>

section \<open>Where the elements of a struct are\<close>

lemma length_field_offsets [simp]: "length (field_offsets fs at) = length fs"
  by (induction fs at rule: field_offsets.induct) simp_all

lemma fields_end_append: "fields_end (xs @ ys) at = fields_end ys (fields_end xs at)"
  by (induction xs at rule: fields_end.induct) simp_all

lemma field_offsets_nth:
  "i < length fs \<Longrightarrow> field_offsets fs at ! i = ceil_to (fst (fs ! i)) 0 (fields_end (take i fs) at)"
proof (induction fs at arbitrary: i rule: field_offsets.induct)
  case (2 a s fs at)
  then show ?case by (cases i) simp_all
qed simp

lemma fields_end_Suc:
  "i < length fs \<Longrightarrow> fields_end (take (Suc i) fs) at = field_offsets fs at ! i + snd (fs ! i)"
  by (simp add: take_Suc_conv_app_nth fields_end_append field_offsets_nth split: prod.split) (cases "fs ! i", simp)

lemma fields_end_mono:
  assumes "\<forall>f \<in> set fs. field_ok f" "i \<le> j"
  shows "fields_end (take i fs) at \<le> fields_end (take j fs) at"
proof -
  have "take j fs = take i fs @ drop i (take j fs)" using assms(2) by (metis append_take_drop_id min.absorb1 take_take)
  moreover have "\<forall>f \<in> set (drop i (take j fs)). field_ok f" using assms(1) by (meson in_set_dropD in_set_takeD)
  ultimately show ?thesis using fields_end_bounds [of "drop i (take j fs)" "fields_end (take i fs) at"] by (metis fields_end_append)
qed

lemma fields_end_sum:
  "\<forall>f \<in> set fs. field_ok f \<Longrightarrow> at + sum_list (map snd fs) \<le> fields_end fs at \<and> (fields_padded fs at \<longleftrightarrow> fields_end fs at \<noteq> at + sum_list (map snd fs))"
proof (induction fs at rule: fields_end.induct)
  case (2 a s fs at)
  then have a: "1 \<le> a" by (auto simp: field_ok_def dest: pow2_uptoD)
  then have le: "at \<le> ceil_to a 0 at" using ceil_to_bounds [of a] by simp
  have "at mod a = 0 \<longleftrightarrow> ceil_to a 0 at = at" using ceil_to_id [of a at] ceil_to_mod [of a 0 at] a by auto
  then show ?case using 2 le by auto
qed simp

text \<open>
  The elements in order, each at the first multiple of its alignment after the one before, the size the first multiple
  of the alignment after the last.
\<close>

definition element_ends :: "(int \<times> int) list \<Rightarrow> nat \<Rightarrow> int" where
  "element_ends F i = fields_end (take i F) 0"

lemma element_places:
  assumes "\<forall>f \<in> set F. field_ok f" "i < length F"
  shows "field_offsets F 0 ! i mod fst (F ! i) = 0" "element_ends F i \<le> field_offsets F 0 ! i"
    "field_offsets F 0 ! i < element_ends F i + fst (F ! i)" "field_offsets F 0 ! i + snd (F ! i) = element_ends F (Suc i)"
proof -
  have "1 \<le> fst (F ! i)" using assms nth_mem [of i F] by (auto simp: field_ok_def dest: pow2_uptoD)
  then show "field_offsets F 0 ! i mod fst (F ! i) = 0" "element_ends F i \<le> field_offsets F 0 ! i"
    "field_offsets F 0 ! i < element_ends F i + fst (F ! i)"
    using field_offsets_nth [OF assms(2), of 0] ceil_to_mod [of "fst (F ! i)" 0] ceil_to_bounds [of "fst (F ! i)", where s = 0 and v = "element_ends F i"]
    by (simp_all add: element_ends_def)
  show "field_offsets F 0 ! i + snd (F ! i) = element_ends F (Suc i)"
    using fields_end_Suc [OF assms(2), of 0] by (simp add: element_ends_def)
qed

lemma element_ends_next:
  assumes "\<forall>f \<in> set F. field_ok f" "i < j" "j < length F"
  shows "field_offsets F 0 ! i + snd (F ! i) \<le> field_offsets F 0 ! j"
proof -
  have "element_ends F (Suc i) \<le> element_ends F j" using fields_end_mono [OF assms(1), of "Suc i" j] assms(2) by (simp add: element_ends_def)
  then show ?thesis using element_places(4) [OF assms(1), of i] element_places(2) [OF assms(1,3)] assms(2,3) by simp
qed

lemma element_ends_last:
  assumes "\<forall>f \<in> set F. field_ok f" "i < length F"
  shows "field_offsets F 0 ! i + snd (F ! i) \<le> fields_end F 0"
proof -
  have "element_ends F (Suc i) \<le> element_ends F (length F)"
    using fields_end_mono [OF assms(1), of "Suc i" "length F"] assms(2) by (simp add: element_ends_def)
  then show ?thesis using element_places(4) [OF assms] by (simp add: element_ends_def)
qed

lemma struct_measures:
  assumes "layout_ok DL" "fits DL (StructTy Packed Tys)"
  shows "measures DL Tys (map (measure_of DL) Tys)" "field_room (map (measure_of DL) Tys) < 2 ^ 60"
  using assms fits_measured [OF assms(1)] by (simp_all add: measures_measure_of)

definition struct_fields :: "data_layout \<Rightarrow> bool \<Rightarrow> ir_type list \<Rightarrow> (int \<times> int) list" where
  "struct_fields DL Packed Tys = map (\<lambda>Ty. field_of Packed (measure_of DL Ty)) Tys"

lemma struct_fields_ok:
  assumes "layout_ok DL" "fits DL (StructTy Packed Tys)"
  shows "\<forall>f \<in> set (struct_fields DL Packed Tys). field_ok f"
  using measures_field_ok [OF struct_measures(1) [OF assms], of _ Packed] by (auto simp: struct_fields_def)

lemma getStructLayout_fields:
  fixes Packed :: bool
  assumes "layout_ok DL" "fits DL (StructTy Packed Tys)"
  defines "F \<equiv> struct_fields DL Packed Tys"
  shows "getStructLayout DL Packed Tys = Inr
    \<lparr>StructSize = ceil_to (struct_alignment F) 0 (fields_end F 0), StructAlignment = struct_alignment F,
     IsPadded = (fields_padded F 0 \<or> fields_end F 0 mod struct_alignment F \<noteq> 0), MemberOffsets = field_offsets F 0\<rparr>"
proof -
  have "map (field_of Packed) (map (measure_of DL) Tys) = F" by (simp add: F_def struct_fields_def)
  then show ?thesis using getStructLayout_eq [OF struct_measures [OF assms(1,2)], of Packed] by simp
qed

text \<open>The alignment and the size that an element takes in a struct.\<close>

definition element_measure :: "data_layout \<Rightarrow> bool \<Rightarrow> ir_type \<Rightarrow> int \<Rightarrow> int \<Rightarrow> bool" where
  "element_measure DL Packed Ty a s = ((if Packed then a = 1 else getAlignment DL Ty True = Inr a) \<and> getTypeAllocSize DL Ty = Inr s)"

lemma element_measure_field:
  assumes "layout_ok DL" "fits DL (StructTy Packed Tys)" "i < length Tys"
  shows "element_measure DL Packed (Tys ! i) (fst (struct_fields DL Packed Tys ! i)) (snd (struct_fields DL Packed Tys ! i))"
proof -
  have "fits DL (Tys ! i)" using assms(2,3) by simp
  then obtain b a s where m: "measured DL (Tys ! i) b a s" using fits_measured [OF assms(1)] by blast
  have "struct_fields DL Packed Tys ! i = (if Packed then 1 else a, s)"
    using assms(3) measured_measure_of [OF m] by (simp add: struct_fields_def field_of_def)
  then show ?thesis using m by (simp add: element_measure_def measured_def)
qed

lemma element_measure_unique: "element_measure DL Packed Ty a s \<Longrightarrow> element_measure DL Packed Ty a' s' \<Longrightarrow> a' = a \<and> s' = s"
  by (auto simp: element_measure_def split: if_splits)

lemma struct_padding:
  assumes "\<forall>f \<in> set F. field_ok f"
  shows "(fields_padded F 0 \<or> fields_end F 0 mod struct_alignment F \<noteq> 0) \<longleftrightarrow> ceil_to (struct_alignment F) 0 (fields_end F 0) \<noteq> sum_list (map snd F)"
proof -
  have A: "1 \<le> struct_alignment F" using pow2_uptoD [OF struct_alignment_pow2 [OF assms]] by simp
  have "fields_end F 0 \<le> ceil_to (struct_alignment F) 0 (fields_end F 0)"
    using ceil_to_bounds [of "struct_alignment F"] A by simp
  moreover have "fields_end F 0 mod struct_alignment F = 0 \<longleftrightarrow> ceil_to (struct_alignment F) 0 (fields_end F 0) = fields_end F 0"
    using ceil_to_id [of "struct_alignment F" "fields_end F 0"] ceil_to_mod [of "struct_alignment F" 0 "fields_end F 0"] A by auto
  ultimately show ?thesis using fields_end_sum [OF assms, of 0] by auto
qed

lemma fields_end_last: "F \<noteq> [] \<Longrightarrow> fields_end F 0 = field_offsets F 0 ! (length F - 1) + snd (F ! (length F - 1))"
  using fields_end_Suc [of "length F - 1" F 0] by simp

text \<open>
  The layout of a struct: each element at a multiple of its alignment, after the one before and with less space
  between than its alignment, the size a multiple of the alignment of the struct with less space at the end than that.
\<close>

theorem struct_layout_sound:
  assumes "layout_ok DL" "fits DL (StructTy Packed Tys)"
  shows "\<exists>SL als ss. getStructLayout DL Packed Tys = Inr SL \<and> length (MemberOffsets SL) = length Tys \<and>
    length als = length Tys \<and> length ss = length Tys \<and>
    (\<forall>i < length Tys. element_measure DL Packed (Tys ! i) (als ! i) (ss ! i) \<and>
      MemberOffsets SL ! i mod als ! i = 0 \<and> als ! i dvd StructAlignment SL \<and>
      (let before = (if i = 0 then 0 else MemberOffsets SL ! (i - 1) + ss ! (i - 1)) in
       before \<le> MemberOffsets SL ! i \<and> MemberOffsets SL ! i < before + als ! i)) \<and>
    (let last = (if Tys = [] then 0 else MemberOffsets SL ! (length Tys - 1) + ss ! (length Tys - 1)) in
     last \<le> StructSize SL \<and> StructSize SL < last + StructAlignment SL) \<and>
    StructSize SL mod StructAlignment SL = 0 \<and> (IsPadded SL \<longleftrightarrow> StructSize SL \<noteq> sum_list ss)"
proof -
  define F where "F = struct_fields DL Packed Tys"
  have len: "length F = length Tys" by (simp add: F_def struct_fields_def)
  note ok = struct_fields_ok [OF assms, folded F_def]
  note SL = getStructLayout_fields [OF assms, folded F_def]
  have A: "1 \<le> struct_alignment F" using pow2_uptoD [OF struct_alignment_pow2 [OF ok]] by simp
  have elem: "element_measure DL Packed (Tys ! i) (map fst F ! i) (map snd F ! i) \<and>
      field_offsets F 0 ! i mod map fst F ! i = 0 \<and> map fst F ! i dvd struct_alignment F \<and>
      (let before = (if i = 0 then 0 else field_offsets F 0 ! (i - 1) + map snd F ! (i - 1)) in
       before \<le> field_offsets F 0 ! i \<and> field_offsets F 0 ! i < before + map fst F ! i)" if i: "i < length Tys" for i
  proof -
    have "element_ends F i = (if i = 0 then 0 else field_offsets F 0 ! (i - 1) + snd (F ! (i - 1)))"
      using element_places(4) [OF ok, of "i - 1"] i len by (cases i) (simp_all add: element_ends_def)
    then show ?thesis
      using element_measure_field [OF assms i, folded F_def] element_places [OF ok, of i] struct_alignment_dvd [OF ok, of "F ! i"] i len
      by (cases i) (simp_all add: Let_def)
  qed
  have last: "fields_end F 0 = (if Tys = [] then 0 else field_offsets F 0 ! (length Tys - 1) + map snd F ! (length Tys - 1))"
    using fields_end_last [of F] len by (cases "F = []") (use len in auto)
  define SL where "SL = \<lparr>StructSize = ceil_to (struct_alignment F) 0 (fields_end F 0), StructAlignment = struct_alignment F,
    IsPadded = (fields_padded F 0 \<or> fields_end F 0 mod struct_alignment F \<noteq> 0), MemberOffsets = field_offsets F 0\<rparr>"
  have parts: "StructSize SL = ceil_to (struct_alignment F) 0 (fields_end F 0)" "StructAlignment SL = struct_alignment F"
    "MemberOffsets SL = field_offsets F 0" "IsPadded SL \<longleftrightarrow> StructSize SL \<noteq> sum_list (map snd F)"
    using struct_padding [OF ok] by (simp_all add: SL_def)
  have size: "StructSize SL mod StructAlignment SL = 0" "fields_end F 0 \<le> StructSize SL" "StructSize SL < fields_end F 0 + StructAlignment SL"
    using ceil_to_mod [of "struct_alignment F" 0 "fields_end F 0"] A
      ceil_to_bounds [of "struct_alignment F", where s = 0 and v = "fields_end F 0"] by (simp_all add: parts)
  show ?thesis
  proof (rule exI [of _ SL], rule exI [of _ "map fst F"], rule exI [of _ "map snd F"], intro conjI allI)
    show "getStructLayout DL Packed Tys = Inr SL" by (simp only: SL SL_def)
    show "i < length Tys \<longrightarrow> element_measure DL Packed (Tys ! i) (map fst F ! i) (map snd F ! i) \<and>
        MemberOffsets SL ! i mod map fst F ! i = 0 \<and> map fst F ! i dvd StructAlignment SL \<and>
        (let before = (if i = 0 then 0 else MemberOffsets SL ! (i - 1) + map snd F ! (i - 1)) in
         before \<le> MemberOffsets SL ! i \<and> MemberOffsets SL ! i < before + map fst F ! i)" for i
      using elem [of i] unfolding parts(2,3) by blast
    show "let last = (if Tys = [] then 0 else MemberOffsets SL ! (length Tys - 1) + map snd F ! (length Tys - 1)) in
      last \<le> StructSize SL \<and> StructSize SL < last + StructAlignment SL"
      unfolding Let_def parts(3) last [symmetric] using size by simp
  qed (use size(1) parts len in simp_all)
qed

section \<open>Finding the element at an offset\<close>

lemma sorted_offsets:
  assumes "\<forall>f \<in> set F. field_ok f"
  shows "sorted (field_offsets F 0)"
  unfolding sorted_iff_nth_mono_less
proof (intro allI impI)
  fix i j assume ij: "i < j" "j < length (field_offsets F 0)"
  then have "field_ok (F ! i)" using assms by simp
  then show "field_offsets F 0 ! i \<le> field_offsets F 0 ! j" using element_ends_next [OF assms ij(1)] ij(2) by (simp add: field_ok_def)
qed

lemma containing_offset_eq:
  assumes "sorted Offs" "Offs \<noteq> []" "hd Offs \<le> Off" "MemberOffsets SL = Offs"
  obtains i where "getElementContainingOffset SL Off = Inr i" "i < length Offs" "Offs ! i \<le> Off" "\<forall>j. i < j \<and> j < length Offs \<longrightarrow> Off < Offs ! j"
proof -
  let ?P = "\<lambda>x. x \<le> Off"
  define n where "n = length (takeWhile ?P Offs)"
  have le: "n \<le> length Offs" by (simp add: n_def length_takeWhile_le)
  have "n \<noteq> 0" using assms(2,3) by (cases Offs) (simp_all add: n_def)
  then obtain i where n: "n = Suc i" by (cases n) simp_all
  have below: "Offs ! j \<le> Off" if "j < n" for j
  proof -
    have "takeWhile ?P Offs ! j \<in> set (takeWhile ?P Offs)" using that by (simp add: n_def)
    then have "?P (takeWhile ?P Offs ! j)" by (rule set_takeWhileD [THEN conjunct2])
    then show ?thesis using that by (simp add: n_def takeWhile_nth)
  qed
  have above: "Off < Offs ! j" if "n \<le> j" "j < length Offs" for j
  proof -
    have "n < length Offs" using that by simp
    then have "\<not> ?P (Offs ! n)" unfolding n_def by (rule nth_length_takeWhile)
    moreover have "Offs ! n \<le> Offs ! j" using assms(1) that by (rule sorted_nth_mono)
    ultimately show ?thesis by simp
  qed
  have "takeWhile ?P Offs \<noteq> []" using \<open>n \<noteq> 0\<close> by (simp add: n_def)
  then have "getElementContainingOffset SL Off = Inr i"
    using n below [of i] below [of "i - 1"] above [of "Suc i"] le
    by (simp add: getElementContainingOffset_def assms(4) Let_def flip: n_def) fastforce
  then show thesis using that below [of i] above n le by simp
qed

theorem element_containing_offset:
  assumes "layout_ok DL" "fits DL (StructTy Packed Tys)" "Tys \<noteq> []" "getStructLayout DL Packed Tys = Inr SL" "0 \<le> Off"
  shows "\<exists>i < length Tys. getElementContainingOffset SL Off = Inr i \<and> MemberOffsets SL ! i \<le> Off \<and>
    (\<forall>j. i < j \<and> j < length Tys \<longrightarrow> Off < MemberOffsets SL ! j)"
proof -
  define F where "F = struct_fields DL Packed Tys"
  have len: "length F = length Tys" by (simp add: F_def struct_fields_def)
  note ok = struct_fields_ok [OF assms(1,2), folded F_def]
  have SL: "MemberOffsets SL = field_offsets F 0" using getStructLayout_fields [OF assms(1,2), folded F_def] assms(4) by simp
  have ne: "field_offsets F 0 \<noteq> []" using len assms(3) by (metis length_0_conv length_field_offsets)
  have "F \<noteq> []" using len assms(3) by auto
  then obtain a s F' where F: "F = (a, s) # F'" by (cases F) auto
  then have "1 \<le> a" using ok by (auto simp: field_ok_def dest: pow2_uptoD)
  then have "hd (field_offsets F 0) = 0" using F ceil_to_id [of a 0] by simp
  then have "hd (field_offsets F 0) \<le> Off" using assms(5) by simp
  from containing_offset_eq [OF sorted_offsets [OF ok] ne this SL] show ?thesis unfolding SL using len by (metis length_field_offsets)
qed

section \<open>The offset of a path\<close>

text \<open>
  A path goes through arrays and structs with indices that are in range; the type at its end. Vectors are left out:
  their elements may be narrower than a byte.
\<close>

fun path_type :: "ir_type \<Rightarrow> gep_index list \<Rightarrow> ir_type option" where
  "path_type Ty [] = Some Ty"
| "path_type (ArrayTy n El) ((w, i) # p) = (if 0 \<le> i \<and> i < n then path_type El p else None)"
| "path_type (StructTy Packed Tys) ((w, i) # p) =
     (if w = 32 \<and> 0 \<le> i \<and> i < 2 ^ 31 \<and> nat i < length Tys then path_type (Tys ! nat i) p else None)"
| "path_type Ty (x # p) = None"

fun path_offset :: "data_layout \<Rightarrow> ir_type \<Rightarrow> gep_index list \<Rightarrow> int" where
  "path_offset DL (ArrayTy n El) ((w, i) # p) = i * snd (measure_of DL El) + path_offset DL El p"
| "path_offset DL (StructTy Packed Tys) ((w, i) # p) = field_offsets (struct_fields DL Packed Tys) 0 ! nat i + path_offset DL (Tys ! nat i) p"
| "path_offset DL Ty p = 0"

lemma fits_path:
  "fits DL Ty \<Longrightarrow> path_type Ty p = Some T \<Longrightarrow> fits DL T"
  by (induction Ty p rule: path_type.induct) (auto split: if_splits)

lemma fits_measure_of:
  assumes "layout_ok DL" "fits DL Ty"
  obtains b where "measured DL Ty b (fst (measure_of DL Ty)) (snd (measure_of DL Ty))"
    and "0 \<le> snd (measure_of DL Ty)" "snd (measure_of DL Ty) < 2 ^ 61" "snd (measure_of DL Ty) mod fst (measure_of DL Ty) = 0"
proof -
  obtain b a s where m: "measured DL Ty b a s" using fits_measured [OF assms] by blast
  then have "1 \<le> a" "s < 2 ^ 61" "s = ceil_to a 0 ((b + 7) div 8)" by (auto simp: measured_def dest: pow2_uptoD)
  then show thesis using that m measured_measure_of [OF m] measured_nonneg [OF m] ceil_to_mod [of a 0 "(b + 7) div 8"] by simp
qed

lemma array_measure:
  assumes "layout_ok DL" "fits DL (ArrayTy n El)"
  shows "measure_of DL (ArrayTy n El) = (fst (measure_of DL El), n * snd (measure_of DL El))"
proof -
  have f: "fits DL El" using assms(2) by simp
  obtain b where m: "measured DL El b (fst (measure_of DL El)) (snd (measure_of DL El))" by (rule fits_measure_of [OF assms(1) f])
  have "0 \<le> n" "n * snd (measure_of DL El) < 2 ^ 60" using assms(2) by simp_all
  then show ?thesis using measured_measure_of [OF measured_array [OF m _ _ fits_isSized [OF f]]] by blast
qed

lemma struct_measure:
  assumes "layout_ok DL" "fits DL (StructTy Packed Tys)"
  shows "fields_end (struct_fields DL Packed Tys) 0 \<le> snd (measure_of DL (StructTy Packed Tys))"
    "\<not> Packed \<Longrightarrow> struct_alignment (struct_fields DL Packed Tys) dvd fst (measure_of DL (StructTy Packed Tys))"
proof -
  define F where "F = struct_fields DL Packed Tys"
  note ok = struct_fields_ok [OF assms, folded F_def]
  have sized: "\<forall>Ty \<in> set Tys. isSized Ty" using fits_isSized [OF assms(2)] by simp
  obtain SL a where SL: "getStructLayout DL Packed Tys = Inr SL" "StructAlignment SL dvd a"
    and m: "measured DL (StructTy Packed Tys) (8 * StructSize SL) a (ceil_to a 0 (StructSize SL))"
    by (rule measured_struct [OF assms(1) struct_measures [OF assms] sized, where Packed = Packed]) blast
  have eqs: "StructSize SL = ceil_to (struct_alignment F) 0 (fields_end F 0)" "StructAlignment SL = struct_alignment F"
    using SL(1) getStructLayout_fields [OF assms, folded F_def] by auto
  have A: "1 \<le> struct_alignment F" "1 \<le> a"
    using pow2_uptoD [OF struct_alignment_pow2 [OF ok]] m by (auto simp: measured_def dest: pow2_uptoD)
  have "fields_end F 0 \<le> StructSize SL" "StructSize SL \<le> ceil_to a 0 (StructSize SL)"
    using ceil_to_bounds(1) [of "struct_alignment F", where s = 0 and v = "fields_end F 0"]
      ceil_to_bounds(1) [of a, where s = 0 and v = "StructSize SL"] A by (simp_all add: eqs)
  then show "fields_end (struct_fields DL Packed Tys) 0 \<le> snd (measure_of DL (StructTy Packed Tys))"
    using measured_measure_of [OF m] by (simp add: F_def)
  show "struct_alignment (struct_fields DL Packed Tys) dvd fst (measure_of DL (StructTy Packed Tys))"
    using SL(2) measured_measure_of [OF m] eqs(2) by (simp add: F_def)
qed

lemma path_offset_bounds:
  assumes "layout_ok DL"
  shows "fits DL Ty \<Longrightarrow> path_type Ty p = Some T \<Longrightarrow> 0 \<le> path_offset DL Ty p \<and> path_offset DL Ty p + snd (measure_of DL T) \<le> snd (measure_of DL Ty)"
proof (induction Ty p rule: path_type.induct)
  case (2 n El w i p)
  then have i: "0 \<le> i" "i < n" and IH: "0 \<le> path_offset DL El p" "path_offset DL El p + snd (measure_of DL T) \<le> snd (measure_of DL El)"
    by (simp_all split: if_splits)
  obtain b where "0 \<le> snd (measure_of DL El)" using fits_measure_of [OF assms, of El] 2(2) by auto
  then have "0 \<le> i * snd (measure_of DL El)" "(i + 1) * snd (measure_of DL El) \<le> n * snd (measure_of DL El)"
    using i by (simp_all add: mult_right_mono)
  then show ?case using IH array_measure [OF assms 2(2)] by (simp add: algebra_simps)
next
  case (3 Packed Tys w i p)
  define F where "F = struct_fields DL Packed Tys"
  have len: "length F = length Tys" by (simp add: F_def struct_fields_def)
  note ok = struct_fields_ok [OF assms 3(2), folded F_def]
  have i: "w = 32 \<and> 0 \<le> i \<and> i < 2 ^ 31 \<and> nat i < length Tys" using 3(3) by (simp split: if_splits)
  have fe: "fits DL (Tys ! nat i)" using 3(2) i by simp
  have IH: "0 \<le> path_offset DL (Tys ! nat i) p" "path_offset DL (Tys ! nat i) p + snd (measure_of DL T) \<le> snd (measure_of DL (Tys ! nat i))"
    using 3(1) [OF i fe] 3(3) i by simp_all
  have "snd (F ! nat i) = snd (measure_of DL (Tys ! nat i))" using i by (simp add: F_def struct_fields_def field_of_def)
  then have "field_offsets F 0 ! nat i + snd (measure_of DL (Tys ! nat i)) \<le> snd (measure_of DL (StructTy Packed Tys))"
    using element_ends_last [OF ok, of "nat i"] struct_measure(1) [OF assms 3(2), folded F_def] i len by simp
  moreover have "0 \<le> field_offsets F 0 ! nat i"
  proof -
    have "0 \<le> element_ends F (nat i)" using fields_end_bounds [of "take (nat i) F" 0] ok by (auto simp: element_ends_def dest: in_set_takeD)
    then show ?thesis using element_places(2) [OF ok, of "nat i"] i len by simp
  qed
  ultimately show ?case using IH by (simp flip: F_def)
qed simp_all

lemma next_gep_type_simps [simp]:
  "next_gep_type (ArrayTy n El) = In_Sequence El"
  "next_gep_type (StructTy Packed Tys) = In_Struct Packed Tys"
  by (simp_all add: next_gep_type_def)

text \<open>The iterator adds the offset of the path.\<close>

lemma gep_path:
  assumes "layout_ok DL"
  shows "fits DL Ty \<Longrightarrow> path_type Ty p = Some T \<Longrightarrow> - (2 ^ 62) \<le> R \<Longrightarrow> R + snd (measure_of DL Ty) < 2 ^ 63 \<Longrightarrow>
    gep_offset DL (next_gep_type Ty) p R = Inr (R + path_offset DL Ty p)"
proof (induction Ty p arbitrary: R rule: path_type.induct)
  case (1 Ty)
  then show ?case by simp
next
  case (2 n El w i p)
  then have i: "0 \<le> i" "i < n" and fe: "fits DL El" and pt: "path_type El p = Some T" by (simp_all split: if_splits)
  obtain b where m: "measured DL El b (fst (measure_of DL El)) (snd (measure_of DL El))" "0 \<le> snd (measure_of DL El)"
    by (rule fits_measure_of [OF assms fe])
  define s where "s = snd (measure_of DL El)"
  have "(i + 1) * s \<le> n * s" using i m(2) by (intro mult_right_mono) (simp_all add: s_def)
  then have b: "0 \<le> i * s" "i * s + s \<le> n * s" "n * s < 2 ^ 60" using i m(2) 2(2) by (simp_all add: s_def algebra_simps)
  have size: "snd (measure_of DL (ArrayTy n El)) = n * s" using array_measure [OF assms 2(2)] by (simp add: s_def)
  have "u64 (i * s) = i * s" using b m(2) by (intro u64_id) (simp_all add: s_def)
  moreover have "i64 (R + i * s) = R + i * s" using b 2(4,5) m(2) size by (intro i64_id) (simp_all add: s_def)
  moreover have "getTypeAllocSize DL El = Inr s" using m(1) by (simp add: measured_def s_def)
  ultimately have "(if i \<noteq> 0 then map_sum id (\<lambda>s. i64 (R + u64 (i * s))) (getTypeAllocSize DL El) else Inr R) = Inr (R + i * s)" by simp
  moreover have "gep_offset DL (next_gep_type El) p (R + i * s) = Inr (R + i * s + path_offset DL El p)"
  proof (rule 2(1) [OF _ fe pt])
    show "0 \<le> i \<and> i < n" using i by simp
    show "- (2 ^ 62) \<le> R + i * s" using b 2(4) by simp
    show "R + i * s + snd (measure_of DL El) < 2 ^ 63" using b 2(5) size by (simp add: s_def)
  qed
  ultimately show ?case by (simp add: s_def)
next
  case (3 Packed Tys w i p)
  define F where "F = struct_fields DL Packed Tys"
  have len: "length F = length Tys" by (simp add: F_def struct_fields_def)
  note ok = struct_fields_ok [OF assms 3(2), folded F_def]
  have i: "w = 32 \<and> 0 \<le> i \<and> i < 2 ^ 31 \<and> nat i < length Tys" and pt: "path_type (Tys ! nat i) p = Some T"
    using 3(3) by (simp_all split: if_splits)
  have fe: "fits DL (Tys ! nat i)" using 3(2) i by simp
  have u: "u32 i = i" using i by (intro u32_id) simp_all
  define off where "off = field_offsets F 0 ! nat i"
  have ps: "path_type (StructTy Packed Tys) [(w, i)] = Some (Tys ! nat i)" using i by simp
  have b: "0 \<le> off" "off + snd (measure_of DL (Tys ! nat i)) \<le> snd (measure_of DL (StructTy Packed Tys))"
    using path_offset_bounds [OF assms 3(2) ps] by (simp_all add: off_def F_def split: ir_type.split)
  have "0 \<le> snd (measure_of DL (Tys ! nat i))" by (rule fits_measure_of [OF assms fe]) 
  then have "i64 (R + off) = R + off" using b 3(4,5) by (intro i64_id) simp_all
  moreover have "gep_offset DL (next_gep_type (Tys ! nat i)) p (R + off) = Inr (R + off + path_offset DL (Tys ! nat i) p)"
    by (rule 3(1) [OF i fe pt]) (use b 3(4,5) in simp_all)
  moreover have "getElementOffset SL (nat i) = Inr off" if "MemberOffsets SL = field_offsets F 0" for SL
    using that i len by (simp add: getElementOffset_def off_def)
  ultimately show ?case
    using i u getStructLayout_fields [OF assms 3(2), folded F_def] by (simp add: off_def F_def Let_def)
qed simp_all

text \<open>The alignment of what a path reaches, when no packed struct is on it.\<close>

fun unpacked :: "ir_type \<Rightarrow> gep_index list \<Rightarrow> bool" where
  "unpacked (ArrayTy n El) ((w, i) # p) = unpacked El p"
| "unpacked (StructTy Packed Tys) ((w, i) # p) = (\<not> Packed \<and> unpacked (Tys ! nat i) p)"
| "unpacked Ty p = True"

lemma path_offset_aligned:
  assumes "layout_ok DL"
  shows "fits DL Ty \<Longrightarrow> path_type Ty p = Some T \<Longrightarrow> unpacked Ty p \<Longrightarrow>
    fst (measure_of DL T) dvd fst (measure_of DL Ty) \<and> fst (measure_of DL T) dvd path_offset DL Ty p"
proof (induction Ty p rule: path_type.induct)
  case (2 n El w i p)
  then have fe: "fits DL El" and IH: "fst (measure_of DL T) dvd fst (measure_of DL El)" "fst (measure_of DL T) dvd path_offset DL El p"
    by (simp_all split: if_splits)
  have "fst (measure_of DL El) dvd snd (measure_of DL El)" by (rule fits_measure_of [OF assms fe]) (simp add: mod_eq_0_iff_dvd)
  then have "fst (measure_of DL T) dvd i * snd (measure_of DL El)" using IH(1) by (meson dvd_mult dvd_trans)
  then show ?case using IH array_measure [OF assms 2(2)] by simp
next
  case (3 Packed Tys w i p)
  define F where "F = struct_fields DL Packed Tys"
  have len: "length F = length Tys" by (simp add: F_def struct_fields_def)
  note ok = struct_fields_ok [OF assms 3(2), folded F_def]
  have i: "w = 32 \<and> 0 \<le> i \<and> i < 2 ^ 31 \<and> nat i < length Tys" and pt: "path_type (Tys ! nat i) p = Some T"
    using 3(3) by (simp_all split: if_splits)
  have unp: "\<not> Packed" "unpacked (Tys ! nat i) p" using 3(4) by simp_all
  have fe: "fits DL (Tys ! nat i)" using 3(2) i by simp
  note IH = 3(1) [OF i fe pt unp(2)]
  have f: "fst (F ! nat i) = fst (measure_of DL (Tys ! nat i))" "nat i < length F" using i len unp(1) by (simp_all add: F_def struct_fields_def field_of_def)
  have "fst (F ! nat i) dvd struct_alignment F" using struct_alignment_dvd [OF ok, of "F ! nat i"] f(2) by simp
  then have "fst (F ! nat i) dvd fst (measure_of DL (StructTy Packed Tys))"
    using struct_measure(2) [OF assms 3(2) unp(1), folded F_def] by (rule dvd_trans)
  moreover have "fst (F ! nat i) dvd field_offsets F 0 ! nat i" using element_places(1) [OF ok f(2)] by (simp add: mod_eq_0_iff_dvd)
  ultimately show ?case using IH unfolding f(1) by (auto simp flip: F_def intro: dvd_trans)
qed simp_all

lemma path_offset_disjoint:
  assumes "layout_ok DL"
  shows "fits DL Ty \<Longrightarrow> path_type Ty p = Some T \<Longrightarrow> path_type Ty q = Some U \<Longrightarrow>
    \<not> prefix (map snd p) (map snd q) \<Longrightarrow> \<not> prefix (map snd q) (map snd p) \<Longrightarrow>
    path_offset DL Ty p + snd (measure_of DL T) \<le> path_offset DL Ty q \<or> path_offset DL Ty q + snd (measure_of DL U) \<le> path_offset DL Ty p"
proof (induction Ty p arbitrary: q rule: path_type.induct)
  case (2 n El w i p)
  obtain v j r where q: "q = (v, j) # r" using 2(6) by (cases q) auto
  have ij: "0 \<le> i \<and> i < n" "0 \<le> j \<and> j < n" "path_type El p = Some T" "path_type El r = Some U" "fits DL El"
    using 2(2-4) q by (simp_all split: if_splits)
  note b = path_offset_bounds [OF assms ij(5,3)] path_offset_bounds [OF assms ij(5,4)]
  have s: "0 \<le> snd (measure_of DL El)" by (rule fits_measure_of [OF assms ij(5)])
  consider "i = j" | "i + 1 \<le> j" | "j + 1 \<le> i" by linarith
  then show ?case
  proof cases
    case 1
    then show ?thesis using 2(1) [OF ij(1,5,3,4)] 2(5,6) q by simp
  next
    case 2
    then have "(i + 1) * snd (measure_of DL El) \<le> j * snd (measure_of DL El)" using s by (rule mult_right_mono)
    then show ?thesis using b q by (simp add: algebra_simps)
  next
    case 3
    then have "(j + 1) * snd (measure_of DL El) \<le> i * snd (measure_of DL El)" using s by (rule mult_right_mono)
    then show ?thesis using b q by (simp add: algebra_simps)
  qed
next
  case (3 Packed Tys w i p)
  define F where "F = struct_fields DL Packed Tys"
  have len: "length F = length Tys" by (simp add: F_def struct_fields_def)
  note ok = struct_fields_ok [OF assms 3(2), folded F_def]
  obtain v j r where q: "q = (v, j) # r" using 3(6) by (cases q) auto
  have i: "w = 32 \<and> 0 \<le> i \<and> i < 2 ^ 31 \<and> nat i < length Tys" "path_type (Tys ! nat i) p = Some T" "fits DL (Tys ! nat i)"
    and j: "0 \<le> j" "nat j < length Tys" "path_type (Tys ! nat j) r = Some U" "fits DL (Tys ! nat j)"
    using 3(2-4) q by (simp_all split: if_splits)
  have snds: "snd (F ! k) = snd (measure_of DL (Tys ! k))" if "k < length Tys" for k using that by (simp add: F_def struct_fields_def field_of_def)
  note b = path_offset_bounds [OF assms i(3,2)] path_offset_bounds [OF assms j(4,3)]
  consider "i = j" | "nat i < nat j" | "nat j < nat i" using i(1) j(1) by linarith
  then show ?case
  proof cases
    case 1
    then show ?thesis using 3(1) [OF i(1,3,2), of r] j(3) 3(5,6) q by simp
  next
    case 2
    then show ?thesis using element_ends_next [OF ok 2] b snds [of "nat i"] i(1) j(2) len q by (simp flip: F_def)
  next
    case 3
    then show ?thesis using element_ends_next [OF ok 3] b snds [of "nat j"] i(1) j(2) len q by (simp flip: F_def)
  qed
qed simp_all

end
