(* ===== verification/NumberParse.thy ===== *)
theory NumberParse
  imports SymbolNames
begin

text \<open>
  Reading integers, \<open>lib/Support/StringRef.cpp\<close> and \<open>StringRef::getAsInteger\<close> of \<open>include/llvm/ADT/StringRef.h\<close>. The
  functions of the source return \<open>true\<close> for an error; here an error is \<open>None\<close>. Those that take the string by
  reference return what is left of it too.
\<close>

definition starts_with :: "string \<Rightarrow> string \<Rightarrow> bool" where
  "starts_with Prefix Str = (take (length Prefix) Str = Prefix)"

definition ascii_isdigit :: "char \<Rightarrow> bool" where
  "ascii_isdigit c = (CHR ''0'' \<le> c \<and> c \<le> CHR ''9'')"

definition GetAutoSenseRadix :: "string \<Rightarrow> int \<times> string" where
  "GetAutoSenseRadix Str =
     (if Str = [] then (10, Str)
      else if starts_with ''0x'' Str \<or> starts_with ''0X'' Str then (16, drop 2 Str)
      else if starts_with ''0b'' Str \<or> starts_with ''0B'' Str then (2, drop 2 Str)
      else if starts_with ''0o'' Str then (8, drop 2 Str)
      else if hd Str = CHR ''0'' \<and> length Str > 1 \<and> ascii_isdigit (Str ! 1) then (8, drop 1 Str)
      else (10, Str))"

text \<open>The value of a digit, of any radix.\<close>

definition CharVal :: "char \<Rightarrow> int option" where
  "CharVal c =
     (if CHR ''0'' \<le> c \<and> c \<le> CHR ''9'' then Some (int (of_char c) - int (of_char CHR ''0''))
      else if CHR ''a'' \<le> c \<and> c \<le> CHR ''z'' then Some (int (of_char c) - int (of_char CHR ''a'') + 10)
      else if CHR ''A'' \<le> c \<and> c \<le> CHR ''Z'' then Some (int (of_char c) - int (of_char CHR ''A'') + 10)
      else None)"

text \<open>The loop over the digits; \<open>None\<close> when the value overflows.\<close>

fun consume_digits :: "int \<Rightarrow> string \<Rightarrow> int \<Rightarrow> (int \<times> string) option" where
  "consume_digits Radix [] Result = Some (Result, [])"
| "consume_digits Radix (c # Str2) Result =
     (case CharVal c of
        None \<Rightarrow> Some (Result, c # Str2)
      | Some v \<Rightarrow>
          if v \<ge> Radix then Some (Result, c # Str2)
          else
            let PrevResult = Result; Result = u64 (u64 (Result * Radix) + v) in
            if Result div Radix < PrevResult then None else consume_digits Radix Str2 Result)"

definition consumeUnsignedInteger :: "string \<Rightarrow> int \<Rightarrow> int option \<times> string" where
  "consumeUnsignedInteger Str Radix =
     (let (Radix, Str) = (if Radix = 0 then GetAutoSenseRadix Str else (Radix, Str)) in
      if Str = [] then (None, Str)
      else case consume_digits Radix Str 0 of
          None \<Rightarrow> (None, Str)
        | Some (Result, Str2) \<Rightarrow> if length Str = length Str2 then (None, Str) else (Some Result, Str2))"

definition consumeSignedInteger :: "string \<Rightarrow> int \<Rightarrow> int option \<times> string" where
  "consumeSignedInteger Str Radix =
     (if Str = [] \<or> hd Str \<noteq> CHR ''-'' then
        (case consumeUnsignedInteger Str Radix of
           (None, Str) \<Rightarrow> (None, Str)
         | (Some ULLVal, Str) \<Rightarrow> (if i64 ULLVal < 0 then None else Some ULLVal, Str))
      else
        (case consumeUnsignedInteger (drop 1 Str) Radix of
           (None, _) \<Rightarrow> (None, Str)
         | (Some ULLVal, Str2) \<Rightarrow> if i64 (- ULLVal) > 0 then (None, Str) else (Some (i64 (- ULLVal)), Str2)))"

definition getAsUnsignedInteger :: "string \<Rightarrow> int \<Rightarrow> int option" where
  "getAsUnsignedInteger Str Radix =
     (case consumeUnsignedInteger Str Radix of (None, _) \<Rightarrow> None | (Some Result, Str) \<Rightarrow> if Str \<noteq> [] then None else Some Result)"

definition getAsSignedInteger :: "string \<Rightarrow> int \<Rightarrow> int option" where
  "getAsSignedInteger Str Radix =
     (case consumeSignedInteger Str Radix of (None, _) \<Rightarrow> None | (Some Result, Str) \<Rightarrow> if Str \<noteq> [] then None else Some Result)"

text \<open>\<open>StringRef::getAsInteger\<close> at the type \<open>unsigned\<close>, and at \<open>int\<close>.\<close>

definition getAsInteger_unsigned :: "int \<Rightarrow> string \<Rightarrow> int option" where
  "getAsInteger_unsigned Radix Str =
     (case getAsUnsignedInteger Str Radix of None \<Rightarrow> None | Some ULLVal \<Rightarrow> if u32 ULLVal \<noteq> ULLVal then None else Some ULLVal)"

definition getAsInteger_int :: "int \<Rightarrow> string \<Rightarrow> int option" where
  "getAsInteger_int Radix Str =
     (case getAsSignedInteger Str Radix of None \<Rightarrow> None | Some LLVal \<Rightarrow> if i32 LLVal \<noteq> LLVal then None else Some LLVal)"

section \<open>Numerals\<close>

text \<open>The value of a numeral of a radix; \<open>None\<close> when a character is no digit of the radix.\<close>

fun numeral_value :: "int \<Rightarrow> string \<Rightarrow> int \<Rightarrow> int option" where
  "numeral_value Radix [] n = Some n"
| "numeral_value Radix (c # cs) n = (case CharVal c of None \<Rightarrow> None | Some v \<Rightarrow> if v < Radix then numeral_value Radix cs (n * Radix + v) else None)"

lemma CharVal_nonneg: "CharVal c = Some v \<Longrightarrow> 0 \<le> v"
  by (auto simp: CharVal_def less_eq_char_def split: if_splits)

lemma numeral_value_ge: "1 \<le> Radix \<Longrightarrow> 0 \<le> n \<Longrightarrow> numeral_value Radix cs n = Some m \<Longrightarrow> n \<le> m"
proof (induction cs arbitrary: n)
  case (Cons c cs)
  then obtain v where v: "CharVal c = Some v" "v < Radix" "numeral_value Radix cs (n * Radix + v) = Some m" by (auto split: option.splits if_splits)
  have "n * 1 \<le> n * Radix" using Cons.prems(1,2) by (intro mult_left_mono) simp_all
  then have "n \<le> n * Radix + v" using CharVal_nonneg [OF v(1)] by simp
  then show ?case using Cons.IH [OF Cons.prems(1) _ v(3)] Cons.prems(2) by simp
qed simp

text \<open>The test for lost bits is exact.\<close>

lemma overflow_test:
  assumes "1 \<le> Radix" "Radix \<le> 36" "0 \<le> v" "v < Radix" "0 \<le> n" "n < 2 ^ 64"
  shows "u64 (u64 (n * Radix) + v) div Radix < n \<longleftrightarrow> 2 ^ 64 \<le> n * Radix + v"
    and "n * Radix + v < 2 ^ 64 \<Longrightarrow> u64 (u64 (n * Radix) + v) = n * Radix + v"
proof -
  define N where "N = n * Radix + v"
  have u: "u64 (u64 (n * Radix) + v) = N mod 2 ^ 64" by (simp add: u64_mod N_def mod_simps)
  have N: "0 \<le> N" using assms by (simp add: N_def)
  show "n * Radix + v < 2 ^ 64 \<Longrightarrow> u64 (u64 (n * Radix) + v) = n * Radix + v" using u N by (simp add: N_def)
  have div: "M div Radix < n \<longleftrightarrow> M < n * Radix" for M
  proof
    assume "M < n * Radix"
    moreover have "M div Radix * Radix \<le> M" using assms(1) by (simp add: minus_mod_eq_div_mult [symmetric])
    ultimately have "M div Radix * Radix < n * Radix" by linarith
    then show "M div Radix < n" using assms(1) by simp
  next
    assume less: "M div Radix < n"
    show "M < n * Radix"
    proof (rule ccontr)
      assume "\<not> M < n * Radix"
      then have "n * Radix div Radix \<le> M div Radix" using assms(1) by (intro zdiv_mono1) simp_all
      then show False using less assms(1) by simp
    qed
  qed
  show "u64 (u64 (n * Radix) + v) div Radix < n \<longleftrightarrow> 2 ^ 64 \<le> n * Radix + v"
  proof (cases "N < 2 ^ 64")
    case True
    then show ?thesis using u N assms(3) by (simp add: div N_def)
  next
    case False
    then have "N mod 2 ^ 64 = (N - 2 ^ 64) mod 2 ^ 64" by simp
    moreover have "(N - 2 ^ 64) mod 2 ^ 64 \<le> N - 2 ^ 64" using False by (intro zmod_le_nonneg_dividend) simp
    ultimately have "N mod 2 ^ 64 \<le> N - 2 ^ 64" by simp
    then show ?thesis using False u assms(2,4) by (simp add: div N_def)
  qed
qed
text \<open>The loop reads the longest run of digits, unless its value does not fit.\<close>

definition is_radix_digit :: "int \<Rightarrow> char \<Rightarrow> bool" where
  "is_radix_digit Radix c = (case CharVal c of None \<Rightarrow> False | Some v \<Rightarrow> v < Radix)"

lemma numeral_value_None_iff: "numeral_value Radix cs n = None \<longleftrightarrow> \<not> list_all (is_radix_digit Radix) cs"
  by (induction cs arbitrary: n) (auto simp: is_radix_digit_def split: option.split)

lemma consume_digits_eq:
  assumes "1 \<le> Radix" "Radix \<le> 36" "0 \<le> n" "n < 2 ^ 64"
  shows "consume_digits Radix cs n =
    (let m = the (numeral_value Radix (takeWhile (is_radix_digit Radix) cs) n) in
     if m < 2 ^ 64 then Some (m, dropWhile (is_radix_digit Radix) cs) else None)"
  using assms(3,4)
proof (induction cs arbitrary: n)
  case (Cons c cs)
  show ?case
  proof (cases "is_radix_digit Radix c")
    case False
    then show ?thesis using Cons.prems by (auto simp: is_radix_digit_def split: option.splits)
  next
    case True
    then obtain v where v: "CharVal c = Some v" "v < Radix" by (auto simp: is_radix_digit_def split: option.splits)
    note ov = overflow_test [OF assms(1,2) CharVal_nonneg [OF v(1)] v(2) Cons.prems]
    let ?ds = "takeWhile (is_radix_digit Radix) cs"
    obtain m where m: "numeral_value Radix ?ds (n * Radix + v) = Some m"
      using numeral_value_None_iff [of Radix ?ds "n * Radix + v"] by (cases "numeral_value Radix ?ds (n * Radix + v)") (auto simp: list_all_iff dest: set_takeWhileD)
    have N: "0 \<le> n * Radix + v" using Cons.prems CharVal_nonneg [OF v(1)] assms(1) by simp
    then have ge: "n * Radix + v \<le> m" using numeral_value_ge [OF assms(1) _ m] by simp
    have val: "numeral_value Radix (takeWhile (is_radix_digit Radix) (c # cs)) n = Some m" using True v m by simp
    show ?thesis
    proof (cases "n * Radix + v < 2 ^ 64")
      case over: False
      then show ?thesis unfolding val using True v ov(1) ge by simp
    next
      case fits: True
      have "consume_digits Radix (c # cs) n = consume_digits Radix cs (n * Radix + v)"
        using v ov fits by simp
      then show ?thesis unfolding val using Cons.IH [OF N fits] True m by simp
    qed
  qed
qed simp

text \<open>
  \<open>getAsUnsignedInteger\<close> accepts the numerals of its radix whose value fits in 64 bits, and gives that value.
\<close>

lemma getAsUnsignedInteger_exact:
  assumes "2 \<le> Radix" "Radix \<le> 36"
  shows "getAsUnsignedInteger Str Radix = Some m \<longleftrightarrow> Str \<noteq> [] \<and> numeral_value Radix Str 0 = Some m \<and> m < 2 ^ 64"
proof -
  have R: "1 \<le> Radix" "Radix \<noteq> 0" using assms by simp_all
  note eq = consume_digits_eq [OF R(1) assms(2), where n = 0 and cs = Str, simplified]
  let ?P = "is_radix_digit Radix"
  show ?thesis
  proof (cases "list_all ?P Str")
    case True
    then have ws: "takeWhile ?P Str = Str" "dropWhile ?P Str = []" by (simp_all add: list_all_iff takeWhile_eq_all_conv)
    obtain k where k: "numeral_value Radix Str 0 = Some k" using True numeral_value_None_iff [of Radix Str 0] by blast
    have "consume_digits Radix Str 0 = (if k < 2 ^ 64 then Some (k, []) else None)" using eq unfolding ws k by simp
    then show ?thesis using k R by (auto simp: getAsUnsignedInteger_def consumeUnsignedInteger_def Let_def split: if_splits)
  next
    case False
    then have "dropWhile ?P Str \<noteq> []" by (simp add: list_all_iff)
    moreover have "numeral_value Radix Str 0 = None" using False numeral_value_None_iff by blast
    ultimately show ?thesis using eq R
      by (auto simp: getAsUnsignedInteger_def consumeUnsignedInteger_def Let_def split: if_splits)
  qed
qed

text \<open>C40. \<open>getAsInteger\<close> at the type \<open>unsigned\<close> accepts exactly the numerals of its radix below \<open>2 ^ 32\<close>, and gives their value.\<close>

theorem number_read_exactly:
  assumes "2 \<le> Radix" "Radix \<le> 36"
  shows "getAsInteger_unsigned Radix Str = Some m \<longleftrightarrow> Str \<noteq> [] \<and> numeral_value Radix Str 0 = Some m \<and> m < 2 ^ 32"
proof -
  have range: "u32 m = m \<longleftrightarrow> m < 2 ^ 32" if "numeral_value Radix Str 0 = Some m"
    using numeral_value_ge [OF _ _ that] assms(1) by (auto simp: u32_mod)
  note iff = getAsUnsignedInteger_exact [OF assms, of Str]
  show ?thesis
  proof (cases "getAsUnsignedInteger Str Radix")
    case None
    then show ?thesis using iff [of m] by (auto simp: getAsInteger_unsigned_def)
  next
    case (Some k)
    then show ?thesis using iff [of k] range by (auto simp: getAsInteger_unsigned_def)
  qed
qed

theorem number_read_exactly_witness:
  "getAsInteger_unsigned 16 ''fF'' = Some 255 \<longleftrightarrow> ''fF'' \<noteq> [] \<and> numeral_value 16 ''fF'' 0 = Some 255 \<and> 255 < (2 :: int) ^ 32"
  by (rule number_read_exactly) simp_all

text \<open>Decimal numbers as \<open>raw_ostream\<close> writes them are read back.\<close>

lemma numeral_value_decimal: "list_all is_digit cs \<Longrightarrow> numeral_value 10 cs (int n) = Some (int (foldl (\<lambda>n c. 10 * n + (of_char c - of_char CHR ''0'')) n cs))"
proof (induction cs arbitrary: n)
  case (Cons c cs)
  then have "CharVal c = Some (int (of_char c - of_char CHR ''0''))" "of_char c - of_char CHR ''0'' < (10 :: nat)"
    by (auto simp: CharVal_def is_digit_def char_le_iff)
  then have "numeral_value 10 (c # cs) (int n) = numeral_value 10 cs (int (10 * n + (of_char c - of_char CHR ''0'')))"
    by (simp add: mult.commute)
  also have "\<dots> = Some (int (foldl (\<lambda>n c. 10 * n + (of_char c - of_char CHR ''0'')) n (c # cs)))"
    unfolding foldl_Cons by (rule Cons.IH) (use Cons.prems in simp)
  finally show ?case .
qed simp

text \<open>A number that \<open>raw_ostream\<close> prints is read back by \<open>getAsInteger\<close>.\<close>

theorem read_back_unsigned:
  assumes "n < 2 ^ 64"
  shows "getAsUnsignedInteger (write_unsigned n) 10 = Some (int n)"
proof -
  have num: "is_numeral (write_unsigned n)" "digits_value (write_unsigned n) = n" using format_to_buffer_value [of n] by (simp_all add: write_unsigned_def)
  then have "numeral_value 10 (write_unsigned n) (int 0) = Some (int n)"
    by (subst numeral_value_decimal) (simp_all add: is_numeral_def list_all_iff digits_value_def)
  then show ?thesis using num(1) assms by (simp add: getAsUnsignedInteger_exact is_numeral_def)
qed

theorem read_back_unsigned_witness: "getAsUnsignedInteger (write_unsigned 18446744073709551615) 10 = Some (int 18446744073709551615)"
  by (rule read_back_unsigned) simp

end
