(* ===== verification/LayoutParser.thy ===== *)
theory LayoutParser
  imports LayoutTables NumberParse
begin

text \<open>
  The data layout string, \<open>DataLayout::reset\<close> and \<open>parseSpecifier\<close> of \<open>lib/IR/DataLayout.cpp\<close>: every accepted string
  gives a well-formed layout.
\<close>

section \<open>Tokens\<close>

text \<open>\<open>StringRef::split\<close>, and the checked version of it.\<close>

definition split_at :: "string \<Rightarrow> char \<Rightarrow> string \<times> string" where
  "split_at Str Separator = (takeWhile (\<lambda>c. c \<noteq> Separator) Str, drop 1 (dropWhile (\<lambda>c. c \<noteq> Separator) Str))"

definition split_token :: "string \<Rightarrow> char \<Rightarrow> (string \<times> string) result" where
  "split_token Str Separator =
     (if Str = [] then Inl AssertFailed
      else
        let Split = split_at Str Separator in
        if snd Split = [] \<and> fst Split \<noteq> Str then Inl FatalError
        else if snd Split \<noteq> [] \<and> fst Split = [] then Inl FatalError
        else Inr Split)"

definition getInt :: "string \<Rightarrow> int result" where
  "getInt R = (case getAsInteger_unsigned 10 R of None \<Rightarrow> Inl FatalError | Some Result \<Rightarrow> Inr Result)"

definition inBytes :: "int \<Rightarrow> int result" where
  "inBytes Bits = (if Bits mod 8 \<noteq> 0 then Inl FatalError else Inr (Bits div 8))"

lemma split_token_shorter [simp]: "split_token Str Separator = Inr (Tok, Rest) \<Longrightarrow> length Rest < length Str"
proof -
  assume s: "split_token Str Separator = Inr (Tok, Rest)"
  then have "Str \<noteq> []" by (auto simp: split_token_def)
  have "Rest = drop 1 (dropWhile (\<lambda>c. c \<noteq> Separator) Str)" using s by (auto simp: split_token_def split_at_def Let_def split: if_splits)
  moreover have "length (dropWhile (\<lambda>c. c \<noteq> Separator) Str) \<le> length Str" by (simp add: length_dropWhile_le)
  ultimately show ?thesis using \<open>Str \<noteq> []\<close> by (cases "dropWhile (\<lambda>c. c \<noteq> Separator) Str") auto
qed

section \<open>Specifiers\<close>

function ni_loop :: "string \<Rightarrow> data_layout \<Rightarrow> data_layout result" where
  "ni_loop Rest DL =
     (case split_token Rest CHR '':'' of
        Inl e \<Rightarrow> Inl e
      | Inr (Tok, Rest') \<Rightarrow>
          bind_result (getInt Tok) (\<lambda>AS.
          if AS = 0 then Inl FatalError
          else
            let DL = DL\<lparr>NonIntegralAddressSpaces := NonIntegralAddressSpaces DL @ [AS]\<rparr> in
            if Rest' \<noteq> [] then ni_loop Rest' DL else Inr DL))"
  by pat_completeness auto
termination by (relation "measure (\<lambda>(Rest, _). length Rest)") auto

text \<open>\<open>LegalIntWidths\<close> is a vector of \<open>unsigned char\<close>.\<close>

function n_loop :: "string \<Rightarrow> string \<Rightarrow> data_layout \<Rightarrow> data_layout result" where
  "n_loop Tok Rest DL =
     bind_result (getInt Tok) (\<lambda>Width.
     if Width = 0 then Inl FatalError
     else
       let DL = DL\<lparr>LegalIntWidths := LegalIntWidths DL @ [Width mod 256]\<rparr> in
       if Rest = [] then Inr DL
       else (case split_token Rest CHR '':'' of Inl e \<Rightarrow> Inl e | Inr (Tok', Rest') \<Rightarrow> n_loop Tok' Rest' DL))"
  by pat_completeness auto
termination by (relation "measure (\<lambda>(_, Rest, _). length Rest)") auto

declare ni_loop.simps [simp del] n_loop.simps [simp del]

text \<open>A number of bits in the string, as bytes.\<close>

definition byte_field :: "string \<Rightarrow> int result" where
  "byte_field Tok = bind_result (getInt Tok) inBytes"

text \<open>The preferred alignment of a pointer, and of the other types, which may be left out.\<close>

definition pointer_pref_field :: "string \<Rightarrow> int \<Rightarrow> int result" where
  "pointer_pref_field Rest PointerABIAlign =
     (if Rest = [] then Inr PointerABIAlign
      else bind_result (split_token Rest CHR '':'') (\<lambda>(Tok, Rest).
           bind_result (byte_field Tok) (\<lambda>PointerPrefAlign.
           if \<not> isPowerOf2_64 PointerPrefAlign then Inl FatalError else Inr PointerPrefAlign)))"

definition pref_field :: "string \<Rightarrow> int \<Rightarrow> int result" where
  "pref_field Rest abi =
     (if Rest = [] then Inr abi else bind_result (split_token Rest CHR '':'') (\<lambda>(Tok, Rest). byte_field Tok))"

definition parse_pointer :: "string \<Rightarrow> string \<Rightarrow> data_layout \<Rightarrow> data_layout result" where
  "parse_pointer Tok Rest DL =
     bind_result (if Tok = [] then Inr 0 else getInt Tok) (\<lambda>AddrSpace.
     if \<not> AddrSpace < 2 ^ 24 then Inl FatalError
     else if Rest = [] then Inl FatalError
     else bind_result (split_token Rest CHR '':'') (\<lambda>(Tok, Rest).
     bind_result (byte_field Tok) (\<lambda>PointerMemSize.
     if PointerMemSize = 0 then Inl FatalError
     else if Rest = [] then Inl FatalError
     else bind_result (split_token Rest CHR '':'') (\<lambda>(Tok, Rest).
     bind_result (byte_field Tok) (\<lambda>PointerABIAlign.
     if \<not> isPowerOf2_64 PointerABIAlign then Inl FatalError
     else bind_result (pointer_pref_field Rest PointerABIAlign) (\<lambda>PointerPrefAlign.
     setPointerAlignment AddrSpace PointerABIAlign PointerPrefAlign PointerMemSize DL))))))"

definition parse_alignment :: "align_type \<Rightarrow> string \<Rightarrow> string \<Rightarrow> data_layout \<Rightarrow> data_layout result" where
  "parse_alignment t Tok Rest DL =
     bind_result (if Tok = [] then Inr 0 else getInt Tok) (\<lambda>Size.
     if t = AGGREGATE_ALIGN \<and> Size \<noteq> 0 then Inl FatalError
     else if Rest = [] then Inl FatalError
     else bind_result (split_token Rest CHR '':'') (\<lambda>(Tok, Rest).
     bind_result (byte_field Tok) (\<lambda>abi.
     if t \<noteq> AGGREGATE_ALIGN \<and> abi = 0 then Inl FatalError
     else bind_result (pref_field Rest abi) (\<lambda>pref. setAlignment t abi pref Size DL))))"

definition parse_mangling :: "string \<Rightarrow> string \<Rightarrow> data_layout \<Rightarrow> data_layout result" where
  "parse_mangling Tok Rest DL =
     (if Tok \<noteq> [] then Inl FatalError
      else if Rest = [] then Inl FatalError
      else if length Rest > 1 then Inl FatalError
      else case map_of [(CHR ''e'', MM_ELF), (CHR ''o'', MM_MachO), (CHR ''m'', MM_Mips), (CHR ''w'', MM_WinCOFF), (CHR ''x'', MM_WinCOFFX86)] (hd Rest) of
          None \<Rightarrow> Inl FatalError
        | Some m \<Rightarrow> Inr (DL\<lparr>Mangling := m\<rparr>))"

text \<open>One iteration of the loop over the specifiers, from the text between two dashes.\<close>

definition parse_one :: "string \<Rightarrow> data_layout \<Rightarrow> data_layout result" where
  "parse_one Spec DL =
     bind_result (split_token Spec CHR '':'') (\<lambda>(Tok, Rest).
     if Tok = ''ni'' then ni_loop Rest DL
     else if Tok = [] then Inl AssertFailed
     else
       let Specifier = hd Tok; Tok = drop 1 Tok in
       if Specifier = CHR ''s'' then Inr DL
       else if Specifier = CHR ''E'' then Inr (DL\<lparr>BigEndian := True\<rparr>)
       else if Specifier = CHR ''e'' then Inr (DL\<lparr>BigEndian := False\<rparr>)
       else if Specifier = CHR ''p'' then parse_pointer Tok Rest DL
       else if Specifier = CHR ''i'' then parse_alignment INTEGER_ALIGN Tok Rest DL
       else if Specifier = CHR ''v'' then parse_alignment VECTOR_ALIGN Tok Rest DL
       else if Specifier = CHR ''f'' then parse_alignment FLOAT_ALIGN Tok Rest DL
       else if Specifier = CHR ''a'' then parse_alignment AGGREGATE_ALIGN Tok Rest DL
       else if Specifier = CHR ''n'' then n_loop Tok Rest DL
       else if Specifier = CHR ''S'' then bind_result (byte_field Tok) (\<lambda>S. Inr (DL\<lparr>StackNaturalAlign := S\<rparr>))
       else if Specifier = CHR ''A'' then
         bind_result (getInt Tok) (\<lambda>AS. if \<not> AS < 2 ^ 24 then Inl FatalError else Inr (DL\<lparr>AllocaAddrSpace := AS\<rparr>))
       else if Specifier = CHR ''m'' then parse_mangling Tok Rest DL
       else Inl FatalError)"

function parse_specifiers :: "string \<Rightarrow> data_layout \<Rightarrow> data_layout result" where
  "parse_specifiers Desc DL =
     (if Desc = [] then Inr DL
      else case split_token Desc CHR ''-'' of
          Inl e \<Rightarrow> Inl e
        | Inr (Spec, Desc') \<Rightarrow> bind_result (parse_one Spec DL) (parse_specifiers Desc'))"
  by pat_completeness auto
termination by (relation "measure (\<lambda>(Desc, _). length Desc)") auto

declare parse_specifiers.simps [simp del]

definition parseSpecifier :: "string \<Rightarrow> data_layout \<Rightarrow> data_layout result" where
  "parseSpecifier Desc DL = parse_specifiers Desc (DL\<lparr>StringRepresentation := Desc\<rparr>)"

definition DefaultAlignments :: "align_elem list" where
  "DefaultAlignments = map (\<lambda>(t, w, abi, pref). \<lparr>AlignType = t, TypeBitWidth = w, ABIAlign = abi, PrefAlign = pref\<rparr>)
     [(INTEGER_ALIGN, 1, 1, 1), (INTEGER_ALIGN, 8, 1, 1), (INTEGER_ALIGN, 16, 2, 2), (INTEGER_ALIGN, 32, 4, 4), (INTEGER_ALIGN, 64, 4, 8),
      (FLOAT_ALIGN, 16, 2, 2), (FLOAT_ALIGN, 32, 4, 4), (FLOAT_ALIGN, 64, 8, 8), (FLOAT_ALIGN, 128, 16, 16),
      (VECTOR_ALIGN, 64, 8, 8), (VECTOR_ALIGN, 128, 16, 16), (AGGREGATE_ALIGN, 0, 0, 8)]"

definition cleared :: "string \<Rightarrow> data_layout" where
  "cleared Str = \<lparr>StringRepresentation = Str, BigEndian = False, AllocaAddrSpace = 0, StackNaturalAlign = 0, Mangling = MM_None,
     LegalIntWidths = [], Alignments = [], Pointers = [], NonIntegralAddressSpaces = []\<rparr>"

text \<open>The string of a layout before \<open>reset\<close> has no influence on it: \<open>parseSpecifier\<close> replaces it.\<close>

definition reset_layout :: "string \<Rightarrow> data_layout result" where
  "reset_layout Desc =
     bind_result (fold_result (\<lambda>E. setAlignment (AlignType E) (ABIAlign E) (PrefAlign E) (TypeBitWidth E)) DefaultAlignments (cleared [])) (\<lambda>DL.
     bind_result (setPointerAlignment 0 8 8 8 DL) (parseSpecifier Desc))"

text \<open>\<open>computeDataLayout\<close> of the 2003f, \<open>lib/Target/F2003f/F2003fTargetMachine.cpp\<close>.\<close>

definition computeDataLayout :: string where
  "computeDataLayout = ''E-p:32:32-i32:32-i16:16-i8:8-n32''"

section \<open>Accepted strings give well-formed layouts\<close>

lemma getInt_bounds:
  assumes "getInt R = Inr v"
  shows "0 \<le> v" "v < 2 ^ 32"
proof -
  have v: "getAsUnsignedInteger R 10 = Some v" "u32 v = v"
    using assms by (auto simp: getInt_def getAsInteger_unsigned_def split: option.splits if_splits)
  then show "0 \<le> v" using numeral_value_ge [of 10 0 R v] by (simp add: getAsUnsignedInteger_exact)
  have "v mod 2 ^ 32 < 2 ^ 32" by simp
  then show "v < 2 ^ 32" using v(2) by (simp add: u32_mod)
qed

lemma byte_field_bounds:
  assumes "byte_field R = Inr v"
  shows "0 \<le> v" "v < 2 ^ 29"
proof -
  obtain b where "getInt R = Inr b" "v = b div 8" using assms by (auto simp: byte_field_def bind_result_Inr_iff inBytes_def split: if_splits)
  then show "0 \<le> v" "v < 2 ^ 29" using getInt_bounds [of R b] by simp_all
qed

lemma byte_field_pow2:
  assumes "byte_field R = Inr v" "isPowerOf2_64 v"
  shows "pow2_upto 31 v"
proof -
  have "v < 2 ^ Suc 31" using byte_field_bounds(2) [OF assms(1)] by simp
  then show ?thesis using pow2_upto_test [OF assms(2) byte_field_bounds(1) [OF assms(1)]] by simp
qed

lemma layout_ok_tables: "Alignments DL' = Alignments DL \<Longrightarrow> Pointers DL' = Pointers DL \<Longrightarrow> layout_ok DL' \<longleftrightarrow> layout_ok DL"
  by (simp add: layout_ok_def)

lemma ni_loop_tables: "ni_loop Rest DL = Inr DL' \<Longrightarrow> Alignments DL' = Alignments DL \<and> Pointers DL' = Pointers DL"
proof (induction Rest DL rule: ni_loop.induct)
  case (1 Rest DL)
  note prem = "1.prems" [unfolded ni_loop.simps [of Rest DL]]
  then obtain Tok Rest' AS where st: "split_token Rest CHR '':'' = Inr (Tok, Rest')" "getInt Tok = Inr AS" "AS \<noteq> 0"
    by (auto elim!: bind_resultE guard_InrE split: sum.splits)
  show ?case
  proof (cases "Rest' = []")
    case True
    then show ?thesis using prem st by auto
  next
    case False
    then show ?thesis using prem st "1.IH" [OF st(1) refl st(2,3) refl] by simp
  qed
qed

lemma n_loop_tables: "n_loop Tok Rest DL = Inr DL' \<Longrightarrow> Alignments DL' = Alignments DL \<and> Pointers DL' = Pointers DL"
proof (induction Tok Rest DL rule: n_loop.induct)
  case (1 Tok Rest DL)
  note prem = "1.prems" [unfolded n_loop.simps [of Tok Rest DL]]
  then obtain w where w: "getInt Tok = Inr w" "w \<noteq> 0" by (auto elim!: bind_resultE guard_InrE)
  show ?case
  proof (cases "Rest = []")
    case True
    then show ?thesis using prem w by auto
  next
    case False
    then obtain Tok' Rest' where s: "split_token Rest CHR '':'' = Inr (Tok', Rest')" using prem w by (auto split: sum.splits)
    show ?thesis using prem w False s "1.IH" [OF w refl False s refl] by simp
  qed
qed

lemmas parse_elims = bind_resultE guard_InrE case_prod_InrE

lemma pointer_pref_field_pow2: "pointer_pref_field Rest abi = Inr pref \<Longrightarrow> pow2_upto 31 abi \<Longrightarrow> pow2_upto 31 pref"
  using byte_field_pow2 by (auto simp: pointer_pref_field_def elim!: parse_elims split: if_splits)

lemma pref_field_nonneg: "pref_field Rest abi = Inr pref \<Longrightarrow> 0 \<le> abi \<Longrightarrow> 0 \<le> pref"
  using byte_field_bounds(1) by (auto simp: pref_field_def elim!: parse_elims split: if_splits)

lemma number_or_0: "(if Tok = [] then Inr 0 else getInt Tok) = Inr v \<Longrightarrow> 0 \<le> v"
  using getInt_bounds(1) by (auto split: if_splits)

lemma parse_pointer_ok:
  assumes "parse_pointer Tok Rest DL = Inr DL'" "layout_ok DL"
  shows "layout_ok DL'"
proof -
  obtain AS T1 bytes T2 R2 abi pref where
    as: "(if Tok = [] then Inr 0 else getInt Tok) = Inr AS"
    and b: "byte_field T1 = Inr bytes" "\<not> bytes = 0"
    and a: "byte_field T2 = Inr abi" "\<not> \<not> isPowerOf2_64 abi"
    and p: "pointer_pref_field R2 abi = Inr pref" and set: "setPointerAlignment AS abi pref bytes DL = Inr DL'"
    using assms(1) unfolding parse_pointer_def by (elim parse_elims) (rule that)
  have abi: "pow2_upto 31 abi" using byte_field_pow2 [OF a(1)] a(2) by simp
  have "abi \<le> pref" using set by (simp add: setPointerAlignment_def split: if_splits)
  then have "pointer_ok (new_pointer AS abi pref bytes)"
    using number_or_0 [OF as] pointer_pref_field_pow2 [OF p abi] abi byte_field_bounds [OF b(1)] b(2) by (simp add: pointer_ok_def new_pointer_def)
  then show ?thesis using setPointerAlignment_ok [OF set assms(2)] by blast
qed

lemma parse_alignment_ok:
  assumes "parse_alignment t Tok Rest DL = Inr DL'" "layout_ok DL"
  shows "layout_ok DL'"
proof -
  obtain w T1 R1 abi pref where
    w: "(if Tok = [] then Inr 0 else getInt Tok) = Inr w" and a: "byte_field T1 = Inr abi" "\<not> (t \<noteq> AGGREGATE_ALIGN \<and> abi = 0)"
    and p: "pref_field R1 abi = Inr pref" and set: "setAlignment t abi pref w DL = Inr DL'"
    using assms(1) unfolding parse_alignment_def by (elim parse_elims) (rule that)
  have "0 \<le> abi" by (rule byte_field_bounds(1) [OF a(1)])
  then show ?thesis using setAlignment_ok [OF set assms(2) number_or_0 [OF w]] pref_field_nonneg [OF p] a(2) by blast
qed

lemma parse_one_ok:
  assumes "parse_one Spec DL = Inr DL'" "layout_ok DL"
  shows "layout_ok DL'"
proof -
  obtain Tok Rest where st: "split_token Spec CHR '':'' = Inr (Tok, Rest)" using assms(1) by (auto simp: parse_one_def bind_result_Inr_iff)
  then have "(\<exists>t T. parse_alignment t T Rest DL = Inr DL') \<or> (\<exists>T. parse_pointer T Rest DL = Inr DL') \<or>
      (Alignments DL' = Alignments DL \<and> Pointers DL' = Pointers DL)"
    using assms(1) ni_loop_tables n_loop_tables
    by (auto simp: parse_one_def Let_def parse_mangling_def elim!: bind_resultE split: if_splits option.splits)
  then show ?thesis using parse_alignment_ok parse_pointer_ok layout_ok_tables assms(2) by blast
qed

lemma parse_specifiers_ok: "parse_specifiers Desc DL = Inr DL' \<Longrightarrow> layout_ok DL \<Longrightarrow> layout_ok DL'"
proof (induction Desc DL rule: parse_specifiers.induct)
  case (1 Desc DL)
  show ?case
  proof (cases "Desc = []")
    case True
    then show ?thesis using "1.prems" by (simp add: parse_specifiers.simps)
  next
    case False
    then obtain Spec Desc' DL1 where s: "split_token Desc CHR ''-'' = Inr (Spec, Desc')" "parse_one Spec DL = Inr DL1"
        "parse_specifiers Desc' DL1 = Inr DL'"
      using "1.prems"(1) [unfolded parse_specifiers.simps [of Desc DL]] by (auto simp: bind_result_Inr_iff split: sum.splits)
    show ?thesis by (rule "1.IH" [OF False s(1) refl s(2,3) parse_one_ok [OF s(2) "1.prems"(2)]])
  qed
qed

definition default_layout :: data_layout where
  "default_layout = (cleared [])\<lparr>Alignments := map (\<lambda>(t, w, abi, pref). \<lparr>AlignType = t, TypeBitWidth = w, ABIAlign = abi, PrefAlign = pref\<rparr>)
     [(AGGREGATE_ALIGN, 0, 0, 8), (FLOAT_ALIGN, 16, 2, 2), (FLOAT_ALIGN, 32, 4, 4), (FLOAT_ALIGN, 64, 8, 8), (FLOAT_ALIGN, 128, 16, 16),
      (INTEGER_ALIGN, 1, 1, 1), (INTEGER_ALIGN, 8, 1, 1), (INTEGER_ALIGN, 16, 2, 2), (INTEGER_ALIGN, 32, 4, 4), (INTEGER_ALIGN, 64, 4, 8),
      (VECTOR_ALIGN, 64, 8, 8), (VECTOR_ALIGN, 128, 16, 16)],
     Pointers := [\<lparr>AddressSpace = 0, PtrABIAlign = 8, PtrPrefAlign = 8, TypeByteWidth = 8\<rparr>]\<rparr>"

lemma reset_layout_eq: "reset_layout Desc = parseSpecifier Desc default_layout"
proof -
  have "bind_result (fold_result (\<lambda>E. setAlignment (AlignType E) (ABIAlign E) (PrefAlign E) (TypeBitWidth E)) DefaultAlignments (cleared []))
      (setPointerAlignment 0 8 8 8) = Inr default_layout"
    by code_simp
  then show ?thesis unfolding reset_layout_def by (auto elim!: bind_resultE)
qed

lemma pow2_upto_numeral: "pow2_upto 15 1" "pow2_upto 15 2" "pow2_upto 15 4" "pow2_upto 15 8" "pow2_upto 15 16" "pow2_upto 31 8" "pow2_upto 31 4"
  unfolding pow2_upto_def
  by (rule exI [of _ 0], simp, rule exI [of _ 1], simp, rule exI [of _ 2], simp, rule exI [of _ 3], simp, rule exI [of _ 4], simp,
      rule exI [of _ 3], simp, rule exI [of _ 2], simp)

lemma default_layout_ok: "layout_ok default_layout"
  by (simp add: layout_ok_def default_layout_def cleared_def table_sorted_def elem_less_def align_code_def elem_ok_def pointer_ok_def pow2_upto_numeral)

theorem reset_layout_ok:
  assumes "reset_layout Desc = Inr DL"
  shows "layout_ok DL"
proof -
  have "layout_ok (default_layout\<lparr>StringRepresentation := Desc\<rparr>)" using default_layout_ok by (simp add: layout_ok_def)
  moreover have "parse_specifiers Desc (default_layout\<lparr>StringRepresentation := Desc\<rparr>) = Inr DL"
    using assms by (simp only: reset_layout_eq parseSpecifier_def)
  ultimately show ?thesis by (rule parse_specifiers_ok [rotated])
qed

section \<open>Where parsing stops\<close>

text \<open>
  Parsing ends in an error of the string, except that a specifier of non-integral address spaces without any reaches
  the assertion of \<open>split\<close>.
\<close>

lemma split_token_cases:
  assumes "Str \<noteq> []"
  shows "split_token Str c = Inl FatalError \<or>
    (\<exists>Tok Rest. split_token Str c = Inr (Tok, Rest) \<and> Tok \<noteq> [] \<and> (Rest = [] \<and> Str = Tok \<or> Rest \<noteq> [] \<and> Str = Tok @ c # Rest))"
proof -
  let ?T = "takeWhile (\<lambda>x. x \<noteq> c) Str" and ?D = "dropWhile (\<lambda>x. x \<noteq> c) Str"
  have split: "Str = ?T @ ?D" by simp
  show ?thesis
  proof (cases ?D)
    case Nil
    then have T: "?T = Str" using split by (metis append_Nil2)
    have "split_at Str c = (Str, [])" unfolding split_at_def Nil T by simp
    then show ?thesis using assms by (simp add: split_token_def)
  next
    case (Cons x rest)
    then have "x = c" using hd_dropWhile [of "\<lambda>x. x \<noteq> c" Str] by simp
    define T where "T = ?T"
    have Str: "Str = T @ c # rest" using split Cons \<open>x = c\<close> unfolding T_def by metis
    have eq: "split_at Str c = (T, rest)" unfolding split_at_def Cons T_def by simp
    show ?thesis unfolding split_token_def Let_def eq using Str by (cases "rest = []"; cases "T = []") simp_all
  qed
qed

lemma split_token_no_assert: "Str \<noteq> [] \<Longrightarrow> split_token Str c = Inl e \<Longrightarrow> e = FatalError"
  using split_token_cases [of Str c] by auto

lemma getInt_errors: "getInt R = Inl e \<Longrightarrow> e = FatalError"
  by (simp add: getInt_def split: option.splits if_splits)

lemma byte_field_errors: "byte_field R = Inl e \<Longrightarrow> e = FatalError"
  using getInt_errors by (cases "getInt R") (auto simp: byte_field_def inBytes_def split: if_splits)

lemma bind_result_InlE: "bind_result r f = Inl e \<Longrightarrow> (r = Inl e \<Longrightarrow> P) \<Longrightarrow> (\<And>a. r = Inr a \<Longrightarrow> f a = Inl e \<Longrightarrow> P) \<Longrightarrow> P"
  by (cases r) auto

lemma guard_InlE: "(if c then Inl e' else r) = Inl e \<Longrightarrow> (c \<Longrightarrow> e' = e \<Longrightarrow> P) \<Longrightarrow> (\<not> c \<Longrightarrow> r = Inl e \<Longrightarrow> P) \<Longrightarrow> P"
  by (simp split: if_splits)

lemma case_prod_InlE: "(case p of (x, y) \<Rightarrow> f x y) = Inl e \<Longrightarrow> (\<And>x y. p = (x, y) \<Longrightarrow> f x y = Inl e \<Longrightarrow> P) \<Longrightarrow> P"
  by (cases p) simp

lemmas error_elims = bind_result_InlE guard_InlE case_prod_InlE

lemmas field_errors = split_token_no_assert getInt_errors byte_field_errors

lemma pointer_pref_field_errors: "pointer_pref_field Rest abi = Inl e \<Longrightarrow> e = FatalError"
  by (auto simp: pointer_pref_field_def dest: field_errors elim!: error_elims split: if_splits)

lemma pref_field_errors: "pref_field Rest abi = Inl e \<Longrightarrow> e = FatalError"
  by (auto simp: pref_field_def dest: field_errors elim!: error_elims split: if_splits)

lemma setAlignment_errors: "setAlignment t abi pref w DL = Inl e \<Longrightarrow> e = FatalError"
  by (auto simp: setAlignment_def LayoutAlignElem_get_def Let_def split: if_splits)

lemma setPointerAlignment_errors: "setPointerAlignment AS abi pref bytes DL = Inl e \<Longrightarrow> e = FatalError"
  by (auto simp: setPointerAlignment_def PointerAlignElem_get_def Let_def split: if_splits)

lemma number_or_0_errors: "(if Tok = [] then Inr 0 else getInt Tok) = Inl e \<Longrightarrow> e = FatalError"
  using getInt_errors by (auto split: if_splits)

lemma parse_pointer_errors: "parse_pointer Tok Rest DL = Inl e \<Longrightarrow> e = FatalError"
  unfolding parse_pointer_def
  by (elim error_elims)
    (blast dest: number_or_0_errors field_errors pointer_pref_field_errors setPointerAlignment_errors)+

lemma parse_alignment_errors: "parse_alignment t Tok Rest DL = Inl e \<Longrightarrow> e = FatalError"
  unfolding parse_alignment_def
  by (elim error_elims)
    (blast dest: number_or_0_errors field_errors pref_field_errors setAlignment_errors)+

lemma n_loop_errors: "n_loop Tok Rest DL = Inl e \<Longrightarrow> e = FatalError"
proof (induction Tok Rest DL rule: n_loop.induct)
  case (1 Tok Rest DL)
  note prem = "1.prems" [unfolded n_loop.simps [of Tok Rest DL]]
  show ?case
  proof (cases "\<exists>w Tok' Rest'. getInt Tok = Inr w \<and> w \<noteq> 0 \<and> Rest \<noteq> [] \<and> split_token Rest CHR '':'' = Inr (Tok', Rest')")
    case True
    then obtain w Tok' Rest' where s: "getInt Tok = Inr w" "w \<noteq> 0" "Rest \<noteq> []" "split_token Rest CHR '':'' = Inr (Tok', Rest')" by blast
    show ?thesis by (rule "1.IH" [OF s(1,2) refl s(3,4) refl]) (use prem s in simp)
  next
    case False
    then show ?thesis using prem getInt_errors [of Tok] split_token_no_assert [of Rest]
      by (cases "getInt Tok"; cases "Rest = []"; cases "split_token Rest CHR '':''") (auto split: if_splits)
  qed
qed

lemma ni_loop_errors: "ni_loop Rest DL = Inl e \<Longrightarrow> e = FatalError \<or> Rest = []"
proof (induction Rest DL rule: ni_loop.induct)
  case (1 Rest DL)
  note prem = "1.prems" [unfolded ni_loop.simps [of Rest DL]]
  show ?case
  proof (cases "\<exists>Tok Rest' AS. split_token Rest CHR '':'' = Inr (Tok, Rest') \<and> getInt Tok = Inr AS \<and> AS \<noteq> 0 \<and> Rest' \<noteq> []")
    case True
    then obtain Tok Rest' AS where s: "split_token Rest CHR '':'' = Inr (Tok, Rest')" "getInt Tok = Inr AS" "AS \<noteq> 0" "Rest' \<noteq> []" by blast
    have "e = FatalError \<or> Rest' = []" by (rule "1.IH" [OF s(1) refl s(2,3) refl s(4)]) (use prem s in simp)
    then show ?thesis using s(4) by simp
  next
    case False
    then show ?thesis using prem getInt_errors split_token_no_assert [of Rest]
      by (cases "split_token Rest CHR '':''") (auto elim!: error_elims split: if_splits)
  qed
qed

lemma parse_one_errors:
  assumes "parse_one Spec DL = Inl e" "Spec \<noteq> []"
  shows "e = FatalError \<or> e = AssertFailed \<and> Spec = ''ni''"
proof -
  consider "split_token Spec CHR '':'' = Inl FatalError"
    | Tok Rest where "split_token Spec CHR '':'' = Inr (Tok, Rest)" "Tok \<noteq> []" "Rest = [] \<and> Spec = Tok \<or> Rest \<noteq> []"
    using split_token_cases [OF assms(2), of "CHR '':''"] by blast
  then show ?thesis
  proof cases
    case 1
    then show ?thesis using assms(1) by (simp add: parse_one_def)
  next
    case (2 Tok Rest)
    show ?thesis
    proof (cases "Tok = ''ni''")
      case True
      then have "ni_loop Rest DL = Inl e" using assms(1) 2(1) by (simp add: parse_one_def)
      then have "e = FatalError \<or> Rest = []" by (rule ni_loop_errors)
      moreover have "e = AssertFailed" if "Rest = []"
        using \<open>ni_loop Rest DL = Inl e\<close> that by (simp add: ni_loop.simps split_token_def)
      ultimately show ?thesis using 2(3) True by auto
    next
      case False
      then show ?thesis using assms(1) 2(1,2) parse_pointer_errors parse_alignment_errors n_loop_errors getInt_errors byte_field_errors
        by (auto simp: parse_one_def Let_def parse_mangling_def elim!: bind_result_InlE split: if_splits option.splits)
    qed
  qed
qed

lemma parse_specifiers_errors:
  "parse_specifiers Desc DL = Inl e \<Longrightarrow> e = FatalError \<or>
     e = AssertFailed \<and> (\<exists>pre post. Desc = pre @ ''ni'' @ post \<and> (pre = [] \<or> last pre = CHR ''-'') \<and> (post = [] \<or> hd post = CHR ''-''))"
proof (induction Desc DL rule: parse_specifiers.induct)
  case (1 Desc DL)
  note prem = "1.prems" [unfolded parse_specifiers.simps [of Desc DL]]
  then have ne: "Desc \<noteq> []" by auto
  consider "split_token Desc CHR ''-'' = Inl FatalError"
    | Spec Desc' where "split_token Desc CHR ''-'' = Inr (Spec, Desc')" "Spec \<noteq> []"
        "Desc' = [] \<and> Desc = Spec \<or> Desc' \<noteq> [] \<and> Desc = Spec @ CHR ''-'' # Desc'"
    using split_token_cases [OF ne, of "CHR ''-''"] by blast
  then show ?case
  proof cases
    case 1
    then show ?thesis using prem ne by simp
  next
    case (2 Spec Desc')
    note parts = 2
    show ?thesis
    proof (cases "parse_one Spec DL")
      case (Inl e')
      then have "e' = e" using prem 2(1) ne by simp
      then consider "e = FatalError" | "e = AssertFailed" "Spec = ''ni''" using parse_one_errors [OF Inl 2(2)] by blast
      then show ?thesis
      proof cases
        case 2
        have "\<exists>post. Desc = [] @ ''ni'' @ post \<and> (post = [] \<or> hd post = CHR ''-'')" using parts(3) 2(2) by auto
        then show ?thesis using 2(1) by blast
      qed simp
    next
      case (Inr DL1)
      then have rest: "parse_specifiers Desc' DL1 = Inl e" using prem 2(1) ne by simp
      then have "Desc' \<noteq> []" by (auto simp: parse_specifiers.simps)
      then have D: "Desc = (Spec @ ''-'') @ Desc'" using 2(3) by simp
      consider "e = FatalError" | pre post where "e = AssertFailed" "Desc' = pre @ ''ni'' @ post" "pre = [] \<or> last pre = CHR ''-''" "post = [] \<or> hd post = CHR ''-''"
        using "1.IH" [OF ne 2(1) refl Inr rest] by blast
      then show ?thesis
      proof cases
        case (2 pre post)
        have "Desc = (Spec @ ''-'' @ pre) @ ''ni'' @ post" using D 2(2) by simp
        moreover have "last (Spec @ ''-'' @ pre) = CHR ''-''" using 2(3) by (cases "pre = []") simp_all
        ultimately show ?thesis using 2(1,4) by blast
      qed simp
    qed
  qed
qed

text \<open>C39. The only errors of the data layout string are the diagnosed ones, except that a specifier \<open>ni\<close> without address spaces reaches an assertion.\<close>

theorem reset_layout_errors:
  assumes "reset_layout Desc = Inl e"
  shows "e = FatalError \<or>
    e = AssertFailed \<and> (\<exists>pre post. Desc = pre @ ''ni'' @ post \<and> (pre = [] \<or> last pre = CHR ''-'') \<and> (post = [] \<or> hd post = CHR ''-''))"
  using assms unfolding reset_layout_eq parseSpecifier_def by (rule parse_specifiers_errors)

theorem reset_layout_errors_witness:
  "reset_layout ''e-ni'' = Inl AssertFailed \<and> (\<exists>pre post. ''e-ni'' = pre @ ''ni'' @ post \<and> (pre = [] \<or> last pre = CHR ''-'') \<and> (post = [] \<or> hd post = CHR ''-''))"
proof -
  have "reset_layout ''e-ni'' = Inl AssertFailed" by code_simp
  then show ?thesis using reset_layout_errors [of "''e-ni''" AssertFailed] by simp
qed

end
