(* ===== verification/LayoutSound.thy ===== *)
theory LayoutSound
  imports LayoutPaths LayoutParser
begin

text \<open>
  What a data layout string guarantees: sizes, alignments and offsets are defined for every type that fits in memory,
  and consistent with each other.
\<close>

lemma i64_of_u64: "i64 (u64 n) = i64 n"
  by (rule bit_eqI) (auto simp: i64_def u64_def bit_simps)

lemma i64_0_u64: "- (2 ^ 63) \<le> n \<Longrightarrow> n < 2 ^ 63 \<Longrightarrow> i64 (0 + u64 n) = n"
  by (simp add: i64_of_u64 i64_id)

lemma fits_sizes:
  assumes "layout_ok DL" "fits DL Ty"
  obtains b a s where "getTypeSizeInBits DL Ty = Inr b" "getAlignment DL Ty True = Inr a" "getTypeAllocSize DL Ty = Inr s"
    and "measure_of DL Ty = (a, s)" "0 \<le> b" "0 \<le> s" "pow2_upto 31 a" "s mod a = 0" "(b + 7) div 8 \<le> s" "s < (b + 7) div 8 + a" "s < 2 ^ 61"
proof -
  obtain b a s where m: "measured DL Ty b a s" using fits_measured [OF assms] by blast
  then have a: "pow2_upto 31 a" "s = ceil_to a 0 ((b + 7) div 8)" "1 \<le> a" using pow2_uptoD by (auto simp: measured_def)
  show thesis
    by (rule that [of b a s])
      (use m a measured_measure_of [OF m] measured_nonneg [OF m] ceil_to_mod [of a 0] ceil_to_bounds(2) [of a, where s = 0] in \<open>simp_all add: measured_def\<close>)
qed

lemma gep_offset_eq:
  assumes "layout_ok DL" "fits DL Ty" "path_type Ty p = Some T" "getTypeAllocSize DL Ty = Inr s"
    and "- (2 ^ 62) \<le> k * s" "k * s + s < 2 ^ 63"
  shows "getIndexedOffsetInType DL Ty ((w, k) # p) = Inr (k * s + path_offset DL Ty p)"
proof -
  have s: "0 \<le> s" "snd (measure_of DL Ty) = s" using fits_sizes [OF assms(1,2)] assms(4) by fastforce+
  have "i64 (0 + u64 (k * s)) = k * s" using assms(5,6) s by (intro i64_0_u64) simp_all
  moreover have "gep_offset DL (next_gep_type Ty) p (k * s) = Inr (k * s + path_offset DL Ty p)"
    using gep_path [OF assms(1-3) assms(5)] assms(6) s by simp
  ultimately show ?thesis using assms(4) by (cases "k = 0") (simp_all add: getIndexedOffsetInType_def)
qed

section \<open>Sizes and alignments\<close>

text \<open>
  C18. Under every layout that \<open>reset\<close> accepts, each type that fits has a size, an alignment that is a power of two,
  and an allocation size: the first multiple of the alignment that holds the store size.
\<close>

theorem type_sizes_consistent:
  assumes "reset_layout Desc = Inr DL" "fits DL Ty"
  shows "\<exists>b k s. getTypeSizeInBits DL Ty = Inr b \<and> getABITypeAlignment DL Ty = Inr (2 ^ k) \<and> k \<le> 31 \<and>
    getTypeStoreSize DL Ty = Inr ((b + 7) div 8) \<and> getTypeAllocSize DL Ty = Inr s \<and>
    s mod 2 ^ k = 0 \<and> (b + 7) div 8 \<le> s \<and> s < (b + 7) div 8 + 2 ^ k"
proof -
  obtain b a s where m: "getTypeSizeInBits DL Ty = Inr b" "getAlignment DL Ty True = Inr a" "getTypeAllocSize DL Ty = Inr s"
    and r: "0 \<le> b" "pow2_upto 31 a" "s mod a = 0" "(b + 7) div 8 \<le> s" "s < (b + 7) div 8 + a" "s < 2 ^ 61"
    by (rule fits_sizes [OF reset_layout_ok [OF assms(1)] assms(2)])
  obtain k where k: "k \<le> 31" "a = 2 ^ k" using r(2) by (auto simp: pow2_upto_def)
  have "u64 (b + 7) = b + 7" using r(1,4,6) by (intro u64_id) simp_all
  then show ?thesis using m r k by (auto simp: getABITypeAlignment_def getTypeStoreSize_def)
qed

text \<open>The types of an example: a byte, three words and a double.\<close>

definition example_struct :: ir_type where
  "example_struct = StructTy False [IntegerTy 8, ArrayTy 3 (IntegerTy 32), DoubleTy]"

definition layout_2003f :: data_layout where
  "layout_2003f = projr (reset_layout computeDataLayout)"

lemma layout_2003f: "reset_layout computeDataLayout = Inr layout_2003f"
proof -
  have "\<not> isl (reset_layout computeDataLayout)" by code_simp
  then show ?thesis by (simp add: layout_2003f_def)
qed

lemma example_fits: "fits layout_2003f example_struct" "fits layout_2003f (StructTy False [IntegerTy 8, ArrayTy 3 (IntegerTy 32), DoubleTy])"
proof -
  show "fits layout_2003f example_struct" by code_simp
  then show "fits layout_2003f (StructTy False [IntegerTy 8, ArrayTy 3 (IntegerTy 32), DoubleTy])" by (simp add: example_struct_def)
qed

lemma example_layout:
  "getStructLayout layout_2003f False [IntegerTy 8, ArrayTy 3 (IntegerTy 32), DoubleTy] =
     Inr \<lparr>StructSize = 24, StructAlignment = 8, IsPadded = True, MemberOffsets = [0, 4, 16]\<rparr>"
  by code_simp

theorem type_sizes_consistent_witness:
  "\<exists>b k s. getTypeSizeInBits layout_2003f example_struct = Inr b \<and> getABITypeAlignment layout_2003f example_struct = Inr (2 ^ k) \<and> k \<le> 31 \<and>
    getTypeStoreSize layout_2003f example_struct = Inr ((b + 7) div 8) \<and> getTypeAllocSize layout_2003f example_struct = Inr s \<and>
    s mod 2 ^ k = 0 \<and> (b + 7) div 8 \<le> s \<and> s < (b + 7) div 8 + 2 ^ k"
  by (rule type_sizes_consistent [OF layout_2003f example_fits(1)])

section \<open>Structs\<close>

text \<open>
  C16. The layout of a struct: every element at a multiple of its alignment (in a packed struct at any byte), directly
  after the one before except for less space than its alignment; the size a multiple of the alignment of the struct,
  with less space at the end than that; and the struct is marked as padded exactly when it is larger than its elements.
\<close>

theorem struct_layout_consistent:
  assumes "reset_layout Desc = Inr DL" "fits DL (StructTy Packed Tys)"
  shows "\<exists>SL als ss. getStructLayout DL Packed Tys = Inr SL \<and> length (MemberOffsets SL) = length Tys \<and>
    length als = length Tys \<and> length ss = length Tys \<and>
    (\<forall>i < length Tys. element_measure DL Packed (Tys ! i) (als ! i) (ss ! i) \<and>
      MemberOffsets SL ! i mod als ! i = 0 \<and> als ! i dvd StructAlignment SL \<and>
      (let before = (if i = 0 then 0 else MemberOffsets SL ! (i - 1) + ss ! (i - 1)) in
       before \<le> MemberOffsets SL ! i \<and> MemberOffsets SL ! i < before + als ! i)) \<and>
    (let last = (if Tys = [] then 0 else MemberOffsets SL ! (length Tys - 1) + ss ! (length Tys - 1)) in
     last \<le> StructSize SL \<and> StructSize SL < last + StructAlignment SL) \<and>
    StructSize SL mod StructAlignment SL = 0 \<and> (IsPadded SL \<longleftrightarrow> StructSize SL \<noteq> sum_list ss)"
  by (rule struct_layout_sound [OF reset_layout_ok [OF assms(1)] assms(2)])

theorem struct_layout_consistent_witness:
  "\<exists>als ss. element_measure layout_2003f False (ArrayTy 3 (IntegerTy 32)) als ss \<and> 4 mod als = 0 \<and> als dvd 8"
proof -
  obtain als ss :: "int list" where
    "\<forall>i < length [IntegerTy 8, ArrayTy 3 (IntegerTy 32), DoubleTy].
       element_measure layout_2003f False ([IntegerTy 8, ArrayTy 3 (IntegerTy 32), DoubleTy] ! i) (als ! i) (ss ! i) \<and>
       [0, 4, 16] ! i mod als ! i = 0 \<and> als ! i dvd 8"
    using struct_layout_consistent [OF layout_2003f example_fits(2)] unfolding example_layout by auto
  then have "element_measure layout_2003f False (ArrayTy 3 (IntegerTy 32)) (als ! 1) (ss ! 1) \<and> 4 mod als ! 1 = 0 \<and> als ! 1 dvd 8"
    by (auto dest: spec [of _ 1])
  then show ?thesis by (intro exI)
qed

text \<open>
  C38. The element of a struct at an offset: the last one that starts at or before it. The assertions of
  \<open>getElementContainingOffset\<close> hold for every offset.
\<close>

theorem element_at_offset:
  assumes "reset_layout Desc = Inr DL" "fits DL (StructTy Packed Tys)" "Tys \<noteq> []" "getStructLayout DL Packed Tys = Inr SL" "0 \<le> Off"
  shows "\<exists>i < length Tys. getElementContainingOffset SL Off = Inr i \<and> MemberOffsets SL ! i \<le> Off \<and>
    list_all (\<lambda>x. Off < x) (drop (Suc i) (MemberOffsets SL))"
proof -
  obtain i where i: "i < length Tys" "getElementContainingOffset SL Off = Inr i" "MemberOffsets SL ! i \<le> Off"
    "\<forall>j. i < j \<and> j < length Tys \<longrightarrow> Off < MemberOffsets SL ! j"
    using element_containing_offset [OF reset_layout_ok [OF assms(1)] assms(2-5)] by blast
  have "length (MemberOffsets SL) = length Tys"
    using struct_layout_sound [OF reset_layout_ok [OF assms(1)] assms(2)] assms(4) by auto
  then have "list_all (\<lambda>x. Off < x) (drop (Suc i) (MemberOffsets SL))" using i(4) by (auto simp: list_all_length)
  then show ?thesis using i by blast
qed

theorem element_at_offset_witness:
  "\<exists>i < length [IntegerTy 8, ArrayTy 3 (IntegerTy 32), DoubleTy].
    getElementContainingOffset \<lparr>StructSize = 24, StructAlignment = 8, IsPadded = True, MemberOffsets = [0, 4, 16]\<rparr> 11 = Inr i \<and>
    MemberOffsets \<lparr>StructSize = 24, StructAlignment = 8, IsPadded = True, MemberOffsets = [0, 4, 16]\<rparr> ! i \<le> 11 \<and>
    list_all (\<lambda>x. 11 < x) (drop (Suc i) (MemberOffsets \<lparr>StructSize = 24, StructAlignment = 8, IsPadded = True, MemberOffsets = [0, 4, 16]\<rparr>))"
  by (rule element_at_offset [OF layout_2003f example_fits(2) _ example_layout]) simp_all

section \<open>Offsets of \<open>getelementptr\<close>\<close>

text \<open>
  C17. The offset of a path that starts at the \<open>k\<close>-th value of a type and goes through arrays and structs within
  range: what the path reaches lies within that value, and, when no packed struct is on the path, at a multiple of its
  alignment.
\<close>

theorem gep_within_bounds:
  assumes "reset_layout Desc = Inr DL" "fits DL Ty" "path_type Ty p = Some T" "getTypeAllocSize DL Ty = Inr s"
    and "- (2 ^ 62) \<le> k * s" "k * s + s < 2 ^ 63"
  shows "\<exists>off a t. getIndexedOffsetInType DL Ty ((w, k) # p) = Inr off \<and> getABITypeAlignment DL T = Inr a \<and> getTypeAllocSize DL T = Inr t \<and>
    k * s \<le> off \<and> off + t \<le> (k + 1) * s \<and> (unpacked Ty p \<longrightarrow> off mod a = 0)"
proof -
  note ok = reset_layout_ok [OF assms(1)]
  have fT: "fits DL T" by (rule fits_path [OF assms(2,3)])
  obtain a t where T: "getAlignment DL T True = Inr a" "getTypeAllocSize DL T = Inr t" "measure_of DL T = (a, t)"
    by (rule fits_sizes [OF ok fT])
  obtain a' s' where Ty: "getTypeAllocSize DL Ty = Inr s'" "measure_of DL Ty = (a', s')" "s' mod a' = 0"
    by (rule fits_sizes [OF ok assms(2)])
  have s: "s' = s" using Ty(1) assms(4) by simp
  note off = gep_offset_eq [OF ok assms(2-6), of w]
  have "0 \<le> path_offset DL Ty p" "path_offset DL Ty p + t \<le> s"
    using path_offset_bounds [OF ok assms(2,3)] T(3) Ty(2) s by simp_all
  moreover have "(k * s + path_offset DL Ty p) mod a = 0" if "unpacked Ty p"
  proof -
    have "a dvd a'" "a dvd path_offset DL Ty p" using path_offset_aligned [OF ok assms(2,3) that] T(3) Ty(2) by simp_all
    moreover have "a' dvd s" using Ty(3) s by (simp add: mod_eq_0_iff_dvd)
    ultimately have "a dvd k * s + path_offset DL Ty p" by (meson dvd_add dvd_mult dvd_trans)
    then show ?thesis by (simp add: mod_eq_0_iff_dvd)
  qed
  ultimately show ?thesis using off T(1,2) by (auto simp: getABITypeAlignment_def algebra_simps)
qed

lemma example_path: "path_type example_struct [(32, 1), (32, 2)] = Some (IntegerTy 32)" "getTypeAllocSize layout_2003f example_struct = Inr 24"
  by (simp add: example_struct_def, code_simp)

theorem gep_within_bounds_witness:
  "\<exists>off a t. getIndexedOffsetInType layout_2003f example_struct ((32, -3) # [(32, 1), (32, 2)]) = Inr off \<and>
    getABITypeAlignment layout_2003f (IntegerTy 32) = Inr a \<and> getTypeAllocSize layout_2003f (IntegerTy 32) = Inr t \<and>
    -3 * 24 \<le> off \<and> off + t \<le> (-3 + 1) * 24 \<and> (unpacked example_struct [(32, 1), (32, 2)] \<longrightarrow> off mod a = 0)"
  by (rule gep_within_bounds [OF layout_2003f example_fits(1) example_path]) simp_all

text \<open>C20. Paths that part ways reach disjoint bytes.\<close>

theorem gep_disjoint:
  assumes "reset_layout Desc = Inr DL" "fits DL Ty" "path_type Ty p = Some T" "path_type Ty q = Some U"
    and "\<not> prefix (map snd p) (map snd q)" "\<not> prefix (map snd q) (map snd p)"
    and "getIndexedOffsetInType DL Ty ((v, 0) # p) = Inr i" "getIndexedOffsetInType DL Ty ((w, 0) # q) = Inr j"
    and "getTypeAllocSize DL T = Inr t" "getTypeAllocSize DL U = Inr u"
  shows "i + t \<le> j \<or> j + u \<le> i"
proof -
  note ok = reset_layout_ok [OF assms(1)]
  obtain s where s: "getTypeAllocSize DL Ty = Inr s" "s < 2 ^ 61" by (rule fits_sizes [OF ok assms(2)])
  have b: "- (2 ^ 62) \<le> 0 * s" "0 * s + s < 2 ^ 63" using s(2) by simp_all
  have ij: "i = path_offset DL Ty p" "j = path_offset DL Ty q"
    using gep_offset_eq [OF ok assms(2,3) s(1) b, of v] gep_offset_eq [OF ok assms(2,4) s(1) b, of w] assms(7,8) by simp_all
  have "snd (measure_of DL T) = t" "snd (measure_of DL U) = u" using assms(9,10) by (simp_all add: measure_of_def)
  then show ?thesis using path_offset_disjoint [OF ok assms(2-6)] ij by simp
qed

theorem gep_disjoint_witness:
  "\<exists>i j t. getIndexedOffsetInType layout_2003f example_struct [(32, 0), (32, 1), (64, 0)] = Inr i \<and>
     getIndexedOffsetInType layout_2003f example_struct [(32, 0), (32, 1), (64, 2)] = Inr j \<and>
     getTypeAllocSize layout_2003f (IntegerTy 32) = Inr t \<and> (i + t \<le> j \<or> j + t \<le> i)"
proof -
  have p: "path_type example_struct [(32, 1), (64, 0)] = Some (IntegerTy 32)" "path_type example_struct [(32, 1), (64, 2)] = Some (IntegerTy 32)"
    by (simp_all add: example_struct_def)
  have o: "getIndexedOffsetInType layout_2003f example_struct [(32, 0), (32, 1), (64, 0)] = Inr 4"
    "getIndexedOffsetInType layout_2003f example_struct [(32, 0), (32, 1), (64, 2)] = Inr 12"
    "getTypeAllocSize layout_2003f (IntegerTy 32) = Inr 4"
    by code_simp+
  have "4 + 4 \<le> (12 :: int) \<or> 12 + 4 \<le> (4 :: int)"
    by (rule gep_disjoint [OF layout_2003f example_fits(1) p _ _ o(1,2,3,3)]) simp_all
  then show ?thesis using o by blast
qed

section \<open>The tables\<close>

text \<open>
  C19. After \<open>setAlignment\<close> the table is still well formed, and a lookup finds what it would find in the old table
  without the entry of that type and width but with the new one: for an integer the narrowest entry that is wide
  enough or else the widest, for the other types the entry of that width.
\<close>

theorem setAlignment_lookup:
  assumes "setAlignment t abi pref w DL = Inr DL'" "reset_layout Desc = Inr DL" "0 \<le> w" "0 \<le> abi" "0 \<le> pref"
    and "t = AGGREGATE_ALIGN \<or> abi \<noteq> 0"
  shows "layout_ok DL' \<and> (table_alignment (Alignments DL') t' w' ABIInfo = Some a \<longleftrightarrow>
    (\<exists>E. serves (new_elem t abi pref w # filter (\<lambda>E. \<not> has_key t w E) (Alignments DL)) t' w' E \<and> a = (if ABIInfo then ABIAlign E else PrefAlign E)))"
proof -
  have ok: "layout_ok DL" by (rule reset_layout_ok [OF assms(2)])
  have ok': "layout_ok DL'" using setAlignment_ok [OF assms(1) ok assms(3-5)] assms(6) by blast
  obtain xs ys where DL': "DL' = DL\<lparr>Alignments := xs @ new_elem t abi pref w # ys\<rparr>"
    and rest: "set xs \<union> set ys = {E \<in> set (Alignments DL). \<not> has_key t w E}"
    by (rule setAlignment_table [OF assms(1) layout_okD(1) [OF ok]])
  have "set (Alignments DL') = set (new_elem t abi pref w # filter (\<lambda>E. \<not> has_key t w E) (Alignments DL))"
    unfolding DL' using rest by auto
  from serves_set_cong [OF this] show ?thesis using table_alignment_Some_iff [OF layout_okD(1) [OF ok']] ok' by simp
qed

theorem setAlignment_lookup_witness:
  "\<exists>DL'. setAlignment INTEGER_ALIGN 8 8 64 layout_2003f = Inr DL' \<and> layout_ok DL' \<and>
    (\<exists>E. serves (new_elem INTEGER_ALIGN 8 8 64 # filter (\<lambda>E. \<not> has_key INTEGER_ALIGN 64 E) (Alignments layout_2003f)) INTEGER_ALIGN 48 E \<and> 8 = ABIAlign E)"
proof -
  have "\<not> isl (setAlignment INTEGER_ALIGN 8 8 64 layout_2003f)" by code_simp
  then obtain DL' where s: "setAlignment INTEGER_ALIGN 8 8 64 layout_2003f = Inr DL'" by (metis isl_def sum.exhaust)
  have "table_alignment (Alignments (projr (setAlignment INTEGER_ALIGN 8 8 64 layout_2003f))) INTEGER_ALIGN 48 True = Some 8" by code_simp
  then have "table_alignment (Alignments DL') INTEGER_ALIGN 48 True = Some 8" by (simp add: s)
  then show ?thesis using setAlignment_lookup [OF s layout_2003f, of INTEGER_ALIGN 48 True 8] s by auto
qed

section \<open>What the checks of the string leave out\<close>

text \<open>
  A legal width is checked before it is stored in a byte, so the width 256 is accepted and stored as 0.
\<close>

theorem legal_width_truncated:
  "\<exists>DL. reset_layout ''n256'' = Inr DL \<and> LegalIntWidths DL = [0] \<and> \<not> isLegalInteger DL 256"
proof -
  have "case reset_layout ''n256'' of Inl _ \<Rightarrow> False | Inr DL \<Rightarrow> LegalIntWidths DL = [0] \<and> \<not> isLegalInteger DL 256" by code_simp
  then show ?thesis by (auto split: sum.splits)
qed

text \<open>Layouts that differ in their non-integral address spaces compare as equal.\<close>

theorem layout_eq_ignores_non_integral:
  "\<exists>DL DL'. reset_layout ''ni:1'' = Inr DL \<and> reset_layout ''ni:2'' = Inr DL' \<and> layout_eq DL DL' \<and>
    NonIntegralAddressSpaces DL \<noteq> NonIntegralAddressSpaces DL'"
proof -
  have "case reset_layout ''ni:1'' of Inl _ \<Rightarrow> False | Inr DL \<Rightarrow> case reset_layout ''ni:2'' of Inl _ \<Rightarrow> False | Inr DL' \<Rightarrow>
      layout_eq DL DL' \<and> NonIntegralAddressSpaces DL \<noteq> NonIntegralAddressSpaces DL'" by code_simp
  then show ?thesis by (auto split: sum.splits)
qed

end
