(* ===== verification/Spec2Isabelle.thy ===== *)
theory Spec2Isabelle
  imports FiMalkrzPass PEIPass ISelLower ISelSelect RangeArith AsmData AsmPrint LayoutSound
begin

text \<open>
  A verification library for the 2003f backend of LLVM: the target \<open>lib/Target/F2003f\<close> and the generic code of LLVM that
  carries it from the selected instructions to the text of an assembly file. All paths are those of the repository.

  \<^bold>\<open>The program.\<close> The compiler gets a module in LLVM IR with a data layout string. The data layout decides the sizes, alignments
  and offsets of types; ranges of integers are the abstract values of the analyses over the IR. Instruction selection turns the
  IR of a function into a graph; the target lowers calls, returns, arguments, comparisons and symbols of it and selects memory
  operands. After register allocation a function is a list of blocks of machine instructions with abstract stack objects;
  the pass \<open>PEI\<close> lays out the frame, saves registers, inserts prologue and epilogue and replaces frame indices by offsets
  from the stack pointer \<open>F5\<close>; the pass \<open>F2003fFiMalkrz\<close> expands the compare-and-move pseudo instructions into bundles. The
  printer lowers each instruction to machine code operands with symbolic expressions and hands it to a streamer, which
  writes the text, with labels behind the statements they mark and data collected to the current alignment.

  \<^bold>\<open>The theories\<close>, in the order of their imports.

  \<^item> \<open>Prelude\<close>: the ways in which the C++ code stops (\<open>failure\<close>: a failed assertion, an unreachable place or undefined behaviour, a
    fatal error), results as sums, sequencing (\<open>bind_result\<close>) and folds over them, the arithmetic of 32- and 64-bit integers
    written out on \<open>int\<close>.
  \<^item> \<open>CondCode\<close>: \<open>F2003fCC\<close> of \<open>F2003f.h\<close>, and the locale \<open>negatable_condition\<close> for the negation of codes.
  \<^item> \<open>MachineIR\<close>, \<open>ISA\<close>: registers, opcodes, operands (\<open>MachineOperand.h\<close>) and descriptors of the \<open>.td\<close> files; a
    semantics of the instructions read off their selection patterns, over registers and big-endian bytes. \<open>run_block\<close> runs a block
    to the way control leaves it: to a block, or with a return. It is the specification that the code generation theories
    are proved against.
  \<^item> \<open>BranchAnalysis\<close>, \<open>FiMalkrzPass\<close>: \<open>F2003fInstrInfo.cpp\<close> (\<open>analyzeBranch\<close>, \<open>insertBranch\<close>, \<open>removeBranch\<close>, spills and reloads) and
    \<open>F2003fFiMalkrz.cpp\<close>. What the analysis returns describes where the block goes; rewriting a block from its analysis, and
    the expansion of pseudo instructions, keep what it computes.
  \<^item> \<open>MathExtras\<close>, \<open>PowerMath\<close>: the alignment arithmetic and the powers of two of \<open>MathExtras.h\<close>, with their wrap-around.
  \<^item> \<open>FrameInfo\<close>, \<open>FrameLayout\<close>, \<open>FrameEstimate\<close>: \<open>MachineFrameInfo\<close> and \<open>PEI::calculateFrameObjectOffsets\<close>, for both stack
    directions, with callee-saved areas, protector, scavenging slots and the filling of holes. Live objects are disjoint, aligned and
    inside the frame; on the 2003f the layout always succeeds and the estimate of the size is exact.
  \<^item> \<open>PrologEpilog\<close>, \<open>ReplaceIndices\<close>, \<open>CalleeSaves\<close>, \<open>PEIPass\<close>: the rest of \<open>PrologEpilogInserter.cpp\<close> with the hooks of
    \<open>F2003fFrameLowering.cpp\<close> and \<open>F2003fRegisterInfo.cpp\<close>, up to \<open>runOnMachineFunction\<close>. Resolved code computes what it computed
    with frame indices, block by block and for the whole function; saved registers survive; the pass as a whole keeps
    the meaning of the function and returns with the stack pointer of the entry.
  \<^item> \<open>CallLower\<close>, \<open>SelDAG\<close>, \<open>ISelLower\<close>, \<open>ISelSelect\<close>: the state of a calling convention (\<open>CallingConvLower.h\<close> and \<open>.cpp\<close>, the
    locale \<open>bump_allocator\<close> for its stack), nodes with their meaning, \<open>F2003fISelLowering.cpp\<close> and the hand-written part of
    \<open>F2003fISelDAGToDAG.cpp\<close>. What the caller passes is what the callee loads, results come back, lowered nodes mean what
    the generic ones mean.
  \<^item> \<open>ConstantRange\<close>, \<open>RangeArith\<close>: \<open>ConstantRange.cpp\<close> at every width. Set operations give a smallest range, comparison
    regions are exact, arithmetic is sound. The locale \<open>bounded_order\<close> is interpreted for the unsigned and the signed
    order.
  \<^item> \<open>SymbolNames\<close>, \<open>MCExprs\<close>, \<open>LEB128\<close>, \<open>InstPrint\<close>: the quoting of \<open>F2003fMCAsmInfo.cpp\<close>, the expressions of \<open>MCExpr.cpp\<close>, the
    variable-length numbers, and \<open>F2003fInstPrinter.cpp\<close>. Printed names, numbers and operands are read back; evaluation is sound for
    every assignment of addresses.
  \<^item> \<open>AsmStream\<close>, \<open>AsmData\<close>: \<open>F2003fMCAsmStreamer.cpp\<close> with the operations of \<open>MCStreamer.cpp\<close> it inherits. The locales \<open>data_sink\<close>
    and \<open>data_streamer\<close> state what the virtual functions of a streamer promise, so that the operations written in terms of
    them (fills, zeros, LEB128) are correct; they are interpreted on the functions of the target. What is emitted is read back
    from the text.
  \<^item> \<open>Mangle\<close>, \<open>AsmPrint\<close>: \<open>Mangler.cpp\<close> and the labels of the code generator, \<open>F2003fMCInstLower.cpp\<close>, \<open>F2003fAsmPrinter.cpp\<close> and, of
    \<open>AsmPrinter.cpp\<close>, the labels of blocks and the loop over a body with all the cases of its opcodes. Labels are distinct, a label
    that is left out is not needed, and instructions are printed in order.
  \<^item> \<open>DataLayout\<close>, \<open>LayoutTables\<close>, \<open>LayoutSizes\<close>, \<open>LayoutPaths\<close>, \<open>NumberParse\<close>, \<open>LayoutParser\<close>, \<open>LayoutSound\<close>: \<open>DataLayout.cpp\<close>
    with its string parser and the integer readers of \<open>StringRef\<close>. The tables are sorted maps; under every accepted string
    sizes, alignments, struct layouts and the offsets of paths are consistent.
  \<^item> This theory joins the layout of frames, the resolution of frame indices and the memory: two spill slots are two
    places.

  \<^bold>\<open>How the model follows the code.\<close> A class is a record, a method a definition that takes the record and returns it changed; an
  assertion, an unreachable place and a fatal error are values of \<open>failure\<close>. Integers keep their width, as words or with the wrap-around
  written out. Target hooks and command line options are fields of records (\<open>frame_target\<close>, \<open>cs_target\<close>, \<open>pei_target\<close>), with the
  answers of the 2003f as instances. What is generated at build time is an argument: the numbers of opcodes, the printed form
  of an instruction (\<open>printInstruction\<close>), the instruction matcher.

  \<^bold>\<open>Bounds and fuel.\<close> Loops of the code that end are total functions with a measure. Three have fuel or may not end: the evaluation of an
  expression follows variables, which may be cyclic, so it takes fuel, and \<open>evaluate_terminates\<close> gives an amount that is
  enough when the variables have a rank; \<open>run_function\<close>, a semantics and no code, bounds the number of blocks, and its theorems
  hold for every bound; the size of a signed LEB128 number is a \<open>partial_function\<close>. \<open>fits\<close> bounds the types for which the layout
  theorems hold, so that sizes in bits stay below 64 bits.

  \<^bold>\<open>What is not modelled.\<close> Other targets and the passes over the IR; legalization, combining, the generated matcher and
  scheduling of the selection; register allocation and the register scavenger; inline assembly and the contents of comments; debug
  information, call frame directives and exception tables, which the assembler of the 2003f does not have; object files; caches,
  statistics and printing for debugging.
\<close>

section \<open>The frame, end to end\<close>

lemma live_getObjectOffset: "live fi i \<Longrightarrow> getObjectOffset fi i = Inr (SPOffset (object_at fi i))"
  by (simp add: live_def getObjectOffset_def get_object_def)

lemma erase_StackSize: "erase_offsets (fi\<lparr>StackSize := n\<rparr>) = (erase_offsets fi)\<lparr>StackSize := n\<rparr>"
  by (cases fi) (simp add: erase_offsets_def)

lemma live_erased:
  assumes "erase_offsets fi' = (erase_offsets fi)\<lparr>StackSize := n\<rparr>" "live fi i"
  shows "live fi' i" "Size (object_at fi' i) = Size (object_at fi i)"
proof -
  have "erase_offsets (fi'\<lparr>StackSize := 0\<rparr>) = erase_offsets (fi\<lparr>StackSize := 0\<rparr>)"
    using arg_cong [OF assms(1), of "\<lambda>f. f\<lparr>StackSize := 0\<rparr>"] by (simp add: erase_StackSize)
  note E = erase_offsets_eqD [OF this]
  have v: "valid_index (f\<lparr>StackSize := m\<rparr>) i = valid_index f i"
      "object_at (f\<lparr>StackSize := m\<rparr>) i = object_at f i" for f m
    by (simp_all add: valid_index_def object_at_def slot_of_def)
  show "live fi' i" "Size (object_at fi' i) = Size (object_at fi i)"
    using E(1,2) [of i] assms(2) by (auto simp: live_def v)
qed

text \<open>
  C22. Two spill slots of a laid-out frame are two places in memory. For a frame laid out for the 2003f
  with a stack size below \<open>2 ^ 30\<close>, and two live objects of a word or more, not both fixed: the code that
  spills a register to the first slot, another register to the second, and reloads the first, resolved
  by \<open>replaceFrameIndices\<close> and run with the stack pointer in the frame, gives the reloaded register the
  value of the first one.
\<close>

theorem spill_slots_disjoint:
  assumes "plain_frame fi" "calculateFrameObjectOffsets f2003f_target fi = Inr fi'"
    and "live fi i" "live fi j" "i \<noteq> j" "0 \<le> i \<or> 0 \<le> j"
    and "4 \<le> Size (object_at fi i)" "4 \<le> Size (object_at fi j)" "StackSize fi' < 2 ^ 30"
    and "frame_env fi' A e" "sp_at fi' A SPAdj s" "d \<noteq> F5"
  shows "\<exists>mis' sp s'. replaceFrameIndices f2003f_target fi' SPAdj
        [storeRegToStackSlot r k i, storeRegToStackSlot r' k' j, loadRegFromStackSlot d i] = Inr (mis', sp)
      \<and> run_block e None mis' s = Some (s', To None) \<and> regs s' d = regs s r"
proof -
  let ?b = "[storeRegToStackSlot r k i, storeRegToStackSlot r' k' j, loadRegFromStackSlot d i]"
  note sound = layout_sound [OF plain_layout_hyps [OF f2003f_plain assms(1)] assms(2)]
  let ?x = "SPOffset (object_at fi' i)" and ?y = "SPOffset (object_at fi' j)"
  have er: "erase_offsets fi' = (erase_offsets fi)\<lparr>StackSize := StackSize fi'\<rparr>" using sound by blast
  note li = live_erased [OF er assms(3)] and lj = live_erased [OF er assms(4)]
  note oi = live_getObjectOffset [OF li(1)] and oj = live_getObjectOffset [OF lj(1)]
  have "bytes_of (object_at fi' i) \<inter> bytes_of (object_at fi' j) = {}"
    using sound assms(3-6) by blast
  then have dis: "{?x ..< ?x + 4} \<inter> {?y ..< ?y + 4} = {}"
    using assms(7,8) li(2) lj(2) by (auto simp: bytes_of_def)
  have bound: "\<bar>SPOffset (object_at fi' x)\<bar> < 2 ^ 31
      \<and> (0 \<le> x \<longrightarrow> \<bar>SPOffset (object_at fi' x)\<bar> < 2 ^ 30)"
    if "live fi x" "4 \<le> Size (object_at fi x)" for x
  proof (cases "0 \<le> x")
    case True
    then have "- StackSize fi' \<le> SPOffset (object_at fi' x)" "SPOffset (object_at fi' x) + Size (object_at fi x) \<le> 0"
      using sound that(1) by (auto simp: local_area_offset_def f2003f_target_def)
    then show ?thesis using that(2) assms(9) by auto
  next
    case False
    then have "SPOffset (object_at fi' x) = SPOffset (object_at fi x)" using sound that(1) by auto
    then show ?thesis using False that(1) assms(1) by (auto simp: plain_frame_def small_frame_def)
  qed
  have e: "e (MO_FrameIndex i) = A + word_of_int ?x" "e (MO_FrameIndex j) = A + word_of_int ?y"
    using assms(10) oi oj by (auto simp: frame_env_def)
  have "\<bar>?x - ?y\<bar> < 2 ^ 32 - 4"
    using bound [OF assms(3,7)] bound [OF assms(4,8)] assms(6) by auto
  then have sep: "separated (e (MO_FrameIndex j)) (e (MO_FrameIndex i))"
    unfolding e using separated_offsets [of ?y ?x A] dis by (auto simp: Int_commute abs_minus_commute)
  have ok: "\<forall>mi \<in> set ?b. resolvable mi"
    using assms(12) by (auto simp: resolvable_def storeRegToStackSlot_def loadRegFromStackSlot_def
        isFrameInstr_def fi_shape_Mem fi_shape_other keeps_F5_def)
  obtain mis' sp where r: "replaceFrameIndices f2003f_target fi' SPAdj ?b = Inr (mis', sp)"
    using oi oj
    by (auto simp: replaceFrameIndices_def storeRegToStackSlot_def loadRegFromStackSlot_def isFrameInstr_def
        eliminateFrameIndex_def get_operand_def Let_def)
  have "run_block e None mis' s = run_block e None ?b s"
    by (rule replace_loop_runs [OF assms(10,11) ok]) (use r in \<open>simp add: replaceFrameIndices_def\<close>)
  moreover have "\<exists>s'. run_block e None ?b s = Some (s', To None) \<and> regs s' d = regs s r"
    using load32_separated [OF sep]
    by (simp add: run_store_slot run_load_slot load32_store32 del: run_block.simps(2))
  ultimately show ?thesis using r by metis
qed

definition frame_address :: "frame_info \<Rightarrow> 32 word \<Rightarrow> env" where
  "frame_address fi A x = (case bind_result (operand_index x) (getObjectOffset fi) of
     Inr off \<Rightarrow> A + word_of_int off | Inl _ \<Rightarrow> 0)"

lemma frame_env_address: "frame_env fi A (frame_address fi A)"
  by (simp add: frame_env_def frame_address_def)

theorem spill_slots_disjoint_witness:
  "\<exists>mis' sp s'. replaceFrameIndices f2003f_target demo_laid_out 0
        [storeRegToStackSlot F0 True 0, storeRegToStackSlot F1 True 2, loadRegFromStackSlot F2 0] = Inr (mis', sp)
      \<and> run_block (frame_address demo_laid_out 108) None mis' word_state = Some (s', To None)
      \<and> regs s' F2 = regs word_state F0"
proof -
  have "live demo_frame 0" "live demo_frame 2" by (simp_all add: demo_live)
  moreover have "4 \<le> Size (object_at demo_frame 0)" "4 \<le> Size (object_at demo_frame 2)"
    by (simp_all add: demo_objects StackObject_def)
  moreover have "StackSize demo_laid_out < 2 ^ 30" by (simp add: demo_laid_out_def)
  moreover have "sp_at demo_laid_out 108 0 word_state"
    by (simp add: sp_at_def word_state_def demo_laid_out_def)
  ultimately show ?thesis
    using spill_slots_disjoint [OF demo_plain demo_layout, of 0 2 108 "frame_address demo_laid_out 108" 0 word_state F2 F0 True F1 True]
      frame_env_address by simp
qed

end
